(* ===== verification/Prelude.thy ===== *)
theory Prelude
  imports Main "HOL-Library.Word" "HOL-Library.Monad_Syntax"
begin

unbundle bit_operations_syntax

text \<open>
  Shared vocabulary of the development: the machine integer types of the C++ sources, the
  collections of rewrite rules the component theories use, and the list, map and word facts
  that more than one component needs.
\<close>

section \<open>Machine integers and collections\<close>

type_synonym u8 = "8 word"
type_synonym u16 = "16 word"
type_synonym u32 = "32 word"
type_synonym u64 = "64 word"
type_synonym u128 = "128 word"

text \<open>
  \<open>sched_simps\<close> collects what the scheduler's critical sections do to the parts of its state,
  \<open>kern_simps\<close> the same for the kernel objects, \<open>cpu_simps\<close> the evaluation rules of the IOP
  interpreter and \<open>dec_simps\<close> those of the instruction decoder.
\<close>

named_theorems sched_simps
named_theorems kern_simps
named_theorems cpu_simps
named_theorems dec_simps

text \<open>
  A C++ \<open>int\<close> is an \<^typ>\<open>int\<close> in the range of a 32-bit two's complement value; \<open>to_int\<close>
  is the conversion \<open>static_cast<int>(uint32_t)\<close> and \<open>of_int32\<close> the way back.
\<close>

definition to_int :: "u32 \<Rightarrow> int" where
  "to_int w = sint w"

definition of_int32 :: "int \<Rightarrow> u32" where
  "of_int32 i = word_of_int i"

lemma to_int_of_int32: "- (2 ^ 31) \<le> i \<Longrightarrow> i < 2 ^ 31 \<Longrightarrow> to_int (of_int32 i) = i"
  unfolding to_int_def of_int32_def
  by (simp add: signed_of_int signed_take_bit_int_eq_self)

lemma to_int_bounds: "- (2 ^ 31) \<le> to_int w" "to_int w < 2 ^ 31"
  using sint_ge [of w] sint_lt [of w] by (simp_all add: to_int_def)

lemma unat_less_2p: "unat (w :: 'a::len word) < 2 ^ LENGTH('a)"
  by (rule unsigned_less)

section \<open>Lists\<close>

text \<open>
  Stable insertion behind every element that satisfies \<open>P\<close> as a prefix: the list that a
  pointer walk \<open>while (*pp && P(*pp)) pp = &(*pp)->next\<close> followed by a splice produces.
\<close>

definition insert_after :: "('a \<Rightarrow> bool) \<Rightarrow> 'a \<Rightarrow> 'a list \<Rightarrow> 'a list" where
  "insert_after P x xs = takeWhile P xs @ x # dropWhile P xs"

lemma insert_after_Nil [simp]: "insert_after P x [] = [x]"
  by (simp add: insert_after_def)

lemma insert_after_Cons [simp]:
  "insert_after P x (y # ys) = (if P y then y # insert_after P x ys else x # y # ys)"
  by (simp add: insert_after_def)

lemma set_insert_after [simp]: "set (insert_after P x xs) = insert x (set xs)"
  by (induction xs) auto

lemma length_insert_after [simp]: "length (insert_after P x xs) = Suc (length xs)"
  by (induction xs) auto

lemma distinct_insert_after [simp]:
  "distinct (insert_after P x xs) \<longleftrightarrow> x \<notin> set xs \<and> distinct xs"
  by (induction xs) auto

lemma insert_after_cong:
  "(\<And>y. y \<in> set xs \<Longrightarrow> P y = Q y) \<Longrightarrow> insert_after P x xs = insert_after Q x xs"
  by (induction xs) auto

lemma filter_insert_after_other:
  "\<not> Q x \<Longrightarrow> filter Q (insert_after P x xs) = filter Q xs"
  by (induction xs) auto

lemma remove1_insert_after: "x \<notin> set xs \<Longrightarrow> remove1 x (insert_after P x xs) = xs"
  by (induction xs) auto

lemma sorted_insert_after:
  fixes f :: "'a \<Rightarrow> 'b::linorder"
  assumes "sorted (map f xs)"
  shows "sorted (map f (insert_after (\<lambda>y. f y \<le> f x) x xs))"
  using assms by (induction xs) (auto simp: not_le dest: less_imp_le)

text \<open>On a sorted list the insertion goes behind all elements of the same key.\<close>

lemma filter_insert_after_eq:
  fixes f :: "'a \<Rightarrow> 'b::linorder"
  assumes "sorted (map f xs)"
  shows "filter (\<lambda>y. f y = f x) (insert_after (\<lambda>y. f y \<le> f x) x xs)
         = filter (\<lambda>y. f y = f x) xs @ [x]"
  using assms
proof (induction xs)
  case (Cons y ys)
  then show ?case
  proof (cases "f y \<le> f x")
    case False
    with Cons.prems have "\<forall>z \<in> set (y # ys). f x < f z" by auto
    then have "filter (\<lambda>z. f z = f x) (y # ys) = []" by (auto simp: filter_empty_conv)
    with False show ?thesis by simp
  qed auto
qed simp

lemma sorted_map_remove1:
  "sorted (map f xs) \<Longrightarrow> sorted (map f (remove1 x xs))"
  by (induction xs) (auto dest: notin_set_remove1 set_remove1_subset [THEN subsetD])

lemma sorted_map_filter_key:
  "sorted (map f xs) \<Longrightarrow> sorted (map f (filter P xs))"
  by (rule sorted_filter)

section \<open>Maps\<close>

lemma map_upd_Some_iff: "(m(k \<mapsto> v)) x = Some y \<longleftrightarrow> (if x = k then y = v else m x = Some y)"
  by auto

end
