(* ===== verification/GuestMemory.thy ===== *)
theory GuestMemory
  imports Prelude
begin

text \<open>
  EE memory as the recompiled code sees it: the address resolution of
  \<open>runtime/ps2_memory.h\<close> and the masked fast-path accessors \<open>Ps2FastRead*\<close> / \<open>Ps2FastWrite*\<close> of
  \<open>ps2_runtime_macros.h\<close>. RDRAM is a function from offsets to bytes; a host pointer is the
  array it points into together with an offset.
\<close>

section \<open>Bytes and little-endian values\<close>

type_synonym bytes = "nat \<Rightarrow> u8"

definition word_of_bytes :: "u8 list \<Rightarrow> 'a::len word" where
  "word_of_bytes bs = foldr (\<lambda>b acc. push_bit 8 acc OR ucast b) bs 0"

definition bytes_of_word :: "nat \<Rightarrow> 'a::len word \<Rightarrow> u8 list" where
  "bytes_of_word n w = map (\<lambda>i. ucast (drop_bit (8 * i) w)) [0..<n]"

lemma word_of_bytes_simps [simp]:
  "word_of_bytes [] = 0" "word_of_bytes (b # bs) = push_bit 8 (word_of_bytes bs) OR ucast b"
  by (simp_all add: word_of_bytes_def)

lemma length_bytes_of_word [simp]: "length (bytes_of_word n w) = n"
  by (simp add: bytes_of_word_def)

lemma bit_word_of_bytes:
  "bit (word_of_bytes bs :: 'a::len word) k \<longleftrightarrow>
     k < LENGTH('a) \<and> k < 8 * length bs \<and> bit (bs ! (k div 8)) (k mod 8)"
proof (induction bs arbitrary: k)
  case (Cons b bs)
  show ?case
  proof (cases "k < 8")
    case False
    then obtain j where "k = j + 8" by (metis le_add_diff_inverse2 not_less)
    moreover have "(j + 8) div 8 = Suc (j div 8)" by simp
    moreover have "\<not> bit b (j + 8)" using bit_imp_le_length [of b "j + 8"] by auto
    ultimately show ?thesis by (auto simp: Cons.IH bit_simps)
  qed (auto simp: bit_simps)
qed simp

lemma word_of_bytes_of_word:
  fixes w :: "'a::len word"
  assumes "LENGTH('a) \<le> 8 * n"
  shows "word_of_bytes (bytes_of_word n w) = w"
proof (rule bit_word_eqI)
  fix k assume k: "k < LENGTH('a)"
  with assms have "k div 8 < n" by auto
  with k assms show "bit (word_of_bytes (bytes_of_word n w) :: 'a word) k = bit w k"
    by (simp add: bit_word_of_bytes bytes_of_word_def bit_simps)
qed

lemma nth_bytes_of_word: "i < n \<Longrightarrow> bytes_of_word n w ! i = ucast (drop_bit (8 * i) w)"
  by (simp add: bytes_of_word_def)

text \<open>\<open>memcpy\<close> out of and into an array.\<close>

definition copy_out :: "bytes \<Rightarrow> nat \<Rightarrow> nat \<Rightarrow> u8 list" where
  "copy_out m off n = map m [off..<off + n]"

definition copy_in :: "nat \<Rightarrow> u8 list \<Rightarrow> bytes \<Rightarrow> bytes" where
  "copy_in off bs m = (\<lambda>i. if off \<le> i \<and> i < off + length bs then bs ! (i - off) else m i)"

lemma length_copy_out [simp]: "length (copy_out m off n) = n"
  by (simp add: copy_out_def)

lemma nth_copy_out [simp]: "i < n \<Longrightarrow> copy_out m off n ! i = m (off + i)"
  by (simp add: copy_out_def)

lemma copy_out_in: "copy_out (copy_in off bs m) off (length bs) = bs"
  by (rule nth_equalityI) (simp_all add: copy_in_def)

section \<open>Address resolution\<close>

definition PS2_RAM_SIZE :: u32 where "PS2_RAM_SIZE = 32 * 1024 * 1024"
definition PS2_RAM_MASK :: u32 where "PS2_RAM_MASK = PS2_RAM_SIZE - 1"
definition PS2_SCRATCHPAD_BASE :: u32 where "PS2_SCRATCHPAD_BASE = 0x70000000"
definition PS2_SCRATCHPAD_SIZE :: u32 where "PS2_SCRATCHPAD_SIZE = 16 * 1024"

lemmas ram_defs = PS2_RAM_SIZE_def PS2_RAM_MASK_def PS2_SCRATCHPAD_BASE_def PS2_SCRATCHPAD_SIZE_def

definition ps2IsScratchpadAddress :: "u32 \<Rightarrow> bool" where
  "ps2IsScratchpadAddress addr =
     (if addr \<ge> PS2_SCRATCHPAD_BASE \<and> addr < PS2_SCRATCHPAD_BASE + PS2_SCRATCHPAD_SIZE then True
      else if addr AND 0x80000000 \<noteq> 0 then
        (let lower = addr AND 0x7FFFFFFF in
         lower \<ge> PS2_SCRATCHPAD_BASE \<and> lower < PS2_SCRATCHPAD_BASE + PS2_SCRATCHPAD_SIZE)
      else False)"

definition ps2ScratchpadOffset :: "u32 \<Rightarrow> u32" where
  "ps2ScratchpadOffset addr =
     (if addr \<ge> PS2_SCRATCHPAD_BASE \<and> addr < PS2_SCRATCHPAD_BASE + PS2_SCRATCHPAD_SIZE
      then addr - PS2_SCRATCHPAD_BASE
      else (addr AND 0x7FFFFFFF) - PS2_SCRATCHPAD_BASE)"

text \<open>The result is the offset and whether it is into the scratchpad; the call never fails.\<close>

definition ps2ResolveGuestPointer :: "u32 \<Rightarrow> (u32 \<times> bool) option" where
  "ps2ResolveGuestPointer addr =
     (if ps2IsScratchpadAddress addr then Some (ps2ScratchpadOffset addr, True)
      else let phys = (if addr < 0x20000000 then addr
                       else if (addr \<ge> 0x20000000 \<and> addr < 0x40000000) \<or> (addr \<ge> 0x80000000 \<and> addr < 0xC0000000)
                       then addr AND 0x1FFFFFFF else 0);
               phys = (if phys \<ge> PS2_RAM_SIZE then phys AND PS2_RAM_MASK else phys)
           in Some (phys, False))"

datatype host_ptr = RdramPtr u32 | ScratchPtr u32

definition getMemPtr :: "bool \<Rightarrow> bool \<Rightarrow> u32 \<Rightarrow> host_ptr option" where
  "getMemPtr rdram_null scratch_null addr =
     (if rdram_null then None
      else case ps2ResolveGuestPointer addr of
        None \<Rightarrow> None
      | Some (offset, scratch) \<Rightarrow>
          if scratch then (if scratch_null then None else Some (ScratchPtr offset))
          else Some (RdramPtr offset))"

section \<open>Fast-path accessors\<close>

definition Ps2FastRangeIsContiguous :: "u32 \<Rightarrow> u32 \<Rightarrow> bool" where
  "Ps2FastRangeIsContiguous offset n \<longleftrightarrow> offset \<le> PS2_RAM_SIZE - n"

text \<open>The body the accessors share, for a value of \<open>n\<close> bytes.\<close>

definition fast_read :: "bytes \<Rightarrow> u32 \<Rightarrow> nat \<Rightarrow> u8 list" where
  "fast_read rdram addr n =
     (let offset = addr AND PS2_RAM_MASK in
      if \<not> Ps2FastRangeIsContiguous offset (of_nat n)
      then map (\<lambda>i. rdram (unat ((offset + of_nat i) AND PS2_RAM_MASK))) [0..<n]
      else copy_out rdram (unat offset) n)"

definition fast_write :: "bytes \<Rightarrow> u32 \<Rightarrow> u8 list \<Rightarrow> bytes" where
  "fast_write rdram addr bs =
     (let offset = addr AND PS2_RAM_MASK in
      if \<not> Ps2FastRangeIsContiguous offset (of_nat (length bs))
      then fold (\<lambda>i m. m(unat ((offset + of_nat i) AND PS2_RAM_MASK) := bs ! i)) [0..<length bs] rdram
      else copy_in (unat offset) bs rdram)"

definition Ps2FastRead8 :: "bytes \<Rightarrow> u32 \<Rightarrow> u8" where
  "Ps2FastRead8 rdram addr = rdram (unat (addr AND PS2_RAM_MASK))"

definition Ps2FastRead16 :: "bytes \<Rightarrow> u32 \<Rightarrow> u16" where
  "Ps2FastRead16 rdram addr = word_of_bytes (fast_read rdram addr 2)"

definition Ps2FastRead32 :: "bytes \<Rightarrow> u32 \<Rightarrow> u32" where
  "Ps2FastRead32 rdram addr = word_of_bytes (fast_read rdram addr 4)"

definition Ps2FastRead64 :: "bytes \<Rightarrow> u32 \<Rightarrow> u64" where
  "Ps2FastRead64 rdram addr = word_of_bytes (fast_read rdram addr 8)"

definition Ps2FastRead128 :: "bytes \<Rightarrow> u32 \<Rightarrow> u128" where
  "Ps2FastRead128 rdram addr = word_of_bytes (fast_read rdram addr 16)"

definition Ps2FastWrite8 :: "bytes \<Rightarrow> u32 \<Rightarrow> u8 \<Rightarrow> bytes" where
  "Ps2FastWrite8 rdram addr v = rdram(unat (addr AND PS2_RAM_MASK) := v)"

definition Ps2FastWrite16 :: "bytes \<Rightarrow> u32 \<Rightarrow> u16 \<Rightarrow> bytes" where
  "Ps2FastWrite16 rdram addr v = fast_write rdram addr (bytes_of_word 2 v)"

definition Ps2FastWrite32 :: "bytes \<Rightarrow> u32 \<Rightarrow> u32 \<Rightarrow> bytes" where
  "Ps2FastWrite32 rdram addr v = fast_write rdram addr (bytes_of_word 4 v)"

definition Ps2FastWrite64 :: "bytes \<Rightarrow> u32 \<Rightarrow> u64 \<Rightarrow> bytes" where
  "Ps2FastWrite64 rdram addr v = fast_write rdram addr (bytes_of_word 8 v)"

definition Ps2FastWrite128 :: "bytes \<Rightarrow> u32 \<Rightarrow> u128 \<Rightarrow> bytes" where
  "Ps2FastWrite128 rdram addr v = fast_write rdram addr (bytes_of_word 16 v)"

section \<open>The accessors are bytewise accesses modulo the RAM size\<close>

lemma unat_mask_RAM: "unat (w AND PS2_RAM_MASK) = unat w mod 2 ^ 25"
proof -
  have "w AND PS2_RAM_MASK = take_bit 25 w"
    by (simp add: ram_defs take_bit_eq_mask mask_eq_exp_minus_1)
  moreover have "unat (take_bit 25 w) = take_bit 25 (unat w)" by (rule unsigned_take_bit_eq)
  ultimately show ?thesis by (simp only: take_bit_eq_mod)
qed

text \<open>The byte offset of the \<open>i\<close>-th byte of an access.\<close>

definition ram_byte :: "u32 \<Rightarrow> nat \<Rightarrow> nat" where
  "ram_byte addr i = (unat addr + i) mod 2 ^ 25"

lemma offset_byte:
  assumes "i \<le> 2 ^ 25"
  shows "unat (((addr AND PS2_RAM_MASK) + of_nat i) AND PS2_RAM_MASK) = ram_byte addr i"
proof -
  have "unat (addr AND PS2_RAM_MASK) + i < 2 ^ 32"
    using assms unat_mask_RAM [of addr] by (simp add: add.commute less_le_trans)
  moreover have "unat (of_nat i :: u32) = i" using assms by (simp add: unat_of_nat)
  ultimately have "unat ((addr AND PS2_RAM_MASK) + of_nat i) = unat (addr AND PS2_RAM_MASK) + i"
    by (simp add: unat_word_ariths)
  then show ?thesis by (simp add: unat_mask_RAM ram_byte_def mod_add_left_eq)
qed

lemma contiguous_byte:
  assumes "Ps2FastRangeIsContiguous (addr AND PS2_RAM_MASK) (of_nat n)" "n \<le> 2 ^ 25" "i < n"
  shows "unat (addr AND PS2_RAM_MASK) + i = ram_byte addr i"
proof -
  have "unat (PS2_RAM_SIZE - of_nat n :: u32) = 2 ^ 25 - n"
    using assms(2) by (subst unat_sub) (simp_all add: ram_defs word_le_nat_alt unat_of_nat)
  with assms(1) have "unat addr mod 2 ^ 25 + n \<le> 2 ^ 25"
    using assms(2) by (simp add: Ps2FastRangeIsContiguous_def word_le_nat_alt unat_mask_RAM)
  with assms(3) have "(unat addr mod 2 ^ 25 + i) mod 2 ^ 25 = unat addr mod 2 ^ 25 + i" by simp
  then show ?thesis by (simp only: unat_mask_RAM ram_byte_def mod_add_left_eq)
qed

lemma fast_read_bytewise:
  assumes "n \<le> 2 ^ 25"
  shows "fast_read rdram addr n = map (\<lambda>i. rdram (ram_byte addr i)) [0..<n]"
proof (cases "Ps2FastRangeIsContiguous (addr AND PS2_RAM_MASK) (of_nat n)")
  case True
  have "copy_out rdram (unat (addr AND PS2_RAM_MASK)) n = map (\<lambda>i. rdram (ram_byte addr i)) [0..<n]"
    by (rule nth_equalityI) (simp_all add: contiguous_byte [OF True assms])
  with True show ?thesis by (simp add: fast_read_def)
next
  case False
  with assms show ?thesis by (simp add: fast_read_def offset_byte)
qed

lemma ram_byte_inj: "i < 2 ^ 25 \<Longrightarrow> j < 2 ^ 25 \<Longrightarrow> ram_byte addr i = ram_byte addr j \<Longrightarrow> i = j"
proof (induction i j rule: linorder_wlog)
  case (le i j)
  then have "(unat addr + j - (unat addr + i)) mod 2 ^ 25 = 0"
    unfolding ram_byte_def by (metis add_le_cancel_left mod_eq_dvd_iff_nat mod_0_imp_dvd dvd_imp_mod_0)
  with le show ?case by simp
qed simp

lemma fold_upd_distinct:
  assumes "distinct (map g is)"
  shows "fold (\<lambda>i m. m(g i := f i)) is m x =
    (case find (\<lambda>i. g i = x) is of Some i \<Rightarrow> f i | None \<Rightarrow> m x)"
  using assms
proof (induction "is" arbitrary: m)
  case (Cons i "is")
  have "find (\<lambda>j. g j = x) is = None" if "g i = x"
    using Cons.prems that by (auto simp: find_None_iff image_iff)
  with Cons show ?case by auto
qed simp

lemma fast_write_wrap:
  assumes "\<not> Ps2FastRangeIsContiguous (addr AND PS2_RAM_MASK) (of_nat (length bs))" "length bs \<le> 2 ^ 25"
  shows "fast_write rdram addr bs = fold (\<lambda>i m. m(ram_byte addr i := bs ! i)) [0..<length bs] rdram"
proof -
  have "fold (\<lambda>i m. m(unat ((addr AND PS2_RAM_MASK) + of_nat i AND PS2_RAM_MASK) := bs ! i)) [0..<length bs] rdram
      = fold (\<lambda>i m. m(ram_byte addr i := bs ! i)) [0..<length bs] rdram"
    using assms(2) by (intro fold_cong) (auto simp: offset_byte)
  with assms(1) show ?thesis by (simp add: fast_write_def Let_def)
qed

text \<open>One characterisation for both branches: the bytes at \<open>ram_byte addr i\<close> change, no other.\<close>

lemma fast_write_bytewise:
  assumes n: "length bs \<le> 2 ^ 24"
  shows "i < length bs \<Longrightarrow> fast_write rdram addr bs (ram_byte addr i) = bs ! i"
    and "(\<And>i. i < length bs \<Longrightarrow> x \<noteq> ram_byte addr i) \<Longrightarrow> fast_write rdram addr bs x = rdram x"
proof -
  let ?n = "length bs"
  have n25: "?n \<le> 2 ^ 25" using n by simp
  show "i < length bs \<Longrightarrow> fast_write rdram addr bs (ram_byte addr i) = bs ! i"
  proof (cases "Ps2FastRangeIsContiguous (addr AND PS2_RAM_MASK) (of_nat ?n)")
    case True
    assume i: "i < ?n"
    from True i show ?thesis
      by (simp add: fast_write_def copy_in_def Let_def flip: contiguous_byte [OF True n25 i])
  next
    case False
    assume i: "i < ?n"
    have lt: "a < 2 ^ 25" if "a < ?n" for a using that n by simp
    then have inj: "a = b" if "a < ?n" "b < ?n" "ram_byte addr a = ram_byte addr b" for a b
      using that by (blast intro: ram_byte_inj)
    then have "inj_on (ram_byte addr) {0..<?n}" by (simp add: inj_on_def)
    then have d: "distinct (map (ram_byte addr) [0..<?n])" by (simp add: distinct_map)
    moreover have "find (\<lambda>j. ram_byte addr j = ram_byte addr i) [0..<?n] = Some i"
    proof -
      have "ram_byte addr j \<noteq> ram_byte addr i" if "j < i" for j using inj [of j i] that i by auto
      with i show ?thesis by (auto simp: find_Some_iff intro!: exI [of _ i])
    qed
    ultimately show ?thesis using fast_write_wrap [OF False n25] fold_upd_distinct [OF d, of "\<lambda>i. bs ! i"] by simp
  qed
  assume x: "\<And>i. i < length bs \<Longrightarrow> x \<noteq> ram_byte addr i"
  show "fast_write rdram addr bs x = rdram x"
  proof (cases "Ps2FastRangeIsContiguous (addr AND PS2_RAM_MASK) (of_nat ?n)")
    case True
    have "x \<noteq> unat (addr AND PS2_RAM_MASK) + i" if "i < ?n" for i
      using x [OF that] contiguous_byte [OF True n25 that] by simp
    then have "\<not> (unat (addr AND PS2_RAM_MASK) \<le> x \<and> x < unat (addr AND PS2_RAM_MASK) + ?n)"
      by (metis le_add_diff_inverse nat_add_left_cancel_less)
    with True show ?thesis by (auto simp: fast_write_def copy_in_def Let_def)
  next
    case False
    have "fold (\<lambda>i m. m(ram_byte addr i := bs ! i)) is rdram x = rdram x"
      if "\<And>i. i \<in> set is \<Longrightarrow> i < ?n" for "is" rdram
      using that x by (induction "is" arbitrary: rdram) auto
    from this [of "[0..<?n]" rdram] show ?thesis by (simp add: fast_write_wrap [OF False n25])
  qed
qed

lemma fast_read_write:
  assumes "length bs \<le> 2 ^ 24"
  shows "fast_read (fast_write rdram addr bs) addr (length bs) = bs"
proof -
  have "length bs \<le> 2 ^ 25" using assms by simp
  then show ?thesis
    by (intro nth_equalityI) (simp_all add: fast_read_bytewise fast_write_bytewise(1) [OF assms])
qed

lemmas fast_write_defs = Ps2FastWrite8_def Ps2FastWrite16_def Ps2FastWrite32_def Ps2FastWrite64_def
  Ps2FastWrite128_def

lemma fast_read_write_word:
  fixes v :: "'a::len word"
  assumes "LENGTH('a) \<le> 8 * n" "n \<le> 2 ^ 24"
  shows "word_of_bytes (fast_read (fast_write rdram addr (bytes_of_word n v)) addr n) = v"
  using fast_read_write [of "bytes_of_word n v" rdram addr] assms by (simp add: word_of_bytes_of_word)

text \<open>
  The reference writer: afterwards the bytes at \<open>(a + i) mod 32M\<close> are those of the list and every
  other byte is as before.
\<close>

definition bytewise_write :: "bytes \<Rightarrow> nat \<Rightarrow> u8 list \<Rightarrow> bytes \<Rightarrow> bool" where
  "bytewise_write m a bs m' \<longleftrightarrow>
     (\<forall>i < length bs. m' ((a + i) mod 2 ^ 25) = bs ! i)
   \<and> (\<forall>x. x \<notin> (\<lambda>i. (a + i) mod 2 ^ 25) ` {0..<length bs} \<longrightarrow> m' x = m x)"

text \<open>
  Memory round trip: for every address, also one whose value wraps around the end of
  RDRAM, the fast-path read of 8, 16, 32, 64 and 128 bits returns what the fast-path write of
  that width stored.
\<close>

lemma fast_access_roundtrip:
  "Ps2FastRead8 (Ps2FastWrite8 rdram addr v8) addr = v8
   \<and> Ps2FastRead16 (Ps2FastWrite16 rdram addr v16) addr = v16
   \<and> Ps2FastRead32 (Ps2FastWrite32 rdram addr v32) addr = v32
   \<and> Ps2FastRead64 (Ps2FastWrite64 rdram addr v64) addr = v64
   \<and> Ps2FastRead128 (Ps2FastWrite128 rdram addr v128) addr = v128"
  by (simp add: fast_write_defs Ps2FastRead8_def Ps2FastRead16_def Ps2FastRead32_def
      Ps2FastRead64_def Ps2FastRead128_def fast_read_write_word)

text \<open>
  C11 (the fast path is a bytewise access modulo the RAM size): both branches of each accessor, the
  \<open>memcpy\<close> and the wrapping loop, read the bytes at \<open>(addr + i) mod 32M\<close> in little-endian
  order, and a write of each width stores its value's bytes there and changes no other byte.
\<close>

theorem fast_access_reference:
  "Ps2FastRead16 rdram addr = word_of_bytes (map (\<lambda>i. rdram ((unat addr + i) mod 2 ^ 25)) [0..<2])
   \<and> Ps2FastRead32 rdram addr = word_of_bytes (map (\<lambda>i. rdram ((unat addr + i) mod 2 ^ 25)) [0..<4])
   \<and> Ps2FastRead64 rdram addr = word_of_bytes (map (\<lambda>i. rdram ((unat addr + i) mod 2 ^ 25)) [0..<8])
   \<and> Ps2FastRead128 rdram addr = word_of_bytes (map (\<lambda>i. rdram ((unat addr + i) mod 2 ^ 25)) [0..<16])
   \<and> bytewise_write rdram (unat addr) (bytes_of_word 2 v16) (Ps2FastWrite16 rdram addr v16)
   \<and> bytewise_write rdram (unat addr) (bytes_of_word 4 v32) (Ps2FastWrite32 rdram addr v32)
   \<and> bytewise_write rdram (unat addr) (bytes_of_word 8 v64) (Ps2FastWrite64 rdram addr v64)
   \<and> bytewise_write rdram (unat addr) (bytes_of_word 16 v128) (Ps2FastWrite128 rdram addr v128)"
proof -
  have rd: "fast_read rdram addr n = map (\<lambda>i. rdram ((unat addr + i) mod 2 ^ 25)) [0..<n]" if "n \<le> 16" for n
    using that by (simp add: fast_read_bytewise ram_byte_def)
  have wr: "bytewise_write rdram (unat addr) bs (fast_write rdram addr bs)" if "length bs \<le> 16" for bs
  proof -
    have n: "length bs \<le> 2 ^ 24" using that by simp
    show ?thesis
      using fast_write_bytewise [OF n] unfolding bytewise_write_def ram_byte_def by (simp add: image_iff)
  qed
  show ?thesis
    unfolding Ps2FastRead16_def Ps2FastRead32_def Ps2FastRead64_def Ps2FastRead128_def fast_write_defs
    by (intro conjI wr) (simp_all add: rd)
qed

text \<open>Resolution never leaves the two arrays.\<close>

lemma scratch_offset_bound:
  "ps2IsScratchpadAddress addr \<Longrightarrow> ps2ScratchpadOffset addr < PS2_SCRATCHPAD_SIZE"
  unfolding ps2IsScratchpadAddress_def ps2ScratchpadOffset_def Let_def ram_defs
  by (auto split: if_splits simp: word_less_nat_alt word_le_nat_alt unat_sub)

lemma phys_bound: "phys \<ge> PS2_RAM_SIZE \<Longrightarrow> phys AND PS2_RAM_MASK < PS2_RAM_SIZE"
  using unat_mask_RAM [of phys] by (simp add: word_less_nat_alt ram_defs)

text \<open>
  Address resolution: every 32-bit guest address resolves, to an offset below the scratchpad
  size exactly for the scratchpad window and its uncached alias, and to an offset below the RDRAM
  size otherwise, so the pointer of \<open>getMemPtr\<close> is inside the array it belongs to.
\<close>

lemma getMemPtr_in_bounds:
  "\<exists>off. (ps2IsScratchpadAddress addr \<and> off < PS2_SCRATCHPAD_SIZE \<and> getMemPtr False False addr = Some (ScratchPtr off))
   \<or> (ps2IsScratchpadAddress addr = False \<and> off < PS2_RAM_SIZE \<and> getMemPtr False False addr = Some (RdramPtr off))"
proof (cases "ps2IsScratchpadAddress addr")
  case True
  with scratch_offset_bound show ?thesis by (auto simp: getMemPtr_def ps2ResolveGuestPointer_def)
next
  case False
  then show ?thesis
    by (auto simp: getMemPtr_def ps2ResolveGuestPointer_def Let_def not_le phys_bound)
qed

end
