(* ===== verification/GSMemory.thy ===== *)
theory GSMemory
  imports GuestMemory "HOL-Library.Multiset"
begin

text \<open>
  The GS local memory of \<open>runtime/ps2_gs_memory.h\<close> and \<open>ps2_gs_memory.cpp\<close>: the pixel storage
  modes and their traits, the block and column swizzle tables, the page tables built from them,
  and the functions that look up, read and write one pixel. The 4 MB array is a function from
  byte offsets; \<open>mem_bit\<close> reads it as an array of bits, the abstract memory in which a pixel is
  an interval.
\<close>

section \<open>Pixel storage modes\<close>

definition MEMORY_SIZE :: nat where "MEMORY_SIZE = 4 * 1024 * 1024"

datatype PixelStorageMode =
  C32 | C24 | C16 | C16S | P8 | P4 | P8H | P4HL | P4HH | Z32 | Z24 | Z16 | Z16S | Max

definition IsValidPsm :: "PixelStorageMode \<Rightarrow> bool" where
  "IsValidPsm psm = (psm \<noteq> Max)"

fun UnpackedBitWidth :: "PixelStorageMode \<Rightarrow> nat" where
  "UnpackedBitWidth C16 = 16" | "UnpackedBitWidth C16S = 16"
| "UnpackedBitWidth Z16 = 16" | "UnpackedBitWidth Z16S = 16"
| "UnpackedBitWidth P8 = 8" | "UnpackedBitWidth P4 = 4"
| "UnpackedBitWidth _ = 32"

fun BitsPerPixel :: "PixelStorageMode \<Rightarrow> nat" where
  "BitsPerPixel C24 = 24" | "BitsPerPixel Z24 = 24"
| "BitsPerPixel C16 = 16" | "BitsPerPixel C16S = 16"
| "BitsPerPixel Z16 = 16" | "BitsPerPixel Z16S = 16"
| "BitsPerPixel P8 = 8" | "BitsPerPixel P8H = 8"
| "BitsPerPixel P4 = 4" | "BitsPerPixel P4HL = 4" | "BitsPerPixel P4HH = 4"
| "BitsPerPixel _ = 32"

definition IsDepth :: "PixelStorageMode \<Rightarrow> bool" where
  "IsDepth psm = (psm \<in> {Z16, Z16S, Z24, Z32})"

definition IsColor :: "PixelStorageMode \<Rightarrow> bool" where
  "IsColor psm = (\<not> IsDepth psm)"

definition IsPaletted :: "PixelStorageMode \<Rightarrow> bool" where
  "IsPaletted psm = (psm \<in> {P8, P8H, P4, P4HL, P4HH})"

text \<open>
  \<open>BitStorageHelper<BitsPerPixel(psm)>::Type\<close> is the smallest of \<open>u8\<close>, \<open>u16\<close> and \<open>u32\<close> that holds
  a packed pixel: \<open>packed_size\<close> is its \<open>sizeof\<close>, and \<open>PackedT\<close> the conversion of an \<open>u32\<close> to it.
\<close>

definition packed_size :: "PixelStorageMode \<Rightarrow> nat" where
  "packed_size psm =
     (if BitsPerPixel psm \<le> 8 then 1 else if BitsPerPixel psm = 16 then 2 else 4)"

definition PackedT :: "PixelStorageMode \<Rightarrow> u32 \<Rightarrow> u32" where
  "PackedT psm v = take_bit (8 * packed_size psm) v"

text \<open>
  The extents are pairs \<open>(x, y)\<close>. No trait is instantiated with the mode \<open>Max\<close>: the class has
  \<open>static_assert(IsValidPsm(psm))\<close>.
\<close>

fun PageExtent :: "PixelStorageMode \<Rightarrow> nat \<times> nat" where
  "PageExtent C16 = (64, 64)" | "PageExtent C16S = (64, 64)"
| "PageExtent Z16 = (64, 64)" | "PageExtent Z16S = (64, 64)"
| "PageExtent P8 = (128, 64)" | "PageExtent P4 = (128, 128)"
| "PageExtent Max = (0, 0)"
| "PageExtent _ = (64, 32)"

fun BlockExtent :: "PixelStorageMode \<Rightarrow> nat \<times> nat" where
  "BlockExtent C16 = (4, 8)" | "BlockExtent C16S = (4, 8)"
| "BlockExtent Z16 = (4, 8)" | "BlockExtent Z16S = (4, 8)" | "BlockExtent P4 = (4, 8)"
| "BlockExtent Max = (0, 0)"
| "BlockExtent _ = (8, 4)"

fun ColumnExtent :: "PixelStorageMode \<Rightarrow> nat \<times> nat" where
  "ColumnExtent C32 = (8, 8)" | "ColumnExtent Z32 = (8, 8)" | "ColumnExtent C24 = (8, 8)"
| "ColumnExtent P8H = (8, 8)" | "ColumnExtent P4HL = (8, 8)" | "ColumnExtent P4HH = (8, 8)"
| "ColumnExtent C16 = (16, 8)" | "ColumnExtent C16S = (16, 8)"
| "ColumnExtent Z16 = (16, 8)" | "ColumnExtent Z16S = (16, 8)"
| "ColumnExtent P8 = (16, 16)" | "ColumnExtent P4 = (32, 16)"
| "ColumnExtent _ = (0, 0)"

definition BlocksPerPage :: "PixelStorageMode \<Rightarrow> nat" where
  "BlocksPerPage psm = fst (BlockExtent psm) * snd (BlockExtent psm)"

definition PixelsPerBlock :: "PixelStorageMode \<Rightarrow> nat" where
  "PixelsPerBlock psm = fst (ColumnExtent psm) * snd (ColumnExtent psm)"

definition PixelsPerPage :: "PixelStorageMode \<Rightarrow> nat" where
  "PixelsPerPage psm = fst (PageExtent psm) * snd (PageExtent psm)"

fun BitOffset :: "PixelStorageMode \<Rightarrow> nat" where
  "BitOffset P8H = 24" | "BitOffset P4HL = 24" | "BitOffset P4HH = 28" | "BitOffset _ = 0"

section \<open>Swizzle tables and pixel addresses\<close>

definition BlockTableC32 :: "nat list list" where
  "BlockTableC32 = [
    [ 0,  1,  4,  5, 16, 17, 20, 21],
    [ 2,  3,  6,  7, 18, 19, 22, 23],
    [ 8,  9, 12, 13, 24, 25, 28, 29],
    [10, 11, 14, 15, 26, 27, 30, 31]]"

definition BlockTableZ32 :: "nat list list" where
  "BlockTableZ32 = [
    [24, 25, 28, 29,  8,  9, 12, 13],
    [26, 27, 30, 31, 10, 11, 14, 15],
    [16, 17, 20, 21,  0,  1,  4,  5],
    [18, 19, 22, 23,  2,  3,  6,  7]]"

definition BlockTableC16 :: "nat list list" where
  "BlockTableC16 = [
    [ 0,  2,  8, 10],
    [ 1,  3,  9, 11],
    [ 4,  6, 12, 14],
    [ 5,  7, 13, 15],
    [16, 18, 24, 26],
    [17, 19, 25, 27],
    [20, 22, 28, 30],
    [21, 23, 29, 31]]"

definition BlockTableC16S :: "nat list list" where
  "BlockTableC16S = [
    [ 0,  2, 16, 18],
    [ 1,  3, 17, 19],
    [ 8, 10, 24, 26],
    [ 9, 11, 25, 27],
    [ 4,  6, 20, 22],
    [ 5,  7, 21, 23],
    [12, 14, 28, 30],
    [13, 15, 29, 31]]"

definition BlockTableZ16 :: "nat list list" where
  "BlockTableZ16 = [
    [24, 26, 16, 18],
    [25, 27, 17, 19],
    [28, 30, 20, 22],
    [29, 31, 21, 23],
    [ 8, 10,  0,  2],
    [ 9, 11,  1,  3],
    [12, 14,  4,  6],
    [13, 15,  5,  7]]"

definition BlockTableZ16S :: "nat list list" where
  "BlockTableZ16S = [
    [24, 26,  8, 10],
    [25, 27,  9, 11],
    [16, 18,  0,  2],
    [17, 19,  1,  3],
    [28, 30, 12, 14],
    [29, 31, 13, 15],
    [20, 22,  4,  6],
    [21, 23,  5,  7]]"

definition BlockTableP8 :: "nat list list" where
  "BlockTableP8 = [
    [ 0,  1,  4,  5, 16, 17, 20, 21],
    [ 2,  3,  6,  7, 18, 19, 22, 23],
    [ 8,  9, 12, 13, 24, 25, 28, 29],
    [10, 11, 14, 15, 26, 27, 30, 31]]"

definition BlockTableP4 :: "nat list list" where
  "BlockTableP4 = [
    [ 0,  2,  8, 10],
    [ 1,  3,  9, 11],
    [ 4,  6, 12, 14],
    [ 5,  7, 13, 15],
    [16, 18, 24, 26],
    [17, 19, 25, 27],
    [20, 22, 28, 30],
    [21, 23, 29, 31]]"

definition ColumnTable32 :: "nat list list" where
  "ColumnTable32 = [
    [ 0,  1,  4,  5,  8,  9, 12, 13],
    [ 2,  3,  6,  7, 10, 11, 14, 15],
    [16, 17, 20, 21, 24, 25, 28, 29],
    [18, 19, 22, 23, 26, 27, 30, 31],
    [32, 33, 36, 37, 40, 41, 44, 45],
    [34, 35, 38, 39, 42, 43, 46, 47],
    [48, 49, 52, 53, 56, 57, 60, 61],
    [50, 51, 54, 55, 58, 59, 62, 63]]"

definition ColumnTable16 :: "nat list list" where
  "ColumnTable16 = [
    [  0,   2,   8,  10,  16,  18,  24,  26,   1,   3,   9,  11,  17,  19,  25,  27],
    [  4,   6,  12,  14,  20,  22,  28,  30,   5,   7,  13,  15,  21,  23,  29,  31],
    [ 32,  34,  40,  42,  48,  50,  56,  58,  33,  35,  41,  43,  49,  51,  57,  59],
    [ 36,  38,  44,  46,  52,  54,  60,  62,  37,  39,  45,  47,  53,  55,  61,  63],
    [ 64,  66,  72,  74,  80,  82,  88,  90,  65,  67,  73,  75,  81,  83,  89,  91],
    [ 68,  70,  76,  78,  84,  86,  92,  94,  69,  71,  77,  79,  85,  87,  93,  95],
    [ 96,  98, 104, 106, 112, 114, 120, 122,  97,  99, 105, 107, 113, 115, 121, 123],
    [100, 102, 108, 110, 116, 118, 124, 126, 101, 103, 109, 111, 117, 119, 125, 127]]"

definition ColumnTable8 :: "nat list list" where
  "ColumnTable8 = [
    [  0,   4,  16,  20,  32,  36,  48,  52,   2,   6,  18,  22,  34,  38,  50,  54],
    [  8,  12,  24,  28,  40,  44,  56,  60,  10,  14,  26,  30,  42,  46,  58,  62],
    [ 33,  37,  49,  53,   1,   5,  17,  21,  35,  39,  51,  55,   3,   7,  19,  23],
    [ 41,  45,  57,  61,   9,  13,  25,  29,  43,  47,  59,  63,  11,  15,  27,  31],
    [ 96, 100, 112, 116,  64,  68,  80,  84,  98, 102, 114, 118,  66,  70,  82,  86],
    [104, 108, 120, 124,  72,  76,  88,  92, 106, 110, 122, 126,  74,  78,  90,  94],
    [ 65,  69,  81,  85,  97, 101, 113, 117,  67,  71,  83,  87,  99, 103, 115, 119],
    [ 73,  77,  89,  93, 105, 109, 121, 125,  75,  79,  91,  95, 107, 111, 123, 127],
    [128, 132, 144, 148, 160, 164, 176, 180, 130, 134, 146, 150, 162, 166, 178, 182],
    [136, 140, 152, 156, 168, 172, 184, 188, 138, 142, 154, 158, 170, 174, 186, 190],
    [161, 165, 177, 181, 129, 133, 145, 149, 163, 167, 179, 183, 131, 135, 147, 151],
    [169, 173, 185, 189, 137, 141, 153, 157, 171, 175, 187, 191, 139, 143, 155, 159],
    [224, 228, 240, 244, 192, 196, 208, 212, 226, 230, 242, 246, 194, 198, 210, 214],
    [232, 236, 248, 252, 200, 204, 216, 220, 234, 238, 250, 254, 202, 206, 218, 222],
    [193, 197, 209, 213, 225, 229, 241, 245, 195, 199, 211, 215, 227, 231, 243, 247],
    [201, 205, 217, 221, 233, 237, 249, 253, 203, 207, 219, 223, 235, 239, 251, 255]]"

definition ColumnTable4 :: "nat list list" where
  "ColumnTable4 = [
    [  0,   8,  32,  40,  64,  72,  96, 104,   2,  10,  34,  42,  66,  74,  98, 106,
        4,  12,  36,  44,  68,  76, 100, 108,   6,  14,  38,  46,  70,  78, 102, 110],
    [ 16,  24,  48,  56,  80,  88, 112, 120,  18,  26,  50,  58,  82,  90, 114, 122,
       20,  28,  52,  60,  84,  92, 116, 124,  22,  30,  54,  62,  86,  94, 118, 126],
    [ 65,  73,  97, 105,   1,   9,  33,  41,  67,  75,  99, 107,   3,  11,  35,  43,
       69,  77, 101, 109,   5,  13,  37,  45,  71,  79, 103, 111,   7,  15,  39,  47],
    [ 81,  89, 113, 121,  17,  25,  49,  57,  83,  91, 115, 123,  19,  27,  51,  59,
       85,  93, 117, 125,  21,  29,  53,  61,  87,  95, 119, 127,  23,  31,  55,  63],
    [192, 200, 224, 232, 128, 136, 160, 168, 194, 202, 226, 234, 130, 138, 162, 170,
      196, 204, 228, 236, 132, 140, 164, 172, 198, 206, 230, 238, 134, 142, 166, 174],
    [208, 216, 240, 248, 144, 152, 176, 184, 210, 218, 242, 250, 146, 154, 178, 186,
      212, 220, 244, 252, 148, 156, 180, 188, 214, 222, 246, 254, 150, 158, 182, 190],
    [129, 137, 161, 169, 193, 201, 225, 233, 131, 139, 163, 171, 195, 203, 227, 235,
      133, 141, 165, 173, 197, 205, 229, 237, 135, 143, 167, 175, 199, 207, 231, 239],
    [145, 153, 177, 185, 209, 217, 241, 249, 147, 155, 179, 187, 211, 219, 243, 251,
      149, 157, 181, 189, 213, 221, 245, 253, 151, 159, 183, 191, 215, 223, 247, 255],
    [256, 264, 288, 296, 320, 328, 352, 360, 258, 266, 290, 298, 322, 330, 354, 362,
      260, 268, 292, 300, 324, 332, 356, 364, 262, 270, 294, 302, 326, 334, 358, 366],
    [272, 280, 304, 312, 336, 344, 368, 376, 274, 282, 306, 314, 338, 346, 370, 378,
      276, 284, 308, 316, 340, 348, 372, 380, 278, 286, 310, 318, 342, 350, 374, 382],
    [321, 329, 353, 361, 257, 265, 289, 297, 323, 331, 355, 363, 259, 267, 291, 299,
      325, 333, 357, 365, 261, 269, 293, 301, 327, 335, 359, 367, 263, 271, 295, 303],
    [337, 345, 369, 377, 273, 281, 305, 313, 339, 347, 371, 379, 275, 283, 307, 315,
      341, 349, 373, 381, 277, 285, 309, 317, 343, 351, 375, 383, 279, 287, 311, 319],
    [448, 456, 480, 488, 384, 392, 416, 424, 450, 458, 482, 490, 386, 394, 418, 426,
      452, 460, 484, 492, 388, 396, 420, 428, 454, 462, 486, 494, 390, 398, 422, 430],
    [464, 472, 496, 504, 400, 408, 432, 440, 466, 474, 498, 506, 402, 410, 434, 442,
      468, 476, 500, 508, 404, 412, 436, 444, 470, 478, 502, 510, 406, 414, 438, 446],
    [385, 393, 417, 425, 449, 457, 481, 489, 387, 395, 419, 427, 451, 459, 483, 491,
      389, 397, 421, 429, 453, 461, 485, 493, 391, 399, 423, 431, 455, 463, 487, 495],
    [401, 409, 433, 441, 465, 473, 497, 505, 403, 411, 435, 443, 467, 475, 499, 507,
      405, 413, 437, 445, 469, 477, 501, 509, 407, 415, 439, 447, 471, 479, 503, 511]]"

text \<open>The column, block and page of a pixel; a table is indexed by row first.\<close>

definition ColumnId :: "PixelStorageMode \<Rightarrow> nat list list \<Rightarrow> nat \<Rightarrow> nat \<Rightarrow> nat" where
  "ColumnId psm tab x y = tab ! (y mod snd (ColumnExtent psm)) ! (x mod fst (ColumnExtent psm))"

definition BlockId :: "PixelStorageMode \<Rightarrow> nat list list \<Rightarrow> nat \<Rightarrow> nat \<Rightarrow> nat" where
  "BlockId psm tab x y =
     tab ! (y div snd (ColumnExtent psm) mod snd (BlockExtent psm))
         ! (x div fst (ColumnExtent psm) mod fst (BlockExtent psm))"

definition PageId :: "PixelStorageMode \<Rightarrow> u32 \<Rightarrow> u32 \<Rightarrow> u32 \<Rightarrow> u32 \<Rightarrow> u32" where
  "PageId psm base bw x y =
     (let base_page = base div of_nat (BlocksPerPage psm);
          row = (y div of_nat (snd (PageExtent psm))) * ((bw * 64) div of_nat (fst (PageExtent psm)));
          col = x div of_nat (fst (PageExtent psm))
      in base_page + row + col)"

definition InitPageLookupTable ::
  "PixelStorageMode \<Rightarrow> nat list list \<Rightarrow> nat list list \<Rightarrow> u16 list list list" where
  "InitPageLookupTable psm block_table column_table =
     map (\<lambda>block. map (\<lambda>y. map (\<lambda>x.
           of_nat ((block + BlockId psm block_table x y) * PixelsPerBlock psm
                   + ColumnId psm column_table x y))
         [0..<fst (PageExtent psm)]) [0..<snd (PageExtent psm)]) [0..<BlocksPerPage psm]"

definition Address ::
  "PixelStorageMode \<Rightarrow> u16 list list list \<Rightarrow> u32 \<Rightarrow> u32 \<Rightarrow> u32 \<Rightarrow> u32 \<Rightarrow> u32" where
  "Address psm tab block bw x y =
     (let page = PageId psm block bw x y;
          block' = unat block mod BlocksPerPage psm;
          y' = unat y mod snd (PageExtent psm);
          x' = unat x mod fst (PageExtent psm)
      in page * of_nat (PixelsPerPage psm) + ucast (tab ! block' ! y' ! x'))"

section \<open>Reading and writing at a pixel address\<close>

definition pixel_bits :: "PixelStorageMode \<Rightarrow> u32 \<Rightarrow> u32" where
  "pixel_bits psm address = address * of_nat (UnpackedBitWidth psm) + of_nat (BitOffset psm)"

definition pixel_byte :: "PixelStorageMode \<Rightarrow> u32 \<Rightarrow> nat" where
  "pixel_byte psm address =
     unat ((pixel_bits psm address div 8) AND of_nat (MEMORY_SIZE - packed_size psm))"

definition pixel_shift :: "PixelStorageMode \<Rightarrow> u32 \<Rightarrow> nat" where
  "pixel_shift psm address = unat (pixel_bits psm address mod 8)"

definition Write :: "PixelStorageMode \<Rightarrow> bytes \<Rightarrow> u32 \<Rightarrow> u32 \<Rightarrow> bytes" where
  "Write psm data address v =
     (let ptr = pixel_byte psm address; shift = pixel_shift psm address;
          n = packed_size psm;
          old = word_of_bytes (copy_out data ptr n) :: u32;
          put = (\<lambda>w :: u32. copy_in ptr (bytes_of_word n w) data)
      in if psm \<in> {C32, Z32, C16, C16S, Z16, Z16S, P8, P8H} then put v
         else if psm \<in> {C24, Z24} then put ((old AND 0xFF000000) OR (v AND 0x00FFFFFF))
         else if psm \<in> {P4, P4HL, P4HH}
         then put ((old AND NOT (push_bit shift 0x0F)) OR push_bit shift (v AND 0x0F))
         else data)"

definition Read :: "PixelStorageMode \<Rightarrow> bytes \<Rightarrow> u32 \<Rightarrow> u32" where
  "Read psm data address =
     (let shift = pixel_shift psm address;
          v = word_of_bytes (copy_out data (pixel_byte psm address) (packed_size psm)) :: u32
      in if psm \<in> {C32, Z32, C16, C16S, Z16, Z16S, P8, P8H} then v
         else if psm \<in> {C24, Z24} then v AND 0x00FFFFFF
         else if psm \<in> {P4, P4HL, P4HH} then drop_bit shift v AND 0x0F
         else 0xFFFF00FF)"

text \<open>The page tables as \<open>InitLookupTables\<close> leaves them.\<close>

definition PageTableC32 :: "u16 list list list" where
  "PageTableC32 = InitPageLookupTable C32 BlockTableC32 ColumnTable32"

definition PageTableZ32 :: "u16 list list list" where
  "PageTableZ32 = InitPageLookupTable Z32 BlockTableZ32 ColumnTable32"

definition PageTableC16 :: "u16 list list list" where
  "PageTableC16 = InitPageLookupTable C16 BlockTableC16 ColumnTable16"

definition PageTableC16S :: "u16 list list list" where
  "PageTableC16S = InitPageLookupTable C16S BlockTableC16S ColumnTable16"

definition PageTableZ16 :: "u16 list list list" where
  "PageTableZ16 = InitPageLookupTable Z16 BlockTableZ16 ColumnTable16"

definition PageTableZ16S :: "u16 list list list" where
  "PageTableZ16S = InitPageLookupTable Z16S BlockTableZ16S ColumnTable16"

definition PageTableP8 :: "u16 list list list" where
  "PageTableP8 = InitPageLookupTable P8 BlockTableP8 ColumnTable8"

definition PageTableP4 :: "u16 list list list" where
  "PageTableP4 = InitPageLookupTable P4 BlockTableP4 ColumnTable4"

section \<open>The pixel access functions\<close>

definition LookupPixelAddressCT32 :: "u32 \<Rightarrow> u32 \<Rightarrow> u32 \<Rightarrow> u32 \<Rightarrow> u32" where
  "LookupPixelAddressCT32 bp bw x y = Address C32 PageTableC32 bp bw x y"

definition LookupPixelAddressZ32 :: "u32 \<Rightarrow> u32 \<Rightarrow> u32 \<Rightarrow> u32 \<Rightarrow> u32" where
  "LookupPixelAddressZ32 bp bw x y = Address Z32 PageTableZ32 bp bw x y"

definition LookupPixelAddressCT16 :: "u32 \<Rightarrow> u32 \<Rightarrow> u32 \<Rightarrow> u32 \<Rightarrow> u32" where
  "LookupPixelAddressCT16 bp bw x y = Address C16 PageTableC16 bp bw x y"

definition LookupPixelAddressCT16S :: "u32 \<Rightarrow> u32 \<Rightarrow> u32 \<Rightarrow> u32 \<Rightarrow> u32" where
  "LookupPixelAddressCT16S bp bw x y = Address C16S PageTableC16S bp bw x y"

definition LookupPixelAddressZ16 :: "u32 \<Rightarrow> u32 \<Rightarrow> u32 \<Rightarrow> u32 \<Rightarrow> u32" where
  "LookupPixelAddressZ16 bp bw x y = Address Z16 PageTableZ16 bp bw x y"

definition LookupPixelAddressZ16S :: "u32 \<Rightarrow> u32 \<Rightarrow> u32 \<Rightarrow> u32 \<Rightarrow> u32" where
  "LookupPixelAddressZ16S bp bw x y = Address Z16S PageTableZ16S bp bw x y"

definition LookupPixelAddressP8 :: "u32 \<Rightarrow> u32 \<Rightarrow> u32 \<Rightarrow> u32 \<Rightarrow> u32" where
  "LookupPixelAddressP8 bp bw x y = Address P8 PageTableP8 bp bw x y"

definition LookupPixelAddressP4 :: "u32 \<Rightarrow> u32 \<Rightarrow> u32 \<Rightarrow> u32 \<Rightarrow> u32" where
  "LookupPixelAddressP4 bp bw x y = Address P4 PageTableP4 bp bw x y"

definition LookupPixelAddressNull :: "u32 \<Rightarrow> u32 \<Rightarrow> u32 \<Rightarrow> u32 \<Rightarrow> u32" where
  "LookupPixelAddressNull bp bw x y = 0"

definition ReadPixelAddressCT32 :: "bytes \<Rightarrow> u32 \<Rightarrow> u32" where
  "ReadPixelAddressCT32 data address = Read C32 data address"

definition ReadPixelAddressCT24 :: "bytes \<Rightarrow> u32 \<Rightarrow> u32" where
  "ReadPixelAddressCT24 data address = Read C24 data address"

definition ReadPixelAddressCT16 :: "bytes \<Rightarrow> u32 \<Rightarrow> u32" where
  "ReadPixelAddressCT16 data address = Read C16 data address"

definition ReadPixelAddressCT16S :: "bytes \<Rightarrow> u32 \<Rightarrow> u32" where
  "ReadPixelAddressCT16S data address = Read C16S data address"

definition ReadPixelAddressZ32 :: "bytes \<Rightarrow> u32 \<Rightarrow> u32" where
  "ReadPixelAddressZ32 data address = Read Z32 data address"

definition ReadPixelAddressZ24 :: "bytes \<Rightarrow> u32 \<Rightarrow> u32" where
  "ReadPixelAddressZ24 data address = Read Z24 data address"

definition ReadPixelAddressZ16 :: "bytes \<Rightarrow> u32 \<Rightarrow> u32" where
  "ReadPixelAddressZ16 data address = Read Z16 data address"

definition ReadPixelAddressZ16S :: "bytes \<Rightarrow> u32 \<Rightarrow> u32" where
  "ReadPixelAddressZ16S data address = Read Z16S data address"

definition ReadPixelAddressP8 :: "bytes \<Rightarrow> u32 \<Rightarrow> u32" where
  "ReadPixelAddressP8 data address = Read P8 data address"

definition ReadPixelAddressP8H :: "bytes \<Rightarrow> u32 \<Rightarrow> u32" where
  "ReadPixelAddressP8H data address = Read P8H data address"

definition ReadPixelAddressP4 :: "bytes \<Rightarrow> u32 \<Rightarrow> u32" where
  "ReadPixelAddressP4 data address = Read P4 data address"

definition ReadPixelAddressP4HL :: "bytes \<Rightarrow> u32 \<Rightarrow> u32" where
  "ReadPixelAddressP4HL data address = Read P4HL data address"

definition ReadPixelAddressP4HH :: "bytes \<Rightarrow> u32 \<Rightarrow> u32" where
  "ReadPixelAddressP4HH data address = Read P4HH data address"

definition ReadPixelAddressNull :: "bytes \<Rightarrow> u32 \<Rightarrow> u32" where
  "ReadPixelAddressNull data address = 0"

definition WritePixelAddressCT32 :: "bytes \<Rightarrow> u32 \<Rightarrow> u32 \<Rightarrow> bytes" where
  "WritePixelAddressCT32 data address v = Write C32 data address (PackedT C32 v)"

definition WritePixelAddressCT24 :: "bytes \<Rightarrow> u32 \<Rightarrow> u32 \<Rightarrow> bytes" where
  "WritePixelAddressCT24 data address v = Write C24 data address (PackedT C24 v)"

definition WritePixelAddressCT16 :: "bytes \<Rightarrow> u32 \<Rightarrow> u32 \<Rightarrow> bytes" where
  "WritePixelAddressCT16 data address v = Write C16 data address (PackedT C16 v)"

definition WritePixelAddressCT16S :: "bytes \<Rightarrow> u32 \<Rightarrow> u32 \<Rightarrow> bytes" where
  "WritePixelAddressCT16S data address v = Write C16S data address (PackedT C16S v)"

definition WritePixelAddressZ32 :: "bytes \<Rightarrow> u32 \<Rightarrow> u32 \<Rightarrow> bytes" where
  "WritePixelAddressZ32 data address v = Write Z32 data address (PackedT Z32 v)"

definition WritePixelAddressZ24 :: "bytes \<Rightarrow> u32 \<Rightarrow> u32 \<Rightarrow> bytes" where
  "WritePixelAddressZ24 data address v = Write Z24 data address (PackedT Z24 v)"

definition WritePixelAddressZ16 :: "bytes \<Rightarrow> u32 \<Rightarrow> u32 \<Rightarrow> bytes" where
  "WritePixelAddressZ16 data address v = Write Z16 data address (PackedT Z16 v)"

definition WritePixelAddressZ16S :: "bytes \<Rightarrow> u32 \<Rightarrow> u32 \<Rightarrow> bytes" where
  "WritePixelAddressZ16S data address v = Write Z16S data address (PackedT Z16S v)"

definition WritePixelAddressP8 :: "bytes \<Rightarrow> u32 \<Rightarrow> u32 \<Rightarrow> bytes" where
  "WritePixelAddressP8 data address v = Write P8 data address (PackedT P8 v)"

definition WritePixelAddressP8H :: "bytes \<Rightarrow> u32 \<Rightarrow> u32 \<Rightarrow> bytes" where
  "WritePixelAddressP8H data address v = Write P8H data address (PackedT P8H v)"

definition WritePixelAddressP4 :: "bytes \<Rightarrow> u32 \<Rightarrow> u32 \<Rightarrow> bytes" where
  "WritePixelAddressP4 data address v = Write P4 data address (PackedT P4 v)"

definition WritePixelAddressP4HL :: "bytes \<Rightarrow> u32 \<Rightarrow> u32 \<Rightarrow> bytes" where
  "WritePixelAddressP4HL data address v = Write P4HL data address (PackedT P4HL v)"

definition WritePixelAddressP4HH :: "bytes \<Rightarrow> u32 \<Rightarrow> u32 \<Rightarrow> bytes" where
  "WritePixelAddressP4HH data address v = Write P4HH data address (PackedT P4HH v)"

definition WritePixelAddressNull :: "bytes \<Rightarrow> u32 \<Rightarrow> u32 \<Rightarrow> bytes" where
  "WritePixelAddressNull data address v = data"

definition ReadPixelCT32 :: "bytes \<Rightarrow> u32 \<Rightarrow> u32 \<Rightarrow> u32 \<Rightarrow> u32 \<Rightarrow> u32" where
  "ReadPixelCT32 data bp bw x y = ReadPixelAddressCT32 data (LookupPixelAddressCT32 bp bw x y)"

definition ReadPixelCT24 :: "bytes \<Rightarrow> u32 \<Rightarrow> u32 \<Rightarrow> u32 \<Rightarrow> u32 \<Rightarrow> u32" where
  "ReadPixelCT24 data bp bw x y = ReadPixelAddressCT24 data (LookupPixelAddressCT32 bp bw x y)"

definition ReadPixelCT16 :: "bytes \<Rightarrow> u32 \<Rightarrow> u32 \<Rightarrow> u32 \<Rightarrow> u32 \<Rightarrow> u32" where
  "ReadPixelCT16 data bp bw x y = ReadPixelAddressCT16 data (LookupPixelAddressCT16 bp bw x y)"

definition ReadPixelCT16S :: "bytes \<Rightarrow> u32 \<Rightarrow> u32 \<Rightarrow> u32 \<Rightarrow> u32 \<Rightarrow> u32" where
  "ReadPixelCT16S data bp bw x y = ReadPixelAddressCT16S data (LookupPixelAddressCT16S bp bw x y)"

definition ReadPixelZ32 :: "bytes \<Rightarrow> u32 \<Rightarrow> u32 \<Rightarrow> u32 \<Rightarrow> u32 \<Rightarrow> u32" where
  "ReadPixelZ32 data bp bw x y = ReadPixelAddressZ32 data (LookupPixelAddressZ32 bp bw x y)"

definition ReadPixelZ24 :: "bytes \<Rightarrow> u32 \<Rightarrow> u32 \<Rightarrow> u32 \<Rightarrow> u32 \<Rightarrow> u32" where
  "ReadPixelZ24 data bp bw x y = ReadPixelAddressZ24 data (LookupPixelAddressZ32 bp bw x y)"

definition ReadPixelZ16 :: "bytes \<Rightarrow> u32 \<Rightarrow> u32 \<Rightarrow> u32 \<Rightarrow> u32 \<Rightarrow> u32" where
  "ReadPixelZ16 data bp bw x y = ReadPixelAddressZ16 data (LookupPixelAddressZ16 bp bw x y)"

definition ReadPixelZ16S :: "bytes \<Rightarrow> u32 \<Rightarrow> u32 \<Rightarrow> u32 \<Rightarrow> u32 \<Rightarrow> u32" where
  "ReadPixelZ16S data bp bw x y = ReadPixelAddressZ16S data (LookupPixelAddressZ16S bp bw x y)"

definition ReadPixelP8 :: "bytes \<Rightarrow> u32 \<Rightarrow> u32 \<Rightarrow> u32 \<Rightarrow> u32 \<Rightarrow> u32" where
  "ReadPixelP8 data bp bw x y = ReadPixelAddressP8 data (LookupPixelAddressP8 bp bw x y)"

definition ReadPixelP8H :: "bytes \<Rightarrow> u32 \<Rightarrow> u32 \<Rightarrow> u32 \<Rightarrow> u32 \<Rightarrow> u32" where
  "ReadPixelP8H data bp bw x y = ReadPixelAddressP8H data (LookupPixelAddressCT32 bp bw x y)"

definition ReadPixelP4 :: "bytes \<Rightarrow> u32 \<Rightarrow> u32 \<Rightarrow> u32 \<Rightarrow> u32 \<Rightarrow> u32" where
  "ReadPixelP4 data bp bw x y = ReadPixelAddressP4 data (LookupPixelAddressP4 bp bw x y)"

definition ReadPixelP4HL :: "bytes \<Rightarrow> u32 \<Rightarrow> u32 \<Rightarrow> u32 \<Rightarrow> u32 \<Rightarrow> u32" where
  "ReadPixelP4HL data bp bw x y = ReadPixelAddressP4HL data (LookupPixelAddressCT32 bp bw x y)"

definition ReadPixelP4HH :: "bytes \<Rightarrow> u32 \<Rightarrow> u32 \<Rightarrow> u32 \<Rightarrow> u32 \<Rightarrow> u32" where
  "ReadPixelP4HH data bp bw x y = ReadPixelAddressP4HH data (LookupPixelAddressCT32 bp bw x y)"

definition ReadPixelNull :: "bytes \<Rightarrow> u32 \<Rightarrow> u32 \<Rightarrow> u32 \<Rightarrow> u32 \<Rightarrow> u32" where
  "ReadPixelNull data bp bw x y = 0"

definition WritePixelCT32 :: "bytes \<Rightarrow> u32 \<Rightarrow> u32 \<Rightarrow> u32 \<Rightarrow> u32 \<Rightarrow> u32 \<Rightarrow> bytes" where
  "WritePixelCT32 data bp bw x y v =
     WritePixelAddressCT32 data (LookupPixelAddressCT32 bp bw x y) v"

definition WritePixelCT24 :: "bytes \<Rightarrow> u32 \<Rightarrow> u32 \<Rightarrow> u32 \<Rightarrow> u32 \<Rightarrow> u32 \<Rightarrow> bytes" where
  "WritePixelCT24 data bp bw x y v =
     WritePixelAddressCT24 data (LookupPixelAddressCT32 bp bw x y) v"

definition WritePixelCT16 :: "bytes \<Rightarrow> u32 \<Rightarrow> u32 \<Rightarrow> u32 \<Rightarrow> u32 \<Rightarrow> u32 \<Rightarrow> bytes" where
  "WritePixelCT16 data bp bw x y v =
     WritePixelAddressCT16 data (LookupPixelAddressCT16 bp bw x y) v"

definition WritePixelCT16S :: "bytes \<Rightarrow> u32 \<Rightarrow> u32 \<Rightarrow> u32 \<Rightarrow> u32 \<Rightarrow> u32 \<Rightarrow> bytes" where
  "WritePixelCT16S data bp bw x y v =
     WritePixelAddressCT16S data (LookupPixelAddressCT16S bp bw x y) v"

definition WritePixelZ32 :: "bytes \<Rightarrow> u32 \<Rightarrow> u32 \<Rightarrow> u32 \<Rightarrow> u32 \<Rightarrow> u32 \<Rightarrow> bytes" where
  "WritePixelZ32 data bp bw x y v =
     WritePixelAddressZ32 data (LookupPixelAddressZ32 bp bw x y) v"

definition WritePixelZ24 :: "bytes \<Rightarrow> u32 \<Rightarrow> u32 \<Rightarrow> u32 \<Rightarrow> u32 \<Rightarrow> u32 \<Rightarrow> bytes" where
  "WritePixelZ24 data bp bw x y v =
     WritePixelAddressZ24 data (LookupPixelAddressZ32 bp bw x y) v"

definition WritePixelZ16 :: "bytes \<Rightarrow> u32 \<Rightarrow> u32 \<Rightarrow> u32 \<Rightarrow> u32 \<Rightarrow> u32 \<Rightarrow> bytes" where
  "WritePixelZ16 data bp bw x y v =
     WritePixelAddressZ16 data (LookupPixelAddressZ16 bp bw x y) v"

definition WritePixelZ16S :: "bytes \<Rightarrow> u32 \<Rightarrow> u32 \<Rightarrow> u32 \<Rightarrow> u32 \<Rightarrow> u32 \<Rightarrow> bytes" where
  "WritePixelZ16S data bp bw x y v =
     WritePixelAddressZ16S data (LookupPixelAddressZ16S bp bw x y) v"

definition WritePixelP8 :: "bytes \<Rightarrow> u32 \<Rightarrow> u32 \<Rightarrow> u32 \<Rightarrow> u32 \<Rightarrow> u32 \<Rightarrow> bytes" where
  "WritePixelP8 data bp bw x y v =
     WritePixelAddressP8 data (LookupPixelAddressP8 bp bw x y) v"

definition WritePixelP8H :: "bytes \<Rightarrow> u32 \<Rightarrow> u32 \<Rightarrow> u32 \<Rightarrow> u32 \<Rightarrow> u32 \<Rightarrow> bytes" where
  "WritePixelP8H data bp bw x y v =
     WritePixelAddressP8H data (LookupPixelAddressCT32 bp bw x y) v"

definition WritePixelP4 :: "bytes \<Rightarrow> u32 \<Rightarrow> u32 \<Rightarrow> u32 \<Rightarrow> u32 \<Rightarrow> u32 \<Rightarrow> bytes" where
  "WritePixelP4 data bp bw x y v =
     WritePixelAddressP4 data (LookupPixelAddressP4 bp bw x y) v"

definition WritePixelP4HL :: "bytes \<Rightarrow> u32 \<Rightarrow> u32 \<Rightarrow> u32 \<Rightarrow> u32 \<Rightarrow> u32 \<Rightarrow> bytes" where
  "WritePixelP4HL data bp bw x y v =
     WritePixelAddressP4HL data (LookupPixelAddressCT32 bp bw x y) v"

definition WritePixelP4HH :: "bytes \<Rightarrow> u32 \<Rightarrow> u32 \<Rightarrow> u32 \<Rightarrow> u32 \<Rightarrow> u32 \<Rightarrow> bytes" where
  "WritePixelP4HH data bp bw x y v =
     WritePixelAddressP4HH data (LookupPixelAddressCT32 bp bw x y) v"

definition WritePixelNull :: "bytes \<Rightarrow> u32 \<Rightarrow> u32 \<Rightarrow> u32 \<Rightarrow> u32 \<Rightarrow> u32 \<Rightarrow> bytes" where
  "WritePixelNull data bp bw x y v = data"

section \<open>The memory as an array of bits\<close>

text \<open>
  A pixel at address \<open>a\<close> is the interval of \<open>BitsPerPixel\<close> bits that starts at \<open>pixel_pos\<close>;
  addresses wrap at the end of the memory.
\<close>

definition mem_bit :: "bytes \<Rightarrow> nat \<Rightarrow> bool" where
  "mem_bit d i = bit (d (i div 8)) (i mod 8)"

definition pixel_pos :: "PixelStorageMode \<Rightarrow> nat \<Rightarrow> nat" where
  "pixel_pos psm a = (a * UnpackedBitWidth psm + BitOffset psm) mod 2 ^ 25"

lemma mem_bit_eqI: "(\<And>i. mem_bit d i = mem_bit d' i) \<Longrightarrow> d = d'"
proof (intro ext bit_word_eqI)
  fix j k assume eq: "\<And>i. mem_bit d i = mem_bit d' i" and k: "k < LENGTH(8)"
  with eq [of "8 * j + k"] show "bit (d j) k = bit (d' j) k" by (simp add: mem_bit_def)
qed

lemma mem_bit_copy_in:
  assumes "n \<le> 4"
  shows "mem_bit (copy_in ptr (bytes_of_word n (w :: u32)) d) i =
     (if 8 * ptr \<le> i \<and> i < 8 * ptr + 8 * n then bit w (i - 8 * ptr) else mem_bit d i)"
proof (cases "8 * ptr \<le> i \<and> i < 8 * ptr + 8 * n")
  case True
  then obtain k where i: "i = 8 * ptr + k" and k: "k < 8 * n" by (metis le_Suc_ex nat_add_left_cancel_less)
  from k have "k div 8 < n" by auto
  with i k assms show ?thesis
    by (simp add: mem_bit_def copy_in_def nth_bytes_of_word bit_simps)
next
  case False
  then have "i div 8 < ptr \<or> ptr + n \<le> i div 8" by auto
  with False show ?thesis by (auto simp: mem_bit_def copy_in_def)
qed

lemma bit_copy_out:
  "n \<le> 4 \<Longrightarrow> bit (word_of_bytes (copy_out d ptr n) :: u32) k \<longleftrightarrow> k < 8 * n \<and> mem_bit d (8 * ptr + k)"
  by (auto simp: bit_word_of_bytes mem_bit_def less_mult_imp_div_less mult.commute)

lemma packed_size_simps [simp]:
  "packed_size C32 = 4" "packed_size C24 = 4" "packed_size C16 = 2" "packed_size C16S = 2"
  "packed_size P8 = 1" "packed_size P4 = 1" "packed_size P8H = 1" "packed_size P4HL = 1"
  "packed_size P4HH = 1" "packed_size Z32 = 4" "packed_size Z24 = 4" "packed_size Z16 = 2"
  "packed_size Z16S = 2"
  by (simp_all add: packed_size_def)

lemma unat_pixel_bits:
  "unat (pixel_bits psm a) = (unat a * UnpackedBitWidth psm + BitOffset psm) mod 2 ^ 32"
proof -
  have "pixel_bits psm a = of_nat (unat a * UnpackedBitWidth psm + BitOffset psm)"
    by (simp add: pixel_bits_def)
  then show ?thesis by (simp only: unat_of_nat) simp
qed

lemma mask_aligned:
  fixes w :: u32
  assumes "2 ^ k dvd unat w" "k \<le> 22"
  shows "w AND of_nat (MEMORY_SIZE - 2 ^ k) = take_bit 22 w"
proof (rule bit_word_eqI)
  have m: "MEMORY_SIZE - 2 ^ k = push_bit k (mask (22 - k))"
  using assms(2) by (simp add: MEMORY_SIZE_def push_bit_eq_mult mask_eq_exp_minus_1
  diff_mult_distrib flip: power_add)
  have low: "\<not> bit w i" if "i < k" for i
  proof -
    have "take_bit k (unat w) = 0" using assms(1) by (simp add: take_bit_eq_mod)
    then have "\<not> bit (take_bit k (unat w)) i" by simp
    with that show ?thesis by (simp add: bit_take_bit_iff bit_unsigned_iff)
  qed
  fix i assume "i < LENGTH(32)"
  then show "bit (w AND of_nat (MEMORY_SIZE - 2 ^ k)) i = bit (take_bit 22 w) i"
    using low [of i] assms(2)
    by (cases "i < k") (auto simp: m bit_simps bit_of_nat_iff)
qed

lemma shift_mod32: "2 ^ (k + 3) * n mod 2 ^ 32 div 8 = 2 ^ k * (n mod 2 ^ (29 - k))" if "k \<le> 29" for n k :: nat
proof -
  have "(2 :: nat) ^ 32 = 2 ^ (k + 3) * 2 ^ (29 - k)" using that by (simp flip: power_add)
  then have "2 ^ (k + 3) * n mod 2 ^ 32 = 2 ^ (k + 3) * (n mod 2 ^ (29 - k))"
    by (metis mult_mod_right)
  then show ?thesis by (simp add: power_add)
qed

lemma packed_aligned:
  assumes "IsValidPsm psm"
  obtains k where "k \<le> 22" "packed_size psm = 2 ^ k" "2 ^ k dvd unat (pixel_bits psm a div 8)"
proof -
  have "\<exists>k \<le> 22. packed_size psm = 2 ^ k \<and> 2 ^ k dvd unat (pixel_bits psm a div 8)"
  proof (cases "packed_size psm = 1")
    case False
    then consider "packed_size psm = 4" "UnpackedBitWidth psm = 2 ^ (2 + 3)" "BitOffset psm = 0"
      | "packed_size psm = 2" "UnpackedBitWidth psm = 2 ^ (1 + 3)" "BitOffset psm = 0"
      using assms by (cases psm) (simp_all add: IsValidPsm_def)
    then show ?thesis
    proof cases
      case 1
      then show ?thesis using shift_mod32 [of 2 "unat a"]
        by (intro exI [of _ 2]) (simp add: unat_div unat_pixel_bits mult.commute)
    next
      case 2
      then show ?thesis using shift_mod32 [of 1 "unat a"]
        by (intro exI [of _ 1]) (simp add: unat_div unat_pixel_bits mult.commute)
    qed
  qed (auto intro: exI [of _ 0])
  then show ?thesis using that by blast
qed

lemma pixel_byte_pos:
  assumes "IsValidPsm psm"
  shows "pixel_byte psm a = pixel_pos psm (unat a) div 8"
    and "pixel_shift psm a = pixel_pos psm (unat a) mod 8"
proof -
  define N where "N = unat a * UnpackedBitWidth psm + BitOffset psm"
  obtain k where k: "k \<le> 22" "packed_size psm = 2 ^ k" "2 ^ k dvd unat (pixel_bits psm a div 8)"
    using packed_aligned assms .
  have "pixel_byte psm a = unat (pixel_bits psm a) div 8 mod 2 ^ 22"
    using mask_aligned [OF k(3,1)]
    by (simp add: pixel_byte_def k(2) take_bit_eq_mod unat_mod_distrib unat_div)
  also have "\<dots> = N mod 2 ^ 32 div 8 mod 2 ^ 22" by (simp only: unat_pixel_bits N_def)
  also have "\<dots> = N mod 2 ^ 25 div 8"
    using mod_mult2_eq [of N 8 "2 ^ 29"] mod_mult2_eq [of N 8 "2 ^ 22"] by (simp add: mod_mod_cancel)
  finally show "pixel_byte psm a = pixel_pos psm (unat a) div 8" by (simp add: pixel_pos_def N_def)
  have "pixel_shift psm a = N mod 2 ^ 32 mod 8"
    by (simp only: pixel_shift_def unat_mod_distrib unat_pixel_bits N_def) simp
  also have "\<dots> = N mod 2 ^ 25 mod 8" by (simp add: mod_mod_cancel)
  finally show "pixel_shift psm a = pixel_pos psm (unat a) mod 8" by (simp add: pixel_pos_def N_def)
qed

lemma pixel_pos_aligned:
  assumes "IsValidPsm psm"
  shows "BitsPerPixel psm = 4 \<or> pixel_pos psm a mod 8 = 0"
    and "4 dvd pixel_pos psm a"
proof -
  have d: "(2 :: nat) ^ 25 = 8 * 2 ^ 22" "(2 :: nat) ^ 25 = 4 * 2 ^ 23" by simp_all
  have "4 dvd UnpackedBitWidth psm" "4 dvd BitOffset psm"
    "BitsPerPixel psm = 4 \<or> 8 dvd UnpackedBitWidth psm \<and> 8 dvd BitOffset psm"
    using assms by (cases psm; simp add: IsValidPsm_def)+
  then show "BitsPerPixel psm = 4 \<or> pixel_pos psm a mod 8 = 0" "4 dvd pixel_pos psm a"
    by (auto simp: pixel_pos_def dvd_mod_iff mod_eq_0_iff_dvd)
qed

lemma pixel_pos_split:
  assumes "IsValidPsm psm"
  obtains q s where "pixel_pos psm a = 8 * q + s" "pixel_pos psm a div 8 = q" "pixel_pos psm a mod 8 = s"
    "s \<le> 4" "BitsPerPixel psm = 4 \<or> s = 0"
proof (rule that [of "pixel_pos psm a div 8" "pixel_pos psm a mod 8"])
  have "pixel_pos psm a mod 8 mod 4 = 0" using pixel_pos_aligned(2) [OF assms, of a] by (simp add: mod_mod_cancel)
  moreover have "pixel_pos psm a mod 8 < 8" by simp
  ultimately show "pixel_pos psm a mod 8 \<le> 4" by presburger
  show "BitsPerPixel psm = 4 \<or> pixel_pos psm a mod 8 = 0"
    using pixel_pos_aligned(1) [OF assms] .
qed simp_all

text \<open>The three ways a pixel is stored: a whole value, the low 24 bits of a word, a nibble.\<close>

lemma psm_kinds:
  assumes "IsValidPsm psm"
  obtains (whole) "psm \<in> {C32, Z32, C16, C16S, Z16, Z16S, P8, P8H}"
      "BitsPerPixel psm = 8 * packed_size psm" "packed_size psm \<le> 4" "BitsPerPixel psm \<noteq> 4"
  | (low24) "psm \<in> {C24, Z24}" "psm \<notin> {C32, Z32, C16, C16S, Z16, Z16S, P8, P8H}"
      "BitsPerPixel psm = 24" "packed_size psm = 4"
  | (nibble) "psm \<in> {P4, P4HL, P4HH}" "psm \<notin> {C24, Z24}"
      "psm \<notin> {C32, Z32, C16, C16S, Z16, Z16S, P8, P8H}"
      "BitsPerPixel psm = 4" "packed_size psm = 1"
  using assms by (cases psm) (simp_all add: IsValidPsm_def)

lemma pixel_masks:
  "(0xFFFFFF :: u32) = mask 24" "(0xFF000000 :: u32) = NOT (mask 24)" "(0xF :: u32) = mask 4"
  by (simp_all add: mask_eq_exp_minus_1)

lemma bit_Read:
  assumes "IsValidPsm psm"
  shows "bit (Read psm d a) k \<longleftrightarrow> k < BitsPerPixel psm \<and> mem_bit d (pixel_pos psm (unat a) + k)"
proof -
  obtain q s where p: "pixel_pos psm (unat a) = 8 * q + s" "pixel_pos psm (unat a) div 8 = q"
    "pixel_pos psm (unat a) mod 8 = s" and s: "s \<le> 4" "BitsPerPixel psm = 4 \<or> s = 0"
    using assms by (rule pixel_pos_split [of psm "unat a"])
  note R = Read_def Let_def pixel_byte_pos [OF assms] pixel_masks p(2,3)
  from assms show ?thesis
  proof (cases rule: psm_kinds)
    case whole
    then show ?thesis unfolding p(1) using s(2) by (simp only: R if_True bit_copy_out) simp
  next
    case low24
    then show ?thesis unfolding p(1) using s(2)
      by (simp only: R if_True if_False bit_and_iff bit_mask_iff bit_copy_out) auto
  next
    case nibble
    have "Read psm d a = drop_bit s (word_of_bytes (copy_out d q 1)) AND mask 4"
      using nibble by (simp only: R if_True if_False)
    with nibble(4) s(1) show ?thesis unfolding p(1)
      by (auto simp: bit_copy_out bit_simps add.assoc)
  qed
qed

lemma mem_bit_Write:
  assumes "IsValidPsm psm"
  shows "mem_bit (Write psm d a v) i =
     (if pixel_pos psm (unat a) \<le> i \<and> i < pixel_pos psm (unat a) + BitsPerPixel psm
      then bit v (i - pixel_pos psm (unat a)) else mem_bit d i)"
proof -
  obtain q s where p: "pixel_pos psm (unat a) = 8 * q + s" "pixel_pos psm (unat a) div 8 = q"
    "pixel_pos psm (unat a) mod 8 = s" and s: "s \<le> 4" "BitsPerPixel psm = 4 \<or> s = 0"
    using assms by (rule pixel_pos_split [of psm "unat a"])
  note W = Write_def Let_def pixel_byte_pos [OF assms] pixel_masks p(2,3)
  from assms show ?thesis
  proof (cases rule: psm_kinds)
    case whole
    then show ?thesis unfolding p(1) using s(2) by (simp only: W if_True mem_bit_copy_in) simp
  next
    case low24
    have "Write psm d a v = copy_in q (bytes_of_word 4
        ((word_of_bytes (copy_out d q 4) AND NOT (mask 24)) OR (v AND mask 24))) d"
      using low24 by (simp only: W if_True if_False)
    with s(2) low24(3) show ?thesis unfolding p(1)
      by (simp add: mem_bit_copy_in bit_copy_out bit_simps) auto
  next
    case nibble
    have "Write psm d a v = copy_in q (bytes_of_word 1
        ((word_of_bytes (copy_out d q 1) AND NOT (push_bit s (mask 4))) OR push_bit s (v AND mask 4))) d"
      using nibble by (simp only: W if_True if_False)
    with s(1) nibble(4) show ?thesis unfolding p(1)
      by (simp add: mem_bit_copy_in bit_copy_out bit_simps) auto
  qed
qed

section \<open>Layouts\<close>

text \<open>
  The modes that live in the spare bits of a 32-bit word use the addresses of the 32-bit mode;
  \<open>pixel_address\<close>, \<open>read_pixel\<close> and \<open>write_pixel\<close> select the access function of a mode.
\<close>

fun layout :: "PixelStorageMode \<Rightarrow> PixelStorageMode" where
  "layout C24 = C32" | "layout P8H = C32" | "layout P4HL = C32" | "layout P4HH = C32"
| "layout Z24 = Z32" | "layout psm = psm"

fun block_table :: "PixelStorageMode \<Rightarrow> nat list list" where
  "block_table C32 = BlockTableC32" | "block_table Z32 = BlockTableZ32"
| "block_table C16 = BlockTableC16" | "block_table C16S = BlockTableC16S"
| "block_table Z16 = BlockTableZ16" | "block_table Z16S = BlockTableZ16S"
| "block_table P8 = BlockTableP8" | "block_table P4 = BlockTableP4"
| "block_table _ = []"

fun column_table :: "PixelStorageMode \<Rightarrow> nat list list" where
  "column_table C32 = ColumnTable32" | "column_table Z32 = ColumnTable32"
| "column_table C16 = ColumnTable16" | "column_table C16S = ColumnTable16"
| "column_table Z16 = ColumnTable16" | "column_table Z16S = ColumnTable16"
| "column_table P8 = ColumnTable8" | "column_table P4 = ColumnTable4"
| "column_table _ = []"

fun page_table :: "PixelStorageMode \<Rightarrow> u16 list list list" where
  "page_table C32 = PageTableC32" | "page_table Z32 = PageTableZ32"
| "page_table C16 = PageTableC16" | "page_table C16S = PageTableC16S"
| "page_table Z16 = PageTableZ16" | "page_table Z16S = PageTableZ16S"
| "page_table P8 = PageTableP8" | "page_table P4 = PageTableP4"
| "page_table _ = []"

fun pixel_address :: "PixelStorageMode \<Rightarrow> u32 \<Rightarrow> u32 \<Rightarrow> u32 \<Rightarrow> u32 \<Rightarrow> u32" where
  "pixel_address C32 = LookupPixelAddressCT32" | "pixel_address Z32 = LookupPixelAddressZ32"
| "pixel_address C16 = LookupPixelAddressCT16" | "pixel_address C16S = LookupPixelAddressCT16S"
| "pixel_address Z16 = LookupPixelAddressZ16" | "pixel_address Z16S = LookupPixelAddressZ16S"
| "pixel_address P8 = LookupPixelAddressP8" | "pixel_address P4 = LookupPixelAddressP4"
| "pixel_address _ = LookupPixelAddressNull"

fun read_pixel :: "PixelStorageMode \<Rightarrow> bytes \<Rightarrow> u32 \<Rightarrow> u32 \<Rightarrow> u32 \<Rightarrow> u32 \<Rightarrow> u32" where
  "read_pixel C32 = ReadPixelCT32" | "read_pixel C24 = ReadPixelCT24"
| "read_pixel C16 = ReadPixelCT16" | "read_pixel C16S = ReadPixelCT16S"
| "read_pixel Z32 = ReadPixelZ32" | "read_pixel Z24 = ReadPixelZ24"
| "read_pixel Z16 = ReadPixelZ16" | "read_pixel Z16S = ReadPixelZ16S"
| "read_pixel P8 = ReadPixelP8" | "read_pixel P8H = ReadPixelP8H" | "read_pixel P4 = ReadPixelP4"
| "read_pixel P4HL = ReadPixelP4HL" | "read_pixel P4HH = ReadPixelP4HH"
| "read_pixel Max = ReadPixelNull"

fun write_pixel :: "PixelStorageMode \<Rightarrow> bytes \<Rightarrow> u32 \<Rightarrow> u32 \<Rightarrow> u32 \<Rightarrow> u32 \<Rightarrow> u32 \<Rightarrow> bytes" where
  "write_pixel C32 = WritePixelCT32" | "write_pixel C24 = WritePixelCT24"
| "write_pixel C16 = WritePixelCT16" | "write_pixel C16S = WritePixelCT16S"
| "write_pixel Z32 = WritePixelZ32" | "write_pixel Z24 = WritePixelZ24"
| "write_pixel Z16 = WritePixelZ16" | "write_pixel Z16S = WritePixelZ16S"
| "write_pixel P8 = WritePixelP8" | "write_pixel P8H = WritePixelP8H" | "write_pixel P4 = WritePixelP4"
| "write_pixel P4HL = WritePixelP4HL" | "write_pixel P4HH = WritePixelP4HH"
| "write_pixel Max = WritePixelNull"

lemmas read_pixel_defs =
  ReadPixelCT32_def ReadPixelAddressCT32_def ReadPixelCT24_def ReadPixelAddressCT24_def
  ReadPixelCT16_def ReadPixelAddressCT16_def ReadPixelCT16S_def ReadPixelAddressCT16S_def
  ReadPixelZ32_def ReadPixelAddressZ32_def ReadPixelZ24_def ReadPixelAddressZ24_def
  ReadPixelZ16_def ReadPixelAddressZ16_def ReadPixelZ16S_def ReadPixelAddressZ16S_def
  ReadPixelP8_def ReadPixelAddressP8_def ReadPixelP8H_def ReadPixelAddressP8H_def
  ReadPixelP4_def ReadPixelAddressP4_def ReadPixelP4HL_def ReadPixelAddressP4HL_def
  ReadPixelP4HH_def ReadPixelAddressP4HH_def

lemmas write_pixel_defs =
  WritePixelCT32_def WritePixelAddressCT32_def WritePixelCT24_def WritePixelAddressCT24_def
  WritePixelCT16_def WritePixelAddressCT16_def WritePixelCT16S_def WritePixelAddressCT16S_def
  WritePixelZ32_def WritePixelAddressZ32_def WritePixelZ24_def WritePixelAddressZ24_def
  WritePixelZ16_def WritePixelAddressZ16_def WritePixelZ16S_def WritePixelAddressZ16S_def
  WritePixelP8_def WritePixelAddressP8_def WritePixelP8H_def WritePixelAddressP8H_def
  WritePixelP4_def WritePixelAddressP4_def WritePixelP4HL_def WritePixelAddressP4HL_def
  WritePixelP4HH_def WritePixelAddressP4HH_def

lemmas lookup_defs =
  LookupPixelAddressCT32_def PageTableC32_def LookupPixelAddressZ32_def PageTableZ32_def
  LookupPixelAddressCT16_def PageTableC16_def LookupPixelAddressCT16S_def PageTableC16S_def
  LookupPixelAddressZ16_def PageTableZ16_def LookupPixelAddressZ16S_def PageTableZ16S_def
  LookupPixelAddressP8_def PageTableP8_def LookupPixelAddressP4_def PageTableP4_def

lemma read_pixel_eq:
  "IsValidPsm psm \<Longrightarrow> read_pixel psm d bp bw x y = Read psm d (pixel_address (layout psm) bp bw x y)"
  by (cases psm) (simp_all add: IsValidPsm_def read_pixel_defs)

lemma write_pixel_eq:
  "IsValidPsm psm \<Longrightarrow> write_pixel psm d bp bw x y v
     = Write psm d (pixel_address (layout psm) bp bw x y) (PackedT psm v)"
  by (cases psm) (simp_all add: IsValidPsm_def write_pixel_defs)

text \<open>A table that enumerates its positions: every number below the size occurs once.\<close>

definition enumerates :: "nat list list \<Rightarrow> nat \<times> nat \<Rightarrow> bool" where
  "enumerates t ext \<longleftrightarrow>
     length t = snd ext \<and> list_all (\<lambda>r. length r = fst ext) t \<and> sort (concat t) = [0..<fst ext * snd ext]"

lemma concat_uniform:
  "list_all (\<lambda>r. length r = w) t \<Longrightarrow> length (concat t) = length t * w"
  "list_all (\<lambda>r. length r = w) t \<Longrightarrow> x < w \<Longrightarrow> y < length t \<Longrightarrow> concat t ! (y * w + x) = t ! y ! x"
proof (induction t arbitrary: y)
  case (Cons r t)
  { case 1 then show ?case using Cons.IH(1) by simp
  next
    case (2 y)
    then show ?case using Cons.IH(2) by (cases y) (simp_all add: nth_append add.assoc)
  }
qed simp_all

lemma position_less: "x < w \<Longrightarrow> y < h \<Longrightarrow> y * w + x < h * w" for x y w h :: nat
proof -
  assume "x < w" "y < h"
  then have "y * w + x < Suc y * w" by simp
  also have "\<dots> \<le> h * w" using \<open>y < h\<close> by (intro mult_right_mono) auto
  finally show ?thesis .
qed

lemma position_inj:
  assumes "y * w + x = y' * w + x'" "x < w" "x' < w"
  shows "x = (x' :: nat) \<and> y = y'"
proof -
  have "(y * w + x) div w = (y' * w + x') div w" "(y * w + x) mod w = (y' * w + x') mod w"
    by (simp_all add: assms(1))
  with assms(2,3) show ?thesis by simp
qed

lemma enumerates_less:
  assumes "enumerates t (w, h)" "x < w" "y < h"
  shows "t ! y ! x < w * h"
proof -
  have "set (concat t) = {..<w * h}"
    using assms(1) by (metis enumerates_def fst_conv snd_conv set_sort set_upt atLeast0LessThan)
  moreover have "concat t ! (y * w + x) \<in> set (concat t)"
    using assms by (intro nth_mem) (auto simp: enumerates_def concat_uniform(1) position_less)
  ultimately show ?thesis using assms by (simp add: enumerates_def concat_uniform(2) del:
  set_concat)
qed

lemma enumerates_inj:
  assumes "enumerates t (w, h)" "x < w" "y < h" "x' < w" "y' < h" "t ! y ! x = t ! y' ! x'"
  shows "x = x' \<and> y = y'"
proof -
  have "distinct (concat t)"
    using assms(1) by (metis enumerates_def distinct_sort distinct_upt)
  moreover have "concat t ! (y * w + x) = concat t ! (y' * w + x')"
    using assms by (simp add: enumerates_def concat_uniform(2))
  ultimately have "y * w + x = y' * w + x'"
    using assms nth_eq_iff_index_eq [of "concat t"]
    by (auto simp: enumerates_def concat_uniform(1) position_less)
  then show ?thesis using assms(2,4) by (rule position_inj)
qed

lemmas table_defs = BlockTableC32_def BlockTableZ32_def BlockTableC16_def BlockTableC16S_def
  BlockTableZ16_def BlockTableZ16S_def BlockTableP8_def BlockTableP4_def
  ColumnTable32_def ColumnTable16_def ColumnTable8_def ColumnTable4_def

lemma enumerates_int:
  assumes "length t = h" "list_all (\<lambda>r. length r = w) t"
    "sort (map int (concat t)) = [0..int (w * h) - 1]"
  shows "enumerates t (w, h)"
proof -
  have "sort (map int (concat t)) = map int (sort (concat t))"
    by (rule properties_for_sort) (simp_all add: sorted_wrt_map)
  moreover have "[0..int (w * h) - 1] = map int [0..<w * h]"
    by (rule nth_equalityI) (simp_all del: of_nat_mult)
  ultimately show ?thesis using assms by (simp add: enumerates_def inj_map_eq_map)
qed

lemma column_table_4: "enumerates ColumnTable4 (32, 16)"
  by (rule enumerates_int; simp add: ColumnTable4_def del: sort_key_simps upto_rec_numeral;
  code_simp?)

lemma column_table_8: "enumerates ColumnTable8 (16, 16)"
  by (rule enumerates_int; simp add: ColumnTable8_def del: sort_key_simps upto_rec_numeral;
  code_simp?)

lemma column_tables_enumerate:
  "enumerates ColumnTable32 (8, 8)" "enumerates ColumnTable16 (16, 8)"
  by (rule enumerates_int; simp add: table_defs del: sort_key_simps upto_rec_numeral; code_simp)+

lemma block_tables_enumerate:
  "enumerates BlockTableC32 (8, 4)" "enumerates BlockTableZ32 (8, 4)"
  "enumerates BlockTableC16 (4, 8)" "enumerates BlockTableC16S (4, 8)"
  "enumerates BlockTableZ16 (4, 8)" "enumerates BlockTableZ16S (4, 8)"
  "enumerates BlockTableP8 (8, 4)" "enumerates BlockTableP4 (4, 8)"
  by (rule enumerates_int; simp add: table_defs del: sort_key_simps upto_rec_numeral; code_simp)+

definition is_layout :: "PixelStorageMode \<Rightarrow> bool" where
  "is_layout l \<longleftrightarrow> l \<in> {C32, Z32, C16, C16S, Z16, Z16S, P8, P4}"

lemma is_layout_layout: "IsValidPsm psm \<Longrightarrow> is_layout (layout psm)"
  by (cases psm) (simp_all add: IsValidPsm_def is_layout_def)

lemma layout_tables:
  assumes "is_layout l"
  shows "enumerates (block_table l) (BlockExtent l)" "enumerates (column_table l) (ColumnExtent l)"
  using assms column_table_4 column_table_8 column_tables_enumerate block_tables_enumerate
  by (auto simp: is_layout_def)

lemma layout_extents:
  assumes "is_layout l"
  shows "fst (PageExtent l) = fst (ColumnExtent l) * fst (BlockExtent l)"
    "snd (PageExtent l) = snd (ColumnExtent l) * snd (BlockExtent l)"
    "BlocksPerPage l = 32" "PixelsPerPage l = 32 * PixelsPerBlock l"
    "PixelsPerBlock l * UnpackedBitWidth l = 2048"
    "0 < fst (ColumnExtent l)" "0 < snd (ColumnExtent l)" "0 < fst (BlockExtent l)" "0 < snd (BlockExtent l)"
    "PixelsPerBlock l \<le> 512" "fst (PageExtent l) dvd 128" "0 < fst (PageExtent l)"
    "0 < snd (PageExtent l)" "0 < PixelsPerBlock l"
  using assms by (auto simp: is_layout_def BlocksPerPage_def PixelsPerBlock_def PixelsPerPage_def)

text \<open>The offset of a pixel from the start of its page, and the address as one linear formula.\<close>

definition page_offset :: "PixelStorageMode \<Rightarrow> nat \<Rightarrow> nat \<Rightarrow> nat" where
  "page_offset l x y = BlockId l (block_table l) x y * PixelsPerBlock l + ColumnId l (column_table l) x y"

definition linear_address :: "PixelStorageMode \<Rightarrow> nat \<Rightarrow> nat \<Rightarrow> nat \<Rightarrow> nat \<Rightarrow> nat" where
  "linear_address l bp bw x y =
     bp * PixelsPerBlock l
     + (y div snd (PageExtent l) * (bw * 64 div fst (PageExtent l)) + x div fst (PageExtent l)) * PixelsPerPage l
     + page_offset l (x mod fst (PageExtent l)) (y mod snd (PageExtent l))"

lemma BlockId_less: "is_layout l \<Longrightarrow> BlockId l (block_table l) x y < 32"
  using enumerates_less [of "block_table l" "fst (BlockExtent l)" "snd (BlockExtent l)"]
    layout_tables(1) [of l] layout_extents [of l]
  by (simp add: BlockId_def BlocksPerPage_def)

lemma ColumnId_less: "is_layout l \<Longrightarrow> ColumnId l (column_table l) x y < PixelsPerBlock l"
  using enumerates_less [of "column_table l" "fst (ColumnExtent l)" "snd (ColumnExtent l)"]
    layout_tables(2) [of l] layout_extents [of l]
  by (simp add: ColumnId_def PixelsPerBlock_def)

lemma page_offset_less: "is_layout l \<Longrightarrow> page_offset l x y < PixelsPerPage l"
  using position_less [OF ColumnId_less [of l x y] BlockId_less [of l x y]] layout_extents(4) [of l]
  by (simp add: page_offset_def)

lemma page_offset_inj:
  assumes l: "is_layout l" and xy: "x < fst (PageExtent l)" "y < snd (PageExtent l)"
    "x' < fst (PageExtent l)" "y' < snd (PageExtent l)"
    and eq: "page_offset l x y = page_offset l x' y'"
  shows "x = x' \<and> y = y'"
proof -
  obtain cx cy bx "by" where ext: "ColumnExtent l = (cx, cy)" "BlockExtent l = (bx, by)"
    by (metis surj_pair)
  note e = layout_extents [OF l, unfolded ext fst_conv snd_conv]
  have lt: "x div cx < bx" "y div cy < by" "x' div cx < bx" "y' div cy < by"
    using xy e(1,2) by (simp_all add: less_mult_imp_div_less mult.commute)
  have "page_offset l x y div PixelsPerBlock l = BlockId l (block_table l) x y"
    "page_offset l x y mod PixelsPerBlock l = ColumnId l (column_table l) x y" for x y
    using ColumnId_less [OF l, of x y] by (simp_all add: page_offset_def)
  then have ids: "BlockId l (block_table l) x y = BlockId l (block_table l) x' y'"
    "ColumnId l (column_table l) x y = ColumnId l (column_table l) x' y'"
    using eq by metis+
  have "x div cx = x' div cx \<and> y div cy = y' div cy"
    using enumerates_inj [OF layout_tables(1) [OF l, unfolded ext] lt] ids(1) lt
    by (simp add: BlockId_def ext)
  moreover have "x mod cx = x' mod cx \<and> y mod cy = y' mod cy"
    using enumerates_inj [OF layout_tables(2) [OF l, unfolded ext], of "x mod cx" "y mod cy" "x' mod cx" "y' mod cy"]
      ids(2) e(6,7) by (simp add: ColumnId_def ext)
  ultimately show ?thesis by (metis div_mult_mod_eq)
qed

lemma page_offset_bij:
  assumes "is_layout l"
  shows "bij_betw (\<lambda>(x, y). page_offset l x y) ({..<fst (PageExtent l)} \<times> {..<snd (PageExtent l)})
           {..<PixelsPerPage l}"
proof -
  let ?f = "\<lambda>(x, y). page_offset l x y" and ?A = "{..<fst (PageExtent l)} \<times> {..<snd (PageExtent l)}"
  have inj: "inj_on ?f ?A"
    using page_offset_inj [OF assms] by (auto simp: inj_on_def)
  moreover have "?f ` ?A = {..<PixelsPerPage l}"
  proof (rule card_subset_eq)
    show "?f ` ?A \<subseteq> {..<PixelsPerPage l}" using page_offset_less [OF assms] by auto
    show "card (?f ` ?A) = card {..<PixelsPerPage l}"
      by (simp add: card_image [OF inj] PixelsPerPage_def)
  qed simp
  ultimately show ?thesis by (simp add: bij_betw_def)
qed

lemma id_wrap:
  assumes "is_layout l"
  shows "BlockId l t (x mod fst (PageExtent l)) (y mod snd (PageExtent l)) = BlockId l t x y"
    "ColumnId l t (x mod fst (PageExtent l)) (y mod snd (PageExtent l)) = ColumnId l t x y"
  using layout_extents(6-9) [OF assms]
  by (simp_all add: BlockId_def ColumnId_def layout_extents(1,2) [OF assms] mod_mult2_eq
  mod_mod_cancel)

lemma page_table_init:
  "is_layout l \<Longrightarrow> page_table l = InitPageLookupTable l (block_table l) (column_table l)"
  by (auto simp: is_layout_def lookup_defs)

lemma page_table_entry:
  assumes "is_layout l" "b < 32" "x < fst (PageExtent l)" "y < snd (PageExtent l)"
  shows "unat (page_table l ! b ! y ! x) = b * PixelsPerBlock l + page_offset l x y"
proof -
  define N where "N = b * PixelsPerBlock l + page_offset l x y"
  have "page_table l ! b ! y ! x = of_nat N"
    using assms layout_extents(3) [OF assms(1)]
    by (simp add: page_table_init InitPageLookupTable_def N_def page_offset_def algebra_simps)
  moreover have "N < 2 ^ 16"
  proof -
    have "N < b * PixelsPerBlock l + 32 * PixelsPerBlock l"
      using page_offset_less [OF assms(1), of x y] layout_extents(4) [OF assms(1)] by (simp add: N_def)
    also have "\<dots> \<le> 64 * 512"
      using layout_extents(10) [OF assms(1)] assms(2) by (intro order_trans [OF _ mult_mono [of "b + 32" 64]]) (simp_all add: algebra_simps)
    finally show ?thesis by simp
  qed
  ultimately have "unat (page_table l ! b ! y ! x) = N" by (simp add: unat_of_nat)
  then show ?thesis by (simp add: N_def)
qed

lemma pixel_address_eq:
  "is_layout l \<Longrightarrow> pixel_address l bp bw x y = Address l (page_table l) bp bw x y"
  by (auto simp: is_layout_def lookup_defs)

lemma ucast_of_unat: "unat w = n \<Longrightarrow> ucast w = of_nat n"
  by (metis of_nat_unat)

lemma pixel_address_linear:
  assumes l: "is_layout l" and bw: "unat bw < 2 ^ 26"
  shows "pixel_address l bp bw x y = of_nat (linear_address l (unat bp) (unat bw) (unat x) (unat y))"
proof -
  obtain ex ey where ext: "PageExtent l = (ex, ey)" by (metis surj_pair)
  note e = layout_extents [OF l, unfolded ext fst_conv snd_conv]
  have small: "ex < 2 ^ 32" "ey < 2 ^ 32" "ex \<le> 128"
    using l ext by (auto simp: is_layout_def)
  have divs: "w div of_nat n = of_nat (unat w div n)" if "n < 2 ^ 32" for w :: u32 and n
    using that by (simp add: word_arith_nat_div unat_of_nat)
  have bw64: "unat (bw * 64) = unat bw * 64"
    using bw by (simp add: unat_word_ariths)
  have pg: "PageId l bp bw x y
      = of_nat (unat bp div 32 + unat y div ey * (unat bw * 64 div ex) + unat x div ex)"
    using small divs [of 32 bp] by (simp add: PageId_def ext e(3) divs bw64)
  have ent: "ucast (page_table l ! (unat bp mod 32) ! (unat y mod ey) ! (unat x mod ex))
      = (of_nat (unat bp mod 32 * PixelsPerBlock l + page_offset l (unat x mod ex) (unat y mod ey)) :: u32)"
    using page_table_entry [OF l, of "unat bp mod 32" "unat x mod ex" "unat y mod ey"] e(12,13)
    by (intro ucast_of_unat) (simp add: ext)
  have "unat bp * PixelsPerBlock l
      = unat bp div 32 * (32 * PixelsPerBlock l) + unat bp mod 32 * PixelsPerBlock l"
    by (metis add_mult_distrib mult.assoc div_mult_mod_eq)
  then have lin: "linear_address l (unat bp) (unat bw) (unat x) (unat y)
      = (unat bp div 32 + unat y div ey * (unat bw * 64 div ex) + unat x div ex) * PixelsPerPage l
        + (unat bp mod 32 * PixelsPerBlock l + page_offset l (unat x mod ex) (unat y mod ey))"
    by (simp add: linear_address_def ext e(4) add_mult_distrib)
  show ?thesis
    unfolding pixel_address_eq [OF l] Address_def Let_def pg ext fst_conv snd_conv e(3) ent lin
    by (simp only: of_nat_add of_nat_mult)
qed

end
