(* ===== verification/GSMemoryProps.thy ===== *)
theory GSMemoryProps
  imports GSMemory
begin

text \<open>
  What the pixel access functions of the GS memory guarantee: the swizzle of a page is a
  bijection, a pixel keeps what was written to it and no other pixel of its buffer changes, and
  the modes that share the words of a 32-bit page do not disturb each other.
\<close>

section \<open>Positions of pixels\<close>

lemma pixel_pos_mod:
  assumes "IsValidPsm psm"
  shows "pixel_pos psm (a mod 2 ^ 32) = pixel_pos psm a"
proof -
  have "2 ^ 25 dvd 2 ^ 32 * UnpackedBitWidth psm" by (rule dvd_mult2) (simp add: le_imp_power_dvd)
  then have "a * UnpackedBitWidth psm mod 2 ^ 25 = (a mod 2 ^ 32) * UnpackedBitWidth psm mod 2 ^ 25"
    by (metis mod_mod_cancel mod_mult_mult2)
  then show ?thesis by (metis pixel_pos_def mod_add_left_eq)
qed

lemma layout_width: "IsValidPsm psm \<Longrightarrow> UnpackedBitWidth (layout psm) = UnpackedBitWidth psm"
  by (cases psm) (simp_all add: IsValidPsm_def)

lemma width_facts:
  assumes "IsValidPsm psm"
  shows "UnpackedBitWidth psm dvd 2 ^ 25" "BitOffset psm + BitsPerPixel psm \<le> UnpackedBitWidth psm"
    "0 < UnpackedBitWidth psm"
  using assms by (cases psm; simp add: IsValidPsm_def)+

lemma pixel_pos_word:
  assumes "IsValidPsm psm"
  shows "pixel_pos psm a = UnpackedBitWidth psm * (a mod (2 ^ 25 div UnpackedBitWidth psm)) + BitOffset psm"
proof -
  let ?w = "UnpackedBitWidth psm"
  have w: "2 ^ 25 = ?w * (2 ^ 25 div ?w)" using width_facts(1) [OF assms] by (metis dvd_mult_div_cancel)
  have b: "BitOffset psm < ?w" using assms by (cases psm) (simp_all add: IsValidPsm_def)
  have "(a * ?w + BitOffset psm) mod (?w * (2 ^ 25 div ?w)) = ?w * (a mod (2 ^ 25 div ?w)) + BitOffset psm"
    using b by (simp add: mod_mult2_eq)
  then show ?thesis by (simp only: pixel_pos_def flip: w)
qed

text \<open>Two pixels in words of the same width are disjoint if their words or their lanes are.\<close>

lemma pixels_disjoint:
  assumes "IsValidPsm psm" "IsValidPsm psm'" "UnpackedBitWidth psm = UnpackedBitWidth psm'"
    and "a mod (2 ^ 25 div UnpackedBitWidth psm) \<noteq> a' mod (2 ^ 25 div UnpackedBitWidth psm)
      \<or> BitOffset psm + BitsPerPixel psm \<le> BitOffset psm'
      \<or> BitOffset psm' + BitsPerPixel psm' \<le> BitOffset psm"
    and "k < BitsPerPixel psm'"
  shows "\<not> (pixel_pos psm a \<le> pixel_pos psm' a' + k
             \<and> pixel_pos psm' a' + k < pixel_pos psm a + BitsPerPixel psm)"
proof -
  define w m m' where "w = UnpackedBitWidth psm" and "m = a mod (2 ^ 25 div w)" and "m' = a' mod (2 ^ 25 div w)"
  have pos: "pixel_pos psm a = w * m + BitOffset psm" "pixel_pos psm' a' = w * m' + BitOffset psm'"
    using assms(1-3) by (simp_all add: pixel_pos_word w_def m_def m'_def)
  have le: "BitOffset psm + BitsPerPixel psm \<le> w" "BitOffset psm' + BitsPerPixel psm' \<le> w"
    using width_facts(2) [OF assms(1)] width_facts(2) [OF assms(2)] assms(3) by (simp_all add: w_def)
  consider "m = m'" | "Suc m \<le> m'" | "Suc m' \<le> m" by linarith
  then show ?thesis
  proof cases
    case 1
    with assms(4,5) show ?thesis by (auto simp: pos m_def m'_def w_def)
  next
    case 2
    then have "w * Suc m \<le> w * m'" by (rule mult_left_mono) simp
    with le show ?thesis by (simp add: pos)
  next
    case 3
    then have "w * Suc m' \<le> w * m" by (rule mult_left_mono) simp
    with le assms(5) show ?thesis by (simp add: pos)
  qed
qed

lemma Read_Write_disjoint:
  assumes "IsValidPsm psm" "IsValidPsm psm'" "UnpackedBitWidth psm = UnpackedBitWidth psm'"
    and "unat a mod (2 ^ 25 div UnpackedBitWidth psm) \<noteq> unat a' mod (2 ^ 25 div UnpackedBitWidth psm)
      \<or> BitOffset psm + BitsPerPixel psm \<le> BitOffset psm'
      \<or> BitOffset psm' + BitsPerPixel psm' \<le> BitOffset psm"
  shows "Read psm' (Write psm d a v) a' = Read psm' d a'"
  using pixels_disjoint [OF assms] assms(1,2)
  by (intro bit_word_eqI) (auto simp: bit_Read mem_bit_Write)

lemma Read_Write_same:
  assumes "IsValidPsm psm"
  shows "Read psm (Write psm d a v) a = take_bit (BitsPerPixel psm) v"
  using assms by (intro bit_word_eqI) (auto simp: bit_Read mem_bit_Write bit_take_bit_iff)

lemma take_PackedT:
  "IsValidPsm psm \<Longrightarrow> take_bit (BitsPerPixel psm) (PackedT psm v) = take_bit (BitsPerPixel psm) v"
  by (cases psm) (simp_all add: IsValidPsm_def PackedT_def)

section \<open>Buffers\<close>

text \<open>
  A buffer of width \<open>bw\<close> (in units of 64 pixels) has a whole number of pages per row;
  \<open>buffer_pages\<close> is the number of pages its first \<open>h\<close> rows of pixels touch. The memory has 512.
\<close>

definition page_cols :: "PixelStorageMode \<Rightarrow> nat \<Rightarrow> nat" where
  "page_cols psm bw = bw * 64 div fst (PageExtent psm)"

definition buffer_pages :: "PixelStorageMode \<Rightarrow> nat \<Rightarrow> nat \<Rightarrow> nat" where
  "buffer_pages psm bw h = page_cols psm bw * ((h + snd (PageExtent psm) - 1) div snd (PageExtent psm))"

definition in_buffer :: "PixelStorageMode \<Rightarrow> nat \<Rightarrow> nat \<Rightarrow> nat \<Rightarrow> nat \<Rightarrow> bool" where
  "in_buffer psm bw h x y \<longleftrightarrow> x < page_cols psm bw * fst (PageExtent psm) \<and> y < h"

lemma mod_add_cancel_less:
  assumes "(a + b) mod m = (a + c) mod m" "b < m" "c < m"
  shows "b = (c :: nat)"
proof -
  have "(int (a + b) - int a) mod int m = (int (a + c) - int a) mod int m"
    using assms(1) by (metis mod_diff_left_eq of_nat_mod)
  with assms(2,3) show ?thesis by simp
qed

lemma page_index_less:
  assumes "is_layout l" "in_buffer l bw h x y"
  shows "y div snd (PageExtent l) * page_cols l bw + x div fst (PageExtent l) < buffer_pages l bw h"
proof -
  have e: "0 < fst (PageExtent l)" "0 < snd (PageExtent l)" using layout_extents(12,13) [OF assms(1)] .
  have "x div fst (PageExtent l) < page_cols l bw"
    using assms(2) by (simp add: in_buffer_def less_mult_imp_div_less)
  moreover have "y div snd (PageExtent l) < (h + snd (PageExtent l) - 1) div snd (PageExtent l)"
  proof -
    have "Suc (y div snd (PageExtent l)) = (y + snd (PageExtent l)) div snd (PageExtent l)"
      using div_add_self2 [of "snd (PageExtent l)" y] e(2) by simp
    also have "\<dots> \<le> (h + snd (PageExtent l) - 1) div snd (PageExtent l)"
      using assms(2) by (intro div_le_mono) (auto simp: in_buffer_def)
    finally show ?thesis by simp
  qed
  ultimately show ?thesis using position_less by (simp add: buffer_pages_def mult.commute)
qed

lemma linear_inj:
  assumes l: "is_layout l" and fits: "buffer_pages l bw h \<le> 512"
    and xy: "in_buffer l bw h x y" "in_buffer l bw h x' y'"
    and eq: "linear_address l bp bw x y mod (512 * PixelsPerPage l)
      = linear_address l bp bw x' y' mod (512 * PixelsPerPage l)"
  shows "x = x' \<and> y = y'"
proof -
  obtain ex ey where ext: "PageExtent l = (ex, ey)" by (metis surj_pair)
  define W where "W = page_cols l bw"
  define pg where "pg x y = y div ey * W + x div ex" for x y
  define po where "po x y = page_offset l (x mod ex) (y mod ey)" for x y
  have e: "0 < ex" "0 < ey" using layout_extents(12,13) [OF l] by (simp_all add: ext)
  have lin: "linear_address l bp bw x y = bp * PixelsPerBlock l + (pg x y * PixelsPerPage l + po x y)" for x y
    by (simp add: linear_address_def pg_def po_def W_def page_cols_def ext)
  have po: "po x y < PixelsPerPage l" for x y using page_offset_less [OF l] by (simp add: po_def)
  have pg: "pg x y < 512" "pg x' y' < 512"
    using page_index_less [OF l xy(1)] page_index_less [OF l xy(2)] fits by (simp_all add: pg_def W_def ext)
  have "pg x y * PixelsPerPage l + po x y = pg x' y' * PixelsPerPage l + po x' y'"
    using eq position_less [OF po pg(1)] position_less [OF po pg(2)] unfolding lin
    by (rule mod_add_cancel_less)
  then have same: "pg x y = pg x' y'" "po x y = po x' y'"
    using position_inj [OF _ po po] by blast+
  have "x div ex < W" "x' div ex < W"
    using xy by (simp_all add: in_buffer_def W_def ext less_mult_imp_div_less)
  then have "x div ex = x' div ex" "y div ey = y' div ey"
    using position_inj [of "y div ey" W] same(1) unfolding pg_def by blast+
  moreover have "x mod ex = x' mod ex \<and> y mod ey = y' mod ey"
    using page_offset_inj [OF l, of "x mod ex" "y mod ey" "x' mod ex" "y' mod ey"] same(2) e
    by (simp add: po_def ext)
  ultimately show ?thesis by (metis div_mult_mod_eq)
qed

lemma buffer_width:
  assumes "is_layout l" "buffer_pages l bw h \<le> 512" "in_buffer l bw h x y"
  shows "bw < 2 ^ 26"
proof -
  have "(0 :: nat) < snd (PageExtent l)" using layout_extents(13) [OF assms(1)] .
  then have "1 \<le> (h + snd (PageExtent l) - 1) div snd (PageExtent l)"
    using assms(3) by (auto simp: in_buffer_def div_greater_zero_iff Suc_le_eq)
  then have "page_cols l bw * 1 \<le> buffer_pages l bw h"
    unfolding buffer_pages_def by (rule mult_left_mono) simp
  with assms(2) have "bw * 64 div fst (PageExtent l) \<le> 512" by (simp add: page_cols_def)
  moreover have "fst (PageExtent l) \<le> 128" "0 < fst (PageExtent l)"
    using layout_extents(11,12) [OF assms(1)] by (auto dest: dvd_imp_le)
  ultimately have "bw * 64 < 513 * 128"
    using div_less_iff_less_mult [of "fst (PageExtent l)" "bw * 64" 513]
    by (intro order_less_le_trans [OF _ mult_left_mono [of "fst (PageExtent l)" 128 513]]) simp_all
  then show ?thesis by simp
qed

lemma memory_pixels: "is_layout l \<Longrightarrow> 2 ^ 25 div UnpackedBitWidth l = 512 * PixelsPerPage l"
  by (auto simp: is_layout_def PixelsPerPage_def)

lemma pixel_pos_bound:
  assumes "IsValidPsm psm"
  shows "pixel_pos psm a + BitsPerPixel psm \<le> 2 ^ 25"
proof -
  let ?w = "UnpackedBitWidth psm"
  have w: "?w * (2 ^ 25 div ?w) = 2 ^ 25" using width_facts(1) [OF assms] by simp
  have "a mod (2 ^ 25 div ?w) < 2 ^ 25 div ?w" using w by (intro mod_less_divisor) (rule ccontr, simp)
  then have "?w * Suc (a mod (2 ^ 25 div ?w)) \<le> ?w * (2 ^ 25 div ?w)" by (intro mult_left_mono) simp_all
  with w width_facts(2) [OF assms] show ?thesis by (simp add: pixel_pos_word [OF assms])
qed

lemma Write_in_bounds:
  assumes "IsValidPsm psm" "MEMORY_SIZE \<le> i"
  shows "Write psm d a v i = d i"
proof (rule bit_word_eqI)
  fix k assume "k < LENGTH(8)"
  then have k: "mem_bit m (8 * i + k) = bit (m i) k" for m by (simp add: mem_bit_def)
  have "2 ^ 25 \<le> 8 * i + k" using assms(2) by (simp add: MEMORY_SIZE_def)
  then have "mem_bit (Write psm d a v) (8 * i + k) = mem_bit d (8 * i + k)"
    using pixel_pos_bound [OF assms(1), of "unat a"] by (simp add: mem_bit_Write [OF assms(1)])
  then show "bit (Write psm d a v i) k = bit (d i) k" by (simp add: k)
qed

lemma pixel_write_read:
  assumes "IsValidPsm psm" "buffer_pages (layout psm) (unat bw) h \<le> 512"
    and "in_buffer (layout psm) (unat bw) h (unat x) (unat y)"
  shows "read_pixel psm (write_pixel psm d bp bw x y v) bp bw x y = take_bit (BitsPerPixel psm) v"
    and "in_buffer (layout psm) (unat bw) h (unat x') (unat y') \<Longrightarrow> (x', y') \<noteq> (x, y) \<Longrightarrow>
         read_pixel psm (write_pixel psm d bp bw x y v) bp bw x' y' = read_pixel psm d bp bw x' y'"
proof -
  note l = is_layout_layout [OF assms(1)]
  note bw = buffer_width [OF l assms(2,3)]
  show "read_pixel psm (write_pixel psm d bp bw x y v) bp bw x y = take_bit (BitsPerPixel psm) v"
    using assms(1) by (simp add: read_pixel_eq write_pixel_eq Read_Write_same take_PackedT)
  assume other: "in_buffer (layout psm) (unat bw) h (unat x') (unat y')" "(x', y') \<noteq> (x, y)"
  let ?M = "512 * PixelsPerPage (layout psm)"
  have "linear_address (layout psm) (unat bp) (unat bw) (unat x) (unat y) mod ?M
      \<noteq> linear_address (layout psm) (unat bp) (unat bw) (unat x') (unat y') mod ?M"
    using linear_inj [OF l assms(2,3), of "unat x'" "unat y'" "unat bp"] other
    by (auto simp: word_unat_eq_iff)
  moreover have "n mod 2 ^ 32 mod ?M = n mod ?M" for n
    using l by (intro mod_mod_cancel) (auto simp: is_layout_def PixelsPerPage_def)
  ultimately show "read_pixel psm (write_pixel psm d bp bw x y v) bp bw x' y' = read_pixel psm d bp bw x' y'"
    using assms(1) memory_pixels [OF l] layout_width [OF assms(1)]
    by (simp add: read_pixel_eq write_pixel_eq pixel_address_linear [OF l bw] Read_Write_disjoint unat_of_nat)
qed

text \<open>Only the bits of the mode's width of the value matter.\<close>

lemma write_pixel_trunc:
  assumes "IsValidPsm psm"
  shows "write_pixel psm d bp bw x y (take_bit (BitsPerPixel psm) v) = write_pixel psm d bp bw x y v"
proof -
  have "take_bit (BitsPerPixel psm) (PackedT psm (take_bit (BitsPerPixel psm) v))
      = take_bit (BitsPerPixel psm) (PackedT psm v)"
    using assms by (simp add: take_PackedT)
  then have "bit (PackedT psm (take_bit (BitsPerPixel psm) v)) k = bit (PackedT psm v) k"
    if "k < BitsPerPixel psm" for k
    using that by (metis bit_take_bit_iff)
  then show ?thesis
    unfolding write_pixel_eq [OF assms] by (intro mem_bit_eqI) (auto simp: mem_bit_Write [OF assms])
qed

section \<open>Properties\<close>

text \<open>
  The swizzle of a page is a bijection: for each of the eight memory layouts, and for each of
  the 32 blocks a buffer may start in, the page table that \<open>InitLookupTables\<close> builds maps the
  pixels of a page one to one onto the consecutive pixel addresses of 32 blocks.
\<close>

lemma gs_page_bijective:
  assumes "is_layout l" "b < 32"
  shows "bij_betw (\<lambda>(x, y). unat (page_table l ! b ! y ! x))
           ({..<fst (PageExtent l)} \<times> {..<snd (PageExtent l)})
           {b * PixelsPerBlock l..<b * PixelsPerBlock l + PixelsPerPage l}"
proof -
  let ?A = "{..<fst (PageExtent l)} \<times> {..<snd (PageExtent l)}" and ?s = "b * PixelsPerBlock l"
  have "bij_betw ((+) ?s) {..<PixelsPerPage l} {?s..<?s + PixelsPerPage l}"
    by (rule bij_betw_byWitness [of _ "\<lambda>i. i - ?s"]) auto
  then have "bij_betw ((+) ?s \<circ> (\<lambda>(x, y). page_offset l x y)) ?A {?s..<?s + PixelsPerPage l}"
    using page_offset_bij [OF assms(1)] bij_betw_trans by blast
  then show ?thesis
    by (rule bij_betw_cong [THEN iffD1, rotated]) (auto simp: page_table_entry [OF assms])
qed

text \<open>
  C25 (A pixel keeps its value and no other changes): in every pixel storage mode, for a buffer
  that fits the memory, writing a pixel and reading it back gives the written value cut to the
  mode's width, every other pixel of the buffer reads as before, and no byte beyond the 4 MB
  changes.
\<close>

theorem gs_pixel_roundtrip:
  assumes "IsValidPsm psm" "buffer_pages (layout psm) (unat bw) h \<le> 512"
    and "in_buffer (layout psm) (unat bw) h (unat x) (unat y)"
  shows "read_pixel psm (write_pixel psm d bp bw x y v) bp bw x y = take_bit (BitsPerPixel psm) v
    \<and> (\<forall>x' y'. in_buffer (layout psm) (unat bw) h (unat x') (unat y') \<and> (x', y') \<noteq> (x, y) \<longrightarrow>
         read_pixel psm (write_pixel psm d bp bw x y v) bp bw x' y' = read_pixel psm d bp bw x' y')
    \<and> (\<forall>i \<ge> MEMORY_SIZE. write_pixel psm d bp bw x y v i = d i)"
  using pixel_write_read [OF assms] Write_in_bounds [OF assms(1)] by (auto simp: write_pixel_eq [OF assms(1)])

theorem gs_pixel_roundtrip_witness:
  "buffer_pages P4 10 448 \<le> 512 \<and> in_buffer P4 10 448 639 447
   \<and> read_pixel P4 (write_pixel P4 (\<lambda>_. 0xAB) 0x2300 10 639 447 0x17) 0x2300 10 639 447 = 7
   \<and> read_pixel P4 (write_pixel P4 (\<lambda>_. 0xAB) 0x2300 10 639 447 0x17) 0x2300 10 638 447
     = read_pixel P4 (\<lambda>_. 0xAB) 0x2300 10 638 447"
proof -
  have b: "buffer_pages P4 10 448 \<le> 512" "in_buffer P4 10 448 639 447" "in_buffer P4 10 448 638 447"
    by (simp_all add: buffer_pages_def in_buffer_def page_cols_def)
  then show ?thesis
    using gs_pixel_roundtrip [where psm = P4 and bw = 10 and h = 448 and x = 639 and y = 447
        and d = "\<lambda>_. 0xAB" and bp = "0x2300" and v = "0x17"]
    by (auto simp: IsValidPsm_def)
qed

text \<open>
  C26 (Modes that share a word do not disturb each other): the 24-bit colours and depths, the
  8-bit indices of the upper byte and the two 4-bit indices occupy separate lanes of the 32-bit
  words, so a write in one mode is invisible in a mode of a disjoint lane, whatever the buffers and
  pixels; and a 32-bit pixel is what the modes of its lanes read, put together.
\<close>

definition lane :: "PixelStorageMode \<Rightarrow> nat set" where
  "lane psm = {BitOffset psm..<BitOffset psm + BitsPerPixel psm}"

theorem gs_planes_independent:
  assumes "IsValidPsm psm" "IsValidPsm psm'" "UnpackedBitWidth psm = 32" "UnpackedBitWidth psm' = 32"
    and "lane psm \<inter> lane psm' = {}"
  shows "read_pixel psm' (write_pixel psm d bp bw x y v) bp' bw' x' y' = read_pixel psm' d bp' bw' x' y'
    \<and> read_pixel C32 d bp bw x y
       = push_bit 24 (read_pixel P8H d bp bw x y) OR read_pixel C24 d bp bw x y
    \<and> read_pixel P8H d bp bw x y
       = push_bit 4 (read_pixel P4HH d bp bw x y) OR read_pixel P4HL d bp bw x y"
proof (intro conjI)
  have "0 < BitsPerPixel psm" "0 < BitsPerPixel psm'" by (cases psm, simp_all) (cases psm', simp_all)
  with assms(5) have "BitOffset psm + BitsPerPixel psm \<le> BitOffset psm'
      \<or> BitOffset psm' + BitsPerPixel psm' \<le> BitOffset psm"
    by (auto simp: lane_def disjoint_iff not_le not_less)
  then show "read_pixel psm' (write_pixel psm d bp bw x y v) bp' bw' x' y' = read_pixel psm' d bp' bw' x' y'"
    using assms(1-4) by (simp add: read_pixel_eq write_pixel_eq Read_Write_disjoint)
  show "read_pixel C32 d bp bw x y = push_bit 24 (read_pixel P8H d bp bw x y) OR read_pixel C24 d bp bw x y"
    by (rule bit_word_eqI) (auto simp: read_pixel_defs IsValidPsm_def bit_Read bit_simps pixel_pos_word)
  show "read_pixel P8H d bp bw x y = push_bit 4 (read_pixel P4HH d bp bw x y) OR read_pixel P4HL d bp bw x y"
    by (rule bit_word_eqI) (auto simp: read_pixel_defs IsValidPsm_def bit_Read bit_simps pixel_pos_word ac_simps)
qed

theorem gs_planes_independent_witness:
  "lane C24 \<inter> lane P8H = {}
   \<and> read_pixel P8H (write_pixel C24 (\<lambda>_. 0x5A) 0 10 3 4 0xFFFFFFFF) 0 10 3 4 = read_pixel P8H (\<lambda>_. 0x5A) 0 10 3 4"
proof -
  have "lane C24 \<inter> lane P8H = {}" by (simp add: lane_def)
  then show ?thesis using gs_planes_independent [where psm = C24 and psm' = P8H and d = "\<lambda>_. 0x5A" and bp = 0 and bw = 10
        and x = 3 and y = 4 and v = "0xFFFFFFFF" and bp' = 0 and bw' = 10 and x' = 3 and y' = 4]
    by (simp add: IsValidPsm_def)
qed

end
