(* ===== verification/GSTransfer.thy ===== *)
theory GSTransfer
  imports GSMemoryProps
begin

text \<open>
  The transmission engine of the GS (\<open>ps2_gs_gpu.cpp\<close>): the four transfer registers, image data
  from the host into local memory (\<open>processImageData\<close>, which keeps its position between packets),
  copies inside local memory, and local memory read back into the host buffer. A step outside an
  array, which the C++ code leaves undefined, is \<open>None\<close>.
\<close>

section \<open>Registers and state\<close>

record transfer_state =
  ts_x :: u32
  ts_y :: u32
  total_pixels :: u32
  copied_pixels :: u32

record gs =
  m_vram :: "bytes option"
  bitbltbuf :: u64
  trxpos :: u64
  trxreg :: u64
  trxdir :: u64
  m_transferState :: transfer_state
  m_pendingImageBytes :: u64
  m_localToHostBuffer :: "u8 list"
  m_localToHostReadPos :: nat

text \<open>\<open>Bitfield<u64, Offset, BitCount>::Raw\<close>, converted to the \<open>u32\<close> it is assigned to.\<close>

definition bitfield :: "nat \<Rightarrow> nat \<Rightarrow> u64 \<Rightarrow> u32" where
  "bitfield off n v = ucast (take_bit n (drop_bit off v))"

definition sbp :: "gs \<Rightarrow> u32" where "sbp g = bitfield 0 14 (bitbltbuf g)"
definition sbw :: "gs \<Rightarrow> u32" where "sbw g = bitfield 16 6 (bitbltbuf g)"
definition spsm :: "gs \<Rightarrow> u32" where "spsm g = bitfield 24 6 (bitbltbuf g)"
definition dbp :: "gs \<Rightarrow> u32" where "dbp g = bitfield 32 14 (bitbltbuf g)"
definition dbw :: "gs \<Rightarrow> u32" where "dbw g = bitfield 48 6 (bitbltbuf g)"
definition dpsm :: "gs \<Rightarrow> u32" where "dpsm g = bitfield 56 6 (bitbltbuf g)"
definition ssax :: "gs \<Rightarrow> u32" where "ssax g = bitfield 0 11 (trxpos g)"
definition ssay :: "gs \<Rightarrow> u32" where "ssay g = bitfield 16 11 (trxpos g)"
definition dsax :: "gs \<Rightarrow> u32" where "dsax g = bitfield 32 11 (trxpos g)"
definition dsay :: "gs \<Rightarrow> u32" where "dsay g = bitfield 48 11 (trxpos g)"
definition xfer_dir :: "gs \<Rightarrow> u32" where "xfer_dir g = bitfield 59 2 (trxpos g)"
definition rrw :: "gs \<Rightarrow> u32" where "rrw g = bitfield 0 12 (trxreg g)"
definition rrh :: "gs \<Rightarrow> u32" where "rrh g = bitfield 32 12 (trxreg g)"
definition xdir :: "gs \<Rightarrow> u32" where "xdir g = bitfield 0 2 (trxdir g)"

text \<open>The storage mode with a given number (\<open>GSPsm\<close>); every other number has no mode.\<close>

definition psm_of :: "u32 \<Rightarrow> PixelStorageMode" where
  "psm_of n = (if n = 0 then C32 else if n = 1 then C24 else if n = 2 then C16 else if n = 10 then C16S
     else if n = 19 then P8 else if n = 20 then P4 else if n = 27 then P8H else if n = 36 then P4HL
     else if n = 44 then P4HH else if n = 48 then Z32 else if n = 49 then Z24 else if n = 50 then Z16
     else if n = 58 then Z16S else Max)"

text \<open>
  The accessor arrays that \<open>GS::GS()\<close> fills have \<open>0x3F\<close> entries; the index is \<open>psm & 0x3F\<close>, so
  the number \<open>0x3F\<close> is outside.
\<close>

definition ReadVram :: "bytes \<Rightarrow> u32 \<Rightarrow> u32 \<Rightarrow> u32 \<Rightarrow> u32 \<Rightarrow> u32 \<Rightarrow> u32 option" where
  "ReadVram d psm base bw x y =
     (if psm AND 0x3F < 0x3F then Some (read_pixel (psm_of (psm AND 0x3F)) d base bw x y) else None)"

definition WriteVram :: "bytes \<Rightarrow> u32 \<Rightarrow> u32 \<Rightarrow> u32 \<Rightarrow> u32 \<Rightarrow> u32 \<Rightarrow> u32 \<Rightarrow> bytes option" where
  "WriteVram d psm base bw x y v =
     (if psm AND 0x3F < 0x3F then Some (write_pixel (psm_of (psm AND 0x3F)) d base bw x y v) else None)"

definition EndTransfer :: "gs \<Rightarrow> gs" where
  "EndTransfer g = g\<lparr>trxdir := trxdir g OR 3,
     m_transferState := \<lparr>ts_x = 0, ts_y = 0, total_pixels = 0, copied_pixels = 0\<rparr>\<rparr>"

section \<open>Host to local memory\<close>

text \<open>
  What one round of the loop of a format takes from the packet: the pixels it writes, or \<open>None\<close>
  when \<open>memcpy\<close> would read past the packet, and the bytes it advances. The 24-bit formats copy
  four bytes and advance by three.
\<close>

definition image_load :: "nat \<Rightarrow> u8 list \<Rightarrow> nat \<Rightarrow> u32 option" where
  "image_load n data off =
     (if off + n \<le> length data then Some (word_of_bytes (take n (drop off data))) else None)"

fun image_pixels :: "PixelStorageMode \<Rightarrow> u8 list \<Rightarrow> nat \<Rightarrow> u32 list option" where
  "image_pixels psm data off =
     (if psm \<in> {C32, Z32, C24, Z24} then map_option (\<lambda>c. [c]) (image_load 4 data off)
      else if psm \<in> {C16, Z16, C16S, Z16S} then map_option (\<lambda>c. [c]) (image_load 2 data off)
      else if psm \<in> {P8, P8H} then map_option (\<lambda>c. [c]) (image_load 1 data off)
      else map_option (\<lambda>c. [c AND 0xF, drop_bit 4 c AND 0xF]) (image_load 1 data off))"

fun image_stride :: "PixelStorageMode \<Rightarrow> nat" where
  "image_stride psm =
     (if psm \<in> {C32, Z32} then 4 else if psm \<in> {C24, Z24} then 3
      else if psm \<in> {C16, Z16, C16S, Z16S} then 2 else 1)"

text \<open>One round: the pixels go to \<open>x\<close>, \<open>x + 1\<close>, the counters advance, and a full row wraps.\<close>

definition image_step ::
  "PixelStorageMode \<Rightarrow> u32 \<Rightarrow> u32 \<Rightarrow> u32 \<Rightarrow> u32 \<Rightarrow> u32 list \<Rightarrow> bytes \<times> transfer_state \<Rightarrow> bytes \<times> transfer_state" where
  "image_step psm bp bw w ax vs = (\<lambda>(d, st).
     let x = ts_x st; y = ts_y st;
         d' = (case vs of [c] \<Rightarrow> write_pixel psm d bp bw x y c
               | [c0, c1] \<Rightarrow> write_pixel psm (write_pixel psm d bp bw x y c0) bp bw (x + 1) y c1
               | _ \<Rightarrow> d);
         n = of_nat (length vs);
         st' = st\<lparr>ts_x := x + n, copied_pixels := copied_pixels st + n\<rparr>
     in (d', if copied_pixels st' mod w = 0 then st'\<lparr>ts_x := ax, ts_y := y + 1\<rparr> else st'))"

lemma image_stride_pos: "0 < image_stride psm"
  by simp

function image_loop ::
  "PixelStorageMode \<Rightarrow> u32 \<Rightarrow> u32 \<Rightarrow> u32 \<Rightarrow> u32 \<Rightarrow> u8 list \<Rightarrow> nat \<Rightarrow> bytes \<times> transfer_state
    \<Rightarrow> (bool \<times> bytes \<times> transfer_state) option" where
  "image_loop psm bp bw w ax data off s =
     (if off < length data then
        (case image_pixels psm data off of None \<Rightarrow> None
         | Some vs \<Rightarrow>
             let s' = image_step psm bp bw w ax vs s
             in if copied_pixels (snd s') \<ge> total_pixels (snd s') then Some (True, s')
                else image_loop psm bp bw w ax data (off + image_stride psm) s')
      else Some (False, s))"
  by pat_completeness auto
termination
  by (relation "measure (\<lambda>(psm, bp, bw, w, ax, data, off, s). length data - off)")
    (use image_stride_pos in \<open>auto simp del: image_stride.simps intro: diff_less_mono2\<close>)

declare image_loop.simps [simp del] image_stride.simps [simp del] image_pixels.simps [simp del]

definition processImageData :: "u8 list \<Rightarrow> gs \<Rightarrow> gs option" where
  "processImageData data g =
     (case m_vram g of None \<Rightarrow> Some g
      | Some d \<Rightarrow>
          if xdir g \<noteq> 0 \<or> rrw g = 0 \<or> rrh g = 0 \<or> psm_of (dpsm g) = Max then Some g
          else (case image_loop (psm_of (dpsm g)) (dbp g) (max (dbw g) 1) (rrw g) (dsax g) data 0
                       (d, m_transferState g) of
                  None \<Rightarrow> None
                | Some (done, d', st') \<Rightarrow>
                    let g' = g\<lparr>m_vram := Some d', m_transferState := st'\<rparr>
                    in Some (if done then EndTransfer g' else g')))"

section \<open>Inside local memory, and back to the host\<close>

text \<open>The pixel visited at round \<open>n\<close> of a copy, in one of the four directions.\<close>

definition copy_pos :: "u32 \<Rightarrow> u32 \<Rightarrow> u32 \<Rightarrow> nat \<Rightarrow> u32 \<times> u32" where
  "copy_pos dir w h n =
     (let i = of_nat n; x = i mod w; y = i div w
      in if dir = 0 then (x, y) else if dir = 1 then (x, h - y - 1)
         else if dir = 2 then (w - x - 1, y) else (w - x - 1, h - y - 1))"

definition copy_pixel :: "gs \<Rightarrow> nat \<Rightarrow> bytes \<Rightarrow> bytes option" where
  "copy_pixel g n d =
     (let (x, y) = copy_pos (xfer_dir g) (rrw g) (rrh g) n
      in case ReadVram d (spsm g) (sbp g) (sbw g) (x + ssax g) (y + ssay g) of None \<Rightarrow> None
         | Some v \<Rightarrow> WriteVram d (dpsm g) (dbp g) (dbw g) (x + dsax g) (y + dsay g) v)"

fun copy_loop :: "gs \<Rightarrow> nat \<Rightarrow> bytes \<Rightarrow> bytes option" where
  "copy_loop g 0 d = Some d"
| "copy_loop g (Suc n) d = (case copy_loop g n d of None \<Rightarrow> None | Some d' \<Rightarrow> copy_pixel g n d')"

definition performLocalToLocalTransfer :: "gs \<Rightarrow> gs option" where
  "performLocalToLocalTransfer g =
     (case m_vram g of None \<Rightarrow> Some g
      | Some d \<Rightarrow>
          let total = rrw g * rrh g
          in if total = 0 then Some (EndTransfer g)
             else (case copy_loop g (unat total) d of None \<Rightarrow> None
                   | Some d' \<Rightarrow> Some (EndTransfer (g\<lparr>m_vram := Some d'\<rparr>))))"

text \<open>
  The readback writes the bytes of each pixel, two 4-bit pixels to a byte; a number that is no
  mode counts as 32 bits wide.
\<close>

definition readback_bytes :: "nat \<Rightarrow> u32 \<Rightarrow> u32 \<Rightarrow> u8 list" where
  "readback_bytes bpp v v2 =
     (if bpp = 32 then bytes_of_word 4 v else if bpp = 24 then bytes_of_word 3 v
      else if bpp = 16 then bytes_of_word 2 v else if bpp = 8 then [ucast v]
      else if bpp = 4 then [ucast (v OR push_bit 4 (v2 AND 0xF))] else [])"

function readback_loop :: "gs \<Rightarrow> bytes \<Rightarrow> nat \<Rightarrow> nat \<Rightarrow> u8 list \<Rightarrow> u8 list option" where
  "readback_loop g d bpp n out =
     (if n < unat (rrw g * rrh g) then
        let x = of_nat n mod rrw g + ssax g; y = of_nat n div rrw g + ssay g;
            bw = max (sbw g) 1
        in (case ReadVram d (spsm g) (sbp g) bw x y of None \<Rightarrow> None
            | Some v \<Rightarrow>
                if bpp = 4 then
                  (case ReadVram d (spsm g) (sbp g) bw (x + 1) y of None \<Rightarrow> None
                   | Some v2 \<Rightarrow> readback_loop g d bpp (n + 2) (out @ readback_bytes bpp v v2))
                else readback_loop g d bpp (n + 1) (out @ readback_bytes bpp v 0))
      else Some out)"
  by pat_completeness auto
termination
  by (relation "measure (\<lambda>(g, d, bpp, n, out). unat (rrw g * rrh g) - n)") auto

declare readback_loop.simps [simp del]

definition performLocalToHostToBuffer :: "gs \<Rightarrow> gs option" where
  "performLocalToHostToBuffer g =
     (let g0 = g\<lparr>m_localToHostBuffer := [], m_localToHostReadPos := 0\<rparr>
      in case m_vram g of None \<Rightarrow> Some g0
         | Some d \<Rightarrow>
             map_option (\<lambda>out. g0\<lparr>m_localToHostBuffer := out\<rparr>)
               (readback_loop g d (BitsPerPixel (psm_of (spsm g))) 0 []))"

definition consumeLocalToHostBytes :: "nat \<Rightarrow> gs \<Rightarrow> u8 list \<times> gs" where
  "consumeLocalToHostBytes maxBytes g =
     (let avail = length (m_localToHostBuffer g) - m_localToHostReadPos g;
          toCopy = min avail maxBytes
      in (take toCopy (drop (m_localToHostReadPos g) (m_localToHostBuffer g)),
          g\<lparr>m_localToHostReadPos := m_localToHostReadPos g + toCopy\<rparr>))"

text \<open>The transfer registers of \<open>writeRegister\<close>; writing \<open>TRXDIR\<close> starts the transfer.\<close>

datatype xfer_reg = BITBLTBUF | TRXPOS | TRXREG | TRXDIR | HWREG

fun write_xfer :: "xfer_reg \<Rightarrow> u64 \<Rightarrow> gs \<Rightarrow> gs option" where
  "write_xfer BITBLTBUF v g = Some (g\<lparr>bitbltbuf := v\<rparr>)"
| "write_xfer TRXPOS v g = Some (g\<lparr>trxpos := v\<rparr>)"
| "write_xfer TRXREG v g = Some (g\<lparr>trxreg := v\<rparr>)"
| "write_xfer TRXDIR v g =
     (let g' = g\<lparr>trxdir := v,
            m_transferState := \<lparr>ts_x = dsax g, ts_y = dsay g, total_pixels = rrw g * rrh g, copied_pixels = 0\<rparr>,
            m_pendingImageBytes := 0\<rparr>
      in if xdir g' = 2 \<and> m_vram g' \<noteq> None then performLocalToLocalTransfer g'
         else if xdir g' = 1 \<and> m_vram g' \<noteq> None then performLocalToHostToBuffer g'
         else Some g')"
| "write_xfer HWREG v g = processImageData (bytes_of_word 8 v) g"

end
