(* ===== verification/GSTransferProps.thy ===== *)
theory GSTransferProps
  imports GSTransfer
begin

text \<open>
  What the transfers of the GS promise: an upload leaves the packed pixels of the packet at the
  rectangle it names and touches no other pixel of the buffer, however the data is cut into
  packets; a copy inside local memory moves the rectangle when its direction suits the overlap;
  and what was uploaded reads back byte for byte.
\<close>

section \<open>Packed pixels\<close>

definition packed_pixel :: "PixelStorageMode \<Rightarrow> u8 list \<Rightarrow> nat \<Rightarrow> u32" where
  "packed_pixel psm data n =
     (if BitsPerPixel psm = 4
      then ucast ((if even n then data ! (n div 2) else drop_bit 4 (data ! (n div 2))) AND 0xF)
      else word_of_bytes (take (BitsPerPixel psm div 8) (drop (n * (BitsPerPixel psm div 8)) data)))"

text \<open>The packet holds \<open>N\<close> pixels, with the byte behind the last one that a 24-bit pixel reads.\<close>

definition holds_pixels :: "PixelStorageMode \<Rightarrow> u8 list \<Rightarrow> nat \<Rightarrow> bool" where
  "holds_pixels psm data N \<longleftrightarrow>
     N * BitsPerPixel psm \<le> 8 * length data \<and> (BitsPerPixel psm = 24 \<longrightarrow> 3 * N < length data)"

definition pixels_per_step :: "PixelStorageMode \<Rightarrow> nat" where
  "pixels_per_step psm = (if BitsPerPixel psm = 4 then 2 else 1)"

lemma take_bit_word_of_bytes:
  "take_bit (8 * m) (word_of_bytes bs :: 'a::len word) = word_of_bytes (take m bs)"
  by (rule bit_word_eqI) (auto simp: bit_simps bit_word_of_bytes less_mult_imp_div_less mult.commute)

lemma image_pixels_whole:
  assumes "IsValidPsm psm" "BitsPerPixel psm \<noteq> 4" "holds_pixels psm data N" "n < N"
  shows "\<exists>c. image_pixels psm data (n * image_stride psm) = Some [c]
    \<and> take_bit (BitsPerPixel psm) c = packed_pixel psm data n"
proof -
  define m L where "m = BitsPerPixel psm div 8" and "L = packed_size psm"
  have k: "BitsPerPixel psm = 8 * m" "image_stride psm = m" "m \<le> L"
    "image_pixels psm data off = map_option (\<lambda>c. [c]) (image_load L data off)" for off
    using assms(1,2) by (cases psm; simp add: IsValidPsm_def m_def L_def image_stride.simps image_pixels.simps)+
  have "n * m + L \<le> length data"
  proof (cases "BitsPerPixel psm = 24")
    case True
    then have "m = 3" "L = 4" using assms(1) by (cases psm; simp add: IsValidPsm_def m_def L_def)+
    moreover have "3 * N < length data" using assms(3) True by (simp add: holds_pixels_def)
    ultimately show ?thesis using assms(4) by simp
  next
    case False
    then have "L = m" using assms(1,2) by (cases psm; simp add: IsValidPsm_def m_def L_def)
    moreover have "N * m \<le> length data" using assms(3) by (simp add: holds_pixels_def k(1))
    moreover have "Suc n * m \<le> N * m" using assms(4) by (intro mult_right_mono) simp_all
    ultimately show ?thesis by simp
  qed
  then have "image_pixels psm data (n * m) = Some [word_of_bytes (take L (drop (n * m) data))]"
    by (simp add: k(4) image_load_def)
  moreover have "take_bit (8 * m) (word_of_bytes (take L (drop (n * m) data)) :: u32) = packed_pixel psm data n"
    using assms(2) k(1,3) unfolding take_bit_word_of_bytes packed_pixel_def by (simp add: min_absorb2)
  ultimately show ?thesis unfolding k(1,2) by blast
qed

lemma image_pixels_nibbles:
  assumes "BitsPerPixel psm = 4" "holds_pixels psm data N" "n < N" "even n" "even N"
  shows "\<exists>c0 c1. image_pixels psm data (n div 2 * image_stride psm) = Some [c0, c1]
    \<and> take_bit 4 c0 = packed_pixel psm data n \<and> take_bit 4 c1 = packed_pixel psm data (n + 1)"
proof -
  have psm: "psm \<in> {P4, P4HL, P4HH}" using assms(1) by (cases psm) simp_all
  have "n + 1 < N" using assms(3-5) by presburger
  then have lt: "n div 2 < length data" using assms(1,2) by (auto simp: holds_pixels_def)
  define b :: u8 where "b = data ! (n div 2)"
  have m8: "(0xF :: u8) = mask 4" by (simp add: mask_eq_exp_minus_1)
  have "image_load 1 data (n div 2) = Some (ucast b)"
    using lt by (simp add: image_load_def b_def hd_drop_conv_nth take_Suc)
  then have "image_pixels psm data (n div 2 * image_stride psm)
      = Some [ucast b AND 0xF, drop_bit 4 (ucast b) AND 0xF]"
    using psm by (auto simp: image_pixels.simps image_stride.simps)
  moreover have "take_bit 4 (ucast b AND 0xF :: u32) = packed_pixel psm data n"
    "take_bit 4 (drop_bit 4 (ucast b) AND 0xF :: u32) = packed_pixel psm data (n + 1)"
    using assms(1,4) unfolding packed_pixel_def pixel_masks m8
    by (auto intro!: bit_word_eqI simp: bit_simps b_def [symmetric])
  ultimately show ?thesis by blast
qed

section \<open>Uploads\<close>

text \<open>The rectangle after the first \<open>n\<close> pixels of an upload, and the position that goes with it.\<close>

definition upload_pixels ::
  "PixelStorageMode \<Rightarrow> u32 \<Rightarrow> u32 \<Rightarrow> nat \<Rightarrow> u32 \<Rightarrow> u32 \<Rightarrow> u8 list \<Rightarrow> nat \<Rightarrow> bytes \<Rightarrow> bytes" where
  "upload_pixels psm bp bw W ax ay data n d =
     fold (\<lambda>m d. write_pixel psm d bp bw (ax + of_nat (m mod W)) (ay + of_nat (m div W)) (packed_pixel psm data m))
       [0..<n] d"

definition upload_state :: "nat \<Rightarrow> u32 \<Rightarrow> u32 \<Rightarrow> nat \<Rightarrow> nat \<Rightarrow> transfer_state" where
  "upload_state W ax ay N n =
     \<lparr>ts_x = ax + of_nat (n mod W), ts_y = ay + of_nat (n div W), total_pixels = of_nat N, copied_pixels = of_nat n\<rparr>"

lemma upload_pixels_Suc:
  "upload_pixels psm bp bw W ax ay data (Suc n) d =
     write_pixel psm (upload_pixels psm bp bw W ax ay data n d) bp bw
       (ax + of_nat (n mod W)) (ay + of_nat (n div W)) (packed_pixel psm data n)"
  by (simp add: upload_pixels_def)

lemma of_nat_word_div:
  fixes w :: u32
  assumes "m < 2 ^ 32"
  shows "of_nat m mod w = of_nat (m mod unat w)" "of_nat m div w = of_nat (m div unat w)"
proof -
  have "m mod unat w < 2 ^ 32" "m div unat w < 2 ^ 32"
    using assms by (meson order_le_less_trans mod_less_eq_dividend div_le_dividend)+
  then show "of_nat m mod w = of_nat (m mod unat w)" "of_nat m div w = of_nat (m div unat w)"
    using assms by (simp_all add: word_unat_eq_iff unat_mod_distrib unat_div_distrib unat_of_nat)
qed

lemma row_full:
  fixes w :: u32
  assumes "m < 2 ^ 32"
  shows "of_nat m mod w = 0 \<longleftrightarrow> m mod unat w = 0"
  using assms by (simp add: word_unat_eq_iff unat_mod_distrib unat_of_nat)

lemma row_advance:
  assumes "0 < W"
  shows "Suc n mod W = 0 \<Longrightarrow> Suc n div W = Suc (n div W)"
    "Suc n mod W \<noteq> 0 \<Longrightarrow> Suc n mod W = Suc (n mod W) \<and> Suc n div W = n div W"
  using assms by (simp_all add: mod_Suc div_Suc split: if_splits)

text \<open>The position after one more pixel.\<close>

definition next_state :: "u32 \<Rightarrow> u32 \<Rightarrow> u32 \<Rightarrow> transfer_state \<Rightarrow> transfer_state" where
  "next_state w ax n st =
     (let st' = st\<lparr>ts_x := ts_x st + n, copied_pixels := copied_pixels st + n\<rparr>
      in if copied_pixels st' mod w = 0 then st'\<lparr>ts_x := ax, ts_y := ts_y st + 1\<rparr> else st')"

lemma next_state_one:
  assumes "Suc n < 2 ^ 32" "0 < unat w"
  shows "next_state w ax 1 (upload_state (unat w) ax ay N n) = upload_state (unat w) ax ay N (Suc n)"
proof -
  have c: "of_nat n + 1 = (of_nat (Suc n) :: u32)" by simp
  show ?thesis
  proof (cases "Suc n mod unat w = 0")
    case True
    then show ?thesis
      using row_advance(1) [OF assms(2) True] row_full [OF assms(1), of w]
      unfolding next_state_def upload_state_def Let_def by (simp add: c del: of_nat_Suc) (simp add: ac_simps)
  next
    case False
    then show ?thesis
      using row_advance(2) [OF assms(2) False] row_full [OF assms(1), of w]
      unfolding next_state_def upload_state_def Let_def by (simp add: c del: of_nat_Suc) (simp add: ac_simps)
  qed
qed

lemma next_state_two:
  assumes "n + 2 < 2 ^ 32" "0 < unat w" "even n" "even (unat w)"
  shows "Suc n mod unat w = Suc (n mod unat w)" "Suc n div unat w = n div unat w"
    "next_state w ax 2 (upload_state (unat w) ax ay N n) = upload_state (unat w) ax ay N (n + 2)"
proof -
  have "even (n mod unat w)" using assms(3,4) by (simp add: dvd_mod_iff)
  then have ne: "Suc n mod unat w \<noteq> 0" using assms(4)
    by (metis even_Suc mod_Suc dvd_0_right nat.simps(3))
  show one: "Suc n mod unat w = Suc (n mod unat w)" "Suc n div unat w = n div unat w"
    using row_advance(2) [OF assms(2) ne] by simp_all
  have "next_state w ax 2 (upload_state (unat w) ax ay N n)
      = next_state w ax 1 (upload_state (unat w) ax ay N (Suc n))"
    using one unfolding next_state_def upload_state_def Let_def by (simp add: ac_simps)
  then show "next_state w ax 2 (upload_state (unat w) ax ay N n) = upload_state (unat w) ax ay N (n + 2)"
    using next_state_one [of "Suc n" w ax ay N] assms(1,2) by simp
qed

lemma image_step_one:
  assumes "IsValidPsm psm" "take_bit (BitsPerPixel psm) c = packed_pixel psm data n" "Suc n < 2 ^ 32" "0 < unat w"
  shows "image_step psm bp bw w ax [c]
      (upload_pixels psm bp bw (unat w) ax ay data n d, upload_state (unat w) ax ay N n)
    = (upload_pixels psm bp bw (unat w) ax ay data (Suc n) d, upload_state (unat w) ax ay N (Suc n))"
proof -
  have "write_pixel psm d' bp bw x y c = write_pixel psm d' bp bw x y (packed_pixel psm data n)" for d' x y
    using write_pixel_trunc [OF assms(1), of d' bp bw x y c] by (simp add: assms(2))
  then show ?thesis
    using next_state_one [OF assms(3,4), of ax ay N]
    by (simp add: image_step_def next_state_def Let_def upload_pixels_Suc) (simp add: upload_state_def)
qed

lemma image_step_two:
  assumes "IsValidPsm psm" "n + 2 < 2 ^ 32" "0 < unat w" "even n" "even (unat w)"
    and "take_bit (BitsPerPixel psm) c0 = packed_pixel psm data n"
    and "take_bit (BitsPerPixel psm) c1 = packed_pixel psm data (n + 1)"
  shows "image_step psm bp bw w ax [c0, c1]
      (upload_pixels psm bp bw (unat w) ax ay data n d, upload_state (unat w) ax ay N n)
    = (upload_pixels psm bp bw (unat w) ax ay data (n + 2) d, upload_state (unat w) ax ay N (n + 2))"
proof -
  have c: "write_pixel psm d' bp bw x y c0 = write_pixel psm d' bp bw x y (packed_pixel psm data n)"
    "write_pixel psm d' bp bw x y c1 = write_pixel psm d' bp bw x y (packed_pixel psm data (Suc n))" for d' x y
    using write_pixel_trunc [OF assms(1), of d' bp bw x y c0] write_pixel_trunc [OF assms(1), of d' bp bw x y c1]
    by (simp_all add: assms(6,7))
  have x: "ax + of_nat (n mod unat w) + 1 = (ax + of_nat (Suc n mod unat w) :: u32)"
    using next_state_two(1) [OF assms(2-5)] by (simp add: add.assoc)
  show ?thesis
    using next_state_two(3) [OF assms(2-5), of ax ay N] next_state_two(2) [OF assms(2-5)] x
    by (simp add: image_step_def next_state_def Let_def upload_pixels_Suc c numeral_2_eq_2)
      (simp add: upload_state_def add.assoc)
qed

text \<open>The loop, from any whole number of rounds on.\<close>

lemma image_round:
  assumes psm: "IsValidPsm psm" and data: "holds_pixels psm data N" and n: "n < N" "N < 2 ^ 32" "0 < unat w"
    and even: "BitsPerPixel psm = 4 \<Longrightarrow> even n \<and> even N \<and> even (unat w)"
  shows "\<exists>vs. image_pixels psm data (n div pixels_per_step psm * image_stride psm) = Some vs
    \<and> image_step psm bp bw w ax vs
        (upload_pixels psm bp bw (unat w) ax ay data n d, upload_state (unat w) ax ay N n)
      = (upload_pixels psm bp bw (unat w) ax ay data (n + pixels_per_step psm) d,
         upload_state (unat w) ax ay N (n + pixels_per_step psm))"
proof (cases "BitsPerPixel psm = 4")
  case True
  note ev = even [OF True]
  have lt: "n + 2 < 2 ^ 32" using n(1,2) ev by presburger
  obtain c0 c1 where c: "image_pixels psm data (n div 2 * image_stride psm) = Some [c0, c1]"
    "take_bit (BitsPerPixel psm) c0 = packed_pixel psm data n"
    "take_bit (BitsPerPixel psm) c1 = packed_pixel psm data (n + 1)"
    using image_pixels_nibbles [OF True data n(1)] ev unfolding True by blast
  show ?thesis
    using c(1) image_step_two [OF psm lt n(3) _ _ c(2,3)] ev True by (simp add: pixels_per_step_def)
next
  case False
  have "Suc n < 2 ^ 32" using n(1,2) by simp
  with image_pixels_whole [OF psm False data n(1)] image_step_one [OF psm _ _ n(3)] False show ?thesis
    by (simp add: pixels_per_step_def) blast
qed

lemma image_load_less: "image_pixels psm data off = Some vs \<Longrightarrow> off < length data"
  by (auto simp: image_pixels.simps image_load_def split: if_splits)

lemma image_loop_upload:
  assumes psm: "IsValidPsm psm" and data: "holds_pixels psm data N" and N: "N < 2 ^ 32" "0 < unat w"
    and even: "BitsPerPixel psm = 4 \<Longrightarrow> even N \<and> even (unat w)"
    and n: "n < N" "pixels_per_step psm dvd n"
  shows "image_loop psm bp bw w ax data (n div pixels_per_step psm * image_stride psm)
      (upload_pixels psm bp bw (unat w) ax ay data n d, upload_state (unat w) ax ay N n)
    = Some (True, upload_pixels psm bp bw (unat w) ax ay data N d, upload_state (unat w) ax ay N N)"
  using n
proof (induction "N - n" arbitrary: n rule: less_induct)
  case less
  let ?k = "pixels_per_step psm"
  have k: "0 < ?k" "?k \<le> 2" by (simp_all add: pixels_per_step_def)
  have ev: "BitsPerPixel psm = 4 \<Longrightarrow> even n \<and> even N \<and> even (unat w)"
    using even less.prems(2) by (simp add: pixels_per_step_def)
  obtain vs where vs: "image_pixels psm data (n div ?k * image_stride psm) = Some vs"
    "image_step psm bp bw w ax vs (upload_pixels psm bp bw (unat w) ax ay data n d, upload_state (unat w) ax ay N n)
      = (upload_pixels psm bp bw (unat w) ax ay data (n + ?k) d, upload_state (unat w) ax ay N (n + ?k))"
    using image_round [OF psm data less.prems(1) N ev] by blast
  have le: "n + ?k \<le> N"
    using less.prems ev by (auto simp: pixels_per_step_def elim!: evenE)
  have cmp: "(of_nat N :: u32) \<le> of_nat (n + ?k) \<longleftrightarrow> N \<le> n + ?k"
    using N(1) le by (simp add: word_le_nat_alt unat_of_nat del: of_nat_add)
  have off: "n div ?k * image_stride psm + image_stride psm = (n + ?k) div ?k * image_stride psm"
    using div_add_self2 [of ?k n] k(1) by simp
  show ?case
  proof (cases "n + ?k = N")
    case True
    then show ?thesis
      using vs image_load_less [OF vs(1)] cmp by (subst image_loop.simps) (simp add: upload_state_def)
  next
    case False
    then have "image_loop psm bp bw w ax data ((n + ?k) div ?k * image_stride psm)
        (upload_pixels psm bp bw (unat w) ax ay data (n + ?k) d, upload_state (unat w) ax ay N (n + ?k))
      = Some (True, upload_pixels psm bp bw (unat w) ax ay data N d, upload_state (unat w) ax ay N N)"
      using le k(1) less.prems by (intro less.hyps) auto
    then show ?thesis
      using vs image_load_less [OF vs(1)] cmp False le off
      by (subst image_loop.simps) (simp add: upload_state_def)
  qed
qed

section \<open>The pixels of a rectangle\<close>

definition rect_fits :: "PixelStorageMode \<Rightarrow> u32 \<Rightarrow> u32 \<Rightarrow> u32 \<Rightarrow> nat \<Rightarrow> nat \<Rightarrow> bool" where
  "rect_fits psm bw ax ay W H \<longleftrightarrow>
     unat ax + W \<le> page_cols (layout psm) (unat bw) * fst (PageExtent (layout psm))
     \<and> buffer_pages (layout psm) (unat bw) (unat ay + H) \<le> 512
     \<and> unat ax + W \<le> 2 ^ 32 \<and> unat ay + H \<le> 2 ^ 32"

definition rect_x :: "u32 \<Rightarrow> nat \<Rightarrow> nat \<Rightarrow> u32" where "rect_x ax W m = ax + of_nat (m mod W)"
definition rect_y :: "u32 \<Rightarrow> nat \<Rightarrow> nat \<Rightarrow> u32" where "rect_y ay W m = ay + of_nat (m div W)"

lemma unat_add_of_nat:
  assumes "unat a + k < 2 ^ 32"
  shows "unat (a + of_nat k :: u32) = unat a + k"
proof -
  have "unat (a + of_nat k) = unat (of_nat (unat a + k) :: u32)" by simp
  also have "\<dots> = unat a + k" using assms by (simp only: unat_of_nat) simp
  finally show ?thesis .
qed

lemma rect_coords:
  assumes "rect_fits psm bw ax ay W H" "m < W * H"
  shows "unat (rect_x ax W m) = unat ax + m mod W" "unat (rect_y ay W m) = unat ay + m div W"
    "in_buffer (layout psm) (unat bw) (unat ay + H) (unat (rect_x ax W m)) (unat (rect_y ay W m))"
proof -
  have W: "0 < W" using assms(2) by (metis gr0I less_zeroE mult_0)
  have m: "m mod W < W" "m div W < H"
    using assms(2) W by (simp_all add: less_mult_imp_div_less mult.commute)
  show x: "unat (rect_x ax W m) = unat ax + m mod W"
    unfolding rect_x_def using assms(1) m(1) by (intro unat_add_of_nat) (simp add: rect_fits_def)
  show y: "unat (rect_y ay W m) = unat ay + m div W"
    unfolding rect_y_def using assms(1) m(2) by (intro unat_add_of_nat) (simp add: rect_fits_def)
  show "in_buffer (layout psm) (unat bw) (unat ay + H) (unat (rect_x ax W m)) (unat (rect_y ay W m))"
    using assms(1) m unfolding x y by (simp add: in_buffer_def rect_fits_def)
qed

lemma rect_inj:
  assumes "rect_fits psm bw ax ay W H" "m < W * H" "m' < W * H"
    "rect_x ax W m = rect_x ax W m'" "rect_y ay W m = rect_y ay W m'"
  shows "m = m'"
proof -
  have "m mod W = m' mod W" "m div W = m' div W"
    using rect_coords(1,2) [OF assms(1,2)] rect_coords(1,2) [OF assms(1,3)] assms(4,5) by simp_all
  then show ?thesis by (metis div_mult_mod_eq)
qed

lemma packed_width:
  assumes "IsValidPsm psm"
  shows "take_bit (BitsPerPixel psm) (packed_pixel psm data n) = packed_pixel psm data n"
proof (cases "BitsPerPixel psm = 4")
  case True
  have m8: "(0xF :: u8) = mask 4" by (simp add: mask_eq_exp_minus_1)
  show ?thesis unfolding packed_pixel_def True m8 by (rule bit_word_eqI) (auto simp: bit_simps)
next
  case False
  have "BitsPerPixel psm = 8 * (BitsPerPixel psm div 8)"
    using assms False by (cases psm) (simp_all add: IsValidPsm_def)
  then show ?thesis using False unfolding packed_pixel_def
    by (simp) (metis take_bit_word_of_bytes take_take min.idem)
qed

lemma upload_pixels_read:
  assumes psm: "IsValidPsm psm" and fits: "rect_fits psm bw ax ay W H" and n: "n \<le> W * H"
    and xy: "in_buffer (layout psm) (unat bw) (unat ay + H) (unat x) (unat y)"
  shows "(\<forall>m < n. (x, y) = (rect_x ax W m, rect_y ay W m) \<longrightarrow>
       read_pixel psm (upload_pixels psm bp bw W ax ay data n d) bp bw x y = packed_pixel psm data m)
    \<and> ((\<forall>m < n. (x, y) \<noteq> (rect_x ax W m, rect_y ay W m)) \<longrightarrow>
       read_pixel psm (upload_pixels psm bp bw W ax ay data n d) bp bw x y = read_pixel psm d bp bw x y)"
  using n
proof (induction n)
  case 0
  then show ?case by (simp add: upload_pixels_def)
next
  case (Suc n)
  let ?d = "upload_pixels psm bp bw W ax ay data n d"
  have fit: "buffer_pages (layout psm) (unat bw) (unat ay + H) \<le> 512" using fits by (simp add: rect_fits_def)
  have lt: "n < W * H" using Suc.prems by simp
  have up: "upload_pixels psm bp bw W ax ay data (Suc n) d
      = write_pixel psm ?d bp bw (rect_x ax W n) (rect_y ay W n) (packed_pixel psm data n)"
    by (simp add: upload_pixels_Suc rect_x_def rect_y_def)
  note wr = pixel_write_read [OF psm fit rect_coords(3) [OF fits lt]]
  show ?case
  proof (cases "(x, y) = (rect_x ax W n, rect_y ay W n)")
    case True
    have "m = n" if "m < Suc n" "rect_x ax W n = rect_x ax W m" "rect_y ay W n = rect_y ay W m" for m
      using rect_inj [OF fits lt, of m] that Suc.prems by simp
    then show ?thesis using True wr(1) packed_width [OF psm] unfolding up by (auto simp: less_Suc_eq)
  next
    case False
    have "read_pixel psm (upload_pixels psm bp bw W ax ay data (Suc n) d) bp bw x y = read_pixel psm ?d bp bw x y"
      unfolding up using False by (intro wr(2) xy) simp
    then show ?thesis using Suc.IH Suc.prems False by (auto simp: less_Suc_eq)
  qed
qed

section \<open>Fields and packets\<close>

lemma unat_bitfield: "n \<le> 32 \<Longrightarrow> unat (bitfield off n v) < 2 ^ n"
proof -
  assume n: "n \<le> 32"
  have "take_bit n (bitfield off n v) = bitfield off n v"
    using n by (intro bit_word_eqI) (auto simp: bitfield_def bit_simps)
  then have "unat (bitfield off n v) = unat (bitfield off n v) mod 2 ^ n"
    by (metis take_bit_eq_mod unsigned_take_bit_eq)
  then show ?thesis by (metis mod_less_divisor zero_less_numeral zero_less_power)
qed

lemma rect_size: "unat (rrw g) * unat (rrh g) < 2 ^ 24"
proof -
  have "unat (rrw g) * unat (rrh g) \<le> 4095 * 4095"
    using unat_bitfield [of 12 0 "trxreg g"] unat_bitfield [of 12 32 "trxreg g"]
    by (intro mult_le_mono) (simp_all add: rrw_def rrh_def)
  then show ?thesis by simp
qed

lemma EndTransfer_fields [simp]:
  "m_vram (EndTransfer g) = m_vram g" "xdir (EndTransfer g) = 3"
  "m_localToHostBuffer (EndTransfer g) = m_localToHostBuffer g"
proof -
  have m: "(3 :: u64) = mask 2" by (simp add: mask_eq_exp_minus_1)
  have "take_bit 2 (trxdir g OR 3) = (3 :: u64)"
    unfolding m by (rule bit_word_eqI) (auto simp: bit_simps)
  then show "xdir (EndTransfer g) = 3" by (simp add: EndTransfer_def xdir_def bitfield_def)
qed (simp_all add: EndTransfer_def)

lemma psm_of_valid: "psm_of n \<noteq> Max \<longleftrightarrow> IsValidPsm (psm_of n)"
  by (simp add: IsValidPsm_def)

lemma process_upload:
  assumes "m_vram g = Some d" "xdir g = 0" "psm_of (dpsm g) = psm" "IsValidPsm psm"
    and "0 < unat (rrw g)" "0 < unat (rrh g)"
    and "m_transferState g = \<lparr>ts_x = dsax g, ts_y = dsay g, total_pixels = rrw g * rrh g, copied_pixels = 0\<rparr>"
    and "holds_pixels psm data (unat (rrw g) * unat (rrh g))"
    and "BitsPerPixel psm = 4 \<Longrightarrow> even (unat (rrw g))"
  shows "processImageData data g
    = Some (EndTransfer (g\<lparr>m_vram := Some (upload_pixels psm (dbp g) (max (dbw g) 1) (unat (rrw g))
          (dsax g) (dsay g) data (unat (rrw g) * unat (rrh g)) d)\<rparr>))"
proof -
  let ?W = "unat (rrw g)" and ?N = "unat (rrw g) * unat (rrh g)"
  have st: "m_transferState g = upload_state ?W (dsax g) (dsay g) ?N 0"
    by (simp add: assms(7) upload_state_def)
  have "image_loop psm (dbp g) (max (dbw g) 1) (rrw g) (dsax g) data (0 div pixels_per_step psm * image_stride psm)
      (upload_pixels psm (dbp g) (max (dbw g) 1) ?W (dsax g) (dsay g) data 0 d, upload_state ?W (dsax g) (dsay g) ?N 0)
    = Some (True, upload_pixels psm (dbp g) (max (dbw g) 1) ?W (dsax g) (dsay g) data ?N d,
            upload_state ?W (dsax g) (dsay g) ?N ?N)"
    using rect_size [of g] assms(5,6,9) by (intro image_loop_upload assms(4,8)) auto
  moreover have "rrw g \<noteq> 0" "rrh g \<noteq> 0" "psm \<noteq> Max" using assms(4,5,6) by (auto simp: IsValidPsm_def)
  ultimately show ?thesis
    using assms(1-3) by (simp add: processImageData_def st upload_pixels_def EndTransfer_def)
qed

text \<open>The two commands of an upload: \<open>TRXDIR\<close>, then the packet.\<close>

lemma upload_run:
  assumes "m_vram g = Some d" "psm_of (dpsm g) = psm" "IsValidPsm psm" "bitfield 0 2 v = 0"
    and "0 < unat (rrw g)" "0 < unat (rrh g)" "BitsPerPixel psm = 4 \<Longrightarrow> even (unat (rrw g))"
    and "holds_pixels psm data (unat (rrw g) * unat (rrh g))"
  shows "\<exists>g'. Option.bind (write_xfer TRXDIR v g) (processImageData data) = Some g' \<and> xdir g' = 3
    \<and> m_vram g' = Some (upload_pixels psm (dbp g) (max (dbw g) 1) (unat (rrw g)) (dsax g) (dsay g) data
        (unat (rrw g) * unat (rrh g)) d)
    \<and> bitbltbuf g' = bitbltbuf g \<and> trxpos g' = trxpos g \<and> trxreg g' = trxreg g"
proof -
  define g1 where "g1 = g\<lparr>trxdir := v, m_transferState := \<lparr>ts_x = dsax g, ts_y = dsay g,
    total_pixels = rrw g * rrh g, copied_pixels = 0\<rparr>, m_pendingImageBytes := 0\<rparr>"
  have f: "dpsm g1 = dpsm g" "dbp g1 = dbp g" "dbw g1 = dbw g" "rrw g1 = rrw g" "rrh g1 = rrh g"
    "dsax g1 = dsax g" "dsay g1 = dsay g" "xdir g1 = 0" "m_vram g1 = m_vram g"
    using assms(4)
    by (simp_all add: g1_def dpsm_def dbp_def dbw_def rrw_def rrh_def dsax_def dsay_def xdir_def)
  have "write_xfer TRXDIR v g = Some g1"
    using f(8) by (simp add: Let_def flip: g1_def)
  moreover have st: "m_transferState g1 = \<lparr>ts_x = dsax g1, ts_y = dsay g1, total_pixels = rrw g1 * rrh g1, copied_pixels = 0\<rparr>"
    unfolding f by (simp add: g1_def)
  ultimately show ?thesis
    using process_upload [of g1 d psm data] assms unfolding f
    by (simp add: st [unfolded f]) (simp add: EndTransfer_def g1_def)
qed

section \<open>Packets in pieces\<close>

lemma next_multiple: "k dvd n \<Longrightarrow> k dvd m \<Longrightarrow> m < n \<Longrightarrow> m + k \<le> n" for k m n :: nat
proof -
  assume d: "k dvd n" "k dvd m" and lt: "m < n"
  obtain a b where ab: "n = k * a" "m = k * b" using d by (elim dvdE) blast
  then have "Suc b \<le> a" using lt by simp
  then show "m + k \<le> n" using mult_le_mono2 [of "Suc b" a k] by (simp add: ab)
qed

lemma image_pixels_append:
  assumes "BitsPerPixel psm \<noteq> 24" "IsValidPsm psm"
  shows "image_stride psm dvd length d1 \<Longrightarrow> image_stride psm dvd off \<Longrightarrow> off < length d1 \<Longrightarrow>
      image_pixels psm (d1 @ d2) off = image_pixels psm d1 off"
    and "image_pixels psm (d1 @ d2) (length d1 + off) = image_pixels psm d2 off"
proof -
  have L: "\<exists>L \<ge> 1. image_stride psm = L \<and> (\<exists>f. \<forall>data off. image_pixels psm data off = map_option f (image_load L data off))"
    using assms by (cases psm) (auto simp: IsValidPsm_def image_stride.simps image_pixels.simps)
  then obtain L f where Lf: "image_stride psm = L" "1 \<le> L"
    "\<And>data off. image_pixels psm data off = map_option f (image_load L data off)" by blast
  show "image_pixels psm (d1 @ d2) off = image_pixels psm d1 off"
    if *: "image_stride psm dvd length d1" "image_stride psm dvd off" "off < length d1"
  proof -
    have "off + L \<le> length d1" using * unfolding Lf(1) by (rule next_multiple)
    then show ?thesis by (simp add: Lf(3) image_load_def)
  qed
  show "image_pixels psm (d1 @ d2) (length d1 + off) = image_pixels psm d2 off"
    by (simp add: Lf(3) image_load_def)
qed

text \<open>
  The 24-bit formats are not covered: their loads are four bytes wide, so the last pixel of a packet
  of whole pixels already reads behind the packet.
\<close>

lemma last_24_bit_pixel:
  assumes "BitsPerPixel psm = 24" "length data = 3 * N" "0 < N"
  shows "image_pixels psm data (3 * (N - 1)) = None"
  using assms by (cases psm) (auto simp: image_pixels.simps image_load_def)

lemma image_loop_suffix:
  assumes "BitsPerPixel psm \<noteq> 24" "IsValidPsm psm"
  shows "image_loop psm bp bw w ax (d1 @ d2) (length d1 + off) s = image_loop psm bp bw w ax d2 off s"
proof (induction "length d2 - off" arbitrary: off s rule: less_induct)
  case less
  have "image_loop psm bp bw w ax (d1 @ d2) (length d1 + off + image_stride psm) s'
      = image_loop psm bp bw w ax d2 (off + image_stride psm) s'" if "off < length d2" for s'
    using less [of "off + image_stride psm" s'] that image_stride_pos [of psm] by (simp add: add.assoc)
  then show ?case
    by (subst (1 2) image_loop.simps) (auto simp: image_pixels_append(2) [OF assms] Let_def split: option.split)
qed

lemma image_loop_append:
  assumes "BitsPerPixel psm \<noteq> 24" "IsValidPsm psm" "image_stride psm dvd length d1" "image_stride psm dvd off"
    "off \<le> length d1"
  shows "image_loop psm bp bw w ax (d1 @ d2) off s =
    (case image_loop psm bp bw w ax d1 off s of None \<Rightarrow> None
     | Some (True, s') \<Rightarrow> Some (True, s')
     | Some (False, s') \<Rightarrow> image_loop psm bp bw w ax d2 0 s')"
  using assms(4,5)
proof (induction "length d1 - off" arbitrary: off s rule: less_induct)
  case less
  show ?case
  proof (cases "off < length d1")
    case False
    then have "off = length d1" using less.prems by simp
    then show ?thesis using image_loop_suffix [OF assms(1,2), of bp bw w ax d1 d2 0 s]
      by (simp add: image_loop.simps [of psm bp bw w ax d1])
  next
    case True
    have "off + image_stride psm \<le> length d1"
      using assms(3) less.prems(1) True by (rule next_multiple)
    then have "image_loop psm bp bw w ax (d1 @ d2) (off + image_stride psm) s' =
      (case image_loop psm bp bw w ax d1 (off + image_stride psm) s' of None \<Rightarrow> None
       | Some (True, s') \<Rightarrow> Some (True, s') | Some (False, s') \<Rightarrow> image_loop psm bp bw w ax d2 0 s')" for s'
      using less True image_stride_pos [of psm] by (intro less.hyps) auto
    then show ?thesis
      using True image_pixels_append(1) [OF assms(1,2,3) less.prems(1) True, of d2]
      by (subst (1 2) image_loop.simps) (auto simp: Let_def split: option.split)
  qed
qed

lemma fields_upd [simp]:
  "dpsm (g\<lparr>m_vram := v, m_transferState := t\<rparr>) = dpsm g" "dbp (g\<lparr>m_vram := v, m_transferState := t\<rparr>) = dbp g"
  "dbw (g\<lparr>m_vram := v, m_transferState := t\<rparr>) = dbw g" "rrw (g\<lparr>m_vram := v, m_transferState := t\<rparr>) = rrw g"
  "rrh (g\<lparr>m_vram := v, m_transferState := t\<rparr>) = rrh g" "dsax (g\<lparr>m_vram := v, m_transferState := t\<rparr>) = dsax g"
  "xdir (g\<lparr>m_vram := v, m_transferState := t\<rparr>) = xdir g"
  by (simp_all add: dpsm_def dbp_def dbw_def rrw_def rrh_def dsax_def xdir_def)

lemma process_done: "xdir g \<noteq> 0 \<Longrightarrow> processImageData data g = Some g"
  by (simp add: processImageData_def split: option.split)

section \<open>Reading back\<close>

lemma bytes_of_word_of_bytes:
  assumes "length bs = n" "8 * n \<le> LENGTH('a::len)"
  shows "bytes_of_word n (word_of_bytes bs :: 'a word) = bs"
proof (rule nth_equalityI)
  fix i assume "i < length (bytes_of_word n (word_of_bytes bs :: 'a word))"
  then have i: "i < n" by simp
  then show "bytes_of_word n (word_of_bytes bs :: 'a word) ! i = bs ! i"
    using assms by (intro bit_word_eqI) (auto simp: nth_bytes_of_word bit_simps bit_word_of_bytes)
qed (simp add: assms(1))

text \<open>The bytes a readback makes of the pixels \<open>n\<close>, or \<open>n\<close> and \<open>n + 1\<close>, of a packet.\<close>

lemma readback_packed:
  assumes "IsValidPsm psm" "holds_pixels psm data N" "n < N" "pixels_per_step psm dvd n" "pixels_per_step psm dvd N"
  shows "take (n * BitsPerPixel psm div 8) data
      @ readback_bytes (BitsPerPixel psm) (packed_pixel psm data n) (packed_pixel psm data (n + 1))
    = take ((n + pixels_per_step psm) * BitsPerPixel psm div 8) data"
proof (cases "BitsPerPixel psm = 4")
  case True
  with assms(4,5) have ev: "even n" "even N" by (simp_all add: pixels_per_step_def)
  with assms(3) have "n + 2 \<le> N" by presburger
  with assms(2) True ev(1) have lt: "n div 2 < length data" by (auto simp: holds_pixels_def)
  have m8: "(0xF :: u8) = mask 4" "(0xF :: u32) = mask 4" by (simp_all add: mask_eq_exp_minus_1)
  have "ucast (packed_pixel psm data n OR push_bit 4 (packed_pixel psm data (n + 1) AND 0xF)) = data ! (n div 2)"
    using True ev(1) unfolding packed_pixel_def m8 by (intro bit_word_eqI) (auto simp: bit_simps)
  then show ?thesis
    using True ev(1) lt by (simp add: readback_bytes_def pixels_per_step_def take_Suc_conv_app_nth)
next
  case False
  define m where "m = BitsPerPixel psm div 8"
  have bpp: "BitsPerPixel psm = 8 * m" "m \<in> {1, 2, 3, 4}"
    using assms(1) False by (cases psm; simp add: IsValidPsm_def m_def)+
  have "N * m \<le> length data" using assms(2) by (simp add: holds_pixels_def bpp(1))
  moreover have "Suc n * m \<le> N * m" using assms(3) by (intro mult_right_mono) simp_all
  ultimately have len: "length (take m (drop (n * m) data)) = m" by simp
  have "readback_bytes (BitsPerPixel psm) v v2 = bytes_of_word m v" for v v2
    using bpp by (auto simp: readback_bytes_def bytes_of_word_def)
  then have "readback_bytes (BitsPerPixel psm) (packed_pixel psm data n) v2 = take m (drop (n * m) data)" for v2
    using False bytes_of_word_of_bytes [OF len, where 'a = 32] bpp(2)
    unfolding packed_pixel_def m_def [symmetric] by auto
  moreover have "take ((n + 1) * m) data = take (n * m) data @ take m (drop (n * m) data)"
    using take_add [of "n * m" m data] by (simp add: add.commute)
  moreover have "k * BitsPerPixel psm div 8 = k * m" for k by (simp add: bpp(1))
  moreover have "pixels_per_step psm = 1" using False by (simp add: pixels_per_step_def)
  ultimately show ?thesis by metis
qed

text \<open>A readback of a rectangle that holds the pixels of a packet gives the packet's bytes.\<close>

lemma readback_loop_packed:
  assumes psm: "psm_of (spsm g) = psm" "IsValidPsm psm" and data: "holds_pixels psm data N"
    and N: "N = unat (rrw g) * unat (rrh g)" "pixels_per_step psm dvd unat (rrw g)" "0 < N"
    and rd: "\<And>m. m < N \<Longrightarrow> read_pixel psm d (sbp g) (max (sbw g) 1)
        (rect_x (ssax g) (unat (rrw g)) m) (rect_y (ssay g) (unat (rrw g)) m) = packed_pixel psm data m"
    and n: "n \<le> N" "pixels_per_step psm dvd n"
  shows "readback_loop g d (BitsPerPixel psm) n (take (n * BitsPerPixel psm div 8) data)
    = Some (take (N * BitsPerPixel psm div 8) data)"
  using n
proof (induction "N - n" arbitrary: n rule: less_induct)
  case less
  let ?k = "pixels_per_step psm" and ?W = "unat (rrw g)"
  have size: "unat (rrw g * rrh g) = N" using rect_size [of g] N(1) by (simp add: unat_word_ariths)
  have dvdN: "?k dvd N" using N(1,2) by simp
  have lt6: "spsm g AND 0x3F = spsm g" "spsm g < 0x3F"
    using psm by (auto simp: psm_of_def IsValidPsm_def split: if_splits)
  show ?case
  proof (cases "n = N")
    case True
    then show ?thesis by (subst readback_loop.simps) (simp add: size)
  next
    case False
    then have lt: "n < N" using less.prems(1) by simp
    have le: "n + ?k \<le> N" using dvdN less.prems(2) lt by (rule next_multiple)
    have small: "n < 2 ^ 32" using lt rect_size [of g] N(1) by simp
    have x: "of_nat n mod rrw g + ssax g = rect_x (ssax g) ?W n" "of_nat n div rrw g + ssay g = rect_y (ssay g) ?W n"
      using of_nat_word_div [OF small] by (simp_all add: rect_x_def rect_y_def add.commute)
    have x1: "rect_x (ssax g) ?W n + 1 = rect_x (ssax g) ?W (n + 1)" "rect_y (ssay g) ?W n = rect_y (ssay g) ?W (n + 1)"
      if "BitsPerPixel psm = 4"
      using next_state_two(1,2) [of n "rrw g"] that less.prems(2) N le rect_size [of g]
      by (simp_all add: rect_x_def rect_y_def pixels_per_step_def add.assoc)
    have rest: "readback_loop g d (BitsPerPixel psm) (n + ?k) (take ((n + ?k) * BitsPerPixel psm div 8) data)
        = Some (take (N * BitsPerPixel psm div 8) data)"
      using le less.prems(2) lt by (intro less.hyps) (auto simp: pixels_per_step_def)
    note bytes = readback_packed [OF psm(2) data lt less.prems(2) dvdN]
    show ?thesis
    proof (cases "BitsPerPixel psm = 4")
      case True
      then have "n + 1 < N" using le by (simp add: pixels_per_step_def)
      then show ?thesis
        using rest bytes True lt rd [OF lt] rd [of "n + 1"]
        by (subst readback_loop.simps)
          (simp add: size Let_def x x1 [OF True] ReadVram_def lt6 psm(1) pixels_per_step_def)
    next
      case False
      then have same: "readback_bytes (BitsPerPixel psm) v (packed_pixel psm data (n + 1))
          = readback_bytes (BitsPerPixel psm) v 0" for v
        by (simp add: readback_bytes_def)
      show ?thesis
        using rest bytes [unfolded same] False lt rd [OF lt]
        by (subst readback_loop.simps)
          (simp add: size Let_def x ReadVram_def lt6 psm(1) pixels_per_step_def)
    qed
  qed
qed

section \<open>Copies inside local memory\<close>

text \<open>The column and row of round \<open>n\<close> of a copy, as numbers.\<close>

definition visit_x :: "u32 \<Rightarrow> nat \<Rightarrow> nat \<Rightarrow> nat" where
  "visit_x dir W n = (if dir \<in> {0, 1} then n mod W else W - Suc (n mod W))"

definition visit_y :: "u32 \<Rightarrow> nat \<Rightarrow> nat \<Rightarrow> nat \<Rightarrow> nat" where
  "visit_y dir W H n = (if dir \<in> {0, 2} then n div W else H - Suc (n div W))"

text \<open>The directions in which no pixel is read after the copy has overwritten it.\<close>

definition overlap_safe :: "u32 \<Rightarrow> u32 \<Rightarrow> u32 \<Rightarrow> u32 \<Rightarrow> u32 \<Rightarrow> bool" where
  "overlap_safe dir sx sy dx dy \<longleftrightarrow>
     ((if dir \<in> {0, 2} then dy < sy else sy < dy)
      \<or> dy = sy \<and> (if dir \<in> {0, 1} then dx \<le> sx else sx \<le> dx))"

lemma visit_bounds:
  assumes "n < W * H"
  shows "visit_x dir W n < W" "visit_y dir W H n < H"
proof -
  have "0 < W" using assms by (metis gr0I less_zeroE mult_0)
  then have "n mod W < W" "n div W < H" using assms by (simp_all add: less_mult_imp_div_less mult.commute)
  then show "visit_x dir W n < W" "visit_y dir W H n < H" by (auto simp: visit_x_def visit_y_def)
qed

lemma visit_surj:
  assumes "i < W" "j < H"
  shows "\<exists>n < W * H. visit_x dir W n = i \<and> visit_y dir W H n = j"
proof -
  define x y where "x = (if dir \<in> {0, 1} then i else W - Suc i)" and "y = (if dir \<in> {0, 2} then j else H - Suc j)"
  have lt: "x < W" "y < H" using assms by (auto simp: x_def y_def)
  then have "y * W + x < W * H" using position_less [OF lt] by (simp add: mult.commute)
  moreover have n: "(y * W + x) mod W = x" "(y * W + x) div W = y" using lt(1) by simp_all
  have "visit_x dir W (y * W + x) = i" "visit_y dir W H (y * W + x) = j"
    unfolding visit_x_def visit_y_def n using assms by (auto simp: x_def y_def)
  ultimately show ?thesis by blast
qed

lemma reflect_inj: "a < n \<Longrightarrow> b < n \<Longrightarrow> n - Suc a = n - Suc b \<Longrightarrow> a = b"
  by arith

lemma visit_inj:
  assumes "m < W * H" "n < W * H" "visit_x dir W m = visit_x dir W n" "visit_y dir W H m = visit_y dir W H n"
  shows "m = n"
proof -
  have "0 < W" using assms(1) by (metis gr0I less_zeroE mult_0)
  then have b: "m mod W < W" "n mod W < W" "m div W < H" "n div W < H"
    using assms(1,2) by (simp_all add: less_mult_imp_div_less mult.commute)
  have "m mod W = n mod W" "m div W = n div W"
    using assms(3,4) reflect_inj [OF b(1,2)] reflect_inj [OF b(3,4)]
    by (auto simp: visit_x_def visit_y_def split: if_splits)
  then show ?thesis by (metis div_mult_mod_eq)
qed

text \<open>No round reads a pixel that an earlier round wrote.\<close>

lemma visit_order:
  assumes "m < n" "n < W * H" "overlap_safe dir sx sy dx dy"
  shows "unat sx + visit_x dir W n \<noteq> unat dx + visit_x dir W m
    \<or> unat sy + visit_y dir W H n \<noteq> unat dy + visit_y dir W H m"
proof -
  have W: "0 < W" using assms(2) by (metis gr0I less_zeroE mult_0)
  have b: "m mod W < W" "n mod W < W" "m div W < H" "n div W < H"
    using assms(1,2) W by (simp_all add: less_mult_imp_div_less mult.commute)
  have le: "m div W \<le> n div W" using assms(1) by (simp add: div_le_mono)
  have lex: "m mod W < n mod W" if "m div W = n div W"
  proof -
    have "m div W * W + m mod W < n div W * W + n mod W" using assms(1) by simp
    then show ?thesis unfolding that by (simp only: add_less_cancel_left)
  qed
  have ord: "m div W < n div W \<or> m div W = n div W \<and> m mod W < n mod W" using le lex by linarith
  define mx my nx ny where "mx = m mod W" and "my = m div W" and "nx = n mod W" and "ny = n div W"
  show ?thesis
    using assms(3) b ord
    unfolding overlap_safe_def visit_x_def visit_y_def word_less_nat_alt word_le_nat_alt word_unat_eq_iff
      mx_def [symmetric] my_def [symmetric] nx_def [symmetric] ny_def [symmetric]
    by (auto split: if_splits)
qed

lemma copy_pos_visit:
  assumes "n < unat w * unat h" "unat w * unat h < 2 ^ 32"
  shows "copy_pos dir w h n = (of_nat (visit_x dir (unat w) n), of_nat (visit_y dir (unat w) (unat h) n))"
proof -
  have n: "n < 2 ^ 32" using assms by simp
  have W: "0 < unat w" using assms(1) by (metis gr0I less_zeroE mult_0)
  have b: "Suc (n mod unat w) \<le> unat w" "Suc (n div unat w) \<le> unat h"
    using assms(1) W by (simp_all add: Suc_le_eq less_mult_imp_div_less mult.commute)
  have "w - of_nat (n mod unat w) - 1 = of_nat (unat w - Suc (n mod unat w))"
    "h - of_nat (n div unat w) - 1 = of_nat (unat h - Suc (n div unat w))"
    using of_nat_diff [OF b(1), where 'a = u32] of_nat_diff [OF b(2), where 'a = u32] by (simp_all add: algebra_simps)
  then show ?thesis
    by (simp add: copy_pos_def Let_def of_nat_word_div [OF n] visit_x_def visit_y_def)
qed

text \<open>The pixel a round reads and the one it writes.\<close>

definition copy_src :: "gs \<Rightarrow> nat \<Rightarrow> u32 \<times> u32" where
  "copy_src g n = (of_nat (visit_x (xfer_dir g) (unat (rrw g)) n) + ssax g,
                   of_nat (visit_y (xfer_dir g) (unat (rrw g)) (unat (rrh g)) n) + ssay g)"

definition copy_dst :: "gs \<Rightarrow> nat \<Rightarrow> u32 \<times> u32" where
  "copy_dst g n = (of_nat (visit_x (xfer_dir g) (unat (rrw g)) n) + dsax g,
                   of_nat (visit_y (xfer_dir g) (unat (rrw g)) (unat (rrh g)) n) + dsay g)"

abbreviation pixel_at :: "PixelStorageMode \<Rightarrow> gs \<Rightarrow> bytes \<Rightarrow> u32 \<times> u32 \<Rightarrow> u32" where
  "pixel_at psm g d p \<equiv> read_pixel psm d (sbp g) (sbw g) (fst p) (snd p)"

text \<open>Source and destination of a copy lie in one buffer, and the direction suits their overlap.\<close>

definition copy_ok :: "PixelStorageMode \<Rightarrow> gs \<Rightarrow> bool" where
  "copy_ok psm g \<longleftrightarrow> IsValidPsm psm \<and> psm_of (spsm g) = psm \<and> dpsm g = spsm g \<and> dbp g = sbp g \<and> dbw g = sbw g
     \<and> rect_fits psm (sbw g) (ssax g) (ssay g) (unat (rrw g)) (unat (rrh g))
     \<and> rect_fits psm (sbw g) (dsax g) (dsay g) (unat (rrw g)) (unat (rrh g))
     \<and> overlap_safe (xfer_dir g) (ssax g) (ssay g) (dsax g) (dsay g)"

definition copy_height :: "gs \<Rightarrow> nat" where
  "copy_height g = max (unat (ssay g)) (unat (dsay g)) + unat (rrh g)"

definition in_copy :: "PixelStorageMode \<Rightarrow> gs \<Rightarrow> u32 \<times> u32 \<Rightarrow> bool" where
  "in_copy psm g p \<longleftrightarrow> in_buffer (layout psm) (unat (sbw g)) (copy_height g) (unat (fst p)) (unat (snd p))"

lemma copy_coords:
  assumes "copy_ok psm g" "n < unat (rrw g) * unat (rrh g)"
  shows "unat (fst (copy_src g n)) = unat (ssax g) + visit_x (xfer_dir g) (unat (rrw g)) n"
    "unat (snd (copy_src g n)) = unat (ssay g) + visit_y (xfer_dir g) (unat (rrw g)) (unat (rrh g)) n"
    "unat (fst (copy_dst g n)) = unat (dsax g) + visit_x (xfer_dir g) (unat (rrw g)) n"
    "unat (snd (copy_dst g n)) = unat (dsay g) + visit_y (xfer_dir g) (unat (rrw g)) (unat (rrh g)) n"
    "in_copy psm g (copy_src g n)" "in_copy psm g (copy_dst g n)"
proof -
  note b = visit_bounds [OF assms(2), of "xfer_dir g"]
  show c: "unat (fst (copy_src g n)) = unat (ssax g) + visit_x (xfer_dir g) (unat (rrw g)) n"
    "unat (snd (copy_src g n)) = unat (ssay g) + visit_y (xfer_dir g) (unat (rrw g)) (unat (rrh g)) n"
    "unat (fst (copy_dst g n)) = unat (dsax g) + visit_x (xfer_dir g) (unat (rrw g)) n"
    "unat (snd (copy_dst g n)) = unat (dsay g) + visit_y (xfer_dir g) (unat (rrw g)) (unat (rrh g)) n"
    using assms(1) b by (simp_all add: copy_src_def copy_dst_def copy_ok_def rect_fits_def add.commute unat_add_of_nat)
  show "in_copy psm g (copy_src g n)" "in_copy psm g (copy_dst g n)"
    using assms(1) b unfolding in_copy_def c by (auto simp: in_buffer_def copy_ok_def rect_fits_def copy_height_def)
qed

lemma copy_order:
  assumes "copy_ok psm g" "n < unat (rrw g) * unat (rrh g)" "m < n"
  shows "copy_src g n \<noteq> copy_dst g m" "copy_dst g n \<noteq> copy_dst g m"
proof -
  have m: "m < unat (rrw g) * unat (rrh g)" using assms(2,3) by simp
  note c = copy_coords(1-4) [OF assms(1,2)] copy_coords(1-4) [OF assms(1) m]
  show "copy_src g n \<noteq> copy_dst g m"
    using visit_order [OF assms(3,2)] assms(1) c unfolding copy_ok_def by metis
  show "copy_dst g n \<noteq> copy_dst g m"
    using visit_inj [OF assms(2) m] assms(3) c by (metis add_left_imp_eq less_irrefl)
qed

lemma copy_pages:
  assumes "copy_ok psm g"
  shows "buffer_pages (layout psm) (unat (sbw g)) (copy_height g) \<le> 512"
  using assms unfolding copy_ok_def rect_fits_def copy_height_def
  by (cases "unat (ssay g) \<le> unat (dsay g)") (simp_all add: max_def)

lemma copy_pixel_reads:
  assumes "copy_ok psm g" "n < unat (rrw g) * unat (rrh g)"
  shows "\<exists>d'. copy_pixel g n d = Some d' \<and> pixel_at psm g d' (copy_dst g n) = pixel_at psm g d (copy_src g n)
    \<and> (\<forall>p. in_copy psm g p \<and> p \<noteq> copy_dst g n \<longrightarrow> pixel_at psm g d' p = pixel_at psm g d p)"
proof -
  have ok: "IsValidPsm psm" "psm_of (spsm g) = psm" "dpsm g = spsm g" "dbp g = sbp g" "dbw g = sbw g"
    using assms(1) by (simp_all add: copy_ok_def)
  have lt6: "spsm g AND 0x3F = spsm g" "spsm g < 0x3F"
    using ok(1,2) by (auto simp: psm_of_def IsValidPsm_def split: if_splits)
  have size: "unat (rrw g) * unat (rrh g) < 2 ^ 32" using rect_size [of g] by simp
  let ?d = "write_pixel psm d (sbp g) (sbw g) (fst (copy_dst g n)) (snd (copy_dst g n)) (pixel_at psm g d (copy_src g n))"
  have "copy_pixel g n d = Some ?d"
    using ok lt6 by (simp add: copy_pixel_def copy_pos_visit [OF assms(2) size] ReadVram_def WriteVram_def
        copy_src_def copy_dst_def)
  moreover note wr = pixel_write_read [OF ok(1) copy_pages [OF assms(1)] copy_coords(6) [OF assms, unfolded in_copy_def]]
  have "take_bit (BitsPerPixel psm) (pixel_at psm g d p) = pixel_at psm g d p" for p
    using ok(1) by (intro bit_word_eqI) (auto simp: read_pixel_eq bit_Read bit_simps)
  ultimately show ?thesis using wr by (auto simp: in_copy_def prod_eq_iff)
qed

lemma copy_loop_reads:
  assumes "copy_ok psm g" "n \<le> unat (rrw g) * unat (rrh g)"
  shows "\<exists>d'. copy_loop g n d = Some d'
    \<and> (\<forall>k < n. pixel_at psm g d' (copy_dst g k) = pixel_at psm g d (copy_src g k))
    \<and> (\<forall>p. in_copy psm g p \<and> (\<forall>k < n. p \<noteq> copy_dst g k) \<longrightarrow> pixel_at psm g d' p = pixel_at psm g d p)"
  using assms(2)
proof (induction n)
  case (Suc n)
  then have n: "n < unat (rrw g) * unat (rrh g)" by simp
  obtain d1 where d1: "copy_loop g n d = Some d1"
    "\<And>k. k < n \<Longrightarrow> pixel_at psm g d1 (copy_dst g k) = pixel_at psm g d (copy_src g k)"
    "\<And>p. in_copy psm g p \<Longrightarrow> (\<And>k. k < n \<Longrightarrow> p \<noteq> copy_dst g k) \<Longrightarrow> pixel_at psm g d1 p = pixel_at psm g d p"
    using Suc by force
  obtain d2 where d2: "copy_pixel g n d1 = Some d2"
    "pixel_at psm g d2 (copy_dst g n) = pixel_at psm g d1 (copy_src g n)"
    "\<And>p. in_copy psm g p \<Longrightarrow> p \<noteq> copy_dst g n \<Longrightarrow> pixel_at psm g d2 p = pixel_at psm g d1 p"
    using copy_pixel_reads [OF assms(1) n, of d1] by blast
  have "pixel_at psm g d1 (copy_src g n) = pixel_at psm g d (copy_src g n)"
    using d1(3) copy_coords(5) [OF assms(1) n] copy_order(1) [OF assms(1) n] by blast
  moreover have "pixel_at psm g d2 (copy_dst g k) = pixel_at psm g d (copy_src g k)" if "k < n" for k
    using d1(2) [OF that] d2(3) copy_coords(6) [OF assms(1), of k] copy_order(2) [OF assms(1) n that] that n by fastforce
  moreover have "pixel_at psm g d2 p = pixel_at psm g d p" if "in_copy psm g p" "\<And>k. k < Suc n \<Longrightarrow> p \<noteq> copy_dst g k" for p
    using d1(3) [OF that(1)] d2(3) [OF that(1)] that(2) by simp
  ultimately show ?case
    using d1(1) d2(1,2) by (intro exI [of _ d2] conjI allI impI) (auto simp only: less_Suc_eq copy_loop.simps option.case)
qed simp

section \<open>Properties\<close>

text \<open>
  C28 (An upload writes its rectangle and nothing else of the buffer): after \<open>TRXDIR\<close> starts a
  transfer from the host and a packet with all its pixels arrives, the transfer has ended, every
  pixel of the rectangle holds the packed pixel of its place in the packet, and every other pixel
  of the destination buffer is as before, in all thirteen storage modes.
\<close>

theorem gs_upload:
  assumes "m_vram g = Some d" "psm_of (dpsm g) = psm" "IsValidPsm psm" "bitfield 0 2 v = 0"
    and "W = unat (rrw g)" "H = unat (rrh g)" "0 < W" "0 < H" "BitsPerPixel psm = 4 \<longrightarrow> even W"
    and "bw = max (dbw g) 1" "rect_fits psm bw (dsax g) (dsay g) W H" "holds_pixels psm data (W * H)"
  shows "\<exists>g' d'. Option.bind (write_xfer TRXDIR v g) (processImageData data) = Some g'
    \<and> m_vram g' = Some d' \<and> xdir g' = 3
    \<and> (\<forall>m < W * H. read_pixel psm d' (dbp g) bw (rect_x (dsax g) W m) (rect_y (dsay g) W m) = packed_pixel psm data m)
    \<and> (\<forall>x y. in_buffer (layout psm) (unat bw) (unat (dsay g) + H) (unat x) (unat y)
         \<and> (\<forall>m < W * H. (x, y) \<noteq> (rect_x (dsax g) W m, rect_y (dsay g) W m))
         \<longrightarrow> read_pixel psm d' (dbp g) bw x y = read_pixel psm d (dbp g) bw x y)"
proof -
  define d' where "d' = upload_pixels psm (dbp g) bw W (dsax g) (dsay g) data (W * H) d"
  have "\<exists>g'. Option.bind (write_xfer TRXDIR v g) (processImageData data) = Some g' \<and> m_vram g' = Some d' \<and> xdir g' = 3"
    unfolding d'_def using upload_run [OF assms(1-4) _ _ _ assms(12) [unfolded assms(5,6)]] assms(5-10) by auto
  moreover note upload_pixels_read [OF assms(3,11) order_refl, of _ _ "dbp g" data d, folded d'_def]
  ultimately show ?thesis
    using rect_coords(3) [OF assms(11)] by metis
qed

text \<open>A state with the 3 by 2 rectangle at (5, 7) of a 16-bit buffer as source and destination.\<close>

definition small_rect :: gs where
  "small_rect = \<lparr>m_vram = Some (\<lambda>_. 0xEE), bitbltbuf = 0x0201010002010100, trxpos = 0x0007000500070005,
     trxreg = 0x0000000200000003, trxdir = 3,
     m_transferState = \<lparr>ts_x = 0, ts_y = 0, total_pixels = 0, copied_pixels = 0\<rparr>, m_pendingImageBytes = 0,
     m_localToHostBuffer = [], m_localToHostReadPos = 0\<rparr>"

lemma small_rect_fields:
  "m_vram small_rect = Some (\<lambda>_. 0xEE)" "dpsm small_rect = 2" "dbp small_rect = 0x100" "dbw small_rect = 1"
  "dsax small_rect = 5" "dsay small_rect = 7" "rrw small_rect = 3" "rrh small_rect = 2"
  "spsm small_rect = 2" "sbp small_rect = 0x100" "sbw small_rect = 1" "ssax small_rect = 5" "ssay small_rect = 7"
  by (simp_all add: small_rect_def, code_simp+)

definition small_packet :: "u8 list" where "small_packet = [1, 2, 3, 4, 5, 6, 7, 8, 9, 10, 11, 12]"

lemma small_rect_ok:
  "psm_of (dpsm small_rect) = C16" "IsValidPsm C16" "bitfield 0 2 0 = 0" "bitfield 0 2 1 = 1"
  "3 = unat (rrw small_rect)" "2 = unat (rrh small_rect)" "0 < (3 :: nat)" "0 < (2 :: nat)"
  "BitsPerPixel C16 = 4 \<longrightarrow> even (3 :: nat)" "1 = max (dbw small_rect) 1"
  "rect_fits C16 1 (dsax small_rect) (dsay small_rect) 3 2" "holds_pixels C16 small_packet (3 * 2)"
  "spsm small_rect = dpsm small_rect" "sbp small_rect = dbp small_rect" "sbw small_rect = dbw small_rect"
  "ssax small_rect = dsax small_rect" "ssay small_rect = dsay small_rect"
  by (simp_all add: small_rect_fields psm_of_def IsValidPsm_def rect_fits_def holds_pixels_def page_cols_def
      buffer_pages_def small_packet_def) (simp_all add: bitfield_def)

theorem gs_upload_witness:
  "\<exists>g' d'. Option.bind (write_xfer TRXDIR 0 small_rect) (processImageData small_packet) = Some g'
    \<and> m_vram g' = Some d' \<and> xdir g' = 3 \<and> read_pixel C16 d' 0x100 1 6 8 = 0x0A09"
proof -
  have "\<exists>g' d'. Option.bind (write_xfer TRXDIR 0 small_rect) (processImageData small_packet) = Some g'
    \<and> m_vram g' = Some d' \<and> xdir g' = 3
    \<and> read_pixel C16 d' (dbp small_rect) 1 (rect_x (dsax small_rect) 3 4) (rect_y (dsay small_rect) 3 4)
      = packed_pixel C16 small_packet 4"
    using gs_upload [OF small_rect_fields(1) small_rect_ok(1-3,5-12)] by fastforce
  moreover have "rect_x 5 3 4 = 6" "rect_y 7 3 4 = 8" by (simp_all add: rect_x_def rect_y_def)
  moreover have "packed_pixel C16 small_packet 4 = 0x0A09" by code_simp
  ultimately show ?thesis unfolding small_rect_fields by simp
qed

text \<open>
  Packets may be cut anywhere between pixels: image data that arrives in two packets leaves
  the same state as in one, an early end of the transfer included, when the first packet holds
  whole pixels (for the 4-bit modes whole pairs) and the mode is not a 24-bit one.
\<close>

lemma gs_upload_split:
  assumes "BitsPerPixel (psm_of (dpsm g)) \<noteq> 24" "image_stride (psm_of (dpsm g)) dvd length d1"
  shows "processImageData (d1 @ d2) g = Option.bind (processImageData d1 g) (processImageData d2)"
proof (cases "m_vram g = None \<or> xdir g \<noteq> 0 \<or> rrw g = 0 \<or> rrh g = 0 \<or> psm_of (dpsm g) = Max")
  case True
  then show ?thesis by (auto simp: processImageData_def split: option.split)
next
  case False
  then obtain d where d: "m_vram g = Some d" by auto
  let ?loop = "image_loop (psm_of (dpsm g)) (dbp g) (max (dbw g) 1) (rrw g) (dsax g)"
  have "IsValidPsm (psm_of (dpsm g))" using False psm_of_valid by blast
  then have "?loop (d1 @ d2) 0 s = (case ?loop d1 0 s of None \<Rightarrow> None | Some (True, s') \<Rightarrow> Some (True, s')
      | Some (False, s') \<Rightarrow> ?loop d2 0 s')" for s
    using image_loop_append [OF assms(1) _ assms(2)] by simp
  then show ?thesis
    using False d process_done [of "EndTransfer _" d2]
    by (simp add: processImageData_def [of "d1 @ d2"] processImageData_def [of d1] split: option.split prod.split bool.split)
      (auto simp: processImageData_def Let_def split: option.split prod.split bool.split)
qed

text \<open>
  C29 (What was uploaded reads back): when source and destination name the same rectangle, an
  upload followed by a transfer to the host leaves in the host buffer exactly the bytes of the
  packet's pixels, ready to be consumed from the start.
\<close>

theorem gs_upload_readback:
  assumes "m_vram g = Some d" "psm_of (dpsm g) = psm" "IsValidPsm psm" "bitfield 0 2 v = 0" "bitfield 0 2 v' = 1"
    and "W = unat (rrw g)" "H = unat (rrh g)" "0 < W" "0 < H" "BitsPerPixel psm = 4 \<longrightarrow> even W"
    and "bw = max (dbw g) 1" "rect_fits psm bw (dsax g) (dsay g) W H" "holds_pixels psm data (W * H)"
    and "spsm g = dpsm g" "sbp g = dbp g" "sbw g = dbw g" "ssax g = dsax g" "ssay g = dsay g"
  shows "\<exists>g'. Option.bind (Option.bind (write_xfer TRXDIR v g) (processImageData data)) (write_xfer TRXDIR v') = Some g'
    \<and> fst (consumeLocalToHostBytes (length data) g') = take (W * H * BitsPerPixel psm div 8) data"
proof -
  obtain g1 where g1: "Option.bind (write_xfer TRXDIR v g) (processImageData data) = Some g1"
    "m_vram g1 = Some (upload_pixels psm (dbp g) bw W (dsax g) (dsay g) data (W * H) d)"
    "bitbltbuf g1 = bitbltbuf g" "trxpos g1 = trxpos g" "trxreg g1 = trxreg g"
    using upload_run [OF assms(1-4) _ _ _ assms(13) [unfolded assms(6,7)]] assms(6-11) by auto
  have rd: "read_pixel psm (upload_pixels psm (dbp g) bw W (dsax g) (dsay g) data (W * H) d) (dbp g) bw
      (rect_x (dsax g) W m) (rect_y (dsay g) W m) = packed_pixel psm data m" if "m < W * H" for m
    using upload_pixels_read [OF assms(3,12) order_refl rect_coords(3) [OF assms(12) that], of "dbp g" data d] that by blast
  define g2 where "g2 = g1\<lparr>trxdir := v', m_transferState := \<lparr>ts_x = dsax g1, ts_y = dsay g1,
    total_pixels = rrw g1 * rrh g1, copied_pixels = 0\<rparr>, m_pendingImageBytes := 0\<rparr>"
  have f: "spsm g2 = dpsm g" "sbp g2 = dbp g" "sbw g2 = dbw g" "rrw g2 = rrw g" "rrh g2 = rrh g"
    "ssax g2 = dsax g" "ssay g2 = dsay g" "xdir g2 = 1" "m_vram g2 = m_vram g1"
    using assms(5,14-18) g1(3-5)
    by (simp_all add: g2_def dpsm_def dbp_def dbw_def rrw_def rrh_def dsax_def dsay_def xdir_def
        spsm_def sbp_def sbw_def ssax_def ssay_def)
  have "write_xfer TRXDIR v' g1 = performLocalToHostToBuffer g2"
    using f(8,9) g1(2) by (simp add: Let_def flip: g2_def)
  moreover have "readback_loop g2 (upload_pixels psm (dbp g) bw W (dsax g) (dsay g) data (W * H) d)
      (BitsPerPixel psm) 0 (take (0 * BitsPerPixel psm div 8) data) = Some (take (W * H * BitsPerPixel psm div 8) data)"
    using assms rd by (intro readback_loop_packed) (auto simp: f pixels_per_step_def)
  ultimately show ?thesis
    using g1(1,2) f assms(2,13)
    by (auto simp: performLocalToHostToBuffer_def consumeLocalToHostBytes_def Let_def holds_pixels_def)
qed

theorem gs_upload_readback_witness:
  "\<exists>g'. Option.bind (Option.bind (write_xfer TRXDIR 0 small_rect) (processImageData small_packet))
      (write_xfer TRXDIR 1) = Some g'
    \<and> fst (consumeLocalToHostBytes (length small_packet) g') = small_packet"
proof -
  have "take (3 * 2 * BitsPerPixel C16 div 8) small_packet = small_packet" by code_simp
  then show ?thesis using gs_upload_readback [OF small_rect_fields(1) small_rect_ok] by metis
qed

text \<open>
  C30 (A copy inside local memory moves the rectangle): when source and destination lie in one
  buffer and the direction of the copy suits their overlap, every pixel of the destination
  rectangle holds what the source pixel held before the transfer, even where the rectangles
  overlap, every other pixel of the buffer is unchanged, and the transfer has ended.
\<close>

theorem gs_local_copy:
  assumes "m_vram g = Some d" "copy_ok psm g" "0 < unat (rrw g)" "0 < unat (rrh g)"
  shows "\<exists>g' d'. performLocalToLocalTransfer g = Some g' \<and> m_vram g' = Some d' \<and> xdir g' = 3
    \<and> (\<forall>i < unat (rrw g). \<forall>j < unat (rrh g).
         pixel_at psm g d' (of_nat i + dsax g, of_nat j + dsay g) = pixel_at psm g d (of_nat i + ssax g, of_nat j + ssay g))
    \<and> (\<forall>x y. in_copy psm g (x, y)
         \<and> (\<forall>i < unat (rrw g). \<forall>j < unat (rrh g). (x, y) \<noteq> (of_nat i + dsax g, of_nat j + dsay g))
         \<longrightarrow> pixel_at psm g d' (x, y) = pixel_at psm g d (x, y))"
proof -
  let ?N = "unat (rrw g) * unat (rrh g)"
  have size: "unat (rrw g * rrh g) = ?N" using rect_size [of g] by (simp add: unat_word_ariths)
  then have ne: "rrw g * rrh g \<noteq> 0" using assms(3,4) by (metis mult_eq_0_iff nat_less_le unat_0)
  obtain d' where d': "copy_loop g ?N d = Some d'"
    "\<And>k. k < ?N \<Longrightarrow> pixel_at psm g d' (copy_dst g k) = pixel_at psm g d (copy_src g k)"
    "\<And>p. in_copy psm g p \<Longrightarrow> (\<And>k. k < ?N \<Longrightarrow> p \<noteq> copy_dst g k) \<Longrightarrow> pixel_at psm g d' p = pixel_at psm g d p"
    using copy_loop_reads [OF assms(2) order_refl, of d] by force
  let ?g = "EndTransfer (g\<lparr>m_vram := Some d'\<rparr>)"
  have "performLocalToLocalTransfer g = Some ?g"
    using assms(1) ne d'(1) by (simp add: performLocalToLocalTransfer_def Let_def size)
  moreover have "pixel_at psm g d' (of_nat i + dsax g, of_nat j + dsay g)
      = pixel_at psm g d (of_nat i + ssax g, of_nat j + ssay g)"
    if "i < unat (rrw g)" "j < unat (rrh g)" for i j
    using visit_surj [OF that, of "xfer_dir g"] d'(2) unfolding copy_src_def copy_dst_def by blast
  moreover have "pixel_at psm g d' (x, y) = pixel_at psm g d (x, y)"
    if "in_copy psm g (x, y)"
      "\<And>i j. i < unat (rrw g) \<Longrightarrow> j < unat (rrh g) \<Longrightarrow> (x, y) \<noteq> (of_nat i + dsax g, of_nat j + dsay g)" for x y
    using d'(3) [OF that(1)] that(2) visit_bounds unfolding copy_dst_def by blast
  ultimately show ?thesis by (intro exI [of _ ?g] exI [of _ d']) auto
qed

text \<open>An overlapping copy of a 3 by 2 rectangle from (5, 7) to (6, 8), from the last pixel backwards.\<close>

definition small_copy :: gs where "small_copy = small_rect\<lparr>trxpos := 0x1808000600070005\<rparr>"

theorem gs_local_copy_witness:
  "\<exists>g' d'. performLocalToLocalTransfer small_copy = Some g' \<and> m_vram g' = Some d' \<and> xdir g' = 3
    \<and> read_pixel C16 d' 0x100 1 7 9 = read_pixel C16 (\<lambda>_. 0xEE) 0x100 1 6 8"
proof -
  have f: "m_vram small_copy = Some (\<lambda>_. 0xEE)" "dpsm small_copy = 2" "dbp small_copy = 0x100" "dbw small_copy = 1"
    "dsax small_copy = 6" "dsay small_copy = 8" "rrw small_copy = 3" "rrh small_copy = 2" "spsm small_copy = 2"
    "sbp small_copy = 0x100" "sbw small_copy = 1" "ssax small_copy = 5" "ssay small_copy = 7" "xfer_dir small_copy = 3"
    by (simp_all add: small_copy_def small_rect_def, code_simp+)
  have "copy_ok C16 small_copy"
    unfolding copy_ok_def f by (simp add: psm_of_def IsValidPsm_def rect_fits_def page_cols_def buffer_pages_def overlap_safe_def)
  then obtain g' d' where r: "performLocalToLocalTransfer small_copy = Some g'" "m_vram g' = Some d'" "xdir g' = 3"
    "\<forall>i < unat (rrw small_copy). \<forall>j < unat (rrh small_copy).
       pixel_at C16 small_copy d' (of_nat i + dsax small_copy, of_nat j + dsay small_copy)
       = pixel_at C16 small_copy (\<lambda>_. 0xEE) (of_nat i + ssax small_copy, of_nat j + ssay small_copy)"
    using gs_local_copy [OF f(1), of C16] f(7,8) by auto
  then show ?thesis using r(4) [rule_format, of 1 1] by (simp add: f)
qed

end
