(* ===== verification/GSReadout.thy ===== *)
theory GSReadout
  imports GSMemoryProps
begin

text \<open>
  The block, page and multi-page readouts of \<open>ps2_gs_memory.cpp\<close>: SSE code that unswizzles a
  block at a time into a linear buffer. A 128-bit register is the list of its 16 bytes, the lowest
  lane first; the output is a byte array, the output pointer an offset \<open>ptr\<close> into it. The readouts
  are proved equal to the pixel-by-pixel reads of the same rectangle.
\<close>

section \<open>The SSE operations\<close>

type_synonym s128 = "u8 list"

definition mm_loadu_si128 :: "bytes \<Rightarrow> nat \<Rightarrow> s128" where
  "mm_loadu_si128 data p = copy_out data p 16"

definition mm_storeu_si128 :: "nat \<Rightarrow> s128 \<Rightarrow> bytes \<Rightarrow> bytes" where
  "mm_storeu_si128 p r output = copy_in p r output"

definition mm_unpacklo_epi64 :: "s128 \<Rightarrow> s128 \<Rightarrow> s128" where
  "mm_unpacklo_epi64 a b = take 8 a @ take 8 b"

definition mm_unpackhi_epi64 :: "s128 \<Rightarrow> s128 \<Rightarrow> s128" where
  "mm_unpackhi_epi64 a b = drop 8 a @ drop 8 b"

definition mm_unpacklo_epi32 :: "s128 \<Rightarrow> s128 \<Rightarrow> s128" where
  "mm_unpacklo_epi32 a b = take 4 a @ take 4 b @ take 4 (drop 4 a) @ take 4 (drop 4 b)"

definition mm_unpackhi_epi32 :: "s128 \<Rightarrow> s128 \<Rightarrow> s128" where
  "mm_unpackhi_epi32 a b = take 4 (drop 8 a) @ take 4 (drop 8 b) @ drop 12 a @ drop 12 b"

definition mm_shuffle_epi8 :: "s128 \<Rightarrow> s128 \<Rightarrow> s128" where
  "mm_shuffle_epi8 a ctl = map (\<lambda>m. if bit m 7 then 0 else a ! unat (m AND 15)) ctl"

definition mm_and_si128 :: "s128 \<Rightarrow> s128 \<Rightarrow> s128" where
  "mm_and_si128 a b = map2 (AND) a b"

definition mm_set1_epi8 :: "u8 \<Rightarrow> s128" where
  "mm_set1_epi8 v = replicate 16 v"

fun mm_srli_epi16 :: "s128 \<Rightarrow> nat \<Rightarrow> s128" where
  "mm_srli_epi16 (lo # hi # r) n =
     bytes_of_word 2 (drop_bit n (word_of_bytes [lo, hi] :: u16)) @ mm_srli_epi16 r n"
| "mm_srli_epi16 r n = r"

section \<open>Block readout\<close>

definition src_block_word_address :: "u32 \<Rightarrow> u32" where
  "src_block_word_address block_addr = (block_addr AND 0x3FFF) * 64"

definition column_ptr :: "u32 \<Rightarrow> u32 \<Rightarrow> nat" where
  "column_ptr block_addr column = 4 * unat (src_block_word_address block_addr + 16 * column)"

definition ReadBlockToLinearBuffer32 :: "bytes \<Rightarrow> nat \<Rightarrow> u32 \<Rightarrow> bytes \<Rightarrow> u32 \<Rightarrow> bytes" where
  "ReadBlockToLinearBuffer32 output ptr pitch data block_addr =
     fold (\<lambda>column out.
       let src_row = column_ptr block_addr column;
           w0123 = mm_loadu_si128 data src_row;
           w4567 = mm_loadu_si128 data (src_row + 16);
           w89AB = mm_loadu_si128 data (src_row + 32);
           wCDEF = mm_loadu_si128 data (src_row + 48);
           row0l = mm_unpacklo_epi64 w0123 w4567;
           row0r = mm_unpacklo_epi64 w89AB wCDEF;
           row1l = mm_unpackhi_epi64 w0123 w4567;
           row1r = mm_unpackhi_epi64 w89AB wCDEF;
           dest_row0_start = (2 * column + 0) * pitch;
           dest_row1_start = (2 * column + 1) * pitch
       in (mm_storeu_si128 (ptr + unat (dest_row1_start + 16)) row1r
           \<circ> mm_storeu_si128 (ptr + unat (dest_row1_start + 0)) row1l
           \<circ> mm_storeu_si128 (ptr + unat (dest_row0_start + 16)) row0r
           \<circ> mm_storeu_si128 (ptr + unat (dest_row0_start + 0)) row0l) out)
       [0, 1, 2, 3] output"

definition mask16 :: s128 where
  "mask16 = [0, 1, 4, 5, 8, 9, 12, 13, 2, 3, 6, 7, 10, 11, 14, 15]"

definition ReadBlockToLinearBuffer16 :: "bytes \<Rightarrow> nat \<Rightarrow> u32 \<Rightarrow> bytes \<Rightarrow> u32 \<Rightarrow> bytes" where
  "ReadBlockToLinearBuffer16 output ptr pitch data block_addr =
     fold (\<lambda>column out.
       let src_row = column_ptr block_addr column;
           w0123 = mm_loadu_si128 data src_row;
           w4567 = mm_loadu_si128 data (src_row + 16);
           w89AB = mm_loadu_si128 data (src_row + 32);
           wCDEF = mm_loadu_si128 data (src_row + 48);
           w0145 = mm_unpacklo_epi64 w0123 w4567;
           w89CD = mm_unpacklo_epi64 w89AB wCDEF;
           w2367 = mm_unpackhi_epi64 w0123 w4567;
           wABEF = mm_unpackhi_epi64 w89AB wCDEF;
           h0145 = mm_shuffle_epi8 w0145 mask16;
           h89CD = mm_shuffle_epi8 w89CD mask16;
           h2367 = mm_shuffle_epi8 w2367 mask16;
           hABEF = mm_shuffle_epi8 wABEF mask16;
           h014589CDL = mm_unpacklo_epi64 h0145 h89CD;
           h014589CDH = mm_unpackhi_epi64 h0145 h89CD;
           h2367ABEFL = mm_unpacklo_epi64 h2367 hABEF;
           h2367ABEFH = mm_unpackhi_epi64 h2367 hABEF;
           dest_row0_start = (2 * column + 0) * pitch;
           dest_row1_start = (2 * column + 1) * pitch
       in (mm_storeu_si128 (ptr + unat (dest_row1_start + 16)) h2367ABEFH
           \<circ> mm_storeu_si128 (ptr + unat (dest_row1_start + 0)) h2367ABEFL
           \<circ> mm_storeu_si128 (ptr + unat (dest_row0_start + 16)) h014589CDH
           \<circ> mm_storeu_si128 (ptr + unat (dest_row0_start + 0)) h014589CDL) out)
       [0, 1, 2, 3] output"

definition mask8 :: s128 where
  "mask8 = [0, 4, 8, 12, 2, 6, 10, 14, 1, 5, 9, 13, 3, 7, 11, 15]"

definition ReadBlockToLinearBuffer8 :: "bytes \<Rightarrow> nat \<Rightarrow> u32 \<Rightarrow> bytes \<Rightarrow> u32 \<Rightarrow> bytes" where
  "ReadBlockToLinearBuffer8 output ptr pitch data block_addr =
     fold (\<lambda>column out.
       let src_row = column_ptr block_addr column;
           w0123 = mm_loadu_si128 data src_row;
           w4567 = mm_loadu_si128 data (src_row + 16);
           w89AB = mm_loadu_si128 data (src_row + 32);
           wCDEF = mm_loadu_si128 data (src_row + 48);
           w0145 = mm_unpacklo_epi64 w0123 w4567;
           w89CD = mm_unpacklo_epi64 w89AB wCDEF;
           w2367 = mm_unpackhi_epi64 w0123 w4567;
           wABEF = mm_unpackhi_epi64 w89AB wCDEF;
           b0145ACBD = mm_shuffle_epi8 w0145 mask8;
           b89CDACBD = mm_shuffle_epi8 w89CD mask8;
           b2367ACBD = mm_shuffle_epi8 w2367 mask8;
           bABEFACBD = mm_shuffle_epi8 wABEF mask8;
           (row0, row1, row2, row3) =
             (if column AND 1 = 0
              then (mm_unpacklo_epi32 b0145ACBD b89CDACBD, mm_unpacklo_epi32 b2367ACBD bABEFACBD,
                    mm_unpackhi_epi32 b89CDACBD b0145ACBD, mm_unpackhi_epi32 bABEFACBD b2367ACBD)
              else (mm_unpacklo_epi32 b89CDACBD b0145ACBD, mm_unpacklo_epi32 bABEFACBD b2367ACBD,
                    mm_unpackhi_epi32 b0145ACBD b89CDACBD, mm_unpackhi_epi32 b2367ACBD bABEFACBD));
           row = ptr + unat ((4 * column) * pitch)
       in (mm_storeu_si128 (row + unat (3 * pitch)) row3
           \<circ> mm_storeu_si128 (row + unat (2 * pitch)) row2
           \<circ> mm_storeu_si128 (row + unat (1 * pitch)) row1
           \<circ> mm_storeu_si128 (row + unat (0 * pitch)) row0) out)
       [0, 1, 2, 3] output"

definition mask4 :: s128 where
  "mask4 = [0, 4, 8, 12, 1, 5, 9, 13, 2, 6, 10, 14, 3, 7, 11, 15]"

definition ReadBlockToLinearBuffer4 :: "bytes \<Rightarrow> nat \<Rightarrow> u32 \<Rightarrow> bytes \<Rightarrow> u32 \<Rightarrow> bytes" where
  "ReadBlockToLinearBuffer4 output ptr pitch data block_addr =
     fold (\<lambda>column out.
       let nibble_mask = mm_set1_epi8 0xF;
           src_row = column_ptr block_addr column;
           w0123 = mm_loadu_si128 data src_row;
           w4567 = mm_loadu_si128 data (src_row + 16);
           w89AB = mm_loadu_si128 data (src_row + 32);
           wCDEF = mm_loadu_si128 data (src_row + 48);
           w0145 = mm_unpacklo_epi64 w0123 w4567;
           w89CD = mm_unpacklo_epi64 w89AB wCDEF;
           w2367 = mm_unpackhi_epi64 w0123 w4567;
           wABEF = mm_unpackhi_epi64 w89AB wCDEF;
           b0145ABCD = mm_shuffle_epi8 w0145 mask4;
           b89CDABCD = mm_shuffle_epi8 w89CD mask4;
           b2367ABCD = mm_shuffle_epi8 w2367 mask4;
           bABEFABCD = mm_shuffle_epi8 wABEF mask4;
           b014589CDAB = mm_unpacklo_epi32 b0145ABCD b89CDABCD;
           b014589CDCD = mm_unpackhi_epi32 b0145ABCD b89CDABCD;
           b2367ABEFAB = mm_unpacklo_epi32 b2367ABCD bABEFABCD;
           b2367ABEFCD = mm_unpackhi_epi32 b2367ABCD bABEFABCD;
           b89CD0145AB = mm_unpacklo_epi32 b89CDABCD b0145ABCD;
           b89CD0145CD = mm_unpackhi_epi32 b89CDABCD b0145ABCD;
           bABEF2367AB = mm_unpacklo_epi32 bABEFABCD b2367ABCD;
           bABEF2367CD = mm_unpackhi_epi32 bABEFABCD b2367ABCD;
           low = (\<lambda>r. mm_and_si128 r nibble_mask);
           high = (\<lambda>r. mm_and_si128 (mm_srli_epi16 r 4) nibble_mask);
           (row0l, row0r, row1l, row1r, row2l, row2r, row3l, row3r) =
             (if column AND 1 = 0
              then (low b014589CDAB, low b014589CDCD, low b2367ABEFAB, low b2367ABEFCD,
                    high b89CD0145AB, high b89CD0145CD, high bABEF2367AB, high bABEF2367CD)
              else (low b89CD0145AB, low b89CD0145CD, low bABEF2367AB, low bABEF2367CD,
                    high b014589CDAB, high b014589CDCD, high b2367ABEFAB, high b2367ABEFCD));
           row = ptr + unat ((4 * column) * pitch)
       in (mm_storeu_si128 (row + unat (3 * pitch + 16)) row3r
           \<circ> mm_storeu_si128 (row + unat (3 * pitch + 0)) row3l
           \<circ> mm_storeu_si128 (row + unat (2 * pitch + 16)) row2r
           \<circ> mm_storeu_si128 (row + unat (2 * pitch + 0)) row2l
           \<circ> mm_storeu_si128 (row + unat (1 * pitch + 16)) row1r
           \<circ> mm_storeu_si128 (row + unat (1 * pitch + 0)) row1l
           \<circ> mm_storeu_si128 (row + unat (0 * pitch + 16)) row0r
           \<circ> mm_storeu_si128 (row + unat (0 * pitch + 0)) row0l) out)
       [0, 1, 2, 3] output"

section \<open>Page readout\<close>

text \<open>The loop over the blocks of a page, row by row.\<close>

definition for_blocks :: "nat \<times> nat \<Rightarrow> (nat \<Rightarrow> nat \<Rightarrow> bytes \<Rightarrow> bytes) \<Rightarrow> bytes \<Rightarrow> bytes" where
  "for_blocks ext body output =
     fold (\<lambda>block_row. fold (body block_row) [0..<fst ext]) [0..<snd ext] output"

definition ReadPageToLinearBufferCT32 :: "bytes \<Rightarrow> nat \<Rightarrow> u32 \<Rightarrow> bytes \<Rightarrow> u32 \<Rightarrow> bytes" where
  "ReadPageToLinearBufferCT32 output ptr pitch data bp =
     for_blocks (BlockExtent C32) (\<lambda>block_row block_col.
       let block_id = of_nat (BlockTableC32 ! block_row ! block_col);
           dst = (of_nat block_row * of_nat (snd (ColumnExtent C32))) * pitch
             + (of_nat block_col * of_nat (fst (ColumnExtent C32))) * 4
       in (\<lambda>out. ReadBlockToLinearBuffer32 out (ptr + unat dst) pitch data (bp + block_id))) output"

definition ReadPageToLinearBufferCT16 :: "bytes \<Rightarrow> nat \<Rightarrow> u32 \<Rightarrow> bytes \<Rightarrow> u32 \<Rightarrow> bytes" where
  "ReadPageToLinearBufferCT16 output ptr pitch data bp =
     for_blocks (BlockExtent C16) (\<lambda>block_row block_col.
       let block_id = of_nat (BlockTableC16 ! block_row ! block_col);
           dst = (of_nat block_row * of_nat (snd (ColumnExtent C16))) * pitch
             + (of_nat block_col * of_nat (fst (ColumnExtent C16))) * 2
       in (\<lambda>out. ReadBlockToLinearBuffer16 out (ptr + unat dst) pitch data (bp + block_id))) output"

definition ReadPageToLinearBufferCT16S :: "bytes \<Rightarrow> nat \<Rightarrow> u32 \<Rightarrow> bytes \<Rightarrow> u32 \<Rightarrow> bytes" where
  "ReadPageToLinearBufferCT16S output ptr pitch data bp =
     for_blocks (BlockExtent C16S) (\<lambda>block_row block_col.
       let block_id = of_nat (BlockTableC16S ! block_row ! block_col);
           dst = (of_nat block_row * of_nat (snd (ColumnExtent C16S))) * pitch
             + (of_nat block_col * of_nat (fst (ColumnExtent C16S))) * 2
       in (\<lambda>out. ReadBlockToLinearBuffer16 out (ptr + unat dst) pitch data (bp + block_id))) output"

definition ReadPageToLinearBufferZ32 :: "bytes \<Rightarrow> nat \<Rightarrow> u32 \<Rightarrow> bytes \<Rightarrow> u32 \<Rightarrow> bytes" where
  "ReadPageToLinearBufferZ32 output ptr pitch data bp =
     for_blocks (BlockExtent Z32) (\<lambda>block_row block_col.
       let block_id = of_nat (BlockTableZ32 ! block_row ! block_col);
           dst = (of_nat block_row * of_nat (snd (ColumnExtent Z32))) * pitch
             + (of_nat block_col * of_nat (fst (ColumnExtent Z32))) * 4
       in (\<lambda>out. ReadBlockToLinearBuffer32 out (ptr + unat dst) pitch data (bp + block_id))) output"

definition ReadPageToLinearBufferZ16 :: "bytes \<Rightarrow> nat \<Rightarrow> u32 \<Rightarrow> bytes \<Rightarrow> u32 \<Rightarrow> bytes" where
  "ReadPageToLinearBufferZ16 output ptr pitch data bp =
     for_blocks (BlockExtent Z16) (\<lambda>block_row block_col.
       let block_id = of_nat (BlockTableZ16 ! block_row ! block_col);
           dst = (of_nat block_row * of_nat (snd (ColumnExtent Z16))) * pitch
             + (of_nat block_col * of_nat (fst (ColumnExtent Z16))) * 2
       in (\<lambda>out. ReadBlockToLinearBuffer16 out (ptr + unat dst) pitch data (bp + block_id))) output"

definition ReadPageToLinearBufferZ16S :: "bytes \<Rightarrow> nat \<Rightarrow> u32 \<Rightarrow> bytes \<Rightarrow> u32 \<Rightarrow> bytes" where
  "ReadPageToLinearBufferZ16S output ptr pitch data bp =
     for_blocks (BlockExtent Z16S) (\<lambda>block_row block_col.
       let block_id = of_nat (BlockTableZ16S ! block_row ! block_col);
           dst = (of_nat block_row * of_nat (snd (ColumnExtent Z16S))) * pitch
             + (of_nat block_col * of_nat (fst (ColumnExtent Z16S))) * 2
       in (\<lambda>out. ReadBlockToLinearBuffer16 out (ptr + unat dst) pitch data (bp + block_id))) output"

definition ReadPageToLinearBufferP8 :: "bytes \<Rightarrow> nat \<Rightarrow> u32 \<Rightarrow> bytes \<Rightarrow> u32 \<Rightarrow> bytes" where
  "ReadPageToLinearBufferP8 output ptr pitch data bp =
     for_blocks (BlockExtent P8) (\<lambda>block_row block_col.
       let block_id = of_nat (BlockTableP8 ! block_row ! block_col);
           dst = (of_nat block_row * of_nat (snd (ColumnExtent P8))) * pitch
             + (of_nat block_col * of_nat (fst (ColumnExtent P8)))
       in (\<lambda>out. ReadBlockToLinearBuffer8 out (ptr + unat dst) pitch data (bp + block_id))) output"

definition ReadPageToLinearBufferP4 :: "bytes \<Rightarrow> nat \<Rightarrow> u32 \<Rightarrow> bytes \<Rightarrow> u32 \<Rightarrow> bytes" where
  "ReadPageToLinearBufferP4 output ptr pitch data bp =
     for_blocks (BlockExtent P4) (\<lambda>block_row block_col.
       let block_id = of_nat (BlockTableP4 ! block_row ! block_col);
           dst = (of_nat block_row * of_nat (snd (ColumnExtent P4))) * pitch
             + (of_nat block_col * of_nat (fst (ColumnExtent P4)))
       in (\<lambda>out. ReadBlockToLinearBuffer4 out (ptr + unat dst) pitch data (bp + block_id))) output"

definition ReadToLinearBufferCT32 ::
  "bytes \<Rightarrow> nat \<Rightarrow> u32 \<Rightarrow> bytes \<Rightarrow> u32 \<Rightarrow> u32 \<Rightarrow> u32 \<times> u32 \<Rightarrow> bytes" where
  "ReadToLinearBufferCT32 output ptr pitch data bp bw extent =
     (let pagesx = unat (fst extent div 64); pagesy = unat (snd extent div 32)
      in for_blocks (pagesx, pagesy) (\<lambda>py px out.
           let base = bp + (of_nat py * bw + of_nat px) * 32;
               dst = (of_nat py * 32) * pitch + (of_nat px * 64) * 4
           in ReadPageToLinearBufferCT32 out (ptr + unat dst) pitch data base) output)"

section \<open>Rectangles of a linear buffer\<close>

text \<open>
  \<open>blit\<close> replaces the rectangle of \<open>w\<close> bytes by \<open>h\<close> rows at \<open>(x, y)\<close> of a picture whose rows are
  \<open>P\<close> bytes apart.
\<close>

definition blit ::
  "nat \<Rightarrow> nat \<Rightarrow> nat \<Rightarrow> nat \<Rightarrow> nat \<Rightarrow> nat \<Rightarrow> (nat \<Rightarrow> nat \<Rightarrow> u8) \<Rightarrow> bytes \<Rightarrow> bytes" where
  "blit ptr P x y w h f output = (\<lambda>i.
     if ptr \<le> i \<and> x \<le> (i - ptr) mod P \<and> (i - ptr) mod P < x + w \<and> y \<le> (i - ptr) div P \<and> (i - ptr) div P < y + h
     then f ((i - ptr) mod P - x) ((i - ptr) div P - y) else output i)"

lemma blit_cong:
  "(\<And>k r. k < w \<Longrightarrow> r < h \<Longrightarrow> f k r = g k r) \<Longrightarrow> blit ptr P x y w h f = blit ptr P x y w h g"
  by (rule ext, rule ext) (auto simp: blit_def)

text \<open>The bytes of a rectangle, and the bytes outside it.\<close>

lemma blit_hit:
  assumes "x + w \<le> P" "k < w" "r < h"
  shows "blit ptr P x y w h f out (ptr + ((y + r) * P + (x + k))) = f k r"
proof -
  have "x + k < P" using assms by simp
  then have "((y + r) * P + (x + k)) mod P = x + k" "((y + r) * P + (x + k)) div P = y + r"
    by simp_all
  with assms show ?thesis by (simp add: blit_def)
qed

lemma blit_miss:
  assumes "\<And>k r. k < w \<Longrightarrow> r < h \<Longrightarrow> i \<noteq> ptr + ((y + r) * P + (x + k))"
  shows "blit ptr P x y w h f out i = out i"
proof (rule ccontr)
  assume "blit ptr P x y w h f out i \<noteq> out i"
  then have c: "ptr \<le> i" "x \<le> (i - ptr) mod P" "(i - ptr) mod P < x + w"
    "y \<le> (i - ptr) div P" "(i - ptr) div P < y + h"
    by (auto simp: blit_def split: if_splits)
  then have "i = ptr + ((y + ((i - ptr) div P - y)) * P + (x + ((i - ptr) mod P - x)))"
    using div_mult_mod_eq [of "i - ptr" P] by simp
  with assms [of "(i - ptr) mod P - x" "(i - ptr) div P - y"] c show False by linarith
qed

lemma blit_eqI:
  assumes "x + w \<le> P"
    and "\<And>k r. k < w \<Longrightarrow> r < h \<Longrightarrow> out' (ptr + ((y + r) * P + (x + k))) = f k r"
    and "\<And>i. (\<And>k r. k < w \<Longrightarrow> r < h \<Longrightarrow> i \<noteq> ptr + ((y + r) * P + (x + k))) \<Longrightarrow> out' i = out i"
  shows "out' = blit ptr P x y w h f out"
proof
  fix i
  show "out' i = blit ptr P x y w h f out i"
  proof (cases "\<exists>k r. k < w \<and> r < h \<and> i = ptr + ((y + r) * P + (x + k))")
    case True
    then show ?thesis using assms(1,2) blit_hit by auto
  next
    case False
    then show ?thesis using assms(3) [of i] blit_miss [of w h i ptr y P x f out] by auto
  qed
qed

lemma copy_in_blit:
  assumes "length r = w" "x + w \<le> P"
  shows "copy_in (ptr + (y * P + x)) r = blit ptr P x y w 1 (\<lambda>k _. r ! k)"
proof
  fix out
  show "copy_in (ptr + (y * P + x)) r out = blit ptr P x y w 1 (\<lambda>k _. r ! k) out"
  proof (rule blit_eqI [OF assms(2)])
    fix i assume no: "\<And>k r. k < w \<Longrightarrow> r < 1 \<Longrightarrow> i \<noteq> ptr + ((y + r) * P + (x + k))"
    show "copy_in (ptr + (y * P + x)) r out i = out i"
    proof (cases "ptr + (y * P + x) \<le> i \<and> i < ptr + (y * P + x) + w")
      case True
      then obtain k where "i = ptr + (y * P + x) + k" "k < w"
        by (metis le_Suc_ex nat_add_left_cancel_less)
      with no [of k 0] show ?thesis by simp
    qed (use assms(1) in \<open>auto simp: copy_in_def\<close>)
  qed (use assms(1) in \<open>simp add: copy_in_def\<close>)
qed

lemma blit_shift:
  assumes "x0 + x + w \<le> P"
  shows "blit (ptr + (y0 * P + x0)) P x y w h f = blit ptr P (x0 + x) (y0 + y) w h f"
proof
  fix out
  have at: "ptr + (y0 * P + x0) + ((y + r) * P + (x + k)) = ptr + ((y0 + y + r) * P + (x0 + x + k))" for k r
    by (simp add: algebra_simps)
  show "blit (ptr + (y0 * P + x0)) P x y w h f out = blit ptr P (x0 + x) (y0 + y) w h f out"
  proof (rule blit_eqI [OF assms])
    fix k r assume "k < w" "r < h"
    then show "blit (ptr + (y0 * P + x0)) P x y w h f out (ptr + ((y0 + y + r) * P + (x0 + x + k))) = f k r"
      using blit_hit [of x w P k r h "ptr + (y0 * P + x0)" y f out] assms unfolding at by simp
  next
    fix i assume "\<And>k r. k < w \<Longrightarrow> r < h \<Longrightarrow> i \<noteq> ptr + ((y0 + y + r) * P + (x0 + x + k))"
    then show "blit (ptr + (y0 * P + x0)) P x y w h f out i = out i"
      by (intro blit_miss) (simp only: at, blast)
  qed
qed

lemma blit_below:
  "blit ptr P x (y + h1) w h2 g (blit ptr P x y w h1 f out)
    = blit ptr P x y w (h1 + h2) (\<lambda>k r. if r < h1 then f k r else g k (r - h1)) out"
  by (rule ext) (auto simp: blit_def)

lemma blit_beside:
  "blit ptr P (x + w1) y w2 h g (blit ptr P x y w1 h f out)
    = blit ptr P x y (w1 + w2) h (\<lambda>k r. if k < w1 then f k r else g (k - w1) r) out"
  by (rule ext) (auto simp: blit_def)

lemma blit_empty: "blit ptr P x y w 0 f out = out" "blit ptr P x y 0 h f out = out"
  by (rule ext, auto simp: blit_def)+

lemma tile_index:
  assumes "r < h * Suc n"
  shows "(if r < h * n then g (r div h) (r mod h) else g n (r - h * n)) = g (r div h) (r mod h)"
proof (cases "r < h * n")
  case False
  then obtain j where "r = h * n + j" by (metis le_Suc_ex not_less)
  with assms show ?thesis by simp
qed simp

lemma tile_rows:
  "fold (\<lambda>c. blit ptr P x (y + h * c) w h (f c)) [0..<n] out
    = blit ptr P x y w (h * n) (\<lambda>k r. f (r div h) k (r mod h)) out"
proof (induction n)
  case (Suc n)
  have "blit ptr P x y w (h * n + h) (\<lambda>k r. if r < h * n then f (r div h) k (r mod h) else f n k (r - h * n))
      = blit ptr P x y w (h * n + h) (\<lambda>k r. f (r div h) k (r mod h))"
    by (rule blit_cong) (use tile_index [where g = "\<lambda>c r. f c _ r"] in \<open>simp add: add.commute\<close>)
  then show ?case by (simp add: Suc blit_below add.commute [of h])
qed (simp add: blit_empty)

lemma tile_cols:
  "fold (\<lambda>c. blit ptr P (x + w * c) y w h (f c)) [0..<n] out
    = blit ptr P x y (w * n) h (\<lambda>k r. f (k div w) (k mod w) r) out"
proof (induction n)
  case (Suc n)
  have "blit ptr P x y (w * n + w) h (\<lambda>k r. if k < w * n then f (k div w) (k mod w) r else f n (k - w * n) r)
      = blit ptr P x y (w * n + w) h (\<lambda>k r. f (k div w) (k mod w) r)"
    by (rule blit_cong) (use tile_index [where g = "\<lambda>c k. f c k _"] in \<open>simp add: add.commute\<close>)
  then show ?case by (simp add: Suc blit_beside add.commute [of w])
qed (simp add: blit_empty)

section \<open>The bytes of a block\<close>

text \<open>The rows that one pass of a block readout stores, as one rectangle.\<close>

lemma row_pair:
  assumes "length l = 16" "length r = 16" "32 \<le> P"
  shows "copy_in (ptr + (y * P + 16)) r (copy_in (ptr + (y * P + 0)) l out)
    = blit ptr P 0 y 32 1 (\<lambda>k _. (l @ r) ! k) out"
proof -
  have "copy_in (ptr + (y * P + 16)) r (copy_in (ptr + (y * P + 0)) l out)
      = blit ptr P (0 + 16) y 16 1 (\<lambda>k _. r ! k) (blit ptr P 0 y 16 1 (\<lambda>k _. l ! k) out)"
    using assms copy_in_blit [of r 16 16 P ptr y] copy_in_blit [of l 16 0 P ptr y] by simp
  then show ?thesis unfolding blit_beside using assms(1) by (simp add: nth_append cong: if_cong)
qed

lemma stack_rows:
  "blit ptr P x (y + 1) w 1 (\<lambda>k _. g (y + 1) ! k) (blit ptr P x y w 1 (\<lambda>k _. g y ! k) out)
    = blit ptr P x y w 2 (\<lambda>k r. g (y + r) ! k) out"
  "blit ptr P x (y + 3) w 1 (\<lambda>k _. g (y + 3) ! k) (blit ptr P x (y + 2) w 1 (\<lambda>k _. g (y + 2) ! k)
     (blit ptr P x (y + 1) w 1 (\<lambda>k _. g (y + 1) ! k) (blit ptr P x y w 1 (\<lambda>k _. g y ! k) out)))
    = blit ptr P x y w 4 (\<lambda>k r. g (y + r) ! k) out"
  using tile_rows [of ptr P x y 1 w "\<lambda>c k _. g (y + c) ! k" 2 out]
    tile_rows [of ptr P x y 1 w "\<lambda>c k _. g (y + c) ! k" 4 out]
  by (simp_all add: upt_rec numeral_eq_Suc)

lemma unat_offsets:
  fixes pitch :: u32
  assumes "unat pitch < 2 ^ 24"
  shows "n \<le> 200 \<Longrightarrow> unat (of_nat n * pitch) = n * unat pitch"
    "n \<le> 200 \<Longrightarrow> m < 2 ^ 16 \<Longrightarrow> unat (of_nat n * pitch + of_nat m) = n * unat pitch + m"
proof -
  have le: "n * unat pitch \<le> 200 * 2 ^ 24" if "n \<le> 200" for n
    using mult_le_mono [OF that, of "unat pitch" "2 ^ 24"] assms by simp
  have w: "of_nat n * pitch + of_nat m = of_nat (n * unat pitch + m)" for n m by simp
  show "unat (of_nat n * pitch + of_nat m) = n * unat pitch + m" if "n \<le> 200" "m < 2 ^ 16" for n m
    using le [OF that(1)] that(2) unfolding w by (simp add: unat_of_nat del: of_nat_add of_nat_mult)
  from this [of _ 0] show "unat (of_nat n * pitch) = n * unat pitch" if "n \<le> 200" for n
    using that by simp
qed

lemma load_rebase:
  "mm_loadu_si128 data (p + a) = mm_loadu_si128 (\<lambda>j. data (p + j)) a"
  by (simp add: mm_loadu_si128_def copy_out_def list_eq_iff_nth_eq add.assoc)

lemma load16:
  "mm_loadu_si128 data p = [data p, data (p + 1), data (p + 2), data (p + 3), data (p + 4), data (p + 5),
     data (p + 6), data (p + 7), data (p + 8), data (p + 9), data (p + 10), data (p + 11), data (p + 12),
     data (p + 13), data (p + 14), data (p + 15)]"
  by (simp add: mm_loadu_si128_def copy_out_def upt_rec numeral_eq_Suc)

lemma upt_small: "[0..<1] = [0]" "[0..<2] = [0, 1]" "[0..<4] = [0, 1, 2, 3]"
  by (simp_all add: upt_rec)

lemmas unpack_defs = mm_unpacklo_epi64_def mm_unpackhi_epi64_def mm_unpacklo_epi32_def mm_unpackhi_epi32_def

lemma nat_less_4: "(c :: nat) < 4 \<longleftrightarrow> c = 0 \<or> c = 1 \<or> c = 2 \<or> c = 3"
  by auto

text \<open>The bytes of a row of a block, as the column table of the layout has them.\<close>

definition block_row :: "nat \<Rightarrow> nat list list \<Rightarrow> bytes \<Rightarrow> nat \<Rightarrow> u8 list" where
  "block_row n t data y = concat (map (\<lambda>e. map (\<lambda>j. data (n * e + j)) [0..<n]) (t ! y))"

lemma block_row_32:
  assumes "c < 4"
  shows "mm_unpacklo_epi64 (mm_loadu_si128 data (64 * c)) (mm_loadu_si128 data (64 * c + 16))
     @ mm_unpacklo_epi64 (mm_loadu_si128 data (64 * c + 32)) (mm_loadu_si128 data (64 * c + 48))
     = block_row 4 ColumnTable32 data (2 * c)"
   "mm_unpackhi_epi64 (mm_loadu_si128 data (64 * c)) (mm_loadu_si128 data (64 * c + 16))
     @ mm_unpackhi_epi64 (mm_loadu_si128 data (64 * c + 32)) (mm_loadu_si128 data (64 * c + 48))
     = block_row 4 ColumnTable32 data (2 * c + 1)"
  using assms unfolding nat_less_4
  by (elim disjE; simp add: load16 unpack_defs block_row_def ColumnTable32_def upt_small)+

lemma block_row_16:
  assumes "c < 4"
  shows "let w0123 = mm_loadu_si128 data (64 * c); w4567 = mm_loadu_si128 data (64 * c + 16);
      w89AB = mm_loadu_si128 data (64 * c + 32); wCDEF = mm_loadu_si128 data (64 * c + 48);
      h0145 = mm_shuffle_epi8 (mm_unpacklo_epi64 w0123 w4567) mask16;
      h89CD = mm_shuffle_epi8 (mm_unpacklo_epi64 w89AB wCDEF) mask16;
      h2367 = mm_shuffle_epi8 (mm_unpackhi_epi64 w0123 w4567) mask16;
      hABEF = mm_shuffle_epi8 (mm_unpackhi_epi64 w89AB wCDEF) mask16
    in mm_unpacklo_epi64 h0145 h89CD @ mm_unpackhi_epi64 h0145 h89CD = block_row 2 ColumnTable16 data (2 * c)
     \<and> mm_unpacklo_epi64 h2367 hABEF @ mm_unpackhi_epi64 h2367 hABEF = block_row 2 ColumnTable16 data (2 * c + 1)"
  using assms unfolding nat_less_4
  by (elim disjE; simp add: Let_def load16 unpack_defs mm_shuffle_epi8_def mask16_def block_row_def
      ColumnTable16_def upt_small flip: numeral_2_eq_2)

lemma block_row_8:
  assumes "c < 4"
  shows "let w0123 = mm_loadu_si128 data (64 * c); w4567 = mm_loadu_si128 data (64 * c + 16);
      w89AB = mm_loadu_si128 data (64 * c + 32); wCDEF = mm_loadu_si128 data (64 * c + 48);
      b0145 = mm_shuffle_epi8 (mm_unpacklo_epi64 w0123 w4567) mask8;
      b89CD = mm_shuffle_epi8 (mm_unpacklo_epi64 w89AB wCDEF) mask8;
      b2367 = mm_shuffle_epi8 (mm_unpackhi_epi64 w0123 w4567) mask8;
      bABEF = mm_shuffle_epi8 (mm_unpackhi_epi64 w89AB wCDEF) mask8
    in (if (of_nat c :: u32) AND 1 = 0
        then (mm_unpacklo_epi32 b0145 b89CD, mm_unpacklo_epi32 b2367 bABEF,
              mm_unpackhi_epi32 b89CD b0145, mm_unpackhi_epi32 bABEF b2367)
        else (mm_unpacklo_epi32 b89CD b0145, mm_unpacklo_epi32 bABEF b2367,
              mm_unpackhi_epi32 b0145 b89CD, mm_unpackhi_epi32 b2367 bABEF))
     = (block_row 1 ColumnTable8 data (4 * c), block_row 1 ColumnTable8 data (4 * c + 1),
        block_row 1 ColumnTable8 data (4 * c + 2), block_row 1 ColumnTable8 data (4 * c + 3))"
  using assms unfolding nat_less_4
  by (elim disjE; simp add: Let_def load16 unpack_defs mm_shuffle_epi8_def mask8_def block_row_def
      ColumnTable8_def upt_small flip: numeral_2_eq_2)

text \<open>Nibbles: the shift works on 16-bit lanes, the mask removes what crosses a byte.\<close>

lemma and_set1: "length r = 16 \<Longrightarrow> mm_and_si128 r (mm_set1_epi8 v) = map (\<lambda>b. b AND v) r"
  by (simp add: mm_and_si128_def mm_set1_epi8_def zip_replicate2)

lemma nibble_pair:
  fixes lo hi :: u8
  shows "map (\<lambda>b. b AND 0xF) (bytes_of_word 2 (drop_bit 4 (word_of_bytes [lo, hi] :: u16)))
    = [drop_bit 4 lo AND 0xF, drop_bit 4 hi AND 0xF]"
proof -
  have m: "(0xF :: u8) = mask 4" by (simp add: mask_eq_exp_minus_1)
  show ?thesis unfolding m bytes_of_word_def upt_small
    by (simp, intro conjI bit_word_eqI) (auto simp: bit_simps dest: bit_imp_le_length)
qed

lemma srli_nibbles: "even (length r) \<Longrightarrow> map (\<lambda>b. b AND 0xF) (mm_srli_epi16 r 4) = map (\<lambda>b. drop_bit 4 b AND 0xF) r"
  by (induction r "4 :: nat" rule: mm_srli_epi16.induct) (simp_all only: mm_srli_epi16.simps map_append nibble_pair, simp_all)

lemma length_srli: "length (mm_srli_epi16 r n) = length r"
  by (induction r n rule: mm_srli_epi16.induct) simp_all

definition nibble_row :: "nat list list \<Rightarrow> bytes \<Rightarrow> nat \<Rightarrow> u8 list" where
  "nibble_row t data y =
     map (\<lambda>e. (if even e then data (e div 2) else drop_bit 4 (data (e div 2))) AND 0xF) (t ! y)"

lemma block_row_4:
  assumes "c < 4"
  shows "let w0123 = mm_loadu_si128 data (64 * c); w4567 = mm_loadu_si128 data (64 * c + 16);
      w89AB = mm_loadu_si128 data (64 * c + 32); wCDEF = mm_loadu_si128 data (64 * c + 48);
      b0145 = mm_shuffle_epi8 (mm_unpacklo_epi64 w0123 w4567) mask4;
      b89CD = mm_shuffle_epi8 (mm_unpacklo_epi64 w89AB wCDEF) mask4;
      b2367 = mm_shuffle_epi8 (mm_unpackhi_epi64 w0123 w4567) mask4;
      bABEF = mm_shuffle_epi8 (mm_unpackhi_epi64 w89AB wCDEF) mask4;
      low = map (\<lambda>b. b AND 0xF); high = map (\<lambda>b. drop_bit 4 b AND 0xF);
      (row0l, row0r, row1l, row1r, row2l, row2r, row3l, row3r) =
       (if (of_nat c :: u32) AND 1 = 0
        then (low (mm_unpacklo_epi32 b0145 b89CD), low (mm_unpackhi_epi32 b0145 b89CD),
              low (mm_unpacklo_epi32 b2367 bABEF), low (mm_unpackhi_epi32 b2367 bABEF),
              high (mm_unpacklo_epi32 b89CD b0145), high (mm_unpackhi_epi32 b89CD b0145),
              high (mm_unpacklo_epi32 bABEF b2367), high (mm_unpackhi_epi32 bABEF b2367))
        else (low (mm_unpacklo_epi32 b89CD b0145), low (mm_unpackhi_epi32 b89CD b0145),
              low (mm_unpacklo_epi32 bABEF b2367), low (mm_unpackhi_epi32 bABEF b2367),
              high (mm_unpacklo_epi32 b0145 b89CD), high (mm_unpackhi_epi32 b0145 b89CD),
              high (mm_unpacklo_epi32 b2367 bABEF), high (mm_unpackhi_epi32 b2367 bABEF)))
     in row0l @ row0r = nibble_row ColumnTable4 data (4 * c)
      \<and> row1l @ row1r = nibble_row ColumnTable4 data (4 * c + 1)
      \<and> row2l @ row2r = nibble_row ColumnTable4 data (4 * c + 2)
      \<and> row3l @ row3r = nibble_row ColumnTable4 data (4 * c + 3)"
  using assms unfolding nat_less_4
  by (elim disjE; simp add: Let_def load16 unpack_defs mm_shuffle_epi8_def mask4_def nibble_row_def
      ColumnTable4_def flip: numeral_2_eq_2)

section \<open>The block readouts\<close>

lemma column_ptr_eq:
  assumes "c < 4"
  shows "column_ptr ba (of_nat c) = 256 * (unat ba mod 2 ^ 14) + 64 * c"
proof -
  have m: "(0x3FFF :: u32) = mask 14" by (simp add: mask_eq_exp_minus_1)
  have "unat (ba AND 0x3FFF) = unat ba mod 2 ^ 14"
    unfolding m by (simp add: take_bit_eq_mask [symmetric] take_bit_eq_mod unat_mod_distrib)
  then have "src_block_word_address ba + 16 * of_nat c = of_nat ((unat ba mod 2 ^ 14) * 64 + 16 * c)"
    by (simp add: src_block_word_address_def) (metis of_nat_unat ucast_id)
  moreover have "(unat ba mod 2 ^ 14) * 64 + 16 * c < 2 ^ 32"
    using assms mod_less_divisor [of "2 ^ 14" "unat ba"] by simp
  ultimately have "unat (src_block_word_address ba + 16 * of_nat c) = (unat ba mod 2 ^ 14) * 64 + 16 * c"
    by (simp only: unat_of_nat) simp
  then show ?thesis by (simp add: column_ptr_def)
qed

definition block_data :: "bytes \<Rightarrow> u32 \<Rightarrow> bytes" where
  "block_data data ba = (\<lambda>j. data (256 * (unat ba mod 2 ^ 14) + j))"

lemma column_loads:
  assumes "c < 4"
  shows "mm_loadu_si128 data (column_ptr ba (of_nat c)) = mm_loadu_si128 (block_data data ba) (64 * c)"
    "mm_loadu_si128 data (column_ptr ba (of_nat c) + n) = mm_loadu_si128 (block_data data ba) (64 * c + n)"
  unfolding column_ptr_eq [OF assms] add.assoc block_data_def by (rule load_rebase)+

lemma fold_columns:
  assumes "\<And>c out. c < 4 \<Longrightarrow> step (of_nat c) out = blit ptr P 0 (h * c) w h (\<lambda>k r. g (h * c + r) ! k) out"
    and "H = 4 * h"
  shows "fold step [0, 1, 2, 3 :: u32] out = blit ptr P 0 0 w H (\<lambda>k y. g y ! k) out"
proof -
  have "fold step [0, 1, 2, 3] out = fold (\<lambda>c. step (of_nat c)) [0..<4] out"
    by (simp add: upt_small)
  also have "\<dots> = fold (\<lambda>c. blit ptr P 0 (0 + h * c) w h (\<lambda>k r. g (h * c + r) ! k)) [0..<4] out"
    by (rule fold_cong) (auto simp: assms(1))
  finally show ?thesis unfolding tile_rows by (simp add: mult.commute assms(2))
qed

lemma row_lengths:
  "length a = 16 \<Longrightarrow> length b = 16 \<Longrightarrow> length (mm_unpacklo_epi64 a b) = 16"
  "length a = 16 \<Longrightarrow> length b = 16 \<Longrightarrow> length (mm_unpackhi_epi64 a b) = 16"
  "length a = 16 \<Longrightarrow> length b = 16 \<Longrightarrow> length (mm_unpacklo_epi32 a b) = 16"
  "length a = 16 \<Longrightarrow> length b = 16 \<Longrightarrow> length (mm_unpackhi_epi32 a b) = 16"
  "length (mm_loadu_si128 data p) = 16" "length (mm_shuffle_epi8 a m) = length m"
  by (simp_all add: unpack_defs mm_loadu_si128_def mm_shuffle_epi8_def)

lemma store_pair:
  fixes pitch :: u32
  assumes "unat pitch < 2 ^ 24" "32 \<le> unat pitch" "n \<le> 200" "length l = 16" "length r = 16"
  shows "mm_storeu_si128 (ptr + unat (of_nat n * pitch + 16)) r
      (mm_storeu_si128 (ptr + unat (of_nat n * pitch + 0)) l out)
    = blit ptr (unat pitch) 0 n 32 1 (\<lambda>k _. (l @ r) ! k) out"
  using row_pair [OF assms(4,5,2), of ptr n out] unat_offsets(1) [OF assms(1,3)] unat_offsets(2) [OF assms(1,3), of 16]
  by (simp add: mm_storeu_si128_def)

text \<open>Two rows of two registers each, as the 32-bit and 16-bit readouts store them.\<close>

lemma store_two_rows:
  fixes pitch :: u32
  assumes "unat pitch < 2 ^ 24" "32 \<le> unat pitch" "c < 4"
    and "length l0 = 16" "length r0 = 16" "length l1 = 16" "length r1 = 16"
    and "l0 @ r0 = g (2 * c)" "l1 @ r1 = g (2 * c + 1)"
  shows "mm_storeu_si128 (ptr + unat ((2 * of_nat c + 1) * pitch + 16)) r1
      (mm_storeu_si128 (ptr + unat ((2 * of_nat c + 1) * pitch + 0)) l1
        (mm_storeu_si128 (ptr + unat ((2 * of_nat c + 0) * pitch + 16)) r0
          (mm_storeu_si128 (ptr + unat ((2 * of_nat c + 0) * pitch + 0)) l0 out)))
    = blit ptr (unat pitch) 0 (2 * c) 32 2 (\<lambda>k r. g (2 * c + r) ! k) out"
proof -
  have n: "(2 * of_nat c + 0 :: u32) = of_nat (2 * c)" "(2 * of_nat c + 1 :: u32) = of_nat (2 * c + 1)"
    by simp_all
  have y: "2 * c \<le> 200" "2 * c + 1 \<le> 200" using assms(3) by simp_all
  show ?thesis
    unfolding n store_pair [OF assms(1,2) y(1) assms(4,5)] store_pair [OF assms(1,2) y(2) assms(6,7)]
      assms(8,9) by (rule stack_rows(1))
qed

lemma ReadBlock32_blit:
  assumes "unat pitch < 2 ^ 24" "32 \<le> unat pitch"
  shows "ReadBlockToLinearBuffer32 out ptr pitch data ba
    = blit ptr (unat pitch) 0 0 32 8 (\<lambda>k y. block_row 4 ColumnTable32 (block_data data ba) y ! k) out"
  unfolding ReadBlockToLinearBuffer32_def
proof (rule fold_columns [where h = 2], goal_cases)
  case (1 c out)
  show ?case
    unfolding Let_def comp_def column_loads [OF 1]
    using block_row_32 [OF 1] by (intro store_two_rows [OF assms 1]) (simp_all add: row_lengths)
qed simp

lemma ReadBlock16_blit:
  assumes "unat pitch < 2 ^ 24" "32 \<le> unat pitch"
  shows "ReadBlockToLinearBuffer16 out ptr pitch data ba
    = blit ptr (unat pitch) 0 0 32 8 (\<lambda>k y. block_row 2 ColumnTable16 (block_data data ba) y ! k) out"
  unfolding ReadBlockToLinearBuffer16_def
proof (rule fold_columns [where h = 2], goal_cases)
  case (1 c out)
  have m: "length mask16 = 16" by (simp add: mask16_def)
  show ?case
    unfolding Let_def comp_def column_loads [OF 1]
    using block_row_16 [OF 1, unfolded Let_def]
    by (intro store_two_rows [OF assms 1]) (simp_all add: row_lengths m)
qed simp

text \<open>Four rows, as the 8-bit and 4-bit readouts store them.\<close>

lemma row_address:
  fixes pitch :: u32
  assumes "unat pitch < 2 ^ 24" "c < 4"
  shows "unat (4 * of_nat c * pitch) = 4 * c * unat pitch" "unat (0 * pitch) = 0"
    "unat (1 * pitch) = unat pitch" "unat (2 * pitch) = 2 * unat pitch" "unat (3 * pitch) = 3 * unat pitch"
    "unat (0 * pitch + 16) = 16" "unat (1 * pitch + 16) = unat pitch + 16"
    "unat (2 * pitch + 16) = 2 * unat pitch + 16" "unat (3 * pitch + 16) = 3 * unat pitch + 16"
  using unat_offsets(1) [OF assms(1), of "4 * c"] unat_offsets(1) [OF assms(1), of 2]
    unat_offsets(1) [OF assms(1), of 3] unat_offsets(2) [OF assms(1), of 1 16]
    unat_offsets(2) [OF assms(1), of 2 16] unat_offsets(2) [OF assms(1), of 3 16] assms(2)
  by simp_all

lemma ReadBlock8_blit:
  assumes "unat pitch < 2 ^ 24" "16 \<le> unat pitch"
  shows "ReadBlockToLinearBuffer8 out ptr pitch data ba
    = blit ptr (unat pitch) 0 0 16 16 (\<lambda>k y. block_row 1 ColumnTable8 (block_data data ba) y ! k) out"
  unfolding ReadBlockToLinearBuffer8_def
proof (rule fold_columns [where h = 4], goal_cases)
  case (1 c out)
  let ?g = "block_row 1 ColumnTable8 (block_data data ba)"
  have store: "mm_storeu_si128 (ptr + (n * unat pitch + 0)) r out
      = blit ptr (unat pitch) 0 n 16 1 (\<lambda>k _. r ! k) out" if "length r = 16" for n r out
    using copy_in_blit [of r 16 0 "unat pitch" ptr n] that assms(2) by (simp add: mm_storeu_si128_def)
  have len: "length (?g (4 * c)) = 16" "length (?g (4 * c + 1)) = 16" "length (?g (4 * c + 2)) = 16"
    "length (?g (4 * c + 3)) = 16"
    using 1 unfolding nat_less_4 by (elim disjE; simp add: block_row_def ColumnTable8_def)+
  have at: "ptr + 4 * c * unat pitch + 0 = ptr + (4 * c * unat pitch + 0)"
    "ptr + 4 * c * unat pitch + unat pitch = ptr + ((4 * c + 1) * unat pitch + 0)"
    "ptr + 4 * c * unat pitch + 2 * unat pitch = ptr + ((4 * c + 2) * unat pitch + 0)"
    "ptr + 4 * c * unat pitch + 3 * unat pitch = ptr + ((4 * c + 3) * unat pitch + 0)"
    by (simp_all add: algebra_simps)
  show ?case
    unfolding Let_def comp_def column_loads [OF 1] block_row_8 [OF 1, unfolded Let_def] prod.case
      row_address [OF assms(1) 1] at store [OF len(1)] store [OF len(2)] store [OF len(3)] store [OF len(4)]
    by (rule stack_rows(2))
qed simp

lemma store_four_pairs:
  fixes pitch :: u32
  assumes "unat pitch < 2 ^ 24" "32 \<le> unat pitch" "c < 4"
    and "length l0 = 16" "length r0 = 16" "length l1 = 16" "length r1 = 16"
    "length l2 = 16" "length r2 = 16" "length l3 = 16" "length r3 = 16"
    and "l0 @ r0 = g (4 * c)" "l1 @ r1 = g (4 * c + 1)" "l2 @ r2 = g (4 * c + 2)" "l3 @ r3 = g (4 * c + 3)"
  shows "mm_storeu_si128 (ptr + unat (4 * of_nat c * pitch) + unat (3 * pitch + 16)) r3
      (mm_storeu_si128 (ptr + unat (4 * of_nat c * pitch) + unat (3 * pitch + 0)) l3
      (mm_storeu_si128 (ptr + unat (4 * of_nat c * pitch) + unat (2 * pitch + 16)) r2
      (mm_storeu_si128 (ptr + unat (4 * of_nat c * pitch) + unat (2 * pitch + 0)) l2
      (mm_storeu_si128 (ptr + unat (4 * of_nat c * pitch) + unat (1 * pitch + 16)) r1
      (mm_storeu_si128 (ptr + unat (4 * of_nat c * pitch) + unat (1 * pitch + 0)) l1
      (mm_storeu_si128 (ptr + unat (4 * of_nat c * pitch) + unat (0 * pitch + 16)) r0
      (mm_storeu_si128 (ptr + unat (4 * of_nat c * pitch) + unat (0 * pitch + 0)) l0 out)))))))
    = blit ptr (unat pitch) 0 (4 * c) 32 4 (\<lambda>k r. g (4 * c + r) ! k) out"
proof -
  have pair: "mm_storeu_si128 (ptr + 4 * c * unat pitch + (n * unat pitch + 16)) r
      (mm_storeu_si128 (ptr + 4 * c * unat pitch + n * unat pitch) l out)
      = blit ptr (unat pitch) 0 (4 * c + n) 32 1 (\<lambda>k _. (l @ r) ! k) out"
    if "length l = 16" "length r = 16" for n l r out
    using row_pair [OF that assms(2), of ptr "4 * c + n" out]
    by (simp add: mm_storeu_si128_def algebra_simps)
  note pairs = pair [OF assms(4,5), of 0, simplified] pair [OF assms(6,7), of 1, simplified]
    pair [OF assms(8,9), of 2] pair [OF assms(10,11), of 3]
  show ?thesis
    using stack_rows(2) [of ptr "unat pitch" 0 "4 * c" 32 g out]
    by (simp add: row_address [OF assms(1,3), simplified] pairs assms(12-15))
qed

lemma ReadBlock4_blit:
  assumes "unat pitch < 2 ^ 24" "32 \<le> unat pitch"
  shows "ReadBlockToLinearBuffer4 out ptr pitch data ba
    = blit ptr (unat pitch) 0 0 32 16 (\<lambda>k y. nibble_row ColumnTable4 (block_data data ba) y ! k) out"
  unfolding ReadBlockToLinearBuffer4_def
proof (rule fold_columns [where h = 4], goal_cases)
  case (1 c out)
  have m: "length mask4 = 16" by (simp add: mask4_def)
  note rows = block_row_4 [OF 1, of "block_data data ba", unfolded Let_def]
  note regs = row_lengths m and_set1 srli_nibbles length_srli
  show ?case
  proof (cases "(of_nat c :: u32) AND 1 = 0")
    case True
    show ?thesis
      unfolding Let_def comp_def column_loads [OF 1] if_P [OF True] prod.case
      using rows [unfolded if_P [OF True] prod.case]
      by (intro store_four_pairs [OF assms 1]) (simp_all add: regs)
  next
    case False
    show ?thesis
      unfolding Let_def comp_def column_loads [OF 1] if_not_P [OF False] prod.case
      using rows [unfolded if_not_P [OF False] prod.case]
      by (intro store_four_pairs [OF assms 1]) (simp_all add: regs)
  qed
qed simp

end
