(* ===== verification/GSReadoutProps.thy ===== *)
theory GSReadoutProps
  imports GSReadout
begin

text \<open>
  The unswizzling readouts against the pixel accessors: a page readout, and the readout of a
  rectangle of pages, give the bytes that reading the same pixels one by one gives.
\<close>

section \<open>Bytes of a pixel\<close>

definition out_bytes :: "PixelStorageMode \<Rightarrow> nat" where
  "out_bytes l = (if l = P4 then 1 else UnpackedBitWidth l div 8)"

definition pixel_out :: "PixelStorageMode \<Rightarrow> bytes \<Rightarrow> u32 \<Rightarrow> nat \<Rightarrow> u8" where
  "pixel_out l data a j = bytes_of_word (out_bytes l) (Read l data a) ! j"

lemma layout_cases:
  assumes "is_layout l"
  obtains (w32) "l = C32 \<or> l = Z32" | (w16) "l = C16 \<or> l = C16S \<or> l = Z16 \<or> l = Z16S" | (w8) "l = P8" | (w4) "l = P4"
  using assms by (auto simp: is_layout_def)

lemma layout_valid: "is_layout l \<Longrightarrow> IsValidPsm l"
  by (auto simp: is_layout_def IsValidPsm_def)

lemma layout_offset: "is_layout l \<Longrightarrow> BitOffset l = 0 \<and> BitsPerPixel l = UnpackedBitWidth l"
  by (auto simp: is_layout_def)

lemma pixel_pos_of_nat:
  assumes "is_layout l"
  shows "pixel_pos l (unat (of_nat A :: u32)) = A * UnpackedBitWidth l mod 2 ^ 25"
  using pixel_pos_mod [OF layout_valid [OF assms], of A] layout_offset [OF assms]
  by (simp add: unat_of_nat pixel_pos_def)

lemma block_pos:
  assumes "is_layout l" "e < PixelsPerBlock l"
  shows "pixel_pos l (unat (of_nat (b * PixelsPerBlock l + e) :: u32))
    = 2048 * (b mod 2 ^ 14) + e * UnpackedBitWidth l"
proof -
  have "e * UnpackedBitWidth l < PixelsPerBlock l * UnpackedBitWidth l"
    using assms width_facts(3) [OF layout_valid [OF assms(1)]] by simp
  then have e: "e * UnpackedBitWidth l < 2048" using layout_extents(5) [OF assms(1)] by simp
  have "(b * PixelsPerBlock l + e) * UnpackedBitWidth l = 2048 * b + e * UnpackedBitWidth l"
    using layout_extents(5) [OF assms(1)] by (simp add: add_mult_distrib mult.assoc mult.commute [of 2048])
  also have "\<dots> mod 2 ^ 25 = 2048 * (b mod 2 ^ 14) + e * UnpackedBitWidth l"
    using mod_mult2_eq [of "2048 * b + e * UnpackedBitWidth l" 2048 "2 ^ 14"] e by simp
  finally show ?thesis unfolding pixel_pos_of_nat [OF assms(1)] .
qed

lemma mem_bit_byte: "k < 8 \<Longrightarrow> mem_bit d (8 * q + k) = bit (d q) k"
  by (simp add: mem_bit_def)

lemma pixel_out_byte:
  assumes "is_layout l" "l \<noteq> P4" "e < PixelsPerBlock l" "j < out_bytes l"
  shows "pixel_out l data (of_nat (unat ba * PixelsPerBlock l + e)) j = block_data data ba (out_bytes l * e + j)"
proof (rule bit_word_eqI)
  fix i assume i: "i < LENGTH(8)"
  have n: "UnpackedBitWidth l = 8 * out_bytes l" using assms(1,2) by (auto simp: is_layout_def out_bytes_def)
  have lt: "8 * j + i < UnpackedBitWidth l" using assms(4) i by (simp add: n)
  have "bit (pixel_out l data (of_nat (unat ba * PixelsPerBlock l + e)) j) i
      = bit (Read l data (of_nat (unat ba * PixelsPerBlock l + e))) (8 * j + i)"
    using assms(4) i by (simp add: pixel_out_def nth_bytes_of_word bit_simps del: of_nat_add of_nat_mult)
  also have "\<dots> = mem_bit data (2048 * (unat ba mod 2 ^ 14) + e * UnpackedBitWidth l + (8 * j + i))"
    using lt layout_offset [OF assms(1)]
    by (simp only: bit_Read [OF layout_valid [OF assms(1)]] block_pos [OF assms(1,3)]) simp
  also have "2048 * (unat ba mod 2 ^ 14) + e * UnpackedBitWidth l + (8 * j + i)
      = 8 * (256 * (unat ba mod 2 ^ 14) + (out_bytes l * e + j)) + i"
    by (simp add: n algebra_simps)
  also have "mem_bit data \<dots> = bit (block_data data ba (out_bytes l * e + j)) i"
    unfolding block_data_def by (rule mem_bit_byte) (use i in simp)
  finally show "bit (pixel_out l data (of_nat (unat ba * PixelsPerBlock l + e)) j) i
    = bit (block_data data ba (out_bytes l * e + j)) i" .
qed

lemma pixel_out_nibble:
  assumes "e < PixelsPerBlock P4"
  shows "pixel_out P4 data (of_nat (unat ba * PixelsPerBlock P4 + e)) 0
    = (if even e then block_data data ba (e div 2) else drop_bit 4 (block_data data ba (e div 2))) AND 0xF"
proof (rule bit_word_eqI)
  fix i assume i: "i < LENGTH(8)"
  have l: "is_layout P4" by (simp add: is_layout_def)
  have m: "(0xF :: u8) = mask 4" by (simp add: mask_eq_exp_minus_1)
  have nib: "e * 4 = 8 * (e div 2) + 4 * (e mod 2)" by presburger
  have "bit (pixel_out P4 data (of_nat (unat ba * PixelsPerBlock P4 + e)) 0) i
      = bit (Read P4 data (of_nat (unat ba * PixelsPerBlock P4 + e))) i"
    using i by (simp add: pixel_out_def out_bytes_def nth_bytes_of_word bit_simps del: of_nat_add of_nat_mult)
  also have "\<dots> = (i < 4 \<and> mem_bit data (2048 * (unat ba mod 2 ^ 14) + e * 4 + i))"
    using layout_offset [OF l] by (simp only: bit_Read [OF layout_valid [OF l]] block_pos [OF l assms]) simp
  also have "2048 * (unat ba mod 2 ^ 14) + e * 4 + i
      = 8 * (256 * (unat ba mod 2 ^ 14) + e div 2) + (4 * (e mod 2) + i)"
    using nib by (simp add: algebra_simps)
  also have "(i < 4 \<and> mem_bit data \<dots>) = bit ((if even e then block_data data ba (e div 2)
      else drop_bit 4 (block_data data ba (e div 2))) AND 0xF) i"
  proof (cases "i < 4")
    case True
    then have "mem_bit data (8 * (256 * (unat ba mod 2 ^ 14) + e div 2) + (4 * (e mod 2) + i))
        = bit (block_data data ba (e div 2)) (4 * (e mod 2) + i)"
      by (subst mem_bit_byte) (auto simp: block_data_def mod_2_eq_odd)
    with True show ?thesis by (simp add: m bit_simps mod_2_eq_odd)
  qed (simp add: m bit_simps)
  finally show "bit (pixel_out P4 data (of_nat (unat ba * PixelsPerBlock P4 + e)) 0) i
    = bit ((if even e then block_data data ba (e div 2) else drop_bit 4 (block_data data ba (e div 2))) AND 0xF) i" .
qed

section \<open>Blocks\<close>

fun read_block :: "PixelStorageMode \<Rightarrow> bytes \<Rightarrow> nat \<Rightarrow> u32 \<Rightarrow> bytes \<Rightarrow> u32 \<Rightarrow> bytes" where
  "read_block C32 = ReadBlockToLinearBuffer32" | "read_block Z32 = ReadBlockToLinearBuffer32"
| "read_block P8 = ReadBlockToLinearBuffer8" | "read_block P4 = ReadBlockToLinearBuffer4"
| "read_block _ = ReadBlockToLinearBuffer16"

lemma nth_block_row:
  assumes "x < length (t ! y)" "j < n"
  shows "block_row n t d y ! (x * n + j) = d (n * (t ! y ! x) + j)"
  using concat_uniform(2) [of n "map (\<lambda>e. map (\<lambda>j. d (n * e + j)) [0..<n]) (t ! y)" j x] assms
  by (simp add: block_row_def list_all_iff)

lemma column_table_size:
  assumes "is_layout l" "y < snd (ColumnExtent l)"
  shows "length (column_table l ! y) = fst (ColumnExtent l)"
  using layout_tables(2) [OF assms(1)] assms(2) by (auto simp: enumerates_def list_all_length)

lemma column_entry_less:
  assumes "is_layout l" "x < fst (ColumnExtent l)" "y < snd (ColumnExtent l)"
  shows "column_table l ! y ! x < PixelsPerBlock l"
  using ColumnId_less [OF assms(1), of x y] assms by (simp add: ColumnId_def)

text \<open>A row of the block readout holds the pixels of that row.\<close>

definition block_pixels :: "PixelStorageMode \<Rightarrow> bytes \<Rightarrow> u32 \<Rightarrow> nat \<Rightarrow> nat \<Rightarrow> u8" where
  "block_pixels l data ba k y =
     pixel_out l data (of_nat (unat ba * PixelsPerBlock l + column_table l ! y ! (k div out_bytes l))) (k mod out_bytes l)"

lemma block_row_pixels:
  assumes "is_layout l" "l \<noteq> P4" "k < fst (ColumnExtent l) * out_bytes l" "y < snd (ColumnExtent l)"
  shows "block_row (out_bytes l) (column_table l) (block_data data ba) y ! k = block_pixels l data ba k y"
proof -
  let ?n = "out_bytes l"
  have n: "0 < ?n" using assms(1) by (auto simp: is_layout_def out_bytes_def)
  have x: "k div ?n < fst (ColumnExtent l)" using assms(3) by (simp add: less_mult_imp_div_less)
  have "block_row ?n (column_table l) (block_data data ba) y ! (k div ?n * ?n + k mod ?n)
      = block_data data ba (?n * (column_table l ! y ! (k div ?n)) + k mod ?n)"
    using x n column_table_size [OF assms(1,4)] by (intro nth_block_row) simp_all
  also have "\<dots> = block_pixels l data ba k y"
    using n unfolding block_pixels_def
    by (intro pixel_out_byte [symmetric, OF assms(1,2) column_entry_less [OF assms(1) x assms(4)]]) simp
  finally show ?thesis by simp
qed

lemma nibble_row_pixels:
  assumes "k < 32" "y < 16"
  shows "nibble_row ColumnTable4 (block_data data ba) y ! k = block_pixels P4 data ba k y"
proof -
  have l: "is_layout P4" by (simp add: is_layout_def)
  have "length (ColumnTable4 ! y) = 32" using column_table_size [OF l] assms(2) by simp
  then have "nibble_row ColumnTable4 (block_data data ba) y ! k
      = (let e = ColumnTable4 ! y ! k in
         (if even e then block_data data ba (e div 2) else drop_bit 4 (block_data data ba (e div 2))) AND 0xF)"
    using assms(1) by (simp add: nibble_row_def Let_def)
  also have "\<dots> = pixel_out P4 data (of_nat (unat ba * PixelsPerBlock P4 + ColumnTable4 ! y ! k)) 0"
    unfolding Let_def
    by (rule pixel_out_nibble [symmetric]) (use column_entry_less [OF l, of k y] assms in simp)
  finally show ?thesis by (simp add: block_pixels_def out_bytes_def)
qed

lemma read_block_blit:
  assumes "is_layout l" "unat pitch < 2 ^ 24" "fst (ColumnExtent l) * out_bytes l \<le> unat pitch"
  shows "read_block l out ptr pitch data ba
    = blit ptr (unat pitch) 0 0 (fst (ColumnExtent l) * out_bytes l) (snd (ColumnExtent l))
        (block_pixels l data ba) out"
proof -
  have "read_block l out ptr pitch data ba
    = blit ptr (unat pitch) 0 0 (fst (ColumnExtent l) * out_bytes l) (snd (ColumnExtent l))
        (\<lambda>k y. (if l = P4 then nibble_row ColumnTable4 (block_data data ba) y
               else block_row (out_bytes l) (column_table l) (block_data data ba) y) ! k) out"
    using assms(1)
  proof (cases rule: layout_cases)
    case w4
    with assms(2,3) show ?thesis by (simp add: ReadBlock4_blit out_bytes_def)
  qed (use assms(2,3) in \<open>auto simp: ReadBlock32_blit ReadBlock16_blit ReadBlock8_blit out_bytes_def\<close>)
  also have "\<dots> = blit ptr (unat pitch) 0 0 (fst (ColumnExtent l) * out_bytes l) (snd (ColumnExtent l))
        (block_pixels l data ba) out"
  proof (rule fun_cong [OF blit_cong])
    fix k y assume ky: "k < fst (ColumnExtent l) * out_bytes l" "y < snd (ColumnExtent l)"
    show "(if l = P4 then nibble_row ColumnTable4 (block_data data ba) y
        else block_row (out_bytes l) (column_table l) (block_data data ba) y) ! k = block_pixels l data ba k y"
    proof (cases "l = P4")
      case True
      with ky show ?thesis by (simp add: nibble_row_pixels out_bytes_def)
    qed (simp add: block_row_pixels [OF assms(1) _ ky])
  qed
  finally show ?thesis .
qed

section \<open>Pages\<close>

fun read_page :: "PixelStorageMode \<Rightarrow> bytes \<Rightarrow> nat \<Rightarrow> u32 \<Rightarrow> bytes \<Rightarrow> u32 \<Rightarrow> bytes" where
  "read_page C32 = ReadPageToLinearBufferCT32" | "read_page Z32 = ReadPageToLinearBufferZ32"
| "read_page C16 = ReadPageToLinearBufferCT16" | "read_page C16S = ReadPageToLinearBufferCT16S"
| "read_page Z16 = ReadPageToLinearBufferZ16" | "read_page Z16S = ReadPageToLinearBufferZ16S"
| "read_page P8 = ReadPageToLinearBufferP8" | "read_page P4 = ReadPageToLinearBufferP4"
| "read_page _ = (\<lambda>out ptr pitch data bp. out)"

lemmas read_page_defs = ReadPageToLinearBufferCT32_def ReadPageToLinearBufferZ32_def
  ReadPageToLinearBufferCT16_def ReadPageToLinearBufferCT16S_def ReadPageToLinearBufferZ16_def
  ReadPageToLinearBufferZ16S_def ReadPageToLinearBufferP8_def ReadPageToLinearBufferP4_def

lemma read_page_eq:
  assumes "is_layout l"
  shows "read_page l out ptr pitch data bp =
     for_blocks (BlockExtent l) (\<lambda>row col out.
       read_block l out (ptr + unat (of_nat (row * snd (ColumnExtent l)) * pitch
                                     + of_nat (col * (fst (ColumnExtent l) * out_bytes l)))) pitch data
         (bp + of_nat (block_table l ! row ! col))) out"
  using assms by (auto simp: is_layout_def read_page_defs out_bytes_def Let_def mult.assoc)

lemma for_blocks_tile:
  assumes "\<And>row col out. row < m \<Longrightarrow> col < n \<Longrightarrow>
      body row col out = blit ptr P (w * col) (h * row) w h (F row col) out"
  shows "for_blocks (n, m) body out
    = blit ptr P 0 0 (w * n) (h * m) (\<lambda>k y. F (y div h) (k div w) (k mod w) (y mod h)) out"
proof -
  have cols: "fold (\<lambda>col. blit ptr P (0 + w * col) (h * row) w h (F row col)) [0..<n]
      = blit ptr P 0 (h * row) (w * n) h (\<lambda>k r. F row (k div w) (k mod w) r)" for row
    by (rule ext) (rule tile_cols)
  have "for_blocks (n, m) body out
      = fold (\<lambda>row. fold (\<lambda>col. blit ptr P (0 + w * col) (h * row) w h (F row col)) [0..<n]) [0..<m] out"
    unfolding for_blocks_def fst_conv snd_conv
  proof (rule fold_cong [OF refl refl], rule ext)
    fix row out assume "row \<in> set [0..<m]"
    then show "fold (body row) [0..<n] out
        = fold (\<lambda>col. blit ptr P (0 + w * col) (h * row) w h (F row col)) [0..<n] out"
      by (intro fold_cong) (auto simp: assms)
  qed
  also have "\<dots> = fold (\<lambda>row. blit ptr P 0 (0 + h * row) (w * n) h (\<lambda>k r. F row (k div w) (k mod w) r)) [0..<m] out"
    unfolding cols by simp
  finally show ?thesis unfolding tile_rows .
qed

text \<open>The bytes of the pixel at byte \<open>k\<close> of row \<open>y\<close> of a buffer, read one at a time.\<close>

definition buffer_pixels :: "PixelStorageMode \<Rightarrow> bytes \<Rightarrow> u32 \<Rightarrow> u32 \<Rightarrow> nat \<Rightarrow> nat \<Rightarrow> u8" where
  "buffer_pixels l data bp bw k y =
     bytes_of_word (out_bytes l) (read_pixel l data bp bw (of_nat (k div out_bytes l)) (of_nat y))
       ! (k mod out_bytes l)"

lemma layout_self: "is_layout l \<Longrightarrow> layout l = l"
  by (auto simp: is_layout_def)

lemma buffer_pixels_out:
  "is_layout l \<Longrightarrow> buffer_pixels l data bp bw k y
    = pixel_out l data (pixel_address l bp bw (of_nat (k div out_bytes l)) (of_nat y)) (k mod out_bytes l)"
  by (simp add: buffer_pixels_def pixel_out_def read_pixel_eq layout_valid layout_self)

lemma out_bytes_pos: "is_layout l \<Longrightarrow> 0 < out_bytes l \<and> out_bytes l \<le> 4"
  by (auto simp: is_layout_def out_bytes_def)

lemma page_tile_address:
  assumes l: "is_layout l" and bw: "unat bw < 2 ^ 26"
    and k: "k < fst (PageExtent l) * out_bytes l" and y: "y < snd (PageExtent l)"
  shows "pixel_address l bp bw (of_nat (k div out_bytes l)) (of_nat y)
    = of_nat (unat (bp + of_nat (block_table l ! (y div snd (ColumnExtent l))
          ! (k div (fst (ColumnExtent l) * out_bytes l)))) * PixelsPerBlock l
        + column_table l ! (y mod snd (ColumnExtent l))
          ! (k mod (fst (ColumnExtent l) * out_bytes l) div out_bytes l))"
proof -
  let ?n = "out_bytes l" and ?cx = "fst (ColumnExtent l)" and ?cy = "snd (ColumnExtent l)"
  define x where "x = k div ?n"
  note e = layout_extents [OF l]
  have x: "x < fst (PageExtent l)" using k by (simp add: x_def less_mult_imp_div_less)
  have small: "fst (PageExtent l) < 2 ^ 32" "snd (PageExtent l) < 2 ^ 32"
    using l by (auto simp: is_layout_def)
  have u: "unat (of_nat x :: u32) = x" "unat (of_nat y :: u32) = y"
    using x y small by (simp_all add: unat_of_nat)
  have blk: "y div ?cy < snd (BlockExtent l)" "x div ?cx < fst (BlockExtent l)"
    using x y e(1,2) by (simp_all add: less_mult_imp_div_less mult.commute)
  have ids: "BlockId l (block_table l) x y = block_table l ! (y div ?cy) ! (x div ?cx)"
    "ColumnId l (column_table l) x y = column_table l ! (y mod ?cy) ! (x mod ?cx)"
    using blk by (simp_all add: BlockId_def ColumnId_def)
  have xs: "k div (?cx * ?n) = x div ?cx" "k mod (?cx * ?n) div ?n = x mod ?cx"
    using out_bytes_pos [OF l] by (simp_all add: x_def div_mult2_eq mult.commute [of ?cx] mod_mult2_eq)
  have "pixel_address l bp bw (of_nat x) (of_nat y)
      = of_nat (unat bp * PixelsPerBlock l + page_offset l x y)"
    using x y by (simp only: pixel_address_linear [OF l bw] u) (simp add: linear_address_def)
  also have "\<dots> = of_nat (unat (bp + of_nat (BlockId l (block_table l) x y)) * PixelsPerBlock l
        + ColumnId l (column_table l) x y)"
    by (simp add: page_offset_def algebra_simps)
  finally show ?thesis unfolding xs ids x_def [symmetric] .
qed

lemma read_page_blit:
  assumes l: "is_layout l" and bw: "unat bw < 2 ^ 26"
    and pitch: "unat pitch < 2 ^ 24" "fst (PageExtent l) * out_bytes l \<le> unat pitch"
  shows "read_page l out ptr pitch data bp
    = blit ptr (unat pitch) 0 0 (fst (PageExtent l) * out_bytes l) (snd (PageExtent l))
        (buffer_pixels l data bp bw) out"
proof -
  obtain cx cy bx bys where ext: "ColumnExtent l = (cx, cy)" "BlockExtent l = (bx, bys)" by (metis surj_pair)
  note e = layout_extents [OF l, unfolded ext fst_conv snd_conv]
  let ?n = "out_bytes l" and ?P = "unat pitch"
  have body: "read_block l out (ptr + unat (of_nat (row * cy) * pitch + of_nat (col * (cx * ?n)))) pitch data
        (bp + of_nat (block_table l ! row ! col))
      = blit ptr ?P (cx * ?n * col) (cy * row) (cx * ?n) cy
          (block_pixels l data (bp + of_nat (block_table l ! row ! col))) out"
    if "row < bys" "col < bx" for row col out
  proof -
    have "Suc row * cy \<le> bys * cy" using that(1) by (intro mult_right_mono) simp_all
    moreover have "bys * cy \<le> 128" using l ext by (auto simp: is_layout_def)
    ultimately have r: "row * cy \<le> 200" by simp
    have "Suc col * (cx * ?n) \<le> bx * (cx * ?n)" using that(2) by (intro mult_right_mono) simp_all
    then have c: "col * (cx * ?n) + cx * ?n \<le> bx * (cx * ?n)" by simp
    moreover have "bx * (cx * ?n) \<le> 256" using l ext by (auto simp: is_layout_def out_bytes_def)
    ultimately have c': "col * (cx * ?n) < 2 ^ 16" by simp
    have w: "col * (cx * ?n) + 0 + cx * ?n \<le> ?P" using c pitch(2) by (simp add: e(1) ac_simps)
    have "cx * ?n \<le> ?P" using w by simp
    then show ?thesis
      using blit_shift [OF w, of ptr "row * cy" 0 cy]
      unfolding unat_offsets(2) [OF pitch(1) r c']
      by (simp add: read_block_blit [OF l pitch(1)] ext mult.commute)
  qed
  have "read_page l out ptr pitch data bp = blit ptr ?P 0 0 (cx * ?n * bx) (cy * bys)
      (\<lambda>k y. block_pixels l data (bp + of_nat (block_table l ! (y div cy) ! (k div (cx * ?n))))
               (k mod (cx * ?n)) (y mod cy)) out"
    unfolding read_page_eq [OF l] ext fst_conv snd_conv by (rule for_blocks_tile) (rule body)
  also have "\<dots> = blit ptr ?P 0 0 (cx * ?n * bx) (cy * bys) (buffer_pixels l data bp bw) out"
  proof (rule fun_cong [OF blit_cong])
    fix k y assume "k < cx * ?n * bx" "y < cy * bys"
    then have "k < fst (PageExtent l) * ?n" "y < snd (PageExtent l)" by (simp_all add: e(1,2) ac_simps)
    from page_tile_address [OF l bw this, of bp] show
      "block_pixels l data (bp + of_nat (block_table l ! (y div cy) ! (k div (cx * ?n)))) (k mod (cx * ?n)) (y mod cy)
        = buffer_pixels l data bp bw k y"
      by (simp add: buffer_pixels_out [OF l] block_pixels_def ext mod_mod_cancel)
  qed
  finally show ?thesis by (simp add: e(1,2) ac_simps)
qed

section \<open>Rectangles of pages\<close>

lemma page_grid_address:
  assumes "unat bw < 2 ^ 26" "x < 2 ^ 32" "y < 2 ^ 32"
  shows "pixel_address C32 bp bw (of_nat x) (of_nat y)
    = pixel_address C32 (bp + (of_nat (y div 32) * bw + of_nat (x div 64)) * 32) 1
        (of_nat (x mod 64)) (of_nat (y mod 32))"
proof -
  have l: "is_layout C32" by (simp add: is_layout_def)
  have u: "unat (of_nat x :: u32) = x" "unat (of_nat y :: u32) = y"
    "unat (of_nat (x mod 64) :: u32) = x mod 64" "unat (of_nat (y mod 32) :: u32) = y mod 32"
    using assms(2,3) by (simp_all add: unat_of_nat)
  have one: "unat (1 :: u32) < 2 ^ 26" by simp
  have c: "PixelsPerBlock C32 = 64" "PixelsPerPage C32 = 2048" by (simp_all add: PixelsPerBlock_def PixelsPerPage_def)
  show ?thesis
    unfolding pixel_address_linear [OF l assms(1)] pixel_address_linear [OF l one] u linear_address_def c
    by (simp add: algebra_simps)
qed

lemma ReadToLinearBufferCT32_blit:
  fixes pitch :: u32
  assumes bw: "unat bw < 2 ^ 26" and pitch: "unat pitch < 2 ^ 24"
    and w: "256 * (unat ex div 64) \<le> unat pitch"
    and h: "32 * (unat ey div 32) * unat pitch + 256 * (unat ex div 64) < 2 ^ 32"
  shows "ReadToLinearBufferCT32 out ptr pitch data bp bw (ex, ey)
    = blit ptr (unat pitch) 0 0 (256 * (unat ex div 64)) (32 * (unat ey div 32)) (buffer_pixels C32 data bp bw) out"
proof -
  define nx ny where "nx = unat ex div 64" and "ny = unat ey div 32"
  let ?P = "unat pitch" and ?base = "\<lambda>py px. bp + (of_nat py * bw + of_nat px) * 32"
  have l: "is_layout C32" by (simp add: is_layout_def)
  have one: "unat (1 :: u32) < 2 ^ 26" by simp
  have pages: "unat (ex div 64) = nx" "unat (ey div 32) = ny" by (simp_all add: nx_def ny_def unat_div)
  have body: "ReadPageToLinearBufferCT32 out
        (ptr + unat (of_nat py * 32 * pitch + of_nat px * 64 * 4)) pitch data (?base py px)
      = blit ptr ?P (256 * px) (32 * py) 256 32 (buffer_pixels C32 data (?base py px) 1) out"
    if "py < ny" "px < nx" for py px out
  proof -
    have x: "256 * px + 0 + 256 \<le> ?P" using that(2) w by (simp add: nx_def)
    have "32 * py * ?P \<le> 32 * ny * ?P" using that(1) by (intro mult_right_mono) simp_all
    then have "32 * py * ?P + 256 * px < 2 ^ 32"
      using that(2) h unfolding nx_def ny_def by linarith
    moreover have "of_nat py * 32 * pitch + of_nat px * 64 * 4 = (of_nat (32 * py * ?P + 256 * px) :: u32)"
      by simp
    ultimately have "unat (of_nat py * 32 * pitch + of_nat px * 64 * 4) = 32 * py * ?P + 256 * px"
      by (simp only: unat_of_nat) simp
    then show ?thesis
      using read_page_blit [OF l one pitch, of out "ptr + (32 * py * ?P + 256 * px)" data "?base py px"] x
        blit_shift [OF x, of ptr "32 * py" 0 32]
      by (simp add: out_bytes_def)
  qed
  have "ReadToLinearBufferCT32 out ptr pitch data bp bw (ex, ey)
      = blit ptr ?P 0 0 (256 * nx) (32 * ny)
          (\<lambda>k y. buffer_pixels C32 data (?base (y div 32) (k div 256)) 1 (k mod 256) (y mod 32)) out"
    unfolding ReadToLinearBufferCT32_def Let_def fst_conv snd_conv pages
    by (rule for_blocks_tile) (rule body)
  also have "\<dots> = blit ptr ?P 0 0 (256 * nx) (32 * ny) (buffer_pixels C32 data bp bw) out"
  proof (rule fun_cong [OF blit_cong])
    fix k y assume ky: "k < 256 * nx" "y < 32 * ny"
    have "k div 4 < 2 ^ 32" "y < 2 ^ 32"
      using ky unat_less_2p [of ex] unat_less_2p [of ey] by (auto simp: nx_def ny_def)
    moreover have "k mod 256 div 4 = k div 4 mod 64" using mod_mult2_eq [of k 4 64] by simp
    ultimately show "buffer_pixels C32 data (?base (y div 32) (k div 256)) 1 (k mod 256) (y mod 32)
        = buffer_pixels C32 data bp bw k y"
      using page_grid_address [OF bw, of "k div 4" y bp]
      by (simp add: buffer_pixels_out [OF l] out_bytes_def mod_mod_cancel flip: div_mult2_eq)
  qed
  finally show ?thesis by (simp add: nx_def ny_def)
qed

section \<open>Properties\<close>

text \<open>
  C27 (The page readout is the pixel reads): for each of the eight layouts the SSE page readout
  stores, at byte \<open>k\<close> of row \<open>y\<close> of the destination, the byte that \<open>ReadPixel\<close> of that pixel has, for
  all pixels of the page (a 4-bit pixel gives one byte), and leaves every other byte of the
  destination as it was.
\<close>

theorem gs_page_readout:
  assumes "is_layout l" "unat bw < 2 ^ 26" "unat pitch < 2 ^ 24"
    and "fst (PageExtent l) * out_bytes l \<le> unat pitch"
  shows "(\<forall>k < fst (PageExtent l) * out_bytes l. \<forall>y < snd (PageExtent l).
      read_page l out ptr pitch data bp (ptr + (y * unat pitch + k)) = buffer_pixels l data bp bw k y)
    \<and> (\<forall>i. (\<forall>k < fst (PageExtent l) * out_bytes l. \<forall>y < snd (PageExtent l). i \<noteq> ptr + (y * unat pitch + k))
        \<longrightarrow> read_page l out ptr pitch data bp i = out i)"
  using blit_hit [of 0 "fst (PageExtent l) * out_bytes l" "unat pitch" _ _ "snd (PageExtent l)" ptr 0]
    blit_miss [of "fst (PageExtent l) * out_bytes l" "snd (PageExtent l)" _ ptr 0 "unat pitch" 0] assms(4)
  unfolding read_page_blit [OF assms] by (metis add_0)

theorem gs_page_readout_witness:
  "read_page P4 (\<lambda>_. 0) 100 128 (\<lambda>i. of_nat i) 0x3FE0 (100 + (127 * 128 + 5))
   = buffer_pixels P4 (\<lambda>i. of_nat i) 0x3FE0 2 5 127
   \<and> read_page P4 (\<lambda>_. 0) 100 128 (\<lambda>i. of_nat i) 0x3FE0 99 = 0"
proof -
  have pre: "is_layout P4" "unat (2 :: u32) < 2 ^ 26" "unat (128 :: u32) < 2 ^ 24"
    "fst (PageExtent P4) * out_bytes P4 \<le> unat (128 :: u32)"
    by (simp_all add: is_layout_def out_bytes_def)
  note g = gs_page_readout [OF pre, of "\<lambda>_. 0" 100 "\<lambda>i. of_nat i" "0x3FE0"]
  show ?thesis
    using conjunct1 [OF g, rule_format, of 5 127] conjunct2 [OF g, rule_format, of 99]
    by (simp add: out_bytes_def)
qed

text \<open>
  The buffer readout is the pixel reads: reading a CT32 buffer out page by page gives, for
  every pixel of the pages inside the extent, the four bytes of \<open>ReadPixelCT32\<close> at that pixel, and
  touches nothing else; an extent that is not a whole number of 64 by 32 pages is cut down to one.
\<close>

lemma gs_buffer_readout:
  fixes pitch :: u32
  assumes "unat bw < 2 ^ 26" "unat pitch < 2 ^ 24" "256 * (unat ex div 64) \<le> unat pitch"
    and "32 * (unat ey div 32) * unat pitch + 256 * (unat ex div 64) < 2 ^ 32"
  shows "(\<forall>x < 64 * (unat ex div 64). \<forall>y < 32 * (unat ey div 32). \<forall>j < 4.
      ReadToLinearBufferCT32 out ptr pitch data bp bw (ex, ey) (ptr + (y * unat pitch + (4 * x + j)))
      = bytes_of_word 4 (ReadPixelCT32 data bp bw (of_nat x) (of_nat y)) ! j)
    \<and> (\<forall>i. (\<forall>x < 64 * (unat ex div 64). \<forall>y < 32 * (unat ey div 32). \<forall>j < 4.
             i \<noteq> ptr + (y * unat pitch + (4 * x + j)))
        \<longrightarrow> ReadToLinearBufferCT32 out ptr pitch data bp bw (ex, ey) i = out i)"
proof -
  let ?w = "256 * (unat ex div 64)" and ?h = "32 * (unat ey div 32)"
  note R = ReadToLinearBufferCT32_blit [OF assms]
  have px: "buffer_pixels C32 data bp bw (4 * x + j) y
      = bytes_of_word 4 (ReadPixelCT32 data bp bw (of_nat x) (of_nat y)) ! j" if "j < 4" for x y j
    using that by (simp add: buffer_pixels_def out_bytes_def)
  have split: "k = 4 * (k div 4) + k mod 4 \<and> k div 4 < 64 * (unat ex div 64) \<and> k mod 4 < 4" if "k < ?w" for k
    using that by auto
  show ?thesis
  proof (intro conjI allI impI)
    fix x y j :: nat assume *: "x < 64 * (unat ex div 64)" "y < ?h" "j < 4"
    then have k: "4 * x + j < ?w" by simp
    from blit_hit [OF _ k *(2), of 0 "unat pitch" ptr 0] assms(3) *(3)
    show "ReadToLinearBufferCT32 out ptr pitch data bp bw (ex, ey) (ptr + (y * unat pitch + (4 * x + j)))
      = bytes_of_word 4 (ReadPixelCT32 data bp bw (of_nat x) (of_nat y)) ! j"
      by (simp add: R px)
  next
    fix i assume "\<forall>x < 64 * (unat ex div 64). \<forall>y < ?h. \<forall>j < 4. i \<noteq> ptr + (y * unat pitch + (4 * x + j))"
    then show "ReadToLinearBufferCT32 out ptr pitch data bp bw (ex, ey) i = out i"
      unfolding R by (intro blit_miss) (metis split add_0)
  qed
qed

end
