(* ===== verification/GSTexture.thy ===== *)
theory GSTexture
  imports GSTransferProps GSReadoutProps
begin

text \<open>
  The two read caches of the GS (\<open>ps2_gs_gpu.cpp\<close>): the linear copy of one texture page, and the
  colour look-up table with its conditional loads. A step outside an array, or a shift that C++
  leaves undefined, is \<open>None\<close>.
\<close>

section \<open>The texture page cache\<close>

record TexturePageCache =
  tc_buffer :: bytes
  tc_valid :: bool
  tc_base_block :: u32
  tc_psm :: u32

definition alias_psm :: "u32 \<Rightarrow> u32" where
  "alias_psm psm = (if psm \<in> {0, 1, 27, 44, 36} then 0 else if psm \<in> {48, 49} then 48 else psm)"

text \<open>The logarithms of the page extents, the bytes of a texel in the copy, and the pitch.\<close>

definition tex_params :: "u32 \<Rightarrow> (nat \<times> nat \<times> nat \<times> u32) option" where
  "tex_params psm =
     (if psm \<in> {0, 1, 27, 44, 36, 48, 49} then Some (6, 5, 4, 256)
      else if psm \<in> {2, 10, 50, 58} then Some (6, 6, 2, 128)
      else if psm = 19 then Some (7, 6, 1, 128)
      else if psm = 20 then Some (7, 7, 1, 128)
      else None)"

definition ReloadTexturePageCache :: "bytes \<Rightarrow> u32 \<Rightarrow> u32 \<Rightarrow> TexturePageCache \<Rightarrow> TexturePageCache" where
  "ReloadTexturePageCache vram psm base_block c =
     (let key = (\<lambda>b. c\<lparr>tc_buffer := b, tc_base_block := base_block, tc_psm := alias_psm psm, tc_valid := True\<rparr>)
      in if psm \<in> {0, 1, 27, 44, 36} then key (ReadPageToLinearBufferCT32 (tc_buffer c) 0 256 vram base_block)
         else if psm \<in> {48, 49} then key (ReadPageToLinearBufferZ32 (tc_buffer c) 0 256 vram base_block)
         else if psm = 2 then key (ReadPageToLinearBufferCT16 (tc_buffer c) 0 128 vram base_block)
         else if psm = 10 then key (ReadPageToLinearBufferCT16S (tc_buffer c) 0 128 vram base_block)
         else if psm = 50 then key (ReadPageToLinearBufferZ16 (tc_buffer c) 0 128 vram base_block)
         else if psm = 58 then key (ReadPageToLinearBufferZ16S (tc_buffer c) 0 128 vram base_block)
         else if psm = 19 then key (ReadPageToLinearBufferP8 (tc_buffer c) 0 128 vram base_block)
         else if psm = 20 then key (ReadPageToLinearBufferP4 (tc_buffer c) 0 128 vram base_block)
         else c)"

definition texture_block :: "u32 \<Rightarrow> u32 \<Rightarrow> nat \<Rightarrow> nat \<Rightarrow> u32 \<Rightarrow> u32 \<Rightarrow> u32" where
  "texture_block tbp0 tbw pw ph u v =
     (let pages_per_row = max 1 (drop_bit pw (tbw * 64));
          page_id = drop_bit ph v * pages_per_row + drop_bit pw u
      in (tbp0 + page_id * 32) AND 0x3FFF)"

definition ReadTexturePageCache ::
  "bytes \<Rightarrow> u32 \<Rightarrow> u32 \<Rightarrow> u32 \<Rightarrow> u32 \<Rightarrow> u32 \<Rightarrow> TexturePageCache \<Rightarrow> u32 \<times> TexturePageCache" where
  "ReadTexturePageCache vram psm0 tbp0 tbw u v c =
     (let psm = alias_psm psm0
      in case tex_params psm of None \<Rightarrow> (0, c)
         | Some (pw, ph, n, pitch) \<Rightarrow>
             let block_id = texture_block tbp0 tbw pw ph u v;
                 needs_reload = (\<not> tc_valid c \<or> tc_base_block c \<noteq> block_id \<or> tc_psm c \<noteq> psm);
                 c' = (if needs_reload then ReloadTexturePageCache vram psm block_id c else c);
                 off = (v AND (push_bit ph 1 - 1)) * pitch + (u AND (push_bit pw 1 - 1)) * of_nat n
             in (word_of_bytes (copy_out (tc_buffer c') (unat off) n), c'))"

definition InvalidateTexturePageCache :: "TexturePageCache \<Rightarrow> TexturePageCache" where
  "InvalidateTexturePageCache c = c\<lparr>tc_valid := False\<rparr>"

section \<open>The colour look-up table\<close>

record clut_state =
  m_clut_cache :: bytes
  m_cbp0 :: u32
  m_cbp1 :: u32

definition clut_store :: "nat \<Rightarrow> u32 \<Rightarrow> nat \<Rightarrow> bytes \<Rightarrow> bytes option" where
  "clut_store addr value n b = (if addr + n \<le> 1024 then Some (copy_in addr (bytes_of_word n value) b) else None)"

definition ReadClutCache :: "u32 \<Rightarrow> u8 \<Rightarrow> u32 \<Rightarrow> bytes \<Rightarrow> u32 option" where
  "ReadClutCache psm index csa b =
     (let load = (\<lambda>n. let addr = unat (csa * 16 * of_nat n + ucast index * of_nat n)
                      in if addr + n \<le> 1024 then Some (word_of_bytes (copy_out b addr n)) else None)
      in if psm = 0 \<or> psm = 1 then load 4
         else if psm = 2 \<or> psm = 10 then load 2
         else Some 0)"

text \<open>Where the entry \<open>i\<close> of a palette lies in its buffer (\<open>CSM1\<close>): rows of 8, or rows of 16 in pairs.\<close>

definition clut_pos :: "nat \<Rightarrow> u32 \<Rightarrow> u32 \<times> u32" where
  "clut_pos tbpp i =
     (if tbpp = 4 then (i AND 7, (i div 8) AND 1)
      else (let x = i AND 7; y = (i AND 0xE0) div 16
            in (if i AND 0x10 \<noteq> 0 then x + 8 else x, if i AND 0x8 \<noteq> 0 then y + 1 else y)))"

primrec clut_load :: "bytes \<Rightarrow> u32 \<Rightarrow> u32 \<Rightarrow> nat \<Rightarrow> nat \<Rightarrow> u32 \<Rightarrow> nat \<Rightarrow> bytes \<Rightarrow> bytes option" where
  "clut_load vram cpsm cbp tbpp cb addr 0 b = Some b"
| "clut_load vram cpsm cbp tbpp cb addr (Suc i) b =
     (case clut_load vram cpsm cbp tbpp cb addr i b of None \<Rightarrow> None
      | Some b' \<Rightarrow>
          (case ReadVram vram cpsm cbp 1 (fst (clut_pos tbpp (of_nat i))) (snd (clut_pos tbpp (of_nat i))) of
             None \<Rightarrow> None
           | Some value \<Rightarrow> clut_store (unat ((addr + of_nat i * of_nat cb) AND 0x3FF)) value cb b'))"

text \<open>The number of entries, \<open>1 << tbpp\<close> at the width of an \<open>int\<close>.\<close>

definition clut_entries :: "nat \<Rightarrow> nat option" where
  "clut_entries tbpp = (if tbpp < 31 then Some (2 ^ tbpp) else None)"

definition ReloadClutCacheCSM1 :: "bytes \<Rightarrow> u32 \<Rightarrow> u32 \<Rightarrow> u32 \<Rightarrow> u32 \<Rightarrow> bytes \<Rightarrow> bytes option" where
  "ReloadClutCacheCSM1 vram psm cpsm cbp csa b =
     (let cb = BitsPerPixel (psm_of cpsm) div 8;
          tbpp = BitsPerPixel (psm_of psm);
          offset = csa * 16
      in case clut_entries tbpp of None \<Rightarrow> None
         | Some entries \<Rightarrow>
             if cb = 0 then None
             else let total = 1024 div cb;
                      dst_capacity = (if unat offset < total then total - unat offset else 0);
                      load_count = min entries dst_capacity
                  in if tbpp = 4 \<or> tbpp = 8 then clut_load vram cpsm cbp tbpp cb (offset * of_nat cb) load_count b
                     else Some b)"

text \<open>The \<open>TEXCLUT\<close> register: \<open>CBW\<close>, \<open>COU\<close> and \<open>COV\<close>.\<close>

definition texclut_cbw :: "u64 \<Rightarrow> u32" where "texclut_cbw r = bitfield 0 6 r"
definition texclut_cou :: "u64 \<Rightarrow> u32" where "texclut_cou r = bitfield 6 6 r"
definition texclut_cov :: "u64 \<Rightarrow> u32" where "texclut_cov r = bitfield 12 10 r"

primrec clut_load_linear :: "bytes \<Rightarrow> u32 \<Rightarrow> u64 \<Rightarrow> nat \<Rightarrow> bytes \<Rightarrow> bytes option" where
  "clut_load_linear vram cbp texclut 0 b = Some b"
| "clut_load_linear vram cbp texclut (Suc i) b =
     (case clut_load_linear vram cbp texclut i b of None \<Rightarrow> None
      | Some b' \<Rightarrow>
          (case ReadVram vram 2 cbp (texclut_cbw texclut) (texclut_cou texclut * 16 * 16 + of_nat i) (texclut_cov texclut) of
             None \<Rightarrow> None
           | Some value \<Rightarrow> clut_store (i * 2 mod 1024) value 2 b'))"

definition ReloadClutCacheCSM2 :: "bytes \<Rightarrow> u64 \<Rightarrow> u32 \<Rightarrow> u32 \<Rightarrow> bytes \<Rightarrow> bytes option" where
  "ReloadClutCacheCSM2 vram texclut psm cbp b =
     (case clut_entries (BitsPerPixel (psm_of psm)) of None \<Rightarrow> None
      | Some entries \<Rightarrow> clut_load_linear vram cbp texclut entries b)"

text \<open>Whether a load happens, and what the two \<open>CBP\<close> registers keep.\<close>

definition clut_decide :: "u8 \<Rightarrow> u32 \<Rightarrow> clut_state \<Rightarrow> bool \<times> clut_state" where
  "clut_decide cld cbp c =
     (if cld = 1 then (True, c)
      else if cld = 2 then (True, c\<lparr>m_cbp0 := cbp\<rparr>)
      else if cld = 3 then (True, c\<lparr>m_cbp1 := cbp\<rparr>)
      else if cld = 4 then (if cbp \<noteq> m_cbp0 c then (True, c\<lparr>m_cbp0 := cbp\<rparr>) else (False, c))
      else if cld = 5 then (if cbp \<noteq> m_cbp1 c then (True, c\<lparr>m_cbp1 := cbp\<rparr>) else (False, c))
      else (False, c))"

definition ReloadClutCache ::
  "bytes \<Rightarrow> u64 \<Rightarrow> u32 \<Rightarrow> u32 \<Rightarrow> u32 \<Rightarrow> u8 \<Rightarrow> u8 \<Rightarrow> u8 \<Rightarrow> clut_state \<Rightarrow> clut_state option" where
  "ReloadClutCache vram texclut psm cpsm cbp csm csa cld c =
     (let (load, c') = clut_decide cld cbp c
      in if \<not> load then Some c'
         else map_option (\<lambda>b. c'\<lparr>m_clut_cache := b\<rparr>)
                (if csm = 0 then ReloadClutCacheCSM1 vram psm cpsm cbp (ucast csa) (m_clut_cache c')
                 else if csm = 1 then ReloadClutCacheCSM2 vram texclut psm cbp (m_clut_cache c')
                 else Some (m_clut_cache c')))"

end
