(* ===== verification/GSTextureProps.thy ===== *)
theory GSTextureProps
  imports GSTexture
begin

text \<open>
  What the read caches of the GS promise: a texel read through a page cache that is invalid or up
  to date is the pixel of local memory, and a loaded colour table holds the palette.
\<close>

section \<open>Texels\<close>

definition tex_layout :: "u32 \<Rightarrow> PixelStorageMode" where
  "tex_layout psm = psm_of (alias_psm psm)"

lemma alias_idem [simp]: "alias_psm (alias_psm psm) = alias_psm psm" "tex_layout (alias_psm psm) = tex_layout psm"
  "tex_params (alias_psm psm) = tex_params psm"
  by (auto simp: alias_psm_def tex_layout_def tex_params_def)

lemma tex_params_cases:
  assumes "tex_params psm = Some p"
  shows "psm \<in> {0, 1, 2, 10, 19, 20, 27, 36, 44, 48, 49, 50, 58}"
  using assms by (auto simp: tex_params_def split: if_splits)

lemma tex_params_layout:
  assumes "tex_params psm = Some (pw, ph, n, pitch)"
  shows "is_layout (tex_layout psm)" "PageExtent (tex_layout psm) = (2 ^ pw, 2 ^ ph)" "out_bytes (tex_layout psm) = n"
    "unat pitch = 2 ^ pw * n" "pw < 32" "ph < 32" "unat pitch * 2 ^ ph \<le> 16384" "n \<in> {1, 2, 4}"
  using assms by (auto simp: tex_params_def tex_layout_def alias_psm_def psm_of_def is_layout_def out_bytes_def split: if_splits)

lemma ReloadTexturePageCache_page:
  assumes "tex_params psm = Some (pw, ph, n, pitch)"
  shows "ReloadTexturePageCache vram (alias_psm psm) blk c
    = c\<lparr>tc_buffer := read_page (tex_layout psm) (tc_buffer c) 0 pitch vram blk,
        tc_base_block := blk, tc_psm := alias_psm psm, tc_valid := True\<rparr>"
  using assms tex_params_cases [OF assms]
  by (auto simp: ReloadTexturePageCache_def tex_layout_def alias_psm_def psm_of_def tex_params_def)

text \<open>A pixel of a buffer, addressed through the block its page starts in.\<close>

lemma Read_pos:
  assumes "IsValidPsm psm" "pixel_pos psm (unat a) = pixel_pos psm (unat a')"
  shows "Read psm d a = Read psm d a'"
  using assms by (intro bit_word_eqI) (simp add: bit_Read)

lemma unat_low_bits: "unat (w AND mask k :: u32) = unat w mod 2 ^ k"
  unfolding take_bit_eq_mask [symmetric] by (metis take_bit_eq_mod unsigned_take_bit_eq)

lemma unat_texture_block:
  assumes "unat tbw < 2 ^ 26" "1 \<le> unat tbw * 64 div 2 ^ pw"
  shows "unat (texture_block tbp0 tbw pw ph u v)
    = (unat tbp0 + (unat v div 2 ^ ph * (unat tbw * 64 div 2 ^ pw) + unat u div 2 ^ pw) * 32) mod 2 ^ 14"
proof -
  let ?ppr = "unat tbw * 64 div 2 ^ pw"
  have tbw: "unat (tbw * 64) = unat tbw * 64" using assms(1) by (simp add: unat_word_ariths)
  have dv: "drop_bit k w = of_nat (unat w div 2 ^ k)" for k and w :: u32
  proof -
    have "drop_bit k w = of_nat (unat (drop_bit k w))" by simp
    also have "unat (drop_bit k w) = unat w div 2 ^ k" by (metis unat_drop_bit_eq drop_bit_eq_div)
    finally show ?thesis .
  qed
  have "?ppr \<le> unat tbw * 64" by (rule div_le_dividend)
  also have "\<dots> < 2 ^ 32" using assms(1) by simp
  finally have lt: "?ppr < 2 ^ 32" .
  have "max 1 (drop_bit pw (tbw * 64)) = (of_nat ?ppr :: u32)"
    using assms(2) lt unfolding dv tbw by (auto simp: max_def word_le_nat_alt unat_of_nat)
  then have "tbp0 + (drop_bit ph v * max 1 (drop_bit pw (tbw * 64)) + drop_bit pw u) * 32
      = of_nat (unat tbp0 + (unat v div 2 ^ ph * ?ppr + unat u div 2 ^ pw) * 32)"
    by (simp add: dv [of ph v] dv [of pw u])
  moreover have m: "(0x3FFF :: u32) = mask 14" by (simp add: mask_eq_exp_minus_1)
  moreover have "unat (of_nat k AND mask 14 :: u32) = k mod 2 ^ 14" for k
    unfolding unat_low_bits unat_of_nat by (simp add: mod_mod_cancel)
  ultimately show ?thesis unfolding texture_block_def Let_def m by (simp only:)
qed

lemma texel_page:
  assumes l: "is_layout l" "PageExtent l = (2 ^ pw, 2 ^ ph)" and bw: "unat bw < 2 ^ 26" "1 \<le> page_cols l (unat bw)"
    and pq: "unat (u' :: u32) = unat u mod 2 ^ pw" "unat (v' :: u32) = unat v mod 2 ^ ph"
  shows "read_pixel l d (texture_block bp bw pw ph u v) 1 u' v' = read_pixel l d bp bw u v"
proof -
  define pg where "pg = unat v div 2 ^ ph * (unat bw * 64 div 2 ^ pw) + unat u div 2 ^ pw"
  define po where "po = page_offset l (unat u mod 2 ^ pw) (unat v mod 2 ^ ph)"
  let ?w = "UnpackedBitWidth l" and ?b = "texture_block bp bw pw ph u v"
  have blk: "unat ?b = (unat bp + pg * 32) mod 2 ^ 14"
    using unat_texture_block [OF bw(1)] bw(2) l(2) by (simp add: pg_def page_cols_def)
  have e: "PixelsPerPage l = 32 * PixelsPerBlock l" "PixelsPerBlock l * ?w = 2048"
    using layout_extents(4,5) [OF l(1)] .
  have blocks: "n * PixelsPerBlock l * ?w = 2048 * n" for n using e(2) by (simp add: mult.assoc)
  have "linear_address l (unat bp) (unat bw) (unat u) (unat v) = (unat bp + pg * 32) * PixelsPerBlock l + po"
    by (simp add: linear_address_def l(2) e(1) pg_def po_def algebra_simps)
  then have lin: "linear_address l (unat bp) (unat bw) (unat u) (unat v) * ?w = 2048 * (unat bp + pg * 32) + po * ?w"
    by (simp only: add_mult_distrib [of _ po] blocks)
  have "linear_address l (unat ?b) (unat (1 :: u32)) (unat u') (unat v') = unat ?b * PixelsPerBlock l + po"
    by (simp add: linear_address_def l(2) pq po_def)
  then have lin': "linear_address l (unat ?b) (unat (1 :: u32)) (unat u') (unat v') * ?w = 2048 * unat ?b + po * ?w"
    by (simp only: add_mult_distrib [of _ po] blocks)
  have "(2048 * unat ?b + po * ?w) mod 2 ^ 25 = (2048 * (unat bp + pg * 32) + po * ?w) mod 2 ^ 25"
  proof -
    have "2048 * ((unat bp + pg * 32) mod 2 ^ 14) = (2048 * (unat bp + pg * 32)) mod 2 ^ 25"
      using mult_mod_right [of 2048 "unat bp + pg * 32" "2 ^ 14"] by simp
    then show ?thesis unfolding blk by (simp only: mod_add_left_eq)
  qed
  moreover have "pixel_address l ?b 1 u' v' = of_nat (linear_address l (unat ?b) (unat (1 :: u32)) (unat u') (unat v'))"
    "pixel_address l bp bw u v = of_nat (linear_address l (unat bp) (unat bw) (unat u) (unat v))"
    using pixel_address_linear [OF l(1)] bw(1) by simp_all
  ultimately have "pixel_pos l (unat (pixel_address l ?b 1 u' v')) = pixel_pos l (unat (pixel_address l bp bw u v))"
    by (simp only: pixel_pos_of_nat [OF l(1)] lin lin')
  then have "Read l d (pixel_address l ?b 1 u' v') = Read l d (pixel_address l bp bw u v)"
    by (rule Read_pos [OF layout_valid [OF l(1)]])
  then show ?thesis using layout_valid [OF l(1)] layout_self [OF l(1)] by (simp add: read_pixel_eq)
qed


section \<open>The page cache\<close>

text \<open>A valid cache holds the page it names, as the pixel functions read it.\<close>

definition cache_ok :: "bytes \<Rightarrow> TexturePageCache \<Rightarrow> bool" where
  "cache_ok d c \<longleftrightarrow> (tc_valid c \<longrightarrow>
     (\<exists>pw ph n pitch. tex_params (tc_psm c) = Some (pw, ph, n, pitch) \<and> alias_psm (tc_psm c) = tc_psm c
        \<and> (\<forall>k < 2 ^ pw * n. \<forall>y < 2 ^ ph. tc_buffer c (y * unat pitch + k)
             = buffer_pixels (tex_layout (tc_psm c)) d (tc_base_block c) 1 k y)))"

lemma reload_ok:
  assumes "tex_params psm = Some (pw, ph, n, pitch)"
  shows "cache_ok d (ReloadTexturePageCache d (alias_psm psm) blk c)"
    "16384 \<le> i \<Longrightarrow> tc_buffer (ReloadTexturePageCache d (alias_psm psm) blk c) i = tc_buffer c i"
proof -
  note p = tex_params_layout [OF assms]
  have pitch: "unat pitch < 2 ^ 24" using assms by (auto simp: tex_params_def split: if_splits)
  have one: "unat (1 :: u32) < 2 ^ 26" by simp
  have blit: "read_page (tex_layout psm) b 0 pitch d blk
      = blit 0 (unat pitch) 0 0 (2 ^ pw * n) (2 ^ ph) (buffer_pixels (tex_layout psm) d blk 1) b" for b
    using read_page_blit [OF p(1) one pitch, of b 0 d blk] p(2-4) by simp
  show "cache_ok d (ReloadTexturePageCache d (alias_psm psm) blk c)"
    unfolding cache_ok_def ReloadTexturePageCache_page [OF assms]
    using assms blit_hit [of 0 "2 ^ pw * n" "unat pitch" _ _ "2 ^ ph" 0 0] p(4) by (simp add: blit)
  show "tc_buffer (ReloadTexturePageCache d (alias_psm psm) blk c) i = tc_buffer c i" if "16384 \<le> i"
  proof -
    have "r * unat pitch + k < 16384" if "k < 2 ^ pw * n" "r < 2 ^ ph" for k r
    proof -
      have "r * unat pitch + k < Suc r * unat pitch" using that(1) p(4) by simp
      also have "\<dots> \<le> 2 ^ ph * unat pitch" using that(2) by (intro mult_le_mono1) simp
      finally show ?thesis using p(7) by (simp add: mult.commute)
    qed
    with that show ?thesis
      unfolding ReloadTexturePageCache_page [OF assms]
      by (simp add: blit) (intro blit_miss, fastforce)
  qed
qed

text \<open>Reading a texel from a page that the cache holds.\<close>

lemma copy_out_buffer:
  assumes "\<And>j. j < n \<Longrightarrow> b (off + j) = bytes_of_word n w ! j"
  shows "copy_out b off n = bytes_of_word n w"
  using assms by (intro nth_equalityI) simp_all

lemma and_low: "unat (w AND (push_bit k 1 - 1) :: u32) = unat w mod 2 ^ k"
proof -
  have "(push_bit k 1 - 1 :: u32) = mask k" by (simp add: mask_eq_exp_minus_1 push_bit_eq_mult)
  then show ?thesis by (simp only: unat_low_bits)
qed

lemma texel_width:
  assumes "tex_params psm = Some (pw, ph, n, pitch)"
  shows "word_of_bytes (bytes_of_word n (read_pixel (tex_layout psm) d bp bw x y)) = read_pixel (tex_layout psm) d bp bw x y"
proof -
  note l = tex_params_layout(1) [OF assms]
  have w: "BitsPerPixel (tex_layout psm) \<le> 8 * n" "n \<le> 4"
    using l tex_params_layout(3) [OF assms] by (auto simp: is_layout_def out_bytes_def)
  show ?thesis
  proof (rule bit_word_eqI)
    fix k :: nat assume "k < LENGTH(32)"
    have "bit (read_pixel (tex_layout psm) d bp bw x y) k \<Longrightarrow> k < 8 * n"
      using l w(1) by (auto simp: read_pixel_eq layout_valid bit_Read)
    then show "bit (word_of_bytes (bytes_of_word n (read_pixel (tex_layout psm) d bp bw x y)) :: u32) k
        = bit (read_pixel (tex_layout psm) d bp bw x y) k"
      using \<open>k < LENGTH(32)\<close> by (auto simp: bit_word_of_bytes nth_bytes_of_word bit_simps less_mult_imp_div_less mult.commute)
  qed
qed

lemma texel_of_page:
  assumes "tex_params psm = Some (pw, ph, n, pitch)" "unat tbw < 2 ^ 26" "1 \<le> page_cols (tex_layout psm) (unat tbw)"
    and "\<And>k y. k < 2 ^ pw * n \<Longrightarrow> y < 2 ^ ph \<Longrightarrow>
       b (y * unat pitch + k) = buffer_pixels (tex_layout psm) d (texture_block tbp0 tbw pw ph u v) 1 k y"
  shows "word_of_bytes (copy_out b (unat ((v AND (push_bit ph 1 - 1)) * pitch + (u AND (push_bit pw 1 - 1)) * of_nat n)) n)
    = read_pixel (tex_layout psm) d tbp0 tbw u v"
proof -
  note p = tex_params_layout [OF assms(1)]
  define x y where "x = unat u mod 2 ^ pw" and "y = unat v mod 2 ^ ph"
  let ?blk = "texture_block tbp0 tbw pw ph u v"
  have lt: "x < 2 ^ pw" "y < 2 ^ ph" by (simp_all add: x_def y_def)
  have small: "x < 2 ^ 32" "y < 2 ^ 32"
    using lt p(5,6) by (meson less_le_trans one_le_numeral power_increasing less_imp_le_nat)+
  have row: "x * n + j < 2 ^ pw * n" if "j < n" for j
    using position_less [OF that lt(1)] by (simp add: add.commute)
  have n: "0 < n" "n \<le> 4" using p(8) by auto
  have "y * unat pitch + x * n < 16384"
  proof -
    have "y * unat pitch + x * n < Suc y * unat pitch" using row [of 0] n(1) p(4) by simp
    also have "\<dots> \<le> 2 ^ ph * unat pitch" using lt(2) by (intro mult_le_mono1) simp
    finally show ?thesis using p(7) by (simp add: mult.commute)
  qed
  moreover have "(v AND (push_bit ph 1 - 1)) * pitch + (u AND (push_bit pw 1 - 1)) * of_nat n
      = of_nat (y * unat pitch + x * n)"
    unfolding x_def y_def and_low [symmetric] by simp
  ultimately have off: "unat ((v AND (push_bit ph 1 - 1)) * pitch + (u AND (push_bit pw 1 - 1)) * of_nat n)
      = y * unat pitch + x * n"
    by (simp add: unat_of_nat del: of_nat_add of_nat_mult)
  have "copy_out b (y * unat pitch + x * n) n
      = bytes_of_word n (read_pixel (tex_layout psm) d ?blk 1 (of_nat x) (of_nat y))"
  proof (rule copy_out_buffer)
    fix j assume "j < n"
    then show "b (y * unat pitch + x * n + j)
        = bytes_of_word n (read_pixel (tex_layout psm) d ?blk 1 (of_nat x) (of_nat y)) ! j"
      using assms(4) [OF row lt(2)] p(3) by (simp add: buffer_pixels_def add.assoc)
  qed
  moreover have "read_pixel (tex_layout psm) d ?blk 1 (of_nat x) (of_nat y) = read_pixel (tex_layout psm) d tbp0 tbw u v"
    using small by (intro texel_page p assms) (simp_all add: unat_of_nat x_def y_def)
  moreover have "word_of_bytes (bytes_of_word n (read_pixel (tex_layout psm) d tbp0 tbw u v))
      = read_pixel (tex_layout psm) d tbp0 tbw u v"
    using texel_width [OF assms(1)] by simp
  ultimately show ?thesis unfolding off by simp
qed

text \<open>The bits of a mode inside the word of the layout it is stored in.\<close>

lemma mode_of_word:
  assumes "tex_params psm \<noteq> None"
  shows "take_bit (BitsPerPixel (psm_of psm)) (drop_bit (BitOffset (psm_of psm)) (read_pixel (tex_layout psm) d bp bw x y))
    = read_pixel (psm_of psm) d bp bw x y"
proof -
  have psm: "psm \<in> {0, 1, 2, 10, 19, 20, 27, 36, 44, 48, 49, 50, 58}" using assms tex_params_cases by blast
  then have v: "IsValidPsm (psm_of psm)" "IsValidPsm (tex_layout psm)"
    and same: "layout (psm_of psm) = layout (tex_layout psm)"
      "BitOffset (psm_of psm) + BitsPerPixel (psm_of psm) \<le> BitsPerPixel (tex_layout psm)"
      "UnpackedBitWidth (psm_of psm) = UnpackedBitWidth (tex_layout psm)" "BitOffset (tex_layout psm) = 0"
    by (auto simp: psm_of_def tex_layout_def alias_psm_def IsValidPsm_def)
  have "pixel_pos (psm_of psm) a = pixel_pos (tex_layout psm) a + BitOffset (psm_of psm)" for a
    using v same(3,4) by (simp add: pixel_pos_word)
  then show ?thesis
    using v same(1,2) by (intro bit_word_eqI) (auto simp: read_pixel_eq bit_Read bit_simps add.assoc)
qed

section \<open>The colour table\<close>

text \<open>The entry \<open>i\<close> of the palette of a texture with \<open>tbpp\<close> bits per texel.\<close>

definition palette :: "bytes \<Rightarrow> u32 \<Rightarrow> u32 \<Rightarrow> nat \<Rightarrow> nat \<Rightarrow> u32" where
  "palette vram cpsm cbp tbpp i =
     read_pixel (psm_of cpsm) vram cbp 1 (fst (clut_pos tbpp (of_nat i))) (snd (clut_pos tbpp (of_nat i)))"

lemma copy_in_frame: "j < off \<or> off + length bs \<le> j \<Longrightarrow> copy_in off bs m j = m j"
  by (auto simp: copy_in_def)

lemma clut_load_ok:
  assumes cpsm: "cpsm \<in> {0, 2, 10}" and m: "A + m * cb \<le> 1024" and cb: "0 < cb"
  shows "\<exists>b'. clut_load vram cpsm cbp tbpp cb (of_nat A) m b = Some b'
    \<and> (\<forall>i < m. copy_out b' (A + i * cb) cb = bytes_of_word cb (palette vram cpsm cbp tbpp i))
    \<and> (\<forall>j. j < A \<or> A + m * cb \<le> j \<longrightarrow> b' j = b j)"
  using m
proof (induction m)
  case (Suc m)
  then obtain b1 where b1: "clut_load vram cpsm cbp tbpp cb (of_nat A) m b = Some b1"
    "\<And>i. i < m \<Longrightarrow> copy_out b1 (A + i * cb) cb = bytes_of_word cb (palette vram cpsm cbp tbpp i)"
    "\<And>j. j < A \<or> A + m * cb \<le> j \<Longrightarrow> b1 j = b j"
    by force
  have "A + m * cb < 1024" using Suc.prems cb by simp
  then have a: "unat ((of_nat A + of_nat m * of_nat cb) AND 0x3FF :: u32) = A + m * cb"
  proof -
    have w: "of_nat A + of_nat m * of_nat cb = (of_nat (A + m * cb) :: u32)" by simp
    have k: "(0x3FF :: u32) = mask 10" by (simp add: mask_eq_exp_minus_1)
    show ?thesis using \<open>A + m * cb < 1024\<close> unfolding w k unat_low_bits unat_of_nat by simp
  qed
  define b2 where "b2 = copy_in (A + m * cb) (bytes_of_word cb (palette vram cpsm cbp tbpp m)) b1"
  have "clut_load vram cpsm cbp tbpp cb (of_nat A) (Suc m) b = Some b2"
    using b1(1) cpsm a Suc.prems by (auto simp: ReadVram_def clut_store_def b2_def palette_def)
  moreover have "copy_out b2 (A + i * cb) cb = bytes_of_word cb (palette vram cpsm cbp tbpp i)" if "i < Suc m" for i
  proof (cases "i = m")
    case True
    then show ?thesis
      using copy_out_in [of "A + m * cb" "bytes_of_word cb (palette vram cpsm cbp tbpp m)"] by (simp add: b2_def)
  next
    case False
    then have "Suc i * cb \<le> m * cb" using that by (intro mult_le_mono1) simp
    then have "copy_out b2 (A + i * cb) cb = copy_out b1 (A + i * cb) cb"
      by (intro nth_equalityI) (simp_all add: b2_def copy_in_frame)
    then show ?thesis using b1(2) [of i] False that by simp
  qed
  moreover have "b2 j = b j" if "j < A \<or> A + Suc m * cb \<le> j" for j
    using that b1(3) [of j] by (auto simp: b2_def copy_in_frame)
  ultimately show ?case by blast
qed simp

lemma ReadClutCache_entry:
  assumes "cpsm \<in> {0, 2, 10}" "cb = BitsPerPixel (psm_of cpsm) div 8"
    and "unat (csa * 16 * of_nat cb + ucast index * of_nat cb :: u32) = a" "a + cb \<le> 1024"
  shows "ReadClutCache cpsm index csa b = Some (word_of_bytes (copy_out b a cb))"
proof -
  have "cb = 4 \<and> cpsm = 0 \<or> cb = 2 \<and> (cpsm = 2 \<or> cpsm = 10)" using assms(1,2) by (auto simp: psm_of_def)
  then show ?thesis using assms(3,4) by (auto simp: ReadClutCache_def)
qed

lemma palette_width:
  assumes "cpsm \<in> {0, 2, 10}"
  shows "word_of_bytes (bytes_of_word (BitsPerPixel (psm_of cpsm) div 8) (palette vram cpsm cbp tbpp i))
    = palette vram cpsm cbp tbpp i"
proof -
  let ?m = "psm_of cpsm"
  have m: "IsValidPsm ?m" "BitsPerPixel ?m = 8 * (BitsPerPixel ?m div 8)"
    using assms by (auto simp: psm_of_def IsValidPsm_def)
  show ?thesis
  proof (rule bit_word_eqI)
    fix k :: nat assume k: "k < LENGTH(32)"
    have "bit (palette vram cpsm cbp tbpp i) k \<Longrightarrow> k < 8 * (BitsPerPixel ?m div 8)"
      using m by (simp add: palette_def read_pixel_eq bit_Read)
    then show "bit (word_of_bytes (bytes_of_word (BitsPerPixel ?m div 8) (palette vram cpsm cbp tbpp i)) :: u32) k
        = bit (palette vram cpsm cbp tbpp i) k"
      using k by (auto simp: bit_word_of_bytes nth_bytes_of_word bit_simps less_mult_imp_div_less mult.commute)
  qed
qed

section \<open>Properties\<close>

text \<open>
  C31 (Texels come from local memory): reading a texel through a page cache that is invalid (as
  after \<open>TEXFLUSH\<close>) or holds the page of the present memory gives the pixel of the texture buffer
  in the layout of its storage mode, whose bits of the mode are the pixel in that mode; the cache
  stays up to date for every later read, and the copy never leaves its 16 KB.
\<close>

theorem texture_cache_coherent:
  assumes "cache_ok d c" "tex_params psm \<noteq> None" "unat tbw < 2 ^ 26" "1 \<le> page_cols (tex_layout psm) (unat tbw)"
    and "ReadTexturePageCache d psm tbp0 tbw u v c = (texel, c')"
  shows "texel = read_pixel (tex_layout psm) d tbp0 tbw u v
    \<and> take_bit (BitsPerPixel (psm_of psm)) (drop_bit (BitOffset (psm_of psm)) texel) = read_pixel (psm_of psm) d tbp0 tbw u v
    \<and> cache_ok d c' \<and> (\<forall>i \<ge> 16384. tc_buffer c' i = tc_buffer c i)
    \<and> cache_ok d' (InvalidateTexturePageCache c')"
proof -
  obtain pw ph n pitch where p: "tex_params psm = Some (pw, ph, n, pitch)" using assms(2) by (metis option.exhaust prod_cases4)
  define blk where "blk = texture_block tbp0 tbw pw ph u v"
  have c': "c' = (if \<not> tc_valid c \<or> tc_base_block c \<noteq> blk \<or> tc_psm c \<noteq> alias_psm psm
      then ReloadTexturePageCache d (alias_psm psm) blk c else c)"
    and texel: "texel = word_of_bytes (copy_out (tc_buffer c')
        (unat ((v AND (push_bit ph 1 - 1)) * pitch + (u AND (push_bit pw 1 - 1)) * of_nat n)) n)"
    using assms(5) unfolding ReadTexturePageCache_def alias_idem p Let_def blk_def by auto
  have ok: "cache_ok d c'" "\<forall>i \<ge> 16384. tc_buffer c' i = tc_buffer c i"
    unfolding c' using assms(1) reload_ok [OF p] by simp_all
  have key: "tc_valid c'" "tc_base_block c' = blk" "tc_psm c' = alias_psm psm"
    unfolding c' by (simp_all add: ReloadTexturePageCache_page [OF p])
  have "texel = read_pixel (tex_layout psm) d tbp0 tbw u v"
    unfolding texel using ok(1) key p by (intro texel_of_page [OF p assms(3,4)]) (simp add: cache_ok_def blk_def)
  then show ?thesis
    using ok mode_of_word [OF assms(2), of d tbp0 tbw u v] by (simp add: cache_ok_def InvalidateTexturePageCache_def)
qed

text \<open>A 4-bit texel in the upper nibble of a 32-bit word, through an invalid cache.\<close>

theorem texture_cache_coherent_witness:
  "fst (ReadTexturePageCache (\<lambda>i. of_nat i) 44 0x3FF0 2 70 40
      \<lparr>tc_buffer = (\<lambda>_. 0), tc_valid = False, tc_base_block = 0, tc_psm = 0\<rparr>)
   = read_pixel C32 (\<lambda>i. of_nat i) 0x3FF0 2 70 40"
proof -
  let ?c = "\<lparr>tc_buffer = (\<lambda>_. 0), tc_valid = False, tc_base_block = 0, tc_psm = 0\<rparr>"
  have pre: "cache_ok (\<lambda>i. of_nat i) ?c" "tex_params 44 \<noteq> None" "unat (2 :: u32) < 2 ^ 26"
    "1 \<le> page_cols (tex_layout 44) (unat (2 :: u32))"
    by (simp_all add: cache_ok_def tex_params_def tex_layout_def alias_psm_def psm_of_def page_cols_def)
  obtain texel c' where r: "ReadTexturePageCache (\<lambda>i. of_nat i) 44 0x3FF0 2 70 40 ?c = (texel, c')" by fastforce
  have "tex_layout 44 = C32" by (simp add: tex_layout_def alias_psm_def psm_of_def)
  then show ?thesis using texture_cache_coherent [OF pre r] r by simp
qed



end
