(* ===== verification/GSRegisters.thy ===== *)
theory GSRegisters
  imports GSTextureProps
begin

text \<open>
  The register file of the GS (\<open>ps2_gs_gpu.cpp\<close>): \<open>writeRegister\<close> with its side effects (vertex
  kicks, transfers, cache reloads, the privileged registers) and the packed forms of the GIF. The
  rasterizer, called for a complete primitive, is the parameter \<open>draw\<close>. Coordinates are kept in
  sixteenths, depth as a number, and the texture coordinates and \<open>Q\<close> as the bits of their floats.
\<close>

section \<open>State\<close>

record GSVertex =
  vx :: u16
  vy :: u16
  vz :: nat
  vr :: u8
  vg :: u8
  vb :: u8
  va :: u8
  vtx_q :: u32
  vtx_s :: u32
  vtx_t :: u32
  vu :: u16
  vv :: u16
  vfog :: u8

record GSContext =
  c_alpha :: u64
  c_clamp :: u64
  c_fba :: u64
  c_frame :: u64
  c_scissor :: u64
  c_test :: u64
  c_tex0 :: u64
  c_tex1 :: u64
  c_tex2 :: u64
  c_xyoffset :: u64
  c_zbuf :: u64

record GSGpr =
  r_colclamp :: u64
  r_fog :: u64
  r_fogcol :: u64
  r_pabe :: u64
  r_prim :: u64
  r_prmode :: u64
  r_prmodecont :: u64
  r_rgbaq :: u64
  r_scanmsk :: u64
  r_st :: u64
  r_texa :: u64
  r_texclut :: u64
  r_texflush :: u64
  r_uv :: u64
  r_ctx0 :: GSContext
  r_ctx1 :: GSContext

record GSPriv =
  p_csr :: u64
  p_siglblid :: u64
  p_dispfb1 :: u64
  p_display1 :: u64
  p_dispfb2 :: u64
  p_display2 :: u64
  p_bgcolor :: u64

text \<open>The transfer registers, the transfer position and local memory are the part \<open>xf\<close>.\<close>

record GS =
  xf :: gs
  m_registers :: GSGpr
  m_vtxQueue :: "GSVertex list"
  m_vtxCount :: nat
  m_vtxIndex :: nat
  m_privRegs :: "GSPriv option"
  m_texture_page_cache :: TexturePageCache
  m_clut :: clut_state
  m_nativeImageUploadCount :: u64
  m_nativePackedGIFPacketCount :: u64

definition kMaxVerts :: nat where "kMaxVerts = 6"

text \<open>\<open>Bitfield::Store\<close>.\<close>

definition store_field :: "nat \<Rightarrow> nat \<Rightarrow> u64 \<Rightarrow> u64 \<Rightarrow> u64" where
  "store_field off n v r = (r AND NOT (push_bit off (mask n))) OR (push_bit off v AND push_bit off (mask n))"

definition on_xf :: "(gs \<Rightarrow> gs option) \<Rightarrow> GS \<Rightarrow> GS option" where
  "on_xf f g = map_option (\<lambda>x. g\<lparr>xf := x\<rparr>) (f (xf g))"

definition upd_regs :: "(GSGpr \<Rightarrow> GSGpr) \<Rightarrow> GS \<Rightarrow> GS" where
  "upd_regs f g = g\<lparr>m_registers := f (m_registers g)\<rparr>"

definition upd_ctx :: "bool \<Rightarrow> (GSContext \<Rightarrow> GSContext) \<Rightarrow> GS \<Rightarrow> GS" where
  "upd_ctx second f = upd_regs (\<lambda>r. if second then r\<lparr>r_ctx1 := f (r_ctx1 r)\<rparr> else r\<lparr>r_ctx0 := f (r_ctx0 r)\<rparr>)"

definition upd_priv :: "(GSPriv \<Rightarrow> GSPriv) \<Rightarrow> GS \<Rightarrow> GS" where
  "upd_priv f g = g\<lparr>m_privRegs := map_option f (m_privRegs g)\<rparr>"

section \<open>Vertices\<close>

definition prim_type :: "GS \<Rightarrow> nat" where "prim_type g = unat (bitfield 0 3 (r_prim (m_registers g)))"

text \<open>The vertices a primitive needs: point, line, line strip, triangle, strip, fan, sprite.\<close>

definition prim_needed :: "nat \<Rightarrow> nat option" where
  "prim_needed p = (if p = 0 then Some 1 else if p = 1 \<or> p = 2 \<or> p = 6 then Some 2
     else if p = 3 \<or> p = 4 \<or> p = 5 then Some 3 else None)"

text \<open>What stays in the queue after a primitive.\<close>

definition prim_shift :: "nat \<Rightarrow> GS \<Rightarrow> GS" where
  "prim_shift p g =
     (let q = m_vtxQueue g
      in if p = 2 then g\<lparr>m_vtxQueue := q[0 := q ! 1], m_vtxCount := 1\<rparr>
         else if p = 4 then g\<lparr>m_vtxQueue := q[0 := q ! 1, 1 := q ! 2], m_vtxCount := 2\<rparr>
         else if p = 5 then g\<lparr>m_vtxQueue := q[1 := q ! 2], m_vtxCount := 2\<rparr>
         else g\<lparr>m_vtxCount := 0\<rparr>)"

text \<open>\<open>int\<close> counters must not overflow.\<close>

definition vertexKick :: "(GS \<Rightarrow> GS option) \<Rightarrow> bool \<Rightarrow> GS \<Rightarrow> GS option" where
  "vertexKick draw drawing g =
     (if m_vtxCount g \<ge> 2 ^ 31 - 1 \<or> m_vtxIndex g \<ge> 2 ^ 31 - 1 then None
      else let g1 = g\<lparr>m_vtxCount := m_vtxCount g + 1, m_vtxIndex := m_vtxIndex g + 1\<rparr>
           in if \<not> drawing then Some g1
              else (case prim_needed (prim_type g1) of None \<Rightarrow> Some g1
                    | Some needed \<Rightarrow>
                        if m_vtxCount g1 < needed then Some g1
                        else map_option (prim_shift (prim_type g1)) (draw g1)))"

definition put_vertex :: "GSVertex \<Rightarrow> GS \<Rightarrow> GS" where
  "put_vertex v g = g\<lparr>m_vtxQueue := (m_vtxQueue g)[m_vtxCount g mod kMaxVerts := v]\<rparr>"

text \<open>A vertex at the given position with the colour and texture coordinates of the registers.\<close>

definition vertex_at :: "GS \<Rightarrow> u16 \<Rightarrow> u16 \<Rightarrow> nat \<Rightarrow> u8 \<Rightarrow> GSVertex" where
  "vertex_at g x y z f =
     (let r = m_registers g; c = r_rgbaq r; st = r_st r; uv = r_uv r
      in \<lparr>vx = x, vy = y, vz = z, vr = ucast (bitfield 0 8 c), vg = ucast (bitfield 8 8 c),
          vb = ucast (bitfield 16 8 c), va = ucast (bitfield 24 8 c), vtx_q = bitfield 32 32 c,
          vtx_s = bitfield 0 32 st, vtx_t = bitfield 32 32 st, vu = ucast (bitfield 0 14 uv),
          vv = ucast (bitfield 16 14 uv), vfog = f\<rparr>)"

definition fog_value :: "GS \<Rightarrow> u8" where "fog_value g = ucast (bitfield 56 8 (r_fog (m_registers g)))"

text \<open>The distance of two floats around a number, and the number as the nearest \<open>float\<close>, ties to even.\<close>

fun float_ulp :: "nat \<Rightarrow> nat" where
  "float_ulp n = (if n < 2 ^ 24 then 1 else 2 * float_ulp (n div 2))"

declare float_ulp.simps [simp del]

definition float_round :: "nat \<Rightarrow> nat" where
  "float_round n =
     (let u = float_ulp n; k = n div u; r = n mod u
      in (if 2 * r > u \<or> 2 * r = u \<and> odd k then k + 1 else k) * u)"

section \<open>Register writes\<close>

definition one_bits :: u32 where "one_bits = 0x3F800000"

text \<open>\<open>Q\<close> is never left zero, of either sign.\<close>

definition fix_q :: "u64 \<Rightarrow> u64" where
  "fix_q c = (if bitfield 32 31 c = 0 then store_field 32 32 (ucast one_bits) c else c)"

definition set_q1 :: "GS \<Rightarrow> GS" where
  "set_q1 = upd_regs (\<lambda>r. r\<lparr>r_rgbaq := store_field 32 32 (ucast one_bits) (r_rgbaq r)\<rparr>)"

definition reload_clut :: "u64 \<Rightarrow> GS \<Rightarrow> GS option" where
  "reload_clut tex0 g =
     (let psm = bitfield 20 6 tex0; cpsm = bitfield 51 4 tex0; cbp = bitfield 37 14 tex0;
          csm = ucast (bitfield 55 1 tex0); csa = ucast (bitfield 56 5 tex0); cld = ucast (bitfield 61 3 tex0)
      in case m_vram (xf g) of
           Some d \<Rightarrow> map_option (\<lambda>c. g\<lparr>m_clut := c\<rparr>)
                      (ReloadClutCache d (r_texclut (m_registers g)) psm cpsm cbp csm csa cld (m_clut g))
         | None \<Rightarrow> (case clut_decide cld cbp (m_clut g) of (True, _) \<Rightarrow> None | (False, c) \<Rightarrow> Some (g\<lparr>m_clut := c\<rparr>)))"

definition tex2_mask :: u64 where "tex2_mask = 0x0000001FFC0FFFFF"

definition low_masked :: "u64 \<Rightarrow> u32 \<Rightarrow> u32" where
  "low_masked value lo = (lo AND NOT (ucast (drop_bit 32 value))) OR (ucast value AND ucast (drop_bit 32 value))"

text \<open>The registers of the drawing environment, which only keep their value.\<close>

definition write_env :: "u8 \<Rightarrow> u64 \<Rightarrow> GS \<Rightarrow> GS option" where
  "write_env a v g =
     (if a = 0x08 \<or> a = 0x09 then Some (upd_ctx (a = 0x09) (\<lambda>c. c\<lparr>c_clamp := v\<rparr>) g)
      else if a = 0x0A then Some (upd_regs (\<lambda>r. r\<lparr>r_fog := v\<rparr>) g)
      else if a = 0x14 \<or> a = 0x15 then Some (upd_ctx (a = 0x15) (\<lambda>c. c\<lparr>c_tex1 := v\<rparr>) g)
      else if a = 0x18 \<or> a = 0x19 then Some (upd_ctx (a = 0x19) (\<lambda>c. c\<lparr>c_xyoffset := v\<rparr>) g)
      else if a = 0x1A then Some (upd_regs (\<lambda>r. r\<lparr>r_prmodecont := v\<rparr>) g)
      else if a = 0x1B then Some (upd_regs (\<lambda>r. r\<lparr>r_prmode := v\<rparr>) g)
      else if a = 0x1C then Some (upd_regs (\<lambda>r. r\<lparr>r_texclut := v\<rparr>) g)
      else if a = 0x40 \<or> a = 0x41 then Some (upd_ctx (a = 0x41) (\<lambda>c. c\<lparr>c_scissor := v\<rparr>) g)
      else if a = 0x42 \<or> a = 0x43 then Some (upd_ctx (a = 0x43) (\<lambda>c. c\<lparr>c_alpha := v\<rparr>) g)
      else if a = 0x47 \<or> a = 0x48 then Some (upd_ctx (a = 0x48) (\<lambda>c. c\<lparr>c_test := v\<rparr>) g)
      else if a = 0x4C \<or> a = 0x4D then Some (upd_ctx (a = 0x4D) (\<lambda>c. c\<lparr>c_frame := v\<rparr>) g)
      else if a = 0x4E \<or> a = 0x4F then Some (upd_ctx (a = 0x4F) (\<lambda>c. c\<lparr>c_zbuf := v\<rparr>) g)
      else if a = 0x4A \<or> a = 0x4B then Some (upd_ctx (a = 0x4B) (\<lambda>c. c\<lparr>c_fba := v\<rparr>) g)
      else if a = 0x49 then Some (upd_regs (\<lambda>r. r\<lparr>r_pabe := v\<rparr>) g)
      else if a = 0x22 then Some (upd_regs (\<lambda>r. r\<lparr>r_scanmsk := v\<rparr>) g)
      else if a = 0x3D then Some (upd_regs (\<lambda>r. r\<lparr>r_fogcol := v\<rparr>) g)
      else if a = 0x46 then Some (upd_regs (\<lambda>r. r\<lparr>r_colclamp := v\<rparr>) g)
      else if a = 0x3B then Some (upd_regs (\<lambda>r. r\<lparr>r_texa := v\<rparr>) g)
      else Some g)"

text \<open>The registers that reach the privileged side; without it the writes are dropped.\<close>

definition write_priv :: "u8 \<Rightarrow> u64 \<Rightarrow> GS \<Rightarrow> GS option" where
  "write_priv a v g =
     (if a = 0x60 then
        Some (upd_priv (\<lambda>p. p\<lparr>p_siglblid := (p_siglblid p AND 0xFFFFFFFF00000000) OR ucast (low_masked v (ucast (p_siglblid p))),
                              p_csr := p_csr p OR 1\<rparr>) g)
      else if a = 0x61 then Some (upd_priv (\<lambda>p. p\<lparr>p_csr := p_csr p OR 2\<rparr>) g)
      else if a = 0x62 then
        Some (upd_priv (\<lambda>p. p\<lparr>p_siglblid := push_bit 32 (ucast (low_masked v (ucast (drop_bit 32 (p_siglblid p)))))
                                OR (p_siglblid p AND 0xFFFFFFFF)\<rparr>) g)
      else if a = 0x59 then Some (upd_priv (\<lambda>p. p\<lparr>p_dispfb1 := v\<rparr>) g)
      else if a = 0x5A then Some (upd_priv (\<lambda>p. p\<lparr>p_display1 := v\<rparr>) g)
      else if a = 0x5B then Some (upd_priv (\<lambda>p. p\<lparr>p_dispfb2 := v\<rparr>) g)
      else if a = 0x5C then Some (upd_priv (\<lambda>p. p\<lparr>p_display2 := v\<rparr>) g)
      else if a = 0x5F then Some (upd_priv (\<lambda>p. p\<lparr>p_bgcolor := v\<rparr>) g)
      else Some g)"

definition writeRegister :: "(GS \<Rightarrow> GS option) \<Rightarrow> u8 \<Rightarrow> u64 \<Rightarrow> GS \<Rightarrow> GS option" where
  "writeRegister draw a v g =
     (if a = 0x00 then Some ((upd_regs (\<lambda>r. r\<lparr>r_prim := v\<rparr>) g)\<lparr>m_vtxCount := 0, m_vtxIndex := 0\<rparr>)
      else if a = 0x01 then Some (upd_regs (\<lambda>r. r\<lparr>r_rgbaq := fix_q v\<rparr>) g)
      else if a = 0x02 then Some (upd_regs (\<lambda>r. r\<lparr>r_st := v\<rparr>) g)
      else if a = 0x03 then Some (upd_regs (\<lambda>r. r\<lparr>r_uv := v\<rparr>) g)
      else if a = 0x04 \<or> a = 0x0C then
        vertexKick draw (a = 0x04)
          (put_vertex (vertex_at g (ucast v) (ucast (drop_bit 16 v)) (unat (bitfield 32 24 v)) (ucast (drop_bit 56 v))) g)
      else if a = 0x05 \<or> a = 0x0D then
        vertexKick draw (a = 0x05)
          (put_vertex (vertex_at g (ucast v) (ucast (drop_bit 16 v)) (unat (bitfield 32 32 v)) (fog_value g)) g)
      else if a = 0x06 \<or> a = 0x07 then reload_clut v (upd_ctx (a = 0x07) (\<lambda>c. c\<lparr>c_tex0 := v\<rparr>) g)
      else if a = 0x16 \<or> a = 0x17 then
        let g1 = upd_ctx (a = 0x17) (\<lambda>c. c\<lparr>c_tex0 := (c_tex0 c AND tex2_mask) OR (v AND NOT tex2_mask), c_tex2 := v\<rparr>) g
        in reload_clut (c_tex0 (if a = 0x17 then r_ctx1 (m_registers g1) else r_ctx0 (m_registers g1))) g1
      else if a = 0x3F then
        Some ((upd_regs (\<lambda>r. r\<lparr>r_texflush := v\<rparr>) g)
                \<lparr>m_texture_page_cache := InvalidateTexturePageCache (m_texture_page_cache g)\<rparr>)
      else if a = 0x50 then on_xf (write_xfer BITBLTBUF v) g
      else if a = 0x51 then on_xf (write_xfer TRXPOS v) g
      else if a = 0x52 then on_xf (write_xfer TRXREG v) g
      else if a = 0x53 then on_xf (write_xfer TRXDIR v) g
      else if a = 0x54 then on_xf (write_xfer HWREG v) g
      else if a \<ge> 0x59 then write_priv a v g
      else write_env a v g)"

section \<open>Packed registers\<close>

definition writeRegisterPacked :: "(GS \<Rightarrow> GS option) \<Rightarrow> u8 \<Rightarrow> u64 \<Rightarrow> u64 \<Rightarrow> GS \<Rightarrow> GS option" where
  "writeRegisterPacked draw d lo hi g =
     (let x = ucast lo; y = ucast (drop_bit 32 lo); adk = bit hi 47
      in if d = 0x00 then writeRegister draw 0x00 (lo AND 0x7FF) g
         else if d = 0x01 then
           Some (upd_regs (\<lambda>r. r\<lparr>r_rgbaq := store_field 24 8 (drop_bit 32 hi AND 0xFF) (store_field 16 8 (hi AND 0xFF)
                  (store_field 8 8 (drop_bit 32 lo AND 0xFF) (store_field 0 8 (lo AND 0xFF) (r_rgbaq r))))\<rparr>) g)
         else if d = 0x02 then
           Some (upd_regs (\<lambda>r. r\<lparr>r_st := store_field 32 32 (drop_bit 32 lo) (store_field 0 32 (lo AND 0xFFFFFFFF) (r_st r)),
                                 r_rgbaq := fix_q (store_field 32 32 (hi AND 0xFFFFFFFF) (r_rgbaq r))\<rparr>) g)
         else if d = 0x03 then
           Some (upd_regs (\<lambda>r. r\<lparr>r_uv := store_field 16 14 (drop_bit 32 lo AND 0xFFFF) (store_field 0 14 (lo AND 0xFFFF) (r_uv r))\<rparr>) g)
         else if d = 0x04 then
           vertexKick draw (\<not> adk) (put_vertex (vertex_at g x y (float_round (unat (bitfield 4 24 hi))) (ucast (drop_bit 36 hi))) g)
         else if d = 0x05 then
           vertexKick draw (\<not> adk) (put_vertex (vertex_at g x y (float_round (unat (bitfield 0 32 hi))) (fog_value g)) g)
         else if d = 0x0A then
           Some (upd_regs (\<lambda>r. r\<lparr>r_fog := store_field 56 8 (drop_bit 36 hi AND 0xFF) (r_fog r)\<rparr>) g)
         else if d = 0x0C then
           vertexKick draw False (put_vertex (vertex_at g x y (float_round (unat (bitfield 4 24 hi))) (ucast (drop_bit 36 hi))) g)
         else if d = 0x0D then
           vertexKick draw False (put_vertex (vertex_at g x y (float_round (unat (bitfield 0 32 hi))) (fog_value g)) g)
         else if d = 0x0E then writeRegister draw (ucast hi) lo g
         else if d = 0x0F then Some g
         else writeRegister draw d lo g)"

end
