(* ===== verification/GifPacket.thy ===== *)
theory GifPacket
  imports GSRegisters
begin

text \<open>
  GIF packets (\<open>ps2_gs_gpu.cpp\<close>, \<open>ps2_gif_arbiter.cpp\<close>): tags and their payloads in the packed,
  register list and image formats, payloads that continue in the next packet, the two shortcuts for
  common packets, and the arbiter that orders the packets of the three paths. Offsets are numbers,
  as for packets whose size plus 16 fits 32 bits; a load past the packet is \<open>None\<close>.
\<close>

section \<open>Tags\<close>

definition loadLE64 :: "u8 list \<Rightarrow> nat \<Rightarrow> u64 option" where
  "loadLE64 data off = (if off + 8 \<le> length data then Some (word_of_bytes (take 8 (drop off data))) else None)"

definition load_qword :: "u8 list \<Rightarrow> nat \<Rightarrow> (u64 \<times> u64) option" where
  "load_qword data off =
     (case loadLE64 data off of None \<Rightarrow> None
      | Some lo \<Rightarrow> map_option (\<lambda>hi. (lo, hi)) (loadLE64 data (off + 8)))"

definition tag_nloop :: "u64 \<Rightarrow> nat" where "tag_nloop lo = unat (lo AND 0x7FFF)"
definition tag_flg :: "u64 \<Rightarrow> nat" where "tag_flg lo = unat (drop_bit 58 lo AND 3)"
definition tag_nreg :: "u64 \<Rightarrow> nat" where
  "tag_nreg lo = (let n = unat (drop_bit 60 lo AND 0xF) in if n = 0 then 16 else n)"
definition tag_pre :: "u64 \<Rightarrow> bool" where "tag_pre lo = bit lo 46"
definition tag_regs :: "u64 \<Rightarrow> u64 \<Rightarrow> u8 list" where
  "tag_regs lo hi = map (\<lambda>i. ucast (drop_bit (4 * i) hi AND 0xF)) [0..<tag_nreg lo]"

text \<open>The effects of a tag before its payload: \<open>Q\<close> becomes 1, and \<open>PRE\<close> writes \<open>PRIM\<close>.\<close>

definition tag_start :: "(GS \<Rightarrow> GS option) \<Rightarrow> u64 \<Rightarrow> GS \<Rightarrow> GS option" where
  "tag_start draw lo g =
     (if tag_pre lo then writeRegister draw 0x00 (drop_bit 47 lo AND 0x7FF) (set_q1 g) else Some (set_q1 g))"

section \<open>Payloads\<close>

text \<open>
  The register loops, flattened: \<open>k\<close> items are left and \<open>i\<close> are done. The first component of the
  result tells that the packet ended early.
\<close>

primrec packed_items ::
  "(GS \<Rightarrow> GS option) \<Rightarrow> u8 list \<Rightarrow> u8 list \<Rightarrow> nat \<Rightarrow> nat \<Rightarrow> nat \<Rightarrow> GS \<Rightarrow> (bool \<times> nat \<times> GS) option" where
  "packed_items draw data regs 0 i off g = Some (False, off, g)"
| "packed_items draw data regs (Suc k) i off g =
     (if off + 16 > length data then Some (True, off, g)
      else case load_qword data off of None \<Rightarrow> None
           | Some (lo, hi) \<Rightarrow>
               (case writeRegisterPacked draw (regs ! (i mod length regs)) lo hi g of None \<Rightarrow> None
                | Some g' \<Rightarrow> packed_items draw data regs k (i + 1) (off + 16) g'))"

primrec reglist_items ::
  "(GS \<Rightarrow> GS option) \<Rightarrow> u8 list \<Rightarrow> u8 list \<Rightarrow> nat \<Rightarrow> nat \<Rightarrow> nat \<Rightarrow> GS \<Rightarrow> (bool \<times> nat \<times> GS) option" where
  "reglist_items draw data regs 0 i off g = Some (False, off, g)"
| "reglist_items draw data regs (Suc k) i off g =
     (if off + 8 > length data then Some (True, off, g)
      else case loadLE64 data off of None \<Rightarrow> None
           | Some v \<Rightarrow>
               (case writeRegister draw (regs ! (i mod length regs)) v g of None \<Rightarrow> None
                | Some g' \<Rightarrow> reglist_items draw data regs k (i + 1) (off + 8) g'))"

definition pending :: "GS \<Rightarrow> u64" where "pending g = m_pendingImageBytes (xf g)"

definition set_pending :: "u64 \<Rightarrow> GS \<Rightarrow> GS" where
  "set_pending n g = g\<lparr>xf := (xf g)\<lparr>m_pendingImageBytes := n\<rparr>\<rparr>"

definition image_payload :: "u8 list \<Rightarrow> nat \<Rightarrow> nat \<Rightarrow> GS \<Rightarrow> (bool \<times> nat \<times> GS) option" where
  "image_payload data nloop off g =
     (let requested = nloop * 16;
          imageBytes = min requested (length data - off);
          g1 = set_pending (of_nat (requested - imageBytes)) g
      in case (if imageBytes \<noteq> 0 then on_xf (processImageData (take imageBytes (drop off data))) g1 else Some g1) of
           None \<Rightarrow> None
         | Some g2 \<Rightarrow> Some (pending g2 \<noteq> 0, off + imageBytes, g2))"

definition tag_payload :: "(GS \<Rightarrow> GS option) \<Rightarrow> u8 list \<Rightarrow> u64 \<Rightarrow> u64 \<Rightarrow> nat \<Rightarrow> GS \<Rightarrow> (bool \<times> nat \<times> GS) option" where
  "tag_payload draw data lo hi off g =
     (let n = tag_nloop lo * tag_nreg lo; regs = tag_regs lo hi
      in if tag_flg lo = 0 then packed_items draw data regs n 0 off g
         else if tag_flg lo = 1 then
           map_option (\<lambda>(stop, off', g'). (stop, if \<not> stop \<and> odd n then off' + 8 else off', g'))
             (reglist_items draw data regs n 0 off g)
         else if tag_flg lo = 2 then image_payload data (tag_nloop lo) off g
         else Some (False, off, g))"

lemma packed_items_mono: "packed_items draw data regs k i off g = Some (s, off', g') \<Longrightarrow> off \<le> off'"
  by (induction k arbitrary: i off g) (force split: if_splits option.splits prod.splits)+

lemma reglist_items_mono: "reglist_items draw data regs k i off g = Some (s, off', g') \<Longrightarrow> off \<le> off'"
  by (induction k arbitrary: i off g) (force split: if_splits option.splits)+

lemma tag_payload_mono: "tag_payload draw data lo hi off g = Some (s, off', g') \<Longrightarrow> off \<le> off'"
  by (auto simp: tag_payload_def image_payload_def Let_def split: if_splits option.splits
      dest!: packed_items_mono reglist_items_mono)

function gif_loop :: "(GS \<Rightarrow> GS option) \<Rightarrow> u8 list \<Rightarrow> nat \<Rightarrow> GS \<Rightarrow> GS option" where
  "gif_loop draw data off g =
     (if off + 16 \<le> length data then
        (case load_qword data off of None \<Rightarrow> None
         | Some (lo, hi) \<Rightarrow>
             (case tag_start draw lo g of None \<Rightarrow> None
              | Some g1 \<Rightarrow>
                  (case tag_payload draw data lo hi (off + 16) g1 of None \<Rightarrow> None
                   | Some (stop, off', g2) \<Rightarrow> if stop then Some g2 else gif_loop draw data off' g2)))
      else Some g)"
  by pat_completeness auto
termination
  by (relation "measure (\<lambda>(draw, data, off, g). length data - off)") (auto dest!: tag_payload_mono)

declare gif_loop.simps [simp del]

section \<open>Shortcuts\<close>

definition uploadImageNative :: "(GS \<Rightarrow> GS option) \<Rightarrow> u64 \<Rightarrow> u64 \<Rightarrow> u64 \<Rightarrow> u64 \<Rightarrow> u8 list \<Rightarrow> GS \<Rightarrow> GS option" where
  "uploadImageNative draw b p r d data g =
     (if data = [] \<or> m_vram (xf g) = None then Some g
      else map_option (\<lambda>g. g\<lparr>m_nativeImageUploadCount := m_nativeImageUploadCount g + 1\<rparr>)
        (Option.bind (Option.bind (Option.bind (Option.bind (writeRegister draw 0x50 b g)
           (writeRegister draw 0x51 p)) (writeRegister draw 0x52 r)) (writeRegister draw 0x53 d))
           (on_xf (processImageData data))))"

text \<open>
  The packet the shortcut takes: one tag that sets the four transfer registers, one \<open>IMAGE\<close> tag,
  and its whole payload.
\<close>

definition native_upload :: "u8 list \<Rightarrow> (u64 \<times> u64 \<times> u64 \<times> u64 \<times> u8 list) option" where
  "native_upload data =
     (case (load_qword data 0, load_qword data 16, load_qword data 32, load_qword data 48, load_qword data 64,
            load_qword data 80) of
        (Some (lo, hi), Some (b, b'), Some (p, p'), Some (r, r'), Some (d, d'), Some (ilo, ihi)) \<Rightarrow>
          if tag_nloop lo = 4 \<and> tag_flg lo = 0 \<and> tag_nreg lo = 1 \<and> hi AND 0xF = 0xE
             \<and> b' AND 0xFF = 0x50 \<and> p' AND 0xFF = 0x51 \<and> r' AND 0xFF = 0x52 \<and> d' AND 0xFF = 0x53
             \<and> d AND 3 = 0 \<and> r AND 0xFFF \<noteq> 0 \<and> drop_bit 32 r AND 0xFFF \<noteq> 0
             \<and> tag_flg ilo = 2 \<and> tag_nloop ilo \<noteq> 0 \<and> 96 + tag_nloop ilo * 16 = length data
          then Some (b, p, r, d, drop 96 data) else None
      | _ \<Rightarrow> None)"

definition tryProcessNativeImageUploadPacket :: "(GS \<Rightarrow> GS option) \<Rightarrow> u8 list \<Rightarrow> GS \<Rightarrow> (bool \<times> GS) option" where
  "tryProcessNativeImageUploadPacket draw data g =
     (case native_upload data of None \<Rightarrow> Some (False, g)
      | Some (b, p, r, d, img) \<Rightarrow> map_option (\<lambda>g'. (True, g')) (uploadImageNative draw b p r d img g))"

definition processGIFPacket :: "(GS \<Rightarrow> GS option) \<Rightarrow> u8 list \<Rightarrow> GS \<Rightarrow> GS option" where
  "processGIFPacket draw data g =
     (if data = [] \<or> m_vram (xf g) = None then Some g
      else if pending g \<noteq> 0 then
        let n = min (unat (pending g)) (length data)
        in (case on_xf (processImageData (take n data)) (set_pending (pending g - of_nat n) g) of None \<Rightarrow> None
            | Some g1 \<Rightarrow> if n \<ge> length data then Some g1 else gif_loop draw data n g1)
      else if length data \<ge> 16 then
        (case tryProcessNativeImageUploadPacket draw data g of None \<Rightarrow> None
         | Some (True, g1) \<Rightarrow> Some g1
         | Some (False, g1) \<Rightarrow> gif_loop draw data 0 g1)
      else gif_loop draw data 0 g)"

text \<open>Packets of packed tags only: first all tags are checked, then they run without checks.\<close>

function valid_packed :: "u8 list \<Rightarrow> nat \<Rightarrow> bool" where
  "valid_packed data off =
     (if off + 16 \<le> length data then
        (case load_qword data off of None \<Rightarrow> False
         | Some (lo, hi) \<Rightarrow>
             let bytes = tag_nloop lo * tag_nreg lo * 16
             in tag_flg lo = 0 \<and> bytes \<le> length data - (off + 16) \<and> valid_packed data (off + 16 + bytes))
      else off = length data)"
  by pat_completeness auto
termination
  by (relation "measure (\<lambda>(data, off). length data - off)") auto

declare valid_packed.simps [simp del]

primrec packed_run ::
  "(GS \<Rightarrow> GS option) \<Rightarrow> u8 list \<Rightarrow> u8 list \<Rightarrow> nat \<Rightarrow> nat \<Rightarrow> nat \<Rightarrow> GS \<Rightarrow> GS option" where
  "packed_run draw data regs 0 i off g = Some g"
| "packed_run draw data regs (Suc k) i off g =
     (case load_qword data off of None \<Rightarrow> None
      | Some (lo, hi) \<Rightarrow>
          (case writeRegisterPacked draw (regs ! (i mod length regs)) lo hi g of None \<Rightarrow> None
           | Some g' \<Rightarrow> packed_run draw data regs k (i + 1) (off + 16) g'))"

function visit_packed :: "(GS \<Rightarrow> GS option) \<Rightarrow> u8 list \<Rightarrow> nat \<Rightarrow> GS \<Rightarrow> (bool \<times> GS) option" where
  "visit_packed draw data off g =
     (if off + 16 \<le> length data then
        (case load_qword data off of None \<Rightarrow> None
         | Some (lo, hi) \<Rightarrow>
             let n = tag_nloop lo * tag_nreg lo
             in if tag_flg lo \<noteq> 0 \<or> n * 16 > length data - (off + 16) then Some (False, g)
                else (case Option.bind (tag_start draw lo g) (packed_run draw data (tag_regs lo hi) n 0 (off + 16)) of
                        None \<Rightarrow> None
                      | Some g' \<Rightarrow> visit_packed draw data (off + 16 + n * 16) g'))
      else Some (off = length data, g))"
  by pat_completeness auto
termination
  by (relation "measure (\<lambda>(draw, data, off, g). length data - off)") auto

declare visit_packed.simps [simp del]

definition processNativePackedGIFPacket :: "(GS \<Rightarrow> GS option) \<Rightarrow> u8 list \<Rightarrow> GS \<Rightarrow> (bool \<times> GS) option" where
  "processNativePackedGIFPacket draw data g =
     (if length data < 16 \<or> m_vram (xf g) = None \<or> \<not> valid_packed data 0 then Some (False, g)
      else map_option (\<lambda>(ok, g'). if ok then (True, g'\<lparr>m_nativePackedGIFPacketCount := m_nativePackedGIFPacketCount g' + 1\<rparr>)
                                  else (False, g'))
             (visit_packed draw data 0 g))"

section \<open>The arbiter\<close>

datatype GifPathId = Path1 | Path2 | Path3

record GifArbiterPacket =
  pathId :: GifPathId
  path2DirectHl :: bool
  path3Image :: bool
  pkt_data :: "u8 list"

fun pathPriority :: "GifPathId \<Rightarrow> nat" where
  "pathPriority Path1 = 1" | "pathPriority Path2 = 2" | "pathPriority Path3 = 3"

definition isImagePacket :: "u8 list \<Rightarrow> bool" where
  "isImagePacket data \<longleftrightarrow> length data \<ge> 16 \<and> (case loadLE64 data 0 of Some lo \<Rightarrow> tag_flg lo = 2 | None \<Rightarrow> False)"

definition submit :: "GifPathId \<Rightarrow> u8 list \<Rightarrow> bool \<Rightarrow> GifArbiterPacket list \<Rightarrow> GifArbiterPacket list" where
  "submit path data directHl q =
     (if length data < 16 then q
      else q @ [\<lparr>pathId = path, path2DirectHl = (path = Path2 \<and> directHl),
                 path3Image = (path = Path3 \<and> isImagePacket data), pkt_data = data\<rparr>])"

definition packet_before :: "GifArbiterPacket \<Rightarrow> GifArbiterPacket \<Rightarrow> bool" where
  "packet_before a b =
     (if path2DirectHl a \<noteq> path2DirectHl b \<or> path3Image a \<noteq> path3Image b then
        if path3Image a \<and> path2DirectHl b then True
        else if path2DirectHl a \<and> path3Image b then False
        else pathPriority (pathId a) < pathPriority (pathId b)
      else pathPriority (pathId a) < pathPriority (pathId b))"

text \<open>\<open>std::stable_sort\<close>: what it returns when the comparison is a strict weak ordering.\<close>

primrec stable_insert :: "('a \<Rightarrow> 'a \<Rightarrow> bool) \<Rightarrow> 'a \<Rightarrow> 'a list \<Rightarrow> 'a list" where
  "stable_insert before x [] = [x]"
| "stable_insert before x (y # ys) = (if before y x then y # stable_insert before x ys else x # y # ys)"

definition stable_sort :: "('a \<Rightarrow> 'a \<Rightarrow> bool) \<Rightarrow> 'a list \<Rightarrow> 'a list" where
  "stable_sort before xs = foldr (stable_insert before) xs []"

primrec run_packets :: "(u8 list \<Rightarrow> 's \<Rightarrow> 's option) \<Rightarrow> GifArbiterPacket list \<Rightarrow> 's \<Rightarrow> 's option" where
  "run_packets process [] s = Some s"
| "run_packets process (p # ps) s =
     (case (if pkt_data p \<noteq> [] then process (pkt_data p) s else Some s) of None \<Rightarrow> None
      | Some s' \<Rightarrow> run_packets process ps s')"

definition drain ::
  "(u8 list \<Rightarrow> 's \<Rightarrow> 's option) \<Rightarrow> GifArbiterPacket list \<Rightarrow> 's \<Rightarrow> (GifArbiterPacket list \<times> 's) option" where
  "drain process q s = map_option (\<lambda>s'. ([], s')) (run_packets process (stable_sort packet_before q) s)"

end
