(* ===== verification/EEMemory.thy ===== *)
theory EEMemory
  imports GuestMemory
begin

text \<open>
  The EE address space behind the fast path: the segment predicates of \<open>runtime/ps2_address.h\<close>, the
  software TLB and \<open>translateAddress\<close>, the window of the VU memories, and the bitmaps that track
  writes to registered code regions (\<open>ps2_memory.cpp\<close>). A thrown \<open>std::runtime_error\<close> is \<open>None\<close>.
\<close>

section \<open>Segments\<close>

definition Ps2AddressInRange :: "u32 \<Rightarrow> u32 \<Rightarrow> u32 \<Rightarrow> bool" where
  "Ps2AddressInRange v base sz \<longleftrightarrow> v - base < sz"

definition Ps2IsUncachedRamMirrorAddress :: "u32 \<Rightarrow> bool" where
  "Ps2IsUncachedRamMirrorAddress addr \<longleftrightarrow> Ps2AddressInRange addr 0x20000000 0x20000000"

definition Ps2IsKseg01Address :: "u32 \<Rightarrow> bool" where
  "Ps2IsKseg01Address addr \<longleftrightarrow> Ps2AddressInRange addr 0x80000000 0x40000000"

definition Ps2IsKseg23Address :: "u32 \<Rightarrow> bool" where
  "Ps2IsKseg23Address addr \<longleftrightarrow> addr \<ge> 0xC0000000"

definition Ps2DirectMappedPhysicalAddress :: "u32 \<Rightarrow> u32" where
  "Ps2DirectMappedPhysicalAddress addr = addr AND 0x1FFFFFFF"

definition Ps2PhysicalAddress :: "u32 \<Rightarrow> u32" where
  "Ps2PhysicalAddress addr = (if addr \<ge> 0x80000000 then Ps2DirectMappedPhysicalAddress addr else addr)"

definition Ps2IsPhysicalSpecialAddress :: "u32 \<Rightarrow> bool" where
  "Ps2IsPhysicalSpecialAddress physAddr \<longleftrightarrow>
     Ps2AddressInRange physAddr 0x1FC00000 (4 * 1024 * 1024)
   \<or> Ps2AddressInRange physAddr PS2_SCRATCHPAD_BASE PS2_SCRATCHPAD_SIZE
   \<or> Ps2AddressInRange physAddr 0x10000000 0x10000
   \<or> Ps2AddressInRange physAddr 0x12000000 0x2000
   \<or> (physAddr \<ge> 0x11004000 \<and> physAddr < 0x11008000 + 16 * 1024)"

definition Ps2IsSpecialAddress :: "u32 \<Rightarrow> bool" where
  "Ps2IsSpecialAddress addr \<longleftrightarrow>
     (if Ps2IsKseg23Address addr then True else Ps2IsPhysicalSpecialAddress (Ps2PhysicalAddress addr))"

section \<open>TLB\<close>

record tlb_entry =
  tlb_vpn :: u32
  tlb_pfn :: u32
  tlb_mask :: u32
  tlb_valid :: bool

text \<open>The test both \<open>translateAddress\<close> and \<open>tlbProbe\<close> make on a valid entry.\<close>

definition tlb_match :: "u32 \<Rightarrow> tlb_entry \<Rightarrow> bool" where
  "tlb_match v e \<longleftrightarrow> tlb_valid e \<and>
     (let msk = tlb_mask e AND 0x01FFE000; compareMask = NOT (msk OR 0xFFF)
      in v AND compareMask = tlb_vpn e AND compareMask)"

fun tlb_walk :: "u32 \<Rightarrow> tlb_entry list \<Rightarrow> u32 option" where
  "tlb_walk v [] = None"
| "tlb_walk v (e # es) =
     (if tlb_match v e
      then Some (push_bit 12 (tlb_pfn e) OR (v AND ((tlb_mask e AND 0x01FFE000) OR 0xFFF)))
      else tlb_walk v es)"

definition translateAddress :: "tlb_entry list \<Rightarrow> u32 \<Rightarrow> u32 option" where
  "translateAddress tlb virtualAddress =
     (if ps2IsScratchpadAddress virtualAddress then Some (ps2ScratchpadOffset virtualAddress)
      else if Ps2IsUncachedRamMirrorAddress virtualAddress then Some (virtualAddress AND PS2_RAM_MASK)
      else if Ps2IsKseg01Address virtualAddress then Some (Ps2DirectMappedPhysicalAddress virtualAddress)
      else if virtualAddress < 0x80000000 then Some virtualAddress
      else if Ps2IsKseg23Address virtualAddress then tlb_walk virtualAddress tlb
      else Some virtualAddress)"

definition tlbRead :: "tlb_entry list \<Rightarrow> u32 \<Rightarrow> (u32 \<times> u32 \<times> u32 \<times> bool) option" where
  "tlbRead tlb index =
     (if unat index \<ge> length tlb then None
      else let e = tlb ! unat index in Some (tlb_vpn e, tlb_pfn e, tlb_mask e, tlb_valid e))"

definition tlbWrite :: "u32 \<Rightarrow> u32 \<Rightarrow> u32 \<Rightarrow> u32 \<Rightarrow> bool \<Rightarrow> tlb_entry list \<Rightarrow> bool \<times> tlb_entry list" where
  "tlbWrite index vpn pfn msk valid tlb =
     (if unat index \<ge> length tlb then (False, tlb)
      else (True, tlb[unat index := \<lparr>tlb_vpn = vpn AND 0xFFFFF000, tlb_pfn = pfn AND 0x000FFFFF,
                                     tlb_mask = msk AND 0x01FFE000, tlb_valid = valid\<rparr>]))"

fun probe_from :: "nat \<Rightarrow> u32 \<Rightarrow> tlb_entry list \<Rightarrow> nat option" where
  "probe_from i v [] = None"
| "probe_from i v (e # es) = (if tlb_match v e then Some i else probe_from (Suc i) v es)"

definition tlbProbe :: "tlb_entry list \<Rightarrow> u32 \<Rightarrow> int" where
  "tlbProbe tlb vpn = (case probe_from 0 (vpn AND 0xFFFFF000) tlb of Some i \<Rightarrow> int i | None \<Rightarrow> -1)"

definition tlb_initial :: "tlb_entry list" where
  "tlb_initial = replicate 48 \<lparr>tlb_vpn = 0, tlb_pfn = 0, tlb_mask = 0, tlb_valid = False\<rparr>"

section \<open>VU memory window\<close>

datatype vu_array = Vu0Code | Vu0Data | Vu1Code | Vu1Data

text \<open>\<open>mapRange\<close> for an allocated array: the offset and the limit, or \<open>None\<close> for a null pointer.\<close>

definition mapRange :: "u32 \<Rightarrow> u32 \<Rightarrow> u32 \<Rightarrow> u32 \<Rightarrow> (u32 \<times> u32) option" where
  "mapRange physAddr sz base rangeSize =
     (if physAddr < base then None
      else let local = physAddr - base in
        if local \<ge> rangeSize \<or> sz > rangeSize - local then None else Some (local, rangeSize))"

definition mapVuMemory :: "(vu_array \<Rightarrow> bool) \<Rightarrow> u32 \<Rightarrow> u32 \<Rightarrow> (vu_array \<times> u32 \<times> u32) option" where
  "mapVuMemory allocated physAddr sz =
     (let try_range = (\<lambda>arr base rangeSize.
            if allocated arr then map_option (Pair arr) (mapRange physAddr sz base rangeSize) else None)
      in case try_range Vu0Code 0x11000000 (4 * 1024) of Some r \<Rightarrow> Some r | None \<Rightarrow>
        (case try_range Vu0Data 0x11004000 (4 * 1024) of Some r \<Rightarrow> Some r | None \<Rightarrow>
          (case try_range Vu1Code 0x11008000 (16 * 1024) of Some r \<Rightarrow> Some r | None \<Rightarrow>
             try_range Vu1Data 0x1100C000 (16 * 1024))))"

section \<open>Code regions\<close>

record code_region =
  cr_start :: u32
  cr_end :: u32
  cr_modified :: "bool list"

definition registerCodeRegion :: "u32 \<Rightarrow> u32 \<Rightarrow> code_region list \<Rightarrow> code_region list" where
  "registerCodeRegion start end regs =
     (if end \<le> start then regs
      else if end - start > PS2_RAM_SIZE then regs
      else if list_ex (\<lambda>r. cr_start r = start \<and> cr_end r = end) regs then regs
      else regs @ [\<lparr>cr_start = start, cr_end = end,
                    cr_modified = replicate (unat ((end - start + 3) div 4)) False\<rparr>])"

definition isCodeAddress :: "code_region list \<Rightarrow> u32 \<Rightarrow> bool" where
  "isCodeAddress regs address = list_ex (\<lambda>r. address \<ge> cr_start r \<and> address < cr_end r) regs"

text \<open>The part of a region that \<open>[address, address + sz)\<close> overlaps, computed in 64 bits.\<close>

definition overlap :: "u32 \<Rightarrow> u32 \<Rightarrow> code_region \<Rightarrow> (u32 \<times> u32) option" where
  "overlap address sz r =
     (let writeEnd = ucast address + ucast sz :: u64;
          regionStart = ucast (cr_start r); regionEnd = ucast (cr_end r)
      in if writeEnd \<le> regionStart \<or> ucast address \<ge> regionEnd then None
         else Some (ucast (max (ucast address) regionStart), ucast (min writeEnd regionEnd)))"

text \<open>
  The loop \<open>for (addr = overlapStart; addr < overlapEnd; addr += 4)\<close> of \<open>markModified\<close> and
  \<open>clearModifiedFlag\<close>, which store \<open>v\<close>. The 32-bit counter may wrap around, so the loop need not end.
\<close>

partial_function (option) set_flags :: "bool \<Rightarrow> u32 \<Rightarrow> u32 \<Rightarrow> u32 \<Rightarrow> bool list \<Rightarrow> bool list option" where
  [code]: "set_flags v start addr overlapEnd flags =
     (if addr < overlapEnd
      then set_flags v start (addr + 4) overlapEnd
             (let bitIndex = unat ((addr - start) div 4)
              in if bitIndex < length flags then flags[bitIndex := v] else flags)
      else Some flags)"

partial_function (option) any_flag :: "u32 \<Rightarrow> u32 \<Rightarrow> u32 \<Rightarrow> bool list \<Rightarrow> bool option" where
  [code]: "any_flag start addr overlapEnd flags =
     (if addr < overlapEnd
      then (let bitIndex = unat ((addr - start) div 4)
            in if bitIndex < length flags \<and> flags ! bitIndex then Some True
               else any_flag start (addr + 4) overlapEnd flags)
      else Some False)"

definition set_region :: "bool \<Rightarrow> u32 \<Rightarrow> u32 \<Rightarrow> code_region \<Rightarrow> code_region option" where
  "set_region v address sz r = (case overlap address sz r of
      None \<Rightarrow> Some r
    | Some (s, e) \<Rightarrow> map_option (\<lambda>fl. r\<lparr>cr_modified := fl\<rparr>) (set_flags v (cr_start r) s e (cr_modified r)))"

definition markModified :: "u32 \<Rightarrow> u32 \<Rightarrow> code_region list \<Rightarrow> code_region list option" where
  "markModified address sz regs = (if sz = 0 then Some regs else those (map (set_region True address sz) regs))"

definition clearModifiedFlag :: "u32 \<Rightarrow> u32 \<Rightarrow> code_region list \<Rightarrow> code_region list option" where
  "clearModifiedFlag address sz regs = (if sz = 0 then Some regs else those (map (set_region False address sz) regs))"

fun modified_from :: "u32 \<Rightarrow> u32 \<Rightarrow> code_region list \<Rightarrow> bool option" where
  "modified_from address sz [] = Some False"
| "modified_from address sz (r # rs) =
     (case (case overlap address sz r of None \<Rightarrow> Some False
            | Some (s, e) \<Rightarrow> any_flag (cr_start r) s e (cr_modified r)) of
        None \<Rightarrow> None | Some True \<Rightarrow> Some True | Some False \<Rightarrow> modified_from address sz rs)"

definition isCodeModified :: "u32 \<Rightarrow> u32 \<Rightarrow> code_region list \<Rightarrow> bool option" where
  "isCodeModified address sz regs = (if sz = 0 then Some False else modified_from address sz regs)"

section \<open>Translation\<close>

lemma tlb_match_page: "tlb_match (v AND 0xFFFFF000) e = tlb_match v e"
proof -
  have page: "(0xFFFFF000 :: u32) = NOT 0xFFF" by simp
  have "(v AND NOT 0xFFF) AND NOT (m OR 0xFFF) = v AND NOT (m OR (0xFFF :: u32))" for m
  proof -
    have "NOT (m OR (0xFFF :: u32)) = NOT 0xFFF AND NOT m" by (simp only: bit.de_Morgan_disj and.commute)
    then show ?thesis by (simp only: and.assoc and.left_idem)
  qed
  then show ?thesis unfolding page by (simp only: tlb_match_def Let_def)
qed

lemma probe_from_shift: "probe_from i v es = map_option (\<lambda>j. i + j) (probe_from 0 v es)"
proof (induction es arbitrary: i)
  case (Cons e es)
  show ?case using Cons.IH [of "Suc i"] Cons.IH [of 1]
    by (auto simp: option.map_comp comp_def)
qed simp

lemma tlb_walk_probe:
  "tlb_walk v es = map_option (\<lambda>i. push_bit 12 (tlb_pfn (es ! i)) OR
      (v AND ((tlb_mask (es ! i) AND 0x01FFE000) OR 0xFFF))) (probe_from 0 v es)"
  by (induction es) (simp_all add: probe_from_shift [of "Suc 0"] option.map_comp comp_def)

lemma probe_from_page: "probe_from i (v AND 0xFFFFF000) es = probe_from i v es"
  by (induction es arbitrary: i) (simp_all add: tlb_match_page)

lemma probe_from_bound: "probe_from 0 v es = Some i \<Longrightarrow> i < length es \<and> tlb_match v (es ! i)"
proof (induction es arbitrary: i)
  case (Cons e es)
  then show ?case
    by (auto simp: probe_from_shift [of "Suc 0"] split: if_splits)
qed simp

lemmas segment_defs = Ps2AddressInRange_def Ps2IsUncachedRamMirrorAddress_def Ps2IsKseg01Address_def
  Ps2IsKseg23Address_def Ps2DirectMappedPhysicalAddress_def ps2IsScratchpadAddress_def

lemma unat_and_mask:
  assumes "w' = (mask n :: u32)"
  shows "unat (w AND w') = unat w mod 2 ^ n"
proof -
  have "w AND w' = take_bit n w" by (simp add: assms take_bit_eq_mask)
  moreover have "unat (take_bit n w) = take_bit n (unat w)" by (rule unsigned_take_bit_eq)
  ultimately show ?thesis by (simp only: take_bit_eq_mod)
qed

lemma unat_direct: "unat (w AND (0x1FFFFFFF :: u32)) = unat w mod 2 ^ 29"
  by (rule unat_and_mask) (simp add: mask_eq_exp_minus_1)

lemma unat_lower: "unat (w AND (0x7FFFFFFF :: u32)) = unat w mod 2 ^ 31"
  by (rule unat_and_mask) (simp add: mask_eq_exp_minus_1)

text \<open>The segment tests as comparisons of numbers.\<close>

lemma uncached_unat: "Ps2IsUncachedRamMirrorAddress w \<longleftrightarrow> 2 ^ 29 \<le> unat w \<and> unat w < 2 ^ 30"
  unfolding segment_defs word_less_nat_alt by (simp add: unat_word_ariths unat_sub_if') (use unat_less_2p [of w] in auto)

lemma kseg01_unat: "Ps2IsKseg01Address w \<longleftrightarrow> 2 ^ 31 \<le> unat w \<and> unat w < 3 * 2 ^ 30"
  unfolding segment_defs word_less_nat_alt by (simp add: unat_sub_if') (use unat_less_2p [of w] in auto)

lemma kseg23_unat: "Ps2IsKseg23Address w \<longleftrightarrow> 3 * 2 ^ 30 \<le> unat w"
  by (simp add: Ps2IsKseg23Address_def word_le_nat_alt)

lemma high_bit_unat: "w AND (0x80000000 :: u32) = 0 \<longleftrightarrow> unat w < 2 ^ 31"
proof -
  have "w AND (0x80000000 :: u32) = 0 \<longleftrightarrow> \<not> bit w 31"
    using and_exp_eq_0_iff_not_bit [of w 31] by simp
  also have "\<dots> \<longleftrightarrow> even (unat w div 2 ^ 31)"
    using bit_iff_odd [of "unat w" 31] by (simp add: bit_unsigned_iff)
  also have "\<dots> \<longleftrightarrow> unat w < 2 ^ 31"
  proof -
    have "unat w div 2 ^ 31 < 2" using unat_less_2p [of w] by (simp add: less_mult_imp_div_less)
    then have "unat w div 2 ^ 31 = 0 \<or> unat w div 2 ^ 31 = 1" by linarith
    then show ?thesis by (auto simp: div_eq_0_iff)
  qed
  finally show ?thesis .
qed

lemma scratch_unat:
  "ps2IsScratchpadAddress w \<longleftrightarrow> 0x70000000 \<le> unat w mod 2 ^ 31 \<and> unat w mod 2 ^ 31 < 0x70004000"
proof (cases "unat w < 2 ^ 31")
  case True
  then show ?thesis
    by (auto simp: ps2IsScratchpadAddress_def ram_defs word_le_nat_alt word_less_nat_alt high_bit_unat)
next
  case False
  then show ?thesis
    by (auto simp: ps2IsScratchpadAddress_def ram_defs word_le_nat_alt word_less_nat_alt high_bit_unat unat_lower Let_def)
qed

text \<open>The aliases of an RDRAM byte: the cached, uncached and accelerated windows and both kernel segments.\<close>

definition ram_alias :: "u32 \<Rightarrow> u32 \<Rightarrow> bool" where
  "ram_alias a x \<longleftrightarrow> a < PS2_RAM_SIZE \<and>
     x \<in> {a, a + 0x20000000, a + 0x30000000, a + 0x80000000, a + 0xA0000000}"

lemma mod_add_small: "a + k mod m < m \<Longrightarrow> (a + k) mod m = a + k mod (m :: nat)"
  by (metis mod_add_right_eq mod_less)

lemma ram_alias_unat:
  assumes "ram_alias a x"
  shows "unat a < 2 ^ 25" "\<exists>k \<in> {0, 0x20000000, 0x30000000, 0x80000000, 0xA0000000}. unat x = unat a + k"
proof -
  show a: "unat a < 2 ^ 25" using assms by (simp add: ram_alias_def ram_defs word_less_nat_alt)
  have "unat (a + k) = unat a + unat k" if "k \<in> {0x20000000, 0x30000000, 0x80000000, 0xA0000000}" for k :: u32
    using a that by (auto simp: unat_word_ariths mod_less)
  then have "unat (a + 0x20000000) = unat a + 0x20000000" "unat (a + 0x30000000) = unat a + 0x30000000"
    "unat (a + 0x80000000) = unat a + 0x80000000" "unat (a + 0xA0000000) = unat a + 0xA0000000" by simp_all
  moreover from assms consider "x = a" | "x = a + 0x20000000" | "x = a + 0x30000000" | "x = a + 0x80000000"
    | "x = a + 0xA0000000" by (auto simp only: ram_alias_def insert_iff empty_iff)
  ultimately show "\<exists>k \<in> {0, 0x20000000, 0x30000000, 0x80000000, 0xA0000000}. unat x = unat a + k"
    by cases auto
qed

lemma ram_alias_mod:
  assumes "ram_alias a x"
  shows "unat x mod 2 ^ 25 = unat a" "\<not> ps2IsScratchpadAddress x"
  using ram_alias_unat [OF assms] by (auto simp: scratch_unat mod_add_small)

lemma ram_alias_mask: assumes "ram_alias a x" shows "x AND PS2_RAM_MASK = a"
  using ram_alias_mod [OF assms] unat_mask_RAM [of x] by (simp add: word_unat_eq_iff)

lemma ram_alias_translate: assumes "ram_alias a x" shows "translateAddress tlb x = Some a"
proof -
  note u = ram_alias_unat [OF assms] and m = ram_alias_mod [OF assms]
  from u(2) consider "unat x = unat a" | "unat x = unat a + 0x20000000" | "unat x = unat a + 0x30000000"
    | "unat x = unat a + 0x80000000" | "unat x = unat a + 0xA0000000" by auto
  then show ?thesis
    by cases (use u(1) m in \<open>simp_all add: translateAddress_def uncached_unat kseg01_unat word_less_nat_alt
      ram_alias_mask [OF assms] Ps2DirectMappedPhysicalAddress_def word_unat_eq_iff unat_direct mod_add_small\<close>)
qed

lemma ram_alias_resolve: assumes "ram_alias a x" shows "ps2ResolveGuestPointer x = Some (a, False)"
proof -
  note u = ram_alias_unat [OF assms] and m = ram_alias_mod [OF assms]
  have mk: "(x AND 0x1FFFFFFF) AND PS2_RAM_MASK = a"
    using m(1) by (simp add: word_unat_eq_iff unat_mask_RAM unat_direct mod_mod_cancel)
  from u(2) consider "unat x = unat a" | "unat x = unat a + 0x20000000" | "unat x = unat a + 0x30000000"
    | "unat x = unat a + 0x80000000" | "unat x = unat a + 0xA0000000" by auto
  then show ?thesis
    by cases (use u(1) m mk in \<open>simp_all add: ps2ResolveGuestPointer_def Let_def word_less_nat_alt word_le_nat_alt
      ram_defs word_unat_eq_iff unat_direct mod_add_small\<close>)
qed

lemma in_range_unat:
  assumes "unat base + unat sz < 2 ^ 32"
  shows "Ps2AddressInRange v base sz \<longleftrightarrow> unat base \<le> unat v \<and> unat v < unat base + unat sz"
  unfolding Ps2AddressInRange_def word_less_nat_alt unat_sub_if' using assms unat_less_2p [of v] by auto

lemma special_unat:
  "Ps2IsPhysicalSpecialAddress w \<longleftrightarrow>
     (0x1FC00000 \<le> unat w \<and> unat w < 0x20000000) \<or> (0x70000000 \<le> unat w \<and> unat w < 0x70004000)
   \<or> (0x10000000 \<le> unat w \<and> unat w < 0x10010000) \<or> (0x12000000 \<le> unat w \<and> unat w < 0x12002000)
   \<or> (0x11004000 \<le> unat w \<and> unat w < 0x1100C000)"
  unfolding Ps2IsPhysicalSpecialAddress_def
  by (simp add: in_range_unat ram_defs word_less_nat_alt word_le_nat_alt)

lemma ram_alias_not_special: assumes "ram_alias a x" shows "\<not> Ps2IsSpecialAddress x"
proof -
  note u = ram_alias_unat [OF assms]
  from u(2) consider "unat x = unat a" | "unat x = unat a + 0x20000000" | "unat x = unat a + 0x30000000"
    | "unat x = unat a + 0x80000000" | "unat x = unat a + 0xA0000000" by auto
  then show ?thesis
    by cases (use u(1) in \<open>simp_all add: Ps2IsSpecialAddress_def kseg23_unat Ps2PhysicalAddress_def
      Ps2DirectMappedPhysicalAddress_def word_le_nat_alt special_unat unat_direct mod_add_small\<close>)
qed

text \<open>
  One RDRAM, five windows: every alias of an RDRAM byte, in the cached, the two uncached and the
  two kernel windows, is resolved to the same offset by the TLB-aware bus, by the syscalls' pointer
  resolution and by the masking of generated code, and generated code takes its fast path for it.
\<close>

lemma ram_windows_agree:
  assumes "ram_alias a x"
  shows "translateAddress tlb x = Some a \<and> ps2ResolveGuestPointer x = Some (a, False)
    \<and> x AND PS2_RAM_MASK = a \<and> \<not> Ps2IsSpecialAddress x"
  using assms by (simp add: ram_alias_translate ram_alias_resolve ram_alias_mask ram_alias_not_special)

text \<open>
  TLB: in the mapped segments \<open>translateAddress\<close> hits exactly the entry \<open>tlbProbe\<close> finds, gives
  the page frame of that entry with the page offset of the address, and throws exactly when
  \<open>tlbProbe\<close> returns -1.
\<close>

lemma translate_agrees_with_probe:
  assumes "Ps2IsKseg23Address v" "\<not> ps2IsScratchpadAddress v"
  shows "(translateAddress tlb v = None) = (tlbProbe tlb v = -1)
    \<and> (\<forall>i. tlbProbe tlb v = int i \<longrightarrow> i < length tlb \<and> tlb_valid (tlb ! i) \<and>
        translateAddress tlb v = Some (push_bit 12 (tlb_pfn (tlb ! i)) OR
          (v AND ((tlb_mask (tlb ! i) AND 0x01FFE000) OR 0xFFF))))"
proof -
  have "\<not> v < 0x80000000" "\<not> Ps2IsUncachedRamMirrorAddress v" "\<not> Ps2IsKseg01Address v"
    using assms(1) by (simp_all add: kseg23_unat uncached_unat kseg01_unat word_less_nat_alt)
  with assms have "translateAddress tlb v = tlb_walk v tlb" by (simp add: translateAddress_def)
  moreover have "tlbProbe tlb v = (case probe_from 0 v tlb of Some i \<Rightarrow> int i | None \<Rightarrow> -1)"
    by (simp only: tlbProbe_def probe_from_page)
  ultimately show ?thesis
    by (auto simp: tlb_walk_probe tlb_match_def split: option.splits dest!: probe_from_bound)
qed

definition demo_tlb :: "tlb_entry list" where
  "demo_tlb = snd (tlbWrite 3 0xC0001234 0x00100 0 True tlb_initial)"

lemma demo_tlb_eq: "demo_tlb = tlb_initial[3 := \<lparr>tlb_vpn = 0xC0001000, tlb_pfn = 0x100, tlb_mask = 0, tlb_valid = True\<rparr>]"
  by (simp add: demo_tlb_def tlbWrite_def tlb_initial_def)

lemma tlb_read_write:
  assumes "unat i < length tlb"
  shows "tlbRead (snd (tlbWrite i vpn pfn msk valid tlb)) i =
    Some (vpn AND 0xFFFFF000, pfn AND 0xFFFFF, msk AND 0x01FFE000, valid)"
  using assms by (simp add: tlbRead_def tlbWrite_def Let_def)

lemma mapRange_Some:
  assumes "mapRange p n base sz = Some (off, lim)"
  shows "lim = sz" "unat off + unat n \<le> unat sz" "unat p = unat base + unat off" "unat off < unat sz"
  using assms by (auto simp: mapRange_def Let_def word_less_nat_alt word_le_nat_alt not_less not_le unat_sub split: if_splits)

definition vu_base :: "vu_array \<Rightarrow> nat" where
  "vu_base arr = (case arr of Vu0Code \<Rightarrow> 0x11000000 | Vu0Data \<Rightarrow> 0x11004000 | Vu1Code \<Rightarrow> 0x11008000 | Vu1Data \<Rightarrow> 0x1100C000)"

definition vu_size :: "vu_array \<Rightarrow> nat" where
  "vu_size arr = (case arr of Vu0Code \<Rightarrow> 0x1000 | Vu0Data \<Rightarrow> 0x1000 | Vu1Code \<Rightarrow> 0x4000 | Vu1Data \<Rightarrow> 0x4000)"

lemma mapVuMemory_Some:
  assumes "mapVuMemory alloc p n = Some (arr, off, lim)"
  shows "alloc arr \<and> unat lim = vu_size arr \<and> unat off + unat n \<le> vu_size arr \<and> unat off < vu_size arr
    \<and> unat p = vu_base arr + unat off"
  using assms unfolding mapVuMemory_def Let_def
  by (auto simp: vu_base_def vu_size_def dest: mapRange_Some(1) mapRange_Some(2) mapRange_Some(3) mapRange_Some(4)
      split: option.splits if_splits)

lemma mapRange_hit:
  assumes "unat base \<le> unat p" "unat p < unat base + unat sz" "unat p + unat n \<le> unat base + unat sz"
  shows "mapRange p n base sz = Some (p - base, sz)"
  using assms by (auto simp: mapRange_def Let_def word_less_nat_alt word_le_nat_alt unat_sub)

lemma mapRange_miss:
  assumes "unat p < unat base \<or> unat base + unat sz \<le> unat p"
  shows "mapRange p n base sz = None"
  using assms by (auto simp: mapRange_def Let_def word_less_nat_alt word_le_nat_alt unat_sub)

text \<open>
  VU window: an access inside one of the four allocated VU arrays is mapped to that array, at
  its distance from the array's base; every mapped access lies entirely inside its array. Generated
  code recognises the address as special only for VU0 data and VU1 micro memory: for VU0 micro
  memory and VU1 data it takes the RDRAM fast path instead.
\<close>

lemma vu_window:
  assumes "vu_base arr \<le> unat p" "unat p < vu_base arr + vu_size arr" "unat p + unat n \<le> vu_base arr + vu_size arr"
  shows "mapVuMemory (\<lambda>_. True) p n = Some (arr, of_nat (unat p - vu_base arr), of_nat (vu_size arr))
    \<and> (mapVuMemory alloc q k = Some (arr', off, lim) \<longrightarrow>
         alloc arr' \<and> unat lim = vu_size arr' \<and> unat off + unat k \<le> unat lim \<and> unat q = vu_base arr' + unat off)
    \<and> Ps2IsSpecialAddress p = (arr = Vu0Data \<or> arr = Vu1Code)"
proof (intro conjI impI)
  show "mapVuMemory (\<lambda>_. True) p n = Some (arr, of_nat (unat p - vu_base arr), of_nat (vu_size arr))"
    using assms unfolding mapVuMemory_def Let_def
    by (cases arr) (simp_all add: vu_base_def vu_size_def mapRange_hit mapRange_miss word_unat_eq_iff unat_of_nat unat_sub word_le_nat_alt)
  show "Ps2IsSpecialAddress p = (arr = Vu0Data \<or> arr = Vu1Code)"
    using assms by (cases arr) (auto simp: vu_base_def vu_size_def Ps2IsSpecialAddress_def kseg23_unat
      Ps2PhysicalAddress_def word_le_nat_alt special_unat)
qed (use mapVuMemory_Some in blast | use mapVuMemory_Some in metis)+

section \<open>Code region bitmaps\<close>

text \<open>Region \<open>r\<close> is well formed: word-aligned start, a bitmap of the right length, room for the loop counter.\<close>

definition region_ok :: "code_region \<Rightarrow> bool" where
  "region_ok r \<longleftrightarrow> 4 dvd unat (cr_start r) \<and> unat (cr_start r) < unat (cr_end r)
     \<and> unat (cr_end r) \<le> 2 ^ 32 - 4
     \<and> length (cr_modified r) = (unat (cr_end r) - unat (cr_start r) + 3) div 4"

text \<open>The word at address \<open>x\<close> of region \<open>r\<close> is flagged.\<close>

definition flagged :: "code_region \<Rightarrow> nat \<Rightarrow> bool" where
  "flagged r x \<longleftrightarrow> unat (cr_start r) \<le> x \<and> x < unat (cr_end r)
     \<and> cr_modified r ! ((x - unat (cr_start r)) div 4)"

lemma unat_add4: "unat (a :: u32) + 4 < 2 ^ 32 \<Longrightarrow> unat (a + 4) = unat a + 4"
  by (simp add: unat_word_ariths)

lemma bit_index:
  assumes "unat (start :: u32) \<le> unat a"
  shows "unat ((a - start) div 4) = (unat a - unat start) div 4"
  using assms by (simp add: unat_div unat_sub word_le_nat_alt)

lemma set_flags_spec:
  assumes "unat start \<le> unat a" "4 dvd unat a - unat start" "unat e \<le> 2 ^ 32 - 4"
    and "unat e - unat start \<le> 4 * length fl"
  shows "set_flags v start a e fl =
    Some (map (\<lambda>i. if unat a \<le> unat start + 4 * i \<and> unat start + 4 * i < unat e then v else fl ! i) [0..<length fl])"
  using assms
proof (induction "unat e - unat a" arbitrary: a fl rule: less_induct)
  case less
  note [simp] = set_flags.simps
  show ?case
  proof (cases "a < e")
    case True
    then have lt: "unat a < unat e" by (simp add: word_less_nat_alt)
    with less.prems have a4: "unat (a + 4) = unat a + 4" by (intro unat_add4) linarith
    obtain k where k: "unat a = unat start + 4 * k"
      using less.prems(1,2) by (metis dvdE le_add_diff_inverse)
    let ?fl = "fl[k := v]"
    have idx: "unat ((a - start) div 4) = k" using bit_index [OF less.prems(1)] k by simp
    have kl: "k < length fl" using less.prems(4) lt k by linarith
    have "set_flags v start (a + 4) e ?fl =
      Some (map (\<lambda>i. if unat (a + 4) \<le> unat start + 4 * i \<and> unat start + 4 * i < unat e then v else ?fl ! i) [0..<length ?fl])"
      by (rule less.hyps) (use less.prems lt k a4 in \<open>simp_all\<close>)
    moreover have "(if unat (a + 4) \<le> unat start + 4 * i \<and> unat start + 4 * i < unat e then v else ?fl ! i)
      = (if unat a \<le> unat start + 4 * i \<and> unat start + 4 * i < unat e then v else fl ! i)" if "i < length fl" for i
      using that k a4 lt by (cases "i = k") auto
    ultimately show ?thesis using True idx kl by (simp add: Let_def)
  next
    case False
    then have "\<not> (unat a \<le> x \<and> x < unat e)" for x by (simp add: word_less_nat_alt)
    then have "map (\<lambda>i. if unat a \<le> unat start + 4 * i \<and> unat start + 4 * i < unat e then v else fl ! i) [0..<length fl] = fl"
      by (intro nth_equalityI) (simp_all, blast)
    with False show ?thesis by simp
  qed
qed

lemma any_flag_spec:
  assumes "unat start \<le> unat a" "4 dvd unat a - unat start" "unat e \<le> 2 ^ 32 - 4"
    and "unat e - unat start \<le> 4 * length fl"
  shows "any_flag start a e fl =
    Some (\<exists>i < length fl. unat a \<le> unat start + 4 * i \<and> unat start + 4 * i < unat e \<and> fl ! i)"
  using assms
proof (induction "unat e - unat a" arbitrary: a rule: less_induct)
  case less
  note [simp] = any_flag.simps
  show ?case
  proof (cases "a < e")
    case True
    then have lt: "unat a < unat e" by (simp add: word_less_nat_alt)
    with less.prems have a4: "unat (a + 4) = unat a + 4" by (intro unat_add4) linarith
    obtain k where k: "unat a = unat start + 4 * k"
      using less.prems(1,2) by (metis dvdE le_add_diff_inverse)
    have idx: "unat ((a - start) div 4) = k" using bit_index [OF less.prems(1)] k by simp
    have kl: "k < length fl" using less.prems(4) lt k by linarith
    have "any_flag start (a + 4) e fl =
      Some (\<exists>i < length fl. unat (a + 4) \<le> unat start + 4 * i \<and> unat start + 4 * i < unat e \<and> fl ! i)"
      by (rule less.hyps) (use less.prems lt k a4 in \<open>simp_all\<close>)
    moreover have "(unat a \<le> unat start + 4 * i) \<longleftrightarrow> i = k \<or> unat (a + 4) \<le> unat start + 4 * i" for i
      using k a4 by auto
    ultimately show ?thesis using True idx kl lt k by auto
  next
    case False
    then show ?thesis by (auto simp: word_less_nat_alt)
  qed
qed

lemma unat_ucast_64 [simp]: "unat (ucast (w :: u32) :: u64) = unat w"
  by (simp add: unsigned_ucast_eq take_bit_nat_eq_self_iff unat_less_2p less_trans [OF unat_less_2p])

lemma ucast_32_64 [simp]: "ucast (ucast (w :: u32) :: u64) = w"
  by (rule bit_word_eqI) (simp add: bit_simps)

lemma unat_ucast_32: "unat (x :: u64) < 2 ^ 32 \<Longrightarrow> unat (ucast x :: u32) = unat x"
  by (simp add: unsigned_ucast_eq take_bit_nat_eq_self_iff)

lemma unat_sum_64: "unat (ucast (a :: u32) + ucast (b :: u32) :: u64) = unat a + unat b"
proof -
  have "unat a + unat b < 2 ^ 64" using unat_less_2p [of a] unat_less_2p [of b] by simp
  then show ?thesis by (simp add: unat_word_ariths)
qed

lemma overlap_spec:
  "overlap a n r = (if unat a + unat n \<le> unat (cr_start r) \<or> unat (cr_end r) \<le> unat a then None
     else Some (if unat a \<le> unat (cr_start r) then cr_start r else a,
                of_nat (min (unat a + unat n) (unat (cr_end r)))))"
proof (cases "unat a + unat n \<le> unat (cr_start r) \<or> unat (cr_end r) \<le> unat a")
  case True
  then show ?thesis by (simp add: overlap_def Let_def word_le_nat_alt unat_sum_64)
next
  case False
  let ?w = "ucast a + ucast n :: u64" and ?E = "ucast (cr_end r) :: u64" and ?S = "ucast (cr_start r) :: u64"
  have "unat (min ?w ?E) = min (unat a + unat n) (unat (cr_end r))"
    by (simp add: min_def word_le_nat_alt unat_sum_64)
  moreover from this have "unat (min ?w ?E) < 2 ^ 32" using unat_less_2p [of "cr_end r"] by simp
  ultimately have e: "ucast (min ?w ?E) = (of_nat (min (unat a + unat n) (unat (cr_end r))) :: u32)"
    using unat_ucast_32 [of "min ?w ?E"] by (simp add: word_unat_eq_iff unat_of_nat)
  have st: "(ucast (max (ucast a) ?S) :: u32) = (if unat a \<le> unat (cr_start r) then cr_start r else a)"
    by (simp add: max_def word_le_nat_alt)
  from False show ?thesis by (simp add: overlap_def Let_def word_le_nat_alt unat_sum_64 e st)
qed

text \<open>What the two writers do to one region, and what the reader sees of it, for word-aligned addresses.\<close>

lemma set_region_spec:
  assumes r: "region_ok r" and a: "4 dvd unat a"
  shows "\<exists>r'. set_region v a n r = Some r' \<and> region_ok r' \<and> cr_start r' = cr_start r \<and> cr_end r' = cr_end r
    \<and> (\<forall>x. 4 dvd x \<longrightarrow> flagged r' x =
         (if unat (cr_start r) \<le> x \<and> x < unat (cr_end r) \<and> unat a \<le> x \<and> x < unat a + unat n then v else flagged r x))"
proof (cases "overlap a n r")
  case None
  then have "unat a + unat n \<le> unat (cr_start r) \<or> unat (cr_end r) \<le> unat a"
    by (simp add: overlap_spec split: if_splits)
  with None r show ?thesis by (auto simp: set_region_def)
next
  case (Some p)
  obtain s e where p: "p = (s, e)" by (cases p)
  note d = r [unfolded region_ok_def]
  let ?st = "unat (cr_start r)" and ?fl = "cr_modified r"
  have s: "unat s = max (unat a) ?st" and "e = of_nat (min (unat a + unat n) (unat (cr_end r)))"
    using Some by (auto simp: p overlap_spec split: if_splits)
  then have e: "unat e = min (unat a + unat n) (unat (cr_end r))"
    using unat_less_2p [of "cr_end r"] by (simp add: unat_of_nat min_less_iff_disj)
  let ?g = "\<lambda>i. if unat s \<le> ?st + 4 * i \<and> ?st + 4 * i < unat e then v else ?fl ! i"
  have "set_flags v (cr_start r) s e ?fl = Some (map ?g [0..<length ?fl])"
  proof (rule set_flags_spec)
    show "4 dvd unat s - ?st" using s d a by (auto simp: max_def intro!: dvd_diff_nat)
    show "unat e - ?st \<le> 4 * length ?fl" using d e by linarith
  qed (use s e d in auto)
  then have sr: "set_region v a n r = Some (r\<lparr>cr_modified := map ?g [0..<length ?fl]\<rparr>)"
    by (simp add: set_region_def Some p)
  have fl: "flagged (r\<lparr>cr_modified := map ?g [0..<length ?fl]\<rparr>) x =
      (if ?st \<le> x \<and> x < unat (cr_end r) \<and> unat a \<le> x \<and> x < unat a + unat n then v else flagged r x)"
    if x: "4 dvd x" for x
  proof (cases "?st \<le> x \<and> x < unat (cr_end r)")
    case True
    obtain i where i: "x = ?st + 4 * i" using True x d by (metis dvdE dvd_diff_nat le_add_diff_inverse)
    have "i < length ?fl" using d True i by linarith
    with True i show ?thesis by (auto simp: flagged_def s e)
  qed (auto simp: flagged_def)
  have "region_ok (r\<lparr>cr_modified := map ?g [0..<length ?fl]\<rparr>)" using d by (simp add: region_ok_def)
  with sr fl show ?thesis
    by (intro exI [of _ "r\<lparr>cr_modified := map ?g [0..<length ?fl]\<rparr>"]) simp
qed

lemma read_region_spec:
  assumes r: "region_ok r" and a: "4 dvd unat a"
  shows "(case overlap a n r of None \<Rightarrow> Some False | Some (s, e) \<Rightarrow> any_flag (cr_start r) s e (cr_modified r)) =
    Some (\<exists>x. 4 dvd x \<and> unat a \<le> x \<and> x < unat a + unat n \<and> flagged r x)"
proof (cases "overlap a n r")
  case None
  then have "unat a + unat n \<le> unat (cr_start r) \<or> unat (cr_end r) \<le> unat a"
    by (simp add: overlap_spec split: if_splits)
  with None show ?thesis by (auto simp: flagged_def)
next
  case (Some p)
  obtain s e where p: "p = (s, e)" by (cases p)
  note d = r [unfolded region_ok_def]
  let ?st = "unat (cr_start r)" and ?fl = "cr_modified r"
  have s: "unat s = max (unat a) ?st" and "e = of_nat (min (unat a + unat n) (unat (cr_end r)))"
    using Some by (auto simp: p overlap_spec split: if_splits)
  then have e: "unat e = min (unat a + unat n) (unat (cr_end r))"
    using unat_less_2p [of "cr_end r"] by (simp add: unat_of_nat min_less_iff_disj)
  have "any_flag (cr_start r) s e ?fl =
      Some (\<exists>i < length ?fl. unat s \<le> ?st + 4 * i \<and> ?st + 4 * i < unat e \<and> ?fl ! i)"
  proof (rule any_flag_spec)
    show "4 dvd unat s - ?st" using s d a by (auto simp: max_def intro!: dvd_diff_nat)
    show "unat e - ?st \<le> 4 * length ?fl" using d e by linarith
  qed (use s e d in auto)
  moreover have "(\<exists>i < length ?fl. unat s \<le> ?st + 4 * i \<and> ?st + 4 * i < unat e \<and> ?fl ! i) \<longleftrightarrow>
      (\<exists>x. 4 dvd x \<and> unat a \<le> x \<and> x < unat a + unat n \<and> flagged r x)" (is "?L \<longleftrightarrow> ?R")
  proof
    assume ?L
    then obtain i where i: "unat s \<le> ?st + 4 * i" "?st + 4 * i < unat e" "?fl ! i" by blast
    then show ?R using d by (intro exI [of _ "?st + 4 * i"]) (auto simp: flagged_def s e)
  next
    assume ?R
    then obtain x where x: "4 dvd x" "unat a \<le> x" "x < unat a + unat n" "flagged r x" by blast
    obtain i where i: "x = ?st + 4 * i" using x d unfolding flagged_def by (metis dvdE dvd_diff_nat le_add_diff_inverse)
    have "i < length ?fl" using d x(4) i unfolding flagged_def by linarith
    with x i show ?L by (intro exI [of _ i]) (auto simp: flagged_def s e)
  qed
  ultimately show ?thesis by (simp add: Some p)
qed

definition flagged_in :: "code_region list \<Rightarrow> nat \<Rightarrow> bool" where
  "flagged_in regs x \<longleftrightarrow> (\<exists>r \<in> set regs. flagged r x)"

definition in_region :: "code_region list \<Rightarrow> nat \<Rightarrow> bool" where
  "in_region regs x \<longleftrightarrow> (\<exists>r \<in> set regs. unat (cr_start r) \<le> x \<and> x < unat (cr_end r))"

lemma set_regions_spec:
  assumes "\<forall>r \<in> set regs. region_ok r" "4 dvd unat a"
  shows "\<exists>regs'. those (map (set_region v a n) regs) = Some regs' \<and> (\<forall>r \<in> set regs'. region_ok r)
    \<and> (\<forall>x. in_region regs' x = in_region regs x)
    \<and> (\<forall>x. 4 dvd x \<longrightarrow> flagged_in regs' x =
          (if unat a \<le> x \<and> x < unat a + unat n then v \<and> in_region regs x else flagged_in regs x))"
  using assms(1)
proof (induction regs)
  case Nil
  then show ?case by (simp add: flagged_in_def in_region_def)
next
  case (Cons r regs)
  from Cons obtain regs' where IH: "those (map (set_region v a n) regs) = Some regs'" "\<forall>r \<in> set regs'. region_ok r"
    "\<And>x. in_region regs' x = in_region regs x"
    "\<And>x. 4 dvd x \<Longrightarrow> flagged_in regs' x =
       (if unat a \<le> x \<and> x < unat a + unat n then v \<and> in_region regs x else flagged_in regs x)" by auto
  from set_region_spec [of r a v n] Cons.prems assms(2) obtain r' where
    r': "set_region v a n r = Some r'" "region_ok r'" "cr_start r' = cr_start r" "cr_end r' = cr_end r"
    "\<And>x. 4 dvd x \<Longrightarrow> flagged r' x = (if unat (cr_start r) \<le> x \<and> x < unat (cr_end r) \<and> unat a \<le> x \<and> x < unat a + unat n
       then v else flagged r x)" by auto
  have "in_region (r' # regs') x = in_region (r # regs) x" for x
    using IH(3) [of x] r' by (simp add: in_region_def)
  moreover have "flagged_in (r' # regs') x = (if unat a \<le> x \<and> x < unat a + unat n then v \<and> in_region (r # regs) x
      else flagged_in (r # regs) x)" if "4 dvd x" for x
  proof -
    have "flagged r x \<Longrightarrow> unat (cr_start r) \<le> x \<and> x < unat (cr_end r)" by (simp add: flagged_def)
    with IH(4) [OF that] r'(5) [OF that] show ?thesis by (auto simp: flagged_in_def in_region_def)
  qed
  ultimately show ?case using IH(1,2) r'(1,2) by (intro exI [of _ "r' # regs'"]) simp
qed

lemma isCodeModified_spec:
  assumes "\<forall>r \<in> set regs. region_ok r" "4 dvd unat a"
  shows "isCodeModified a n regs = Some (\<exists>x. 4 dvd x \<and> unat a \<le> x \<and> x < unat a + unat n \<and> flagged_in regs x)"
proof (cases "n = 0")
  case False
  have "modified_from a n regs = Some (\<exists>x. 4 dvd x \<and> unat a \<le> x \<and> x < unat a + unat n \<and> flagged_in regs x)"
    using assms(1)
  proof (induction regs)
    case (Cons r regs)
    have r: "region_ok r" using Cons.prems by simp
    show ?case using Cons.IH Cons.prems
      by (simp add: read_region_spec [OF r assms(2)] split: bool.split) (auto simp: flagged_in_def)
  qed (simp add: flagged_in_def)
  with False show ?thesis by (simp add: isCodeModified_def)
qed (simp add: isCodeModified_def)

text \<open>
  Self-modifying code: on word-aligned regions the loops of \<open>markModified\<close> and \<open>isCodeModified\<close>
  end; after a word-aligned write is marked, a word-aligned query reports a modification exactly when
  it did before or when it covers a word of some region that the write touched.
\<close>

lemma markModified_exact:
  assumes "list_all region_ok regs" "4 dvd unat a" "4 dvd unat b" "n \<noteq> 0" "m \<noteq> 0"
  shows "\<exists>regs'. markModified a n regs = Some regs' \<and> list_all region_ok regs'
    \<and> isCodeModified b m regs' = Some (isCodeModified b m regs = Some True
        \<or> (\<exists>x. 4 dvd x \<and> in_region regs x \<and> x \<in> {unat a..<unat a + unat n} \<inter> {unat b..<unat b + unat m}))"
proof -
  from assms(1) have ok: "\<forall>r \<in> set regs. region_ok r" by (simp add: list_all_iff)
  from set_regions_spec [OF ok assms(2), of True n] obtain regs' where
    r: "those (map (set_region True a n) regs) = Some regs'" "\<forall>r \<in> set regs'. region_ok r"
    "\<And>x. 4 dvd x \<Longrightarrow> flagged_in regs' x = (if unat a \<le> x \<and> x < unat a + unat n then in_region regs x else flagged_in regs x)"
    by auto
  have "flagged_in regs x \<Longrightarrow> in_region regs x" for x by (auto simp: flagged_in_def in_region_def flagged_def)
  with r(3) have f: "4 dvd x \<Longrightarrow> flagged_in regs' x \<longleftrightarrow> flagged_in regs x \<or> (unat a \<le> x \<and> x < unat a + unat n \<and> in_region regs x)" for x
    by auto
  have "isCodeModified b m regs' = Some (isCodeModified b m regs = Some True
        \<or> (\<exists>x. 4 dvd x \<and> in_region regs x \<and> x \<in> {unat a..<unat a + unat n} \<inter> {unat b..<unat b + unat m}))"
    unfolding isCodeModified_spec [OF r(2) assms(3)] isCodeModified_spec [OF ok assms(3)] using f by auto
  with r(1,2) assms(4) show ?thesis by (simp add: markModified_def list_all_iff)
qed

text \<open>
  Acknowledging a modification: after \<open>clearModifiedFlag\<close> on a word-aligned range no modification
  is reported for that range, and queries of ranges disjoint from it answer as before.
\<close>

lemma clearModifiedFlag_exact:
  assumes "list_all region_ok regs" "4 dvd unat a" "4 dvd unat b" "n \<noteq> 0"
    and "unat b + unat m \<le> unat a \<or> unat a + unat n \<le> unat b"
  shows "\<exists>regs'. clearModifiedFlag a n regs = Some regs' \<and> list_all region_ok regs'
    \<and> isCodeModified a n regs' = Some False \<and> isCodeModified b m regs' = isCodeModified b m regs"
proof -
  from assms(1) have ok: "\<forall>r \<in> set regs. region_ok r" by (simp add: list_all_iff)
  from set_regions_spec [OF ok assms(2), of False n] obtain regs' where
    r: "those (map (set_region False a n) regs) = Some regs'" "\<forall>r \<in> set regs'. region_ok r"
    "\<And>x. 4 dvd x \<Longrightarrow> flagged_in regs' x = (if unat a \<le> x \<and> x < unat a + unat n then False else flagged_in regs x)"
    by auto
  have "isCodeModified a n regs' = Some False"
    unfolding isCodeModified_spec [OF r(2) assms(2)] using r(3) by auto
  moreover have "isCodeModified b m regs' = isCodeModified b m regs"
  proof -
    have "flagged_in regs' x = flagged_in regs x" if "4 dvd x" "unat b \<le> x" "x < unat b + unat m" for x
    proof -
      have "\<not> (unat a \<le> x \<and> x < unat a + unat n)" using assms(5) that(2,3) by linarith
      with r(3) [OF that(1)] show ?thesis by (simp only: if_False)
    qed
    then show ?thesis
      unfolding isCodeModified_spec [OF r(2) assms(3)] isCodeModified_spec [OF ok assms(3)] by metis
  qed
  ultimately show ?thesis using r(1,2) assms(4) by (simp add: clearModifiedFlag_def list_all_iff)
qed

lemma registerCodeRegion_ok:
  assumes "list_all region_ok regs" "4 dvd unat st" "unat en \<le> 2 ^ 32 - 4"
  shows "list_all region_ok (registerCodeRegion st en regs)"
proof -
  have "unat ((en - st + 3) div 4) = (unat en - unat st + 3) div 4" if "st < en" "\<not> en - st > PS2_RAM_SIZE"
  proof -
    have d: "unat (en - st) = unat en - unat st" using that(1) by (simp add: unat_sub word_less_nat_alt word_le_nat_alt)
    with that have "unat en - unat st + 3 < 2 ^ 32" by (simp add: word_less_nat_alt ram_defs)
    with d show ?thesis by (simp add: unat_div unat_word_ariths)
  qed
  then have new: "region_ok \<lparr>cr_start = st, cr_end = en, cr_modified = replicate (unat ((en - st + 3) div 4)) False\<rparr>"
    if "st < en" "\<not> en - st > PS2_RAM_SIZE"
    using assms(2,3) that by (simp add: region_ok_def word_less_nat_alt)
  show ?thesis
  proof (cases "registerCodeRegion st en regs = regs")
    case False
    then have "st < en" "\<not> en - st > PS2_RAM_SIZE" and
      "registerCodeRegion st en regs = regs @ [\<lparr>cr_start = st, cr_end = en, cr_modified = replicate (unat ((en - st + 3) div 4)) False\<rparr>]"
      by (auto simp only: registerCodeRegion_def not_le split: if_splits)
    with new assms(1) show ?thesis by simp
  qed (simp add: assms(1))
qed

definition demo_regions :: "code_region list" where
  "demo_regions = registerCodeRegion 0x100000 0x100010 []"

lemma demo_regions_ok: "list_all region_ok demo_regions"
  unfolding demo_regions_def by (rule registerCodeRegion_ok) simp_all

lemma demo_in_region: "in_region demo_regions 0x100004"
  by (simp add: in_region_def demo_regions_def registerCodeRegion_def ram_defs)

end
