(* ===== verification/Vif.thy ===== *)
theory Vif
  imports GifPacket EEMemory
begin

text \<open>
  The two VIF units (\<open>ps2_vif1_interpreter.cpp\<close>) and the way their \<open>DIRECT\<close> data takes to the GIF
  (\<open>submitGifPacket\<close> and \<open>flushMaskedPath3Packets\<close> of \<open>ps2_memory.cpp\<close>). A buffer is a list of bytes
  and positions in it are numbers, as for buffers of less than 4 GB less 8 KB. The functions the
  runtime installs (the packet processor of the arbiter, the packet callback, the callbacks that run
  VU1) are members of an environment; each may fail. Statistics, snapshots and dumps are left out.
\<close>

section \<open>State\<close>

record VIFRegisters =
  vif_stat :: u32
  vif_fbrst :: u32
  vif_err :: u32
  vif_mark :: u32
  vif_cycle :: u32
  vif_mode :: u32
  vif_num :: u32
  vif_mask :: u32
  vif_code :: u32
  vif_itops :: u32
  vif_base :: u32
  vif_ofst :: u32
  vif_tops :: u32
  vif_itop :: u32
  vif_top :: u32
  vif_row :: "u32 list"
  vif_col :: "u32 list"

definition VIFRegisters_zero :: VIFRegisters where
  "VIFRegisters_zero = \<lparr>vif_stat = 0, vif_fbrst = 0, vif_err = 0, vif_mark = 0, vif_cycle = 0, vif_mode = 0,
     vif_num = 0, vif_mask = 0, vif_code = 0, vif_itops = 0, vif_base = 0, vif_ofst = 0, vif_tops = 0,
     vif_itop = 0, vif_top = 0, vif_row = replicate 4 0, vif_col = replicate 4 0\<rparr>"

text \<open>The part of \<open>PS2Memory\<close> the VIF code works on; \<open>'g\<close> is the state behind the GIF.\<close>

record 'g vif_mem =
  vif0_regs :: VIFRegisters
  vif1_regs :: VIFRegisters
  m_vu0Code :: "bytes option"
  m_vu0Data :: "bytes option"
  m_vu1Code :: "bytes option"
  m_vu1Data :: "bytes option"
  m_vu1CodeGeneration :: u64
  m_path3Masked :: bool
  m_path3MaskedFifo :: "u8 list list"
  m_vif1PendingPath2ImageQwc :: nat
  m_vif1PendingPath2DirectHl :: bool
  m_gifArbiter :: "GifArbiterPacket list option"
  gif_state :: 'g

record 'g vif_env =
  m_processFn :: "u8 list \<Rightarrow> 'g \<Rightarrow> 'g option"
  m_gifPacketCallback :: "(u8 list \<Rightarrow> 'g \<Rightarrow> 'g option) option"
  m_vu1MscalCallback :: "(u32 \<Rightarrow> u32 \<Rightarrow> u32 \<Rightarrow> 'g vif_mem \<Rightarrow> 'g vif_mem option) option"
  m_vu1MscntCallback :: "(u32 \<Rightarrow> u32 \<Rightarrow> 'g vif_mem \<Rightarrow> 'g vif_mem option) option"

definition PS2_VU0_CODE_SIZE :: nat where "PS2_VU0_CODE_SIZE = 4 * 1024"
definition PS2_VU0_DATA_SIZE :: nat where "PS2_VU0_DATA_SIZE = 4 * 1024"
definition PS2_VU1_CODE_SIZE :: nat where "PS2_VU1_CODE_SIZE = 16 * 1024"
definition PS2_VU1_DATA_SIZE :: nat where "PS2_VU1_DATA_SIZE = 16 * 1024"

definition on_vif0 :: "(VIFRegisters \<Rightarrow> VIFRegisters) \<Rightarrow> 'g vif_mem \<Rightarrow> 'g vif_mem" where
  "on_vif0 f m = m\<lparr>vif0_regs := f (vif0_regs m)\<rparr>"

definition on_vif1 :: "(VIFRegisters \<Rightarrow> VIFRegisters) \<Rightarrow> 'g vif_mem \<Rightarrow> 'g vif_mem" where
  "on_vif1 f m = m\<lparr>vif1_regs := f (vif1_regs m)\<rparr>"

section \<open>Submitting GIF packets\<close>

definition drain_arbiter :: "'g vif_env \<Rightarrow> 'g vif_mem \<Rightarrow> 'g vif_mem option" where
  "drain_arbiter env m =
     (case m_gifArbiter m of None \<Rightarrow> Some m
      | Some q \<Rightarrow> map_option (\<lambda>(q', g). m\<lparr>m_gifArbiter := Some q', gif_state := g\<rparr>)
                   (drain (m_processFn env) q (gif_state m)))"

definition emit_packet :: "'g vif_env \<Rightarrow> GifPathId \<Rightarrow> u8 list \<Rightarrow> bool \<Rightarrow> 'g vif_mem \<Rightarrow> 'g vif_mem option" where
  "emit_packet env path data directHl m =
     (case m_gifArbiter m of
        Some q \<Rightarrow> Some (m\<lparr>m_gifArbiter := Some (submit path data directHl q)\<rparr>)
      | None \<Rightarrow>
          (case m_gifPacketCallback env of None \<Rightarrow> Some m
           | Some f \<Rightarrow> map_option (\<lambda>g. m\<lparr>gif_state := g\<rparr>) (f data (gif_state m))))"

primrec emit_all :: "'g vif_env \<Rightarrow> u8 list list \<Rightarrow> 'g vif_mem \<Rightarrow> 'g vif_mem option" where
  "emit_all env [] m = Some m"
| "emit_all env (p # ps) m =
     (if length p \<ge> 16 then Option.bind (emit_packet env Path3 p False m) (emit_all env ps) else emit_all env ps m)"

definition flushMaskedPath3Packets :: "'g vif_env \<Rightarrow> bool \<Rightarrow> 'g vif_mem \<Rightarrow> 'g vif_mem option" where
  "flushMaskedPath3Packets env drainImmediately m =
     (if m_path3Masked m \<or> m_path3MaskedFifo m = [] then Some m
      else Option.bind (emit_all env (m_path3MaskedFifo m) m) (\<lambda>m.
             let m = m\<lparr>m_path3MaskedFifo := []\<rparr>
             in if drainImmediately then drain_arbiter env m else Some m))"

definition submitGifPacket :: "'g vif_env \<Rightarrow> GifPathId \<Rightarrow> u8 list \<Rightarrow> bool \<Rightarrow> bool \<Rightarrow> 'g vif_mem \<Rightarrow> 'g vif_mem option" where
  "submitGifPacket env path data drainImmediately directHl m =
     (if length data < 16 then Some m
      else if path = Path3 \<and> m_path3Masked m then Some (m\<lparr>m_path3MaskedFifo := m_path3MaskedFifo m @ [data]\<rparr>)
      else Option.bind (if path = Path3 then flushMaskedPath3Packets env False m else Some m) (\<lambda>m.
           Option.bind (emit_packet env path data directHl m) (\<lambda>m.
             if drainImmediately then drain_arbiter env m else Some m)))"

section \<open>Commands\<close>

definition vif_opcode :: "u32 \<Rightarrow> u32" where "vif_opcode cmd = drop_bit 24 cmd AND 0x7F"
definition vif_imm :: "u32 \<Rightarrow> u32" where "vif_imm cmd = cmd AND 0xFFFF"
definition vif_numfield :: "u32 \<Rightarrow> u32" where "vif_numfield cmd = drop_bit 16 cmd AND 0xFF"

definition le32 :: "u8 list \<Rightarrow> nat \<Rightarrow> u32" where
  "le32 data off = word_of_bytes (take 4 (drop off data))"

definition le32s :: "u8 list \<Rightarrow> nat \<Rightarrow> u32 list" where
  "le32s data off = map (\<lambda>i. le32 data (off + 4 * i)) [0..<4]"

text \<open>The registers every command sets: \<open>CODE\<close>, \<open>NUM\<close> and, with the interrupt bit, \<open>STAT.INT\<close>.\<close>

definition note_command :: "u32 \<Rightarrow> VIFRegisters \<Rightarrow> VIFRegisters" where
  "note_command cmd r = r\<lparr>vif_code := cmd, vif_num := vif_numfield cmd,
     vif_stat := (if bit cmd 31 then vif_stat r OR push_bit 11 1 else vif_stat r)\<rparr>"

section \<open>UNPACK\<close>

definition unpack_vn :: "u32 \<Rightarrow> nat" where "unpack_vn opcode = unat (drop_bit 2 opcode AND 3)"
definition unpack_vl :: "u32 \<Rightarrow> nat" where "unpack_vl opcode = unat (opcode AND 3)"

definition bytesPerVector :: "nat \<Rightarrow> nat \<Rightarrow> nat" where
  "bytesPerVector vn vl =
     (let components = vn + 1;
          bitsPerComponent = (if vl = 0 then 32 else if vl = 1 then 16 else if vl = 2 then 8
                              else if vn = 3 then 4 else 16);
          bitsPerVector = (if vl = 3 \<and> vn = 3 then 16 else components * bitsPerComponent)
      in (bitsPerVector + 7) div 8)"

definition writeVectorCount :: "u32 \<Rightarrow> nat" where
  "writeVectorCount num = (if num = 0 then 256 else unat num)"

definition cycle_cl :: "u32 \<Rightarrow> nat" where
  "cycle_cl cycle = (let cl = unat (cycle AND 0xFF) in if cl = 0 then 1 else cl)"

definition cycle_wl :: "u32 \<Rightarrow> nat" where
  "cycle_wl cycle = (let wl = unat (drop_bit 8 cycle AND 0xFF) in if wl = 0 then 1 else wl)"

definition sourceVectorCount :: "nat \<Rightarrow> nat \<Rightarrow> nat \<Rightarrow> nat" where
  "sourceVectorCount cl wl n = (if cl < wl then (n div wl) * cl + min (n mod wl) cl else n)"

definition unpack_total :: "nat \<Rightarrow> nat" where "unpack_total n = ((n + 3) div 4) * 4"

definition unpack_addr :: "u32 \<Rightarrow> u32 \<Rightarrow> nat" where
  "unpack_addr imm tops =
     (let a = imm AND 0x3FF in unat (if bit imm 15 then (a + (tops AND 0x3FF)) AND 0x3FF else a))"

definition destVec :: "nat \<Rightarrow> nat \<Rightarrow> nat \<Rightarrow> nat \<Rightarrow> nat" where
  "destVec cl wl vuAddr i =
     (if cl \<ge> wl then (vuAddr + (i div wl) * cl + i mod wl) mod 1024 else (vuAddr + i) mod 1024)"

definition extend16 :: "bool \<Rightarrow> u16 \<Rightarrow> u32" where
  "extend16 zeroExtend raw = (if zeroExtend then ucast raw else scast raw)"

definition extend8 :: "bool \<Rightarrow> u8 \<Rightarrow> u32" where
  "extend8 zeroExtend raw = (if zeroExtend then ucast raw else scast raw)"

text \<open>
  The components of a source vector; those it does not have keep the contents of the destination,
  a single component is spread over all four, and \<open>None\<close> is a format that is not handled.
\<close>

definition spread :: "nat \<Rightarrow> (nat \<Rightarrow> u32) \<Rightarrow> u32 list \<Rightarrow> u32 list" where
  "spread vn f lanes =
     (if vn = 0 then replicate 4 (f 0) else map (\<lambda>c. if c \<le> vn then f c else lanes ! c) [0..<4])"

definition decompress :: "nat \<Rightarrow> nat \<Rightarrow> bool \<Rightarrow> u8 list \<Rightarrow> u32 list \<Rightarrow> u32 list option" where
  "decompress vn vl zeroExtend src lanes =
     (if vl = 0 then Some (spread vn (\<lambda>c. le32 src (c * 4)) lanes)
      else if vl = 1 then Some (spread vn (\<lambda>c. extend16 zeroExtend (word_of_bytes (take 2 (drop (c * 2) src)))) lanes)
      else if vl = 2 then Some (spread vn (\<lambda>c. extend8 zeroExtend (src ! c)) lanes)
      else if vn = 3 then
        let packed = word_of_bytes (take 2 src) :: u16
        in Some [ucast (packed AND 0x1F), ucast (drop_bit 5 packed AND 0x1F), ucast (drop_bit 10 packed AND 0x1F),
                 ucast (drop_bit 15 packed AND 1)]
      else None)"

record unpack =
  up_vn :: nat
  up_vl :: nat
  up_maskEnable :: bool
  up_cl :: nat
  up_wl :: nat
  up_addr :: nat
  up_zeroExtend :: bool
  up_mode :: u32
  up_mask :: u32
  up_col :: "u32 list"
  up_sources :: nat

definition vec_lanes :: "bytes \<Rightarrow> nat \<Rightarrow> u32 list" where
  "vec_lanes d off = le32s (copy_out d off 16) 0"

definition lanes_bytes :: "u32 list \<Rightarrow> u8 list" where
  "lanes_bytes lanes = concat (map (bytes_of_word 4) lanes)"

text \<open>One field of a vector under the write mask and the addition modes; \<open>src\<close> is the decompressed vector.\<close>

definition unpack_field ::
  "unpack \<Rightarrow> bool \<Rightarrow> u32 list option \<Rightarrow> nat \<Rightarrow> nat \<Rightarrow> u32 list \<times> u32 list \<Rightarrow> u32 list \<times> u32 list" where
  "unpack_field u decoded src cyclePos field = (\<lambda>(row, lanes).
     let maskCycle = min cyclePos 3;
         spec = (if up_maskEnable u then drop_bit ((maskCycle * 4 + field) * 2) (up_mask u) AND 3 else 0);
         maskSpec = (if \<not> decoded \<and> spec = 0 then 1 else spec);
         mode = up_mode u AND 3;
         canAdd = (up_vl u \<noteq> 3 \<or> up_vn u \<noteq> 3)
     in if maskSpec = 0 then
          (case src of None \<Rightarrow> (row, lanes)
           | Some v \<Rightarrow>
               if canAdd \<and> (mode = 1 \<or> mode = 2) then
                 let w = v ! field + row ! field
                 in (if mode = 2 then row[field := w] else row, lanes[field := w])
               else (row, lanes[field := v ! field]))
        else if maskSpec = 1 then (row, lanes[field := row ! field])
        else if maskSpec = 2 then (row, lanes[field := up_col u ! min cyclePos 3])
        else (row, lanes))"

text \<open>One write cycle, on the number of source vectors read so far, the row registers and VU memory.\<close>

definition unpack_step :: "unpack \<Rightarrow> u8 list \<Rightarrow> nat \<Rightarrow> nat \<times> u32 list \<times> bytes \<Rightarrow> nat \<times> u32 list \<times> bytes" where
  "unpack_step u srcBase i = (\<lambda>(srcIndex, row, d).
     let cyclePos = i mod up_wl u;
         sourceAvailable = (up_cl u \<ge> up_wl u \<or> cyclePos < up_cl u);
         decoded = (sourceAvailable \<and> srcIndex < up_sources u);
         srcIndex' = (if decoded then srcIndex + 1 else srcIndex);
         destOff = destVec (up_cl u) (up_wl u) (up_addr u) i * 16;
         bpv = bytesPerVector (up_vn u) (up_vl u);
         srcVec = take bpv (drop (srcIndex * bpv) srcBase);
         lanes = vec_lanes d destOff;
         src = (if decoded then decompress (up_vn u) (up_vl u) (up_zeroExtend u) srcVec lanes else None)
     in if destOff + 16 > PS2_VU1_DATA_SIZE then (srcIndex', row, d)
        else if decoded \<and> src = None \<and> \<not> up_maskEnable u \<and> (up_mode u = 0 \<or> up_mode u = 3)
        then (srcIndex', row, copy_in destOff (take (min bpv 16) srcVec) d)
        else let (row', lanes') = fold (unpack_field u decoded src cyclePos) [0..<4] (row, lanes)
             in (srcIndex', row', copy_in destOff (lanes_bytes lanes') d))"

primrec unpack_loop :: "unpack \<Rightarrow> u8 list \<Rightarrow> nat \<Rightarrow> nat \<times> u32 list \<times> bytes \<Rightarrow> nat \<times> u32 list \<times> bytes" where
  "unpack_loop u srcBase 0 s = s"
| "unpack_loop u srcBase (Suc i) s = unpack_step u srcBase i (unpack_loop u srcBase i s)"

definition unpack_of :: "u32 \<Rightarrow> u32 \<Rightarrow> u32 \<Rightarrow> VIFRegisters \<Rightarrow> unpack" where
  "unpack_of opcode imm num r =
     \<lparr>up_vn = unpack_vn opcode, up_vl = unpack_vl opcode, up_maskEnable = bit opcode 4,
      up_cl = cycle_cl (vif_cycle r), up_wl = cycle_wl (vif_cycle r), up_addr = unpack_addr imm (vif_tops r),
      up_zeroExtend = bit imm 14, up_mode = vif_mode r, up_mask = vif_mask r, up_col = vif_col r,
      up_sources = sourceVectorCount (cycle_cl (vif_cycle r)) (cycle_wl (vif_cycle r)) (writeVectorCount num)\<rparr>"

definition unpack_bytes :: "unpack \<Rightarrow> nat" where
  "unpack_bytes u = unpack_total (up_sources u * bytesPerVector (up_vn u) (up_vl u))"

text \<open>The result of a command: whether the loop goes on, and the position.\<close>

definition vif1_unpack :: "u8 list \<Rightarrow> u32 \<Rightarrow> nat \<Rightarrow> 'g vif_mem \<Rightarrow> bool \<times> nat \<times> 'g vif_mem" where
  "vif1_unpack data cmd pos m =
     (let r = vif1_regs m;
          u = unpack_of (vif_opcode cmd) (vif_imm cmd) (vif_numfield cmd) r;
          total = unpack_bytes u;
          m' = (case m_vu1Data m of None \<Rightarrow> m
                | Some d \<Rightarrow>
                    if total > 0 \<and> pos + total \<le> length data then
                      let (_, row', d') = unpack_loop u (drop pos data) (writeVectorCount (vif_numfield cmd)) (0, vif_row r, d)
                      in m\<lparr>vif1_regs := r\<lparr>vif_row := row'\<rparr>, m_vu1Data := Some d'\<rparr>
                    else m)
      in (pos + total \<le> length data, pos + total, m'))"

text \<open>VIF0: 32-bit formats only, without masks and modes, and without spreading a single component.\<close>

definition unpack0_step :: "nat \<Rightarrow> nat \<Rightarrow> nat \<Rightarrow> nat \<Rightarrow> nat \<Rightarrow> u8 list \<Rightarrow> nat \<Rightarrow> nat \<times> bytes \<Rightarrow> nat \<times> bytes" where
  "unpack0_step vn cl wl vuAddr sources srcBase i = (\<lambda>(srcIndex, d).
     let cyclePos = i mod wl;
         sourceAvailable = (cl \<ge> wl \<or> cyclePos < cl);
         destOff = destVec cl wl vuAddr i * 16;
         bpv = bytesPerVector vn 0;
         srcVec = take bpv (drop (srcIndex * bpv) srcBase)
     in if destOff + 16 > PS2_VU0_DATA_SIZE then (if sourceAvailable \<and> srcIndex < sources then srcIndex + 1 else srcIndex, d)
        else if \<not> sourceAvailable \<or> srcIndex \<ge> sources then (srcIndex, d)
        else (srcIndex + 1,
              copy_in destOff (lanes_bytes (map (\<lambda>c. if c \<le> vn then le32 srcVec (c * 4) else vec_lanes d destOff ! c) [0..<4])) d))"

primrec unpack0_loop :: "nat \<Rightarrow> nat \<Rightarrow> nat \<Rightarrow> nat \<Rightarrow> nat \<Rightarrow> u8 list \<Rightarrow> nat \<Rightarrow> nat \<times> bytes \<Rightarrow> nat \<times> bytes" where
  "unpack0_loop vn cl wl vuAddr sources srcBase 0 s = s"
| "unpack0_loop vn cl wl vuAddr sources srcBase (Suc i) s =
     unpack0_step vn cl wl vuAddr sources srcBase i (unpack0_loop vn cl wl vuAddr sources srcBase i s)"

definition vif0_unpack :: "u8 list \<Rightarrow> u32 \<Rightarrow> nat \<Rightarrow> 'g vif_mem \<Rightarrow> bool \<times> nat \<times> 'g vif_mem" where
  "vif0_unpack data cmd pos m =
     (let r = vif0_regs m;
          u = unpack_of (vif_opcode cmd) (vif_imm cmd) (vif_numfield cmd) r;
          total = unpack_bytes u;
          m' = (case m_vu0Data m of None \<Rightarrow> m
                | Some d \<Rightarrow>
                    if pos + total \<le> length data \<and> up_vl u = 0 then
                      m\<lparr>m_vu0Data := Some (snd (unpack0_loop (up_vn u) (up_cl u) (up_wl u) (up_addr u) (up_sources u)
                                                   (drop pos data) (writeVectorCount (vif_numfield cmd)) (0, d)))\<rparr>
                    else m)
      in (pos + total \<le> length data, pos + total, m'))"

section \<open>VIF0\<close>

definition mpg_bytes :: "u32 \<Rightarrow> nat" where
  "mpg_bytes num = (if num = 0 then 256 else unat num) * 8"

text \<open>\<open>MPG\<close>: the part that fits is copied when the buffer holds it; the flag tells that it was.\<close>

definition mpg_copy :: "nat \<Rightarrow> u8 list \<Rightarrow> nat \<Rightarrow> nat \<Rightarrow> nat \<Rightarrow> bytes \<Rightarrow> bool \<times> bytes" where
  "mpg_copy limit data destAddr n pos code =
     (if destAddr < limit \<and> n > 0 then
        let copyBytes = (if destAddr + n > limit then limit - destAddr else n)
        in if pos + copyBytes \<le> length data then (True, copy_in destAddr (take copyBytes (drop pos data)) code)
           else (False, code)
      else (False, code))"

definition vif0_mpg :: "u8 list \<Rightarrow> u32 \<Rightarrow> nat \<Rightarrow> 'g vif_mem \<Rightarrow> bool \<times> nat \<times> 'g vif_mem" where
  "vif0_mpg data cmd pos m =
     (let n = mpg_bytes (vif_numfield cmd);
          destAddr = unat (vif_imm cmd AND 0x1FF) * 8;
          m' = (case m_vu0Code m of None \<Rightarrow> m
                | Some c \<Rightarrow> m\<lparr>m_vu0Code := Some (snd (mpg_copy PS2_VU0_CODE_SIZE data destAddr n pos c))\<rparr>)
      in (pos + n \<le> length data, pos + n, m'))"

definition vif0_step :: "u8 list \<Rightarrow> nat \<Rightarrow> 'g vif_mem \<Rightarrow> bool \<times> nat \<times> 'g vif_mem" where
  "vif0_step data pos0 m0 =
     (let cmd = le32 data pos0; pos = pos0 + 4; op = vif_opcode cmd; imm = vif_imm cmd;
          m = on_vif0 (note_command cmd) m0
      in if op = 0x00 then (True, pos, m)
         else if op = 0x01 then (True, pos, on_vif0 (\<lambda>r. r\<lparr>vif_cycle := imm\<rparr>) m)
         else if op = 0x04 then (True, pos, on_vif0 (\<lambda>r. r\<lparr>vif_itops := imm AND 0x3FF\<rparr>) m)
         else if op = 0x05 then (True, pos, on_vif0 (\<lambda>r. r\<lparr>vif_mode := imm AND 3\<rparr>) m)
         else if op = 0x07 then (True, pos, on_vif0 (\<lambda>r. r\<lparr>vif_mark := imm, vif_stat := vif_stat r OR push_bit 6 1\<rparr>) m)
         else if op = 0x10 \<or> op = 0x11 \<or> op = 0x13 then (True, pos, m)
         else if op = 0x20 then
           if pos + 4 > length data then (False, pos, m)
           else (True, pos + 4, on_vif0 (\<lambda>r. r\<lparr>vif_mask := le32 data pos\<rparr>) m)
         else if op = 0x30 then
           if pos + 16 > length data then (False, pos, m)
           else (True, pos + 16, on_vif0 (\<lambda>r. r\<lparr>vif_row := le32s data pos\<rparr>) m)
         else if op = 0x31 then
           if pos + 16 > length data then (False, pos, m)
           else (True, pos + 16, on_vif0 (\<lambda>r. r\<lparr>vif_col := le32s data pos\<rparr>) m)
         else if op = 0x4A then vif0_mpg data cmd pos m
         else if op AND 0x60 = 0x60 then vif0_unpack data cmd pos m
         else (False, pos, m))"

lemma vif0_step_pos: "vif0_step data pos m = (go, pos', m') \<Longrightarrow> pos < pos'"
  by (auto simp: vif0_step_def vif0_mpg_def vif0_unpack_def Let_def split: if_splits option.splits)

function processVIF0_loop :: "u8 list \<Rightarrow> nat \<Rightarrow> 'g vif_mem \<Rightarrow> 'g vif_mem" where
  "processVIF0_loop data pos m =
     (if pos + 4 \<le> length data then
        (case vif0_step data pos m of (go, pos', m') \<Rightarrow> if go then processVIF0_loop data pos' m' else m')
      else m)"
  by pat_completeness auto
termination
  by (relation "measure (\<lambda>(data, pos, m). length data - pos)") (auto dest!: vif0_step_pos [OF sym])

declare processVIF0_loop.simps [simp del]

definition processVIF0Data :: "u8 list \<Rightarrow> 'g vif_mem \<Rightarrow> 'g vif_mem" where
  "processVIF0Data data m = processVIF0_loop data 0 m"

text \<open>The overloads that read RDRAM: the buffer is cut at its end.\<close>

definition rdram_buffer :: "bytes \<Rightarrow> u32 \<Rightarrow> u32 \<Rightarrow> u8 list" where
  "rdram_buffer rdram srcPhys sizeBytes =
     (if sizeBytes = 0 \<or> srcPhys \<ge> PS2_RAM_SIZE then []
      else copy_out rdram (unat srcPhys) (min (unat sizeBytes) (unat PS2_RAM_SIZE - unat srcPhys)))"

definition processVIF0Phys :: "bytes \<Rightarrow> u32 \<Rightarrow> u32 \<Rightarrow> 'g vif_mem \<Rightarrow> 'g vif_mem" where
  "processVIF0Phys rdram srcPhys sizeBytes m = processVIF0Data (rdram_buffer rdram srcPhys sizeBytes) m"

section \<open>VIF1\<close>

definition gifImageQwcFromTag :: "u8 list \<Rightarrow> nat" where
  "gifImageQwcFromTag data =
     (if length data < 16 then 0
      else let tagLo = word_of_bytes (take 8 data) :: u64
           in if unat (drop_bit 58 tagLo AND 3) \<noteq> 2 then 0 else unat (tagLo AND 0x7FFF))"

definition image_tag :: "nat \<Rightarrow> bool \<Rightarrow> u64" where
  "image_tag chunkQw eop = (of_nat chunkQw AND 0x7FFF) OR (if eop then push_bit 15 1 else 0) OR push_bit 58 2"

text \<open>Quadwords still owed to a \<open>DIRECT\<close> image leave as an image packet of their own.\<close>

definition vif1_image :: "'g vif_env \<Rightarrow> u8 list \<Rightarrow> nat \<Rightarrow> 'g vif_mem \<Rightarrow> (bool \<times> nat \<times> 'g vif_mem) option" where
  "vif1_image env data pos m =
     (let availableQw = (length data - pos) div 16; owed = m_vif1PendingPath2ImageQwc m
      in if availableQw = 0 then Some (False, pos, m)
         else let chunkQw = min owed availableQw;
                  imagePacket = bytes_of_word 8 (image_tag chunkQw (owed = chunkQw)) @ replicate 8 0
                                @ take (chunkQw * 16) (drop pos data)
              in map_option (\<lambda>m. (True, pos + chunkQw * 16,
                     let left = m_vif1PendingPath2ImageQwc m - chunkQw
                     in m\<lparr>m_vif1PendingPath2ImageQwc := left,
                          m_vif1PendingPath2DirectHl := (if left = 0 then False else m_vif1PendingPath2DirectHl m)\<rparr>))
                   (submitGifPacket env Path2 imagePacket True (m_vif1PendingPath2DirectHl m) m))"

definition vif1_direct :: "'g vif_env \<Rightarrow> u8 list \<Rightarrow> u32 \<Rightarrow> nat \<Rightarrow> 'g vif_mem \<Rightarrow> (bool \<times> nat \<times> 'g vif_mem) option" where
  "vif1_direct env data cmd pos m =
     (let want = (if vif_imm cmd = 0 then 65536 else unat (vif_imm cmd));
          availableQw = (length data - pos) div 16;
          truncated = (want > availableQw);
          qwCount = min want availableQw;
          directHl = (vif_opcode cmd = 0x51);
          packet = take (qwCount * 16) (drop pos data);
          next = (\<not> truncated, if truncated then length data else pos + qwCount * 16)
      in if qwCount = 0 then Some (fst next, snd next, m)
         else map_option (\<lambda>m.
                let imageQw = gifImageQwcFromTag packet
                in (fst next, snd next,
                    if imageQw \<noteq> 0 \<and> imageQw > qwCount - 1
                    then m\<lparr>m_vif1PendingPath2ImageQwc := imageQw - (qwCount - 1), m_vif1PendingPath2DirectHl := directHl\<rparr>
                    else m))
              (submitGifPacket env Path2 packet True directHl m))"

text \<open>\<open>MSCAL\<close> and \<open>MSCNT\<close> show \<open>TOPS\<close> and \<open>ITOPS\<close> to the microprogram and swap the double buffer.\<close>

definition swap_buffer :: "VIFRegisters \<Rightarrow> VIFRegisters" where
  "swap_buffer r = r\<lparr>vif_top := vif_tops r AND 0x3FF, vif_itop := vif_itops r AND 0x3FF,
     vif_tops := (if bit (vif_stat r) 7 then vif_base r AND 0x3FF else (vif_base r + vif_ofst r) AND 0x3FF),
     vif_stat := vif_stat r XOR push_bit 7 1\<rparr>"

definition vif1_mscal :: "'g vif_env \<Rightarrow> u32 \<Rightarrow> 'g vif_mem \<Rightarrow> 'g vif_mem option" where
  "vif1_mscal env imm m =
     (let r = vif1_regs m; m' = on_vif1 swap_buffer m
      in case m_vu1MscalCallback env of None \<Rightarrow> Some m'
         | Some f \<Rightarrow> f (imm * 8) (vif_tops r AND 0x3FF) (vif_itops r AND 0x3FF) m')"

definition vif1_mscnt :: "'g vif_env \<Rightarrow> 'g vif_mem \<Rightarrow> 'g vif_mem option" where
  "vif1_mscnt env m =
     (let r = vif1_regs m; m' = on_vif1 swap_buffer m
      in case m_vu1MscntCallback env of None \<Rightarrow> Some m'
         | Some f \<Rightarrow> f (vif_tops r AND 0x3FF) (vif_itops r AND 0x3FF) m')"

definition vif1_mpg :: "u8 list \<Rightarrow> u32 \<Rightarrow> nat \<Rightarrow> 'g vif_mem \<Rightarrow> bool \<times> nat \<times> 'g vif_mem" where
  "vif1_mpg data cmd pos m =
     (let n = mpg_bytes (vif_numfield cmd);
          m' = (case m_vu1Code m of None \<Rightarrow> m
                | Some c \<Rightarrow>
                    let (copied, c') = mpg_copy PS2_VU1_CODE_SIZE data (unat (vif_imm cmd) * 8) n pos c
                    in m\<lparr>m_vu1Code := Some c',
                         m_vu1CodeGeneration := (if copied then m_vu1CodeGeneration m + 1 else m_vu1CodeGeneration m)\<rparr>)
      in (pos + n \<le> length data, pos + n, m'))"

definition vif1_mskpath3 :: "'g vif_env \<Rightarrow> u32 \<Rightarrow> 'g vif_mem \<Rightarrow> 'g vif_mem option" where
  "vif1_mskpath3 env imm m =
     (let m' = m\<lparr>m_path3Masked := bit imm 15\<rparr>
      in if m_path3Masked m \<and> \<not> bit imm 15 then flushMaskedPath3Packets env True m' else Some m')"

definition vif1_command :: "'g vif_env \<Rightarrow> u8 list \<Rightarrow> nat \<Rightarrow> 'g vif_mem \<Rightarrow> (bool \<times> nat \<times> 'g vif_mem) option" where
  "vif1_command env data pos0 m0 =
     (let cmd = le32 data pos0; pos = pos0 + 4; op = vif_opcode cmd; imm = vif_imm cmd;
          m = on_vif1 (note_command cmd) m0; upd = (\<lambda>f. Some (True, pos, on_vif1 f m))
      in if op = 0x00 then Some (True, pos, m)
         else if op = 0x01 then upd (\<lambda>r. r\<lparr>vif_cycle := imm\<rparr>)
         else if op = 0x02 then
           upd (\<lambda>r. r\<lparr>vif_ofst := imm AND 0x3FF, vif_tops := vif_base r AND 0x3FF, vif_stat := vif_stat r AND NOT (push_bit 7 1)\<rparr>)
         else if op = 0x03 then upd (\<lambda>r. r\<lparr>vif_base := imm AND 0x3FF\<rparr>)
         else if op = 0x04 then upd (\<lambda>r. r\<lparr>vif_itops := imm AND 0x3FF\<rparr>)
         else if op = 0x05 then upd (\<lambda>r. r\<lparr>vif_mode := imm AND 3\<rparr>)
         else if op = 0x06 then map_option (\<lambda>m. (True, pos, m)) (vif1_mskpath3 env imm m)
         else if op = 0x07 then upd (\<lambda>r. r\<lparr>vif_mark := imm, vif_stat := vif_stat r OR push_bit 6 1\<rparr>)
         else if op = 0x10 \<or> op = 0x11 \<or> op = 0x13 then Some (True, pos, m)
         else if op = 0x14 \<or> op = 0x15 then map_option (\<lambda>m. (True, pos, m)) (vif1_mscal env imm m)
         else if op = 0x17 then map_option (\<lambda>m. (True, pos, m)) (vif1_mscnt env m)
         else if op = 0x20 then
           if pos + 4 > length data then Some (False, pos, m)
           else Some (True, pos + 4, on_vif1 (\<lambda>r. r\<lparr>vif_mask := le32 data pos\<rparr>) m)
         else if op = 0x30 then
           if pos + 16 > length data then Some (False, pos, m)
           else Some (True, pos + 16, on_vif1 (\<lambda>r. r\<lparr>vif_row := le32s data pos\<rparr>) m)
         else if op = 0x31 then
           if pos + 16 > length data then Some (False, pos, m)
           else Some (True, pos + 16, on_vif1 (\<lambda>r. r\<lparr>vif_col := le32s data pos\<rparr>) m)
         else if op = 0x4A then Some (vif1_mpg data cmd pos m)
         else if op = 0x50 \<or> op = 0x51 then vif1_direct env data cmd pos m
         else if op AND 0x60 = 0x60 then Some (vif1_unpack data cmd pos m)
         else Some (True, pos, m))"

definition vif1_step :: "'g vif_env \<Rightarrow> u8 list \<Rightarrow> nat \<Rightarrow> 'g vif_mem \<Rightarrow> (bool \<times> nat \<times> 'g vif_mem) option" where
  "vif1_step env data pos m =
     (if m_vif1PendingPath2ImageQwc m \<noteq> 0 then vif1_image env data pos m else vif1_command env data pos m)"

lemma if_Some_cases:
  "(if b then x else y) = Some z \<Longrightarrow> (x = Some z \<Longrightarrow> P) \<Longrightarrow> (y = Some z \<Longrightarrow> P) \<Longrightarrow> P"
  by (cases b) simp_all

lemma vif1_image_pos:
  assumes "vif1_image env data pos m = Some (True, pos', m')" "m_vif1PendingPath2ImageQwc m \<noteq> 0"
  shows "pos < pos'"
proof -
  let ?n = "(length data - pos) div 16"
  have "vif1_image env data pos m = Some (False, pos, m)" if "?n = 0"
    unfolding vif1_image_def Let_def by (simp only: that simp_thms if_True)
  then have "?n \<noteq> 0" using assms(1) by auto
  moreover have "pos' = pos + min (m_vif1PendingPath2ImageQwc m) ?n * 16"
    using assms(1) unfolding vif1_image_def Let_def
    by (elim if_Some_cases) (auto simp only: map_option_eq_Some option.inject prod.inject simp_thms)
  ultimately show ?thesis using assms(2) by simp
qed

lemma vif1_direct_pos: "vif1_direct env data cmd pos m = Some (True, pos', m') \<Longrightarrow> pos \<le> pos'"
  unfolding vif1_direct_def Let_def
  by (elim if_Some_cases) (auto simp only: map_option_eq_Some option.inject prod.inject fst_conv snd_conv if_False
      not_not not_True_eq_False refl le_add1 simp_thms)

lemma vif1_total_pos:
  "vif1_mpg data cmd pos m = (go, pos', m') \<Longrightarrow> pos \<le> pos'"
  "vif1_unpack data cmd pos m = (go, pos', m') \<Longrightarrow> pos \<le> pos'"
  unfolding vif1_mpg_def vif1_unpack_def Let_def by (simp_all only: prod.inject, linarith+)

lemma vif1_command_pos: "vif1_command env data pos m = Some (True, pos', m') \<Longrightarrow> pos < pos'"
  unfolding vif1_command_def Let_def
  by (elim if_Some_cases) (auto simp only: map_option_eq_Some option.inject prod.inject lessI less_add_same_cancel1
      intro: less_le_trans [of pos "pos + 4"] dest!: vif1_direct_pos vif1_total_pos)

lemma vif1_step_pos: "vif1_step env data pos m = Some (True, pos', m') \<Longrightarrow> pos < pos'"
  by (auto simp: vif1_step_def split: if_splits dest: vif1_image_pos vif1_command_pos)

function processVIF1_loop :: "'g vif_env \<Rightarrow> u8 list \<Rightarrow> nat \<Rightarrow> 'g vif_mem \<Rightarrow> 'g vif_mem option" where
  "processVIF1_loop env data pos m =
     (if pos + 4 \<le> length data then
        (case vif1_step env data pos m of None \<Rightarrow> None
         | Some (go, pos', m') \<Rightarrow> if go then processVIF1_loop env data pos' m' else Some m')
      else Some m)"
  by pat_completeness auto
termination
  by (relation "measure (\<lambda>(env, data, pos, m). length data - pos)") (auto dest!: vif1_step_pos)

declare processVIF1_loop.simps [simp del]

definition processVIF1Data :: "'g vif_env \<Rightarrow> u8 list \<Rightarrow> 'g vif_mem \<Rightarrow> 'g vif_mem option" where
  "processVIF1Data env data m = processVIF1_loop env data 0 m"

definition processVIF1Phys :: "'g vif_env \<Rightarrow> bytes \<Rightarrow> u32 \<Rightarrow> u32 \<Rightarrow> 'g vif_mem \<Rightarrow> 'g vif_mem option" where
  "processVIF1Phys env rdram srcPhys sizeBytes m = processVIF1Data env (rdram_buffer rdram srcPhys sizeBytes) m"

end
