(* ===== verification/Dmac.thy ===== *)
theory Dmac
  imports Vif
begin

text \<open>
  The DMA controller of \<open>ps2_memory.cpp\<close>: the writes to its registers, source chains, the queues of
  started transfers and their completion, and the registers of VIF1. An exception that leaves the
  code, an access outside the arrays and a failing installed function are \<open>None\<close>. Reading a missing
  entry of \<open>m_ioRegisters\<close> gives 0 and the entry it makes is left out. Timers, GS privileged
  registers and the IPU, which \<open>writeIORegister\<close> handles in branches of its own, are not modelled.
\<close>

section \<open>State\<close>

record PendingTransfer =
  fromScratchpad :: bool
  srcAddr :: u32
  pt_qwc :: u32
  chainData :: "u8 list"

record 'g dma_mem =
  vif :: "'g vif_mem"
  dm_rdram :: bytes
  dm_scratchpad :: bytes
  dm_tlb :: "tlb_entry list"
  has_gsVRAM :: bool
  m_ioRegisters :: "u32 \<rightharpoonup> u32"
  m_pendingGifTransfers :: "PendingTransfer list"
  m_pendingVif0Transfers :: "PendingTransfer list"
  m_pendingVif1Transfers :: "PendingTransfer list"
  m_completedDmacCauses :: "u32 list"

definition io :: "'g dma_mem \<Rightarrow> u32 \<Rightarrow> u32" where
  "io m a = (case m_ioRegisters m a of None \<Rightarrow> 0 | Some v \<Rightarrow> v)"

definition set_io :: "u32 \<Rightarrow> u32 \<Rightarrow> 'g dma_mem \<Rightarrow> 'g dma_mem" where
  "set_io a v m = m\<lparr>m_ioRegisters := (m_ioRegisters m)(a \<mapsto> v)\<rparr>"

definition on_vif :: "('g vif_mem \<Rightarrow> 'g vif_mem option) \<Rightarrow> 'g dma_mem \<Rightarrow> 'g dma_mem option" where
  "on_vif f m = map_option (\<lambda>v. m\<lparr>vif := v\<rparr>) (f (vif m))"

definition isScratchpad :: "u32 \<Rightarrow> bool" where "isScratchpad = ps2IsScratchpadAddress"

definition D_STAT :: u32 where "D_STAT = 0x1000E010"
definition GIF_CHANNEL :: u32 where "GIF_CHANNEL = 0x1000A000"
definition VIF0_CHANNEL :: u32 where "VIF0_CHANNEL = 0x10008000"
definition VIF1_CHANNEL :: u32 where "VIF1_CHANNEL = 0x10009000"

section \<open>Cyclic reads\<close>

text \<open>
  The loops that read a number of bytes from RAM or scratchpad and go on at the start when they reach
  the end. The parts are pairs of offset and length; the loop ends below \<open>least\<close> bytes.
\<close>

definition next_chunk :: "u32 \<Rightarrow> u32 \<Rightarrow> u32 \<Rightarrow> u32 \<times> u32" where
  "next_chunk maxSz src bytesLeft =
     (let s = (if src \<ge> maxSz then 0 else src)
      in (s, if s + bytesLeft > maxSz then maxSz - s else bytesLeft))"

lemma next_chunk_bounds:
  assumes "next_chunk maxSz src b = (s, c)"
  shows "unat s \<le> unat maxSz" "unat c \<le> unat b"
proof -
  have s: "s = (if src \<ge> maxSz then 0 else src)" and c: "c = (if s + b > maxSz then maxSz - s else b)"
    using assms by (auto simp: next_chunk_def Let_def)
  then show le: "unat s \<le> unat maxSz" by (auto simp: word_le_nat_alt)
  show "unat c \<le> unat b"
  proof (cases "s + b > maxSz")
    case True
    have "unat (s + b) \<le> unat s + unat b" by (simp add: unat_word_ariths)
    then have "unat maxSz < unat s + unat b" using True by (simp add: word_less_nat_alt)
    moreover have "unat c = unat maxSz - unat s" using True c le by (simp add: unat_sub word_le_nat_alt)
    ultimately show ?thesis by simp
  qed (simp add: c)
qed

lemma chunk_decreases: "(s, c) = next_chunk maxSz src b \<Longrightarrow> c \<noteq> 0 \<Longrightarrow> unat (b - c) < unat b"
  using next_chunk_bounds(2) [of maxSz src b s c] unat_gt_0 [of c] by (simp add: unat_sub word_le_nat_alt)

function chunks :: "u32 \<Rightarrow> u32 \<Rightarrow> u32 \<Rightarrow> u32 \<Rightarrow> (u32 \<times> u32) list option" where
  "chunks least maxSz src bytesLeft =
     (if bytesLeft = 0 \<or> bytesLeft < least then Some []
      else case next_chunk maxSz src bytesLeft of (s, chunk) \<Rightarrow>
             if chunk = 0 then Some []
             else if unat s + unat chunk > unat maxSz then None
             else map_option ((#) (s, chunk)) (chunks least maxSz (s + chunk) (bytesLeft - chunk)))"
  by pat_completeness auto
termination
  by (relation "measure (\<lambda>(least, maxSz, src, b). unat b)") (simp, metis chunk_decreases in_measure case_prod_conv)

declare chunks.simps [simp del]

definition chunk_data :: "bytes \<Rightarrow> (u32 \<times> u32) list \<Rightarrow> u8 list list" where
  "chunk_data d cs = map (\<lambda>(s, c). copy_out d (unat s) (unat c)) cs"

definition dma_bytes :: "u32 \<Rightarrow> u32" where
  "dma_bytes qwc = (if unat qwc * 16 > 0xFFFFFFFF then 0xFFFFFFFF else qwc * 16)"

definition dma_source :: "'g dma_mem \<Rightarrow> bool \<Rightarrow> bytes \<times> u32" where
  "dma_source m scratch = (if scratch then (dm_scratchpad m, PS2_SCRATCHPAD_SIZE) else (dm_rdram m, PS2_RAM_SIZE))"

section \<open>Source chains\<close>

definition appendData :: "'g dma_mem \<Rightarrow> u32 \<Rightarrow> u32 \<Rightarrow> u8 list \<Rightarrow> u8 list option" where
  "appendData m addr qwCount buf =
     (case translateAddress (dm_tlb m) addr of None \<Rightarrow> None
      | Some src \<Rightarrow>
          (case dma_source m (isScratchpad addr) of (d, maxSz) \<Rightarrow>
             map_option (\<lambda>cs. buf @ concat (chunk_data d cs)) (chunks 1 maxSz src (dma_bytes qwCount))))"

definition appendCompactVif1TagData :: "'g dma_mem \<Rightarrow> u32 \<Rightarrow> u32 \<Rightarrow> u8 list \<Rightarrow> u8 list option" where
  "appendCompactVif1TagData m tagAddr qwCount buf =
     (case translateAddress (dm_tlb m) tagAddr of None \<Rightarrow> None
      | Some phys \<Rightarrow>
          (case dma_source m (isScratchpad tagAddr) of (d, maxSz) \<Rightarrow>
             if phys + 16 > maxSz then Some buf
             else if unat phys + 16 > unat maxSz then None
             else appendData m (tagAddr + 16) qwCount (buf @ copy_out d (unat phys + 8) 8)))"

record chain_state =
  tagAddr :: u32
  ch_asr0 :: u32
  ch_asr1 :: u32
  ch_asp :: u32
  lastTagUpper :: u32
  chainBuf :: "u8 list"

text \<open>
  The switch over the tag: the address of the data, the new state, and whether the chain ends. A call
  with a full stack jumps without a return address; a return with an empty stack ends the chain.
\<close>

definition tag_move :: "u32 \<Rightarrow> u32 \<Rightarrow> u32 \<Rightarrow> chain_state \<Rightarrow> u32 \<times> chain_state \<times> bool" where
  "tag_move tid addr qwc st =
     (let t = tagAddr st; behind = t + 16; retAddr = t + 16 + qwc * 16
      in if tid = 0 then (addr, st\<lparr>tagAddr := behind\<rparr>, True)
         else if tid = 1 then (behind, st\<lparr>tagAddr := retAddr\<rparr>, False)
         else if tid = 2 then (behind, st\<lparr>tagAddr := addr\<rparr>, False)
         else if tid = 3 \<or> tid = 4 then (addr, st\<lparr>tagAddr := behind\<rparr>, False)
         else if tid = 5 then
           (behind, (if ch_asp st = 0 then st\<lparr>ch_asr0 := retAddr, ch_asp := 1\<rparr>
                     else if ch_asp st = 1 then st\<lparr>ch_asr1 := retAddr, ch_asp := 2\<rparr> else st)\<lparr>tagAddr := addr\<rparr>, False)
         else if tid = 6 then
           (if ch_asp st = 2 then (behind, st\<lparr>tagAddr := ch_asr1 st, ch_asp := 1\<rparr>, False)
            else if ch_asp st = 1 then (behind, st\<lparr>tagAddr := ch_asr0 st, ch_asp := 0\<rparr>, False)
            else (behind, st, True))
         else (behind, st, True))"

definition read_tag :: "'g dma_mem \<Rightarrow> u32 \<Rightarrow> u64 option option" where
  "read_tag m t =
     (case translateAddress (dm_tlb m) t of None \<Rightarrow> Some None
      | Some phys \<Rightarrow>
          (case dma_source m (isScratchpad t) of (d, maxSz) \<Rightarrow>
             if phys + 16 > maxSz then Some None
             else if unat phys + 16 > unat maxSz then None
             else Some (Some (word_of_bytes (copy_out d (unat phys) 8)))))"

definition chain_step :: "'g dma_mem \<Rightarrow> bool \<Rightarrow> bool \<Rightarrow> chain_state \<Rightarrow> (bool \<times> chain_state) option" where
  "chain_step m vifChannel tieEnabled st =
     (case read_tag m (tagAddr st) of None \<Rightarrow> None
      | Some None \<Rightarrow> Some (False, st)
      | Some (Some tag) \<Rightarrow>
          let qwc = ucast tag AND 0xFFFF :: u32;
              (dataAddr, st1, endChain) =
                tag_move (ucast (drop_bit 28 tag) AND 7) (ucast (drop_bit 32 tag) AND 0x7FFFFFFF) qwc
                  (st\<lparr>lastTagUpper := ucast (drop_bit 16 tag) AND 0xFFFF\<rparr>);
              stop = (endChain \<or> bit tag 31 \<and> tieEnabled)
          in Option.bind (if vifChannel then appendCompactVif1TagData m (tagAddr st) 0 (chainBuf st) else Some (chainBuf st))
               (\<lambda>buf. map_option (\<lambda>buf. (\<not> stop, st1\<lparr>chainBuf := buf\<rparr>))
                  (if qwc > 0 then appendData m dataAddr qwc buf else Some buf)))"

primrec chain_walk :: "nat \<Rightarrow> 'g dma_mem \<Rightarrow> bool \<Rightarrow> bool \<Rightarrow> chain_state \<Rightarrow> chain_state option" where
  "chain_walk 0 m vifChannel tie st = Some st"
| "chain_walk (Suc n) m vifChannel tie st =
     (case chain_step m vifChannel tie st of None \<Rightarrow> None
      | Some (go, st') \<Rightarrow> if go then chain_walk n m vifChannel tie st' else Some st')"

definition kMaxChainTags :: nat where "kMaxChainTags = 4096"

section \<open>Completing transfers\<close>

definition raise_dstat :: "nat \<Rightarrow> 'g dma_mem \<Rightarrow> 'g dma_mem" where
  "raise_dstat ch m =
     (let dstat = io m D_STAT OR push_bit ch 1
      in set_io D_STAT (if (dstat AND 0x3FF) AND (drop_bit 16 dstat AND 0x3FF) \<noteq> 0
                        then dstat OR push_bit 31 1 else dstat AND NOT (push_bit 31 1)) m)"

definition finish_channel :: "nat \<Rightarrow> u32 \<Rightarrow> 'g dma_mem \<Rightarrow> 'g dma_mem" where
  "finish_channel ch base m =
     (let m = raise_dstat ch m;
          m = m\<lparr>m_completedDmacCauses := m_completedDmacCauses m @ [of_nat ch]\<rparr>
      in set_io (base + 0x20) 0 (set_io base (io m base AND NOT 0x100) m))"

definition consumeCompletedDmacCauses :: "'g dma_mem \<Rightarrow> u32 list \<times> 'g dma_mem" where
  "consumeCompletedDmacCauses m = (m_completedDmacCauses m, m\<lparr>m_completedDmacCauses := []\<rparr>)"

primrec feed_all :: "('a \<Rightarrow> 's \<Rightarrow> 's option) \<Rightarrow> 'a list \<Rightarrow> 's \<Rightarrow> 's option" where
  "feed_all f [] s = Some s"
| "feed_all f (x # xs) s = Option.bind (f x s) (feed_all f xs)"

text \<open>
  One started transfer: the gathered chain, or the chunks of a contiguous transfer; a source address
  that does not translate is skipped.
\<close>

definition run_transfer ::
  "u32 \<Rightarrow> (u8 list \<Rightarrow> 'g vif_mem \<Rightarrow> 'g vif_mem option) \<Rightarrow> PendingTransfer \<Rightarrow> 'g dma_mem \<Rightarrow> 'g dma_mem option" where
  "run_transfer least consume p m =
     (if chainData p \<noteq> [] then on_vif (consume (chainData p)) m
      else if pt_qwc p > 0 then
        (case translateAddress (dm_tlb m) (srcAddr p) of None \<Rightarrow> Some m
         | Some src \<Rightarrow>
             (case dma_source m (fromScratchpad p) of (d, maxSz) \<Rightarrow>
                Option.bind (chunks least maxSz src (dma_bytes (pt_qwc p)))
                  (\<lambda>cs. on_vif (feed_all consume (chunk_data d cs)) m)))
      else Some m)"

definition gif_consume :: "'g vif_env \<Rightarrow> u8 list \<Rightarrow> 'g vif_mem \<Rightarrow> 'g vif_mem option" where
  "gif_consume env data = submitGifPacket env Path3 data False False"

definition processPendingTransfers :: "'g vif_env \<Rightarrow> 'g dma_mem \<Rightarrow> 'g dma_mem option" where
  "processPendingTransfers env m0 =
     Option.bind (feed_all (run_transfer 16 (gif_consume env)) (m_pendingGifTransfers m0) m0) (\<lambda>m.
     Option.bind (feed_all (run_transfer 1 (\<lambda>data v. Some (processVIF0Data data v))) (m_pendingVif0Transfers m)
                    (m\<lparr>m_pendingGifTransfers := []\<rparr>)) (\<lambda>m.
     Option.bind (feed_all (run_transfer 1 (processVIF1Data env)) (m_pendingVif1Transfers m)
                    (m\<lparr>m_pendingVif0Transfers := []\<rparr>)) (\<lambda>m.
     map_option (\<lambda>m.
         let m = (if m_pendingGifTransfers m0 \<noteq> [] then finish_channel 2 GIF_CHANNEL m else m);
             m = (if m_pendingVif0Transfers m0 \<noteq> [] then finish_channel 0 VIF0_CHANNEL m else m)
         in if m_pendingVif1Transfers m0 \<noteq> [] then finish_channel 1 VIF1_CHANNEL m else m)
       (on_vif (drain_arbiter env) (m\<lparr>m_pendingVif1Transfers := []\<rparr>)))))"

section \<open>Scratchpad channels\<close>

primrec spr_copy :: "bool \<Rightarrow> u32 \<Rightarrow> u32 \<Rightarrow> nat \<Rightarrow> bytes \<times> bytes \<Rightarrow> bytes \<times> bytes" where
  "spr_copy fromSpr sadr madr 0 s = s"
| "spr_copy fromSpr sadr madr (Suc i) s =
     (case spr_copy fromSpr sadr madr i s of (ram, spr) \<Rightarrow>
        let sp = unat ((sadr + of_nat i) AND (PS2_SCRATCHPAD_SIZE - 1)); mp = unat madr + i
        in if mp \<ge> unat PS2_RAM_SIZE then (ram, spr)
           else if fromSpr then (ram(mp := spr sp), spr) else (ram, spr(sp := ram mp)))"

definition spr_channel :: "u32 \<Rightarrow> u32 \<Rightarrow> 'g dma_mem \<Rightarrow> 'g dma_mem option" where
  "spr_channel base value m =
     (case translateAddress (dm_tlb m) (io m (base + 0x10)) of None \<Rightarrow> None
      | Some madr \<Rightarrow>
          let qwc = io m (base + 0x20); sadr = io m (base + 0x80) AND (PS2_SCRATCHPAD_SIZE - 1);
              fromSpr = (base = 0x1000D000);
              m = (if madr < PS2_RAM_SIZE \<and> qwc > 0
                   then let n = min (unat qwc * 16) (unat PS2_RAM_SIZE);
                            (ram, spr) = spr_copy fromSpr sadr madr n (dm_rdram m, dm_scratchpad m)
                        in m\<lparr>dm_rdram := ram, dm_scratchpad := spr\<rparr>
                   else m)
          in Some (set_io (base + 0x20) 0 (set_io base (value AND NOT 0x100) (raise_dstat (if fromSpr then 8 else 9) m))))"

section \<open>Register writes\<close>

text \<open>The start of a GIF or VIF channel.\<close>

definition enqueue :: "u32 \<Rightarrow> PendingTransfer \<Rightarrow> 'g dma_mem \<Rightarrow> 'g dma_mem" where
  "enqueue base pt m =
     (if base = GIF_CHANNEL then m\<lparr>m_pendingGifTransfers := m_pendingGifTransfers m @ [pt]\<rparr>
      else if base = VIF1_CHANNEL then m\<lparr>m_pendingVif1Transfers := m_pendingVif1Transfers m @ [pt]\<rparr>
      else if base = VIF0_CHANNEL then m\<lparr>m_pendingVif0Transfers := m_pendingVif0Transfers m @ [pt]\<rparr>
      else m)"

definition enqueueTransfer :: "u32 \<Rightarrow> u32 \<Rightarrow> u32 \<Rightarrow> 'g dma_mem \<Rightarrow> 'g dma_mem" where
  "enqueueTransfer base addr qwCount m =
     (if qwCount = 0 then m
      else enqueue base \<lparr>fromScratchpad = isScratchpad addr, srcAddr = addr, pt_qwc = qwCount, chainData = []\<rparr> m)"

definition start_chain :: "u32 \<Rightarrow> u32 \<Rightarrow> 'g dma_mem \<Rightarrow> 'g dma_mem option" where
  "start_chain base chcr m =
     map_option (\<lambda>st.
         let m = set_io (base + 0x50) (ch_asr1 st) (set_io (base + 0x40) (ch_asr0 st) (set_io (base + 0x30) (tagAddr st) m));
             c = (chcr AND NOT 0x30) OR push_bit 4 (ch_asp st AND 3);
             m = set_io base ((c AND 0xFFFF) OR push_bit 16 (lastTagUpper st)) m
         in if chainBuf st = [] then m
            else enqueue base \<lparr>fromScratchpad = False, srcAddr = 0, pt_qwc = 0, chainData = chainBuf st\<rparr> m)
       (chain_walk kMaxChainTags m (base = VIF1_CHANNEL \<or> base = VIF0_CHANNEL) (bit chcr 7)
          \<lparr>tagAddr = io m (base + 0x30), ch_asr0 = io m (base + 0x40), ch_asr1 = io m (base + 0x50),
           ch_asp = drop_bit 4 chcr AND 3, lastTagUpper = drop_bit 16 chcr AND 0xFFFF, chainBuf = []\<rparr>)"

definition start_channel :: "'g vif_env \<Rightarrow> u32 \<Rightarrow> u32 \<Rightarrow> 'g dma_mem \<Rightarrow> 'g dma_mem option" where
  "start_channel env base chcr m =
     (if (base = GIF_CHANNEL \<or> base = VIF1_CHANNEL \<or> base = VIF0_CHANNEL) \<and> (has_gsVRAM m \<or> base = VIF0_CHANNEL) then
        let madr = io m (base + 0x10); qwc = io m (base + 0x20); mode = drop_bit 2 chcr AND 3;
            automatic = (base = GIF_CHANNEL \<longrightarrow> m_gifPacketCallback env \<noteq> None \<or> m_gifArbiter (vif m) \<noteq> None)
        in Option.bind (if mode = 0 \<and> qwc > 0 then Some (enqueueTransfer base madr qwc m)
                        else if mode = 1 then start_chain base chcr m
                        else if qwc > 0 then Some (enqueueTransfer base madr qwc m)
                        else Some m)
             (\<lambda>m. if automatic then processPendingTransfers env m else Some m)
      else Some m)"

definition dmacEnabled :: "'g dma_mem \<Rightarrow> bool" where
  "dmacEnabled m = (case m_ioRegisters m 0x1000E000 of None \<Rightarrow> True | Some v \<Rightarrow> bit v 0)"

definition write_dstat :: "u32 \<Rightarrow> 'g dma_mem \<Rightarrow> 'g dma_mem" where
  "write_dstat value m =
     (let current = io m D_STAT;
          status = (current AND 0x3FF) AND NOT (value AND 0x3FF);
          mask = (drop_bit 16 current AND 0x3FF) XOR (drop_bit 16 value AND 0x3FF);
          base = current AND NOT (0x3FF OR push_bit 16 0x3FF OR push_bit 31 1);
          n = base OR (status OR push_bit 16 mask)
      in set_io D_STAT (if status AND mask \<noteq> 0 then n OR push_bit 31 1 else n) m)"

definition vif1_register :: "u32 \<Rightarrow> u32 \<Rightarrow> 'g vif_mem \<Rightarrow> 'g vif_mem" where
  "vif1_register address value v =
     (if address = 0x10003C10 then
        let v = (if bit value 0 then v\<lparr>vif1_regs := VIFRegisters_zero, m_vif1PendingPath2ImageQwc := 0,
                                       m_vif1PendingPath2DirectHl := False\<rparr> else v)
        in if bit value 3 then on_vif1 (\<lambda>r. r\<lparr>vif_stat := vif_stat r AND NOT 0x3F00\<rparr>) v else v
      else if address = 0x10003C30 then
        on_vif1 (\<lambda>r. r\<lparr>vif_mark := value AND 0xFFFF, vif_stat := vif_stat r AND NOT (push_bit 6 1)\<rparr>) v
      else if address = 0x10003C40 then on_vif1 (\<lambda>r. r\<lparr>vif_cycle := value AND 0xFFFF\<rparr>) v
      else if address = 0x10003C50 then on_vif1 (\<lambda>r. r\<lparr>vif_mode := value AND 3\<rparr>) v
      else if address = 0x10003C60 then on_vif1 (\<lambda>r. r\<lparr>vif_num := value AND 0xFF\<rparr>) v
      else if address = 0x10003C70 then on_vif1 (\<lambda>r. r\<lparr>vif_mask := value\<rparr>) v
      else if address = 0x10003C80 then on_vif1 (\<lambda>r. r\<lparr>vif_code := value\<rparr>) v
      else if address = 0x10003C90 then on_vif1 (\<lambda>r. r\<lparr>vif_itops := value AND 0x3FF\<rparr>) v
      else if address = 0x10003CA0 then on_vif1 (\<lambda>r. r\<lparr>vif_base := value AND 0x3FF\<rparr>) v
      else if address = 0x10003CB0 then on_vif1 (\<lambda>r. r\<lparr>vif_ofst := value AND 0x3FF\<rparr>) v
      else if address = 0x10003CC0 then on_vif1 (\<lambda>r. r\<lparr>vif_tops := value AND 0x3FF\<rparr>) v
      else if address = 0x10003CD0 then on_vif1 (\<lambda>r. r\<lparr>vif_itop := value AND 0x3FF\<rparr>) v
      else if address = 0x10003CE0 then on_vif1 (\<lambda>r. r\<lparr>vif_top := value AND 0x3FF\<rparr>) v
      else v)"

text \<open>
  \<open>writeIORegister\<close> for the addresses behind the timers, GS privileged registers and IPU, whose
  branches come first and are not modelled.
\<close>

definition writeIORegister :: "'g vif_env \<Rightarrow> u32 \<Rightarrow> u32 \<Rightarrow> 'g dma_mem \<Rightarrow> 'g dma_mem option" where
  "writeIORegister env address value m0 =
     (if address = D_STAT then Some (write_dstat value m0)
      else if address = 0x1000F000 then Some (set_io address (io m0 address AND NOT value) m0)
      else let m = set_io address value m0 in
        if address \<ge> 0x10003C00 \<and> address < 0x10003E00 then Some (m\<lparr>vif := vif1_register address value (vif m)\<rparr>)
        else if address \<ge> 0x10008000 \<and> address < 0x1000F000 \<and> address AND 0xFF = 0 \<and> bit value 8 then
          let base = address AND 0xFFFFFF00
          in if base = 0x1000D000 \<or> base = 0x1000D400 then spr_channel base value m
             else if \<not> dmacEnabled m then Some m
             else start_channel env base value m
        else Some m)"

end
