(* ===== verification/VifProps.thy ===== *)
theory VifProps
  imports Vif
begin

text \<open>
  What the VIF units promise: \<open>UNPACK\<close> puts the decoded vectors where \<open>STCYCL\<close> says and leaves the
  rest of VU memory alone; a stream may be cut at a command boundary; microprograms see the two
  buffers in turn; and the interpreter returns on every buffer when the installed functions do.
\<close>

section \<open>UNPACK\<close>

definition lane_mask :: "unpack \<Rightarrow> nat \<Rightarrow> nat \<Rightarrow> u32" where
  "lane_mask u cyc f = (if up_maskEnable u then drop_bit ((min cyc 3 * 4 + f) * 2) (up_mask u) AND 3 else 0)"

definition unpack_adds :: "unpack \<Rightarrow> bool" where
  "unpack_adds u \<longleftrightarrow> (up_mode u AND 3 = 1 \<or> up_mode u AND 3 = 2) \<and> \<not> (up_vl u = 3 \<and> up_vn u = 3)"

definition lane_of :: "unpack \<Rightarrow> nat \<Rightarrow> nat \<Rightarrow> u32 list option \<Rightarrow> u32 \<Rightarrow> u32 \<Rightarrow> u32" where
  "lane_of u cyc f src row old =
     (if lane_mask u cyc f = 3 then old
      else if lane_mask u cyc f = 2 then up_col u ! min cyc 3
      else case src of Some v \<Rightarrow> if lane_mask u cyc f = 1 then row else v ! f + (if unpack_adds u then row else 0)
           | None \<Rightarrow> row)"

definition row_of :: "unpack \<Rightarrow> nat \<Rightarrow> nat \<Rightarrow> u32 list option \<Rightarrow> u32 \<Rightarrow> u32" where
  "row_of u cyc f src row =
     (case src of Some v \<Rightarrow> if lane_mask u cyc f = 0 \<and> unpack_adds u \<and> up_mode u AND 3 = 2 then v ! f + row else row
      | None \<Rightarrow> row)"

lemma mask_cases: "(x::u32) AND 3 = 0 \<or> x AND 3 = 1 \<or> x AND 3 = 2 \<or> x AND 3 = 3"
proof -
  have "x AND 3 \<le> 3" by (rule word_and_le1)
  then have "unat (x AND 3) \<le> 3" by (simp add: word_le_nat_alt)
  then have "unat (x AND 3) \<in> {0, 1, 2, 3}" by auto
  then show ?thesis by (auto simp: word_unat_eq_iff)
qed

lemma lane_mask_cases: "lane_mask u cyc f = 0 \<or> lane_mask u cyc f = 1 \<or> lane_mask u cyc f = 2 \<or> lane_mask u cyc f = 3"
  unfolding lane_mask_def using mask_cases by simp

lemma unpack_field_eq:
  assumes "length row = 4" "length lanes = 4" "f < 4" "decoded \<longleftrightarrow> src \<noteq> None"
  shows "unpack_field u decoded src cyc f (row, lanes)
    = (row[f := row_of u cyc f src (row ! f)], lanes[f := lane_of u cyc f src (row ! f) (lanes ! f)])"
  using assms lane_mask_cases [of u cyc f]
  by (auto simp: unpack_field_def Let_def lane_of_def row_of_def unpack_adds_def lane_mask_def [symmetric]
      split: option.splits)

lemma fields_eq:
  assumes "length row = 4" "length lanes = 4" "decoded \<longleftrightarrow> src \<noteq> None"
  shows "fold (unpack_field u decoded src cyc) [0..<4] (row, lanes)
    = (map (\<lambda>f. row_of u cyc f src (row ! f)) [0..<4], map (\<lambda>f. lane_of u cyc f src (row ! f) (lanes ! f)) [0..<4])"
proof -
  have "[0..<4] = [0, 1, 2, 3::nat]" by (simp add: upt_rec)
  moreover obtain a b c d where row: "row = [a, b, c, d]"
    using assms(1) by (auto simp: length_Suc_conv numeral_eq_Suc)
  moreover obtain a' b' c' d' where "lanes = [a', b', c', d']"
    using assms(2) by (auto simp: length_Suc_conv numeral_eq_Suc)
  ultimately show ?thesis using assms(3) by (simp add: unpack_field_eq)
qed

section \<open>Write cycles\<close>

definition has_source :: "nat \<Rightarrow> nat \<Rightarrow> nat \<Rightarrow> bool" where
  "has_source cl wl i \<longleftrightarrow> cl \<ge> wl \<or> i mod wl < cl"

lemma sources_Suc:
  assumes "0 < wl"
  shows "sourceVectorCount cl wl (Suc i) = sourceVectorCount cl wl i + (if has_source cl wl i then 1 else 0)"
proof (cases "cl < wl")
  case True
  show ?thesis
  proof (cases "Suc (i mod wl) = wl")
    case True
    then have "Suc i mod wl = 0" "Suc i div wl = Suc (i div wl)" by (simp_all add: mod_Suc div_Suc)
    then show ?thesis using \<open>cl < wl\<close> True by (auto simp: sourceVectorCount_def has_source_def)
  next
    case False
    then have "Suc i mod wl = Suc (i mod wl)" "Suc i div wl = i div wl" by (simp_all add: mod_Suc div_Suc)
    then show ?thesis using \<open>cl < wl\<close> by (auto simp: sourceVectorCount_def has_source_def)
  qed
qed (simp add: sourceVectorCount_def has_source_def)

lemma sources_mono: "i \<le> j \<Longrightarrow> 0 < wl \<Longrightarrow> sourceVectorCount cl wl i \<le> sourceVectorCount cl wl j"
  by (induction j rule: dec_induct) (simp_all add: sources_Suc)

lemma sources_less:
  assumes "0 < wl" "has_source cl wl i" "i < n"
  shows "sourceVectorCount cl wl i < sourceVectorCount cl wl n"
  using sources_mono [of "Suc i" n wl cl] assms by (simp add: sources_Suc)

definition skip_offset :: "nat \<Rightarrow> nat \<Rightarrow> nat \<Rightarrow> nat" where
  "skip_offset cl wl i = (i div wl) * cl + i mod wl"

lemma skip_offset_less:
  assumes "0 < wl" "wl \<le> cl" "i < j"
  shows "skip_offset cl wl i < skip_offset cl wl j"
proof (cases "i div wl = j div wl")
  case True
  then have "i mod wl < j mod wl"
    using assms(3) mult_div_mod_eq [of wl i] mult_div_mod_eq [of wl j] by (metis add_less_cancel_left)
  then show ?thesis using True by (simp add: skip_offset_def)
next
  case False
  then have "Suc (i div wl) \<le> j div wl" using div_le_mono [of i j wl] assms(3) by linarith
  then have "Suc (i div wl) * cl \<le> j div wl * cl" by (rule mult_le_mono1)
  moreover have "i mod wl < cl" using mod_less_divisor [OF assms(1), of i] assms(2) by linarith
  ultimately show ?thesis by (simp add: skip_offset_def)
qed

lemma add_mod_1024:
  fixes x y :: nat
  assumes "(a + x) mod 1024 = (a + y) mod 1024" "x < 1024" "y < 1024"
  shows "x = y"
proof -
  have "q = p" if "(a + p) mod 1024 = (a + q) mod 1024" "p \<le> q" "q < 1024" for p q
  proof -
    have "1024 dvd (a + q) - (a + p)" using that by (metis add_le_cancel_left mod_eq_dvd_iff_nat)
    then show ?thesis using that by (auto dest: dvd_imp_le)
  qed
  then show ?thesis using assms by (metis nle_le)
qed

text \<open>The vectors one \<open>UNPACK\<close> writes are distinct as long as they span no more than VU memory.\<close>

definition fits_vu :: "nat \<Rightarrow> nat \<Rightarrow> nat \<Rightarrow> bool" where
  "fits_vu cl wl n \<longleftrightarrow> (if cl \<ge> wl then skip_offset cl wl (n - 1) < 1024 else n \<le> 1024)"

lemma destVec_inj:
  assumes "0 < wl" "fits_vu cl wl n" "i < n" "j < n" "destVec cl wl a i = destVec cl wl a j"
  shows "i = j"
proof (cases "cl \<ge> wl")
  case False
  then have "(a + i) mod 1024 = (a + j) mod 1024" "n \<le> 1024" using assms(2,5) by (simp_all add: destVec_def fits_vu_def)
  then show ?thesis using assms(3,4) add_mod_1024 [of a i j] by simp
next
  case True
  have below: "skip_offset cl wl k < 1024" if "k < n" for k
  proof (cases "k = n - 1")
    case False
    then have "k < n - 1" using that by linarith
    then show ?thesis using skip_offset_less [OF assms(1) True, of k "n - 1"] assms(2) True by (simp add: fits_vu_def)
  qed (use assms(2) True in \<open>simp add: fits_vu_def\<close>)
  have "skip_offset cl wl i = skip_offset cl wl j"
    using assms(5) True add_mod_1024 [of a _ _, OF _ below [OF assms(3)] below [OF assms(4)]]
    by (simp add: destVec_def skip_offset_def add.assoc)
  then show ?thesis using skip_offset_less [OF assms(1) True] by (metis less_irrefl nat_neq_iff)
qed

section \<open>Vectors in VU memory\<close>

lemma length_lanes [simp]: "length (vec_lanes d off) = 4" by (simp add: vec_lanes_def le32s_def)

lemma vec_lanes_nth: "f < 4 \<Longrightarrow> vec_lanes d off ! f = word_of_bytes (copy_out d (off + 4 * f) 4)"
  by (simp add: vec_lanes_def le32s_def le32_def copy_out_def take_map drop_map)

lemma lanes_bytes_4:
  assumes "length ls = 4"
  shows "lanes_bytes ls = bytes_of_word 4 (ls ! 0) @ bytes_of_word 4 (ls ! 1) @ bytes_of_word 4 (ls ! 2) @ bytes_of_word 4 (ls ! 3)"
proof -
  obtain a b c d where "ls = [a, b, c, d]" using assms by (auto simp: length_Suc_conv numeral_eq_Suc)
  then show ?thesis by (simp add: lanes_bytes_def)
qed

lemma copy_out_in_part:
  assumes "k + n \<le> length bs"
  shows "copy_out (copy_in off bs d) (off + k) n = take n (drop k bs)"
  using assms by (intro nth_equalityI) (simp_all add: copy_in_def)

lemma vec_lanes_same:
  assumes "length ls = 4"
  shows "vec_lanes (copy_in off (lanes_bytes ls) d) off = ls"
proof (rule nth_equalityI)
  fix f assume "f < length (vec_lanes (copy_in off (lanes_bytes ls) d) off)"
  then have f: "f < 4" by simp
  then have "f \<in> {0, 1, 2, 3}" by auto
  then have "take 4 (drop (4 * f) (lanes_bytes ls)) = bytes_of_word 4 (ls ! f)"
    using assms by (auto simp: lanes_bytes_4)
  then show "vec_lanes (copy_in off (lanes_bytes ls) d) off ! f = ls ! f"
    using f assms by (simp add: vec_lanes_nth copy_out_in_part lanes_bytes_4 word_of_bytes_of_word)
qed (use assms in simp)

lemma vec_lanes_other:
  assumes "length bs = 16" "v \<noteq> w"
  shows "vec_lanes (copy_in (v * 16) bs d) (w * 16) = vec_lanes d (w * 16)"
proof -
  have "copy_out (copy_in (v * 16) bs d) (w * 16) 16 = copy_out d (w * 16) 16"
    using assms by (intro nth_equalityI) (auto simp: copy_in_def)
  then show ?thesis by (simp add: vec_lanes_def)
qed

section \<open>The whole command\<close>

text \<open>
  What an \<open>UNPACK\<close> means: source vector number \<open>sourceVectorCount i\<close> goes to the destination of cycle
  \<open>i\<close>, through the mask and with the row added in the adding modes; the row of mode 2 accumulates.
\<close>

definition dest :: "unpack \<Rightarrow> nat \<Rightarrow> nat" where
  "dest u i = destVec (up_cl u) (up_wl u) (up_addr u) i"

definition source_vector :: "unpack \<Rightarrow> u8 list \<Rightarrow> bytes \<Rightarrow> nat \<Rightarrow> u32 list option" where
  "source_vector u src d i =
     (if has_source (up_cl u) (up_wl u) i
      then let bpv = bytesPerVector (up_vn u) (up_vl u)
           in decompress (up_vn u) (up_vl u) (up_zeroExtend u)
                (take bpv (drop (sourceVectorCount (up_cl u) (up_wl u) i * bpv) src)) (vec_lanes d (dest u i * 16))
      else None)"

primrec rows_at :: "unpack \<Rightarrow> u8 list \<Rightarrow> bytes \<Rightarrow> u32 list \<Rightarrow> nat \<Rightarrow> u32 list" where
  "rows_at u src d row 0 = row"
| "rows_at u src d row (Suc i) =
     map (\<lambda>f. row_of u (i mod up_wl u) f (source_vector u src d i) (rows_at u src d row i ! f)) [0..<4]"

definition unpacked :: "unpack \<Rightarrow> u8 list \<Rightarrow> bytes \<Rightarrow> u32 list \<Rightarrow> nat \<Rightarrow> u32 list" where
  "unpacked u src d row i =
     map (\<lambda>f. lane_of u (i mod up_wl u) f (source_vector u src d i) (rows_at u src d row i ! f)
                (vec_lanes d (dest u i * 16) ! f)) [0..<4]"

definition handled_format :: "unpack \<Rightarrow> bool" where
  "handled_format u \<longleftrightarrow> up_vl u < 3 \<or> up_vl u = 3 \<and> up_vn u = 3"

lemma length_rows_at: "length row = 4 \<Longrightarrow> length (rows_at u src d row i) = 4"
  by (cases i) simp_all

lemma dest_bound: "dest u i < 1024" by (simp add: dest_def destVec_def)

lemma decompress_handled: "handled_format u \<Longrightarrow> decompress (up_vn u) (up_vl u) z s l \<noteq> None"
  by (auto simp: handled_format_def decompress_def Let_def)

lemma vec_lanes_cong: "(\<And>k. k < 16 \<Longrightarrow> d' (w * 16 + k) = d (w * 16 + k)) \<Longrightarrow> vec_lanes d' (w * 16) = vec_lanes d (w * 16)"
  unfolding vec_lanes_def by (rule arg_cong [where f = "\<lambda>x. le32s x 0"]) (intro nth_equalityI; simp)

lemma copy_in_outside: "length bs = 16 \<Longrightarrow> a div 16 \<noteq> v \<Longrightarrow> copy_in (v * 16) bs d a = d a"
  by (auto simp: copy_in_def)

text \<open>VU memory after some write cycles.\<close>

definition unpack_done :: "unpack \<Rightarrow> u8 list \<Rightarrow> bytes \<Rightarrow> u32 list \<Rightarrow> nat \<Rightarrow> bytes \<Rightarrow> bool" where
  "unpack_done u src d row k d' \<longleftrightarrow>
     (\<forall>i < k. vec_lanes d' (dest u i * 16) = unpacked u src d row i)
     \<and> (\<forall>a. (\<forall>i < k. a div 16 \<noteq> dest u i) \<longrightarrow> d' a = d a)"

lemma length_unpacked [simp]: "length (unpacked u src d row i) = 4" by (simp add: unpacked_def)

lemma unpack_step_done:
  assumes wf: "0 < up_wl u" "handled_format u" "length row = 4"
    and ok: "fits_vu (up_cl u) (up_wl u) n" "up_sources u = sourceVectorCount (up_cl u) (up_wl u) n" "k < n"
    and d': "unpack_done u src d row k d'"
  shows "\<exists>d''. unpack_step u src k (sourceVectorCount (up_cl u) (up_wl u) k, rows_at u src d row k, d')
      = (sourceVectorCount (up_cl u) (up_wl u) (Suc k), rows_at u src d row (Suc k), d'')
    \<and> unpack_done u src d row (Suc k) d''"
proof -
  let ?s = "sourceVectorCount (up_cl u) (up_wl u)" and ?r = "rows_at u src d row k" and ?v = "dest u k"
  have fresh: "?v \<noteq> dest u i" if "i < k" for i
    using destVec_inj [OF wf(1) ok(1), of i k "up_addr u"] ok(3) that by (auto simp: dest_def)
  have old: "vec_lanes d' (?v * 16) = vec_lanes d (?v * 16)"
    using d' fresh by (intro vec_lanes_cong) (simp add: unpack_done_def)
  have dec: "(up_cl u \<ge> up_wl u \<or> k mod up_wl u < up_cl u) \<and> ?s k < up_sources u \<longleftrightarrow> has_source (up_cl u) (up_wl u) k"
    using sources_less [OF wf(1), of "up_cl u" k n] ok(2,3) by (auto simp: has_source_def)
  have some: "source_vector u src d k \<noteq> None \<longleftrightarrow> has_source (up_cl u) (up_wl u) k"
    using decompress_handled [OF wf(2)] by (auto simp: source_vector_def Let_def)
  define lanes where "lanes = unpacked u src d row k"
  have step: "unpack_step u src k (?s k, ?r, d') = (?s (Suc k), rows_at u src d row (Suc k), copy_in (?v * 16) (lanes_bytes lanes) d')"
  proof -
    have src: "(if has_source (up_cl u) (up_wl u) k
          then decompress (up_vn u) (up_vl u) (up_zeroExtend u)
                 (take (bytesPerVector (up_vn u) (up_vl u)) (drop (?s k * bytesPerVector (up_vn u) (up_vl u)) src))
                 (vec_lanes d (?v * 16))
          else None) = source_vector u src d k"
      by (simp add: source_vector_def Let_def)
    have "\<not> ?v * 16 + 16 > PS2_VU1_DATA_SIZE" using dest_bound [of u k] by (simp add: PS2_VU1_DATA_SIZE_def)
    moreover have "\<not> (has_source (up_cl u) (up_wl u) k \<and> source_vector u src d k = None \<and> P)" for P
      using some by auto
    moreover have "?s (Suc k) = (if has_source (up_cl u) (up_wl u) k then ?s k + 1 else ?s k)"
      using sources_Suc [OF wf(1), of "up_cl u" k] by simp
    ultimately show ?thesis
      unfolding unpack_step_def prod.case Let_def dest_def [symmetric] dec old src
      by (simp only: if_False fields_eq [OF length_rows_at [OF wf(3)] length_lanes some [symmetric]] prod.case
          rows_at.simps(2) lanes_def unpacked_def)
  qed
  have "length (lanes_bytes lanes) = 16" by (simp add: lanes_bytes_4 lanes_def unpacked_def)
  then have "unpack_done u src d row (Suc k) (copy_in (?v * 16) (lanes_bytes lanes) d')"
    using d' fresh unfolding unpack_done_def
    by (auto simp: less_Suc_eq vec_lanes_other vec_lanes_same lanes_def copy_in_outside)
  then show ?thesis using step by blast
qed

lemma unpack_loop_done:
  assumes "0 < up_wl u" "handled_format u" "length row = 4"
    and "fits_vu (up_cl u) (up_wl u) n" "up_sources u = sourceVectorCount (up_cl u) (up_wl u) n" "k \<le> n"
  shows "\<exists>d'. unpack_loop u src k (0, row, d) = (sourceVectorCount (up_cl u) (up_wl u) k, rows_at u src d row k, d')
    \<and> unpack_done u src d row k d'"
  using assms(6)
proof (induction k)
  case 0
  then show ?case by (simp add: sourceVectorCount_def unpack_done_def)
next
  case (Suc k)
  then obtain d' where "unpack_loop u src k (0, row, d) = (sourceVectorCount (up_cl u) (up_wl u) k, rows_at u src d row k, d')"
    "unpack_done u src d row k d'" by auto
  then show ?case using unpack_step_done [OF assms(1-5) _ , of k] Suc.prems by simp
qed

lemma cycle_pos [simp]: "0 < cycle_cl c" "0 < cycle_wl c"
  by (simp_all add: cycle_cl_def cycle_wl_def Let_def)

lemma unpack_bytes_pos:
  assumes "u = unpack_of op imm num r"
  shows "0 < unpack_bytes u"
proof -
  have n: "0 < writeVectorCount num" by (simp add: writeVectorCount_def unat_gt_0)
  have "has_source (up_cl u) (up_wl u) 0" by (simp add: assms unpack_of_def has_source_def)
  then have "sourceVectorCount (up_cl u) (up_wl u) 0 < up_sources u"
    using sources_less [of "up_wl u" "up_cl u" 0 "writeVectorCount num"] n by (simp add: assms unpack_of_def)
  moreover have "0 < bytesPerVector vn vl" for vn vl by (auto simp: bytesPerVector_def Let_def div_greater_zero_iff)
  ultimately have "1 \<le> up_sources u * bytesPerVector (up_vn u) (up_vl u)" by (simp only: One_nat_def Suc_le_eq nat_0_less_mult_iff) simp
  then show ?thesis by (simp add: unpack_bytes_def unpack_total_def div_greater_zero_iff)
qed

definition unpack_at :: "u8 list \<Rightarrow> nat \<Rightarrow> VIFRegisters \<Rightarrow> unpack" where
  "unpack_at data pos r = unpack_of (vif_opcode (le32 data pos)) (vif_imm (le32 data pos)) (vif_numfield (le32 data pos)) r"

lemma vif1_step_unpack:
  assumes "m_vif1PendingPath2ImageQwc m = 0" "vif_opcode (le32 data pos) AND 0x60 = 0x60"
  shows "vif1_step env data pos m = Some (vif1_unpack data (le32 data pos) (pos + 4) (on_vif1 (note_command (le32 data pos)) m))"
proof -
  have "vif_opcode (le32 data pos) \<notin> {0, 1, 2, 3, 4, 5, 6, 7, 0x10, 0x11, 0x13, 0x14, 0x15, 0x17, 0x20, 0x30, 0x31, 0x4A, 0x50, 0x51}"
    using assms(2) by auto
  then show ?thesis using assms unfolding vif1_step_def vif1_command_def Let_def by simp
qed


definition demo_env :: "u8 list list vif_env" where
  "demo_env = \<lparr>m_processFn = (\<lambda>p s. Some (s @ [p])), m_gifPacketCallback = None, m_vu1MscalCallback = None,
     m_vu1MscntCallback = None\<rparr>"

definition demo_vif :: "u8 list list vif_mem" where
  "demo_vif = \<lparr>vif0_regs = VIFRegisters_zero, vif1_regs = VIFRegisters_zero\<lparr>vif_cycle := 0x0102, vif_mode := 1, vif_row := [100, 0, 0, 0]\<rparr>,
     m_vu0Code = None, m_vu0Data = None, m_vu1Code = None, m_vu1Data = Some (\<lambda>_. 0), m_vu1CodeGeneration = 0,
     m_path3Masked = False, m_path3MaskedFifo = [], m_vif1PendingPath2ImageQwc = 0, m_vif1PendingPath2DirectHl = False,
     m_gifArbiter = Some [], gif_state = []\<rparr>"

text \<open>Two vectors of four 16-bit components to every second vector from number 2 on, added to the row.\<close>

definition demo_unpack :: "u8 list" where
  "demo_unpack = bytes_of_word 4 (0x6D020002 :: u32) @ [1, 0, 2, 0, 3, 0, 0xFF, 0xFF, 5, 0, 6, 0, 7, 0, 8, 0]"


section \<open>Streams\<close>

lemma le32_shift [simp]: "le32 (xs @ data) (length xs + pos) = le32 data pos"
  by (simp add: le32_def)

lemma le32s_shift [simp]: "le32s (xs @ data) (length xs + pos) = le32s data pos"
  by (simp add: le32s_def add.assoc)

lemma mpg_copy_shift [simp]: "mpg_copy lim (xs @ data) dst n (length xs + pos) c = mpg_copy lim data dst n pos c"
  by (simp add: mpg_copy_def Let_def)

definition shift_result :: "nat \<Rightarrow> bool \<times> nat \<times> 'g vif_mem \<Rightarrow> bool \<times> nat \<times> 'g vif_mem" where
  "shift_result k r = (fst r, k + fst (snd r), snd (snd r))"

lemma vif1_parts_shift:
  "vif1_mpg (xs @ data) cmd (length xs + pos) m = shift_result (length xs) (vif1_mpg data cmd pos m)"
  "vif1_unpack (xs @ data) cmd (length xs + pos) m = shift_result (length xs) (vif1_unpack data cmd pos m)"
  "vif1_direct env (xs @ data) cmd (length xs + pos) m = map_option (shift_result (length xs)) (vif1_direct env data cmd pos m)"
  "vif1_image env (xs @ data) (length xs + pos) m = map_option (shift_result (length xs)) (vif1_image env data pos m)"
proof -
  have tail: "drop (length xs + pos) (xs @ data) = drop pos data" "length (xs @ data) - (length xs + pos) = length data - pos"
    by simp_all
  show "vif1_mpg (xs @ data) cmd (length xs + pos) m = shift_result (length xs) (vif1_mpg data cmd pos m)"
    by (simp add: vif1_mpg_def Let_def shift_result_def add.assoc cong: option.case_cong)
  show "vif1_unpack (xs @ data) cmd (length xs + pos) m = shift_result (length xs) (vif1_unpack data cmd pos m)"
    by (simp add: vif1_unpack_def Let_def shift_result_def add.assoc cong: option.case_cong if_cong)
  show "vif1_direct env (xs @ data) cmd (length xs + pos) m = map_option (shift_result (length xs)) (vif1_direct env data cmd pos m)"
    unfolding vif1_direct_def Let_def
    by (simp only: tail if_distrib [of "map_option (shift_result (length xs))"] if_distrib [of "(+) (length xs)"]
        option.map option.map_comp comp_def shift_result_def fst_conv snd_conv length_append add.assoc
        add_diff_cancel_left)
  show "vif1_image env (xs @ data) (length xs + pos) m = map_option (shift_result (length xs)) (vif1_image env data pos m)"
    unfolding vif1_image_def Let_def
    by (simp only: tail if_distrib [of "map_option (shift_result (length xs))"]
        option.map option.map_comp comp_def shift_result_def fst_conv snd_conv add.assoc)
qed

lemma vif1_command_shift:
  "vif1_command env (xs @ data) (length xs + pos) m = map_option (shift_result (length xs)) (vif1_command env data pos m)"
  unfolding vif1_command_def Let_def
  by (simp only: add.assoc le32_shift le32s_shift vif1_parts_shift if_distrib [of "map_option (shift_result (length xs))"]
      option.map(2) option.map_comp comp_def shift_result_def fst_conv snd_conv length_append nat_add_left_cancel_less
      linorder_not_less nat_add_left_cancel_le)

lemma vif1_step_shift:
  "vif1_step env (xs @ data) (length xs + pos) m = map_option (shift_result (length xs)) (vif1_step env data pos m)"
  by (simp add: vif1_step_def vif1_parts_shift vif1_command_shift)

lemma processVIF1_loop_shift:
  "processVIF1_loop env (xs @ data) (length xs + pos) m = processVIF1_loop env data pos m"
proof (induction env data pos m rule: processVIF1_loop.induct)
  case (1 env data pos m)
  show ?case
  proof (cases "pos + 4 \<le> length data")
    case True
    then show ?thesis
      using 1 processVIF1_loop.simps [of env "xs @ data" "length xs + pos" m] processVIF1_loop.simps [of env data pos m]
      by (auto simp: vif1_step_shift shift_result_def split: option.splits)
  qed (simp add: processVIF1_loop.simps)
qed

text \<open>A command that the first part of a buffer holds does not look at the rest.\<close>

lemma le32_append: "pos + 4 \<le> length xs \<Longrightarrow> le32 (xs @ ys) pos = le32 xs pos"
  by (simp add: le32_def)

lemma le32s_append: "pos + 16 \<le> length xs \<Longrightarrow> le32s (xs @ ys) pos = le32s xs pos"
  by (simp add: le32s_def le32_append)

lemma unpack_step_append:
  assumes "up_sources u * bytesPerVector (up_vn u) (up_vl u) \<le> length src"
  shows "unpack_step u (src @ ys) i st = unpack_step u src i st"
proof -
  obtain s row d where st: "st = (s, row, d)" by (cases st)
  let ?b = "bytesPerVector (up_vn u) (up_vl u)"
  have eq: "take ?b (drop (s * ?b) (src @ ys)) = take ?b (drop (s * ?b) src)" if "s < up_sources u"
  proof -
    have "Suc s * ?b \<le> up_sources u * ?b" using that by (intro mult_le_mono1) simp
    then show ?thesis using assms by simp
  qed
  show ?thesis
  proof (cases "s < up_sources u")
    case True
    show ?thesis unfolding unpack_step_def st prod.case Let_def eq [OF True] by (rule refl)
  next
    case False
    then show ?thesis unfolding unpack_step_def st prod.case Let_def by (simp only: simp_thms if_False)
  qed
qed

lemma unpack_loop_append:
  assumes "up_sources u * bytesPerVector (up_vn u) (up_vl u) \<le> length src"
  shows "unpack_loop u (src @ ys) n st = unpack_loop u src n st"
  by (induction n) (simp_all add: unpack_step_append [OF assms])

lemma unpack_total_ge: "n \<le> unpack_total n" unfolding unpack_total_def by linarith

lemma vif1_unpack_append:
  assumes "vif1_unpack xs cmd pos m = (True, pos', m')"
  shows "vif1_unpack (xs @ ys) cmd pos m = (True, pos', m')"
proof -
  let ?u = "unpack_of (vif_opcode cmd) (vif_imm cmd) (vif_numfield cmd) (vif1_regs m)"
  have le: "pos + unpack_bytes ?u \<le> length xs" using assms by (simp add: vif1_unpack_def Let_def)
  then have "up_sources ?u * bytesPerVector (up_vn ?u) (up_vl ?u) \<le> length (drop pos xs)"
    using unpack_total_ge [of "up_sources ?u * bytesPerVector (up_vn ?u) (up_vl ?u)"] by (simp add: unpack_bytes_def)
  then show ?thesis using assms le
    by (simp add: vif1_unpack_def Let_def unpack_loop_append trans_le_add1 cong: option.case_cong if_cong)
qed

lemma vif1_mpg_append:
  assumes "vif1_mpg xs cmd pos m = (True, pos', m')"
  shows "vif1_mpg (xs @ ys) cmd pos m = (True, pos', m')"
proof -
  let ?n = "mpg_bytes (vif_numfield cmd)"
  have le: "pos + ?n \<le> length xs" using assms by (simp add: vif1_mpg_def Let_def)
  then have "mpg_copy lim (xs @ ys) dst ?n pos c = mpg_copy lim xs dst ?n pos c" for lim dst c
    by (auto simp: mpg_copy_def Let_def)
  then show ?thesis using assms le by (simp add: vif1_mpg_def Let_def trans_le_add1 cong: option.case_cong)
qed

lemma vif1_direct_append:
  assumes "vif1_direct env xs cmd pos m = Some (True, pos', m')" "pos \<le> length xs"
  shows "vif1_direct env (xs @ ys) cmd pos m = Some (True, pos', m')"
proof -
  let ?want = "if vif_imm cmd = 0 then 65536 else unat (vif_imm cmd)"
  have "\<not> ?want > (length xs - pos) div 16"
    using assms(1) unfolding vif1_direct_def Let_def by (elim if_Some_cases) (auto simp only: map_option_eq_Some option.inject prod.inject fst_conv)
  then have le: "?want \<le> (length xs - pos) div 16" by simp
  moreover have "(length xs - pos) div 16 \<le> (length (xs @ ys) - pos) div 16" by (intro div_le_mono) simp
  ultimately have "min ?want ((length (xs @ ys) - pos) div 16) = ?want" "min ?want ((length xs - pos) div 16) = ?want"
    "\<not> ?want > (length (xs @ ys) - pos) div 16" "\<not> ?want > (length xs - pos) div 16"
    by linarith+
  moreover have "take (?want * 16) (drop pos (xs @ ys)) = take (?want * 16) (drop pos xs)"
    using le by simp
  ultimately show ?thesis using assms(1) unfolding vif1_direct_def Let_def
    by (simp only: simp_thms if_True if_False fst_conv snd_conv)
qed

lemma if_Some_lift:
  "(if b then x else y) = Some z \<Longrightarrow> (x = Some z \<Longrightarrow> x' = Some z) \<Longrightarrow> (y = Some z \<Longrightarrow> y' = Some z)
    \<Longrightarrow> (if b then x' else y') = Some z"
  by (cases b) simp_all

lemma vif1_command_append:
  assumes "vif1_command env xs pos m = Some (True, pos', m')" "pos + 4 \<le> length xs"
  shows "vif1_command env (xs @ ys) pos m = Some (True, pos', m')"
  using assms(1) unfolding vif1_command_def Let_def le32_append [OF assms(2)]
  by (elim if_Some_lift) (use assms(2) in \<open>simp_all add: le32_append le32s_append vif1_mpg_append vif1_unpack_append
      vif1_direct_append split: if_splits\<close>)

lemma vif1_image_append:
  assumes "m_vif1PendingPath2ImageQwc m \<noteq> 0" "m_vif1PendingPath2ImageQwc m \<le> (length xs - pos) div 16"
  shows "vif1_image env (xs @ ys) pos m = vif1_image env xs pos m"
proof -
  let ?owed = "m_vif1PendingPath2ImageQwc m"
  have "(length xs - pos) div 16 \<le> (length (xs @ ys) - pos) div 16" by (intro div_le_mono) simp
  then have "min ?owed ((length (xs @ ys) - pos) div 16) = ?owed" "min ?owed ((length xs - pos) div 16) = ?owed"
    "(length (xs @ ys) - pos) div 16 \<noteq> 0" "(length xs - pos) div 16 \<noteq> 0"
    using assms by linarith+
  moreover have "take (?owed * 16) (drop pos (xs @ ys)) = take (?owed * 16) (drop pos xs)" using assms(2) by simp
  ultimately show ?thesis unfolding vif1_image_def Let_def by (simp only: if_False)
qed

lemma submit_keeps_owed:
  assumes "submitGifPacket env Path2 p True hl m = Some m'"
  shows "m_vif1PendingPath2ImageQwc m' = m_vif1PendingPath2ImageQwc m"
  using assms by (auto simp: submitGifPacket_def emit_packet_def drain_arbiter_def bind_eq_Some_conv
      split: if_splits option.splits)

inductive vif1_run :: "'g vif_env \<Rightarrow> u8 list \<Rightarrow> nat \<Rightarrow> 'g vif_mem \<Rightarrow> nat \<Rightarrow> 'g vif_mem \<Rightarrow> bool" for env data where
  vif1_run_refl: "vif1_run env data pos m pos m"
| vif1_run_step: "pos + 4 \<le> length data \<Longrightarrow> vif1_step env data pos m = Some (True, pos1, m1)
    \<Longrightarrow> vif1_run env data pos1 m1 pos' m' \<Longrightarrow> vif1_run env data pos m pos' m'"

lemma vif1_image_result:
  assumes "vif1_image env data pos m = Some (True, pos1, m1)"
  defines "k \<equiv> min (m_vif1PendingPath2ImageQwc m) ((length data - pos) div 16)"
  shows "pos1 = pos + k * 16" "m_vif1PendingPath2ImageQwc m1 = m_vif1PendingPath2ImageQwc m - k"
proof -
  obtain z p hl hl' where "submitGifPacket env Path2 p True hl m = Some z" "pos1 = pos + k * 16"
    "m1 = z\<lparr>m_vif1PendingPath2ImageQwc := m_vif1PendingPath2ImageQwc z - k, m_vif1PendingPath2DirectHl := hl'\<rparr>"
    using assms(1) unfolding vif1_image_def Let_def k_def
    by (elim if_Some_cases) (auto simp only: map_option_eq_Some option.inject prod.inject simp_thms)
  then show "pos1 = pos + k * 16" "m_vif1PendingPath2ImageQwc m1 = m_vif1PendingPath2ImageQwc m - k"
    by (simp_all add: submit_keeps_owed)
qed

text \<open>A part of an image that the buffer does not complete is the last thing the loop does.\<close>

lemma short_image_stops:
  assumes step: "vif1_step env data pos m = Some (True, pos1, m1)"
    and short: "m_vif1PendingPath2ImageQwc m > (length data - pos) div 16"
    and run: "vif1_run env data pos1 m1 pos' m'"
  shows "m_vif1PendingPath2ImageQwc m' \<noteq> 0"
proof -
  let ?n = "(length data - pos) div 16"
  have img: "vif1_image env data pos m = Some (True, pos1, m1)" using step short by (simp add: vif1_step_def)
  have "min (m_vif1PendingPath2ImageQwc m) ?n = ?n" using short by simp
  then have pos1: "pos1 = pos + ?n * 16" and m1: "m_vif1PendingPath2ImageQwc m1 = m_vif1PendingPath2ImageQwc m - ?n"
    using vif1_image_result [OF img] by simp_all
  have "length data - pos1 = (length data - pos) mod 16"
    unfolding pos1 using minus_div_mult_eq_mod [of "length data - pos" 16] by simp
  then have "(length data - pos1) div 16 = 0" by simp
  then have stop: "vif1_step env data pos1 m1 = Some (False, pos1, m1)"
    using m1 short by (simp add: vif1_step_def vif1_image_def)
  from run show ?thesis
    by cases (use m1 short stop in auto)
qed

lemma processVIF1_loop_split:
  assumes "vif1_run env xs pos m pos' m'" "pos' = length xs" "m_vif1PendingPath2ImageQwc m' = 0"
  shows "processVIF1_loop env (xs @ ys) pos m = processVIF1_loop env ys 0 m'"
  using assms
proof (induction rule: vif1_run.induct)
  case (vif1_run_refl pos m)
  then show ?case using processVIF1_loop_shift [of env xs ys 0 m] by simp
next
  case (vif1_run_step pos m pos1 m1 pos' m')
  have "\<not> m_vif1PendingPath2ImageQwc m > (length xs - pos) div 16"
    using short_image_stops vif1_run_step by blast
  then have "vif1_step env (xs @ ys) pos m = Some (True, pos1, m1)"
    using vif1_run_step.hyps(1,2) by (auto simp: vif1_step_def vif1_image_append vif1_command_append split: if_splits)
  then show ?case using vif1_run_step by (subst processVIF1_loop.simps) simp
qed

text \<open>
  C38 (A VIF1 stream may be cut at a command boundary): when the loop runs through a buffer to its end
  and owes no image data, processing it and then the next buffer gives what processing the two as
  one buffer gives.
\<close>

theorem vif_stream_split:
  assumes "vif1_run env xs 0 m (length xs) m'" "m_vif1PendingPath2ImageQwc m' = 0"
  shows "processVIF1Data env (xs @ ys) m = Option.bind (processVIF1Data env xs m) (processVIF1Data env ys)"
proof -
  have "processVIF1Data env xs m = Some m'"
    using processVIF1_loop_split [OF assms(1) refl assms(2), of "[]"]
    by (simp add: processVIF1Data_def processVIF1_loop.simps)
  then show ?thesis using processVIF1_loop_split [OF assms(1) refl assms(2), of ys] by (simp add: processVIF1Data_def)
qed

text \<open>\<open>OFFSET 4\<close> and \<open>MSCAL 0\<close>.\<close>

definition demo_offset :: "u8 list" where "demo_offset = bytes_of_word 4 (0x02000004 :: u32)"
definition demo_mscal :: "u8 list" where "demo_mscal = bytes_of_word 4 (0x14000000 :: u32)"

theorem vif_stream_split_witness:
  "processVIF1Data demo_env (demo_offset @ demo_mscal) demo_vif
     = Option.bind (processVIF1Data demo_env demo_offset demo_vif) (processVIF1Data demo_env demo_mscal)"
proof -
  have "vif_opcode (le32 demo_offset 0) = 2" "length demo_offset = 4" by code_simp+
  then have "vif1_step demo_env demo_offset 0 demo_vif = Some (True, 4, on_vif1 (\<lambda>r. r
      \<lparr>vif_ofst := vif_imm (le32 demo_offset 0) AND 0x3FF, vif_tops := vif_base r AND 0x3FF,
       vif_stat := vif_stat r AND NOT (push_bit 7 1)\<rparr>) (on_vif1 (note_command (le32 demo_offset 0)) demo_vif))"
      (is "_ = Some (True, 4, ?m)")
    by (simp add: vif1_step_def vif1_command_def demo_vif_def Let_def)
  then have "vif1_run demo_env demo_offset 0 demo_vif (length demo_offset) ?m"
    unfolding \<open>length demo_offset = 4\<close>
    by (intro vif1_run_step [OF _ _ vif1_run_refl]) (simp_all only: \<open>length demo_offset = 4\<close> add_0 order_refl)
  moreover have "m_vif1PendingPath2ImageQwc ?m = 0" by (simp add: on_vif1_def demo_vif_def)
  ultimately show ?thesis by (rule vif_stream_split)
qed

section \<open>Microprogram starts\<close>

text \<open>The microprograms started one after another see the two buffers in turn.\<close>

lemma swap_buffer_twice:
  assumes "vif_tops r = vif_base r AND 0x3FF" "\<not> bit (vif_stat r) 7"
  shows "vif_tops (swap_buffer (swap_buffer r)) = vif_tops r" "\<not> bit (vif_stat (swap_buffer (swap_buffer r))) 7"
    "vif_base (swap_buffer (swap_buffer r)) = vif_base r" "vif_ofst (swap_buffer (swap_buffer r)) = vif_ofst r"
  using assms by (simp_all add: swap_buffer_def bit_simps)

lemma double_buffer:
  assumes "vif_tops r = vif_base r AND 0x3FF" "\<not> bit (vif_stat r) 7"
  shows "vif_top ((swap_buffer ^^ Suc k) r) = (if even k then vif_base r else vif_base r + vif_ofst r) AND 0x3FF"
  using assms
proof (induction k arbitrary: r rule: nat_less_induct)
  case (1 k)
  consider "k = 0" | "k = 1" | j where "k = Suc (Suc j)" by (metis One_nat_def not0_implies_Suc)
  then show ?case
  proof cases
    case 3
    let ?r = "swap_buffer (swap_buffer r)"
    have "vif_top ((swap_buffer ^^ Suc j) ?r) = (if even j then vif_base ?r else vif_base ?r + vif_ofst ?r) AND 0x3FF"
      using 1 3 swap_buffer_twice [OF 1(2,3)] by simp
    moreover have "(swap_buffer ^^ Suc k) r = (swap_buffer ^^ Suc j) ?r"
      unfolding 3 by (simp add: funpow_swap1)
    ultimately show ?thesis using 3 swap_buffer_twice [OF 1(2,3)] by simp
  qed (use 1(2,3) in \<open>simp_all add: swap_buffer_def\<close>)
qed

section \<open>Termination\<close>

text \<open>When the installed functions return, so does the interpreter, on every buffer.\<close>

definition env_returns :: "'g vif_env \<Rightarrow> bool" where
  "env_returns env \<longleftrightarrow> (\<forall>p s. m_processFn env p s \<noteq> None)
     \<and> (\<forall>f p s. m_gifPacketCallback env = Some f \<longrightarrow> f p s \<noteq> None)
     \<and> (\<forall>f pc top itop m. m_vu1MscalCallback env = Some f \<longrightarrow> f pc top itop m \<noteq> None)
     \<and> (\<forall>f top itop m. m_vu1MscntCallback env = Some f \<longrightarrow> f top itop m \<noteq> None)"

lemma bind_returns: "x \<noteq> None \<Longrightarrow> (\<And>y. f y \<noteq> None) \<Longrightarrow> Option.bind x f \<noteq> None"
  by (cases x) simp_all

lemma run_packets_returns:
  assumes "\<And>p s. f p s \<noteq> None"
  shows "run_packets f ps s \<noteq> None"
proof (induction ps arbitrary: s)
  case (Cons p ps)
  obtain s' where "f (pkt_data p) s = Some s'" using assms [of "pkt_data p" s] by auto
  then show ?case using Cons.IH by simp
qed simp

lemma drain_arbiter_returns: "env_returns env \<Longrightarrow> drain_arbiter env m \<noteq> None"
  using run_packets_returns [of "m_processFn env"]
  by (auto simp: drain_arbiter_def drain_def env_returns_def split: option.splits)

lemma emit_packet_returns: "env_returns env \<Longrightarrow> emit_packet env path p hl m \<noteq> None"
  by (auto simp: emit_packet_def env_returns_def split: option.splits)

lemma emit_all_returns: "env_returns env \<Longrightarrow> emit_all env ps m \<noteq> None"
proof (induction ps arbitrary: m)
  case (Cons p ps)
  then show ?case by (simp add: bind_returns emit_packet_returns del: not_None_eq)
qed simp

lemma flush_returns:
  assumes "env_returns env"
  shows "flushMaskedPath3Packets env now m \<noteq> None"
proof -
  have "Option.bind (emit_all env (m_path3MaskedFifo m) m) (\<lambda>m. let m = m\<lparr>m_path3MaskedFifo := []\<rparr>
      in if now then drain_arbiter env m else Some m) \<noteq> None"
    by (intro bind_returns emit_all_returns assms) (simp add: Let_def drain_arbiter_returns [OF assms] del: not_None_eq)
  then show ?thesis unfolding flushMaskedPath3Packets_def by simp
qed

lemma submit_returns:
  assumes "env_returns env"
  shows "submitGifPacket env path p now hl m \<noteq> None"
proof -
  have "Option.bind (if path = Path3 then flushMaskedPath3Packets env False m else Some m) (\<lambda>m.
      Option.bind (emit_packet env path p hl m) (\<lambda>m. if now then drain_arbiter env m else Some m)) \<noteq> None"
  proof (intro bind_returns emit_packet_returns assms)
    show "(if path = Path3 then flushMaskedPath3Packets env False m else Some m) \<noteq> None"
      using flush_returns [OF assms] by simp
    show "(if now then drain_arbiter env k else Some k) \<noteq> None" for k using drain_arbiter_returns [OF assms] by simp
  qed
  then show ?thesis unfolding submitGifPacket_def by simp
qed

lemma vif1_step_returns:
  assumes "env_returns env"
  shows "vif1_step env data pos m \<noteq> None"
proof -
  have "vif1_mskpath3 env imm k \<noteq> None" "vif1_direct env data cmd p k \<noteq> None" "vif1_image env data p k \<noteq> None"
    for imm k cmd p
    by (simp_all add: vif1_mskpath3_def vif1_direct_def vif1_image_def Let_def submit_returns flush_returns assms
        del: not_None_eq)
  moreover have "vif1_mscal env imm k \<noteq> None" "vif1_mscnt env k \<noteq> None" for imm k
    using assms by (auto simp: vif1_mscal_def vif1_mscnt_def Let_def env_returns_def split: option.splits)
  ultimately show ?thesis by (simp add: vif1_step_def vif1_command_def Let_def del: not_None_eq)
qed

lemma processVIF1_loop_returns: "env_returns env \<Longrightarrow> processVIF1_loop env data pos m \<noteq> None"
proof (induction env data pos m rule: processVIF1_loop.induct)
  case (1 env data pos m)
  obtain go pos' m' where "vif1_step env data pos m = Some (go, pos', m')"
    using vif1_step_returns [OF 1(2), of data pos m] by auto
  then show ?case using 1 by (subst processVIF1_loop.simps) simp
qed

lemma processVIF1_returns: "env_returns env \<Longrightarrow> \<exists>m'. processVIF1Data env data m = Some m'"
  using processVIF1_loop_returns [of env data 0 m] by (auto simp: processVIF1Data_def)

section \<open>Two accounts of one image\<close>

text \<open>
  The GS counts the bytes a short image packet owes as well, and takes them from whatever comes next:
  the image packet VIF1 builds for the owed quadwords is read as pixels with its tag.
\<close>

lemma owed_packet_is_pixels:
  assumes "m_vram (xf g) \<noteq> None" "p \<noteq> []" "length p \<le> unat (pending g)"
  shows "processGIFPacket draw p g = on_xf (processImageData p) (set_pending (pending g - of_nat (length p)) g)"
proof -
  have "pending g \<noteq> 0" using assms(2,3) by auto
  moreover have "min (unat (pending g)) (length p) = length p" using assms(3) by simp
  ultimately show ?thesis using assms(1,2)
    by (auto simp: processGIFPacket_def Let_def split: option.splits)
qed

end
