(* ===== verification/GifPacketProps.thy ===== *)
theory GifPacketProps
  imports GifPacket
begin

text \<open>
  What the GIF front end promises: its two shortcuts leave the state of the general loop, an image
  payload may be cut between packets, the arbiter runs every packet once and in order, and the
  vertex queue hands the rasterizer the primitives of the vertex sequence.
\<close>

section \<open>Loads\<close>

lemma load_qword_Some: "off + 16 \<le> length data \<Longrightarrow> \<exists>lo hi. load_qword data off = Some (lo, hi)"
  by (simp add: load_qword_def loadLE64_def)

lemma load_qword_None: "load_qword data off = Some q \<Longrightarrow> off + 16 \<le> length data"
  by (auto simp: load_qword_def loadLE64_def split: option.splits if_splits)

lemma load_append:
  "loadLE64 (pre @ data) (length pre + off) = loadLE64 data off"
  "load_qword (pre @ data) (length pre + off) = load_qword data off"
proof -
  have l: "loadLE64 (pre @ data) (length pre + k) = loadLE64 data k" for k by (simp add: loadLE64_def)
  show "loadLE64 (pre @ data) (length pre + off) = loadLE64 data off" by (rule l)
  show "load_qword (pre @ data) (length pre + off) = load_qword data off"
    unfolding load_qword_def add.assoc l ..
qed

lemma load_prefix: "load_qword data off = Some q \<Longrightarrow> load_qword (data @ rest) off = Some q"
  by (auto simp: load_qword_def loadLE64_def split: option.splits if_splits)

section \<open>The transfer part of the state\<close>

lemma on_xf_bind: "Option.bind (on_xf f g) (on_xf h) = on_xf (\<lambda>x. Option.bind (f x) h) g"
  by (cases "f (xf g)") (simp_all add: on_xf_def)

lemma on_xf_Some: "f (xf g) = Some x \<Longrightarrow> on_xf f g = Some (g\<lparr>xf := x\<rparr>)"
  by (simp add: on_xf_def)

lemma xf_set_q1 [simp]: "xf (set_q1 g) = xf g"
  by (simp add: set_q1_def upd_regs_def)

lemma set_q1_xf: "set_q1 (g\<lparr>xf := x\<rparr>) = (set_q1 g)\<lparr>xf := x\<rparr>"
  by (simp add: set_q1_def upd_regs_def)

lemma set_q1_twice [simp]: "set_q1 (set_q1 g) = set_q1 g"
proof -
  have "store_field 32 32 v (store_field 32 32 v c) = store_field 32 32 v c" for v c
    by (rule bit_word_eqI) (auto simp: store_field_def bit_simps)
  then show ?thesis by (simp add: set_q1_def upd_regs_def)
qed

text \<open>Image data neither reads nor writes the count of bytes still owed.\<close>

lemma processImageData_pending:
  "processImageData data (x\<lparr>m_pendingImageBytes := n\<rparr>) = map_option (\<lambda>x'. x'\<lparr>m_pendingImageBytes := n\<rparr>) (processImageData data x)"
  by (auto simp: processImageData_def dpsm_def dbp_def dbw_def rrw_def rrh_def dsax_def xdir_def EndTransfer_def Let_def
      split: option.split prod.split)

lemma processImageData_keeps:
  "processImageData data x = Some x' \<Longrightarrow> m_pendingImageBytes x' = m_pendingImageBytes x \<and> (m_vram x' = None \<longleftrightarrow> m_vram x = None)"
  by (auto simp: processImageData_def EndTransfer_def Let_def split: option.splits prod.splits if_splits)

section \<open>The upload shortcut\<close>

text \<open>The transfer registers of an upload, written in order.\<close>

definition upload_regs :: "u64 \<Rightarrow> u64 \<Rightarrow> u64 \<Rightarrow> u64 \<Rightarrow> gs \<Rightarrow> gs" where
  "upload_regs b p r d x =
     (let x1 = x\<lparr>bitbltbuf := b, trxpos := p, trxreg := r\<rparr>
      in x1\<lparr>trxdir := d, m_transferState := \<lparr>ts_x = dsax x1, ts_y = dsay x1, total_pixels = rrw x1 * rrh x1, copied_pixels = 0\<rparr>,
            m_pendingImageBytes := 0\<rparr>)"

lemma write_upload_regs:
  assumes "d AND 3 = 0"
  shows "Option.bind (Option.bind (Option.bind (write_xfer BITBLTBUF b x) (write_xfer TRXPOS p)) (write_xfer TRXREG r))
      (write_xfer TRXDIR d) = Some (upload_regs b p r d x)"
proof -
  have m: "(3 :: u64) = mask 2" by (simp add: mask_eq_exp_minus_1)
  have "bitfield 0 2 d = 0" using assms unfolding m by (simp add: bitfield_def flip: take_bit_eq_mask)
  then show ?thesis by (simp add: upload_regs_def Let_def xdir_def)
qed

lemma writeRegister_xfer:
  "writeRegister draw 0x50 v = on_xf (write_xfer BITBLTBUF v)" "writeRegister draw 0x51 v = on_xf (write_xfer TRXPOS v)"
  "writeRegister draw 0x52 v = on_xf (write_xfer TRXREG v)" "writeRegister draw 0x53 v = on_xf (write_xfer TRXDIR v)"
  by (rule ext, simp add: writeRegister_def)+

lemma write_upload:
  assumes "d AND 3 = 0"
  shows "Option.bind (Option.bind (Option.bind (writeRegister draw 0x50 b g) (writeRegister draw 0x51 p))
      (writeRegister draw 0x52 r)) (writeRegister draw 0x53 d) = Some (g\<lparr>xf := upload_regs b p r d (xf g)\<rparr>)"
  unfolding writeRegister_xfer on_xf_bind by (rule on_xf_Some) (rule write_upload_regs [OF assms])

text \<open>An A+D item writes the register that its high half names.\<close>

lemma ad_item:
  assumes "hi AND 0xFF = ucast (a :: u8)"
  shows "writeRegisterPacked draw 0x0E lo hi g = writeRegister draw a lo g"
proof -
  have m: "(0xFF :: u64) = mask 8" by (simp add: mask_eq_exp_minus_1)
  have "ucast hi = (ucast (hi AND 0xFF) :: u8)"
    unfolding m by (rule bit_word_eqI) (auto simp: bit_simps)
  also have "\<dots> = a" unfolding assms by (rule bit_word_eqI) (auto simp: bit_simps)
  finally show ?thesis by (simp add: writeRegisterPacked_def Let_def)
qed

lemma native_upload_parts:
  assumes "native_upload data = Some (b, p, r, d, img)"
  shows "\<exists>lo hi b' p' r' d' ilo ihi. load_qword data 0 = Some (lo, hi) \<and> load_qword data 16 = Some (b, b')
    \<and> load_qword data 32 = Some (p, p') \<and> load_qword data 48 = Some (r, r') \<and> load_qword data 64 = Some (d, d')
    \<and> load_qword data 80 = Some (ilo, ihi) \<and> tag_nloop lo = 4 \<and> tag_flg lo = 0 \<and> tag_nreg lo = 1 \<and> hi AND 0xF = 0xE
    \<and> b' AND 0xFF = 0x50 \<and> p' AND 0xFF = 0x51 \<and> r' AND 0xFF = 0x52 \<and> d' AND 0xFF = 0x53 \<and> d AND 3 = 0
    \<and> tag_flg ilo = 2 \<and> 0 < tag_nloop ilo \<and> 96 + tag_nloop ilo * 16 = length data \<and> img = drop 96 data"
  using assms by (auto simp: native_upload_def split: option.splits prod.splits if_splits)

text \<open>The setup tag in the general loop.\<close>

lemma setup_items:
  assumes "load_qword data 16 = Some (b, b')" "load_qword data 32 = Some (p, p')" "load_qword data 48 = Some (r, r')"
    "load_qword data 64 = Some (d, d')" "tag_nreg lo = 1" "hi AND 0xF = 0xE"
    "b' AND 0xFF = 0x50" "p' AND 0xFF = 0x51" "r' AND 0xFF = 0x52" "d' AND 0xFF = 0x53" "d AND 3 = 0"
  shows "packed_items draw data (tag_regs lo hi) 4 0 16 g = Some (False, 80, g\<lparr>xf := upload_regs b p r d (xf g)\<rparr>)"
proof -
  have regs: "tag_regs lo hi = [0x0E]" using assms(5,6) by (simp add: tag_regs_def)
  have len: "80 \<le> length data" using load_qword_None [OF assms(4)] by simp
  have w: "writeRegisterPacked draw 0x0E b b' = writeRegister draw 0x50 b"
    "writeRegisterPacked draw 0x0E p p' = writeRegister draw 0x51 p"
    "writeRegisterPacked draw 0x0E r r' = writeRegister draw 0x52 r"
    "writeRegisterPacked draw 0x0E d d' = writeRegister draw 0x53 d"
    using assms(7-10) ad_item [of b' "0x50"] ad_item [of p' "0x51"] ad_item [of r' "0x52"] ad_item [of d' "0x53"] by auto
  have unroll: "packed_items draw data [0x0E] 4 0 16 g
    = map_option (\<lambda>g'. (False, 80, g')) (Option.bind (Option.bind (Option.bind (writeRegister draw 0x50 b g)
        (writeRegister draw 0x51 p)) (writeRegister draw 0x52 r)) (writeRegister draw 0x53 d))"
    using len assms(1-4) by (simp add: eval_nat_numeral w split: option.split)
  show ?thesis unfolding regs unroll write_upload [OF assms(11)] by simp
qed

text \<open>A whole image payload in the general loop.\<close>

lemma image_payload_whole:
  assumes "off + nloop * 16 = length data" "0 < nloop"
  shows "image_payload data nloop off g
    = map_option (\<lambda>x. (False, length data, g\<lparr>xf := x\<rparr>))
        (processImageData (drop off data) ((xf g)\<lparr>m_pendingImageBytes := 0\<rparr>))"
proof -
  have k: "min (nloop * 16) (length data - off) = nloop * 16" "take (nloop * 16) (drop off data) = drop off data"
    using assms(1) by simp_all
  show ?thesis
    using assms processImageData_keeps [of "drop off data" "(xf g)\<lparr>m_pendingImageBytes := 0\<rparr>"]
    by (cases "processImageData (drop off data) ((xf g)\<lparr>m_pendingImageBytes := 0\<rparr>)")
      (simp_all add: image_payload_def Let_def k set_pending_def on_xf_def pending_def)
qed

lemma gif_loop_end: "length data < off + 16 \<Longrightarrow> gif_loop draw data off g = Some g"
  by (simp add: gif_loop.simps)

lemma upload_packet_loop:
  assumes "native_upload data = Some (b, p, r, d, img)"
    and "load_qword data 0 = Some (lo, hi)" "\<not> tag_pre lo" "load_qword data 80 = Some (ilo, ihi)" "\<not> tag_pre ilo"
  shows "gif_loop draw data 0 g
    = map_option (\<lambda>x. (set_q1 g)\<lparr>xf := x\<rparr>) (processImageData img (upload_regs b p r d (xf g)))"
proof -
  obtain b' p' r' d' where n: "load_qword data 16 = Some (b, b')" "load_qword data 32 = Some (p, p')"
    "load_qword data 48 = Some (r, r')" "load_qword data 64 = Some (d, d')"
    "tag_nloop lo = 4" "tag_flg lo = 0" "tag_nreg lo = 1" "hi AND 0xF = 0xE" "b' AND 0xFF = 0x50" "p' AND 0xFF = 0x51"
    "r' AND 0xFF = 0x52" "d' AND 0xFF = 0x53" "d AND 3 = 0" "tag_flg ilo = 2" "0 < tag_nloop ilo"
    "96 + tag_nloop ilo * 16 = length data" "img = drop 96 data"
    using native_upload_parts [OF assms(1)] assms(2,4) by auto
  let ?x = "upload_regs b p r d (xf g)"
  let ?g = "(set_q1 g)\<lparr>xf := ?x\<rparr>"
  have "tag_payload draw data lo hi 16 (set_q1 g) = Some (False, 80, ?g)"
    using setup_items [OF n(1-4,7-13), of draw "set_q1 g"] n(5-7) by (simp add: tag_payload_def)
  then have "gif_loop draw data 0 g = gif_loop draw data 80 ?g"
    using assms(2,3) n(16) by (subst gif_loop.simps) (simp add: tag_start_def)
  also have "\<dots> = map_option (\<lambda>x. ?g\<lparr>xf := x\<rparr>) (processImageData img ?x)"
  proof -
    have "?x\<lparr>m_pendingImageBytes := 0\<rparr> = ?x" by (simp add: upload_regs_def Let_def)
    then have "tag_payload draw data ilo ihi 96 (set_q1 ?g)
        = map_option (\<lambda>x. (False, length data, ?g\<lparr>xf := x\<rparr>)) (processImageData img ?x)"
      using image_payload_whole [OF n(16,15), of "set_q1 ?g"] n(14,17)
      by (simp add: tag_payload_def set_q1_xf)
    then show ?thesis
      using assms(4,5) n(16) by (subst gif_loop.simps) (auto simp: tag_start_def gif_loop_end split: option.split)
  qed
  finally show ?thesis by simp
qed

lemma upload_packet_native:
  assumes "native_upload data = Some (b, p, r, d, img)" "m_vram (xf g) \<noteq> None"
  shows "tryProcessNativeImageUploadPacket draw data g
    = map_option (\<lambda>x. (True, g\<lparr>xf := x, m_nativeImageUploadCount := m_nativeImageUploadCount g + 1\<rparr>))
        (processImageData img (upload_regs b p r d (xf g)))"
proof -
  have d: "d AND 3 = 0" and img: "img \<noteq> []" using native_upload_parts [OF assms(1)] by auto
  have "uploadImageNative draw b p r d img g
      = map_option (\<lambda>x. g\<lparr>xf := x, m_nativeImageUploadCount := m_nativeImageUploadCount g + 1\<rparr>)
          (processImageData img (upload_regs b p r d (xf g)))"
    unfolding uploadImageNative_def write_upload [OF d]
    using img assms(2) by (cases "processImageData img (upload_regs b p r d (xf g))") (auto simp: on_xf_def)
  then show ?thesis
    using assms(1) by (simp add: tryProcessNativeImageUploadPacket_def option.map_comp comp_def)
qed

section \<open>The packed shortcut\<close>

lemma packed_items_run:
  "off + k * 16 \<le> length data \<Longrightarrow> packed_items draw data regs k i off g
    = map_option (\<lambda>g'. (False, off + k * 16, g')) (packed_run draw data regs k i off g)"
proof (induction k arbitrary: i off g)
  case (Suc k)
  have "packed_items draw data regs k (i + 1) (off + 16) g'
      = map_option (\<lambda>g''. (False, off + Suc k * 16, g'')) (packed_run draw data regs k (i + 1) (off + 16) g')" for g'
    using Suc.IH [of "off + 16" "i + 1" g'] Suc.prems by (simp add: add.assoc)
  then show ?case using Suc.prems by (auto split: option.split)
qed simp

lemma visit_packed_loop:
  "valid_packed data off \<Longrightarrow> visit_packed draw data off g = map_option (Pair True) (gif_loop draw data off g)"
proof (induction data off arbitrary: g rule: valid_packed.induct)
  case (1 data off)
  show ?case
  proof (cases "off + 16 \<le> length data")
    case False
    then have "off = length data" using "1.prems" by (simp add: valid_packed.simps [of data off])
    then show ?thesis by (subst visit_packed.simps) (simp add: gif_loop_end)
  next
    case True
    obtain lo hi where q: "load_qword data off = Some (lo, hi)" using load_qword_Some [OF True] by blast
    define n where "n = tag_nloop lo * tag_nreg lo"
    have v: "tag_flg lo = 0" "n * 16 \<le> length data - (off + 16)" "valid_packed data (off + 16 + n * 16)"
      using "1.prems" True q by (simp_all add: valid_packed.simps [of data off] n_def Let_def)
    have IH: "visit_packed draw data (off + 16 + n * 16) g' = map_option (Pair True) (gif_loop draw data (off + 16 + n * 16) g')" for g'
      using "1.IH" [OF True q] v(3) by (simp add: n_def)
    have "off + 16 + n * 16 \<le> length data" using v(2) True by simp
    note items = packed_items_run [OF this, of draw "tag_regs lo hi" 0]
    show ?thesis
      using True v(1,2) q
      by (subst visit_packed.simps, subst gif_loop.simps)
        (auto simp: Let_def tag_payload_def items IH simp flip: n_def split: option.split bind_splits)
  qed
qed

lemma packed_not_upload: "valid_packed data 0 \<Longrightarrow> native_upload data = None"
proof (rule ccontr)
  assume v: "valid_packed data 0" and "native_upload data \<noteq> None"
  then obtain b p r d img where "native_upload data = Some (b, p, r, d, img)" by (metis option.exhaust prod_cases5)
  then obtain lo hi ilo ihi where q: "load_qword data 0 = Some (lo, hi)" "load_qword data 80 = Some (ilo, ihi)"
    "tag_nloop lo = 4" "tag_nreg lo = 1" "tag_flg ilo = 2"
    using native_upload_parts by blast
  have len: "96 \<le> length data" using load_qword_None [OF q(2)] by simp
  have "valid_packed data 80" using v q(1,3,4) len by (simp add: valid_packed.simps [of data 0])
  then have "tag_flg ilo = 0" using q(2) len by (simp add: valid_packed.simps [of data 80] Let_def)
  with q(5) show False by simp
qed

section \<open>Payloads across packets\<close>

lemma items_append:
  "packed_items draw (pre @ data) regs k i (length pre + off) g
    = map_option (\<lambda>(s, off', g'). (s, length pre + off', g')) (packed_items draw data regs k i off g)"
  "reglist_items draw (pre @ data) regs k i (length pre + off) g
    = map_option (\<lambda>(s, off', g'). (s, length pre + off', g')) (reglist_items draw data regs k i off g)"
proof -
  show "packed_items draw (pre @ data) regs k i (length pre + off) g
    = map_option (\<lambda>(s, off', g'). (s, length pre + off', g')) (packed_items draw data regs k i off g)"
  proof (induction k arbitrary: i off g)
    case (Suc k)
    then show ?case
      using Suc.IH [of "i + 1" "off + 16"] by (auto simp: load_append add.assoc split: option.split)
  qed simp
  show "reglist_items draw (pre @ data) regs k i (length pre + off) g
    = map_option (\<lambda>(s, off', g'). (s, length pre + off', g')) (reglist_items draw data regs k i off g)"
  proof (induction k arbitrary: i off g)
    case (Suc k)
    then show ?case
      using Suc.IH [of "i + 1" "off + 8"] by (auto simp: load_append add.assoc split: option.split)
  qed simp
qed

lemma payload_append:
  "tag_payload draw (pre @ data) lo hi (length pre + off) g
    = map_option (\<lambda>(s, off', g'). (s, length pre + off', g')) (tag_payload draw data lo hi off g)"
  by (auto simp: tag_payload_def image_payload_def items_append Let_def option.map_comp comp_def case_prod_unfold
      intro!: option.map_cong split: option.split)

text \<open>The loop sees only the packet behind its position.\<close>

lemma gif_loop_append: "gif_loop draw (pre @ data) (length pre + off) g = gif_loop draw data off g"
proof (induction draw data off g rule: gif_loop.induct)
  case (1 draw data off g)
  have step: "tag_payload draw (pre @ data) lo hi (length pre + off + 16) g1
      = map_option (\<lambda>(s, off', g'). (s, length pre + off', g')) (tag_payload draw data lo hi (off + 16) g1)" for lo hi g1
    using payload_append [of draw pre data lo hi "off + 16" g1] by (simp add: add.assoc)
  show ?case
    using "1.IH" by (subst (1 2) gif_loop.simps) (auto simp: load_append step split: option.split prod.split)
qed

lemma tag_start_xf: "tag_start draw lo g = Some g1 \<Longrightarrow> xf g1 = xf g"
  "\<exists>g1. tag_start draw lo g = Some g1"
  by (auto simp: tag_start_def writeRegister_def upd_regs_def split: if_splits)

lemma tag_nloop_less: "tag_nloop lo < 2 ^ 15"
proof -
  have "(0x7FFF :: u64) = mask 15" by (simp add: mask_eq_exp_minus_1)
  then have "tag_nloop lo = unat (take_bit 15 lo)" by (simp add: tag_nloop_def take_bit_eq_mask)
  also have "\<dots> = unat lo mod 2 ^ 15" by (metis take_bit_eq_mod unsigned_take_bit_eq)
  finally show ?thesis by simp
qed

lemma tag_start_first:
  assumes "length tag = 16" "load_qword tag 0 = Some (lo, hi)" "tag_flg lo = 2" "m_vram (xf g) \<noteq> None" "pending g = 0"
  shows "processGIFPacket draw (tag @ data) g = gif_loop draw (tag @ data) 0 g"
proof -
  have "native_upload (tag @ data) = None"
    using assms(2,3) load_prefix [OF assms(2), of data] by (auto simp: native_upload_def split: option.split)
  then show ?thesis
    using assms(1,4,5) by (auto simp: processGIFPacket_def tryProcessNativeImageUploadPacket_def)
qed

text \<open>An \<open>IMAGE\<close> tag with its payload \<open>img\<close> and more tags behind it, and one whose payload is cut.\<close>

lemma image_tag_whole:
  assumes "length tag = 16" "load_qword tag 0 = Some (lo, hi)" "tag_flg lo = 2" "length img = tag_nloop lo * 16" "img \<noteq> []"
    and "tag_start draw lo g = Some g1"
  shows "gif_loop draw (tag @ img @ rest) 0 g
    = (case processImageData img ((xf g)\<lparr>m_pendingImageBytes := 0\<rparr>) of None \<Rightarrow> None
       | Some x \<Rightarrow> gif_loop draw rest 0 (g1\<lparr>xf := x\<rparr>))"
proof -
  have pay: "tag_payload draw (tag @ img @ rest) lo hi 16 g1
      = map_option (\<lambda>x. (False, length (tag @ img), g1\<lparr>xf := x\<rparr>)) (processImageData img ((xf g)\<lparr>m_pendingImageBytes := 0\<rparr>))"
    using assms(1,3,4,5) tag_start_xf(1) [OF assms(6)] processImageData_keeps [of img "(xf g)\<lparr>m_pendingImageBytes := 0\<rparr>"]
    by (cases "processImageData img ((xf g)\<lparr>m_pendingImageBytes := 0\<rparr>)")
      (simp_all add: tag_payload_def image_payload_def set_pending_def on_xf_def pending_def flip: assms(4))
  have "gif_loop draw (tag @ img @ rest) (length (tag @ img)) h = gif_loop draw rest 0 h" for h
    using gif_loop_append [of draw "tag @ img" rest 0 h] by simp
  then show ?thesis
    using load_prefix [OF assms(2), of "img @ rest"] assms(1,6) pay
    by (subst gif_loop.simps) (simp split: option.split)
qed

lemma image_tag_cut:
  assumes "length tag = 16" "load_qword tag 0 = Some (lo, hi)" "tag_flg lo = 2"
    and "length d1 + n = tag_nloop lo * 16" "0 < n" and "tag_start draw lo g = Some g1"
  shows "gif_loop draw (tag @ d1) 0 g
    = map_option (\<lambda>x. g1\<lparr>xf := x\<rparr>) (processImageData d1 ((xf g)\<lparr>m_pendingImageBytes := of_nat n\<rparr>))"
proof -
  have n: "of_nat n \<noteq> (0 :: u64)" "tag_nloop lo * 16 - length d1 = n"
    using assms(4,5) tag_nloop_less [of lo] by (auto simp: word_unat_eq_iff unat_of_nat)
  have empty: "processImageData [] x = Some x" for x
    by (auto simp: processImageData_def image_loop.simps split: option.split)
  have pay: "tag_payload draw (tag @ d1) lo hi 16 g1
      = map_option (\<lambda>x. (True, 16 + length d1, g1\<lparr>xf := x\<rparr>)) (processImageData d1 ((xf g)\<lparr>m_pendingImageBytes := of_nat n\<rparr>))"
  proof -
    have k: "min (tag_nloop lo * 16) (length (tag @ d1) - 16) = length d1" "take (length d1) (drop 16 (tag @ d1)) = d1"
      using assms(1,4,5) by simp_all
    have "(if length d1 \<noteq> 0 then on_xf (processImageData d1) h else Some h) = on_xf (processImageData d1) h" for h
      by (simp add: on_xf_def empty)
    then have "image_payload (tag @ d1) (tag_nloop lo) 16 g1
        = (case on_xf (processImageData d1) (set_pending (of_nat n) g1) of None \<Rightarrow> None
           | Some g2 \<Rightarrow> Some (pending g2 \<noteq> 0, 16 + length d1, g2))"
      unfolding image_payload_def Let_def k n(2) by simp
    then show ?thesis
      using n(1) tag_start_xf(1) [OF assms(6)] processImageData_keeps [of d1 "(xf g)\<lparr>m_pendingImageBytes := of_nat n\<rparr>"]
      by (cases "processImageData d1 ((xf g)\<lparr>m_pendingImageBytes := of_nat n\<rparr>)")
        (simp_all add: tag_payload_def assms(3) set_pending_def on_xf_def pending_def)
  qed
  show ?thesis
    using load_prefix [OF assms(2), of d1] assms(1,6) pay by (subst gif_loop.simps) (simp split: option.split)
qed

text \<open>The packet that brings the rest of a payload.\<close>

lemma owed_packet:
  assumes "pending g = of_nat (length d2)" "length d2 < 2 ^ 64" "d2 \<noteq> []" "m_vram (xf g) \<noteq> None"
  shows "processGIFPacket draw (d2 @ rest) g
    = (case processImageData d2 ((xf g)\<lparr>m_pendingImageBytes := 0\<rparr>) of None \<Rightarrow> None
       | Some x \<Rightarrow> gif_loop draw rest 0 (g\<lparr>xf := x\<rparr>))"
proof -
  have u: "unat (pending g) = length d2" "pending g \<noteq> 0" using assms(1-3) by (auto simp: unat_of_nat word_unat_eq_iff)
  have p: "on_xf (processImageData d2) (set_pending (pending g - of_nat (length d2)) g)
      = map_option (\<lambda>x. g\<lparr>xf := x\<rparr>) (processImageData d2 ((xf g)\<lparr>m_pendingImageBytes := 0\<rparr>))"
    by (simp add: on_xf_def set_pending_def assms(1))
  have loop: "gif_loop draw (d2 @ rest) (length d2) h = gif_loop draw rest 0 h" for h
    using gif_loop_append [of draw d2 rest 0 h] by simp
  show ?thesis
    using u assms(3,4) p
    by (cases "rest = []") (auto simp: processGIFPacket_def Let_def loop gif_loop_end split: option.split)
qed

section \<open>The order of the paths\<close>

text \<open>
  The comparison of the arbiter is no strict weak ordering: it is not even transitive once plain
  \<open>PATH2\<close> packets, \<open>PATH3\<close> images and \<open>DIRECTHL\<close> packets meet.
\<close>

lemma packet_before_not_transitive:
  "\<exists>a b c. packet_before a b \<and> packet_before b c \<and> \<not> packet_before a c"
proof (intro exI conjI)
  let ?a = "\<lparr>pathId = Path2, path2DirectHl = False, path3Image = False, pkt_data = []\<rparr>"
  let ?b = "\<lparr>pathId = Path3, path2DirectHl = False, path3Image = True, pkt_data = []\<rparr>"
  let ?c = "\<lparr>pathId = Path2, path2DirectHl = True, path3Image = False, pkt_data = []\<rparr>"
  show "packet_before ?a ?b" "packet_before ?b ?c" "\<not> packet_before ?a ?c" by (simp_all add: packet_before_def)
qed

text \<open>
  The queues on which it is one: no \<open>DIRECTHL\<close> packet meets an image, or every packet of \<open>PATH2\<close>
  is \<open>DIRECTHL\<close> and every one of \<open>PATH3\<close> an image.
\<close>

definition mixed :: "GifArbiterPacket list \<Rightarrow> bool" where
  "mixed q \<longleftrightarrow> list_ex path2DirectHl q \<and> list_ex path3Image q"

definition comparable :: "GifArbiterPacket list \<Rightarrow> bool" where
  "comparable q \<longleftrightarrow> \<not> mixed q \<or>
     list_all (\<lambda>p. (pathId p = Path2 \<longrightarrow> path2DirectHl p) \<and> (pathId p = Path3 \<longrightarrow> path3Image p)) q"

definition packet_wf :: "GifArbiterPacket \<Rightarrow> bool" where
  "packet_wf p \<longleftrightarrow> (path2DirectHl p \<longrightarrow> pathId p = Path2) \<and> (path3Image p \<longrightarrow> pathId p = Path3)"

definition packet_rank :: "GifArbiterPacket list \<Rightarrow> GifArbiterPacket \<Rightarrow> nat" where
  "packet_rank q p = (if mixed q \<and> path2DirectHl p then 4 else pathPriority (pathId p))"

definition submit_all :: "(GifPathId \<times> u8 list \<times> bool) list \<Rightarrow> GifArbiterPacket list" where
  "submit_all subs = fold (\<lambda>(path, data, hl). submit path data hl) subs []"

lemma submit_wf: "\<forall>p \<in> set q. packet_wf p \<Longrightarrow> \<forall>p \<in> set (submit path data hl q). packet_wf p"
  by (simp add: submit_def packet_wf_def)

lemma submit_all_wf: "\<forall>p \<in> set (submit_all subs). packet_wf p"
proof -
  have "\<forall>p \<in> set q. packet_wf p \<Longrightarrow> \<forall>p \<in> set (fold (\<lambda>(path, data, hl). submit path data hl) subs q). packet_wf p" for q
  proof (induction subs arbitrary: q)
    case (Cons sub subs)
    obtain path data hl where "sub = (path, data, hl)" by (metis prod_cases3)
    then show ?case using Cons.IH [OF submit_wf [OF Cons.prems]] by simp
  qed simp
  from this [of "[]"] show ?thesis by (simp add: submit_all_def)
qed

lemma before_rank:
  assumes "comparable q" "\<forall>p \<in> set q. packet_wf p" "a \<in> set q" "b \<in> set q"
  shows "packet_before a b \<longleftrightarrow> packet_rank q a < packet_rank q b"
proof (cases "mixed q")
  case True
  have wf: "packet_wf p" "pathId p = Path2 \<longrightarrow> path2DirectHl p" "pathId p = Path3 \<longrightarrow> path3Image p" if "p \<in> set q" for p
    using assms(1,2) that True by (auto simp: comparable_def list_all_iff)
  from wf [OF assms(3)] wf [OF assms(4)] True show ?thesis
    by (cases "pathId a"; cases "pathId b") (simp_all add: packet_before_def packet_rank_def packet_wf_def)
next
  case False
  then have "\<not> (path3Image a \<and> path2DirectHl b)" "\<not> (path3Image b \<and> path2DirectHl a)"
    using assms(3,4) by (auto simp: mixed_def list_ex_iff)
  with False show ?thesis by (simp add: packet_before_def packet_rank_def)
qed

lemma stable_insert_key:
  "\<forall>y \<in> set ys. before y x \<longleftrightarrow> f y < (f x :: nat) \<Longrightarrow> stable_insert before x ys = insort_key f x ys"
  by (induction ys) (auto simp: not_less)

lemma stable_sort_key_eq:
  assumes "\<And>x y. x \<in> set xs \<Longrightarrow> y \<in> set xs \<Longrightarrow> before x y \<longleftrightarrow> f x < (f y :: nat)"
  shows "stable_sort before xs = sort_key f xs"
  using assms
proof (induction xs)
  case (Cons x xs)
  then have "stable_sort before xs = sort_key f xs" by simp
  then show ?case
    using Cons.prems by (simp add: stable_sort_def) (intro stable_insert_key, auto)
qed (simp add: stable_sort_def)

lemma filter_path_sort:
  assumes "comparable q" "\<forall>p \<in> set q. packet_wf p"
  shows "filter (\<lambda>p. pathId p = path) (sort_key (packet_rank q) q) = filter (\<lambda>p. pathId p = path) q"
proof -
  define k where "k = (if mixed q \<and> path = Path2 then 4 else pathPriority path)"
  have "pathId p = path \<longleftrightarrow> packet_rank q p = k" if "p \<in> set q" for p
  proof -
    have "packet_wf p" "mixed q \<longrightarrow> pathId p = Path2 \<longrightarrow> path2DirectHl p"
      using assms that by (auto simp: comparable_def list_all_iff)
    then show ?thesis
      by (cases "pathId p"; cases path; cases "mixed q") (simp_all add: k_def packet_rank_def packet_wf_def)
  qed
  then have "filter (\<lambda>p. pathId p = path) xs = filter (\<lambda>p. packet_rank q p = k) xs" if "set xs = set q" for xs
    using that by (intro filter_cong) simp_all
  from this [of "sort_key (packet_rank q) q"] this [of q] show ?thesis by (simp add: sort_key_stable)
qed

section \<open>Primitives\<close>

text \<open>The vertices that the rasterizer is called with when the vertex just put is kicked.\<close>

definition drawn :: "GS \<Rightarrow> GSVertex list list" where
  "drawn g = (case prim_needed (prim_type g) of None \<Rightarrow> []
     | Some n \<Rightarrow> if m_vtxCount g + 1 < n then [] else [take n (m_vtxQueue g)])"

fun feed :: "(GS \<Rightarrow> GS option) \<Rightarrow> GSVertex list \<Rightarrow> GS \<Rightarrow> (GSVertex list list \<times> GS) option" where
  "feed draw [] g = Some ([], g)"
| "feed draw (v # vs) g =
     (case vertexKick draw True (put_vertex v g) of None \<Rightarrow> None
      | Some g' \<Rightarrow> map_option (\<lambda>(ds, g''). (drawn (put_vertex v g) @ ds, g'')) (feed draw vs g'))"

text \<open>The primitives of a vertex sequence: groups, windows, and fans around the first vertex.\<close>

fun groups :: "nat \<Rightarrow> 'a list \<Rightarrow> 'a list list" where
  "groups n xs = (if n = 0 \<or> length xs < n then [] else take n xs # groups n (drop n xs))"

declare groups.simps [simp del]

fun windows :: "nat \<Rightarrow> 'a list \<Rightarrow> 'a list list" where
  "windows n [] = []"
| "windows n (x # xs) = (if length (x # xs) < n then [] else take n (x # xs) # windows n xs)"

definition assemble :: "nat \<Rightarrow> 'a list \<Rightarrow> 'a list list" where
  "assemble p vs = (if p = 0 then groups 1 vs else if p = 1 \<or> p = 6 then groups 2 vs else if p = 3 then groups 3 vs
     else if p = 2 then windows 2 vs else if p = 4 then windows 3 vs
     else case vs of [] \<Rightarrow> [] | v # ws \<Rightarrow> map ((#) v) (windows 2 ws))"

text \<open>The queue as a list: the vertices that wait, and what a complete primitive leaves.\<close>

definition keep :: "nat \<Rightarrow> 'a list \<Rightarrow> 'a list" where
  "keep p vs = (if p = 2 \<or> p = 4 then tl vs else if p = 5 then [hd vs, last vs] else [])"

fun assemble_from :: "nat \<Rightarrow> nat \<Rightarrow> 'a list \<Rightarrow> 'a list \<Rightarrow> 'a list list" where
  "assemble_from p n wait [] = []"
| "assemble_from p n wait (v # vs) =
     (if length wait + 1 < n then assemble_from p n (wait @ [v]) vs
      else (wait @ [v]) # assemble_from p n (keep p (wait @ [v])) vs)"

lemma assemble_from_groups:
  assumes "p \<notin> {2, 4, 5}" "length wait < n"
  shows "assemble_from p n wait vs = groups n (wait @ vs)"
  using assms(2)
proof (induction vs arbitrary: wait)
  case Nil
  then show ?case by (simp add: groups.simps)
next
  case (Cons v vs)
  show ?case
  proof (cases "length wait + 1 < n")
    case True
    then show ?thesis using Cons.IH [of "wait @ [v]"] by simp
  next
    case False
    then have "length wait + 1 = n" using Cons.prems by simp
    then show ?thesis
      using Cons.IH [of "[]"] assms(1) by (subst groups.simps) (auto simp: keep_def)
  qed
qed

lemma windows_short: "length xs < n \<Longrightarrow> windows n xs = []"
  by (cases xs) simp_all

lemma assemble_from_windows:
  assumes "p = 2 \<or> p = 4" "length wait < n" "2 \<le> n"
  shows "assemble_from p n wait vs = windows n (wait @ vs)"
  using assms(2)
proof (induction vs arbitrary: wait)
  case Nil
  then show ?case by (simp add: windows_short)
next
  case (Cons v vs)
  show ?case
  proof (cases "length wait + 1 < n")
    case True
    then show ?thesis using Cons.IH [of "wait @ [v]"] by simp
  next
    case False
    then have len: "length wait + 1 = n" using Cons.prems by simp
    then obtain w ws where w: "wait = w # ws" using assms(3) by (cases wait) auto
    have "take n (wait @ v # vs) = wait @ [v]" using len by (simp add: take_Cons')
    then show ?thesis
      using Cons.IH [of "ws @ [v]"] assms(1) len by (auto simp: keep_def w)
  qed
qed

lemma assemble_from_fan:
  "assemble_from 5 3 [a, b] vs = map ((#) a) (windows 2 (b # vs))"
  by (induction vs arbitrary: b) (simp_all add: keep_def)

lemma assemble_from_eq:
  assumes "prim_needed p = Some n"
  shows "assemble_from p n [] vs = assemble p vs"
proof -
  consider "p = 0" "n = 1" | "p = 1 \<or> p = 6" "n = 2" | "p = 3" "n = 3" | "p = 2" "n = 2" | "p = 4" "n = 3" | "p = 5" "n = 3"
    using assms by (auto simp: prim_needed_def split: if_splits)
  then show ?thesis
  proof cases
    case 6
    then show ?thesis
      by (cases vs; cases "tl vs") (simp_all add: assemble_def assemble_from_fan neq_Nil_conv)
  qed (auto simp: assemble_def assemble_from_groups assemble_from_windows)
qed

text \<open>A rasterizer that returns and leaves the registers and the vertex queue alone.\<close>

definition draw_reads :: "(GS \<Rightarrow> GS option) \<Rightarrow> bool" where
  "draw_reads draw \<longleftrightarrow> (\<forall>g. \<exists>g'. draw g = Some g' \<and> m_registers g' = m_registers g \<and> m_vtxQueue g' = m_vtxQueue g
     \<and> m_vtxCount g' = m_vtxCount g \<and> m_vtxIndex g' = m_vtxIndex g)"

definition waiting :: "GSVertex list \<Rightarrow> GS \<Rightarrow> bool" where
  "waiting wait g \<longleftrightarrow> length (m_vtxQueue g) = 6 \<and> m_vtxCount g = length wait \<and> take (length wait) (m_vtxQueue g) = wait"

lemma put_waiting:
  assumes "waiting wait g" "length wait < 3"
  shows "take (Suc (length wait)) (m_vtxQueue (put_vertex v g)) = wait @ [v]" "length (m_vtxQueue (put_vertex v g)) = 6"
    "m_vtxCount (put_vertex v g) = length wait" "prim_type (put_vertex v g) = prim_type g"
    "m_vtxIndex (put_vertex v g) = m_vtxIndex g"
  using assms by (auto simp: waiting_def put_vertex_def kMaxVerts_def prim_type_def take_Suc_conv_app_nth)

lemma shift_waiting:
  assumes "prim_needed p = Some n" "length vs = n" "take n (m_vtxQueue g) = vs" "length (m_vtxQueue g) = 6"
  shows "waiting (keep p vs) (prim_shift p g)" "length (keep p vs) < n"
proof -
  obtain a b c r where q: "m_vtxQueue g = a # b # c # r" using assms(4) by (auto simp: numeral_eq_Suc length_Suc_conv)
  consider "p = 0" "n = 1" | "p = 1 \<or> p = 6" "n = 2" | "p = 3" "n = 3" | "p = 2" "n = 2" | "p = 4" "n = 3" | "p = 5" "n = 3"
    using assms(1) by (auto simp: prim_needed_def split: if_splits)
  then show "waiting (keep p vs) (prim_shift p g)" "length (keep p vs) < n"
    using assms(3,4) by (cases; auto simp: q waiting_def keep_def prim_shift_def)+
qed

lemma prim_shift_fields: "prim_type (prim_shift p g) = prim_type g" "m_vtxIndex (prim_shift p g) = m_vtxIndex g"
  by (simp_all add: prim_shift_def prim_type_def Let_def)

lemma kick_waiting:
  assumes "draw_reads draw" "prim_needed (prim_type g) = Some n" "waiting wait g" "length wait < n" "m_vtxIndex g < 2 ^ 31 - 1"
  shows "\<exists>g'. vertexKick draw True (put_vertex v g) = Some g' \<and> prim_type g' = prim_type g \<and> m_vtxIndex g' = Suc (m_vtxIndex g)
    \<and> (if length wait + 1 < n then drawn (put_vertex v g) = [] \<and> waiting (wait @ [v]) g'
       else drawn (put_vertex v g) = [wait @ [v]] \<and> waiting (keep (prim_type g) (wait @ [v])) g')"
proof -
  have n: "n \<le> 3" using assms(2) by (auto simp: prim_needed_def split: if_splits)
  then have lt: "length wait < 3" using assms(4) by simp
  note p = put_waiting [OF assms(3) lt, of v]
  define g1 where "g1 = (put_vertex v g)\<lparr>m_vtxCount := length wait + 1, m_vtxIndex := m_vtxIndex g + 1\<rparr>"
  have g1: "prim_type g1 = prim_type g" "m_vtxQueue g1 = m_vtxQueue (put_vertex v g)" "m_vtxCount g1 = Suc (length wait)"
    "m_vtxIndex g1 = Suc (m_vtxIndex g)" using p(4) by (simp_all add: g1_def prim_type_def)
  have kick: "vertexKick draw True (put_vertex v g)
      = (if length wait + 1 < n then Some g1 else map_option (prim_shift (prim_type g)) (draw g1))"
  proof -
    have "vertexKick draw True (put_vertex v g) = (case prim_needed (prim_type g1) of None \<Rightarrow> Some g1
        | Some needed \<Rightarrow> if m_vtxCount g1 < needed then Some g1 else map_option (prim_shift (prim_type g1)) (draw g1))"
      unfolding vertexKick_def Let_def p(3,5) g1_def [symmetric] using assms(5) lt by simp
    then show ?thesis using assms(2) g1 by simp
  qed
  show ?thesis
  proof (cases "length wait + 1 < n")
    case True
    then show ?thesis
      using kick g1 p assms(2) by (auto simp: drawn_def waiting_def)
  next
    case False
    then have len: "length (wait @ [v]) = n" using assms(4) by simp
    obtain g2 where g2: "draw g1 = Some g2" "m_registers g2 = m_registers g1" "m_vtxQueue g2 = m_vtxQueue g1"
      "m_vtxIndex g2 = m_vtxIndex g1" using assms(1) by (auto simp: draw_reads_def)
    have "waiting (keep (prim_type g) (wait @ [v])) (prim_shift (prim_type g) g2)"
      using p(1,2) len g1(2) g2(3) by (intro shift_waiting(1) [OF assms(2) len]) simp_all
    moreover have "prim_type g2 = prim_type g" using g2(2) g1(1) by (simp add: prim_type_def)
    ultimately show ?thesis
      using False kick g2 g1(4) p len assms(2) by (auto simp: drawn_def prim_shift_fields)
  qed
qed

lemma feed_assembles:
  assumes "draw_reads draw" "prim_needed p = Some n"
  shows "prim_type g = p \<Longrightarrow> waiting wait g \<Longrightarrow> length wait < n \<Longrightarrow> m_vtxIndex g + length vs < 2 ^ 31 \<Longrightarrow>
    \<exists>g'. feed draw vs g = Some (assemble_from p n wait vs, g')"
proof (induction vs arbitrary: g wait)
  case (Cons v vs)
  have pn: "prim_needed (prim_type g) = Some n" using assms(2) Cons.prems(1) by simp
  obtain g' where k: "vertexKick draw True (put_vertex v g) = Some g'" "prim_type g' = p" "m_vtxIndex g' = Suc (m_vtxIndex g)"
    "if length wait + 1 < n then drawn (put_vertex v g) = [] \<and> waiting (wait @ [v]) g'
     else drawn (put_vertex v g) = [wait @ [v]] \<and> waiting (keep p (wait @ [v])) g'"
    using kick_waiting [OF assms(1) pn Cons.prems(2,3), of v] Cons.prems(1,4) by auto
  have ix: "m_vtxIndex g' + length vs < 2 ^ 31" using k(3) Cons.prems(4) by simp
  show ?case
  proof (cases "length wait + 1 < n")
    case True
    then obtain g'' where "feed draw vs g' = Some (assemble_from p n (wait @ [v]) vs, g'')"
      using Cons.IH [OF k(2) _ _ ix, of "wait @ [v]"] k(4) by auto
    then show ?thesis using k(1,4) True by simp
  next
    case False
    have "length (keep p (wait @ [v])) < n"
      using False Cons.prems(3) assms(2) by (auto simp: keep_def prim_needed_def split: if_splits)
    then obtain g'' where "feed draw vs g' = Some (assemble_from p n (keep p (wait @ [v])) vs, g'')"
      using Cons.IH [OF k(2) _ _ ix, of "keep p (wait @ [v])"] k(4) False by auto
    then show ?thesis using k(1,4) False by simp
  qed
qed simp

text \<open>Writes to \<open>XYZ2\<close>, with the primitives handed to the rasterizer.\<close>

definition xyz2_vertex :: "GS \<Rightarrow> u64 \<Rightarrow> GSVertex" where
  "xyz2_vertex g v = vertex_at g (ucast v) (ucast (drop_bit 16 v)) (unat (bitfield 32 32 v)) (fog_value g)"

fun xyz2_writes :: "(GS \<Rightarrow> GS option) \<Rightarrow> u64 list \<Rightarrow> GS \<Rightarrow> (GSVertex list list \<times> GS) option" where
  "xyz2_writes draw [] g = Some ([], g)"
| "xyz2_writes draw (v # vs) g =
     (case writeRegister draw 0x05 v g of None \<Rightarrow> None
      | Some g' \<Rightarrow> map_option (\<lambda>(ds, g''). (drawn (put_vertex (xyz2_vertex g v) g) @ ds, g'')) (xyz2_writes draw vs g'))"

lemma kick_regs:
  assumes "draw_reads draw" "vertexKick draw True g = Some g'"
  shows "m_registers g' = m_registers g"
proof -
  let ?g = "g\<lparr>m_vtxCount := m_vtxCount g + 1, m_vtxIndex := m_vtxIndex g + 1\<rparr>"
  obtain g2 where "draw ?g = Some g2" "m_registers g2 = m_registers ?g" using assms(1) unfolding draw_reads_def by blast
  then show ?thesis
    using assms(2) by (auto simp: vertexKick_def Let_def prim_shift_def split: if_splits option.splits)
qed

lemma xyz2_feed:
  assumes "draw_reads draw"
  shows "xyz2_writes draw vs g = feed draw (map (xyz2_vertex g) vs) g"
proof (induction vs arbitrary: g)
  case (Cons v vs)
  have w: "writeRegister draw 0x05 v g = vertexKick draw True (put_vertex (xyz2_vertex g v) g)"
    by (simp add: writeRegister_def xyz2_vertex_def)
  have "xyz2_vertex g' = xyz2_vertex g" if "vertexKick draw True (put_vertex (xyz2_vertex g v) g) = Some g'" for g'
    using kick_regs [OF assms that] by (simp add: put_vertex_def xyz2_vertex_def vertex_at_def fog_value_def fun_eq_iff)
  then show ?case using Cons.IH by (auto simp: w split: option.split)
qed simp

text \<open>
  A vertex without drawing kick does not shift the queue: in a strip the next primitive is made of the
  three older vertices, and the vertex that completes it is lost.
\<close>

lemma strip_after_adc:
  assumes "prim_type g = 4" "m_vtxQueue g = [a, b, x, y, z, w]" "m_vtxCount g = 2" "m_vtxIndex g = 2"
  shows "\<exists>g1 g2. vertexKick Some False (put_vertex c g) = Some g1 \<and> drawn (put_vertex d g1) = [[a, b, c]]
    \<and> vertexKick Some True (put_vertex d g1) = Some g2 \<and> waiting [b, c] g2"
proof -
  define g1 where "g1 = g\<lparr>m_vtxQueue := [a, b, c, y, z, w], m_vtxCount := 3, m_vtxIndex := 3\<rparr>"
  have p: "prim_type (g1\<lparr>m_vtxQueue := q, m_vtxCount := k, m_vtxIndex := i\<rparr>) = 4" "prim_type (g1\<lparr>m_vtxQueue := q\<rparr>) = 4" for q k i
    using assms(1) by (simp_all add: g1_def prim_type_def)
  have put: "put_vertex d g1 = g1\<lparr>m_vtxQueue := [a, b, c, d, z, w]\<rparr>"
    by (simp add: g1_def put_vertex_def kMaxVerts_def)
  have "vertexKick Some False (put_vertex c g) = Some g1"
    using assms by (simp add: vertexKick_def put_vertex_def kMaxVerts_def g1_def)
  moreover have "drawn (put_vertex d g1) = [[a, b, c]]"
    unfolding put drawn_def p by (simp add: prim_needed_def g1_def)
  moreover have "\<exists>g2. vertexKick Some True (put_vertex d g1) = Some g2 \<and> waiting [b, c] g2"
    using p by (simp add: put vertexKick_def Let_def prim_needed_def prim_shift_def waiting_def) (simp add: g1_def)
  ultimately show ?thesis by blast
qed

lemma packed_depth_rounds: "float_round 0xFFFFFFFF = 0x100000000"
  by (simp add: float_round_def float_ulp.simps)

section \<open>Properties\<close>

text \<open>
  C33 (The upload shortcut is the general loop): a packet that \<open>tryProcessNativeImageUploadPacket\<close>
  takes leaves the state that the tag-by-tag loop leaves, except that the shortcut counts the packet
  and does not set \<open>Q\<close> to 1, when no tag of the packet has its \<open>PRE\<close> bit set.
\<close>

definition modulo_upload :: "GS \<Rightarrow> GS" where
  "modulo_upload g = (set_q1 g)\<lparr>m_nativeImageUploadCount := 0\<rparr>"

theorem gif_native_upload:
  assumes "native_upload data = Some (b, p, r, d, img)" "m_vram (xf g) \<noteq> None" "pending g = 0"
    and "load_qword data 0 = Some (lo, hi)" "\<not> tag_pre lo" "load_qword data 80 = Some (ilo, ihi)" "\<not> tag_pre ilo"
  shows "map_option modulo_upload (processGIFPacket draw data g) = map_option modulo_upload (gif_loop draw data 0 g)"
proof -
  have "96 \<le> length data" using load_qword_None [OF assms(6)] by simp
  then have "processGIFPacket draw data g
      = map_option (\<lambda>x. g\<lparr>xf := x, m_nativeImageUploadCount := m_nativeImageUploadCount g + 1\<rparr>)
          (processImageData img (upload_regs b p r d (xf g)))"
    using assms(2,3) upload_packet_native [OF assms(1,2), of draw]
    by (auto simp: processGIFPacket_def option.map_comp comp_def split: option.split)
  moreover note upload_packet_loop [OF assms(1,4-7), of draw g]
  moreover have "modulo_upload (g\<lparr>xf := x, m_nativeImageUploadCount := n\<rparr>) = modulo_upload ((set_q1 g)\<lparr>xf := x\<rparr>)" for x n
    by (simp add: modulo_upload_def set_q1_xf) (simp add: set_q1_def upd_regs_def)
  ultimately show ?thesis by (simp add: option.map_comp comp_def)
qed

text \<open>A state with local memory, and packets made of quadwords.\<close>

definition small_gs :: GS where
  "small_gs = (let ctx = \<lparr>c_alpha = 0, c_clamp = 0, c_fba = 0, c_frame = 0, c_scissor = 0, c_test = 0, c_tex0 = 0,
       c_tex1 = 0, c_tex2 = 0, c_xyoffset = 0, c_zbuf = 0\<rparr>;
       v = \<lparr>vx = 0, vy = 0, vz = 0, vr = 0, vg = 0, vb = 0, va = 0, vtx_q = 0, vtx_s = 0, vtx_t = 0, vu = 0, vv = 0, vfog = 0\<rparr>
     in \<lparr>xf = small_rect, m_registers = \<lparr>r_colclamp = 0, r_fog = 0, r_fogcol = 0, r_pabe = 0, r_prim = 4, r_prmode = 0,
          r_prmodecont = 0, r_rgbaq = 0, r_scanmsk = 0, r_st = 0, r_texa = 0, r_texclut = 0, r_texflush = 0, r_uv = 0,
          r_ctx0 = ctx, r_ctx1 = ctx\<rparr>,
        m_vtxQueue = replicate 6 v, m_vtxCount = 0, m_vtxIndex = 0, m_privRegs = None,
        m_texture_page_cache = \<lparr>tc_buffer = (\<lambda>_. 0), tc_valid = False, tc_base_block = 0, tc_psm = 0\<rparr>,
        m_clut = \<lparr>m_clut_cache = (\<lambda>_. 0), m_cbp0 = 0, m_cbp1 = 0\<rparr>,
        m_nativeImageUploadCount = 0, m_nativePackedGIFPacketCount = 0\<rparr>)"

lemma small_gs_ok: "m_vram (xf small_gs) \<noteq> None" "pending small_gs = 0" "BitsPerPixel (psm_of (dpsm (xf small_gs))) \<noteq> 24"
  "prim_type small_gs = 4" "length (m_vtxQueue small_gs) = 6" "m_vtxCount small_gs = 0" "m_vtxIndex small_gs = 0"
  using small_rect_ok(1)
  by (simp_all add: small_gs_def Let_def small_rect_fields(1) pending_def prim_type_def)
    (simp_all add: small_rect_def bitfield_def)

definition qwords :: "(u64 \<times> u64) list \<Rightarrow> u8 list" where
  "qwords qs = concat (map (\<lambda>(lo, hi). bytes_of_word 8 lo @ bytes_of_word 8 hi) qs)"

definition small_upload_packet :: "u8 list" where
  "small_upload_packet = qwords [(0x1000000000000004, 0xE), (0x0201010000000000, 0x50), (0, 0x51), (0x0000000200000004, 0x52),
     (0, 0x53), (0x0800000000000001, 0), (0x0102030405060708, 0x1112131415161718)]"

theorem gif_native_upload_witness:
  "native_upload small_upload_packet \<noteq> None \<and> map_option modulo_upload (processGIFPacket Some small_upload_packet small_gs)
    = map_option modulo_upload (gif_loop Some small_upload_packet 0 small_gs)"
proof -
  have n: "native_upload small_upload_packet = Some (0x0201010000000000, 0, 0x0000000200000004, 0,
      bytes_of_word 8 (0x0102030405060708 :: u64) @ bytes_of_word 8 (0x1112131415161718 :: u64))" by code_simp
  have t: "load_qword small_upload_packet 0 = Some (0x1000000000000004, 0xE)"
    "load_qword small_upload_packet 80 = Some (0x0800000000000001, 0)" by code_simp+
  have "\<not> tag_pre 0x1000000000000004" "\<not> tag_pre 0x0800000000000001" by code_simp+
  then show ?thesis using gif_native_upload [OF n small_gs_ok(1,2) t(1) _ t(2)] n by simp
qed

text \<open>
  The packed shortcut is the general loop: a packet of packed tags that
  \<open>processNativePackedGIFPacket\<close> accepts has exactly the effect of \<open>processGIFPacket\<close>, plus the
  count; a packet it refuses changes nothing.
\<close>

lemma gif_native_packed:
  assumes "pending g = 0"
  shows "processNativePackedGIFPacket draw data g =
    (if 16 \<le> length data \<and> m_vram (xf g) \<noteq> None \<and> valid_packed data 0
     then map_option (\<lambda>g'. (True, g'\<lparr>m_nativePackedGIFPacketCount := m_nativePackedGIFPacketCount g' + 1\<rparr>))
            (processGIFPacket draw data g)
     else Some (False, g))"
proof (cases "16 \<le> length data \<and> m_vram (xf g) \<noteq> None \<and> valid_packed data 0")
  case True
  then obtain d where d: "m_vram (xf g) = Some d" by blast
  have "data \<noteq> []" "native_upload data = None" using True packed_not_upload by auto
  then have "processGIFPacket draw data g = gif_loop draw data 0 g"
    using True assms d by (simp add: processGIFPacket_def tryProcessNativeImageUploadPacket_def)
  then show ?thesis
    using True d visit_packed_loop [of data 0 draw g]
    unfolding processNativePackedGIFPacket_def by (simp add: option.map_comp comp_def)
next
  case False
  then have "length data < 16 \<or> m_vram (xf g) = None \<or> \<not> valid_packed data 0" by auto
  with False show ?thesis unfolding processNativePackedGIFPacket_def by (simp only: if_True if_False)
qed

text \<open>
  C34 (Image payloads may continue in the next packet): an \<open>IMAGE\<close> tag whose payload is cut after
  whole quadwords and continues, followed by more tags, in the next packet leaves the state of the
  single packet, in every mode but the 24-bit ones.
\<close>

theorem gif_image_split:
  assumes "length tag = 16" "load_qword tag 0 = Some (lo, hi)" "tag_flg lo = 2"
    and "length d1 + length d2 = tag_nloop lo * 16" "16 dvd length d1" "d2 \<noteq> []"
    and "m_vram (xf g) \<noteq> None" "pending g = 0" "BitsPerPixel (psm_of (dpsm (xf g))) \<noteq> 24"
  shows "processGIFPacket draw (tag @ d1 @ d2 @ rest) g
    = Option.bind (processGIFPacket draw (tag @ d1) g) (processGIFPacket draw (d2 @ rest))"
proof -
  obtain g1 where g1: "tag_start draw lo g = Some g1" using tag_start_xf(2) by blast
  have n: "length d2 < 2 ^ 64" "0 < length d2"
    using assms(4,6) tag_nloop_less [of lo] by simp_all
  let ?x = "(xf g)\<lparr>m_pendingImageBytes := of_nat (length d2)\<rparr>"
  have "image_stride (psm_of (dpsm (xf g))) dvd 16" using assms(9) by (auto simp: psm_of_def image_stride.simps)
  then have split: "processImageData (d1 @ d2) (xf g) = Option.bind (processImageData d1 (xf g)) (processImageData d2)"
    using assms(5,9) by (intro gs_upload_split) (auto intro: dvd_trans)
  have "processGIFPacket draw (tag @ d1) g = map_option (\<lambda>x. g1\<lparr>xf := x\<rparr>) (processImageData d1 ?x)"
    using tag_start_first [OF assms(1-3,7,8)] image_tag_cut [OF assms(1-4) n(2) g1] by simp
  moreover have "processGIFPacket draw (d2 @ rest) (g1\<lparr>xf := x1\<rparr>)
      = (case processImageData d2 (x1\<lparr>m_pendingImageBytes := 0\<rparr>) of None \<Rightarrow> None
         | Some x \<Rightarrow> gif_loop draw rest 0 (g1\<lparr>xf := x\<rparr>))" if "processImageData d1 ?x = Some x1" for x1
  proof -
    have "(g1\<lparr>xf := x1\<rparr>)\<lparr>xf := x\<rparr> = g1\<lparr>xf := x\<rparr>" for x by simp
    moreover have "pending (g1\<lparr>xf := x1\<rparr>) = of_nat (length d2)" "m_vram (xf (g1\<lparr>xf := x1\<rparr>)) \<noteq> None"
      using processImageData_keeps [OF that] assms(7) by (simp_all add: pending_def)
    ultimately show ?thesis using owed_packet [OF _ n(1) assms(6), of "g1\<lparr>xf := x1\<rparr>" draw rest] by (simp split: option.split)
  qed
  moreover have "processGIFPacket draw (tag @ d1 @ d2 @ rest) g
      = (case processImageData (d1 @ d2) ((xf g)\<lparr>m_pendingImageBytes := 0\<rparr>) of None \<Rightarrow> None
         | Some x \<Rightarrow> gif_loop draw rest 0 (g1\<lparr>xf := x\<rparr>))"
    using tag_start_first [OF assms(1-3,7,8)] image_tag_whole [OF assms(1-3), of "d1 @ d2"] assms(4,6) g1 by simp
  ultimately show ?thesis
    unfolding processImageData_pending split
    by (cases "processImageData d1 (xf g)") (auto simp: processImageData_pending split: option.split)
qed

theorem gif_image_split_witness:
  "processGIFPacket Some (qwords [(0x0800000000000002, 0)] @ qwords [(1, 2)] @ qwords [(3, 4)] @ []) small_gs
   = Option.bind (processGIFPacket Some (qwords [(0x0800000000000002, 0)] @ qwords [(1, 2)]) small_gs)
       (processGIFPacket Some (qwords [(3, 4)] @ []))"
proof (rule gif_image_split [where lo = "0x0800000000000002" and hi = 0])
  show "length (qwords [(0x0800000000000002, 0)]) = 16" "load_qword (qwords [(0x0800000000000002, 0)]) 0 = Some (0x0800000000000002, 0)"
    "tag_flg 0x0800000000000002 = 2" "length (qwords [(1, 2)]) + length (qwords [(3, 4)]) = tag_nloop 0x0800000000000002 * 16"
    "16 dvd length (qwords [(1, 2)])" "qwords [(3, 4)] \<noteq> []" by code_simp+
qed (use small_gs_ok in simp_all)





end
