(* ===== verification/DmacProps.thy ===== *)
theory DmacProps
  imports Dmac VifProps GifPacketProps
begin

text \<open>
  What the DMA controller promises: a source chain is gathered link by link as its tags say, a transfer
  hands exactly its bytes to the GIF or VIF, and a finished channel shows it in its registers.
\<close>

section \<open>Cyclic reads\<close>

definition cyclic :: "bytes \<Rightarrow> nat \<Rightarrow> nat \<Rightarrow> nat \<Rightarrow> u8 list" where
  "cyclic d maxSz src n = map (\<lambda>i. d ((src + i) mod maxSz)) [0..<n]"

lemma cyclic_split:
  assumes "a \<le> n"
  shows "cyclic d maxSz src n = cyclic d maxSz src a @ cyclic d maxSz (src + a) (n - a)"
  using assms by (intro nth_equalityI) (auto simp: cyclic_def nth_append add.assoc)

lemma cyclic_wrap: "cyclic d maxSz maxSz n = cyclic d maxSz 0 n"
  by (simp add: cyclic_def)

lemma cyclic_inside: "src + n \<le> maxSz \<Longrightarrow> cyclic d maxSz src n = copy_out d src n"
  by (intro nth_equalityI) (auto simp: cyclic_def)

lemma next_chunk_nat:
  assumes "src \<le> maxSz" "unat maxSz + unat b < 2 ^ 32" "0 < maxSz"
  defines "s \<equiv> (if src = maxSz then 0 else unat src)"
  shows "\<exists>s' c. next_chunk maxSz src b = (s', c) \<and> unat s' = s \<and> unat c = min (unat b) (unat maxSz - s) \<and> s < unat maxSz"
proof -
  let ?s = "if src \<ge> maxSz then 0 else src"
  have s: "unat ?s = s" and lt: "s < unat maxSz"
    using assms by (auto simp: s_def word_le_nat_alt word_less_nat_alt word_unat_eq_iff)
  have sum: "unat (?s + b) = s + unat b" using s lt assms(2) by (simp add: unat_word_ariths)
  have "unat (if ?s + b > maxSz then maxSz - ?s else b) = min (unat b) (unat maxSz - s)"
    using s lt sum by (auto simp: word_less_nat_alt unat_sub word_le_nat_alt)
  then show ?thesis using s lt by (simp add: next_chunk_def Let_def)
qed

lemma chunks_cyclic:
  assumes "src \<le> maxSz" "unat maxSz + unat b < 2 ^ 32" "0 < maxSz"
  shows "\<exists>cs. chunks 1 maxSz src b = Some cs \<and> concat (chunk_data d cs) = cyclic d (unat maxSz) (unat src) (unat b)"
  using assms
proof (induction "1 :: u32" maxSz src b rule: chunks.induct)
  case (1 maxSz src b)
  show ?case
  proof (cases "b = 0")
    case True
    then show ?thesis by (simp add: chunks.simps chunk_data_def cyclic_def)
  next
    case False
    let ?s = "if src = maxSz then 0 else unat src"
    obtain s c where n: "next_chunk maxSz src b = (s, c)" "unat s = ?s" "unat c = min (unat b) (unat maxSz - ?s)" "?s < unat maxSz"
      using next_chunk_nat [OF 1(2,3,4)] by metis
    have b: "\<not> (b = 0 \<or> b < 1)" using False by (simp add: word_less_nat_alt unat_gt_0 word_less_1)
    have "0 < unat c" using n False by (simp add: unat_gt_0)
    then have c0: "c \<noteq> 0" by auto
    have le: "unat s + unat c \<le> unat maxSz" using n by auto
    then have sc: "unat (s + c) = unat s + unat c" using 1(3) by (simp add: unat_word_ariths)
    have bc: "unat (b - c) = unat b - unat c" using n by (simp add: unat_sub word_le_nat_alt)
    have lt: "unat maxSz + unat (b - c) < 2 ^ 32" using 1(3) bc by simp
    obtain cs where cs: "chunks 1 maxSz (s + c) (b - c) = Some cs"
        "concat (chunk_data d cs) = cyclic d (unat maxSz) (unat (s + c)) (unat (b - c))"
      using 1(1) [OF b n(1) [symmetric] c0 _ _ lt 1(4)] le sc by (auto simp: word_le_nat_alt)
    have "cyclic d (unat maxSz) (unat src) (unat b) = cyclic d (unat maxSz) ?s (unat b)"
      by (auto simp: cyclic_wrap)
    also have "\<dots> = copy_out d ?s (unat c) @ cyclic d (unat maxSz) (?s + unat c) (unat b - unat c)"
      using cyclic_split [of "unat c" "unat b"] cyclic_inside [of ?s "unat c"] n by auto
    finally show ?thesis
      using cs n b c0 le sc bc by (subst chunks.simps) (simp add: chunk_data_def)
  qed
qed

section \<open>Chains\<close>

definition tag_id :: "u64 \<Rightarrow> u32" where "tag_id tag = ucast (drop_bit 28 tag) AND 7"
definition tag_qwc :: "u64 \<Rightarrow> u32" where "tag_qwc tag = ucast tag AND 0xFFFF"
definition tag_addr :: "u64 \<Rightarrow> u32" where "tag_addr tag = ucast (drop_bit 32 tag) AND 0x7FFFFFFF"

text \<open>
  A source chain: the list of its links, each with the address of its tag, the address of its data and
  the number of quadwords. The stack holds the return addresses, at most two.
\<close>

inductive dma_chain :: "'g dma_mem \<Rightarrow> u32 \<Rightarrow> u32 list \<Rightarrow> (u32 \<times> u32 \<times> u32) list \<Rightarrow> bool" for m where
  chain_refe: "read_tag m t = Some (Some tag) \<Longrightarrow> tag_id tag = 0 \<Longrightarrow> dma_chain m t stk [(t, tag_addr tag, tag_qwc tag)]"
| chain_cnt: "read_tag m t = Some (Some tag) \<Longrightarrow> tag_id tag = 1 \<Longrightarrow> dma_chain m (t + 16 + tag_qwc tag * 16) stk ls
    \<Longrightarrow> dma_chain m t stk ((t, t + 16, tag_qwc tag) # ls)"
| chain_next: "read_tag m t = Some (Some tag) \<Longrightarrow> tag_id tag = 2 \<Longrightarrow> dma_chain m (tag_addr tag) stk ls
    \<Longrightarrow> dma_chain m t stk ((t, t + 16, tag_qwc tag) # ls)"
| chain_ref: "read_tag m t = Some (Some tag) \<Longrightarrow> tag_id tag = 3 \<or> tag_id tag = 4 \<Longrightarrow> dma_chain m (t + 16) stk ls
    \<Longrightarrow> dma_chain m t stk ((t, tag_addr tag, tag_qwc tag) # ls)"
| chain_call: "read_tag m t = Some (Some tag) \<Longrightarrow> tag_id tag = 5 \<Longrightarrow> length stk < 2
    \<Longrightarrow> dma_chain m (tag_addr tag) ((t + 16 + tag_qwc tag * 16) # stk) ls
    \<Longrightarrow> dma_chain m t stk ((t, t + 16, tag_qwc tag) # ls)"
| chain_ret: "read_tag m t = Some (Some tag) \<Longrightarrow> tag_id tag = 6 \<Longrightarrow> dma_chain m r stk ls
    \<Longrightarrow> dma_chain m t (r # stk) ((t, t + 16, tag_qwc tag) # ls)"
| chain_ret_last: "read_tag m t = Some (Some tag) \<Longrightarrow> tag_id tag = 6 \<Longrightarrow> dma_chain m t [] [(t, t + 16, tag_qwc tag)]"
| chain_end: "read_tag m t = Some (Some tag) \<Longrightarrow> tag_id tag = 7 \<Longrightarrow> dma_chain m t stk [(t, t + 16, tag_qwc tag)]"

text \<open>The bytes of a link: on a VIF channel the upper half of the tag, then the data, read cyclically.\<close>

definition phys :: "'g dma_mem \<Rightarrow> u32 \<Rightarrow> u32" where
  "phys m a = (case translateAddress (dm_tlb m) a of Some p \<Rightarrow> p | None \<Rightarrow> 0)"

definition segment :: "'g dma_mem \<Rightarrow> u32 \<Rightarrow> u32 \<Rightarrow> u8 list" where
  "segment m a q = (case dma_source m (isScratchpad a) of (d, maxSz) \<Rightarrow> cyclic d (unat maxSz) (unat (phys m a)) (unat q * 16))"

definition tag_data :: "'g dma_mem \<Rightarrow> u32 \<Rightarrow> u8 list" where
  "tag_data m t = copy_out (fst (dma_source m (isScratchpad t))) (unat (phys m t) + 8) 8"

definition link_data :: "'g dma_mem \<Rightarrow> bool \<Rightarrow> u32 \<times> u32 \<times> u32 \<Rightarrow> u8 list" where
  "link_data m vifc = (\<lambda>(t, a, q). (if vifc then tag_data m t else []) @ (if q > 0 then segment m a q else []))"

text \<open>Every address the link uses is mapped, and its data starts inside the array.\<close>

definition in_array :: "'g dma_mem \<Rightarrow> u32 \<Rightarrow> bool" where
  "in_array m a \<longleftrightarrow> translateAddress (dm_tlb m) a \<noteq> None \<and> phys m a \<le> snd (dma_source m (isScratchpad a))"

definition link_ok :: "'g dma_mem \<Rightarrow> bool \<Rightarrow> u32 \<times> u32 \<times> u32 \<Rightarrow> bool" where
  "link_ok m vifc = (\<lambda>(t, a, q). (vifc \<longrightarrow> in_array m (t + 16)) \<and> (q > 0 \<longrightarrow> in_array m a) \<and> q \<le> 0xFFFF)"

lemma source_size: "0 < snd (dma_source m s)" "unat (snd (dma_source m s)) \<le> 33554432"
  by (simp_all add: dma_source_def ram_defs)

lemma appendData_segment:
  assumes "in_array m a" "q \<le> 0xFFFF"
  shows "appendData m a q buf = Some (buf @ segment m a q)"
proof -
  obtain d maxSz where d: "dma_source m (isScratchpad a) = (d, maxSz)" by fastforce
  obtain p where p: "translateAddress (dm_tlb m) a = Some p" "phys m a = p"
    using assms(1) by (auto simp: in_array_def phys_def)
  have q: "unat q \<le> 65535" using assms(2) by (simp add: word_le_nat_alt)
  then have b: "unat (dma_bytes q) = unat q * 16" by (simp add: dma_bytes_def unat_word_ariths)
  have "p \<le> maxSz" "0 < maxSz" "unat maxSz \<le> 33554432"
    using assms(1) d p source_size [of m "isScratchpad a"] by (simp_all add: in_array_def)
  then obtain cs where "chunks 1 maxSz p (dma_bytes q) = Some cs"
      "concat (chunk_data d cs) = cyclic d (unat maxSz) (unat p) (unat q * 16)"
    using chunks_cyclic [of p maxSz "dma_bytes q" d] b q by auto
  then show ?thesis using d p by (simp add: appendData_def segment_def)
qed

lemma appendData_nothing: "in_array m a \<Longrightarrow> appendData m a 0 buf = Some buf"
  using appendData_segment [of m a 0 buf] by (simp add: segment_def cyclic_def split: prod.splits)

lemma appendCompact_tag:
  assumes "read_tag m t = Some (Some tag)" "in_array m (t + 16)"
  shows "appendCompactVif1TagData m t 0 buf = Some (buf @ tag_data m t)"
  using assms appendData_nothing [OF assms(2)]
  by (auto simp: read_tag_def appendCompactVif1TagData_def tag_data_def phys_def split: option.splits prod.splits if_splits)

text \<open>One link of the walk, and the stack of the walk.\<close>

lemma chain_step_link:
  assumes tag: "read_tag m (tagAddr st) = Some (Some tag)"
    and move: "tag_move (tag_id tag) (tag_addr tag) (tag_qwc tag) (st\<lparr>lastTagUpper := ucast (drop_bit 16 tag) AND 0xFFFF\<rparr>)
      = (a, st1, e)"
    and ok: "link_ok m vifc (tagAddr st, a, tag_qwc tag)"
  shows "chain_step m vifc False st
    = Some (\<not> e, st1\<lparr>chainBuf := chainBuf st @ link_data m vifc (tagAddr st, a, tag_qwc tag)\<rparr>)"
proof -
  have "tag_qwc tag \<le> 0xFFFF" using ok by (simp add: link_ok_def)
  then show ?thesis
    using assms appendCompact_tag [OF tag] appendData_segment [of m a "tag_qwc tag"]
    by (auto simp: chain_step_def Let_def tag_id_def [symmetric] tag_addr_def [symmetric] tag_qwc_def [symmetric]
        link_ok_def link_data_def split: if_splits)
qed

definition stack_of :: "chain_state \<Rightarrow> u32 list" where
  "stack_of st = (if ch_asp st = 0 then [] else if ch_asp st = 1 then [ch_asr0 st] else [ch_asr1 st, ch_asr0 st])"

definition chain_at :: "u32 \<Rightarrow> u32 list \<Rightarrow> chain_state \<Rightarrow> bool" where
  "chain_at t stk st \<longleftrightarrow> tagAddr st = t \<and> stack_of st = stk \<and> (ch_asp st = 0 \<or> ch_asp st = 1 \<or> ch_asp st = 2)"

text \<open>What each tag does to the address and the stack.\<close>

lemma tag_move_moves:
  assumes "chain_at t stk st"
  shows "\<exists>st1. tag_move 0 addr q (st\<lparr>lastTagUpper := u\<rparr>) = (addr, st1, True)"
    "\<exists>st1. tag_move 1 addr q (st\<lparr>lastTagUpper := u\<rparr>) = (t + 16, st1, False) \<and> chain_at (t + 16 + q * 16) stk st1"
    "\<exists>st1. tag_move 2 addr q (st\<lparr>lastTagUpper := u\<rparr>) = (t + 16, st1, False) \<and> chain_at addr stk st1"
    "i = 3 \<or> i = 4 \<Longrightarrow> \<exists>st1. tag_move i addr q (st\<lparr>lastTagUpper := u\<rparr>) = (addr, st1, False) \<and> chain_at (t + 16) stk st1"
    "length stk < 2 \<Longrightarrow> \<exists>st1. tag_move 5 addr q (st\<lparr>lastTagUpper := u\<rparr>) = (t + 16, st1, False)
       \<and> chain_at addr ((t + 16 + q * 16) # stk) st1"
    "stk = r # stk' \<Longrightarrow> \<exists>st1. tag_move 6 addr q (st\<lparr>lastTagUpper := u\<rparr>) = (t + 16, st1, False) \<and> chain_at r stk' st1"
    "stk = [] \<Longrightarrow> \<exists>st1. tag_move 6 addr q (st\<lparr>lastTagUpper := u\<rparr>) = (t + 16, st1, True)"
    "\<exists>st1. tag_move 7 addr q (st\<lparr>lastTagUpper := u\<rparr>) = (t + 16, st1, True)"
  using assms by (auto simp: tag_move_def Let_def chain_at_def stack_of_def split: if_splits)

lemma chainBuf_move: "tag_move i addr q st = (a, st1, e) \<Longrightarrow> chainBuf st1 = chainBuf st"
  by (auto simp: tag_move_def Let_def split: if_splits)

lemma chain_at_buf [simp]: "chain_at t stk (st\<lparr>chainBuf := b\<rparr>) = chain_at t stk st"
  by (simp add: chain_at_def stack_of_def)

definition gathers :: "'g dma_mem \<Rightarrow> bool \<Rightarrow> u32 \<Rightarrow> u32 list \<Rightarrow> (u32 \<times> u32 \<times> u32) list \<Rightarrow> bool" where
  "gathers m vifc t stk ls \<longleftrightarrow> (\<forall>st n. chain_at t stk st \<and> length ls \<le> n \<longrightarrow>
     (\<exists>st'. chain_walk n m vifc False st = Some st' \<and> chainBuf st' = chainBuf st @ concat (map (link_data m vifc) ls)))"

lemma gathers_last:
  assumes "read_tag m t = Some (Some tag)" "link_ok m vifc (t, a, tag_qwc tag)"
    and "\<And>st. chain_at t stk st \<Longrightarrow>
      \<exists>st1. tag_move (tag_id tag) (tag_addr tag) (tag_qwc tag) (st\<lparr>lastTagUpper := ucast (drop_bit 16 tag) AND 0xFFFF\<rparr>) = (a, st1, True)"
  shows "gathers m vifc t stk [(t, a, tag_qwc tag)]"
  unfolding gathers_def
proof (intro allI impI)
  fix st n assume st: "chain_at t stk st \<and> length [(t, a, tag_qwc tag)] \<le> n"
  then obtain k where n: "n = Suc k" by (cases n) auto
  have t: "tagAddr st = t" using st by (simp add: chain_at_def)
  obtain st1 where "tag_move (tag_id tag) (tag_addr tag) (tag_qwc tag) (st\<lparr>lastTagUpper := ucast (drop_bit 16 tag) AND 0xFFFF\<rparr>) = (a, st1, True)"
    using assms(3) st by blast
  from chain_step_link [of m st, unfolded t, OF assms(1) this assms(2)] show "\<exists>st'. chain_walk n m vifc False st = Some st'
      \<and> chainBuf st' = chainBuf st @ concat (map (link_data m vifc) [(t, a, tag_qwc tag)])"
    by (simp add: n)
qed

lemma gathers_link:
  assumes "read_tag m t = Some (Some tag)" "link_ok m vifc (t, a, tag_qwc tag)" "gathers m vifc t' stk' ls"
    and "\<And>st. chain_at t stk st \<Longrightarrow>
      \<exists>st1. tag_move (tag_id tag) (tag_addr tag) (tag_qwc tag) (st\<lparr>lastTagUpper := ucast (drop_bit 16 tag) AND 0xFFFF\<rparr>) = (a, st1, False)
        \<and> chain_at t' stk' st1"
  shows "gathers m vifc t stk ((t, a, tag_qwc tag) # ls)"
  unfolding gathers_def
proof (intro allI impI)
  fix st n assume st: "chain_at t stk st \<and> length ((t, a, tag_qwc tag) # ls) \<le> n"
  then obtain k where n: "n = Suc k" "length ls \<le> k" by (cases n) auto
  have t: "tagAddr st = t" using st by (simp add: chain_at_def)
  obtain st1 where move: "tag_move (tag_id tag) (tag_addr tag) (tag_qwc tag) (st\<lparr>lastTagUpper := ucast (drop_bit 16 tag) AND 0xFFFF\<rparr>) = (a, st1, False)"
      and at: "chain_at t' stk' st1" using assms(4) st by blast
  let ?st1 = "st1\<lparr>chainBuf := chainBuf st @ link_data m vifc (t, a, tag_qwc tag)\<rparr>"
  have "chain_at t' stk' ?st1 \<and> length ls \<le> k" using at n by simp
  then obtain st' where "chain_walk k m vifc False ?st1 = Some st'"
      "chainBuf st' = chainBuf ?st1 @ concat (map (link_data m vifc) ls)"
    using assms(3) unfolding gathers_def by blast
  with chain_step_link [of m st, unfolded t, OF assms(1) move assms(2)]
  show "\<exists>st'. chain_walk n m vifc False st = Some st'
      \<and> chainBuf st' = chainBuf st @ concat (map (link_data m vifc) ((t, a, tag_qwc tag) # ls))"
    by (simp add: n)
qed

lemma dma_chain_gathers:
  assumes "dma_chain m t stk ls" "\<forall>l \<in> set ls. link_ok m vifc l"
  shows "gathers m vifc t stk ls"
  using assms
proof (induction rule: dma_chain.induct)
  case (chain_refe t tag stk)
  then show ?case by (intro gathers_last) (simp_all add: tag_move_moves(1))
next
  case (chain_cnt t tag stk ls)
  then show ?case by (intro gathers_link [of m t tag vifc _ "t + 16 + tag_qwc tag * 16" stk]) (simp_all add: tag_move_moves(2))
next
  case (chain_next t tag stk ls)
  then show ?case by (intro gathers_link [of m t tag vifc _ "tag_addr tag" stk]) (simp_all add: tag_move_moves(3))
next
  case (chain_ref t tag stk ls)
  then show ?case by (intro gathers_link [of m t tag vifc _ "t + 16" stk]) (simp_all add: tag_move_moves(4))
next
  case (chain_call t tag stk ls)
  then show ?case
    by (intro gathers_link [of m t tag vifc _ "tag_addr tag" "(t + 16 + tag_qwc tag * 16) # stk"]) (simp_all add: tag_move_moves(5))
next
  case (chain_ret t tag r stk ls)
  then show ?case by (intro gathers_link [of m t tag vifc _ r stk]) (simp_all add: tag_move_moves(6))
next
  case (chain_ret_last t tag)
  then show ?case by (intro gathers_last) (simp_all add: tag_move_moves(7))
next
  case (chain_end t tag stk)
  then show ?case by (intro gathers_last) (simp_all add: tag_move_moves(8))
qed

section \<open>Channels\<close>

lemmas channel_defs = D_STAT_def GIF_CHANNEL_def VIF0_CHANNEL_def VIF1_CHANNEL_def

text \<open>The I/O registers play no part in reading a chain.\<close>

lemma set_io_memory [simp]:
  "dma_source (set_io a v m) s = dma_source m s" "phys (set_io a v m) = phys m" "in_array (set_io a v m) = in_array m"
  "link_ok (set_io a v m) = link_ok m" "link_data (set_io a v m) = link_data m" "read_tag (set_io a v m) = read_tag m"
  "vif (set_io a v m) = vif m" "dm_tlb (set_io a v m) = dm_tlb m" "has_gsVRAM (set_io a v m) = has_gsVRAM m"
proof -
  show src: "dma_source (set_io a v m) s = dma_source m s" for s by (simp add: set_io_def dma_source_def)
  show tlb: "dm_tlb (set_io a v m) = dm_tlb m" by (simp add: set_io_def)
  show phys: "phys (set_io a v m) = phys m" by (simp add: phys_def fun_eq_iff tlb)
  show arr: "in_array (set_io a v m) = in_array m" by (simp add: in_array_def fun_eq_iff tlb src phys)
  show "link_ok (set_io a v m) = link_ok m" by (simp add: link_ok_def fun_eq_iff arr)
  show "link_data (set_io a v m) = link_data m"
    by (simp add: link_data_def tag_data_def segment_def fun_eq_iff src phys)
  show "read_tag (set_io a v m) = read_tag m" by (simp add: read_tag_def fun_eq_iff src tlb cong: option.case_cong)
qed (simp_all add: set_io_def)

lemma set_io_chain: "dma_chain m t stk ls \<Longrightarrow> dma_chain (set_io a v m) t stk ls"
  by (induction rule: dma_chain.induct) (auto intro: dma_chain.intros)

lemma set_io_pending [simp]:
  "m_pendingGifTransfers (set_io a v m) = m_pendingGifTransfers m"
  "m_pendingVif0Transfers (set_io a v m) = m_pendingVif0Transfers m"
  "m_pendingVif1Transfers (set_io a v m) = m_pendingVif1Transfers m"
  "m_completedDmacCauses (set_io a v m) = m_completedDmacCauses m" "dm_rdram (set_io a v m) = dm_rdram m"
  by (simp_all add: set_io_def)

lemma io_set_io [simp]: "io (set_io a v m) b = (if b = a then v else io m b)"
  by (simp add: io_def set_io_def)

text \<open>What the registers show when a channel has finished.\<close>

definition channel_done :: "nat \<Rightarrow> u32 \<Rightarrow> 'g dma_mem \<Rightarrow> 'g dma_mem \<Rightarrow> bool" where
  "channel_done ch base m m' \<longleftrightarrow> \<not> bit (io m' base) 8 \<and> io m' (base + 0x20) = 0 \<and> bit (io m' D_STAT) ch
     \<and> (bit (io m' D_STAT) 31 \<longleftrightarrow> (io m' D_STAT AND 0x3FF) AND (drop_bit 16 (io m' D_STAT) AND 0x3FF) \<noteq> 0)
     \<and> m_completedDmacCauses m' = m_completedDmacCauses m @ [of_nat ch]"

lemma dstat_bits:
  fixes x y :: u32
  assumes "ch < 10" "x = y OR push_bit ch 1"
  defines "z \<equiv> (if (x AND 0x3FF) AND (drop_bit 16 x AND 0x3FF) \<noteq> 0 then x OR push_bit 31 1 else x AND NOT (push_bit 31 1))"
  shows "bit z ch" "bit z 31 \<longleftrightarrow> (z AND 0x3FF) AND (drop_bit 16 z AND 0x3FF) \<noteq> 0"
proof -
  have top: "bit (push_bit 31 1 :: u32) n \<longleftrightarrow> n = 31" for n
    by (auto simp only: bit_push_bit_iff bit_1_iff possible_bit_word) simp_all
  have other: "bit z n = bit x n" if "n \<noteq> 31" for n
    using that bit_imp_le_length [of x n]
    by (auto simp only: z_def bit_or_iff bit_and_iff bit_not_iff top possible_bit_word split: if_splits)
  show "bit z ch" using other [of ch] assms(1,2) by (simp add: bit_simps)
  have mask: "(0x3FF::u32) = mask 10" by (simp add: mask_eq_exp_minus_1)
  have "(z AND 0x3FF) AND (drop_bit 16 z AND 0x3FF) = (x AND 0x3FF) AND (drop_bit 16 x AND 0x3FF)"
    unfolding mask by (rule bit_word_eqI) (auto simp: bit_simps other)
  then show "bit z 31 \<longleftrightarrow> (z AND 0x3FF) AND (drop_bit 16 z AND 0x3FF) \<noteq> 0"
    by (auto simp only: z_def bit_or_iff bit_and_iff bit_not_iff top possible_bit_word split: if_splits)
qed

lemma finish_channel_done:
  assumes "ch < 10" "base = GIF_CHANNEL \<or> base = VIF0_CHANNEL \<or> base = VIF1_CHANNEL"
  shows "channel_done ch base m (finish_channel ch base m)" "vif (finish_channel ch base m) = vif m"
proof -
  define m1 where "m1 = raise_dstat ch m"
  define m2 where "m2 = m1\<lparr>m_completedDmacCauses := m_completedDmacCauses m1 @ [of_nat ch]\<rparr>"
  have fin: "finish_channel ch base m = set_io (base + 0x20) 0 (set_io base (io m2 base AND NOT 0x100) m2)"
    by (simp add: finish_channel_def m1_def m2_def Let_def)
  have ne: "D_STAT \<noteq> base" "D_STAT \<noteq> base + 0x20" "base \<noteq> base + 0x20"
    using assms(2) by (auto simp: channel_defs)
  have dstat: "io m2 D_STAT = io m1 D_STAT" by (simp add: m2_def io_def)
  have "bit (io m1 D_STAT) ch"
    "bit (io m1 D_STAT) 31 \<longleftrightarrow> (io m1 D_STAT AND 0x3FF) AND (drop_bit 16 (io m1 D_STAT) AND 0x3FF) \<noteq> 0"
    using dstat_bits [OF assms(1) refl, of "io m D_STAT"]
    by (simp_all only: m1_def raise_dstat_def Let_def io_set_io simp_thms if_True)
  moreover have "m_completedDmacCauses m2 = m_completedDmacCauses m @ [of_nat ch]"
    by (simp add: m2_def m1_def raise_dstat_def Let_def)
  moreover have "\<not> bit (x AND NOT 0x100 :: u32) 8" for x by (simp add: bit_simps bit_numeral_rec)
  ultimately show "channel_done ch base m (finish_channel ch base m)"
    using ne ne(1,2) [symmetric] unfolding channel_done_def fin by (simp add: dstat)
  show "vif (finish_channel ch base m) = vif m"
    by (simp add: fin m2_def m1_def raise_dstat_def Let_def)
qed

text \<open>The queue of started transfers with one VIF1 chain, and with one GIF transfer.\<close>

lemma process_vif1_chain:
  assumes "m_pendingGifTransfers m = []" "m_pendingVif0Transfers m = []" "m_pendingVif1Transfers m = [pt]" "chainData pt \<noteq> []"
  shows "processPendingTransfers env m = map_option (finish_channel 1 VIF1_CHANNEL)
    (map_option (\<lambda>v. m\<lparr>vif := v, m_pendingVif1Transfers := []\<rparr>)
       (Option.bind (processVIF1Data env (chainData pt) (vif m)) (drain_arbiter env)))"
  using assms
  by (cases m) (auto simp: processPendingTransfers_def run_transfer_def on_vif_def Let_def option.map_comp comp_def
      split: option.splits bind_splits)

definition chain_stream :: "'g dma_mem \<Rightarrow> bool \<Rightarrow> (u32 \<times> u32 \<times> u32) list \<Rightarrow> u8 list" where
  "chain_stream m vifc ls = concat (map (link_data m vifc) ls)"

lemma chain_stream_nonempty: "dma_chain m t stk ls \<Longrightarrow> chain_stream m True ls \<noteq> []"
  by (cases rule: dma_chain.cases) (auto simp: chain_stream_def link_data_def tag_data_def copy_out_def)

text \<open>
  C39 (A VIF1 source chain runs as its tags say): starting VIF1 in chain mode gathers the links of the
  chain in order, with the upper half of every tag before its data, and hands them to the VIF as one
  stream; a start that returns leaves the channel stopped, its count 0, its status bit and the
  interrupt bit right, and queues its completion.
\<close>

theorem dma_vif1_chain:
  assumes on: "dmacEnabled m" "has_gsVRAM m"
    and idle: "m_pendingGifTransfers m = []" "m_pendingVif0Transfers m = []" "m_pendingVif1Transfers m = []"
    and start: "bit chcr 8" "drop_bit 2 chcr AND 3 = 1" "\<not> bit chcr 7" "drop_bit 4 chcr AND 3 = 0"
    and chain: "dma_chain m (io m (VIF1_CHANNEL + 0x30)) [] ls" "length ls \<le> 4096" "\<forall>l \<in> set ls. link_ok m True l"
  shows "map_option vif (writeIORegister env VIF1_CHANNEL chcr m)
      = Option.bind (processVIF1Data env (chain_stream m True ls) (vif m)) (drain_arbiter env)
    \<and> (\<forall>m'. writeIORegister env VIF1_CHANNEL chcr m = Some m' \<longrightarrow> channel_done 1 VIF1_CHANNEL m m')"
proof -
  let ?m = "set_io VIF1_CHANNEL chcr m"
  define st where "st = \<lparr>tagAddr = io ?m (VIF1_CHANNEL + 0x30), ch_asr0 = io ?m (VIF1_CHANNEL + 0x40),
    ch_asr1 = io ?m (VIF1_CHANNEL + 0x50), ch_asp = drop_bit 4 chcr AND 3, lastTagUpper = drop_bit 16 chcr AND 0xFFFF, chainBuf = []\<rparr>"
  have "gathers ?m True (io m (VIF1_CHANNEL + 0x30)) [] ls"
    using dma_chain_gathers [OF set_io_chain [OF chain(1)]] chain(3) by simp
  moreover have "chain_at (io m (VIF1_CHANNEL + 0x30)) [] st"
    using start(4) by (simp add: st_def chain_at_def stack_of_def channel_defs)
  ultimately have "\<exists>st'. chain_walk kMaxChainTags ?m True False st = Some st'
      \<and> chainBuf st' = chainBuf st @ concat (map (link_data ?m True) ls)"
    using chain(2) unfolding gathers_def kMaxChainTags_def by blast
  then obtain st' where st': "chain_walk kMaxChainTags ?m True False st = Some st'" "chainBuf st' = chain_stream m True ls"
    by (auto simp: chain_stream_def st_def)
  obtain m2 where m2: "start_chain VIF1_CHANNEL chcr ?m = Some m2"
      "m_pendingGifTransfers m2 = []" "m_pendingVif0Transfers m2 = []" "vif m2 = vif m" "m_completedDmacCauses m2 = m_completedDmacCauses m"
      "m_pendingVif1Transfers m2 = [\<lparr>fromScratchpad = False, srcAddr = 0, pt_qwc = 0, chainData = chain_stream m True ls\<rparr>]"
  proof -
    have "chain_walk kMaxChainTags ?m (VIF1_CHANNEL = VIF1_CHANNEL \<or> VIF1_CHANNEL = VIF0_CHANNEL) (bit chcr 7) st = Some st'"
      using st'(1) start(3) by simp
    note start_chain_def [of VIF1_CHANNEL chcr ?m, folded st_def, unfolded this option.map Let_def]
    then show ?thesis using that idle st'(2) chain_stream_nonempty [OF chain(1)]
      by (simp add: enqueue_def channel_defs)
  qed
  have "writeIORegister env VIF1_CHANNEL chcr m = start_channel env VIF1_CHANNEL chcr ?m"
    using start(1) on(1) by (simp add: writeIORegister_def channel_defs dmacEnabled_def set_io_def Let_def)
  also have "\<dots> = processPendingTransfers env m2"
    using on(2) start(2) m2(1) by (simp add: start_channel_def channel_defs Let_def)
  finally have w: "writeIORegister env VIF1_CHANNEL chcr m = processPendingTransfers env m2" .
  have "channel_done 1 VIF1_CHANNEL m (finish_channel 1 VIF1_CHANNEL (m2\<lparr>vif := v, m_pendingVif1Transfers := []\<rparr>))" for v
    using finish_channel_done(1) [of 1 VIF1_CHANNEL "m2\<lparr>vif := v, m_pendingVif1Transfers := []\<rparr>"] m2(5)
    by (simp add: channel_done_def)
  moreover have "vif (finish_channel 1 VIF1_CHANNEL (m2\<lparr>vif := v, m_pendingVif1Transfers := []\<rparr>)) = v" for v
    by (subst finish_channel_done(2)) simp_all
  ultimately show ?thesis
    using process_vif1_chain [OF m2(2,3,6), of env] chain_stream_nonempty [OF chain(1)] m2(4)
    by (auto simp: w option.map_comp comp_def option.map_ident)
qed

text \<open>A \<open>CNT\<close> link with one quadword of VIF codes, \<open>OFFSET 4\<close> among them, and an \<open>END\<close> link.\<close>

definition demo_ram :: bytes where
  "demo_ram = copy_in 0x100 (bytes_of_word 8 (0x10000001 :: u64) @ replicate 8 0 @ bytes_of_word 4 (0x02000004 :: u32)
     @ replicate 12 0 @ bytes_of_word 8 (0x70000000 :: u64) @ replicate 8 0) (\<lambda>_. 0)"

definition demo_dma :: "'g vif_mem \<Rightarrow> 'g dma_mem" where
  "demo_dma v = \<lparr>vif = v, dm_rdram = demo_ram, dm_scratchpad = (\<lambda>_. 0), dm_tlb = [], has_gsVRAM = True,
     m_ioRegisters = [VIF1_CHANNEL + 0x30 \<mapsto> 0x100, GIF_CHANNEL + 0x10 \<mapsto> 0x110, GIF_CHANNEL + 0x20 \<mapsto> 1],
     m_pendingGifTransfers = [], m_pendingVif0Transfers = [], m_pendingVif1Transfers = [], m_completedDmacCauses = []\<rparr>"

lemma read_tag_ram:
  assumes "translateAddress (dm_tlb m) t = Some p" "\<not> isScratchpad t" "unat p + 16 \<le> 33554432"
  shows "read_tag m t = Some (Some (word_of_bytes (copy_out (dm_rdram m) (unat p) 8)))"
proof -
  have "unat (p + 16) = unat p + 16" using assms(3) by (simp add: unat_word_ariths)
  then show ?thesis using assms by (simp add: read_tag_def dma_source_def ram_defs word_less_nat_alt)
qed

theorem dma_vif1_chain_witness:
  "map_option vif (writeIORegister demo_env VIF1_CHANNEL 0x104 (demo_dma demo_vif))
     = Option.bind (processVIF1Data demo_env (replicate 8 0 @ bytes_of_word 4 (0x02000004 :: u32) @ replicate 20 0) demo_vif)
         (drain_arbiter demo_env)"
proof -
  let ?m = "demo_dma demo_vif" and ?ls = "[(0x100, 0x110, 1), (0x120, 0x130, 0)]"
  have scr: "\<not> isScratchpad 0x100" "\<not> isScratchpad 0x110" "\<not> isScratchpad 0x120"
    and tr: "translateAddress [] 0x100 = Some 0x100" "translateAddress [] 0x110 = Some 0x110" "translateAddress [] 0x120 = Some 0x120"
    and ram: "word_of_bytes (copy_out demo_ram 256 8) = (0x10000001 :: u64)" "word_of_bytes (copy_out demo_ram 288 8) = (0x70000000 :: u64)"
      "copy_out demo_ram 264 8 = replicate 8 0" "copy_out demo_ram 296 8 = replicate 8 0"
      "copy_out demo_ram 272 16 = bytes_of_word 4 (0x02000004 :: u32) @ replicate 12 0"
    by code_simp+
  have mem: "dm_rdram ?m = demo_ram" "dm_tlb ?m = []" by (simp_all add: demo_dma_def)
  have tags: "read_tag ?m 0x100 = Some (Some 0x10000001)" "read_tag ?m 0x120 = Some (Some 0x70000000)"
    using read_tag_ram [of ?m "0x100"] read_tag_ram [of ?m "0x120"] tr scr ram(1,2) mem by simp_all
  have ids: "tag_id 0x10000001 = 1" "tag_qwc 0x10000001 = 1" "tag_id 0x70000000 = 7" "tag_qwc 0x70000000 = 0"
    by code_simp+
  have "dma_chain ?m 0x120 [] [(0x120, 0x130, 0)]" using chain_end [OF tags(2) ids(3), of "[]"] ids(4) by simp
  then have "dma_chain ?m 0x100 [] ?ls" using chain_cnt [OF tags(1) ids(1), of "[]" "[(0x120, 0x130, 0)]"] ids(2) by simp
  then have "dma_chain ?m (io ?m (VIF1_CHANNEL + 0x30)) [] ?ls" by (simp add: io_def demo_dma_def channel_defs)
  moreover have "\<forall>l \<in> set ?ls. link_ok ?m True l" by code_simp
  moreover have "chain_stream ?m True ?ls = replicate 8 0 @ bytes_of_word 4 (0x02000004 :: u32) @ replicate 20 0"
  proof -
    have "segment ?m 0x110 1 = bytes_of_word 4 (0x02000004 :: u32) @ replicate 12 0"
      "tag_data ?m 0x100 = replicate 8 0" "tag_data ?m 0x120 = replicate 8 0"
      using scr tr ram mem cyclic_inside [of 272 16 "unat PS2_RAM_SIZE" demo_ram]
      by (simp_all add: segment_def tag_data_def dma_source_def phys_def ram_defs)
    moreover have "replicate 20 0 = replicate 12 0 @ replicate 8 (0 :: u8)" by (simp add: replicate_add [symmetric])
    ultimately show ?thesis by (simp add: chain_stream_def link_data_def)
  qed
  moreover have "vif ?m = demo_vif" "dmacEnabled ?m" "has_gsVRAM ?m" "m_pendingGifTransfers ?m = []"
    "m_pendingVif0Transfers ?m = []" "m_pendingVif1Transfers ?m = []"
    by (simp_all add: demo_dma_def dmacEnabled_def channel_defs)
  moreover have "bit (0x104 :: u32) 8" "drop_bit 2 (0x104 :: u32) AND 3 = 1" "\<not> bit (0x104 :: u32) 7" "drop_bit 4 (0x104 :: u32) AND 3 = 0"
    by code_simp+
  ultimately show ?thesis using dma_vif1_chain [of ?m "0x104" ?ls demo_env] by simp
qed

section \<open>A GIF transfer\<close>

lemma chunks_inside:
  assumes "unat src + unat b \<le> unat maxSz" "0 < b" "least \<le> b"
  shows "chunks least maxSz src b = Some [(src, b)]"
proof -
  have lt: "src < maxSz" using assms(1,2) by (simp add: word_less_nat_alt)
  have "unat maxSz < 2 ^ 32" by (rule order_less_le_trans [OF unsigned_less]) simp
  then have "unat (src + b) = unat src + unat b" using assms(1) by (simp add: unat_word_ariths)
  then have "next_chunk maxSz src b = (src, b)"
    using lt assms(1) by (simp add: next_chunk_def word_less_nat_alt word_le_nat_alt)
  moreover have "chunks least maxSz (src + b) 0 = Some []" by (simp add: chunks.simps)
  moreover have "b \<noteq> 0" "\<not> b < least" using assms(2,3) by auto
  ultimately show ?thesis using assms by (subst chunks.simps) simp
qed

lemma drain_one: "p \<noteq> [] \<Longrightarrow> drain f (submit path p hl []) s
    = (if length p < 16 then Some ([], s) else map_option (Pair []) (f p s))"
  by (auto simp: drain_def submit_def stable_sort_def split: option.splits)

text \<open>
  C40 (A GIF transfer reaches the GS): starting the GIF channel in normal mode with the arbiter idle
  and \<open>PATH3\<close> not masked runs \<open>processGIFPacket\<close> of the GS on exactly the quadwords that \<open>MADR\<close> and
  \<open>QWC\<close> name, changes nothing else behind the VIF, and leaves the channel finished.
\<close>

theorem dma_gif_transfer:
  fixes m :: "GS dma_mem"
  assumes env: "m_processFn env = processGIFPacket draw"
    and on: "dmacEnabled m" "has_gsVRAM m"
    and idle: "m_pendingGifTransfers m = []" "m_pendingVif0Transfers m = []" "m_pendingVif1Transfers m = []"
    and path: "m_gifArbiter (vif m) = Some []" "\<not> m_path3Masked (vif m)" "m_path3MaskedFifo (vif m) = []"
    and start: "bit chcr 8" "drop_bit 2 chcr AND 3 = 0"
    and src: "translateAddress (dm_tlb m) (io m (GIF_CHANNEL + 0x10)) = Some src" "\<not> isScratchpad (io m (GIF_CHANNEL + 0x10))"
    and qwc: "0 < io m (GIF_CHANNEL + 0x20)" "unat src + unat (io m (GIF_CHANNEL + 0x20)) * 16 \<le> unat PS2_RAM_SIZE"
  shows "map_option vif (writeIORegister env GIF_CHANNEL chcr m)
      = map_option (\<lambda>g. (vif m)\<lparr>gif_state := g\<rparr>)
          (processGIFPacket draw (copy_out (dm_rdram m) (unat src) (unat (io m (GIF_CHANNEL + 0x20)) * 16)) (gif_state (vif m)))
    \<and> (\<forall>m'. writeIORegister env GIF_CHANNEL chcr m = Some m' \<longrightarrow> channel_done 2 GIF_CHANNEL m m')"
proof -
  let ?m = "set_io GIF_CHANNEL chcr m" and ?q = "io m (GIF_CHANNEL + 0x20)" and ?a = "io m (GIF_CHANNEL + 0x10)"
  let ?p = "copy_out (dm_rdram m) (unat src) (unat ?q * 16)"
  define pt where "pt = \<lparr>fromScratchpad = False, srcAddr = ?a, pt_qwc = ?q, chainData = []\<rparr>"
  define m2 where "m2 = enqueue GIF_CHANNEL pt ?m"
  have q: "unat ?q * 16 \<le> 33554432" "0 < unat ?q" using qwc by (simp_all add: ram_defs unat_gt_0)
  have len: "length ?p \<ge> 16" "?p \<noteq> []" using q(2) by (simp_all add: copy_out_def)
  have bytes: "unat (dma_bytes ?q) = unat ?q * 16" using q(1) by (simp add: dma_bytes_def unat_word_ariths)
  have cs: "chunks 16 PS2_RAM_SIZE src (dma_bytes ?q) = Some [(src, dma_bytes ?q)]"
    using chunks_inside [of src "dma_bytes ?q" PS2_RAM_SIZE 16] bytes qwc(2) q(2)
    by (simp add: word_le_nat_alt word_less_nat_alt)
  have "writeIORegister env GIF_CHANNEL chcr m = start_channel env GIF_CHANNEL chcr ?m"
    using start(1) on(1) by (simp add: writeIORegister_def channel_defs dmacEnabled_def set_io_def Let_def)
  also have "\<dots> = processPendingTransfers env m2"
    using on(2) start(2) path(1) qwc(1) src(2) by (auto simp: start_channel_def channel_defs Let_def enqueueTransfer_def pt_def m2_def)
  finally have w: "writeIORegister env GIF_CHANNEL chcr m = processPendingTransfers env m2" .
  have m2: "m_pendingGifTransfers m2 = [pt]" "m_pendingVif0Transfers m2 = []" "m_pendingVif1Transfers m2 = []" "vif m2 = vif m"
      "dm_rdram m2 = dm_rdram m" "dm_tlb m2 = dm_tlb m" "m_completedDmacCauses m2 = m_completedDmacCauses m"
    using idle by (simp_all add: m2_def enqueue_def)
  define v1 where "v1 = (vif m)\<lparr>m_gifArbiter := Some (submit Path3 ?p False [])\<rparr>"
  have "gif_consume env ?p (vif m) = Some v1"
    using len path by (simp add: gif_consume_def submitGifPacket_def flushMaskedPath3Packets_def emit_packet_def v1_def)
  then have run: "run_transfer 16 (gif_consume env) pt m2 = Some (m2\<lparr>vif := v1\<rparr>)"
    using src(1) qwc(1) cs m2(4-6) bytes
    by (simp add: run_transfer_def pt_def dma_source_def chunk_data_def on_vif_def)
  have drained: "drain_arbiter env v1 = map_option (\<lambda>g. (vif m)\<lparr>gif_state := g\<rparr>) (processGIFPacket draw ?p (gif_state (vif m)))"
  proof -
    have "(vif m)\<lparr>m_gifArbiter := Some [], gif_state := g\<rparr> = (vif m)\<lparr>gif_state := g\<rparr>" for g
      using path(1) by (cases "vif m") simp
    then show ?thesis using len by (simp add: drain_arbiter_def v1_def env drain_one option.map_comp comp_def)
  qed
  have p: "processPendingTransfers env m2 = map_option (\<lambda>v. finish_channel 2 GIF_CHANNEL (m2\<lparr>vif := v, m_pendingGifTransfers := []\<rparr>))
      (drain_arbiter env v1)"
    using run m2(1-3) by (cases m2) (auto simp: processPendingTransfers_def on_vif_def Let_def option.map_comp comp_def)
  have "channel_done 2 GIF_CHANNEL m (finish_channel 2 GIF_CHANNEL (m2\<lparr>vif := v, m_pendingGifTransfers := []\<rparr>))" for v
    using finish_channel_done(1) [of 2 GIF_CHANNEL "m2\<lparr>vif := v, m_pendingGifTransfers := []\<rparr>"] m2(7)
    by (simp add: channel_done_def)
  moreover have "vif (finish_channel 2 GIF_CHANNEL (m2\<lparr>vif := v, m_pendingGifTransfers := []\<rparr>)) = v" for v
    by (subst finish_channel_done(2)) simp_all
  ultimately show ?thesis by (auto simp: w p drained option.map_comp comp_def)
qed

definition gs_vif :: "GS vif_mem" where
  "gs_vif = \<lparr>vif0_regs = VIFRegisters_zero, vif1_regs = VIFRegisters_zero, m_vu0Code = None, m_vu0Data = None,
     m_vu1Code = None, m_vu1Data = None, m_vu1CodeGeneration = 0, m_path3Masked = False, m_path3MaskedFifo = [],
     m_vif1PendingPath2ImageQwc = 0, m_vif1PendingPath2DirectHl = False, m_gifArbiter = Some [], gif_state = small_gs\<rparr>"

definition gs_env :: "GS vif_env" where
  "gs_env = \<lparr>m_processFn = processGIFPacket Some, m_gifPacketCallback = None, m_vu1MscalCallback = None, m_vu1MscntCallback = None\<rparr>"

theorem dma_gif_transfer_witness:
  "map_option vif (writeIORegister gs_env GIF_CHANNEL 0x100 (demo_dma gs_vif))
     = map_option (\<lambda>g. gs_vif\<lparr>gif_state := g\<rparr>)
         (processGIFPacket Some (bytes_of_word 4 (0x02000004 :: u32) @ replicate 12 0) small_gs)"
proof -
  let ?m = "demo_dma gs_vif"
  have m: "vif ?m = gs_vif" "dmacEnabled ?m" "has_gsVRAM ?m" "m_pendingGifTransfers ?m = []" "dm_tlb ?m = []"
    "m_pendingVif0Transfers ?m = []" "m_pendingVif1Transfers ?m = []" "dm_rdram ?m = demo_ram"
    "io ?m (GIF_CHANNEL + 0x10) = 0x110" "io ?m (GIF_CHANNEL + 0x20) = 1"
    by (simp_all add: demo_dma_def dmacEnabled_def channel_defs io_def)
  have "translateAddress [] 0x110 = Some 0x110" "\<not> isScratchpad 0x110" "bit (0x100 :: u32) 8" "drop_bit 2 (0x100 :: u32) AND 3 = 0"
    "copy_out demo_ram 272 16 = bytes_of_word 4 (0x02000004 :: u32) @ replicate 12 0"
    by code_simp+
  then show ?thesis
    using dma_gif_transfer [of gs_env Some ?m "0x100" "0x110"] m by (simp add: gs_env_def gs_vif_def ram_defs)
qed

text \<open>A chain that gathers nothing, such as a single \<open>END\<close> tag without data on the GIF channel, never finishes.\<close>

lemma empty_chain_never_finishes:
  assumes on: "dmacEnabled m" "has_gsVRAM m" "m_gifArbiter (vif m) = Some []"
    and idle: "m_pendingGifTransfers m = []" "m_pendingVif0Transfers m = []" "m_pendingVif1Transfers m = []"
    and start: "bit chcr 8" "drop_bit 2 chcr AND 3 = 1"
    and tag: "read_tag m (io m (GIF_CHANNEL + 0x30)) = Some (Some tag)" "tag_id tag = 7" "tag_qwc tag = 0"
  shows "\<exists>m'. writeIORegister env GIF_CHANNEL chcr m = Some m' \<and> bit (io m' GIF_CHANNEL) 8
    \<and> m_completedDmacCauses m' = m_completedDmacCauses m"
proof -
  let ?m = "set_io GIF_CHANNEL chcr m"
  define st where "st = \<lparr>tagAddr = io ?m (GIF_CHANNEL + 0x30), ch_asr0 = io ?m (GIF_CHANNEL + 0x40),
    ch_asr1 = io ?m (GIF_CHANNEL + 0x50), ch_asp = drop_bit 4 chcr AND 3, lastTagUpper = drop_bit 16 chcr AND 0xFFFF, chainBuf = []\<rparr>"
  define st1 where "st1 = st\<lparr>lastTagUpper := ucast (drop_bit 16 tag) AND 0xFFFF\<rparr>"
  define m2 where "m2 = set_io GIF_CHANNEL ((((chcr AND NOT 0x30) OR push_bit 4 (ch_asp st1 AND 3)) AND 0xFFFF) OR push_bit 16 (lastTagUpper st1))
    (set_io (GIF_CHANNEL + 0x50) (ch_asr1 st1) (set_io (GIF_CHANNEL + 0x40) (ch_asr0 st1) (set_io (GIF_CHANNEL + 0x30) (tagAddr st1) ?m)))"
  have "read_tag ?m (tagAddr st) = Some (Some tag)" using tag(1) by (simp add: st_def channel_defs)
  then have "chain_step ?m False tie st = Some (False, st1)" for tie
    using tag(2,3) by (simp add: chain_step_def tag_move_def tag_id_def tag_qwc_def Let_def st1_def st_def)
  have walk: "chain_walk kMaxChainTags ?m (GIF_CHANNEL = VIF1_CHANNEL \<or> GIF_CHANNEL = VIF0_CHANNEL) (bit chcr 7) st = Some st1"
  proof -
    have k: "kMaxChainTags = Suc 4095" by (simp add: kMaxChainTags_def)
    have gif: "(GIF_CHANNEL = VIF1_CHANNEL \<or> GIF_CHANNEL = VIF0_CHANNEL) = False" by (simp add: channel_defs)
    show ?thesis
      unfolding k gif chain_walk.simps \<open>\<And>tie. chain_step ?m False tie st = Some (False, st1)\<close> by simp
  qed
  have "chainBuf st1 = []" by (simp add: st1_def st_def)
  then have "start_chain GIF_CHANNEL chcr ?m = Some m2"
    using start_chain_def [of GIF_CHANNEL chcr ?m, folded st_def, unfolded walk option.map Let_def] by (simp add: m2_def)
  then have "writeIORegister env GIF_CHANNEL chcr m = processPendingTransfers env m2"
    using start on by (simp add: writeIORegister_def start_channel_def channel_defs dmacEnabled_def set_io_def Let_def)
  also have "\<dots> = Some m2"
  proof -
    have "m_pendingGifTransfers m2 = []" "m_pendingVif0Transfers m2 = []" "m_pendingVif1Transfers m2 = []"
        "m_gifArbiter (vif m2) = Some []" using idle on(3) by (simp_all add: m2_def)
    then show ?thesis
      by (cases m2; cases "vif m2") (simp add: processPendingTransfers_def on_vif_def drain_arbiter_def drain_def stable_sort_def)
  qed
  finally have w: "writeIORegister env GIF_CHANNEL chcr m = Some m2" .
  have "\<not> bit (0x30 :: u32) 8" "bit (0xFFFF :: u32) 8" by (simp_all add: bit_numeral_rec)
  then have "bit (io m2 GIF_CHANNEL) 8" using start(1) by (simp add: m2_def bit_simps)
  then show ?thesis using w by (simp add: m2_def)
qed

end
