(* ===== verification/EEContext.thy ===== *)
theory EEContext
  imports Prelude
begin

text \<open>
  The part of \<open>R5900Context\<close> (\<open>ps2_runtime.h\<close>) that the scheduler and the kernel
  syscalls read and write: the 128-bit general registers, the program counter and the COP0
  Status register, with the accessors through which syscalls take their arguments from
  \<open>$a0..$a3\<close> and return in \<open>$v0\<close>.
\<close>

record r5900 =
  ctx_r :: "nat \<Rightarrow> u128"
  ctx_pc :: u32
  cop0_status :: u32

text \<open>The constructor clears every register; Status starts as 0.\<close>

definition R5900Context_init :: r5900 where
  "R5900Context_init = \<lparr>ctx_r = (\<lambda>_. 0), ctx_pc = 0, cop0_status = 0\<rparr>"

definition getRegU32 :: "r5900 \<Rightarrow> int \<Rightarrow> u32" where
  "getRegU32 ctx reg =
     (if reg < 0 \<or> reg > 31 then 0 else if reg = 0 then 0 else ucast (ctx_r ctx (nat reg)))"

definition setReturnS32 :: "r5900 \<Rightarrow> int \<Rightarrow> r5900" where
  "setReturnS32 ctx v = ctx\<lparr>ctx_r := (ctx_r ctx)(2 := ucast (word_of_int v :: u64))\<rparr>"

text \<open>
  \<open>SET_GPR_U32\<close> sign-extends the 32-bit value to 64 bits and writes the low half of the
  register; the upper 64 bits are kept. Register 0 is never written.
\<close>

definition Ps2SetGprLow64 :: "r5900 \<Rightarrow> nat \<Rightarrow> u64 \<Rightarrow> r5900" where
  "Ps2SetGprLow64 ctx reg new_low =
     (if reg \<noteq> 0 then
        ctx\<lparr>ctx_r := (ctx_r ctx)(reg := push_bit 64 (drop_bit 64 (ctx_r ctx reg)) OR ucast new_low)\<rparr>
      else ctx)"

definition SET_GPR_U32 :: "r5900 \<Rightarrow> nat \<Rightarrow> u32 \<Rightarrow> r5900" where
  "SET_GPR_U32 ctx reg v = (if reg \<noteq> 0 then Ps2SetGprLow64 ctx reg (scast v) else ctx)"

definition setRegU32 :: "r5900 \<Rightarrow> int \<Rightarrow> u32 \<Rightarrow> r5900" where
  "setRegU32 ctx reg v = (if reg < 0 \<or> reg > 31 then ctx else SET_GPR_U32 ctx (nat reg) v)"

section \<open>Register laws\<close>

lemma ucast_scast_low: "ucast (scast (v :: u32) :: u64) = v"
  by (rule bit_word_eqI) (auto simp: bit_ucast_iff bit_signed_iff)

lemma getRegU32_setRegU32_same:
  "0 < reg \<Longrightarrow> reg \<le> 31 \<Longrightarrow> getRegU32 (setRegU32 ctx reg v) reg = v"
  unfolding getRegU32_def setRegU32_def SET_GPR_U32_def Ps2SetGprLow64_def
  by (auto simp: bit_simps intro!: bit_word_eqI)

lemma getRegU32_setRegU32_other:
  "reg \<noteq> reg' \<Longrightarrow> getRegU32 (setRegU32 ctx reg v) reg' = getRegU32 ctx reg'"
  by (auto simp: getRegU32_def setRegU32_def SET_GPR_U32_def Ps2SetGprLow64_def)

lemma getRegU32_setReturnS32_v0: "getRegU32 (setReturnS32 ctx v) 2 = word_of_int v"
  unfolding getRegU32_def setReturnS32_def
  by (auto intro!: bit_word_eqI simp: bit_simps)

lemma getRegU32_setReturnS32_other:
  "reg \<noteq> 2 \<Longrightarrow> getRegU32 (setReturnS32 ctx v) reg = getRegU32 ctx reg"
  by (auto simp: getRegU32_def setReturnS32_def)

lemma setReturnS32_pc [simp]: "ctx_pc (setReturnS32 ctx v) = ctx_pc ctx"
  by (simp add: setReturnS32_def)

text \<open>The value a caller sees in \<open>$v0\<close> is the \<open>int\<close> the syscall returned.\<close>

lemma setReturnS32_result:
  "- (2 ^ 31) \<le> v \<Longrightarrow> v < 2 ^ 31 \<Longrightarrow> to_int (getRegU32 (setReturnS32 ctx v) 2) = v"
  using to_int_of_int32 [of v] by (simp add: getRegU32_setReturnS32_v0 of_int32_def)

end
