(* ===== verification/RunQueue.thy ===== *)
theory RunQueue
  imports EEContext
begin

text \<open>
  The intrusive run queue of \<open>ps2_scheduler_internal.h\<close>: \<open>FiberContext\<close> objects linked
  through their \<open>next\<close> field from \<open>g_run_queue\<close>, with the walks over \<open>FiberContext**\<close>
  written as recursion over slots. An address that is not in the heap, or a walk that never
  ends, is the result \<open>None\<close>. The locale \<open>ready_queue\<close> states what the scheduler needs from a
  queue; the pointer implementation is shown to satisfy it.
\<close>

section \<open>Fibers\<close>

type_synonym ptr = nat

datatype fstate = Fresh | Ready | Running | Blocked | Exiting | Finished

text \<open>
  \<open>FiberContext\<close> without its \<open>next\<close> pointer; \<open>rt\<close>, \<open>rdram\<close>, the fiber handle and the
  diagnostic rings are not read by any scheduling decision and are left out.
\<close>

record fiber =
  fc_tid :: int
  fc_priority :: int
  fc_generation :: u32
  fc_cpu :: r5900
  fc_state :: fstate
  in_run_queue :: bool
  wake_pending :: bool
  terminateRequested :: bool
  fc_suspendCount :: int
  joinFloorActive :: bool
  joinSavedPriority :: int

record node = fiber +
  fc_next :: "ptr option"

record rq_mem =
  rq_heap :: "ptr \<rightharpoonup> node"
  rq_head :: "ptr option"

section \<open>Slots and the pointer operations\<close>

text \<open>A \<open>FiberContext**\<close> points at \<open>g_run_queue\<close> or at the \<open>next\<close> field of a fiber.\<close>

datatype slot = QHead | QNext ptr

fun load_slot :: "rq_mem \<Rightarrow> slot \<Rightarrow> ptr option option" where
  "load_slot m QHead = Some (rq_head m)"
| "load_slot m (QNext p) = map_option fc_next (rq_heap m p)"

fun store_slot :: "rq_mem \<Rightarrow> slot \<Rightarrow> ptr option \<Rightarrow> rq_mem" where
  "store_slot m QHead v = m\<lparr>rq_head := v\<rparr>"
| "store_slot m (QNext p) v =
     m\<lparr>rq_heap := (rq_heap m)(p := map_option (fc_next_update (\<lambda>_. v)) (rq_heap m p))\<rparr>"

definition upd_node :: "ptr \<Rightarrow> (node \<Rightarrow> node) \<Rightarrow> rq_mem \<Rightarrow> rq_mem" where
  "upd_node p f m = m\<lparr>rq_heap := (rq_heap m)(p := map_option f (rq_heap m p))\<rparr>"

text \<open>
  The walks \<open>while (*pp && cond(*pp)) pp = &(*pp)->next\<close>. The condition of a queue node may
  have to read the node, so it is itself partial.
\<close>

partial_function (option) slot_walk :: "(ptr \<Rightarrow> bool option) \<Rightarrow> rq_mem \<Rightarrow> slot \<Rightarrow> slot option" where
  "slot_walk c m pp =
     Option.bind (load_slot m pp) (\<lambda>cur. case cur of
        None \<Rightarrow> Some pp
      | Some p \<Rightarrow> Option.bind (c p) (\<lambda>go. if go then slot_walk c m (QNext p) else Some pp))"

definition enq_walk :: "rq_mem \<Rightarrow> int \<Rightarrow> slot \<Rightarrow> slot option" where
  "enq_walk m prio = slot_walk (\<lambda>p. map_option (\<lambda>f. fc_priority f \<le> prio) (rq_heap m p)) m"

definition enqueue_ptr :: "ptr \<Rightarrow> rq_mem \<Rightarrow> rq_mem option" where
  "enqueue_ptr p m =
     Option.bind (rq_heap m p) (\<lambda>f.
       if in_run_queue f then Some m
       else let m1 = upd_node p (\<lambda>f. f\<lparr>in_run_queue := True, fc_state := Ready\<rparr>) m in
         Option.bind (enq_walk m1 (fc_priority f) QHead) (\<lambda>pp.
         Option.bind (load_slot m1 pp) (\<lambda>nx.
           Some (store_slot (store_slot m1 (QNext p) nx) pp (Some p)))))"

definition rem_walk :: "rq_mem \<Rightarrow> ptr \<Rightarrow> slot \<Rightarrow> slot option" where
  "rem_walk m fc = slot_walk (\<lambda>p. Some (p \<noteq> fc)) m"

definition remove_ptr :: "ptr \<Rightarrow> rq_mem \<Rightarrow> rq_mem option" where
  "remove_ptr p m =
     Option.bind (rq_heap m p) (\<lambda>f.
       if \<not> in_run_queue f then Some m
       else Option.bind (rem_walk m p QHead) (\<lambda>pp.
         Option.bind (load_slot m pp) (\<lambda>cur. case cur of
            None \<Rightarrow> Some m
          | Some _ \<Rightarrow>
              let m1 = store_slot m pp (fc_next f);
                  m2 = upd_node p (\<lambda>f. f\<lparr>fc_next := None, in_run_queue := False\<rparr>) m1
              in Some m2)))"

definition pop_head_ptr :: "rq_mem \<Rightarrow> (ptr option \<times> rq_mem) option" where
  "pop_head_ptr m = (case rq_head m of
      None \<Rightarrow> Some (None, m)
    | Some p \<Rightarrow> Option.bind (rq_heap m p) (\<lambda>f.
        Some (Some p, upd_node p (\<lambda>f. f\<lparr>fc_next := None, in_run_queue := False\<rparr>)
                        (m\<lparr>rq_head := fc_next f\<rparr>))))"

text \<open>
  \<open>rotate_ready_queue\<close> (\<open>ps2_scheduler.cpp\<close>): unlink the first node of the priority and
  re-insert it behind the last adjacent node of that priority.
\<close>

definition rot_find :: "rq_mem \<Rightarrow> int \<Rightarrow> slot \<Rightarrow> slot option" where
  "rot_find m prio = slot_walk (\<lambda>p. map_option (\<lambda>f. fc_priority f \<noteq> prio) (rq_heap m p)) m"

definition rot_ins :: "rq_mem \<Rightarrow> int \<Rightarrow> slot \<Rightarrow> slot option" where
  "rot_ins m prio = slot_walk (\<lambda>p. map_option (\<lambda>f. fc_priority f = prio) (rq_heap m p)) m"

definition rotate_ptr :: "int \<Rightarrow> rq_mem \<Rightarrow> rq_mem option" where
  "rotate_ptr prio m =
     Option.bind (rot_find m prio QHead) (\<lambda>pp.
     Option.bind (load_slot m pp) (\<lambda>cur. case cur of
        None \<Rightarrow> Some m
      | Some victim \<Rightarrow> Option.bind (rq_heap m victim) (\<lambda>f.
          let m1 = store_slot m pp (fc_next f);
              m2 = store_slot m1 (QNext victim) None
          in Option.bind (rot_ins m2 prio pp) (\<lambda>ins.
             Option.bind (load_slot m2 ins) (\<lambda>nx.
               Some (store_slot (store_slot m2 (QNext victim) nx) ins (Some victim)))))))"

section \<open>The list a queue represents\<close>

text \<open>\<open>qpath h a ps b\<close>: following \<open>next\<close> from \<open>a\<close> visits exactly \<open>ps\<close> and arrives at \<open>b\<close>.\<close>

fun qpath :: "(ptr \<rightharpoonup> node) \<Rightarrow> ptr option \<Rightarrow> ptr list \<Rightarrow> ptr option \<Rightarrow> bool" where
  "qpath h a [] b \<longleftrightarrow> a = b"
| "qpath h a (p # ps) b \<longleftrightarrow> a = Some p \<and> (\<exists>f. h p = Some f \<and> qpath h (fc_next f) ps b)"

text \<open>
  The representation invariant: the list is acyclic (the pointers are distinct) and the
  \<open>in_run_queue\<close> flag of every fiber says whether it is linked.
\<close>

definition rq_rep :: "rq_mem \<Rightarrow> ptr list \<Rightarrow> bool" where
  "rq_rep m ps \<longleftrightarrow> qpath (rq_heap m) (rq_head m) ps None \<and> distinct ps
     \<and> (\<forall>p f. rq_heap m p = Some f \<longrightarrow> (in_run_queue f \<longleftrightarrow> p \<in> set ps))"

definition rq_prio :: "rq_mem \<Rightarrow> ptr \<Rightarrow> int" where
  "rq_prio m p = (case rq_heap m p of Some f \<Rightarrow> fc_priority f | None \<Rightarrow> 0)"

definition rq_live :: "rq_mem \<Rightarrow> ptr \<Rightarrow> bool" where
  "rq_live m p \<longleftrightarrow> rq_heap m p \<noteq> None"

section \<open>Paths and splices\<close>

definition slot_of :: "ptr list \<Rightarrow> slot" where
  "slot_of as = (if as = [] then QHead else QNext (last as))"

definition hd_opt :: "'a list \<Rightarrow> 'a option" where
  "hd_opt xs = (case xs of [] \<Rightarrow> None | x # _ \<Rightarrow> Some x)"

lemma hd_opt_simps [simp]: "hd_opt [] = None" "hd_opt (x # xs) = Some x"
  by (simp_all add: hd_opt_def)

lemma slot_of_simps [simp]: "slot_of [] = QHead" "slot_of (as @ [p]) = QNext p"
  by (simp_all add: slot_of_def)

lemma qpath_append: "qpath h a (as @ bs) c \<longleftrightarrow> (\<exists>b. qpath h a as b \<and> qpath h b bs c)"
  by (induction as arbitrary: a) auto

lemma qpath_hd: "qpath h a ps None \<Longrightarrow> a = hd_opt ps"
  by (cases ps) auto

lemma qpath_live: "qpath h a ps b \<Longrightarrow> p \<in> set ps \<Longrightarrow> h p \<noteq> None"
  by (induction ps arbitrary: a) auto

text \<open>A path depends only on the \<open>next\<close> fields of its own nodes.\<close>

lemma qpath_cong:
  "(\<And>p. p \<in> set ps \<Longrightarrow> map_option fc_next (h' p) = map_option fc_next (h p))
    \<Longrightarrow> qpath h' a ps b = qpath h a ps b"
proof (induction ps arbitrary: a)
  case (Cons p ps)
  then have "map_option fc_next (h' p) = map_option fc_next (h p)" by simp
  with Cons show ?case by (cases "h p"; cases "h' p") auto
qed simp

lemma load_slot_of:
  assumes "qpath (rq_heap m) (rq_head m) (as @ bs) None"
  shows "load_slot m (slot_of as) = Some (hd_opt bs)"
proof (cases as rule: rev_cases)
  case Nil
  with assms qpath_hd show ?thesis by fastforce
next
  case (snoc cs p)
  with assms show ?thesis by (auto simp: qpath_append dest: qpath_hd)
qed

lemma slot_walk_path:
  assumes "qpath (rq_heap m) (rq_head m) (as @ bs) None"
    and "\<And>p. p \<in> set bs \<Longrightarrow> c p = Some (P p)"
  shows "slot_walk c m (slot_of as) = Some (slot_of (as @ takeWhile P bs))"
  using assms
proof (induction bs arbitrary: as)
  case Nil
  then have "load_slot m (slot_of as) = Some None" using load_slot_of [of m as "[]"] by simp
  then show ?case by (subst slot_walk.simps) simp
next
  case (Cons b bs)
  then have ld: "load_slot m (slot_of as) = Some (Some b)" using load_slot_of [of m as "b # bs"] by simp
  have "slot_walk c m (slot_of (as @ [b])) = Some (slot_of ((as @ [b]) @ takeWhile P bs))"
    using Cons.prems by (intro Cons.IH) auto
  with ld Cons.prems(2) [of b] show ?case by (subst slot_walk.simps) auto
qed

text \<open>
  Linking a node that is not on the list behind the prefix \<open>as\<close>, and unlinking the node
  that follows it.
\<close>

lemma rq_heap_store_slot:
  "rq_heap (store_slot m (QNext q) v) p =
     (if p = q then map_option (fc_next_update (\<lambda>_. v)) (rq_heap m p) else rq_heap m p)"
  "rq_heap (store_slot m QHead v) = rq_heap m"
  "rq_head (store_slot m (QNext q) v) = rq_head m"
  "rq_head (store_slot m QHead v) = v"
  by simp_all

declare store_slot.simps [simp del] rq_heap_store_slot [simp]

lemma qpath_store_slot:
  assumes path: "qpath (rq_heap m) (rq_head m) as b" and dist: "distinct as"
    and tail: "qpath (rq_heap m) v bs None" and disj: "set as \<inter> set bs = {}"
  shows "qpath (rq_heap (store_slot m (slot_of as) v)) (rq_head (store_slot m (slot_of as) v))
           (as @ bs) None"
proof (cases as rule: rev_cases)
  case Nil
  with tail show ?thesis by simp
next
  case (snoc cs p)
  let ?h = "rq_heap (store_slot m (QNext p) v)"
  from snoc dist have "p \<notin> set cs" by auto
  then have cs: "qpath ?h a cs c = qpath (rq_heap m) a cs c" for a c
    by (intro qpath_cong) (auto simp: rq_heap_store_slot)
  from snoc disj have "p \<notin> set bs" by auto
  then have bs: "qpath ?h a bs c = qpath (rq_heap m) a bs c" for a c
    by (intro qpath_cong) (auto simp: rq_heap_store_slot)
  from path snoc obtain f where "qpath (rq_heap m) (rq_head m) cs (Some p)" "rq_heap m p = Some f"
    by (auto simp: qpath_append)
  with cs bs tail snoc show ?thesis by (simp add: qpath_append)
qed

section \<open>What the scheduler needs from a ready queue\<close>

text \<open>Move the first element that satisfies \<open>P\<close> behind the run of such elements after it.\<close>

definition rotate_group :: "('a \<Rightarrow> bool) \<Rightarrow> 'a list \<Rightarrow> 'a list" where
  "rotate_group P xs = takeWhile (\<lambda>x. \<not> P x) xs @
     (case dropWhile (\<lambda>x. \<not> P x) xs of [] \<Rightarrow> [] | v # cs \<Rightarrow> insert_after P v cs)"

lemma rotate_group_simps [simp]:
  "rotate_group P [] = []"
  "\<not> P x \<Longrightarrow> rotate_group P (x # xs) = x # rotate_group P xs"
  "P x \<Longrightarrow> rotate_group P (x # xs) = insert_after P x xs"
  by (simp_all add: rotate_group_def)

lemma set_rotate_group [simp]: "set (rotate_group P xs) = set xs"
  by (induction xs) (case_tac "P a"; auto)+

lemma distinct_rotate_group [simp]: "distinct (rotate_group P xs) = distinct xs"
  by (induction xs) (case_tac "P a"; auto)+

lemma sorted_rotate_group:
  fixes f :: "'a \<Rightarrow> 'b::linorder"
  assumes "sorted (map f xs)"
  shows "sorted (map f (rotate_group (\<lambda>x. f x = k) xs))"
  using assms
proof (induction xs)
  case (Cons x xs)
  show ?case
  proof (cases "f x = k")
    case True
    with Cons.prems have "insert_after (\<lambda>y. f y = k) x xs = insert_after (\<lambda>y. f y \<le> f x) x xs"
      by (intro insert_after_cong) auto
    with True Cons.prems sorted_insert_after [of f xs x] show ?thesis by auto
  qed (use Cons in auto)
qed simp

lemma filter_rotate_group:
  fixes f :: "'a \<Rightarrow> 'b::linorder"
  assumes "sorted (map f xs)"
  shows "filter (\<lambda>x. f x = k) (rotate_group (\<lambda>x. f x = k) xs)
         = rotate1 (filter (\<lambda>x. f x = k) xs)"
  using assms
proof (induction xs)
  case (Cons x xs)
  show ?case
  proof (cases "f x = k")
    case True
    with Cons.prems have "insert_after (\<lambda>y. f y = k) x xs = insert_after (\<lambda>y. f y \<le> f x) x xs"
      by (intro insert_after_cong) auto
    with True Cons.prems filter_insert_after_eq [of f xs x] show ?thesis by auto
  qed (use Cons in auto)
qed simp

lemma filter_rotate_group_other:
  "filter (\<lambda>x. f x \<noteq> k) (rotate_group (\<lambda>x. f x = k) xs) = filter (\<lambda>x. f x \<noteq> k) xs"
proof (induction xs)
  case (Cons x xs)
  show ?case
    by (cases "f x = k") (auto simp: Cons filter_insert_after_other)
qed simp

locale ready_queue =
  fixes rep :: "'s \<Rightarrow> 'p list \<Rightarrow> bool"
    and prio :: "'s \<Rightarrow> 'p \<Rightarrow> int"
    and live :: "'s \<Rightarrow> 'p \<Rightarrow> bool"
    and enq :: "'p \<Rightarrow> 's \<Rightarrow> 's option"
    and rem :: "'p \<Rightarrow> 's \<Rightarrow> 's option"
    and pop :: "'s \<Rightarrow> ('p option \<times> 's) option"
    and rot :: "int \<Rightarrow> 's \<Rightarrow> 's option"
  assumes rep_distinct: "rep s q \<Longrightarrow> distinct q"
    and rep_live: "rep s q \<Longrightarrow> p \<in> set q \<Longrightarrow> live s p"
    and enq_new: "rep s q \<Longrightarrow> live s p \<Longrightarrow> p \<notin> set q \<Longrightarrow>
        \<exists>s'. enq p s = Some s' \<and> rep s' (insert_after (\<lambda>x. prio s x \<le> prio s p) p q)
             \<and> prio s' = prio s \<and> live s' = live s"
    and enq_old: "rep s q \<Longrightarrow> p \<in> set q \<Longrightarrow> enq p s = Some s"
    and rem_in: "rep s q \<Longrightarrow> p \<in> set q \<Longrightarrow>
        \<exists>s'. rem p s = Some s' \<and> rep s' (remove1 p q) \<and> prio s' = prio s \<and> live s' = live s"
    and rem_out: "rep s q \<Longrightarrow> live s p \<Longrightarrow> p \<notin> set q \<Longrightarrow> rem p s = Some s"
    and pop_Nil: "rep s [] \<Longrightarrow> pop s = Some (None, s)"
    and pop_Cons: "rep s (p # q) \<Longrightarrow>
        \<exists>s'. pop s = Some (Some p, s') \<and> rep s' q \<and> prio s' = prio s \<and> live s' = live s"
    and rot_rep: "rep s q \<Longrightarrow>
        \<exists>s'. rot k s = Some s' \<and> rep s' (rotate_group (\<lambda>x. prio s x = k) q)
             \<and> prio s' = prio s \<and> live s' = live s"
begin

definition ordered :: "'s \<Rightarrow> bool" where
  "ordered s \<longleftrightarrow> (\<exists>q. rep s q \<and> sorted (map (prio s) q))"

lemma enq_ordered:
  assumes "ordered s" "live s p"
  shows "\<exists>s'. enq p s = Some s' \<and> ordered s'"
proof -
  from assms obtain q where q: "rep s q" "sorted (map (prio s) q)" by (auto simp: ordered_def)
  show ?thesis
  proof (cases "p \<in> set q")
    case True
    with q enq_old assms show ?thesis by auto
  next
    case False
    from enq_new [OF q(1) assms(2) False] q(2) show ?thesis
      unfolding ordered_def by (metis sorted_insert_after)
  qed
qed

lemma rem_ordered:
  assumes "ordered s" "live s p"
  shows "\<exists>s'. rem p s = Some s' \<and> ordered s'"
proof -
  from assms obtain q where q: "rep s q" "sorted (map (prio s) q)" by (auto simp: ordered_def)
  show ?thesis
  proof (cases "p \<in> set q")
    case True
    from rem_in [OF q(1) True] q(2) show ?thesis
      unfolding ordered_def by (metis sorted_map_remove1)
  next
    case False
    with q rem_out assms show ?thesis by blast
  qed
qed

lemma rot_ordered: "ordered s \<Longrightarrow> \<exists>s'. rot k s = Some s' \<and> ordered s'"
  unfolding ordered_def by (metis rot_rep sorted_rotate_group)

lemma pop_min:
  assumes "rep s q" "sorted (map (prio s) q)" "q \<noteq> []"
  shows "\<exists>p s'. pop s = Some (Some p, s') \<and> ordered s' \<and> p \<in> set q
    \<and> (\<forall>x \<in> set q. prio s p \<le> prio s x)"
proof -
  obtain p r where q: "q = p # r" using assms(3) by (cases q) auto
  from pop_Cons [of s p r] assms(1) q obtain s' where
    s': "pop s = Some (Some p, s')" "rep s' r" "prio s' = prio s" by auto
  with q assms(2) have "ordered s'" by (auto simp: ordered_def)
  with s'(1) q assms(2) show ?thesis by auto
qed

text \<open>
  First in, first out among equals: of two fibers with one priority the one enqueued first
  stays in front of the other, whatever else is queued.
\<close>

lemma enq_enq_fifo:
  assumes "rep s q" "sorted (map (prio s) q)" "live s p" "live s p'"
    and "p \<notin> set q" "p' \<notin> set q" "p \<noteq> p'" "prio s p = prio s p'"
  shows "\<exists>s1 s2 q2. enq p s = Some s1 \<and> enq p' s1 = Some s2 \<and> rep s2 q2
    \<and> filter (\<lambda>x. prio s x = prio s p) q2 = filter (\<lambda>x. prio s x = prio s p) q @ [p, p']"
proof -
  from enq_new [OF assms(1,3,5)] obtain s1 where s1: "enq p s = Some s1"
    "rep s1 (insert_after (\<lambda>x. prio s x \<le> prio s p) p q)" "prio s1 = prio s" "live s1 = live s"
    by blast
  let ?q1 = "insert_after (\<lambda>x. prio s x \<le> prio s p) p q"
  have "live s1 p'" "p' \<notin> set ?q1" using assms s1 by auto
  from enq_new [OF s1(2) this] obtain s2 where s2: "enq p' s1 = Some s2"
    "rep s2 (insert_after (\<lambda>x. prio s x \<le> prio s p') p' ?q1)" using s1 by auto
  have "sorted (map (prio s) ?q1)" using assms(2) by (rule sorted_insert_after)
  from filter_insert_after_eq [OF this, of p'] filter_insert_after_eq [OF assms(2), of p]
  have "filter (\<lambda>x. prio s x = prio s p) (insert_after (\<lambda>x. prio s x \<le> prio s p') p' ?q1)
        = filter (\<lambda>x. prio s x = prio s p) q @ [p, p']" using assms(8) by simp
  with s1 s2 show ?thesis by blast
qed

end

section \<open>The intrusive list is a ready queue\<close>

lemma rq_rep_distinct: "rq_rep m q \<Longrightarrow> distinct q"
  by (simp add: rq_rep_def)

lemma rq_rep_live: "rq_rep m q \<Longrightarrow> p \<in> set q \<Longrightarrow> rq_live m p"
  unfolding rq_rep_def rq_live_def using qpath_live by blast

lemma rq_rep_flag: "rq_rep m q \<Longrightarrow> rq_heap m p = Some f \<Longrightarrow> in_run_queue f \<longleftrightarrow> p \<in> set q"
  by (auto simp: rq_rep_def)

lemma rq_prio_store_slot [simp]: "rq_prio (store_slot m sl v) = rq_prio m"
  by (cases sl) (auto simp: rq_prio_def fun_eq_iff split: option.splits)

lemma rq_live_store_slot [simp]: "rq_live (store_slot m sl v) = rq_live m"
  by (cases sl) (auto simp: rq_live_def fun_eq_iff)

lemma flag_store_slot:
  "map_option in_run_queue (rq_heap (store_slot m sl v) p) = map_option in_run_queue (rq_heap m p)"
  by (cases sl) (auto simp: option.map_comp o_def)

lemma flag_store_slotD:
  "rq_heap (store_slot m sl v) p = Some g \<Longrightarrow> \<exists>f. rq_heap m p = Some f \<and> in_run_queue f = in_run_queue g"
  using flag_store_slot [of m sl v p] by (cases "rq_heap m p") auto

lemma rq_upd_node:
  assumes "\<And>f. fc_priority (g f) = fc_priority f"
  shows "rq_prio (upd_node p g m) = rq_prio m" "rq_live (upd_node p g m) = rq_live m"
    "rq_head (upd_node p g m) = rq_head m"
  using assms
  by (auto simp: upd_node_def rq_prio_def rq_live_def fun_eq_iff split: option.splits)

lemma qpath_upd_node:
  "p \<notin> set ps \<or> (\<forall>f. fc_next (g f) = fc_next f) \<Longrightarrow>
     qpath (rq_heap (upd_node p g m)) a ps b = qpath (rq_heap m) a ps b"
  by (rule qpath_cong) (auto simp: upd_node_def option.map_comp o_def)

text \<open>The walk of \<open>enqueue_locked\<close> stops behind the last node of no lower priority.\<close>

lemma enq_walk_path:
  assumes "qpath (rq_heap m) (rq_head m) q None"
  shows "enq_walk m k QHead = Some (slot_of (takeWhile (\<lambda>x. rq_prio m x \<le> k) q))"
proof -
  have "map_option (\<lambda>f. fc_priority f \<le> k) (rq_heap m p) = Some (rq_prio m p \<le> k)" if "p \<in> set q" for p
    using qpath_live [OF assms that] by (auto simp: rq_prio_def)
  from slot_walk_path [of m "[]" q, OF _ this] assms show ?thesis by (simp add: enq_walk_def)
qed

lemma link_path:
  assumes path: "qpath (rq_heap m) (rq_head m) (as @ bs) None"
    and dist: "distinct (as @ bs)" "p \<notin> set (as @ bs)" and live: "rq_heap m p \<noteq> None"
  defines "m' \<equiv> store_slot (store_slot m (QNext p) (hd_opt bs)) (slot_of as) (Some p)"
  shows "qpath (rq_heap m') (rq_head m') (as @ p # bs) None"
proof -
  let ?m1 = "store_slot m (QNext p) (hd_opt bs)"
  have same: "qpath (rq_heap ?m1) a cs b = qpath (rq_heap m) a cs b" if "p \<notin> set cs" for a cs b
    using that by (intro qpath_cong) (auto simp: rq_heap_store_slot)
  from path obtain b where b: "qpath (rq_heap m) (rq_head m) as b" "qpath (rq_heap m) b bs None"
    by (auto simp: qpath_append)
  then have "qpath (rq_heap m) (hd_opt bs) bs None" using qpath_hd by metis
  then have "qpath (rq_heap ?m1) (Some p) (p # bs) None"
    using live dist by (auto simp: same rq_heap_store_slot)
  moreover have "qpath (rq_heap ?m1) (rq_head ?m1) as b" using b dist by (simp add: same rq_heap_store_slot)
  ultimately show ?thesis unfolding m'_def using dist by (intro qpath_store_slot) auto
qed

lemma enqueue_ptr_new:
  assumes rep: "rq_rep m q" and live: "rq_live m p" and new: "p \<notin> set q"
  shows "\<exists>m'. enqueue_ptr p m = Some m' \<and> rq_rep m' (insert_after (\<lambda>x. rq_prio m x \<le> rq_prio m p) p q)
     \<and> rq_prio m' = rq_prio m \<and> rq_live m' = rq_live m"
proof -
  from live obtain f where f: "rq_heap m p = Some f" by (auto simp: rq_live_def)
  with rep new have nf: "\<not> in_run_queue f" by (auto simp: rq_rep_def)
  let ?m1 = "upd_node p (\<lambda>f. f\<lparr>in_run_queue := True, fc_state := Ready\<rparr>) m"
  let ?P = "\<lambda>x. rq_prio m x \<le> rq_prio m p"
  let ?as = "takeWhile ?P q" and ?bs = "dropWhile ?P q"
  have prio1: "rq_prio ?m1 = rq_prio m" and live1: "rq_live ?m1 = rq_live m" by (simp_all add: rq_upd_node)
  have path1: "qpath (rq_heap ?m1) (rq_head ?m1) (?as @ ?bs) None"
    using rep by (simp add: qpath_upd_node rq_rep_def rq_upd_node)
  have "rq_prio m p = fc_priority f" using f by (simp add: rq_prio_def)
  with enq_walk_path [of ?m1 q "fc_priority f"] path1 have
    w: "enq_walk ?m1 (fc_priority f) QHead = Some (slot_of ?as)" by (simp add: prio1)
  let ?m2 = "store_slot (store_slot ?m1 (QNext p) (hd_opt ?bs)) (slot_of ?as) (Some p)"
  have res: "enqueue_ptr p m = Some ?m2"
    using f nf w load_slot_of [OF path1] by (simp add: enqueue_ptr_def Let_def)
  have "p \<notin> set (?as @ ?bs)" "distinct (?as @ ?bs)" using rep new by (simp_all add: rq_rep_def)
  then have path2: "qpath (rq_heap ?m2) (rq_head ?m2) (insert_after ?P p q) None"
    unfolding insert_after_def using path1 f by (intro link_path) (simp_all add: upd_node_def)
  have flags: "in_run_queue g \<longleftrightarrow> x = p \<or> x \<in> set q" if g: "rq_heap ?m2 x = Some g" for x g
  proof -
    from flag_store_slotD [OF g] obtain f0 where
      "rq_heap (store_slot ?m1 (QNext p) (hd_opt ?bs)) x = Some f0" "in_run_queue f0 = in_run_queue g"
      by blast
    with flag_store_slotD [OF this(1)] obtain f1
      where "rq_heap ?m1 x = Some f1" "in_run_queue f1 = in_run_queue g" by auto
    then show ?thesis using rq_rep_flag [OF rep] f
      by (cases "x = p") (auto simp: upd_node_def)
  qed
  have "rq_rep ?m2 (insert_after ?P p q)"
    unfolding rq_rep_def using path2 flags rq_rep_distinct [OF rep] new by simp
  with res prio1 live1 show ?thesis by (intro exI [of _ ?m2]) auto
qed

lemma enqueue_ptr_old: "rq_rep m q \<Longrightarrow> p \<in> set q \<Longrightarrow> enqueue_ptr p m = Some m"
  using rq_rep_live [of m q p] rq_rep_flag [of m q p]
  by (auto simp: rq_live_def enqueue_ptr_def)

text \<open>Unlinking the node behind the prefix \<open>as\<close>.\<close>

lemma unlink_path:
  assumes path: "qpath (rq_heap m) (rq_head m) (as @ p # bs) None"
    and dist: "distinct (as @ p # bs)" and f: "rq_heap m p = Some f"
  defines "m' \<equiv> store_slot m (slot_of as) (fc_next f)"
  shows "qpath (rq_heap m') (rq_head m') (as @ bs) None" "rq_heap m' p = Some f"
proof -
  from path f have "qpath (rq_heap m) (rq_head m) as (Some p)" "qpath (rq_heap m) (fc_next f) bs None"
    by (auto simp: qpath_append)
  then show "qpath (rq_heap m') (rq_head m') (as @ bs) None"
    unfolding m'_def using dist by (intro qpath_store_slot) auto
  show "rq_heap m' p = Some f"
    unfolding m'_def using f dist by (cases as rule: rev_cases) auto
qed

lemma rem_walk_path:
  assumes "qpath (rq_heap m) (rq_head m) (as @ p # bs) None" "p \<notin> set as"
  shows "rem_walk m p QHead = Some (slot_of as)"
proof -
  have "takeWhile (\<lambda>x. x \<noteq> p) (as @ p # bs) = as" using assms(2) by (induction as) auto
  with slot_walk_path [of m "[]" "as @ p # bs" "\<lambda>x. Some (x \<noteq> p)" "\<lambda>x. x \<noteq> p"] assms(1)
  show ?thesis by (simp add: rem_walk_def)
qed

lemma remove_ptr_in:
  assumes rep: "rq_rep m q" and p: "p \<in> set q"
  shows "\<exists>m'. remove_ptr p m = Some m' \<and> rq_rep m' (remove1 p q) \<and> rq_prio m' = rq_prio m
    \<and> rq_live m' = rq_live m"
proof -
  from p obtain as bs where q: "q = as @ p # bs" and as: "p \<notin> set as"
    by (meson split_list_first)
  from rq_rep_live [OF rep p] obtain f where f: "rq_heap m p = Some f" by (auto simp: rq_live_def)
  with rq_rep_flag [OF rep] p have inq: "in_run_queue f" by simp
  from rep q have path: "qpath (rq_heap m) (rq_head m) (as @ p # bs) None"
    and dist: "distinct (as @ p # bs)" by (simp_all add: rq_rep_def)
  let ?g = "\<lambda>f. f\<lparr>fc_next := None, in_run_queue := False\<rparr>"
  let ?m1 = "store_slot m (slot_of as) (fc_next f)"
  let ?m2 = "upd_node p ?g ?m1"
  have res: "remove_ptr p m = Some ?m2"
    using f inq rem_walk_path [OF path as] load_slot_of [OF path] by (simp add: remove_ptr_def)
  from dist have "p \<notin> set (as @ bs)" by auto
  with unlink_path(1) [OF path dist f]
  have path2: "qpath (rq_heap ?m2) (rq_head ?m2) (as @ bs) None"
    by (simp add: qpath_upd_node rq_upd_node)
  have flags: "in_run_queue g \<longleftrightarrow> x \<in> set (as @ bs)" if g: "rq_heap ?m2 x = Some g" for x g
  proof (cases "x = p")
    case True
    with g dist show ?thesis by (auto simp: upd_node_def)
  next
    case False
    with g have "rq_heap ?m1 x = Some g" by (simp add: upd_node_def)
    from flag_store_slotD [OF this] rq_rep_flag [OF rep] False q show ?thesis by auto
  qed
  have "remove1 p q = as @ bs" using q as by (simp add: remove1_append)
  with path2 flags dist have "rq_rep ?m2 (remove1 p q)" by (simp add: rq_rep_def)
  with res show ?thesis by (intro exI [of _ ?m2]) (simp add: rq_upd_node)
qed

lemma remove_ptr_out: "rq_rep m q \<Longrightarrow> rq_live m p \<Longrightarrow> p \<notin> set q \<Longrightarrow> remove_ptr p m = Some m"
  using rq_rep_flag [of m q p] by (auto simp: rq_live_def remove_ptr_def)

lemma pop_head_ptr_Nil: "rq_rep m [] \<Longrightarrow> pop_head_ptr m = Some (None, m)"
  by (simp add: rq_rep_def pop_head_ptr_def)

text \<open>Popping is removing the head.\<close>

lemma pop_head_ptr_eq_remove:
  assumes rep: "rq_rep m (p # q)"
  shows "pop_head_ptr m = map_option (\<lambda>m'. (Some p, m')) (remove_ptr p m)"
proof -
  from rep have path: "qpath (rq_heap m) (rq_head m) ([] @ p # q) None" by (simp add: rq_rep_def)
  then obtain f where f: "rq_heap m p = Some f" "rq_head m = Some p" by auto
  with rq_rep_flag [OF rep] have "in_run_queue f" by simp
  with f rem_walk_path [OF path] show ?thesis
    by (simp add: pop_head_ptr_def remove_ptr_def store_slot.simps)
qed

lemma pop_head_ptr_Cons:
  assumes "rq_rep m (p # q)"
  shows "\<exists>m'. pop_head_ptr m = Some (Some p, m') \<and> rq_rep m' q \<and> rq_prio m' = rq_prio m
    \<and> rq_live m' = rq_live m"
  using remove_ptr_in [OF assms, of p] pop_head_ptr_eq_remove [OF assms] by auto

lemma prio_walk_path:
  assumes "qpath (rq_heap m) (rq_head m) (as @ bs) None" "rq_prio m = pr"
  shows "rot_find m k (slot_of as) = Some (slot_of (as @ takeWhile (\<lambda>x. pr x \<noteq> k) bs))"
    and "rot_ins m k (slot_of as) = Some (slot_of (as @ takeWhile (\<lambda>x. pr x = k) bs))"
proof -
  have live: "map_option F (rq_heap m x) = Some (F (the (rq_heap m x)))"
    and pr: "pr x = fc_priority (the (rq_heap m x))" if "x \<in> set bs" for x F
    using qpath_live [OF assms(1), of x] that assms(2) by (auto simp: rq_prio_def)
  show "rot_find m k (slot_of as) = Some (slot_of (as @ takeWhile (\<lambda>x. pr x \<noteq> k) bs))"
    unfolding rot_find_def using assms(1) live pr by (intro slot_walk_path) auto
  show "rot_ins m k (slot_of as) = Some (slot_of (as @ takeWhile (\<lambda>x. pr x = k) bs))"
    unfolding rot_ins_def using assms(1) live pr by (intro slot_walk_path) auto
qed

lemma rotate_ptr_none:
  assumes rep: "rq_rep m q" and none: "\<forall>x \<in> set q. rq_prio m x \<noteq> k"
  shows "rotate_ptr k m = Some m"
proof -
  have path: "qpath (rq_heap m) (rq_head m) ([] @ q) None" using rep by (simp add: rq_rep_def)
  have "takeWhile (\<lambda>x. rq_prio m x \<noteq> k) q = q" using none by (simp add: takeWhile_eq_all_conv)
  with prio_walk_path(1) [OF path refl, of k] have "rot_find m k QHead = Some (slot_of q)" by simp
  with load_slot_of [of m q "[]"] path show ?thesis by (simp add: rotate_ptr_def)
qed

lemma rotate_ptr_some:
  assumes rep: "rq_rep m (as @ v # cs)" and as: "\<forall>x \<in> set as. rq_prio m x \<noteq> k" and v: "rq_prio m v = k"
  shows "\<exists>m'. rotate_ptr k m = Some m' \<and> rq_rep m' (as @ insert_after (\<lambda>x. rq_prio m x = k) v cs)
    \<and> rq_prio m' = rq_prio m \<and> rq_live m' = rq_live m"
proof -
  from rep have path: "qpath (rq_heap m) (rq_head m) (as @ v # cs) None"
    and dist: "distinct (as @ v # cs)" by (simp_all add: rq_rep_def)
  from qpath_live [OF path, of v] obtain f where f: "rq_heap m v = Some f" by auto
  let ?P = "\<lambda>x. rq_prio m x = k"
  let ?as = "as @ takeWhile ?P cs" and ?bs = "dropWhile ?P cs"
  have "takeWhile (\<lambda>x. rq_prio m x \<noteq> k) (as @ v # cs) = as" using as v by (simp add: takeWhile_append2)
  with prio_walk_path(1) [of m "[]" "as @ v # cs", OF _ refl, of k] path
  have find: "rot_find m k QHead = Some (slot_of as)" by simp
  let ?m1 = "store_slot m (slot_of as) (fc_next f)"
  let ?m2 = "store_slot ?m1 (QNext v) None"
  have "qpath (rq_heap ?m2) a xs b = qpath (rq_heap ?m1) a xs b" if "v \<notin> set xs" for a xs b
    using that by (intro qpath_cong) auto
  then have path2: "qpath (rq_heap ?m2) (rq_head ?m2) (?as @ ?bs) None"
    using unlink_path(1) [OF path dist f] dist by simp
  have ins: "rot_ins ?m2 k (slot_of as) = Some (slot_of ?as)"
    using prio_walk_path(2) [of ?m2 as cs "rq_prio m" k] path2 by simp
  let ?m3 = "store_slot (store_slot ?m2 (QNext v) (hd_opt ?bs)) (slot_of ?as) (Some v)"
  have res: "rotate_ptr k m = Some ?m3"
    using find ins f load_slot_of [OF path] load_slot_of [OF path2] by (simp add: rotate_ptr_def Let_def)
  have dv: "distinct (?as @ ?bs)" "v \<notin> set (?as @ ?bs)" using dist by simp_all
  have "rq_heap ?m2 v \<noteq> None" using unlink_path(2) [OF path dist f] by simp
  with link_path [OF path2 dv] have path3: "qpath (rq_heap ?m3) (rq_head ?m3) (as @ insert_after ?P v cs) None"
    by (simp add: insert_after_def)
  have flags: "in_run_queue g \<longleftrightarrow> x \<in> set (as @ v # cs)" if g: "rq_heap ?m3 x = Some g" for x g
  proof -
    have "map_option in_run_queue (rq_heap ?m3 x) = map_option in_run_queue (rq_heap m x)"
      by (simp only: flag_store_slot)
    with g rq_rep_flag [OF rep] show ?thesis by (cases "rq_heap m x") auto
  qed
  from path3 flags dist have "rq_rep ?m3 (as @ insert_after ?P v cs)" by (simp add: rq_rep_def)
  with res show ?thesis by (intro exI [of _ ?m3]) simp
qed

lemma rotate_ptr_rep:
  assumes rep: "rq_rep m q"
  shows "\<exists>m'. rotate_ptr k m = Some m' \<and> rq_rep m' (rotate_group (\<lambda>x. rq_prio m x = k) q)
    \<and> rq_prio m' = rq_prio m \<and> rq_live m' = rq_live m"
proof (cases "dropWhile (\<lambda>x. rq_prio m x \<noteq> k) q")
  case Nil
  then have none: "\<forall>x \<in> set q. rq_prio m x \<noteq> k" by simp
  then have "rotate_group (\<lambda>x. rq_prio m x = k) q = q"
    unfolding rotate_group_def Nil list.case append_Nil2 by (simp add: takeWhile_eq_all_conv)
  with rotate_ptr_none [OF rep none] rep show ?thesis by simp
next
  case (Cons v cs)
  let ?as = "takeWhile (\<lambda>x. rq_prio m x \<noteq> k) q"
  have q: "q = ?as @ v # cs" using Cons takeWhile_dropWhile_id by metis
  have v: "rq_prio m v = k" using Cons by (metis (mono_tags) dropWhile_eq_Cons_conv)
  have "\<forall>x \<in> set ?as. rq_prio m x \<noteq> k" by (auto dest: set_takeWhileD)
  from rotate_ptr_some [OF _ this v, of cs] rep q Cons show ?thesis by (simp add: rotate_group_def)
qed

interpretation pq: ready_queue rq_rep rq_prio rq_live enqueue_ptr remove_ptr pop_head_ptr rotate_ptr
  by unfold_locales
    (fact rq_rep_distinct rq_rep_live enqueue_ptr_new enqueue_ptr_old remove_ptr_in remove_ptr_out
       pop_head_ptr_Nil pop_head_ptr_Cons rotate_ptr_rep)+

end
