(* ===== verification/Scheduler.thy ===== *)
theory Scheduler
  imports RunQueue
begin

text \<open>
  The N=1 cooperative scheduler of \<open>ps2_scheduler.cpp\<close>. Every \<open>g_sched_mutex\<close> critical
  section is one function on the scheduler state; the run queue is the list that the intrusive
  queue of theory RunQueue represents. Fibers are named by their address. The calling thread's
  \<open>tls_current_fiber\<close> is the argument \<open>self\<close> of the functions that read it. The ucontext
  backend is modelled: all fibers run on the one executor thread, whose thread-locals are
  fields of the state.
\<close>

section \<open>State\<close>

text \<open>
  \<open>fibers\<close> holds the live \<open>FiberContext\<close> objects. \<open>yielding\<close> is the control point of the
  running fiber: it has entered \<open>ps2fiber_yield\<close> (or its trampoline has ended) and executes
  nothing more until it is resumed. \<open>executor_alive\<close> says whether \<open>guest_executor_main\<close> has
  not yet left its loop.
\<close>

record sched =
  fibers :: "ptr \<rightharpoonup> fiber"
  g_run_queue :: "ptr list"
  g_running_fiber :: "ptr option"
  g_guest_token_held_by_host :: bool
  g_stop :: bool
  g_host_token_waiters :: int
  g_host_token_grants :: u64
  g_fiber_map :: "int \<rightharpoonup> ptr"
  s_nextGeneration :: u32
  executor_alive :: bool
  deferringToWaiters :: bool
  grantsAtDefer :: u64
  tls_current_fiber :: "ptr option"
  g_currentThreadId :: int
  yielding :: bool
  tls_backedge_counter :: u32
  tls_intr_disabled :: bool
  tls_intr_disable_samples :: u32
  g_guest_progress :: u64
  g_guest_resumes :: u64
  g_intr_disable_escapes :: u64
  g_intr_disable_sections :: u64
  g_intr_disable_redundant :: u64
  g_intr_disable_stray :: u64

definition sched0 :: sched where
  "sched0 = \<lparr>fibers = Map.empty, g_run_queue = [], g_running_fiber = None,
     g_guest_token_held_by_host = False, g_stop = False, g_host_token_waiters = 0,
     g_host_token_grants = 0, g_fiber_map = Map.empty, s_nextGeneration = 1,
     executor_alive = False, deferringToWaiters = False, grantsAtDefer = 0,
     tls_current_fiber = None, g_currentThreadId = -1, yielding = False,
     tls_backedge_counter = 0, tls_intr_disabled = False, tls_intr_disable_samples = 0,
     g_guest_progress = 0, g_guest_resumes = 0, g_intr_disable_escapes = 0,
     g_intr_disable_sections = 0, g_intr_disable_redundant = 0, g_intr_disable_stray = 0\<rparr>"

text \<open>
  Field writes through a \<open>FiberContext*\<close>. An address outside \<open>fibers\<close> is a destroyed
  object; the invariant below shows that the scheduler never follows one.
\<close>

definition upd_fiber :: "ptr \<Rightarrow> (fiber \<Rightarrow> fiber) \<Rightarrow> sched \<Rightarrow> sched" where
  "upd_fiber p g s = s\<lparr>fibers := (fibers s)(p := map_option g (fibers s p))\<rparr>"

definition fiber_prio :: "sched \<Rightarrow> ptr \<Rightarrow> int" where
  "fiber_prio s p = (case fibers s p of Some f \<Rightarrow> fc_priority f | None \<Rightarrow> 0)"

definition fiber_for :: "int \<Rightarrow> sched \<Rightarrow> ptr option" where
  "fiber_for tid s = g_fiber_map s tid"

text \<open>\<open>fiber_for\<close> followed by a dereference: what most entry points start with.\<close>

definition with_fiber :: "int \<Rightarrow> (ptr \<Rightarrow> fiber \<Rightarrow> sched \<Rightarrow> sched) \<Rightarrow> sched \<Rightarrow> sched" where
  "with_fiber tid F s = (case fiber_for tid s of
      None \<Rightarrow> s
    | Some p \<Rightarrow> (case fibers s p of None \<Rightarrow> s | Some f \<Rightarrow> F p f s))"

section \<open>Run queue\<close>

definition enqueue_locked :: "ptr \<Rightarrow> sched \<Rightarrow> sched" where
  "enqueue_locked p s = (case fibers s p of
      None \<Rightarrow> s
    | Some f \<Rightarrow> if in_run_queue f then s
        else s\<lparr>fibers := (fibers s)(p \<mapsto> f\<lparr>in_run_queue := True, fc_state := Ready\<rparr>),
               g_run_queue := insert_after (\<lambda>q. fiber_prio s q \<le> fc_priority f) p (g_run_queue s)\<rparr>)"

definition remove_locked :: "ptr \<Rightarrow> sched \<Rightarrow> sched" where
  "remove_locked p s = (case fibers s p of
      None \<Rightarrow> s
    | Some f \<Rightarrow> if \<not> in_run_queue f then s
        else if p \<in> set (g_run_queue s)
        then s\<lparr>fibers := (fibers s)(p \<mapsto> f\<lparr>in_run_queue := False\<rparr>),
               g_run_queue := remove1 p (g_run_queue s)\<rparr>
        else s)"

definition pop_head_locked :: "sched \<Rightarrow> ptr option \<times> sched" where
  "pop_head_locked s = (case g_run_queue s of
      [] \<Rightarrow> (None, s)
    | p # ps \<Rightarrow> (Some p, upd_fiber p (\<lambda>f. f\<lparr>in_run_queue := False\<rparr>) (s\<lparr>g_run_queue := ps\<rparr>)))"

definition rotate_ready_queue :: "int \<Rightarrow> sched \<Rightarrow> sched" where
  "rotate_ready_queue k s =
     s\<lparr>g_run_queue := rotate_group (\<lambda>p. fiber_prio s p = k) (g_run_queue s)\<rparr>"

definition ps2x_guest_idle :: "bool \<Rightarrow> sched \<Rightarrow> int" where
  "ps2x_guest_idle owns_lock s =
     (if \<not> owns_lock then 0
      else if g_run_queue s = [] \<and> g_running_fiber s = None then 1 else 0)"

section \<open>Interrupt-disable gate\<close>

definition ps2x_guest_intr_disable_enter :: "sched \<Rightarrow> sched" where
  "ps2x_guest_intr_disable_enter s =
     (if tls_intr_disabled s then s\<lparr>g_intr_disable_redundant := g_intr_disable_redundant s + 1\<rparr>
      else s\<lparr>tls_intr_disabled := True, tls_intr_disable_samples := 0,
             g_intr_disable_sections := g_intr_disable_sections s + 1\<rparr>)"

definition ps2x_guest_intr_disable_leave :: "sched \<Rightarrow> sched" where
  "ps2x_guest_intr_disable_leave s =
     (if \<not> tls_intr_disabled s then s\<lparr>g_intr_disable_stray := g_intr_disable_stray s + 1\<rparr>
      else s\<lparr>tls_intr_disabled := False, tls_intr_disable_samples := 0\<rparr>)"

definition ps2x_guest_intr_disable_depth :: "sched \<Rightarrow> u32" where
  "ps2x_guest_intr_disable_depth s = (if tls_intr_disabled s then 1 else 0)"

definition kIntrDisableYieldEscape :: u32 where
  "kIntrDisableYieldEscape = 4096"

section \<open>The executor loop\<close>

definition canQuit :: "sched \<Rightarrow> bool" where
  "canQuit s \<longleftrightarrow> g_stop s \<and> g_run_queue s = []"

text \<open>\<open>canRun\<close> keeps the deferral bookkeeping, so it returns the state as well.\<close>

definition canRun :: "sched \<Rightarrow> bool \<times> sched" where
  "canRun s =
     (if g_run_queue s = [] \<or> g_running_fiber s \<noteq> None \<or> g_guest_token_held_by_host s then (False, s)
      else if g_host_token_waiters s = 0 then (True, s\<lparr>deferringToWaiters := False\<rparr>)
      else if \<not> deferringToWaiters s
        then (False, s\<lparr>deferringToWaiters := True, grantsAtDefer := g_host_token_grants s\<rparr>)
      else if g_host_token_grants s \<noteq> grantsAtDefer s
        then (True, s\<lparr>deferringToWaiters := False\<rparr>)
      else (False, s))"

datatype exec_outcome = Slept | Quit | Resumed ptr

text \<open>
  One evaluation of the wait predicate and, when it holds, the code up to
  \<open>ps2fiber_resume\<close>.
\<close>

definition exec_dispatch :: "sched \<Rightarrow> exec_outcome \<times> sched" where
  "exec_dispatch s =
     (if canQuit s then (Quit, s\<lparr>executor_alive := False\<rparr>)
      else let (ok, s1) = canRun s in
        if \<not> ok then (Slept, s1)
        else case pop_head_locked s1 of
            (None, s2) \<Rightarrow> (Slept, s2)
          | (Some p, s2) \<Rightarrow>
              (Resumed p, (upd_fiber p (\<lambda>f. f\<lparr>fc_state := Running\<rparr>) s2)
                 \<lparr>g_running_fiber := Some p, tls_current_fiber := Some p,
                  g_currentThreadId := (case fibers s2 p of Some f \<Rightarrow> fc_tid f | None \<Rightarrow> 0),
                  yielding := False\<rparr>))"

text \<open>What the executor does with the fiber that has yielded back.\<close>

definition exec_post_fiber :: "ptr \<Rightarrow> fiber \<Rightarrow> sched \<Rightarrow> sched" where
  "exec_post_fiber p f s =
     (if fc_state f = Running \<or> fc_state f = Exiting then enqueue_locked p s
      else if fc_state f = Blocked then
        (if wake_pending f \<and> fc_suspendCount f = 0
         then enqueue_locked p (upd_fiber p (\<lambda>f. f\<lparr>wake_pending := False\<rparr>) s)
         else s)
      else if fc_state f = Finished then
        (case g_fiber_map s (fc_tid f) of
            Some d \<Rightarrow> s\<lparr>fibers := (fibers s)(d := None), g_fiber_map := (g_fiber_map s)(fc_tid f := None)\<rparr>
          | None \<Rightarrow> s)
      else s)"

definition exec_post :: "sched \<Rightarrow> sched" where
  "exec_post s = (case g_running_fiber s of
      None \<Rightarrow> s
    | Some p \<Rightarrow>
        let s1 = s\<lparr>g_guest_resumes := g_guest_resumes s + 1, tls_current_fiber := None,
                   g_currentThreadId := -1, g_running_fiber := None, yielding := False\<rparr>
        in case fibers s1 p of None \<Rightarrow> s1 | Some f \<Rightarrow> exec_post_fiber p f s1)"

definition fiber_mark_exiting :: "ptr \<Rightarrow> sched \<Rightarrow> sched" where
  "fiber_mark_exiting p s = upd_fiber p (\<lambda>f. f\<lparr>fc_state := Exiting\<rparr>) s"

definition fiber_mark_finished :: "ptr \<Rightarrow> sched \<Rightarrow> sched" where
  "fiber_mark_finished p s = upd_fiber p (\<lambda>f. f\<lparr>fc_state := Finished\<rparr>) s"

definition ps2fiber_yield :: "sched \<Rightarrow> sched" where
  "ps2fiber_yield s = s\<lparr>yielding := True\<rparr>"

section \<open>Wakeups, termination and suspension\<close>

definition wake_locked :: "ptr \<Rightarrow> sched \<Rightarrow> sched" where
  "wake_locked p s = (case fibers s p of
      None \<Rightarrow> s
    | Some f \<Rightarrow>
        if in_run_queue f then s
        else if g_running_fiber s = Some p then upd_fiber p (\<lambda>f. f\<lparr>wake_pending := True\<rparr>) s
        else enqueue_locked p s)"

definition make_ready :: "int \<Rightarrow> sched \<Rightarrow> sched" where
  "make_ready tid = with_fiber tid (\<lambda>p f s. if fc_suspendCount f = 0 then wake_locked p s else s)"

definition make_fiber_token :: "fiber \<Rightarrow> u64" where
  "make_fiber_token f = push_bit 32 (ucast (fc_generation f)) OR ucast (of_int32 (fc_tid f))"

definition current_fiber_token :: "ptr option \<Rightarrow> sched \<Rightarrow> u64" where
  "current_fiber_token self s =
     (case Option.bind self (fibers s) of Some f \<Rightarrow> make_fiber_token f | None \<Rightarrow> 0)"

definition enqueue_external_wakeup_validated :: "int \<Rightarrow> u64 \<Rightarrow> sched \<Rightarrow> sched" where
  "enqueue_external_wakeup_validated tid token = with_fiber tid (\<lambda>p f s.
     if token \<noteq> 0 \<and> make_fiber_token f = token \<and> fc_suspendCount f = 0 then wake_locked p s else s)"

definition request_terminate :: "int \<Rightarrow> sched \<Rightarrow> sched" where
  "request_terminate tid = with_fiber tid (\<lambda>p f s.
     wake_locked p (upd_fiber p (\<lambda>f. f\<lparr>terminateRequested := True, fc_suspendCount := 0\<rparr>) s))"

definition clear_suspend :: "int \<Rightarrow> sched \<Rightarrow> sched" where
  "clear_suspend tid = with_fiber tid (\<lambda>p f s.
     wake_locked p (upd_fiber p (\<lambda>f. f\<lparr>fc_suspendCount := 0\<rparr>) s))"

definition suspend_other :: "int \<Rightarrow> sched \<Rightarrow> sched" where
  "suspend_other tid = with_fiber tid (\<lambda>p f s.
     let s1 = upd_fiber p (\<lambda>f. f\<lparr>fc_suspendCount := fc_suspendCount f + 1\<rparr>) s in
     if fc_state f = Ready
     then upd_fiber p (\<lambda>f. f\<lparr>fc_state := Blocked\<rparr>) (remove_locked p s1)
     else s1)"

text \<open>The unlocked increment with which \<open>suspend_self\<close> starts.\<close>

definition suspend_self_count :: "ptr option \<Rightarrow> sched \<Rightarrow> sched" where
  "suspend_self_count self s = (case self of
      None \<Rightarrow> s
    | Some p \<Rightarrow> upd_fiber p (\<lambda>f. f\<lparr>fc_suspendCount := fc_suspendCount f + 1\<rparr>) s)"

definition arm_park :: "ptr option \<Rightarrow> sched \<Rightarrow> sched" where
  "arm_park self s = (case self of
      None \<Rightarrow> s
    | Some p \<Rightarrow> upd_fiber p (\<lambda>f. f\<lparr>fc_state := Blocked\<rparr>) s)"

datatype block_result = NonFiber | ThrowExit | WokenInWindow | Parked

text \<open>
  \<open>block_current\<close> up to its return, its throw or its \<open>ps2fiber_yield\<close>; after a \<open>Parked\<close>
  result the fiber continues only when the executor resumes it.
\<close>

definition block_current :: "ptr option \<Rightarrow> sched \<Rightarrow> block_result \<times> sched" where
  "block_current self s = (case self of
      None \<Rightarrow> (NonFiber, s)
    | Some p \<Rightarrow> (case fibers s p of
        None \<Rightarrow> (NonFiber, s)
      | Some f \<Rightarrow>
          if g_stop s \<and> terminateRequested f
          then (ThrowExit, upd_fiber p (\<lambda>f. f\<lparr>wake_pending := False, fc_state := Running\<rparr>) s)
          else if wake_pending f
          then (WokenInWindow, upd_fiber p (\<lambda>f. f\<lparr>wake_pending := False, fc_state := Running\<rparr>) s)
          else (Parked, ps2fiber_yield
                  (upd_fiber p (\<lambda>f. f\<lparr>wake_pending := False, fc_state := Blocked\<rparr>) s))))"

text \<open>\<open>suspend_self\<close> run without interruption between its critical sections.\<close>

definition suspend_self :: "ptr option \<Rightarrow> sched \<Rightarrow> block_result \<times> sched" where
  "suspend_self self s = block_current self (arm_park self (suspend_self_count self s))"

section \<open>Yielding\<close>

definition yield_to :: "(int \<Rightarrow> int \<Rightarrow> bool) \<Rightarrow> ptr option \<Rightarrow> sched \<Rightarrow> bool \<times> sched" where
  "yield_to better self s = (case self of
      None \<Rightarrow> (False, s)
    | Some p \<Rightarrow> (case g_run_queue s of
        [] \<Rightarrow> (False, s)
      | h # _ \<Rightarrow> if better (fiber_prio s h) (fiber_prio s p)
                then (True, ps2fiber_yield (enqueue_locked p s)) else (False, s)))"

definition maybe_yield :: "ptr option \<Rightarrow> sched \<Rightarrow> bool \<times> sched" where
  "maybe_yield = yield_to (<)"

definition force_reschedule :: "ptr option \<Rightarrow> sched \<Rightarrow> bool \<times> sched" where
  "force_reschedule = yield_to (\<le>)"

text \<open>
  \<open>yield_point\<close> is left at its first context switch: the result says whether it returned,
  threw, went through \<open>block_current\<close>, or gave the slot up to a fiber or to a host worker.
\<close>

datatype yield_result = YReturn bool | YThrow | YBlock block_result | YYieldPrio | YYieldToken

definition yield_point_waiters :: "sched \<Rightarrow> yield_result \<times> sched" where
  "yield_point_waiters s =
     (if g_host_token_waiters s > 0 then (YYieldToken, ps2fiber_yield s) else (YReturn False, s))"

definition yield_point_after_token :: "ptr \<Rightarrow> sched \<Rightarrow> yield_result" where
  "yield_point_after_token p s = (case fibers s p of
      Some f \<Rightarrow> if terminateRequested f then YThrow else YReturn True
    | None \<Rightarrow> YReturn True)"

definition yield_point_gate :: "ptr \<Rightarrow> sched \<Rightarrow> yield_result \<times> sched" where
  "yield_point_gate p s =
     (let (yielded, s1) = maybe_yield (Some p) s in
      if yielded then (YYieldPrio, s1) else yield_point_waiters s1)"

definition yield_point :: "ptr option \<Rightarrow> sched \<Rightarrow> yield_result \<times> sched" where
  "yield_point self s0 =
     (let s = s0\<lparr>tls_backedge_counter := tls_backedge_counter s0 + 1\<rparr> in
      if tls_backedge_counter s AND 127 \<noteq> 0 then (YReturn False, s)
      else let s = s\<lparr>g_guest_progress := g_guest_progress s + 1\<rparr> in
      case self of None \<Rightarrow> (YReturn False, s) | Some p \<Rightarrow>
      case fibers s p of None \<Rightarrow> (YReturn False, s) | Some f \<Rightarrow>
      if terminateRequested f then (YThrow, s)
      else if fc_suspendCount f > 0 then (let (r, s1) = block_current (Some p) s in (YBlock r, s1))
      else if tls_intr_disabled s then
        (let n = tls_intr_disable_samples s + 1 in
         if n < kIntrDisableYieldEscape then (YReturn False, s\<lparr>tls_intr_disable_samples := n\<rparr>)
         else yield_point_gate p (s\<lparr>tls_intr_disable_samples := 0,
                g_intr_disable_escapes := g_intr_disable_escapes s + 1\<rparr>))
      else yield_point_gate p s)"

section \<open>Priorities and joining\<close>

definition update_priority :: "int \<Rightarrow> int \<Rightarrow> sched \<Rightarrow> sched" where
  "update_priority tid newPriority = with_fiber tid (\<lambda>p f s.
     if joinFloorActive f then upd_fiber p (\<lambda>f. f\<lparr>joinSavedPriority := newPriority\<rparr>) s
     else if fc_priority f = newPriority then s
     else let wasQueued = in_run_queue f;
              s1 = if wasQueued then remove_locked p s else s;
              s2 = upd_fiber p (\<lambda>f. f\<lparr>fc_priority := newPriority\<rparr>) s1
          in if wasQueued then enqueue_locked p s2 else s2)"

definition join_begin :: "int \<Rightarrow> sched \<Rightarrow> u32 option" where
  "join_begin tid s = map_option fc_generation (Option.bind (fiber_for tid s) (fibers s))"

definition targetDone :: "int \<Rightarrow> u32 \<Rightarrow> sched \<Rightarrow> bool" where
  "targetDone tid gen s = (case Option.bind (fiber_for tid s) (fibers s) of
      None \<Rightarrow> True
    | Some t \<Rightarrow> fc_generation t \<noteq> gen \<or> fc_state t = Finished)"

text \<open>One iteration of the cooperative wait; a target that is not done makes self yield.\<close>

definition join_floor :: "int \<Rightarrow> fiber \<Rightarrow> fiber" where
  "join_floor k f =
     (if fc_priority f < k
      then (if joinFloorActive f then f else f\<lparr>joinFloorActive := True, joinSavedPriority := fc_priority f\<rparr>)
             \<lparr>fc_priority := k\<rparr>
      else f)"

definition join_iter :: "ptr option \<Rightarrow> int \<Rightarrow> u32 \<Rightarrow> sched \<Rightarrow> bool \<times> sched" where
  "join_iter self tid gen s =
     (if targetDone tid gen s then (True, s)
      else (False, ps2fiber_yield
        (case (self, Option.bind (fiber_for tid s) (fibers s)) of
            (Some p, Some t) \<Rightarrow> upd_fiber p (join_floor (fc_priority t)) s
          | _ \<Rightarrow> s)))"

text \<open>Leaving the join; \<open>None\<close> is the failed \<open>SCHED_REQUIRE\<close>, which ends the process.\<close>

definition join_restore :: "ptr option \<Rightarrow> sched \<Rightarrow> sched option" where
  "join_restore self s = (case self of
      None \<Rightarrow> Some s
    | Some p \<Rightarrow> (case fibers s p of
        None \<Rightarrow> Some s
      | Some f \<Rightarrow>
          if \<not> joinFloorActive f then Some s
          else let s1 = upd_fiber p (\<lambda>f. f\<lparr>joinFloorActive := False\<rparr>) s in
            if fc_priority f = joinSavedPriority f then Some s1
            else if in_run_queue f then None
            else Some (upd_fiber p (\<lambda>f. f\<lparr>fc_priority := joinSavedPriority f\<rparr>) s1)))"

section \<open>The guest token\<close>

definition on_guest_execution_slot :: "bool \<Rightarrow> ptr option \<Rightarrow> bool" where
  "on_guest_execution_slot is_executor_thread self \<longleftrightarrow> is_executor_thread \<or> self \<noteq> None"

text \<open>
  \<open>async_guest_begin\<close>: publishing the waiter, and the grant once the wait predicate holds.
\<close>

definition async_guest_wait :: "sched \<Rightarrow> sched" where
  "async_guest_wait s = s\<lparr>g_host_token_waiters := g_host_token_waiters s + 1\<rparr>"

definition async_guest_ready :: "sched \<Rightarrow> bool" where
  "async_guest_ready s \<longleftrightarrow> g_running_fiber s = None \<and> \<not> g_guest_token_held_by_host s"

definition async_guest_grant :: "sched \<Rightarrow> sched" where
  "async_guest_grant s =
     s\<lparr>g_guest_token_held_by_host := True, g_host_token_waiters := g_host_token_waiters s - 1,
       g_host_token_grants := g_host_token_grants s + 1\<rparr>"

text \<open>\<open>None\<close> is a failed \<open>SCHED_REQUIRE\<close>.\<close>

definition async_guest_end :: "bool \<Rightarrow> sched \<Rightarrow> sched option" where
  "async_guest_end tls_holds_guest_token s =
     (if g_guest_token_held_by_host s \<and> tls_holds_guest_token
      then Some (s\<lparr>g_guest_token_held_by_host := False\<rparr>) else None)"

section \<open>Creation, start-up and shutdown\<close>

text \<open>The constructor, the field writes of \<open>create_fiber\<close> and its CPU context.\<close>

definition fiber_new :: "u32 \<Rightarrow> int \<Rightarrow> int \<Rightarrow> u32 \<Rightarrow> u32 \<Rightarrow> u32 \<Rightarrow> u32 \<Rightarrow> fiber" where
  "fiber_new gen tid prio entry sp gp arg =
     (let cpu = R5900Context_init\<lparr>ctx_pc := entry, cop0_status := 1 OR 0x10000\<rparr>;
          cpu = SET_GPR_U32 cpu 29 sp;
          cpu = SET_GPR_U32 cpu 28 gp;
          cpu = SET_GPR_U32 cpu 4 arg;
          cpu = SET_GPR_U32 cpu 31 0
      in \<lparr>fc_tid = tid, fc_priority = prio, fc_generation = gen, fc_cpu = cpu, fc_state = Fresh,
          in_run_queue = False, wake_pending = False, terminateRequested = False,
          fc_suspendCount = 0, joinFloorActive = False, joinSavedPriority = 0\<rparr>)"

text \<open>
  The object is built outside the lock at a fresh address \<open>p\<close>, with the next generation
  number; \<open>create_fiber_publish\<close> is the second critical section, which destroys whatever
  the map held for the thread id.
\<close>

definition create_fiber_build ::
  "ptr \<Rightarrow> int \<Rightarrow> int \<Rightarrow> u32 \<Rightarrow> u32 \<Rightarrow> u32 \<Rightarrow> u32 \<Rightarrow> sched \<Rightarrow> sched" where
  "create_fiber_build p tid prio entry sp gp arg s =
     s\<lparr>fibers := (fibers s)(p \<mapsto> fiber_new (s_nextGeneration s) tid prio entry sp gp arg),
       s_nextGeneration := s_nextGeneration s + 1\<rparr>"

definition create_fiber_publish :: "ptr \<Rightarrow> int \<Rightarrow> sched \<Rightarrow> sched" where
  "create_fiber_publish p tid s =
     (let s1 = (case g_fiber_map s tid of
                  Some old \<Rightarrow> s\<lparr>fibers := (fibers s)(old := None)\<rparr> | None \<Rightarrow> s)
      in enqueue_locked p (s1\<lparr>g_fiber_map := (g_fiber_map s1)(tid \<mapsto> p)\<rparr>))"

datatype create_error = SchedulerStopping | FiberAllocFailed

text \<open>The whole call; \<open>ps2fiber_alloc\<close> may fail, which is the argument \<open>alloc_ok\<close>.\<close>

definition create_fiber ::
  "bool \<Rightarrow> ptr \<Rightarrow> int \<Rightarrow> int \<Rightarrow> u32 \<Rightarrow> u32 \<Rightarrow> u32 \<Rightarrow> u32 \<Rightarrow> sched \<Rightarrow> (create_error + unit) \<times> sched" where
  "create_fiber alloc_ok p tid prio entry sp gp arg s =
     (if g_stop s then (Inl SchedulerStopping, s)
      else let s1 = create_fiber_build p tid prio entry sp gp arg s in
        if \<not> alloc_ok then (Inl FiberAllocFailed, s1\<lparr>fibers := (fibers s1)(p := None)\<rparr>)
        else (Inr (), create_fiber_publish p tid s1))"

text \<open>Destroying every object the map owns.\<close>

definition destroy_mapped :: "sched \<Rightarrow> sched" where
  "destroy_mapped s =
     s\<lparr>fibers := (\<lambda>p. case fibers s p of
                    None \<Rightarrow> None
                  | Some f \<Rightarrow> if g_fiber_map s (fc_tid f) = Some p then None else Some f),
       g_fiber_map := Map.empty\<rparr>"

text \<open>\<open>None\<close> is the failed \<open>SCHED_REQUIRE\<close> that the old executor is joined.\<close>

definition scheduler_init :: "sched \<Rightarrow> sched option" where
  "scheduler_init s =
     (let s1 = (destroy_mapped s)\<lparr>g_run_queue := [], g_running_fiber := None,
                 g_guest_token_held_by_host := False, g_stop := False\<rparr>
      in if executor_alive s1 then None
         else Some (s1\<lparr>executor_alive := True, deferringToWaiters := False, grantsAtDefer := 0,
                       tls_current_fiber := None, g_currentThreadId := -1, yielding := False,
                       tls_backedge_counter := 0, tls_intr_disabled := False,
                       tls_intr_disable_samples := 0\<rparr>))"

definition shutdown_fiber :: "int \<Rightarrow> sched \<Rightarrow> sched" where
  "shutdown_fiber tid = with_fiber tid (\<lambda>p f s.
     if fc_state f = Blocked
     then wake_locked p (upd_fiber p (\<lambda>f. f\<lparr>terminateRequested := True, fc_suspendCount := 0\<rparr>) s)
     else if fc_state f = Exiting
     then wake_locked p (upd_fiber p (\<lambda>f. f\<lparr>fc_suspendCount := 0\<rparr>) s)
     else upd_fiber p (\<lambda>f. f\<lparr>terminateRequested := True\<rparr>) s)"

text \<open>
  The first critical section of \<open>scheduler_shutdown\<close>; \<open>order\<close> is the iteration order of the
  hash map, which the standard does not fix.
\<close>

definition shutdown_mark :: "int list \<Rightarrow> sched \<Rightarrow> sched" where
  "shutdown_mark order s = fold shutdown_fiber order (s\<lparr>g_stop := True\<rparr>)"

definition shutdown_final :: "sched \<Rightarrow> sched" where
  "shutdown_final s = (destroy_mapped s)\<lparr>g_run_queue := []\<rparr>"

end
