(* ===== verification/SchedulerInv.thy ===== *)
theory SchedulerInv
  imports Scheduler
begin

text \<open>
  The scheduler as a transition system: one rule per critical section, with the thread that may
  execute it as its guard. The invariant \<open>sched_inv\<close> is preserved by every rule; from it follow
  mutual exclusion of guest code, that the run queue holds exactly the ready fibers in priority
  order, that no fiber is lost and that no wakeup is lost.
\<close>

section \<open>Invariant\<close>

text \<open>What a fiber's own fields say, given the queue, the running fiber and the map.\<close>

definition fiber_owned :: "sched \<Rightarrow> ptr \<Rightarrow> fiber \<Rightarrow> bool" where
  "fiber_owned s p f \<longleftrightarrow> g_fiber_map s (fc_tid f) = Some p"

definition queue_ok :: "sched \<Rightarrow> bool" where
  "queue_ok s \<longleftrightarrow> distinct (g_run_queue s)
     \<and> sorted (map (fiber_prio s) (g_run_queue s))
     \<and> (\<forall>p \<in> set (g_run_queue s). \<exists>f. fibers s p = Some f \<and> fiber_owned s p f)
     \<and> (\<forall>p f. fibers s p = Some f \<longrightarrow> (in_run_queue f \<longleftrightarrow> p \<in> set (g_run_queue s)))"

definition parked_ok :: "fiber \<Rightarrow> bool" where
  "parked_ok f \<longleftrightarrow> fc_state f = Blocked \<and> (wake_pending f \<longrightarrow> fc_suspendCount f > 0)"

definition running_ok :: "bool \<Rightarrow> fiber \<Rightarrow> bool" where
  "running_ok yld f \<longleftrightarrow>
     (if yld then fc_state f \<noteq> Fresh
      else \<not> in_run_queue f \<and> fc_state f \<in> {Running, Blocked, Exiting})"

definition fiber_ok :: "sched \<Rightarrow> ptr \<Rightarrow> fiber \<Rightarrow> bool" where
  "fiber_ok s p f \<longleftrightarrow> fc_suspendCount f \<ge> 0 \<and> (in_run_queue f \<longleftrightarrow> fc_state f = Ready)
     \<and> (if g_running_fiber s = Some p then running_ok (yielding s) f
        else if in_run_queue f then True
        else if fiber_owned s p f then parked_ok f
        else fc_state f = Fresh)"

definition map_ok :: "sched \<Rightarrow> bool" where
  "map_ok s \<longleftrightarrow> (\<forall>tid p. g_fiber_map s tid = Some p \<longrightarrow> (\<exists>f. fibers s p = Some f \<and> fc_tid f = tid))"

definition slot_ok :: "sched \<Rightarrow> bool" where
  "slot_ok s \<longleftrightarrow> g_host_token_waiters s \<ge> 0
     \<and> tls_current_fiber s = g_running_fiber s
     \<and> (g_running_fiber s = None \<longrightarrow> g_currentThreadId s = -1 \<and> \<not> yielding s)
     \<and> (\<forall>p. g_running_fiber s = Some p \<longrightarrow> executor_alive s \<and> \<not> g_guest_token_held_by_host s
          \<and> (\<exists>f. fibers s p = Some f \<and> fiber_owned s p f \<and> g_currentThreadId s = fc_tid f))"

definition fibers_ok :: "ptr set \<Rightarrow> sched \<Rightarrow> bool" where
  "fibers_ok X s \<longleftrightarrow> (\<forall>p f. fibers s p = Some f \<longrightarrow> p \<notin> X \<longrightarrow> fiber_ok s p f)"

definition sched_inv :: "sched \<Rightarrow> bool" where
  "sched_inv s \<longleftrightarrow> queue_ok s \<and> fibers_ok {} s \<and> map_ok s \<and> slot_ok s"

text \<open>The counters and the stop flag are not part of it.\<close>

definition sched_core where
  "sched_core s = (fibers s, g_run_queue s, g_running_fiber s, g_fiber_map s,
     g_guest_token_held_by_host s, g_host_token_waiters s, executor_alive s,
     tls_current_fiber s, g_currentThreadId s, yielding s)"

lemma sched_inv_cong:
  assumes core: "sched_core s' = sched_core s"
  shows "sched_inv s' = sched_inv s"
proof -
  have "fiber_prio s' = fiber_prio s" "fiber_owned s' = fiber_owned s" "fiber_ok s' = fiber_ok s"
    using core by (simp_all add: sched_core_def fun_eq_iff fiber_prio_def fiber_owned_def fiber_ok_def)
  with core show ?thesis
    by (simp add: sched_core_def sched_inv_def queue_ok_def fibers_ok_def map_ok_def slot_ok_def)
qed

text \<open>No pointer that the scheduler keeps is dangling.\<close>

lemma sched_inv_live:
  assumes "sched_inv s"
  shows "g_fiber_map s tid = Some p \<Longrightarrow> fibers s p \<noteq> None"
    and "p \<in> set (g_run_queue s) \<Longrightarrow> fibers s p \<noteq> None"
    and "g_running_fiber s = Some p \<Longrightarrow> fibers s p \<noteq> None"
proof -
  show "g_fiber_map s tid = Some p \<Longrightarrow> fibers s p \<noteq> None"
    using assms unfolding sched_inv_def map_ok_def by fastforce
  show "p \<in> set (g_run_queue s) \<Longrightarrow> fibers s p \<noteq> None"
    using assms unfolding sched_inv_def queue_ok_def by fastforce
  show "g_running_fiber s = Some p \<Longrightarrow> fibers s p \<noteq> None"
    using assms unfolding sched_inv_def slot_ok_def by fastforce
qed

section \<open>Effects of the queue operations\<close>

lemma fiber_prio_upd_fiber:
  "fiber_prio (upd_fiber p g s) q =
     (if q = p then (case fibers s p of Some f \<Rightarrow> fc_priority (g f) | None \<Rightarrow> 0) else fiber_prio s q)"
  by (auto simp: fiber_prio_def upd_fiber_def split: option.splits)

lemma upd_fiber_fields [sched_simps]:
  "g_run_queue (upd_fiber p g s) = g_run_queue s"
  "g_running_fiber (upd_fiber p g s) = g_running_fiber s"
  "g_fiber_map (upd_fiber p g s) = g_fiber_map s"
  "g_guest_token_held_by_host (upd_fiber p g s) = g_guest_token_held_by_host s"
  "g_host_token_waiters (upd_fiber p g s) = g_host_token_waiters s"
  "g_host_token_grants (upd_fiber p g s) = g_host_token_grants s"
  "deferringToWaiters (upd_fiber p g s) = deferringToWaiters s"
  "grantsAtDefer (upd_fiber p g s) = grantsAtDefer s"
  "tls_current_fiber (upd_fiber p g s) = tls_current_fiber s"
  "g_currentThreadId (upd_fiber p g s) = g_currentThreadId s"
  "executor_alive (upd_fiber p g s) = executor_alive s"
  "yielding (upd_fiber p g s) = yielding s"
  "g_stop (upd_fiber p g s) = g_stop s"
  "s_nextGeneration (upd_fiber p g s) = s_nextGeneration s"
  "fibers (upd_fiber p g s) q = (if q = p then map_option g (fibers s p) else fibers s q)"
  by (simp_all add: upd_fiber_def)

lemma enqueue_locked_fields [sched_simps]:
  "g_running_fiber (enqueue_locked p s) = g_running_fiber s"
  "g_fiber_map (enqueue_locked p s) = g_fiber_map s"
  "g_guest_token_held_by_host (enqueue_locked p s) = g_guest_token_held_by_host s"
  "g_host_token_waiters (enqueue_locked p s) = g_host_token_waiters s"
  "g_host_token_grants (enqueue_locked p s) = g_host_token_grants s"
  "deferringToWaiters (enqueue_locked p s) = deferringToWaiters s"
  "grantsAtDefer (enqueue_locked p s) = grantsAtDefer s"
  "tls_current_fiber (enqueue_locked p s) = tls_current_fiber s"
  "g_currentThreadId (enqueue_locked p s) = g_currentThreadId s"
  "executor_alive (enqueue_locked p s) = executor_alive s"
  "yielding (enqueue_locked p s) = yielding s"
  "g_stop (enqueue_locked p s) = g_stop s"
  "s_nextGeneration (enqueue_locked p s) = s_nextGeneration s"
  by (simp_all add: enqueue_locked_def split: option.splits)

text \<open>
  The general step: a field update of one fiber that keeps its identity and its queue flag,
  and keeps its priority while it is queued.
\<close>

lemma queue_ok_upd_fiber:
  assumes "queue_ok s"
    and "\<And>f. fibers s p = Some f \<Longrightarrow> fc_tid (g f) = fc_tid f \<and> in_run_queue (g f) = in_run_queue f
          \<and> (in_run_queue f \<longrightarrow> fc_priority (g f) = fc_priority f)"
  shows "queue_ok (upd_fiber p g s)"
proof -
  let ?q = "g_run_queue s"
  have "fiber_prio (upd_fiber p g s) x = fiber_prio s x" if "x \<in> set ?q" for x
  proof (cases "x = p")
    case True
    with that assms(1) obtain f where "fibers s p = Some f" "in_run_queue f"
      by (fastforce simp: queue_ok_def)
    with True assms(2) show ?thesis by (simp add: fiber_prio_def sched_simps)
  qed (simp add: fiber_prio_upd_fiber)
  then have "map (fiber_prio (upd_fiber p g s)) ?q = map (fiber_prio s) ?q" by simp
  then have "sorted (map (fiber_prio (upd_fiber p g s)) ?q)"
    using assms(1) by (simp only: queue_ok_def)
  with assms show ?thesis
    unfolding queue_ok_def fiber_owned_def by (auto simp: sched_simps split: if_splits)
qed

lemma map_ok_upd_fiber:
  assumes "map_ok s" "\<And>f. fibers s p = Some f \<Longrightarrow> fc_tid (g f) = fc_tid f"
  shows "map_ok (upd_fiber p g s)"
  using assms by (fastforce simp: map_ok_def sched_simps)

lemma slot_ok_upd_fiber:
  assumes "slot_ok s" "\<And>f. fibers s p = Some f \<Longrightarrow> fc_tid (g f) = fc_tid f"
  shows "slot_ok (upd_fiber p g s)"
  using assms unfolding slot_ok_def fiber_owned_def
  by (auto simp: sched_simps split: option.splits)

lemma fibers_ok_upd_fiber:
  assumes "fibers_ok X s"
    and "\<And>f. fibers s p = Some f \<Longrightarrow> fc_tid (g f) = fc_tid f"
    and "\<And>f. fibers s p = Some f \<Longrightarrow> p \<notin> X \<Longrightarrow> fiber_ok s p (g f)"
  shows "fibers_ok X (upd_fiber p g s)"
proof -
  have "fiber_ok (upd_fiber p g s) x = fiber_ok s x" for x
    by (rule ext) (simp add: fiber_ok_def fiber_owned_def sched_simps)
  with assms show ?thesis unfolding fibers_ok_def by (auto simp: sched_simps split: if_splits)
qed

lemma sched_inv_upd_fiber:
  assumes "sched_inv s"
    and "\<And>f. fibers s p = Some f \<Longrightarrow> fc_tid (g f) = fc_tid f \<and> in_run_queue (g f) = in_run_queue f
          \<and> (in_run_queue f \<longrightarrow> fc_priority (g f) = fc_priority f)"
    and "\<And>f. fibers s p = Some f \<Longrightarrow> fiber_ok s p f \<Longrightarrow> fiber_ok s p (g f)"
  shows "sched_inv (upd_fiber p g s)"
proof -
  have "fibers_ok {} s" using assms(1) by (simp add: sched_inv_def)
  then have "fibers_ok {} (upd_fiber p g s)"
    by (rule fibers_ok_upd_fiber) (use assms(2,3) \<open>fibers_ok {} s\<close> in \<open>auto simp: fibers_ok_def\<close>)
  with assms(1,2) show ?thesis unfolding sched_inv_def
    by (simp add: queue_ok_upd_fiber map_ok_upd_fiber slot_ok_upd_fiber)
qed

text \<open>Enqueueing: the fiber itself may be in any state before, as long as the map owns it.\<close>

lemma fiber_prio_enqueue [sched_simps]: "fiber_prio (enqueue_locked p s) = fiber_prio s"
  by (auto simp: enqueue_locked_def fiber_prio_def fun_eq_iff split: option.splits)

lemma queue_ok_enqueue:
  assumes "queue_ok s" "fibers s p = Some f" "fiber_owned s p f"
  shows "queue_ok (enqueue_locked p s)"
proof (cases "in_run_queue f")
  case False
  with assms have new: "p \<notin> set (g_run_queue s)" by (auto simp: queue_ok_def)
  let ?q = "insert_after (\<lambda>q. fiber_prio s q \<le> fc_priority f) p (g_run_queue s)"
  have e: "enqueue_locked p s = s\<lparr>fibers := (fibers s)(p \<mapsto> f\<lparr>in_run_queue := True, fc_state := Ready\<rparr>),
      g_run_queue := ?q\<rparr>" using assms False by (simp add: enqueue_locked_def)
  have pf: "fiber_prio s p = fc_priority f" using assms by (simp add: fiber_prio_def)
  have "sorted (map (fiber_prio s) ?q)"
    using assms(1) sorted_insert_after [of "fiber_prio s" "g_run_queue s" p]
    by (simp add: queue_ok_def pf)
  moreover have "fiber_prio (enqueue_locked p s) = fiber_prio s" by (simp add: sched_simps)
  ultimately show ?thesis
    using assms new by (auto simp: e queue_ok_def fiber_owned_def)
qed (use assms in \<open>simp add: enqueue_locked_def\<close>)

lemma fiber_ok_enqueue_other:
  assumes "fibers_ok X s" "fibers s p = Some f" "X \<subseteq> {p}"
    and "in_run_queue f \<Longrightarrow> fiber_ok s p f"
    and "fc_suspendCount f \<ge> 0" "g_running_fiber s = Some p \<Longrightarrow> yielding s"
  shows "fibers_ok {} (enqueue_locked p s)"
proof -
  have same: "fiber_ok (enqueue_locked p s) x = fiber_ok s x" for x
    by (rule ext) (simp add: fiber_ok_def fiber_owned_def sched_simps)
  have "fiber_ok s x g" if g: "fibers (enqueue_locked p s) x = Some g" for x g
  proof (cases "x = p")
    case True
    show ?thesis
    proof (cases "in_run_queue f")
      case False
      with g True assms(2) have "g = f\<lparr>in_run_queue := True, fc_state := Ready\<rparr>"
        by (simp add: enqueue_locked_def)
      with True assms(5,6) show ?thesis by (simp add: fiber_ok_def running_ok_def)
    qed (use g True assms(2,4) in \<open>simp add: enqueue_locked_def\<close>)
  next
    case False
    with g have "fibers s x = Some g" by (simp add: enqueue_locked_def split: option.splits if_splits)
    with False assms(1,3) show ?thesis by (auto simp: fibers_ok_def)
  qed
  then show ?thesis by (simp add: fibers_ok_def same)
qed

lemma map_ok_enqueue: "map_ok s \<Longrightarrow> map_ok (enqueue_locked p s)"
  by (fastforce simp: map_ok_def enqueue_locked_def split: option.splits)

lemma slot_ok_enqueue: "slot_ok s \<Longrightarrow> slot_ok (enqueue_locked p s)"
  unfolding slot_ok_def fiber_owned_def
  by (auto simp: enqueue_locked_def split: option.splits)

text \<open>
  The invariant with one fiber taken out: what holds between the writes of a critical section
  that ends by putting that fiber back on the queue.
\<close>

definition sched_inv_but :: "ptr \<Rightarrow> sched \<Rightarrow> bool" where
  "sched_inv_but p s \<longleftrightarrow> queue_ok s \<and> fibers_ok {p} s \<and> map_ok s \<and> slot_ok s
     \<and> (\<exists>f. fibers s p = Some f \<and> fiber_owned s p f \<and> fc_suspendCount f \<ge> 0
            \<and> (in_run_queue f \<longrightarrow> fiber_ok s p f))"

lemma fiber_ok_upd_fiber_state [sched_simps]:
  "fiber_ok (upd_fiber p g s) x f = fiber_ok s x f"
  "fiber_owned (upd_fiber p g s) x f = fiber_owned s x f"
  by (simp_all add: fiber_ok_def fiber_owned_def sched_simps)

lemma sched_inv_butI:
  "sched_inv s \<Longrightarrow> fibers s p = Some f \<Longrightarrow> fiber_owned s p f \<Longrightarrow> sched_inv_but p s"
  by (auto simp: sched_inv_def sched_inv_but_def fibers_ok_def fiber_ok_def)

lemma sched_inv_but_upd_fiber:
  assumes "sched_inv_but p s"
    and "\<And>f. fc_tid (g f) = fc_tid f \<and> in_run_queue (g f) = in_run_queue f"
    and "\<And>f. in_run_queue f \<Longrightarrow> fibers s p = Some f \<Longrightarrow> fc_priority (g f) = fc_priority f"
    and "\<And>f. fc_suspendCount f \<ge> 0 \<Longrightarrow> fc_suspendCount (g f) \<ge> 0"
    and "\<And>f. in_run_queue f \<Longrightarrow> fibers s p = Some f \<Longrightarrow> fiber_ok s p f \<Longrightarrow> fiber_ok s p (g f)"
  shows "sched_inv_but p (upd_fiber p g s)"
proof -
  from assms(1) obtain f where f: "fibers s p = Some f" "fiber_owned s p f" "fc_suspendCount f \<ge> 0"
    "in_run_queue f \<Longrightarrow> fiber_ok s p f" by (auto simp: sched_inv_but_def)
  have "fiber_owned s p (g f)" using f(2) assms(2) by (simp add: fiber_owned_def)
  moreover have "queue_ok (upd_fiber p g s)" "map_ok (upd_fiber p g s)" "slot_ok (upd_fiber p g s)"
    "fibers_ok {p} (upd_fiber p g s)"
    using assms by (auto simp: sched_inv_but_def intro!: queue_ok_upd_fiber map_ok_upd_fiber
        slot_ok_upd_fiber fibers_ok_upd_fiber)
  ultimately show ?thesis
    using f assms(2,4,5) by (simp add: sched_inv_but_def sched_simps)
qed

lemma enqueue_locked_inv:
  assumes "sched_inv_but p s" "g_running_fiber s = Some p \<Longrightarrow> yielding s"
  shows "sched_inv (enqueue_locked p s)"
proof -
  from assms(1) obtain f where f: "fibers s p = Some f" "fiber_owned s p f" "fc_suspendCount f \<ge> 0"
    "in_run_queue f \<Longrightarrow> fiber_ok s p f" by (auto simp: sched_inv_but_def)
  have "fibers_ok {} (enqueue_locked p s)"
    by (rule fiber_ok_enqueue_other [where X = "{p}" and f = f])
       (use assms f in \<open>auto simp: sched_inv_but_def\<close>)
  with assms(1) f show ?thesis
    by (simp add: sched_inv_def sched_inv_but_def queue_ok_enqueue map_ok_enqueue slot_ok_enqueue)
qed

lemma wake_locked_inv:
  assumes but: "sched_inv_but p s" and f: "fibers s p = Some f"
    and run: "g_running_fiber s = Some p \<Longrightarrow> fiber_ok s p f"
  shows "sched_inv (wake_locked p s)"
proof (cases "\<not> in_run_queue f \<and> g_running_fiber s \<noteq> Some p")
  case True
  with f enqueue_locked_inv [OF but] show ?thesis by (simp add: wake_locked_def)
next
  case False
  with but f run have "fiber_ok s p f" by (auto simp: sched_inv_but_def)
  with but f have inv: "sched_inv s"
    unfolding sched_inv_def sched_inv_but_def fibers_ok_def by (metis option.inject singletonD)
  have "sched_inv (upd_fiber p (\<lambda>f. f\<lparr>wake_pending := True\<rparr>) s)" if "g_running_fiber s = Some p"
    using inv that by (intro sched_inv_upd_fiber) (auto simp: fiber_ok_def running_ok_def)
  with False f inv show ?thesis by (auto simp: wake_locked_def)
qed

lemma with_fiber_inv:
  assumes "sched_inv s"
    and "\<And>p f. fiber_for tid s = Some p \<Longrightarrow> fibers s p = Some f \<Longrightarrow> fiber_owned s p f \<Longrightarrow>
           fiber_ok s p f \<Longrightarrow> sched_inv_but p s \<Longrightarrow> sched_inv (F p f s)"
  shows "sched_inv (with_fiber tid F s)"
proof (cases "fiber_for tid s")
  case (Some p)
  with assms(1) obtain f where f: "fibers s p = Some f" "fc_tid f = tid"
    by (auto simp: sched_inv_def map_ok_def fiber_for_def)
  with Some have own: "fiber_owned s p f" by (simp add: fiber_owned_def fiber_for_def)
  moreover have "fiber_ok s p f" using assms(1) f by (auto simp: sched_inv_def fibers_ok_def)
  moreover have "sched_inv_but p s" using assms(1) f own by (auto intro: sched_inv_butI)
  ultimately show ?thesis using assms(2) [OF Some f(1)] Some f by (simp add: with_fiber_def)
qed (use assms(1) in \<open>simp add: with_fiber_def\<close>)

section \<open>Every critical section keeps the invariant\<close>

lemma make_ready_inv: "sched_inv s \<Longrightarrow> sched_inv (make_ready tid s)"
  unfolding make_ready_def by (rule with_fiber_inv) (auto intro: wake_locked_inv)

lemma enqueue_external_wakeup_validated_inv:
  "sched_inv s \<Longrightarrow> sched_inv (enqueue_external_wakeup_validated tid token s)"
  unfolding enqueue_external_wakeup_validated_def
  by (rule with_fiber_inv) (auto intro: wake_locked_inv)

text \<open>The shape of \<open>request_terminate\<close>, \<open>clear_suspend\<close> and the shutdown loop.\<close>

lemma update_and_wake_inv:
  assumes but: "sched_inv_but p s" and f: "fibers s p = Some f" and ok: "fiber_ok s p f"
    and g: "\<And>f. fc_tid (g f) = fc_tid f \<and> in_run_queue (g f) = in_run_queue f
              \<and> fc_priority (g f) = fc_priority f \<and> fc_state (g f) = fc_state f
              \<and> (fc_suspendCount f \<ge> 0 \<longrightarrow> fc_suspendCount (g f) \<ge> 0)"
  shows "sched_inv (wake_locked p (upd_fiber p g s))"
proof (rule wake_locked_inv)
  show "sched_inv_but p (upd_fiber p g s)"
    using but g by (intro sched_inv_but_upd_fiber) (auto simp: fiber_ok_def running_ok_def)
  show "fibers (upd_fiber p g s) p = Some (g f)" using f by (simp add: sched_simps)
  show "fiber_ok (upd_fiber p g s) p (g f)" if "g_running_fiber (upd_fiber p g s) = Some p"
    using that ok g by (auto simp: sched_simps fiber_ok_def running_ok_def split: if_splits)
qed

lemma request_terminate_inv: "sched_inv s \<Longrightarrow> sched_inv (request_terminate tid s)"
  unfolding request_terminate_def by (rule with_fiber_inv) (auto intro: update_and_wake_inv)

lemma clear_suspend_inv: "sched_inv s \<Longrightarrow> sched_inv (clear_suspend tid s)"
  unfolding clear_suspend_def by (rule with_fiber_inv) (auto intro: update_and_wake_inv)

lemma shutdown_fiber_inv: "sched_inv s \<Longrightarrow> sched_inv (shutdown_fiber tid s)"
  unfolding shutdown_fiber_def
proof (rule with_fiber_inv)
  fix p f
  assume inv: "sched_inv s" and f: "fibers s p = Some f" "fiber_ok s p f" "sched_inv_but p s"
  have "sched_inv (upd_fiber p (\<lambda>f. f\<lparr>terminateRequested := True\<rparr>) s)"
    using inv by (rule sched_inv_upd_fiber) (auto simp: fiber_ok_def fiber_owned_def parked_ok_def running_ok_def)
  with f show "sched_inv (if fc_state f = Blocked
      then wake_locked p (upd_fiber p (\<lambda>f. f\<lparr>terminateRequested := True, fc_suspendCount := 0\<rparr>) s)
      else if fc_state f = Exiting
      then wake_locked p (upd_fiber p (\<lambda>f. f\<lparr>fc_suspendCount := 0\<rparr>) s)
      else upd_fiber p (\<lambda>f. f\<lparr>terminateRequested := True\<rparr>) s)"
    by (auto intro: update_and_wake_inv)
qed

lemma shutdown_mark_inv: "sched_inv s \<Longrightarrow> sched_inv (shutdown_mark order s)"
proof -
  assume "sched_inv s"
  then have "sched_inv (s\<lparr>g_stop := True\<rparr>)"
    using sched_inv_cong [of "s\<lparr>g_stop := True\<rparr>" s] by (simp add: sched_core_def)
  then show ?thesis unfolding shutdown_mark_def
    by (induction order arbitrary: s rule: rev_induct) (auto simp: shutdown_fiber_inv)
qed

text \<open>Unlinking a queued fiber.\<close>

lemma remove_locked_queued:
  assumes "queue_ok s" "fibers s p = Some f" "in_run_queue f"
  shows "remove_locked p s = upd_fiber p (\<lambda>f. f\<lparr>in_run_queue := False\<rparr>)
           (s\<lparr>g_run_queue := remove1 p (g_run_queue s)\<rparr>)"
  using assms by (auto simp: remove_locked_def queue_ok_def upd_fiber_def)

lemma fiber_prio_remove [sched_simps]: "fiber_prio (remove_locked p s) = fiber_prio s"
  by (auto simp: remove_locked_def fiber_prio_def fun_eq_iff split: option.splits)

lemma remove_locked_but:
  assumes but: "sched_inv_but p s" and f: "fibers s p = Some f" "in_run_queue f"
  shows "sched_inv_but p (remove_locked p s)"
    and "fibers (remove_locked p s) p = Some (f\<lparr>in_run_queue := False\<rparr>)"
proof -
  from but have q: "queue_ok s" by (simp add: sched_inv_but_def)
  note r = remove_locked_queued [OF q f]
  show g: "fibers (remove_locked p s) p = Some (f\<lparr>in_run_queue := False\<rparr>)"
    using f by (simp add: r sched_simps)
  have "sorted (map (fiber_prio (remove_locked p s)) (remove1 p (g_run_queue s)))"
    using q by (simp add: sched_simps queue_ok_def sorted_map_remove1)
  then have "queue_ok (remove_locked p s)"
    using q f by (auto simp: r queue_ok_def fiber_owned_def sched_simps split: if_splits)
  moreover have "fiber_ok (remove_locked p s) x = fiber_ok s x"
    "fiber_owned (remove_locked p s) x = fiber_owned s x" for x
    by (simp_all add: r fun_eq_iff fiber_ok_def fiber_owned_def sched_simps)
  moreover have "map_ok (remove_locked p s)" "slot_ok (remove_locked p s)"
    unfolding r using but
    by (intro map_ok_upd_fiber slot_ok_upd_fiber;
        simp add: sched_inv_but_def map_ok_def slot_ok_def fiber_owned_def)+
  moreover have "fibers_ok {p} (remove_locked p s)"
    using but calculation(2) by (auto simp: sched_inv_but_def fibers_ok_def r sched_simps)
  ultimately show "sched_inv_but p (remove_locked p s)"
    using but g f by (auto simp: sched_inv_but_def fiber_owned_def)
qed

lemma remove_locked_fields [sched_simps]:
  "g_running_fiber (remove_locked p s) = g_running_fiber s"
  "yielding (remove_locked p s) = yielding s"
  "g_fiber_map (remove_locked p s) = g_fiber_map s"
  by (simp_all add: remove_locked_def split: option.splits)

lemma but_to_inv:
  assumes "sched_inv_but p s" "fibers s p = Some f" "fiber_ok s p f"
  shows "sched_inv s"
  using assms unfolding sched_inv_def sched_inv_but_def fibers_ok_def
  by (metis option.inject singletonD)

text \<open>A suspended ready fiber is parked with a positive count, so a pending wakeup may wait.\<close>

lemma suspend_other_inv: "sched_inv s \<Longrightarrow> sched_inv (suspend_other tid s)"
  unfolding suspend_other_def
proof (rule with_fiber_inv)
  fix p f
  assume f: "fibers s p = Some f" "fiber_ok s p f" and but: "sched_inv_but p s"
    and own: "fiber_owned s p f"
  let ?g = "\<lambda>f. f\<lparr>fc_suspendCount := fc_suspendCount f + 1\<rparr>"
  let ?s1 = "upd_fiber p ?g s"
  have but1: "sched_inv_but p ?s1"
    using but by (intro sched_inv_but_upd_fiber) (auto simp: fiber_ok_def running_ok_def fiber_owned_def)
  have ok1: "fiber_ok s p (?g f)"
    using f(2) by (auto simp: fiber_ok_def running_ok_def parked_ok_def fiber_owned_def)
  show "sched_inv (let s1 = ?s1 in if fc_state f = Ready
      then upd_fiber p (\<lambda>f. f\<lparr>fc_state := Blocked\<rparr>) (remove_locked p s1) else s1)"
  proof (cases "fc_state f = Ready")
    case True
    with f have inq: "in_run_queue f" by (simp add: fiber_ok_def)
    let ?s2 = "remove_locked p ?s1"
    have f1: "fibers ?s1 p = Some (?g f)" "in_run_queue (?g f)" using f inq by (simp_all add: sched_simps)
    note b2 = remove_locked_but [OF but1 f1]
    let ?h = "\<lambda>f. f\<lparr>fc_state := Blocked\<rparr>"
    let ?f3 = "?h (?g f\<lparr>in_run_queue := False\<rparr>)"
    have "sched_inv_but p (upd_fiber p ?h ?s2)"
      using b2 by (intro sched_inv_but_upd_fiber) auto
    moreover have "fibers (upd_fiber p ?h ?s2) p = Some ?f3" using b2 by (simp add: sched_simps)
    moreover have "fiber_ok (upd_fiber p ?h ?s2) p ?f3"
      using f(2) own inq by (auto simp: sched_simps fiber_ok_def running_ok_def parked_ok_def fiber_owned_def split: if_splits)
    ultimately have "sched_inv (upd_fiber p ?h ?s2)" by (rule but_to_inv)
    with True show ?thesis by simp
  next
    case False
    have "sched_inv ?s1" using but1 f ok1 by (intro but_to_inv [of p ?s1 "?g f"]) (simp_all add: sched_simps)
    with False show ?thesis by simp
  qed
qed

lemma update_priority_inv: "sched_inv s \<Longrightarrow> sched_inv (update_priority tid k s)"
  unfolding update_priority_def
proof (rule with_fiber_inv)
  fix p f
  assume inv: "sched_inv s" and f: "fibers s p = Some f" "fiber_ok s p f" and but: "sched_inv_but p s"
  let ?h = "\<lambda>f. f\<lparr>fc_priority := k\<rparr>"
  have saved: "sched_inv (upd_fiber p (\<lambda>f. f\<lparr>joinSavedPriority := k\<rparr>) s)"
    using inv by (rule sched_inv_upd_fiber) (auto simp: fiber_ok_def fiber_owned_def running_ok_def parked_ok_def)
  have off: "sched_inv (upd_fiber p ?h s)" if "\<not> in_run_queue f"
    using inv by (rule sched_inv_upd_fiber)
       (use that f in \<open>auto simp: fiber_ok_def fiber_owned_def running_ok_def parked_ok_def\<close>)
  have on: "sched_inv (enqueue_locked p (upd_fiber p ?h (remove_locked p s)))" if "in_run_queue f"
  proof (rule enqueue_locked_inv)
    note b = remove_locked_but [OF but f(1) that]
    show "sched_inv_but p (upd_fiber p ?h (remove_locked p s))"
      using b by (intro sched_inv_but_upd_fiber) (auto simp: fiber_ok_def running_ok_def fiber_owned_def)
    show "yielding (upd_fiber p ?h (remove_locked p s))"
      if "g_running_fiber (upd_fiber p ?h (remove_locked p s)) = Some p"
      using that f(2) \<open>in_run_queue f\<close> by (auto simp: sched_simps fiber_ok_def running_ok_def split: if_splits)
  qed
  from saved off on inv show "sched_inv (if joinFloorActive f
      then upd_fiber p (\<lambda>f. f\<lparr>joinSavedPriority := k\<rparr>) s
      else if fc_priority f = k then s
      else let wasQueued = in_run_queue f; s1 = if wasQueued then remove_locked p s else s;
               s2 = upd_fiber p ?h s1 in if wasQueued then enqueue_locked p s2 else s2)"
    by (auto simp: Let_def)
qed

subsection \<open>Steps of the running fiber\<close>

definition executing :: "sched \<Rightarrow> ptr \<Rightarrow> bool" where
  "executing s p \<longleftrightarrow> g_running_fiber s = Some p \<and> \<not> yielding s"

lemma executing_fiber:
  assumes "sched_inv s" "executing s p"
  obtains f where "fibers s p = Some f" "fiber_owned s p f" "fiber_ok s p f" "\<not> in_run_queue f"
    "fc_state f \<in> {Running, Blocked, Exiting}"
proof -
  from assms obtain f where f: "fibers s p = Some f" "fiber_owned s p f"
    by (auto simp: sched_inv_def slot_ok_def executing_def)
  with assms(1) have "fiber_ok s p f" by (auto simp: sched_inv_def fibers_ok_def)
  with f assms(2) that show thesis by (auto simp: fiber_ok_def running_ok_def executing_def)
qed

lemma running_upd_inv:
  assumes "sched_inv s" "executing s p"
    and "\<And>f. fc_tid (g f) = fc_tid f \<and> in_run_queue (g f) = in_run_queue f
            \<and> (fc_suspendCount f \<ge> 0 \<longrightarrow> fc_suspendCount (g f) \<ge> 0)"
    and "\<And>f. fc_state f \<in> {Running, Blocked, Exiting} \<Longrightarrow> fc_state (g f) \<in> {Running, Blocked, Exiting}"
  shows "sched_inv (upd_fiber p g s)"
proof -
  obtain f where f: "fibers s p = Some f" "fiber_ok s p f" "\<not> in_run_queue f"
    "fc_state f \<in> {Running, Blocked, Exiting}" using assms(1,2) by (rule executing_fiber)
  moreover have "fiber_ok s p (g f)"
    using f assms(2) assms(3) [of f] assms(4) [OF f(4)]
    by (auto simp: fiber_ok_def running_ok_def executing_def)
  ultimately show ?thesis using assms(1,3) by (intro sched_inv_upd_fiber) auto
qed

lemma ps2fiber_yield_fields [sched_simps]:
  "fibers (ps2fiber_yield s) = fibers s" "g_run_queue (ps2fiber_yield s) = g_run_queue s"
  "g_running_fiber (ps2fiber_yield s) = g_running_fiber s" "yielding (ps2fiber_yield s)"
  "g_fiber_map (ps2fiber_yield s) = g_fiber_map s"
  "fiber_prio (ps2fiber_yield s) = fiber_prio s" "fiber_owned (ps2fiber_yield s) = fiber_owned s"
  by (simp_all add: ps2fiber_yield_def fun_eq_iff fiber_prio_def fiber_owned_def)

lemma ps2fiber_yield_ok [sched_simps]:
  "queue_ok (ps2fiber_yield s) = queue_ok s" "map_ok (ps2fiber_yield s) = map_ok s"
  by (simp_all add: queue_ok_def map_ok_def ps2fiber_yield_fields)

text \<open>Entering \<open>ps2fiber_yield\<close>, with the last update of the fiber before it.\<close>

lemma running_yield_inv:
  assumes "sched_inv s" "executing s p"
    and "\<And>f. fc_tid (g f) = fc_tid f \<and> in_run_queue (g f) = in_run_queue f
            \<and> (fc_suspendCount f \<ge> 0 \<longrightarrow> fc_suspendCount (g f) \<ge> 0)"
    and "\<And>f. fc_state f \<in> {Running, Blocked, Exiting} \<Longrightarrow> fc_state (g f) \<notin> {Fresh, Ready}"
  shows "sched_inv (ps2fiber_yield (upd_fiber p g s))"
proof -
  obtain f where f: "fibers s p = Some f" "fiber_owned s p f" "fiber_ok s p f" "\<not> in_run_queue f"
    "fc_state f \<in> {Running, Blocked, Exiting}" using assms(1,2) by (rule executing_fiber)
  have run: "g_running_fiber s = Some p" using assms(2) by (simp add: executing_def)
  have "fiber_ok (ps2fiber_yield (upd_fiber p g s)) x h"
    if "fibers (ps2fiber_yield (upd_fiber p g s)) x = Some h" for x h
  proof (cases "x = p")
    case True
    with that f have "h = g f" by (simp add: sched_simps)
    with True f run assms(3) [of f] assms(4) [OF f(5)] show ?thesis
      by (auto simp: fiber_ok_def running_ok_def sched_simps)
  next
    case False
    with that assms(1) have "fiber_ok s x h" by (simp add: sched_simps sched_inv_def fibers_ok_def)
    with False run show ?thesis by (simp add: fiber_ok_def sched_simps)
  qed
  moreover have "queue_ok (upd_fiber p g s)" "map_ok (upd_fiber p g s)" "slot_ok (upd_fiber p g s)"
    using assms f by (auto simp: sched_inv_def intro!: queue_ok_upd_fiber map_ok_upd_fiber slot_ok_upd_fiber)
  ultimately show ?thesis using run
    by (simp add: sched_inv_def fibers_ok_def sched_simps)
       (simp add: slot_ok_def ps2fiber_yield_def fiber_owned_def sched_simps)
qed

lemma ps2fiber_yield_inv: "sched_inv s \<Longrightarrow> executing s p \<Longrightarrow> sched_inv (ps2fiber_yield s)"
proof -
  have "upd_fiber p (\<lambda>f. f) s = s" by (simp add: upd_fiber_def option.map_ident)
  then show "sched_inv s \<Longrightarrow> executing s p \<Longrightarrow> ?thesis"
    using running_yield_inv [of s p "\<lambda>f. f"] by fastforce
qed

lemma suspend_self_count_inv:
  "sched_inv s \<Longrightarrow> executing s p \<Longrightarrow> sched_inv (suspend_self_count (Some p) s)"
  unfolding suspend_self_count_def by (simp, rule running_upd_inv) auto

lemma arm_park_inv: "sched_inv s \<Longrightarrow> executing s p \<Longrightarrow> sched_inv (arm_park (Some p) s)"
  unfolding arm_park_def by (simp, rule running_upd_inv) auto

lemma fiber_mark_exiting_inv: "sched_inv s \<Longrightarrow> executing s p \<Longrightarrow> sched_inv (fiber_mark_exiting p s)"
  unfolding fiber_mark_exiting_def by (rule running_upd_inv) auto

lemma fiber_mark_finished_inv:
  "sched_inv s \<Longrightarrow> executing s p \<Longrightarrow> sched_inv (ps2fiber_yield (fiber_mark_finished p s))"
  unfolding fiber_mark_finished_def by (rule running_yield_inv) auto

lemma block_current_inv:
  assumes "sched_inv s" "executing s p"
  shows "sched_inv (snd (block_current (Some p) s))"
proof -
  have "sched_inv (upd_fiber p (\<lambda>f. f\<lparr>wake_pending := False, fc_state := Running\<rparr>) s)"
    using assms by (rule running_upd_inv) auto
  moreover have "sched_inv (ps2fiber_yield (upd_fiber p (\<lambda>f. f\<lparr>wake_pending := False, fc_state := Blocked\<rparr>) s))"
    using assms by (rule running_yield_inv) auto
  ultimately show ?thesis using assms(1) by (simp add: block_current_def split: option.splits)
qed

lemma enqueue_yield_inv:
  assumes "sched_inv s" "executing s p"
  shows "sched_inv (ps2fiber_yield (enqueue_locked p s))"
proof -
  obtain f where f: "fibers s p = Some f" "fiber_owned s p f" using assms by (rule executing_fiber)
  have "ps2fiber_yield (enqueue_locked p s) = enqueue_locked p (ps2fiber_yield s)"
    by (simp add: enqueue_locked_def sched_simps split: option.split) (simp add: ps2fiber_yield_def)
  moreover have "sched_inv (enqueue_locked p (ps2fiber_yield s))"
    using f ps2fiber_yield_inv [OF assms]
    by (intro enqueue_locked_inv sched_inv_butI [of _ _ f]) (simp_all add: sched_simps)
  ultimately show ?thesis by simp
qed

lemma yield_to_inv:
  "sched_inv s \<Longrightarrow> executing s p \<Longrightarrow> sched_inv (snd (yield_to better (Some p) s))"
  using enqueue_yield_inv [of s p] by (simp add: yield_to_def split: list.split)

lemma yield_point_gate_inv:
  assumes "sched_inv s" "executing s p"
  shows "sched_inv (snd (yield_point_gate p s))"
proof -
  obtain b s1 where y: "maybe_yield (Some p) s = (b, s1)" by fastforce
  with yield_to_inv [OF assms] have inv1: "sched_inv s1" by (metis maybe_yield_def snd_conv)
  have "s1 = s" if "\<not> b" using y that by (auto simp: maybe_yield_def yield_to_def split: list.splits if_splits)
  with y inv1 ps2fiber_yield_inv [OF assms] show ?thesis
    by (auto simp: yield_point_gate_def yield_point_waiters_def)
qed

lemma yield_point_inv:
  assumes "sched_inv s" "executing s p"
  shows "sched_inv (snd (yield_point (Some p) s))"
proof -
  have same: "sched_inv s'" "executing s' p" if "sched_core s' = sched_core s" for s'
    using assms that sched_inv_cong [OF that] by (auto simp: executing_def sched_core_def)
  have blk: "sched_inv (snd (case block_current (Some p) s' of (r, s1) \<Rightarrow> (YBlock r, s1)))"
    and gate: "sched_inv (snd (yield_point_gate p s'))" if "sched_core s' = sched_core s" for s'
    using block_current_inv [OF same [OF that]] yield_point_gate_inv [OF same [OF that]]
    by (auto split: prod.split)
  show ?thesis
    unfolding yield_point_def Let_def option.case
    by (simp split: option.split) (simp add: sched_core_def same(1) blk gate)
qed

lemma join_floor_fields [sched_simps]:
  "fc_tid (join_floor k f) = fc_tid f" "in_run_queue (join_floor k f) = in_run_queue f"
  "fc_suspendCount (join_floor k f) = fc_suspendCount f" "fc_state (join_floor k f) = fc_state f"
  "wake_pending (join_floor k f) = wake_pending f" "fc_generation (join_floor k f) = fc_generation f"
  by (simp_all add: join_floor_def)

lemma join_iter_inv:
  assumes "sched_inv s" "executing s p"
  shows "sched_inv (snd (join_iter (Some p) tid gen s))"
proof -
  have "sched_inv (ps2fiber_yield (upd_fiber p (join_floor k) s))" for k
    using assms by (rule running_yield_inv) (auto simp: sched_simps)
  with assms(1) ps2fiber_yield_inv [OF assms] show ?thesis
    by (auto simp: join_iter_def split: option.split)
qed

text \<open>The \<open>SCHED_REQUIRE\<close> of \<open>join_fiber\<close> cannot fail.\<close>

lemma join_restore_inv:
  assumes "sched_inv s" "executing s p"
  shows "\<exists>s'. join_restore (Some p) s = Some s' \<and> sched_inv s'"
proof -
  obtain f where f: "fibers s p = Some f" "\<not> in_run_queue f" using assms by (rule executing_fiber)
  let ?s1 = "upd_fiber p (\<lambda>f. f\<lparr>joinFloorActive := False\<rparr>) s"
  have inv1: "sched_inv ?s1" using assms by (rule running_upd_inv) auto
  moreover have "executing ?s1 p" using assms(2) by (simp add: executing_def sched_simps)
  ultimately have "sched_inv (upd_fiber p (\<lambda>g. g\<lparr>fc_priority := joinSavedPriority g\<rparr>) ?s1)"
    by (rule running_upd_inv) auto
  with f inv1 assms(1) show ?thesis by (simp add: join_restore_def Let_def)
qed

subsection \<open>Steps of the executor\<close>

lemma canRun_core: "sched_core (snd (canRun s)) = sched_core s"
  by (simp add: canRun_def sched_core_def)

lemma canRun_True:
  "canRun s = (True, s1) \<Longrightarrow> g_run_queue s1 \<noteq> [] \<and> g_running_fiber s1 = None \<and> \<not> g_guest_token_held_by_host s1"
  by (auto simp: canRun_def split: if_splits)

text \<open>The resume bracket: the head of the queue becomes the running fiber.\<close>

definition resume_head :: "ptr \<Rightarrow> fiber \<Rightarrow> ptr list \<Rightarrow> sched \<Rightarrow> sched" where
  "resume_head p f ps s =
     s\<lparr>fibers := (fibers s)(p \<mapsto> f\<lparr>in_run_queue := False, fc_state := Running\<rparr>), g_run_queue := ps,
       g_running_fiber := Some p, tls_current_fiber := Some p, g_currentThreadId := fc_tid f,
       yielding := False\<rparr>"

lemma resume_head_inv:
  assumes inv: "sched_inv s" and q: "g_run_queue s = p # ps" and f: "fibers s p = Some f"
    and free: "g_running_fiber s = None" "\<not> g_guest_token_held_by_host s" "executor_alive s"
  shows "sched_inv (resume_head p f ps s)"
proof -
  let ?s = "resume_head p f ps s"
  have own: "fiber_owned s p f" and notin: "p \<notin> set ps" and okf: "fc_suspendCount f \<ge> 0"
    using inv q f by (auto simp: sched_inv_def queue_ok_def fibers_ok_def fiber_ok_def)
  have prio: "fiber_prio ?s = fiber_prio s"
    using f by (auto simp: resume_head_def fiber_prio_def fun_eq_iff)
  have "queue_ok ?s"
    using inv q f notin unfolding sched_inv_def queue_ok_def prio
    by (auto simp: resume_head_def fiber_owned_def)
  moreover have "fibers_ok {} ?s"
  proof -
    have "fiber_ok ?s x g" if "fibers ?s x = Some g" for x g
    proof (cases "x = p")
      case True
      with that okf show ?thesis by (auto simp: resume_head_def fiber_ok_def running_ok_def)
    next
      case False
      with that have "fibers s x = Some g" by (simp add: resume_head_def)
      with inv have "fiber_ok s x g" by (auto simp: sched_inv_def fibers_ok_def)
      with False free show ?thesis by (simp add: resume_head_def fiber_ok_def fiber_owned_def)
    qed
    then show ?thesis by (simp add: fibers_ok_def)
  qed
  moreover have "map_ok ?s" using inv f by (fastforce simp: sched_inv_def map_ok_def resume_head_def)
  moreover have "slot_ok ?s" using inv free own by (simp add: sched_inv_def slot_ok_def resume_head_def fiber_owned_def)
  ultimately show ?thesis by (simp add: sched_inv_def)
qed

lemma exec_dispatch_cases:
  assumes inv: "sched_inv s" and "executor_alive s"
  shows "(canQuit s \<and> exec_dispatch s = (Quit, s\<lparr>executor_alive := False\<rparr>))
    \<or> (\<not> canQuit s \<and> \<not> fst (canRun s) \<and> exec_dispatch s = (Slept, snd (canRun s)))
    \<or> (\<not> canQuit s \<and> fst (canRun s) \<and> (\<exists>p f ps. g_run_queue s = p # ps \<and> fibers s p = Some f
          \<and> exec_dispatch s = (Resumed p, resume_head p f ps (snd (canRun s)))))"
proof (cases "\<not> canQuit s \<and> fst (canRun s)")
  case True
  obtain s1 where c: "canRun s = (True, s1)" using True by (cases "canRun s") auto
  have core: "sched_core s1 = sched_core s" using canRun_core [of s] c by simp
  obtain p ps where q: "g_run_queue s1 = p # ps" using canRun_True [OF c] by (cases "g_run_queue s1") auto
  with core have q0: "g_run_queue s = p # ps" "fibers s1 = fibers s" by (simp_all add: sched_core_def)
  with inv obtain f where f: "fibers s p = Some f" by (auto simp: sched_inv_def queue_ok_def)
  have "exec_dispatch s = (Resumed p, resume_head p f ps s1)"
    using True c q f q0 by (simp add: exec_dispatch_def pop_head_locked_def resume_head_def upd_fiber_def)
  with True c q0 f show ?thesis by simp
qed (cases "canRun s"; auto simp: exec_dispatch_def)

lemma exec_dispatch_inv:
  assumes inv: "sched_inv s" and alive: "executor_alive s" and idle: "g_running_fiber s = None"
  shows "sched_inv (snd (exec_dispatch s))"
proof -
  have core: "sched_core (snd (canRun s)) = sched_core s" by (rule canRun_core)
  then have inv1: "sched_inv (snd (canRun s))" using inv sched_inv_cong by blast
  have quit: "sched_inv (s\<lparr>executor_alive := False\<rparr>)"
  proof -
    have "fiber_ok (s\<lparr>executor_alive := False\<rparr>) = fiber_ok s" "fiber_prio (s\<lparr>executor_alive := False\<rparr>) = fiber_prio s"
      "fiber_owned (s\<lparr>executor_alive := False\<rparr>) = fiber_owned s"
      by (simp_all add: fun_eq_iff fiber_ok_def fiber_prio_def fiber_owned_def)
    with inv idle show ?thesis by (simp add: sched_inv_def queue_ok_def fibers_ok_def map_ok_def slot_ok_def)
  qed
  have "sched_inv (resume_head p f ps (snd (canRun s)))"
    if "fst (canRun s)" "g_run_queue s = p # ps" "fibers s p = Some f" for p f ps
    using that inv1 canRun_True [of s "snd (canRun s)"] core alive
    by (intro resume_head_inv) (cases "canRun s"; auto simp: sched_core_def)+
  with exec_dispatch_cases [OF inv alive] inv1 quit show ?thesis by fastforce
qed

text \<open>Destroying an off-queue fiber that is not running.\<close>

lemma erase_inv:
  assumes but: "sched_inv_but p s" and run: "g_running_fiber s = None"
    and f: "fibers s p = Some f" "fiber_owned s p f" "\<not> in_run_queue f"
  defines "s2 \<equiv> s\<lparr>fibers := (fibers s)(p := None), g_fiber_map := (g_fiber_map s)(fc_tid f := None)\<rparr>"
  shows "sched_inv s2"
proof -
  from but have q: "queue_ok s" by (simp add: sched_inv_but_def)
  have notq: "p \<notin> set (g_run_queue s)" using q f by (auto simp: queue_ok_def)
  have own: "fiber_owned s2 x g = fiber_owned s x g" if "x \<noteq> p" for x g
    using that f(2) by (auto simp: fiber_owned_def s2_def)
  have fs: "fibers s2 x = (if x = p then None else fibers s x)" "g_run_queue s2 = g_run_queue s" for x
    by (simp_all add: s2_def)
  have "map (fiber_prio s2) (g_run_queue s) = map (fiber_prio s) (g_run_queue s)"
    using notq by (auto simp: fiber_prio_def fs)
  then have srt: "sorted (map (fiber_prio s2) (g_run_queue s))"
    using q by (simp only: queue_ok_def)
  have "\<exists>g. fibers s2 x = Some g \<and> fiber_owned s2 x g" if "x \<in> set (g_run_queue s)" for x
    using that q notq own by (auto simp: queue_ok_def fs)
  with srt q have "queue_ok s2" by (simp add: queue_ok_def fs)
  moreover have "fibers_ok {} s2"
    using but own by (auto simp: sched_inv_but_def fibers_ok_def fs fiber_ok_def s2_def split: if_splits)
  moreover have "map_ok s2"
  proof -
    have m: "g_fiber_map s tid = Some x \<Longrightarrow> \<exists>g. fibers s x = Some g \<and> fc_tid g = tid" for tid x
      using but by (auto simp: sched_inv_but_def map_ok_def)
    from m [of _ p] f(1) have "g_fiber_map s tid = Some p \<Longrightarrow> tid = fc_tid f" for tid by fastforce
    with m show ?thesis by (auto simp: map_ok_def s2_def)
  qed
  moreover have "slot_ok s2" using but run by (simp add: sched_inv_but_def slot_ok_def s2_def)
  ultimately show ?thesis by (simp add: sched_inv_def)
qed

lemma exec_post_inv:
  assumes inv: "sched_inv s" and run: "g_running_fiber s = Some p" "yielding s"
  shows "sched_inv (exec_post s)"
proof -
  let ?s1 = "s\<lparr>g_guest_resumes := g_guest_resumes s + 1, tls_current_fiber := None,
                   g_currentThreadId := -1, g_running_fiber := None, yielding := False\<rparr>"
  from inv run obtain f where f: "fibers s p = Some f" "fiber_owned s p f"
    by (auto simp: sched_inv_def slot_ok_def)
  with inv have okf: "fiber_ok s p f" by (auto simp: sched_inv_def fibers_ok_def)
  have prio: "fiber_prio ?s1 = fiber_prio s" "fiber_owned ?s1 = fiber_owned s"
    by (simp_all add: fun_eq_iff fiber_prio_def fiber_owned_def)
  have ok_other: "fiber_ok ?s1 x g = fiber_ok s x g" if "x \<noteq> p" for x g
    using that run by (simp add: fiber_ok_def prio)
  have okp: "fiber_ok ?s1 p f" if "in_run_queue f"
    using that okf by (simp add: fiber_ok_def)
  have but: "sched_inv_but p ?s1"
    using inv f okf ok_other okp
    by (simp add: sched_inv_def sched_inv_but_def queue_ok_def prio map_ok_def slot_ok_def fibers_ok_def)
       (simp add: fiber_ok_def)
  have post: "sched_inv (exec_post_fiber p f ?s1)"
  proof (cases "fc_state f")
    case Fresh
    with okf run show ?thesis by (simp add: fiber_ok_def running_ok_def)
  next
    case Ready
    with okf have "fiber_ok ?s1 p f" by (simp add: fiber_ok_def)
    with but_to_inv [OF but] f Ready show ?thesis by (simp add: exec_post_fiber_def)
  next
    case Blocked
    have "sched_inv (enqueue_locked p (upd_fiber p (\<lambda>f. f\<lparr>wake_pending := False\<rparr>) ?s1))"
      using but by (intro enqueue_locked_inv sched_inv_but_upd_fiber)
        (auto simp: sched_simps fiber_ok_def fiber_owned_def)
    moreover have "sched_inv ?s1" if "\<not> (wake_pending f \<and> fc_suspendCount f = 0)"
      using f okf Blocked that
      by (intro but_to_inv [OF but, of f]) (auto simp: fiber_ok_def parked_ok_def fiber_owned_def)
    ultimately show ?thesis using Blocked by (simp add: exec_post_fiber_def)
  next
    case Finished
    with okf have "\<not> in_run_queue f" by (simp add: fiber_ok_def)
    with f prio erase_inv [OF but] Finished show ?thesis
      by (simp add: exec_post_fiber_def fiber_owned_def)
  qed (use but in \<open>auto simp: exec_post_fiber_def intro!: enqueue_locked_inv\<close>)
  with f run show ?thesis by (simp add: exec_post_def)
qed

subsection \<open>Host threads, creation and shutdown\<close>

lemma rotate_ready_queue_inv:
  assumes inv: "sched_inv s" shows "sched_inv (rotate_ready_queue k s)"
proof -
  let ?s = "rotate_ready_queue k s"
  have same: "fiber_prio ?s = fiber_prio s" "fiber_ok ?s = fiber_ok s" "fiber_owned ?s = fiber_owned s"
    "fibers ?s = fibers s" "set (g_run_queue ?s) = set (g_run_queue s)"
    by (simp_all add: rotate_ready_queue_def fun_eq_iff fiber_prio_def fiber_ok_def fiber_owned_def)
  have "queue_ok ?s"
    using inv unfolding sched_inv_def queue_ok_def same
    by (simp add: rotate_ready_queue_def sorted_rotate_group)
  moreover have "map_ok ?s" "slot_ok ?s"
    using inv unfolding sched_inv_def map_ok_def slot_ok_def same by (simp_all add: rotate_ready_queue_def)
  ultimately show ?thesis using inv by (simp add: sched_inv_def fibers_ok_def same)
qed

text \<open>The token operations change only what \<open>slot_ok\<close> speaks about.\<close>

lemma slot_change_inv:
  assumes "sched_inv s" "slot_ok s'"
    and "fibers s' = fibers s" "g_run_queue s' = g_run_queue s" "g_running_fiber s' = g_running_fiber s"
      "g_fiber_map s' = g_fiber_map s" "yielding s' = yielding s"
  shows "sched_inv s'"
proof -
  have "fiber_prio s' = fiber_prio s" "fiber_ok s' = fiber_ok s" "fiber_owned s' = fiber_owned s"
    using assms(3-) by (simp_all add: fun_eq_iff fiber_prio_def fiber_ok_def fiber_owned_def)
  with assms show ?thesis by (simp add: sched_inv_def queue_ok_def fibers_ok_def map_ok_def)
qed

lemma async_guest_wait_inv: "sched_inv s \<Longrightarrow> sched_inv (async_guest_wait s)"
  by (rule slot_change_inv [of s])
     (auto simp: async_guest_wait_def sched_inv_def slot_ok_def fiber_owned_def)

lemma async_guest_grant_inv:
  "sched_inv s \<Longrightarrow> async_guest_ready s \<Longrightarrow> g_host_token_waiters s > 0 \<Longrightarrow> sched_inv (async_guest_grant s)"
  by (rule slot_change_inv [of s])
     (auto simp: async_guest_grant_def async_guest_ready_def sched_inv_def slot_ok_def fiber_owned_def)

lemma async_guest_end_inv:
  "sched_inv s \<Longrightarrow> async_guest_end h s = Some s' \<Longrightarrow> sched_inv s'"
  by (rule slot_change_inv [of s])
     (auto simp: async_guest_end_def sched_inv_def slot_ok_def fiber_owned_def split: if_splits)

lemma intr_gate_inv:
  "sched_inv s \<Longrightarrow> sched_inv (ps2x_guest_intr_disable_enter s)"
  "sched_inv s \<Longrightarrow> sched_inv (ps2x_guest_intr_disable_leave s)"
  using sched_inv_cong [of "ps2x_guest_intr_disable_enter s" s]
    sched_inv_cong [of "ps2x_guest_intr_disable_leave s" s]
  by (simp_all add: sched_core_def ps2x_guest_intr_disable_enter_def ps2x_guest_intr_disable_leave_def)

lemma fiber_new_fields [sched_simps]:
  "fc_tid (fiber_new gen tid prio entry sp gp arg) = tid"
  "fc_priority (fiber_new gen tid prio entry sp gp arg) = prio"
  "fc_generation (fiber_new gen tid prio entry sp gp arg) = gen"
  "fc_state (fiber_new gen tid prio entry sp gp arg) = Fresh"
  "\<not> in_run_queue (fiber_new gen tid prio entry sp gp arg)"
  "\<not> wake_pending (fiber_new gen tid prio entry sp gp arg)"
  "\<not> terminateRequested (fiber_new gen tid prio entry sp gp arg)"
  "fc_suspendCount (fiber_new gen tid prio entry sp gp arg) = 0"
  "\<not> joinFloorActive (fiber_new gen tid prio entry sp gp arg)"
  by (simp_all add: fiber_new_def Let_def)

lemma create_fiber_build_inv:
  assumes inv: "sched_inv s" and fresh: "fibers s p = None"
  shows "sched_inv (create_fiber_build p tid prio entry sp gp arg s)"
proof -
  let ?f = "fiber_new (s_nextGeneration s) tid prio entry sp gp arg"
  let ?s = "create_fiber_build p tid prio entry sp gp arg s"
  have fs: "fibers ?s x = (if x = p then Some ?f else fibers s x)" "g_run_queue ?s = g_run_queue s"
    "g_fiber_map ?s = g_fiber_map s" "g_running_fiber ?s = g_running_fiber s" for x
    by (simp_all add: create_fiber_build_def)
  have ok: "fiber_ok ?s = fiber_ok s" "fiber_owned ?s = fiber_owned s"
    by (simp_all add: create_fiber_build_def fun_eq_iff fiber_ok_def fiber_owned_def)
  have nm: "g_fiber_map s t \<noteq> Some p" "p \<notin> set (g_run_queue s)" "g_running_fiber s \<noteq> Some p" for t
    using fresh sched_inv_live [OF inv] by blast+
  have "map (fiber_prio ?s) (g_run_queue s) = map (fiber_prio s) (g_run_queue s)"
    using nm by (auto simp: fiber_prio_def fs)
  then have "sorted (map (fiber_prio ?s) (g_run_queue s))"
    using inv by (simp only: sched_inv_def queue_ok_def)
  moreover have "\<exists>g. fibers ?s x = Some g \<and> fiber_owned s x g" if "x \<in> set (g_run_queue s)" for x
    using that nm inv by (auto simp: sched_inv_def queue_ok_def fs)
  ultimately have "queue_ok ?s"
    using inv nm unfolding sched_inv_def queue_ok_def ok fs by (auto simp: sched_simps)
  moreover have "fiber_ok s p ?f" using nm by (simp add: fiber_ok_def fiber_owned_def sched_simps)
  then have "fibers_ok {} ?s" using inv unfolding sched_inv_def fibers_ok_def ok fs by auto
  moreover have "map_ok ?s" using inv nm by (fastforce simp: sched_inv_def map_ok_def fs)
  moreover have "slot_ok ?s"
    using inv nm unfolding sched_inv_def slot_ok_def ok fs by (auto simp: create_fiber_build_def)
  ultimately show ?thesis by (simp add: sched_inv_def)
qed

text \<open>
  Publishing, under the caller's obligation that the thread id has no fiber yet; otherwise the
  assignment would destroy a fiber that may still be queued or running.
\<close>

lemma create_fiber_publish_inv:
  assumes inv: "sched_inv s" and f: "fibers s p = Some f" "fc_state f = Fresh" "fc_tid f = tid"
    and free: "g_fiber_map s tid = None"
  shows "sched_inv (create_fiber_publish p tid s)"
proof -
  let ?s = "s\<lparr>g_fiber_map := (g_fiber_map s)(tid \<mapsto> p)\<rparr>"
  have okf: "fiber_ok s p f" using inv f by (auto simp: sched_inv_def fibers_ok_def)
  have nq: "\<not> in_run_queue f" and nr: "g_running_fiber s \<noteq> Some p"
    using okf f free inv by (auto simp: fiber_ok_def sched_inv_def slot_ok_def fiber_owned_def)
  have own: "fiber_owned ?s x g = (if x = p \<and> fc_tid g = tid then True else fiber_owned s x g)"
    if "fc_tid g = tid \<Longrightarrow> x = p" for x g
    using that free by (auto simp: fiber_owned_def)
  have prio: "fiber_prio ?s = fiber_prio s" by (simp add: fiber_prio_def fun_eq_iff)
  have keep: "fiber_owned s x g \<Longrightarrow> fiber_owned ?s x g" for x g
    using free by (auto simp: fiber_owned_def)
  have "queue_ok ?s" using inv keep unfolding sched_inv_def queue_ok_def prio by fastforce
  moreover have "fibers_ok {p} ?s"
  proof -
    have "fiber_owned ?s x g = fiber_owned s x g" if "x \<noteq> p" for x g
      using that free by (auto simp: fiber_owned_def)
    then have "fiber_ok ?s x g = fiber_ok s x g" if "x \<noteq> p" for x g
      using that by (simp add: fiber_ok_def)
    with inv show ?thesis by (simp add: sched_inv_def fibers_ok_def)
  qed
  moreover have "map_ok ?s" using inv f by (auto simp: sched_inv_def map_ok_def)
  moreover have "slot_ok ?s" using inv keep by (auto simp: sched_inv_def slot_ok_def)
  ultimately have "sched_inv_but p ?s"
    using f nq okf by (simp add: sched_inv_but_def fiber_owned_def fiber_ok_def)
  then have "sched_inv (enqueue_locked p ?s)" by (rule enqueue_locked_inv) (use nr in auto)
  then show ?thesis using free by (simp add: create_fiber_publish_def)
qed

lemma destroy_mapped_inv:
  assumes inv: "sched_inv s" and idle: "g_running_fiber s = None"
  shows "sched_inv ((destroy_mapped s)\<lparr>g_run_queue := []\<rparr>)"
proof -
  have "fc_state f = Fresh \<and> fc_suspendCount f \<ge> 0 \<and> \<not> in_run_queue f"
    if "fibers s p = Some f" "\<not> fiber_owned s p f" for p f
  proof -
    from that inv have "p \<notin> set (g_run_queue s)" by (auto simp: sched_inv_def queue_ok_def)
    with that inv have "\<not> in_run_queue f" "fiber_ok s p f"
      by (auto simp: sched_inv_def queue_ok_def fibers_ok_def)
    with idle that show ?thesis by (auto simp: fiber_ok_def)
  qed
  note left = this
  let ?t = "(destroy_mapped s)\<lparr>g_run_queue := []\<rparr>"
  have fs: "fc_state f = Fresh \<and> fc_suspendCount f \<ge> 0 \<and> \<not> in_run_queue f"
    if "fibers ?t p = Some f" for p f
    using that left [of p f] by (auto simp: destroy_mapped_def fiber_owned_def split: option.splits if_splits)
  have "queue_ok ?t" using fs by (auto simp: queue_ok_def)
  moreover have "fiber_ok ?t p f" if "fibers ?t p = Some f" for p f
    using fs [OF that] idle by (simp add: destroy_mapped_def fiber_ok_def fiber_owned_def)
  then have "fibers_ok {} ?t" unfolding fibers_ok_def by blast
  moreover have "map_ok ?t" "slot_ok ?t"
    using inv idle by (simp_all add: destroy_mapped_def map_ok_def slot_ok_def sched_inv_def)
  ultimately show ?thesis by (simp add: sched_inv_def)
qed

lemma shutdown_final_inv: "sched_inv s \<Longrightarrow> g_running_fiber s = None \<Longrightarrow> sched_inv (shutdown_final s)"
  unfolding shutdown_final_def by (rule destroy_mapped_inv)

lemma dead_executor_idle: "sched_inv s \<Longrightarrow> \<not> executor_alive s \<Longrightarrow> g_running_fiber s = None"
  by (cases "g_running_fiber s") (auto simp: sched_inv_def slot_ok_def)

lemma scheduler_init_inv:
  assumes inv: "sched_inv s" and init: "scheduler_init s = Some s'"
  shows "sched_inv s'"
proof -
  from init have dead: "\<not> executor_alive s"
    by (auto simp: scheduler_init_def destroy_mapped_def Let_def split: if_splits)
  let ?t = "(destroy_mapped s)\<lparr>g_run_queue := []\<rparr>"
  have idle: "g_running_fiber s = None" using dead_executor_idle [OF inv dead] .
  have t: "sched_inv ?t" using destroy_mapped_inv [OF inv idle] .
  show ?thesis
  proof (rule slot_change_inv [OF t])
    show "slot_ok s'" using t init
      by (auto simp: scheduler_init_def Let_def sched_inv_def slot_ok_def split: if_splits)
  qed (use init idle t in \<open>auto simp: scheduler_init_def Let_def destroy_mapped_def sched_inv_def slot_ok_def
        split: if_splits\<close>)
qed

lemma sched0_inv: "sched_inv sched0"
  by (simp add: sched0_def sched_inv_def queue_ok_def fibers_ok_def map_ok_def slot_ok_def)

section \<open>The transition system\<close>

text \<open>The failed allocation of \<open>create_fiber\<close> destroys the unpublished object.\<close>

definition create_fiber_drop :: "ptr \<Rightarrow> sched \<Rightarrow> sched" where
  "create_fiber_drop p s = s\<lparr>fibers := (fibers s)(p := None)\<rparr>"

lemma create_fiber_drop_inv:
  assumes inv: "sched_inv s" and f: "fibers s p = Some f" "\<not> fiber_owned s p f"
  shows "sched_inv (create_fiber_drop p s)"
proof -
  let ?s = "create_fiber_drop p s"
  have fs: "fibers ?s x = (if x = p then None else fibers s x)" "g_run_queue ?s = g_run_queue s"
    "g_running_fiber ?s = g_running_fiber s" "g_fiber_map ?s = g_fiber_map s" for x
    by (simp_all add: create_fiber_drop_def)
  have ok: "fiber_ok ?s = fiber_ok s" "fiber_owned ?s = fiber_owned s"
    by (simp_all add: create_fiber_drop_def fun_eq_iff fiber_ok_def fiber_owned_def)
  have np: "p \<notin> set (g_run_queue s)" "g_running_fiber s \<noteq> Some p" "g_fiber_map s t \<noteq> Some p" for t
    using inv f unfolding sched_inv_def queue_ok_def slot_ok_def map_ok_def fiber_owned_def
    by fastforce+
  have "map (fiber_prio ?s) (g_run_queue s) = map (fiber_prio s) (g_run_queue s)"
    using np by (auto simp: fiber_prio_def fs)
  then have "sorted (map (fiber_prio ?s) (g_run_queue s))"
    using inv by (simp only: sched_inv_def queue_ok_def)
  moreover have "\<exists>g. fibers ?s x = Some g \<and> fiber_owned s x g" if "x \<in> set (g_run_queue s)" for x
    using that np inv by (auto simp: sched_inv_def queue_ok_def fs)
  ultimately have "queue_ok ?s"
    using inv unfolding sched_inv_def queue_ok_def ok fs by auto
  moreover have "fibers_ok {} ?s" using inv unfolding sched_inv_def fibers_ok_def ok fs by auto
  moreover have "map_ok ?s" using inv np by (fastforce simp: sched_inv_def map_ok_def fs)
  moreover have "slot_ok ?s"
    using inv np unfolding sched_inv_def slot_ok_def ok fs by (auto simp: create_fiber_drop_def)
  ultimately show ?thesis by (simp add: sched_inv_def)
qed

text \<open>
  Rules without a guard may be taken by any thread at any time; \<open>executing s p\<close> marks the code
  of the running fiber, which may reach any of these calls in any order.
\<close>

inductive sched_step :: "sched \<Rightarrow> sched \<Rightarrow> bool" where
  init: "scheduler_init s = Some s' \<Longrightarrow> sched_step s s'"
| dispatch: "executor_alive s \<Longrightarrow> g_running_fiber s = None \<Longrightarrow> sched_step s (snd (exec_dispatch s))"
| post: "g_running_fiber s = Some p \<Longrightarrow> yielding s \<Longrightarrow> sched_step s (exec_post s)"
| exiting: "executing s p \<Longrightarrow> sched_step s (fiber_mark_exiting p s)"
| finished: "executing s p \<Longrightarrow> sched_step s (ps2fiber_yield (fiber_mark_finished p s))"
| arm: "executing s p \<Longrightarrow> sched_step s (arm_park (Some p) s)"
| block: "executing s p \<Longrightarrow> sched_step s (snd (block_current (Some p) s))"
| suspend_me: "executing s p \<Longrightarrow> sched_step s (suspend_self_count (Some p) s)"
| yield_higher: "executing s p \<Longrightarrow> sched_step s (snd (maybe_yield (Some p) s))"
| reschedule: "executing s p \<Longrightarrow> sched_step s (snd (force_reschedule (Some p) s))"
| backedge: "executing s p \<Longrightarrow> sched_step s (snd (yield_point (Some p) s))"
| backedge2: "executing s p \<Longrightarrow> sched_step s (snd (yield_point_waiters s))"
| join_wait: "executing s p \<Longrightarrow> sched_step s (snd (join_iter (Some p) tid gen s))"
| join_leave: "executing s p \<Longrightarrow> join_restore (Some p) s = Some s' \<Longrightarrow> sched_step s s'"
| intr_off: "executing s p \<Longrightarrow> sched_step s (ps2x_guest_intr_disable_enter s)"
| intr_on: "executing s p \<Longrightarrow> sched_step s (ps2x_guest_intr_disable_leave s)"
| ready: "sched_step s (make_ready tid s)"
| external: "sched_step s (enqueue_external_wakeup_validated tid token s)"
| terminate: "sched_step s (request_terminate tid s)"
| suspend: "sched_step s (suspend_other tid s)"
| resume: "sched_step s (clear_suspend tid s)"
| reprioritize: "sched_step s (update_priority tid k s)"
| rotate: "sched_step s (rotate_ready_queue k s)"
| token_wait: "sched_step s (async_guest_wait s)"
| token_grant: "async_guest_ready s \<Longrightarrow> g_host_token_waiters s > 0 \<Longrightarrow> sched_step s (async_guest_grant s)"
| token_end: "async_guest_end h s = Some s' \<Longrightarrow> sched_step s s'"
| build: "fibers s p = None \<Longrightarrow> sched_step s (create_fiber_build p tid prio entry sp gp arg s)"
| publish: "fibers s p = Some f \<Longrightarrow> fc_state f = Fresh \<Longrightarrow> fc_tid f = tid \<Longrightarrow> g_fiber_map s tid = None
    \<Longrightarrow> sched_step s (create_fiber_publish p tid s)"
| drop: "fibers s p = Some f \<Longrightarrow> \<not> fiber_owned s p f \<Longrightarrow> sched_step s (create_fiber_drop p s)"
| shutdown: "sched_step s (shutdown_mark order s)"
| shutdown_end: "\<not> executor_alive s \<Longrightarrow> sched_step s (shutdown_final s)"

lemmas sched_step_inv_rules =
  exec_dispatch_inv exec_post_inv fiber_mark_exiting_inv fiber_mark_finished_inv
  arm_park_inv block_current_inv suspend_self_count_inv
  yield_to_inv [where better = "(<)", folded maybe_yield_def]
  yield_to_inv [where better = "(\<le>)", folded force_reschedule_def]
  yield_point_inv join_iter_inv intr_gate_inv
  make_ready_inv enqueue_external_wakeup_validated_inv request_terminate_inv suspend_other_inv
  clear_suspend_inv update_priority_inv rotate_ready_queue_inv async_guest_wait_inv
  async_guest_grant_inv create_fiber_build_inv create_fiber_publish_inv
  create_fiber_drop_inv shutdown_mark_inv async_guest_end_inv scheduler_init_inv

lemma sched_step_preserves: "sched_step s s' \<Longrightarrow> sched_inv s \<Longrightarrow> sched_inv s'"
proof (induction rule: sched_step.induct)
  case (backedge2 s p)
  then show ?case using ps2fiber_yield_inv [of s p] by (simp add: yield_point_waiters_def)
next
  case (join_leave s p s')
  then show ?case using join_restore_inv [of s p] by auto
next
  case (shutdown_end s)
  then show ?case by (simp add: shutdown_final_inv dead_executor_idle)
qed (rule sched_step_inv_rules, assumption+)+

definition sched_reachable :: "sched \<Rightarrow> bool" where
  "sched_reachable s \<longleftrightarrow> sched_step\<^sup>*\<^sup>* sched0 s"

lemma sched_reachable_inv: "sched_reachable s \<Longrightarrow> sched_inv s"
proof -
  have "sched_step\<^sup>*\<^sup>* sched0 s \<Longrightarrow> sched_inv s"
    by (induction rule: rtranclp_induct) (auto intro: sched0_inv sched_step_preserves)
  then show "sched_reachable s \<Longrightarrow> sched_inv s" by (simp add: sched_reachable_def)
qed

lemma sched_reachable0: "sched_reachable sched0"
  by (simp add: sched_reachable_def)

lemma sched_reachable_step: "sched_reachable s \<Longrightarrow> sched_step s s' \<Longrightarrow> sched_reachable s'"
  by (simp add: sched_reachable_def)

end
