(* ===== verification/Kernel.thy ===== *)
theory Kernel
  imports SchedulerInv GuestMemory
begin

text \<open>
  What the kernel object syscalls of \<open>Kernel/Syscalls/\<close> share: the tables and objects of
  \<open>Helpers/State.h\<close>, and the helpers of \<open>Helpers/Runtime.h\<close> for looking objects up, publishing
  waiters, entering and leaving a wait, and for reading syscall parameters from guest memory.
  Objects held by \<open>shared_ptr\<close> are named by an address; they stay readable for as long as a
  blocked thread refers to them, also after they left their table.  The bounded logging of the
  syscalls is output only and is left out.
\<close>

section \<open>Constants\<close>

abbreviation (input) KE_OK :: int where "KE_OK \<equiv> 0"
abbreviation (input) KE_ERROR :: int where "KE_ERROR \<equiv> - 1"
abbreviation (input) KE_ILLEGAL_MODE :: int where "KE_ILLEGAL_MODE \<equiv> - 405"
abbreviation (input) KE_ILLEGAL_THID :: int where "KE_ILLEGAL_THID \<equiv> - 406"
abbreviation (input) KE_UNKNOWN_THID :: int where "KE_UNKNOWN_THID \<equiv> - 407"
abbreviation (input) KE_UNKNOWN_SEMID :: int where "KE_UNKNOWN_SEMID \<equiv> - 408"
abbreviation (input) KE_UNKNOWN_EVFID :: int where "KE_UNKNOWN_EVFID \<equiv> - 409"
abbreviation (input) KE_NOT_WAIT :: int where "KE_NOT_WAIT \<equiv> - 416"
abbreviation (input) KE_RELEASE_WAIT :: int where "KE_RELEASE_WAIT \<equiv> - 418"
abbreviation (input) KE_SEMA_ZERO :: int where "KE_SEMA_ZERO \<equiv> - 419"
abbreviation (input) KE_SEMA_OVF :: int where "KE_SEMA_OVF \<equiv> - 420"
abbreviation (input) KE_EVF_COND :: int where "KE_EVF_COND \<equiv> - 421"
abbreviation (input) KE_EVF_MULTI :: int where "KE_EVF_MULTI \<equiv> - 422"
abbreviation (input) KE_EVF_ILPAT :: int where "KE_EVF_ILPAT \<equiv> - 423"
abbreviation (input) KE_WAIT_DELETE :: int where "KE_WAIT_DELETE \<equiv> - 425"

abbreviation (input) THS_RUN :: int where "THS_RUN \<equiv> 0x01"
abbreviation (input) THS_READY :: int where "THS_READY \<equiv> 0x02"
abbreviation (input) THS_WAIT :: int where "THS_WAIT \<equiv> 0x04"
abbreviation (input) THS_SUSPEND :: int where "THS_SUSPEND \<equiv> 0x08"
abbreviation (input) THS_WAITSUSPEND :: int where "THS_WAITSUSPEND \<equiv> 0x0c"
abbreviation (input) THS_DORMANT :: int where "THS_DORMANT \<equiv> 0x10"

abbreviation (input) TSW_NONE :: int where "TSW_NONE \<equiv> 0"
abbreviation (input) TSW_SEMA :: int where "TSW_SEMA \<equiv> 2"
abbreviation (input) TSW_EVENT :: int where "TSW_EVENT \<equiv> 3"

section \<open>Objects and tables\<close>

record thread_info =
  ti_entry :: u32
  ti_stack :: u32
  ti_stackSize :: u32
  ti_gp :: u32
  ti_priority :: u32
  ti_attr :: u32
  ti_option :: u32
  ti_arg :: u32
  ti_started :: bool
  ti_ownsStack :: bool
  ti_tlsBase :: u32
  ti_status :: int
  ti_waitType :: int
  ti_waitId :: int
  ti_wakeupCount :: int
  ti_currentPriority :: int
  ti_suspendCount :: int
  ti_currentPc :: u32
  forceRelease :: bool
  terminated :: bool
  activeCounted :: bool

definition thread_info_init :: thread_info where
  "thread_info_init = \<lparr>ti_entry = 0, ti_stack = 0, ti_stackSize = 0, ti_gp = 0, ti_priority = 0,
     ti_attr = 0, ti_option = 0, ti_arg = 0, ti_started = False, ti_ownsStack = False, ti_tlsBase = 0,
     ti_status = THS_DORMANT, ti_waitType = TSW_NONE, ti_waitId = 0, ti_wakeupCount = 0,
     ti_currentPriority = 0, ti_suspendCount = 0, ti_currentPc = 0, forceRelease = False,
     terminated = False, activeCounted = False\<rparr>"

type_synonym waiter = "int \<times> u64"

record sema_info =
  s_count :: int
  s_maxCount :: int
  s_initCount :: int
  s_attr :: u32
  s_option :: u32
  s_waiters :: int
  s_deleted :: bool
  s_waitList :: "waiter list"

record event_flag_info =
  e_attr :: u32
  e_option :: u32
  e_initBits :: u32
  e_bits :: u32
  e_waiters :: int
  e_deleted :: bool
  e_waitList :: "waiter list"

text \<open>
  The tables map guest identifiers to objects; \<open>t_obj\<close>, \<open>s_obj\<close> and \<open>e_obj\<close> hold the objects by
  address and \<open>t_next\<close>, \<open>s_next\<close>, \<open>e_next\<close> are the next unused addresses of each kind.
\<close>

record kern =
  k_sched :: sched
  k_rdram :: bytes
  k_spad :: bytes
  g_threads :: "int \<rightharpoonup> nat"
  t_obj :: "nat \<Rightarrow> thread_info"
  t_next :: nat
  g_semas :: "int \<rightharpoonup> nat"
  g_nextSemaId :: int
  s_obj :: "nat \<Rightarrow> sema_info"
  s_next :: nat
  g_eventFlags :: "int \<rightharpoonup> nat"
  g_nextEventFlagId :: int
  e_obj :: "nat \<Rightarrow> event_flag_info"
  e_next :: nat

text \<open>
  The calling host thread: its \<open>g_currentThreadId\<close> (-1 for a borrowed worker) and its current
  fiber, if it runs on one.
\<close>

record caller =
  c_tid :: int
  c_self :: "ptr option"

definition on_sched :: "(sched \<Rightarrow> sched) \<Rightarrow> kern \<Rightarrow> kern" where
  "on_sched f k = k\<lparr>k_sched := f (k_sched k)\<rparr>"

definition upd_thread :: "nat \<Rightarrow> (thread_info \<Rightarrow> thread_info) \<Rightarrow> kern \<Rightarrow> kern" where
  "upd_thread t f k = k\<lparr>t_obj := (t_obj k)(t := f (t_obj k t))\<rparr>"

definition upd_sema :: "nat \<Rightarrow> (sema_info \<Rightarrow> sema_info) \<Rightarrow> kern \<Rightarrow> kern" where
  "upd_sema s f k = k\<lparr>s_obj := (s_obj k)(s := f (s_obj k s))\<rparr>"

definition upd_event :: "nat \<Rightarrow> (event_flag_info \<Rightarrow> event_flag_info) \<Rightarrow> kern \<Rightarrow> kern" where
  "upd_event e f k = k\<lparr>e_obj := (e_obj k)(e := f (e_obj k e))\<rparr>"

section \<open>Lookups\<close>

definition lookupThreadInfo :: "int \<Rightarrow> kern \<Rightarrow> nat option" where
  "lookupThreadInfo tid k = g_threads k tid"

definition lookupSemaInfo :: "int \<Rightarrow> kern \<Rightarrow> nat option" where
  "lookupSemaInfo sid k = g_semas k sid"

definition lookupEventFlagInfo :: "int \<Rightarrow> kern \<Rightarrow> nat option" where
  "lookupEventFlagInfo eid k = g_eventFlags k eid"

definition ensureCurrentThreadInfo :: "caller \<Rightarrow> r5900 \<Rightarrow> kern \<Rightarrow> nat \<times> kern" where
  "ensureCurrentThreadInfo c ctx k =
     (case g_threads k (c_tid c) of
        Some t \<Rightarrow> (t, k)
      | None \<Rightarrow>
          let t = t_next k;
              info = thread_info_init\<lparr>ti_started := True, ti_status := THS_RUN,
                       ti_currentPriority := to_int (ti_priority thread_info_init),
                       ti_suspendCount := 0, ti_entry := ctx_pc ctx, ti_stack := getRegU32 ctx 29,
                       ti_gp := getRegU32 ctx 28, ti_waitType := TSW_NONE, ti_waitId := 0\<rparr>
          in (t, k\<lparr>t_next := Suc t, t_obj := (t_obj k)(t := info),
                   g_threads := (g_threads k)(c_tid c \<mapsto> t)\<rparr>))"

definition resolveSelfOrThread ::
    "caller \<Rightarrow> r5900 \<Rightarrow> int \<Rightarrow> kern \<Rightarrow> (int + int \<times> nat) \<times> kern" where
  "resolveSelfOrThread c ctx tid0 k =
     (if tid0 = 0 \<and> c_tid c = - 1 then (Inl KE_ILLEGAL_THID, k)
      else let tid = (if tid0 = 0 then c_tid c else tid0)
        in if tid = c_tid c
           then (case ensureCurrentThreadInfo c ctx k of (t, k') \<Rightarrow> (Inr (tid, t), k'))
           else (case lookupThreadInfo tid k of
                   None \<Rightarrow> (Inl KE_UNKNOWN_THID, k) | Some t \<Rightarrow> (Inr (tid, t), k)))"

definition currentInfo :: "caller \<Rightarrow> r5900 \<Rightarrow> kern \<Rightarrow> nat option \<times> kern" where
  "currentInfo c ctx k =
     (if c_tid c \<noteq> - 1
      then (case ensureCurrentThreadInfo c ctx k of (t, k') \<Rightarrow> (Some t, k')) else (None, k))"

section \<open>Wait bookkeeping\<close>

definition isTerminated :: "nat option \<Rightarrow> kern \<Rightarrow> bool" where
  "isTerminated info k = (case info of None \<Rightarrow> False | Some t \<Rightarrow> terminated (t_obj k t))"

definition consumeForceRelease :: "nat option \<Rightarrow> kern \<Rightarrow> bool \<times> kern" where
  "consumeForceRelease info k =
     (case info of
        None \<Rightarrow> (False, k)
      | Some t \<Rightarrow> if forceRelease (t_obj k t)
                  then (True, upd_thread t (\<lambda>i. i\<lparr>forceRelease := False\<rparr>) k) else (False, k))"

definition setThreadWaiting :: "nat option \<Rightarrow> int \<Rightarrow> int \<Rightarrow> kern \<Rightarrow> kern" where
  "setThreadWaiting info ty ident k =
     (case info of
        None \<Rightarrow> k
      | Some t \<Rightarrow> upd_thread t (\<lambda>i. i\<lparr>
            ti_status := (if ti_suspendCount i > 0 then THS_WAITSUSPEND else THS_WAIT),
            ti_waitType := ty, ti_waitId := ident, forceRelease := False\<rparr>) k)"

definition clearThreadWaiting :: "nat option \<Rightarrow> kern \<Rightarrow> kern" where
  "clearThreadWaiting info k =
     (case info of
        None \<Rightarrow> k
      | Some t \<Rightarrow> upd_thread t (\<lambda>i. i\<lparr>
            ti_status := (if ti_suspendCount i > 0 then THS_SUSPEND else THS_RUN),
            ti_waitType := TSW_NONE, ti_waitId := 0\<rparr>) k)"

definition markSelfExitingLocked :: "thread_info \<Rightarrow> thread_info" where
  "markSelfExitingLocked i = i\<lparr>terminated := True, forceRelease := True, ti_waitType := TSW_NONE,
     ti_waitId := 0, ti_wakeupCount := 0\<rparr>"

text \<open>
  One test of the loop of \<open>waitWhileSuspended\<close>: the thread parks once more, leaves by the exit
  exception, or goes on as running.
\<close>

datatype susp_out = SPark | SThrow | SDone

definition waitWhileSuspended :: "nat option \<Rightarrow> kern \<Rightarrow> susp_out \<times> kern" where
  "waitWhileSuspended info k =
     (case info of
        None \<Rightarrow> (SDone, k)
      | Some t \<Rightarrow>
          if ti_suspendCount (t_obj k t) > 0 \<and> \<not> terminated (t_obj k t) then (SPark, k)
          else if terminated (t_obj k t) then (SThrow, k)
          else if ti_suspendCount (t_obj k t) = 0
            then (SDone, upd_thread t (\<lambda>i. i\<lparr>ti_status := THS_RUN\<rparr>) k)
          else (SDone, k))"

section \<open>Wait lists\<close>

definition publishWaiter :: "caller \<Rightarrow> kern \<Rightarrow> waiter list \<Rightarrow> waiter list" where
  "publishWaiter c k ws = ws @ [(c_tid c, current_fiber_token (c_self c) (k_sched k))]"

fun unpublishWaiter :: "int \<Rightarrow> waiter list \<Rightarrow> waiter list" where
  "unpublishWaiter tid [] = []"
| "unpublishWaiter tid (w # ws) = (if fst w = tid then ws else w # unpublishWaiter tid ws)"

definition wake_all :: "waiter list \<Rightarrow> sched \<Rightarrow> sched" where
  "wake_all ws s = fold (\<lambda>(tid, token). enqueue_external_wakeup_validated tid token) ws s"

text \<open>The wakeups of a list of waiters and, when there were any, the yield that follows.\<close>

definition wake_and_yield :: "caller \<Rightarrow> waiter list \<Rightarrow> kern \<Rightarrow> kern" where
  "wake_and_yield c ws k =
     (let k = on_sched (wake_all ws) k
      in if ws \<noteq> [] then on_sched (\<lambda>s. snd (maybe_yield (c_self c) s)) k else k)"

text \<open>\<open>NonFiberBackoff::wait\<close> up to the point where the caller gives up the processor.\<close>

definition backoff_wait :: "caller \<Rightarrow> sched \<Rightarrow> block_result \<times> sched" where
  "backoff_wait c s = block_current (c_self c) (if c_self c \<noteq> None then arm_park (c_self c) s else s)"

section \<open>Guest memory of the syscalls\<close>

definition guest_byte :: "kern \<Rightarrow> u32 \<Rightarrow> u8 option" where
  "guest_byte k a = (case getMemPtr False False a of
      None \<Rightarrow> None
    | Some (RdramPtr off) \<Rightarrow> Some (k_rdram k (unat off))
    | Some (ScratchPtr off) \<Rightarrow> Some (k_spad k (unat off)))"

text \<open>The result is the success flag and the value stored in the out parameter.\<close>

definition readGuestU32Safe :: "kern \<Rightarrow> u32 \<Rightarrow> bool \<times> u32" where
  "readGuestU32Safe k a =
     (case (guest_byte k a, guest_byte k (a + 1), guest_byte k (a + 2), guest_byte k (a + 3)) of
        (Some b0, Some b1, Some b2, Some b3) \<Rightarrow>
          (True, ucast b0 OR push_bit 8 (ucast b1) OR push_bit 16 (ucast b2) OR push_bit 24 (ucast b3))
      | _ \<Rightarrow> (False, 0))"

text \<open>
  A store of consecutive 32-bit words through a pointer that \<open>getMemPtr\<close> returned for the first
  one.
\<close>

definition store_words :: "host_ptr \<Rightarrow> u32 list \<Rightarrow> kern \<Rightarrow> kern" where
  "store_words p ws k =
     (let bs = concat (map (bytes_of_word 4) ws)
      in case p of
           RdramPtr off \<Rightarrow> k\<lparr>k_rdram := copy_in (unat off) bs (k_rdram k)\<rparr>
         | ScratchPtr off \<Rightarrow> k\<lparr>k_spad := copy_in (unat off) bs (k_spad k)\<rparr>)"

section \<open>Lemmas on the helpers\<close>

lemma upd_fields [kern_simps]:
  "g_semas (upd_thread t f k) = g_semas k" "s_obj (upd_thread t f k) = s_obj k"
  "s_next (upd_thread t f k) = s_next k" "g_nextSemaId (upd_thread t f k) = g_nextSemaId k"
  "k_sched (upd_thread t f k) = k_sched k"
  "g_semas (upd_sema s g k) = g_semas k" "s_next (upd_sema s g k) = s_next k"
  "g_nextSemaId (upd_sema s g k) = g_nextSemaId k" "k_sched (upd_sema s g k) = k_sched k"
  "s_obj (upd_sema s g k) = (s_obj k)(s := g (s_obj k s))" "t_obj (upd_sema s g k) = t_obj k"
  "g_threads (upd_sema s g k) = g_threads k"
  "g_semas (on_sched h k) = g_semas k" "s_obj (on_sched h k) = s_obj k"
  "s_next (on_sched h k) = s_next k" "g_nextSemaId (on_sched h k) = g_nextSemaId k"
  "k_sched (on_sched h k) = h (k_sched k)"
  by (simp_all add: upd_thread_def upd_sema_def on_sched_def)

text \<open>The semaphore part of the state, which only the semaphore syscalls change.\<close>

definition sema_part :: "kern \<Rightarrow> (int \<rightharpoonup> nat) \<times> int \<times> (nat \<Rightarrow> sema_info) \<times> nat" where
  "sema_part k = (g_semas k, g_nextSemaId k, s_obj k, s_next k)"

lemma sema_part_helpers [kern_simps]:
  "sema_part (snd (consumeForceRelease info k)) = sema_part k"
  "sema_part (setThreadWaiting info ty ident k) = sema_part k"
  "sema_part (clearThreadWaiting info k) = sema_part k"
  "sema_part (snd (currentInfo c ctx k)) = sema_part k"
  "sema_part (wake_and_yield c ws k) = sema_part k"
  "sema_part (on_sched f k) = sema_part k"
  "sema_part (snd (waitWhileSuspended info k)) = sema_part k"
  by (auto simp: sema_part_def consumeForceRelease_def setThreadWaiting_def clearThreadWaiting_def
      currentInfo_def ensureCurrentThreadInfo_def wake_and_yield_def waitWhileSuspended_def
      kern_simps Let_def split: option.splits prod.splits)

lemma sema_part_eqD:
  "sema_part k = sema_part k' \<Longrightarrow> g_semas k = g_semas k'"
  "sema_part k = sema_part k' \<Longrightarrow> s_obj k = s_obj k'"
  "sema_part k = sema_part k' \<Longrightarrow> s_next k = s_next k'"
  by (simp_all add: sema_part_def)

lemma unpublish_count:
  "length (filter (\<lambda>w. fst w = t) (unpublishWaiter tid ws)) =
     (if t = tid then length (filter (\<lambda>w. fst w = t) ws) - 1 else length (filter (\<lambda>w. fst w = t) ws))"
  by (induction ws) auto

lemma guest_byte_total: "guest_byte k a \<noteq> None"
  by (auto simp: guest_byte_def getMemPtr_def ps2ResolveGuestPointer_def Let_def
      split: option.splits prod.splits if_splits host_ptr.splits)

lemma readGuestU32Safe_ok: "fst (readGuestU32Safe k a)"
  using guest_byte_total [of k a] guest_byte_total [of k "a + 1"] guest_byte_total [of k "a + 2"]
    guest_byte_total [of k "a + 3"]
  by (auto simp: readGuestU32Safe_def split: option.splits)

end
