(* ===== verification/Semaphore.thy ===== *)
theory Semaphore
  imports Kernel
begin

text \<open>
  The semaphore syscalls of \<open>Kernel/Syscalls/Sync.cpp\<close>.  A syscall takes the caller, its CPU
  context and the kernel state.  \<open>WaitSema\<close> gives the processor up in the middle, so it is cut at
  its waits: \<open>WaitSema\<close> runs to the first wait, \<open>WaitSema_wake\<close> from the return of the wait to
  the next one, both under the lock of the semaphore.
\<close>

section \<open>CreateSema\<close>

definition looksLikeGuestPointerOrNull :: "u32 \<Rightarrow> bool" where
  "looksLikeGuestPointerOrNull v = (v = 0 \<or> (v AND 0x1FFFFFFF) < PS2_RAM_SIZE)"

record sema_params =
  p_init :: int
  p_max :: int
  p_attr :: u32
  p_option :: u32

definition countLooksPlausible :: "int \<Rightarrow> bool" where
  "countLooksPlausible v = (v > 0 \<and> v \<le> 0x10000)"

text \<open>
  \<open>param\<close> is the array of six words; only the first \<open>n\<close> of them were readable.
\<close>

definition decodeCreateSemaParams :: "u32 list \<Rightarrow> nat \<Rightarrow> sema_params" where
  "decodeCreateSemaParams param n =
     (let out = \<lparr>p_init = 0, p_max = 1, p_attr = 0, p_option = 0\<rparr>
      in if n = 0 then out
         else let
           hasEe = (n \<ge> 3);
           eeMax = (if hasEe then to_int (param ! 1) else 1);
           eeInit = (if hasEe then to_int (param ! 2) else 0);
           eeAttr = (if n \<ge> 5 then param ! 4 else 0);
           eeOption = (if n \<ge> 6 then param ! 5 else 0);
           hasLegacy = (n \<ge> 4);
           legacyMax = (if hasLegacy then to_int (param ! 3) else 1);
           legacyInit = (if hasLegacy then to_int (param ! 2) else 0);
           legacyAttr = (if hasLegacy then param ! 0 else 0);
           legacyOption = (if hasLegacy then param ! 1 else 0);
           useLegacy =
             (if hasLegacy \<and> hasEe \<and> countLooksPlausible legacyMax \<and> \<not> countLooksPlausible eeMax
              then True
              else if hasLegacy \<and> hasEe \<and> countLooksPlausible legacyMax \<and> countLooksPlausible eeMax
                \<and> \<not> looksLikeGuestPointerOrNull eeOption \<and> looksLikeGuestPointerOrNull legacyOption
              then True
              else hasLegacy \<and> \<not> hasEe)
         in if useLegacy \<and> hasLegacy
            then \<lparr>p_init = legacyInit, p_max = legacyMax, p_attr = legacyAttr, p_option = legacyOption\<rparr>
            else if \<not> hasEe then out
            else \<lparr>p_init = eeInit, p_max = eeMax, p_attr = eeAttr, p_option = eeOption\<rparr>)"

text \<open>Reading the parameter block, up to the first unreadable word.\<close>

fun read_params :: "kern \<Rightarrow> u32 \<Rightarrow> nat \<Rightarrow> u32 list" where
  "read_params k a 0 = []"
| "read_params k a (Suc n) =
     (case readGuestU32Safe k a of
        (True, v) \<Rightarrow> v # read_params k (a + 4) n | (False, _) \<Rightarrow> [])"

text \<open>
  The search for a free identifier; \<open>g_nextSemaId\<close> is an \<open>int\<close> and its increment wraps.
\<close>

definition int_inc :: "int \<Rightarrow> int" where
  "int_inc i = to_int (of_int32 i + 1)"

fun alloc_sema_id :: "nat \<Rightarrow> (int \<rightharpoonup> nat) \<Rightarrow> int \<Rightarrow> int option \<times> int" where
  "alloc_sema_id 0 semas nxt = (None, nxt)"
| "alloc_sema_id (Suc n) semas nxt =
     (let candidate = (if nxt \<le> 0 then 1 else nxt); nxt' = int_inc candidate
      in if semas candidate = None then (Some candidate, nxt') else alloc_sema_id n semas nxt')"

text \<open>The new object: the decoded parameters, brought into range.\<close>

definition new_sema :: "u32 list \<Rightarrow> sema_info" where
  "new_sema raw =
     (let d = decodeCreateSemaParams (raw @ replicate (6 - length raw) 0) (length raw);
          max = (if p_max d \<le> 0 then 1 else p_max d);
          init = (if p_init d < 0 then 0 else p_init d);
          init = (if init > max then max else init)
      in \<lparr>s_count = init, s_maxCount = max, s_initCount = init, s_attr = p_attr d,
          s_option = p_option d, s_waiters = 0, s_deleted = False, s_waitList = []\<rparr>)"

definition CreateSema :: "r5900 \<Rightarrow> kern \<Rightarrow> r5900 \<times> kern" where
  "CreateSema ctx k =
     (let paramAddr = getRegU32 ctx 4; raw = read_params k paramAddr 6
      in if paramAddr = 0 then (setReturnS32 ctx KE_ERROR, k)
         else if length raw < 3 then (setReturnS32 ctx KE_ERROR, k)
         else case alloc_sema_id 0x7FFF (g_semas k) (g_nextSemaId k) of
             (None, nxt) \<Rightarrow> (setReturnS32 ctx KE_ERROR, k\<lparr>g_nextSemaId := nxt\<rparr>)
           | (Some sid, nxt) \<Rightarrow>
               (setReturnS32 ctx sid,
                k\<lparr>g_nextSemaId := nxt, g_semas := (g_semas k)(sid \<mapsto> s_next k),
                  s_next := Suc (s_next k), s_obj := (s_obj k)(s_next k := new_sema raw)\<rparr>))"

lemma new_sema_ok:
  "0 \<le> s_initCount (new_sema raw)" "s_initCount (new_sema raw) \<le> s_maxCount (new_sema raw)"
  "0 < s_maxCount (new_sema raw)" "s_count (new_sema raw) = s_initCount (new_sema raw)"
  "s_waiters (new_sema raw) = 0" "s_waitList (new_sema raw) = []"
  by (simp_all add: new_sema_def Let_def)

section \<open>DeleteSema, SignalSema, PollSema, ReferSemaStatus\<close>

definition DeleteSema :: "caller \<Rightarrow> r5900 \<Rightarrow> kern \<Rightarrow> r5900 \<times> kern" where
  "DeleteSema c ctx k =
     (let sid = to_int (getRegU32 ctx 4)
      in case g_semas k sid of
           None \<Rightarrow> (setReturnS32 ctx KE_UNKNOWN_SEMID, k)
         | Some o1 \<Rightarrow>
             let ws = s_waitList (s_obj k o1);
                 k = k\<lparr>g_semas := (g_semas k)(sid := None)\<rparr>;
                 k = upd_sema o1 (\<lambda>s. s\<lparr>s_deleted := True, s_waitList := []\<rparr>) k
             in (setReturnS32 ctx sid, wake_and_yield c ws k))"

definition SignalSema :: "caller \<Rightarrow> r5900 \<Rightarrow> kern \<Rightarrow> r5900 \<times> kern" where
  "SignalSema c ctx k =
     (let sid = to_int (getRegU32 ctx 4)
      in case lookupSemaInfo sid k of
           None \<Rightarrow> (setReturnS32 ctx KE_UNKNOWN_SEMID, k)
         | Some o1 \<Rightarrow>
             let s = s_obj k o1
             in if s_count s \<ge> s_maxCount s then (setReturnS32 ctx KE_SEMA_OVF, k)
                else let
                  k = upd_sema o1 (\<lambda>s. s\<lparr>s_count := s_count s + 1, s_waitList := drop 1 (s_waitList s)\<rparr>) k
                in case s_waitList s of
                     [] \<Rightarrow> (setReturnS32 ctx sid, k)
                   | (tid, token) # _ \<Rightarrow>
                       (setReturnS32 ctx sid,
                        if tid \<noteq> 0 then
                          on_sched (\<lambda>s. snd (maybe_yield (c_self c) s))
                            (on_sched (enqueue_external_wakeup_validated tid token) k)
                        else k))"

definition PollSema :: "r5900 \<Rightarrow> kern \<Rightarrow> r5900 \<times> kern" where
  "PollSema ctx k =
     (let sid = to_int (getRegU32 ctx 4)
      in case lookupSemaInfo sid k of
           None \<Rightarrow> (setReturnS32 ctx KE_UNKNOWN_SEMID, k)
         | Some o1 \<Rightarrow>
             if s_count (s_obj k o1) > 0
             then (setReturnS32 ctx sid, upd_sema o1 (\<lambda>s. s\<lparr>s_count := s_count s - 1\<rparr>) k)
             else (setReturnS32 ctx KE_SEMA_ZERO, k))"

definition ReferSemaStatus :: "r5900 \<Rightarrow> kern \<Rightarrow> r5900 \<times> kern" where
  "ReferSemaStatus ctx k =
     (let sid = to_int (getRegU32 ctx 4); statusAddr = getRegU32 ctx 5
      in case lookupSemaInfo sid k of
           None \<Rightarrow> (setReturnS32 ctx KE_UNKNOWN_SEMID, k)
         | Some o1 \<Rightarrow>
             (case getMemPtr False False statusAddr of
                None \<Rightarrow> (setReturnS32 ctx KE_ERROR, k)
              | Some p \<Rightarrow>
                  let s = s_obj k o1
                  in (setReturnS32 ctx KE_OK,
                      store_words p [of_int32 (s_count s), of_int32 (s_maxCount s),
                        of_int32 (s_initCount s), of_int32 (s_waiters s), s_attr s, s_option s] k)))"

text \<open>The forms for interrupt handlers call the ordinary ones.\<close>

definition iDeleteSema :: "caller \<Rightarrow> r5900 \<Rightarrow> kern \<Rightarrow> r5900 \<times> kern" where
  "iDeleteSema c ctx k = DeleteSema c ctx k"

definition iSignalSema :: "caller \<Rightarrow> r5900 \<Rightarrow> kern \<Rightarrow> r5900 \<times> kern" where
  "iSignalSema c ctx k = SignalSema c ctx k"

definition iPollSema :: "r5900 \<Rightarrow> kern \<Rightarrow> r5900 \<times> kern" where
  "iPollSema ctx k = PollSema ctx k"

definition iReferSemaStatus :: "r5900 \<Rightarrow> kern \<Rightarrow> r5900 \<times> kern" where
  "iReferSemaStatus ctx k = ReferSemaStatus ctx k"

section \<open>WaitSema\<close>

text \<open>
  Where \<open>WaitSema\<close> stands when it lets the lock go: it returned, threw the exit exception, is
  about to wait, or has its result and goes on to \<open>waitWhileSuspended\<close>.
\<close>

datatype wait_out = Return int | Throw | Block | Finish int

text \<open>The top of the retry loop.\<close>

definition sema_retry :: "caller \<Rightarrow> nat option \<Rightarrow> nat \<Rightarrow> kern \<Rightarrow> wait_out \<times> kern" where
  "sema_retry c info o1 k =
     (case consumeForceRelease info k of
        (True, k) \<Rightarrow> (Finish KE_RELEASE_WAIT, clearThreadWaiting info k)
      | (False, k) \<Rightarrow>
          (Block, upd_sema o1 (\<lambda>s. s\<lparr>s_waiters := s_waiters s + 1,
             s_waitList := (if info \<noteq> None then publishWaiter c k (s_waitList s) else s_waitList s)\<rparr>) k))"

definition WaitSema :: "caller \<Rightarrow> r5900 \<Rightarrow> kern \<Rightarrow> wait_out \<times> kern" where
  "WaitSema c ctx k =
     (let sid = to_int (getRegU32 ctx 4)
      in case lookupSemaInfo sid k of
           None \<Rightarrow> (Return KE_UNKNOWN_SEMID, k)
         | Some o1 \<Rightarrow>
             (case currentInfo c ctx k of (info, k) \<Rightarrow>
                if isTerminated info k then (Throw, k)
                else if s_count (s_obj k o1) > 0
                then (Finish sid, clearThreadWaiting info
                        (upd_sema o1 (\<lambda>s. s\<lparr>s_count := s_count s - 1\<rparr>) k))
                else sema_retry c info o1 (setThreadWaiting info TSW_SEMA sid k)))"

text \<open>From the return of the wait on: the rest of the loop body and, maybe, the next round.\<close>

definition WaitSema_wake :: "caller \<Rightarrow> nat option \<Rightarrow> int \<Rightarrow> nat \<Rightarrow> kern \<Rightarrow> wait_out \<times> kern" where
  "WaitSema_wake c info sid o1 k0 =
     (let k = upd_sema o1 (\<lambda>s. s\<lparr>s_waiters := s_waiters s - 1,
                s_waitList := (if info \<noteq> None then unpublishWaiter (c_tid c) (s_waitList s)
                               else s_waitList s)\<rparr>) k0
      in if s_deleted (s_obj k o1) then (Finish KE_WAIT_DELETE, clearThreadWaiting info k)
         else case consumeForceRelease info k of
           (True, k) \<Rightarrow> (Finish KE_RELEASE_WAIT, clearThreadWaiting info k)
         | (False, k) \<Rightarrow>
             if isTerminated info k then (Throw, k)
             else if s_count (s_obj k o1) > 0
             then (Finish sid, clearThreadWaiting info
                     (upd_sema o1 (\<lambda>s. s\<lparr>s_count := s_count s - 1\<rparr>) k))
             else sema_retry c info o1 k)"

section \<open>The effect of each call on the semaphores\<close>

text \<open>The state of a semaphore object after the three elementary changes of a waiting thread.\<close>

definition take_permit :: "sema_info \<Rightarrow> sema_info" where
  "take_permit s = s\<lparr>s_count := s_count s - 1\<rparr>"

definition join_wait :: "waiter option \<Rightarrow> sema_info \<Rightarrow> sema_info" where
  "join_wait w s = s\<lparr>s_waiters := s_waiters s + 1,
     s_waitList := (case w of None \<Rightarrow> s_waitList s | Some x \<Rightarrow> s_waitList s @ [x])\<rparr>"

definition leave_wait :: "int option \<Rightarrow> sema_info \<Rightarrow> sema_info" where
  "leave_wait t s = s\<lparr>s_waiters := s_waiters s - 1,
     s_waitList := (case t of None \<Rightarrow> s_waitList s | Some t \<Rightarrow> unpublishWaiter t (s_waitList s))\<rparr>"

definition give_permit :: "sema_info \<Rightarrow> sema_info" where
  "give_permit s = s\<lparr>s_count := s_count s + 1, s_waitList := drop 1 (s_waitList s)\<rparr>"

lemma change_fields [simp]:
  "s_count (take_permit s) = s_count s - 1" "s_count (give_permit s) = s_count s + 1"
  "s_count (join_wait w s) = s_count s" "s_count (leave_wait t s) = s_count s"
  "s_maxCount (take_permit s) = s_maxCount s" "s_maxCount (give_permit s) = s_maxCount s"
  "s_initCount (take_permit s) = s_initCount s" "s_initCount (give_permit s) = s_initCount s"
  "s_waiters (take_permit s) = s_waiters s" "s_waiters (give_permit s) = s_waiters s"
  by (simp_all add: take_permit_def give_permit_def join_wait_def leave_wait_def)

text \<open>What \<open>sema_retry\<close> can do: block with the thread recorded, or leave with a release code.\<close>

lemma sema_retry_cases:
  assumes "sema_retry c info o1 k = (out, k')"
  obtains "out = Finish KE_RELEASE_WAIT" "sema_part k' = sema_part k"
  | w where "out = Block" "sema_part k' = sema_part (upd_sema o1 (join_wait w) k)"
      "map_option fst w = (if info = None then None else Some (c_tid c))"
proof (cases "consumeForceRelease info k")
  case (Pair rel k1)
  have part: "sema_part k1 = sema_part k"
    using sema_part_helpers(1) [of info k] by (simp add: Pair)
  show ?thesis
  proof (cases rel)
    case True
    with assms Pair part show ?thesis
      by (intro that(1)) (auto simp: sema_retry_def kern_simps)
  next
    case False
    let ?w = "if info = None then None else Some (c_tid c, current_fiber_token (c_self c) (k_sched k1))"
    have "join_wait ?w = (\<lambda>s. s\<lparr>s_waiters := s_waiters s + 1,
        s_waitList := (if info \<noteq> None then publishWaiter c k1 (s_waitList s) else s_waitList s)\<rparr>)"
      by (rule ext) (simp add: join_wait_def publishWaiter_def)
    with assms Pair False have "out = Block" "k' = upd_sema o1 (join_wait ?w) k1"
      by (simp_all add: sema_retry_def)
    then show ?thesis
      using part by (intro that(2) [of ?w]) (auto simp: sema_part_def kern_simps)
  qed
qed

lemma WaitSema_cases:
  assumes "WaitSema c ctx k = (out, k')"
  obtains "sema_part k' = sema_part k" "out \<in> {Return KE_UNKNOWN_SEMID, Throw, Finish KE_RELEASE_WAIT}"
  | o1 where "g_semas k (to_int (getRegU32 ctx 4)) = Some o1" "out = Finish (to_int (getRegU32 ctx 4))"
      "s_count (s_obj k o1) > 0" "sema_part k' = sema_part (upd_sema o1 take_permit k)"
  | o1 w where "g_semas k (to_int (getRegU32 ctx 4)) = Some o1" "out = Block"
      "sema_part k' = sema_part (upd_sema o1 (join_wait w) k)"
      "map_option fst w = (if fst (currentInfo c ctx k) = None then None else Some (c_tid c))"
proof (cases "g_semas k (to_int (getRegU32 ctx 4))")
  case None
  with assms show ?thesis by (intro that(1)) (auto simp: WaitSema_def lookupSemaInfo_def)
next
  case (Some o1)
  obtain info k1 where ci: "currentInfo c ctx k = (info, k1)" by (cases "currentInfo c ctx k") auto
  have p1: "sema_part k1 = sema_part k" using sema_part_helpers(4) [of c ctx k] ci by simp
  note [simp] = sema_part_eqD [OF p1]
  let ?sid = "to_int (getRegU32 ctx 4)"
  have w: "(out, k') =
      (if isTerminated info k1 then (Throw, k1)
       else if s_count (s_obj k1 o1) > 0
       then (Finish ?sid, clearThreadWaiting info (upd_sema o1 take_permit k1))
       else sema_retry c info o1 (setThreadWaiting info TSW_SEMA ?sid k1))"
    using assms Some ci by (auto simp: WaitSema_def lookupSemaInfo_def take_permit_def [abs_def])
  have upd: "sema_part (upd_sema o1 f ka) = sema_part (upd_sema o1 f k)"
    if "sema_part ka = sema_part k" for f ka
    using that by (auto simp: sema_part_def kern_simps)
  show ?thesis
  proof (cases "isTerminated info k1 \<or> s_count (s_obj k o1) > 0")
    case True
    with w p1 upd [OF p1] show ?thesis
      using that(1) that(2) [OF Some] by (auto simp: kern_simps split: if_splits)
  next
    case False
    then have r: "sema_retry c info o1 (setThreadWaiting info TSW_SEMA ?sid k1) = (out, k')"
      using w by auto
    have p2: "sema_part (setThreadWaiting info TSW_SEMA ?sid k1) = sema_part k"
      using p1 by (simp add: kern_simps)
    show ?thesis
      using r
    proof (cases rule: sema_retry_cases)
      case 1
      with p2 show ?thesis by (intro that(1)) auto
    next
      case (2 w)
      with upd [OF p2] ci show ?thesis by (intro that(3) [OF Some]) auto
    qed
  qed
qed

lemma WaitSema_wake_cases:
  assumes "WaitSema_wake c info sid o1 k = (out, k')"
  defines "k1 \<equiv> upd_sema o1 (leave_wait (if info = None then None else Some (c_tid c))) k"
  obtains "sema_part k' = sema_part k1" "out \<in> {Throw, Finish KE_RELEASE_WAIT, Finish KE_WAIT_DELETE}"
  | "out = Finish sid" "s_count (s_obj k o1) > 0" "sema_part k' = sema_part (upd_sema o1 take_permit k1)"
  | w where "out = Block" "sema_part k' = sema_part (upd_sema o1 (join_wait w) k1)"
      "map_option fst w = (if info = None then None else Some (c_tid c))"
proof -
  obtain rel k2 where cf: "consumeForceRelease info k1 = (rel, k2)" by (cases "consumeForceRelease info k1") auto
  have p2: "sema_part k2 = sema_part k1" using sema_part_helpers(1) [of info k1] cf by simp
  have k1: "k1 = upd_sema o1 (\<lambda>s. s\<lparr>s_waiters := s_waiters s - 1,
      s_waitList := (if info \<noteq> None then unpublishWaiter (c_tid c) (s_waitList s) else s_waitList s)\<rparr>) k"
    unfolding k1_def by (rule arg_cong [of _ _ "\<lambda>f. upd_sema o1 f k"]) (auto simp: leave_wait_def)
  have cnt: "s_count (s_obj k2 o1) = s_count (s_obj k o1)"
    using sema_part_eqD(2) [OF p2] by (simp add: k1 kern_simps)
  have w: "(out, k') =
      (if s_deleted (s_obj k1 o1) then (Finish KE_WAIT_DELETE, clearThreadWaiting info k1)
       else if rel then (Finish KE_RELEASE_WAIT, clearThreadWaiting info k2)
       else if isTerminated info k2 then (Throw, k2)
       else if s_count (s_obj k2 o1) > 0
       then (Finish sid, clearThreadWaiting info (upd_sema o1 take_permit k2))
       else sema_retry c info o1 k2)"
    using assms(1) cf unfolding WaitSema_wake_def k1 [symmetric] by (auto simp: Let_def take_permit_def [abs_def])
  have upd: "sema_part (upd_sema o1 f k2) = sema_part (upd_sema o1 f k1)" for f
    using p2 by (auto simp: sema_part_def kern_simps)
  show ?thesis
  proof (cases "s_deleted (s_obj k1 o1) \<or> rel \<or> isTerminated info k2 \<or> s_count (s_obj k o1) > 0")
    case True
    with w p2 upd show ?thesis
      using that(1,2) by (auto simp: kern_simps cnt split: if_splits)
  next
    case False
    then have "sema_retry c info o1 k2 = (out, k')" using w cnt by auto
    then show ?thesis
    proof (cases rule: sema_retry_cases)
      case 1
      with p2 show ?thesis by (intro that(1)) auto
    next
      case (2 w)
      with upd show ?thesis by (intro that(3)) auto
    qed
  qed
qed

section \<open>Counting semaphores\<close>

text \<open>
  The abstract object: a number of permits between 0 and a maximum.  The events are what the
  guest observes in \<open>$v0\<close>: a signal that counts, a signal refused because the semaphore is full,
  a wait or poll that gets a permit, and a poll that finds none.
\<close>

datatype sema_event = Give | Full | Take | Zero

definition asem_step :: "int \<Rightarrow> sema_event \<Rightarrow> int \<Rightarrow> int option" where
  "asem_step mx ev n =
     (case ev of
        Give \<Rightarrow> if n < mx then Some (n + 1) else None
      | Full \<Rightarrow> if n = mx then Some n else None
      | Take \<Rightarrow> if n > 0 then Some (n - 1) else None
      | Zero \<Rightarrow> if n = 0 then Some n else None)"

fun asem_run :: "int \<Rightarrow> sema_event list \<Rightarrow> int \<Rightarrow> int option" where
  "asem_run mx [] n = Some n"
| "asem_run mx (ev # evs) n = Option.bind (asem_step mx ev n) (asem_run mx evs)"

lemma asem_run_snoc: "asem_run mx (evs @ [ev]) n = Option.bind (asem_run mx evs n) (asem_step mx ev)"
proof (induction evs arbitrary: n)
  case Nil
  show ?case by (cases "asem_step mx ev n") simp_all
next
  case (Cons e evs)
  then show ?case by (cases "asem_step mx e n") simp_all
qed

lemma asem_run_bounds: "asem_run mx evs n = Some n' \<Longrightarrow> 0 \<le> n \<Longrightarrow> n \<le> mx \<Longrightarrow> 0 \<le> n' \<and> n' \<le> mx"
proof (induction evs arbitrary: n)
  case (Cons ev evs)
  then obtain m where m: "asem_step mx ev n = Some m" "asem_run mx evs m = Some n'"
    by (auto simp: bind_eq_Some_conv)
  then have "0 \<le> m" "m \<le> mx" using Cons.prems(2,3)
    by (auto simp: asem_step_def split: sema_event.splits if_splits)
  with Cons.IH m show ?case by blast
qed simp

section \<open>Interleavings\<close>

text \<open>
  The system state: the kernel and the \<open>WaitSema\<close> calls that are between their publication and
  their wakeup.  A step is one call run up to its end or its next wait, or anything else that
  leaves the semaphores alone: other syscalls, the scheduler, changes of thread states.  A blocked
  call may wake at any time, for whatever reason.
\<close>

record wait_call =
  wc_caller :: caller
  wc_info :: "nat option"
  wc_sid :: int
  wc_obj :: nat

record ksys =
  ks_kern :: kern
  ks_calls :: "nat \<rightharpoonup> wait_call"

definition v0 :: "r5900 \<Rightarrow> int" where
  "v0 ctx = to_int (getRegU32 ctx 2)"

definition a0 :: "r5900 \<Rightarrow> int" where
  "a0 ctx = to_int (getRegU32 ctx 4)"

text \<open>The event a call shows, read off its argument and its result.\<close>

definition observe :: "kern \<Rightarrow> int \<Rightarrow> int \<Rightarrow> sema_event \<Rightarrow> int \<Rightarrow> sema_event \<Rightarrow> (nat \<times> sema_event) list" where
  "observe k sid res ok code err =
     (case g_semas k sid of
        None \<Rightarrow> []
      | Some o1 \<Rightarrow> if res = sid then [(o1, ok)] else if res = code then [(o1, err)] else [])"

inductive sema_step :: "ksys \<Rightarrow> (nat \<times> sema_event) list \<Rightarrow> ksys \<Rightarrow> bool" where
  sema_other: "sema_part k' = sema_part (ks_kern st) \<Longrightarrow> sema_step st [] (st\<lparr>ks_kern := k'\<rparr>)"
| sema_create: "CreateSema ctx (ks_kern st) = (ctx', k') \<Longrightarrow> sema_step st [] (st\<lparr>ks_kern := k'\<rparr>)"
| sema_delete: "DeleteSema c ctx (ks_kern st) = (ctx', k') \<Longrightarrow> sema_step st [] (st\<lparr>ks_kern := k'\<rparr>)"
| sema_signal: "SignalSema c ctx (ks_kern st) = (ctx', k') \<Longrightarrow>
    sema_step st (observe (ks_kern st) (a0 ctx) (v0 ctx') Give KE_SEMA_OVF Full) (st\<lparr>ks_kern := k'\<rparr>)"
| sema_poll: "PollSema ctx (ks_kern st) = (ctx', k') \<Longrightarrow>
    sema_step st (observe (ks_kern st) (a0 ctx) (v0 ctx') Take KE_SEMA_ZERO Zero) (st\<lparr>ks_kern := k'\<rparr>)"
| sema_refer: "ReferSemaStatus ctx (ks_kern st) = (ctx', k') \<Longrightarrow> sema_step st [] (st\<lparr>ks_kern := k'\<rparr>)"
| sema_wait: "WaitSema c ctx (ks_kern st) = (out, k') \<Longrightarrow> out \<noteq> Block \<Longrightarrow>
    sema_step st (if out = Finish (a0 ctx)
                  then observe (ks_kern st) (a0 ctx) (a0 ctx) Take KE_SEMA_ZERO Zero else [])
      (st\<lparr>ks_kern := k'\<rparr>)"
| sema_block: "WaitSema c ctx (ks_kern st) = (Block, k') \<Longrightarrow> ks_calls st n = None \<Longrightarrow>
    g_semas (ks_kern st) (a0 ctx) = Some o1 \<Longrightarrow>
    sema_step st [] (st\<lparr>ks_kern := k', ks_calls := (ks_calls st)(n \<mapsto>
      \<lparr>wc_caller = c, wc_info = fst (currentInfo c ctx (ks_kern st)), wc_sid = a0 ctx, wc_obj = o1\<rparr>)\<rparr>)"
| sema_wake: "ks_calls st n = Some w \<Longrightarrow>
    WaitSema_wake (wc_caller w) (wc_info w) (wc_sid w) (wc_obj w) (ks_kern st) = (out, k') \<Longrightarrow>
    sema_step st (if out = Finish (wc_sid w) then [(wc_obj w, Take)] else [])
      (st\<lparr>ks_kern := k', ks_calls := (if out = Block then ks_calls st else (ks_calls st)(n := None))\<rparr>)"

inductive_cases sema_stepE: "sema_step st evs st'"

inductive sema_run :: "ksys \<Rightarrow> (nat \<times> sema_event) list \<Rightarrow> ksys \<Rightarrow> bool" where
  sema_start: "sema_run st [] st"
| sema_more: "sema_run st evs st1 \<Longrightarrow> sema_step st1 ev st2 \<Longrightarrow> sema_run st (evs @ ev) st2"

definition no_semas :: "ksys \<Rightarrow> bool" where
  "no_semas st \<longleftrightarrow> g_semas (ks_kern st) = Map.empty \<and> s_next (ks_kern st) = 0 \<and> ks_calls st = Map.empty"

section \<open>The invariant\<close>

definition events_of :: "nat \<Rightarrow> (nat \<times> sema_event) list \<Rightarrow> sema_event list" where
  "events_of o1 evs = map snd (filter (\<lambda>e. fst e = o1) evs)"

lemma events_of_simps [simp]:
  "events_of o1 [] = []" "events_of o1 (evs @ evs') = events_of o1 evs @ events_of o1 evs'"
  "events_of o1 [(o2, ev)] = (if o2 = o1 then [ev] else [])"
  by (simp_all add: events_of_def)

text \<open>The blocked calls on an object, and those of them by a thread with a guest identity.\<close>

definition blocked_on :: "(nat \<rightharpoonup> wait_call) \<Rightarrow> nat \<Rightarrow> nat set" where
  "blocked_on calls o1 = {n. \<exists>w. calls n = Some w \<and> wc_obj w = o1}"

definition blocked_as :: "(nat \<rightharpoonup> wait_call) \<Rightarrow> nat \<Rightarrow> int \<Rightarrow> nat set" where
  "blocked_as calls o1 t =
     {n. \<exists>w. calls n = Some w \<and> wc_obj w = o1 \<and> wc_info w \<noteq> None \<and> c_tid (wc_caller w) = t}"

definition entries :: "int \<Rightarrow> sema_info \<Rightarrow> nat" where
  "entries t s = length (filter (\<lambda>w. fst w = t) (s_waitList s))"

definition obj_ok :: "(nat \<times> sema_event) list \<Rightarrow> (nat \<rightharpoonup> wait_call) \<Rightarrow> nat \<Rightarrow> sema_info \<Rightarrow> bool" where
  "obj_ok evs calls o1 s \<longleftrightarrow>
     0 \<le> s_initCount s \<and> s_initCount s \<le> s_maxCount s \<and>
     asem_run (s_maxCount s) (events_of o1 evs) (s_initCount s) = Some (s_count s) \<and>
     s_waiters s = int (card (blocked_on calls o1)) \<and>
     (\<forall>t. entries t s \<le> card (blocked_as calls o1 t))"

definition sema_inv :: "(nat \<times> sema_event) list \<Rightarrow> ksys \<Rightarrow> bool" where
  "sema_inv evs st \<longleftrightarrow>
     (\<forall>sid o1. g_semas (ks_kern st) sid = Some o1 \<longrightarrow> 0 < sid \<and> o1 < s_next (ks_kern st)) \<and>
     finite (dom (ks_calls st)) \<and>
     (\<forall>n w. ks_calls st n = Some w \<longrightarrow> 0 < wc_sid w \<and> wc_obj w < s_next (ks_kern st)) \<and>
     (\<forall>o1 < s_next (ks_kern st). obj_ok evs (ks_calls st) o1 (s_obj (ks_kern st) o1)) \<and>
     (\<forall>o1 \<ge> s_next (ks_kern st). events_of o1 evs = [])"

lemma sema_inv_part:
  assumes "sema_inv evs st" "sema_part k = sema_part (ks_kern st)"
  shows "sema_inv evs (st\<lparr>ks_kern := k\<rparr>)"
  using assms sema_part_eqD [OF assms(2)] by (simp add: sema_inv_def)

text \<open>A change of one object and of the blocked calls, together with the event it shows.\<close>

lemma sema_inv_change:
  assumes inv: "sema_inv evs st" and o1: "o1 < s_next (ks_kern st)"
    and part: "sema_part k = sema_part (upd_sema o1 f (ks_kern st))"
    and ev: "\<And>o2. o2 \<noteq> o1 \<Longrightarrow> events_of o2 ev = []"
    and calls: "finite (dom calls)"
      "\<And>n w. calls n = Some w \<Longrightarrow> 0 < wc_sid w \<and> wc_obj w < s_next (ks_kern st)"
    and others: "\<And>o2. o2 \<noteq> o1 \<Longrightarrow> blocked_on calls o2 = blocked_on (ks_calls st) o2"
      "\<And>o2 t. o2 \<noteq> o1 \<Longrightarrow> blocked_as calls o2 t = blocked_as (ks_calls st) o2 t"
    and ok: "obj_ok (evs @ ev) calls o1 (f (s_obj (ks_kern st) o1))"
  shows "sema_inv (evs @ ev) (st\<lparr>ks_kern := k, ks_calls := calls\<rparr>)"
proof -
  have k: "g_semas k = g_semas (ks_kern st)" "s_next k = s_next (ks_kern st)"
    "s_obj k = (s_obj (ks_kern st))(o1 := f (s_obj (ks_kern st) o1))"
    using sema_part_eqD [OF part] by (simp_all add: kern_simps)
  have "obj_ok (evs @ ev) calls o2 (s_obj (ks_kern st) o2)"
    if "o2 < s_next (ks_kern st)" "o2 \<noteq> o1" for o2
    using inv that by (auto simp: sema_inv_def obj_ok_def ev others)
  with inv o1 ok calls show ?thesis
    by (auto simp: sema_inv_def k ev)
qed

lemma sema_inv_object:
  assumes inv: "sema_inv evs st" and o1: "o1 < s_next (ks_kern st)"
    and part: "sema_part k = sema_part (upd_sema o1 f (ks_kern st))"
    and ev: "\<And>o2. o2 \<noteq> o1 \<Longrightarrow> events_of o2 ev = []"
    and ok: "obj_ok (evs @ ev) (ks_calls st) o1 (f (s_obj (ks_kern st) o1))"
  shows "sema_inv (evs @ ev) (st\<lparr>ks_kern := k\<rparr>)"
proof -
  have "sema_inv (evs @ ev) (st\<lparr>ks_kern := k, ks_calls := ks_calls st\<rparr>)"
    using inv by (intro sema_inv_change [OF inv o1 part ev]) (auto simp: sema_inv_def ok)
  then show ?thesis by simp
qed

text \<open>Facts about one object.\<close>

lemma obj_bounds:
  assumes "obj_ok evs calls o1 s"
  shows "0 \<le> s_count s" "s_count s \<le> s_maxCount s"
  using assms asem_run_bounds by (auto simp: obj_ok_def)

lemma entries_simps:
  "entries t (give_permit s) \<le> entries t s" "entries t (take_permit s) = entries t s"
  "entries t (s\<lparr>s_deleted := b, s_waitList := []\<rparr>) = 0"
  "entries t (join_wait w s) = entries t s + (if map_option fst w = Some t then 1 else 0)"
  "entries t (leave_wait u s) = (if u = Some t then entries t s - 1 else entries t s)"
proof -
  show "entries t (give_permit s) \<le> entries t s"
    by (cases "s_waitList s") (auto simp: entries_def give_permit_def)
qed (auto simp: entries_def take_permit_def join_wait_def leave_wait_def unpublish_count
    split: option.splits)

lemma obj_ok_event:
  assumes ok: "obj_ok evs calls o1 s" and "asem_step (s_maxCount s) ev (s_count s) = Some n"
    and "s_count s' = n" "s_maxCount s' = s_maxCount s" "s_initCount s' = s_initCount s"
    and "s_waiters s' = s_waiters s" "\<And>t. entries t s' \<le> entries t s"
  shows "obj_ok (evs @ [(o1, ev)]) calls o1 s'"
  using assms le_trans [OF assms(7)] by (auto simp: obj_ok_def asem_run_snoc)

lemma obj_ok_cong:
  assumes "obj_ok evs calls o1 s" "s_count s' = s_count s" "s_maxCount s' = s_maxCount s"
    "s_initCount s' = s_initCount s" "s_waiters s' = s_waiters s" "\<And>t. entries t s' \<le> entries t s"
  shows "obj_ok evs calls o1 s'"
  using assms le_trans [OF assms(6)] by (auto simp: obj_ok_def)

lemma obj_ok_take:
  "obj_ok evs calls o1 s \<Longrightarrow> s_count s > 0 \<Longrightarrow> obj_ok (evs @ [(o1, Take)]) calls o1 (take_permit s)"
  by (rule obj_ok_event) (auto simp: take_permit_def asem_step_def entries_simps [unfolded take_permit_def])

lemma blocked_finite:
  assumes "finite (dom calls)"
  shows "finite (blocked_on calls o1)" "finite (blocked_as calls o1 t)"
  by (rule finite_subset [OF _ assms], auto simp: blocked_on_def blocked_as_def)+

lemma blocked_insert:
  assumes "calls n = None"
  shows "blocked_on (calls(n \<mapsto> w)) o1 = (if wc_obj w = o1 then insert n (blocked_on calls o1) else blocked_on calls o1)"
    "blocked_as (calls(n \<mapsto> w)) o1 t =
      (if wc_obj w = o1 \<and> wc_info w \<noteq> None \<and> c_tid (wc_caller w) = t
       then insert n (blocked_as calls o1 t) else blocked_as calls o1 t)"
    "n \<notin> blocked_on calls o1" "n \<notin> blocked_as calls o1 t"
  using assms by (auto simp: blocked_on_def blocked_as_def)

lemma blocked_remove:
  "blocked_on (calls(n := None)) o1 = blocked_on calls o1 - {n}"
  "blocked_as (calls(n := None)) o1 t = blocked_as calls o1 t - {n}"
  by (auto simp: blocked_on_def blocked_as_def)

lemma obj_ok_join:
  assumes ok: "obj_ok evs calls o1 s" and n: "calls n = None" and fin: "finite (dom calls)"
    and w: "wc_obj w = o1" "map_option fst x = (if wc_info w = None then None else Some (c_tid (wc_caller w)))"
  shows "obj_ok evs (calls(n \<mapsto> w)) o1 (join_wait x s)"
proof -
  have "entries t (join_wait x s) \<le> card (blocked_as (calls(n \<mapsto> w)) o1 t)" for t
    using ok w blocked_finite [OF fin] blocked_insert(4) [of calls n, OF n]
    by (auto simp: obj_ok_def entries_simps blocked_insert(2) [of calls n, OF n])
  with ok w blocked_finite [OF fin] blocked_insert(3) [of calls n, OF n] show ?thesis
    by (simp add: obj_ok_def blocked_insert(1) [of calls n, OF n]) (simp add: join_wait_def)
qed

lemma obj_ok_leave:
  assumes ok: "obj_ok evs calls o1 s" and n: "calls n = Some w" and fin: "finite (dom calls)"
    and w: "wc_obj w = o1"
  shows "obj_ok evs (calls(n := None)) o1
     (leave_wait (if wc_info w = None then None else Some (c_tid (wc_caller w))) s)"
    (is "obj_ok _ ?calls _ (leave_wait ?u s)")
proof -
  have in_on: "n \<in> blocked_on calls o1" using n w by (auto simp: blocked_on_def)
  have "card (blocked_on ?calls o1) + 1 = card (blocked_on calls o1)"
    using card.remove [OF blocked_finite(1) [OF fin] in_on] by (simp add: blocked_remove)
  then have wt: "s_waiters (leave_wait ?u s) = int (card (blocked_on ?calls o1))"
    using ok by (simp add: obj_ok_def leave_wait_def)
  have "entries t (leave_wait ?u s) \<le> card (blocked_as ?calls o1 t)" for t
  proof -
    have le: "entries t s \<le> card (blocked_as calls o1 t)" using ok by (simp add: obj_ok_def)
    have in_as: "n \<in> blocked_as calls o1 t \<longleftrightarrow> ?u = Some t"
      using n w by (auto simp: blocked_as_def)
    show ?thesis
      using le in_as blocked_finite(2) [OF fin, of o1 t]
      by (cases "?u = Some t") (auto simp: entries_simps blocked_remove card_Diff_singleton)
  qed
  with ok wt show ?thesis by (simp add: obj_ok_def leave_wait_def)
qed

lemma obj_ok_rejoin:
  assumes ok: "obj_ok evs calls o1 s" and n: "calls n = Some w" and fin: "finite (dom calls)"
    and w: "wc_obj w = o1" "map_option fst x = (if wc_info w = None then None else Some (c_tid (wc_caller w)))"
  shows "obj_ok evs calls o1
     (join_wait x (leave_wait (if wc_info w = None then None else Some (c_tid (wc_caller w))) s))"
proof -
  have "obj_ok evs ((calls(n := None))(n \<mapsto> w)) o1
     (join_wait x (leave_wait (if wc_info w = None then None else Some (c_tid (wc_caller w))) s))"
    by (rule obj_ok_join [OF obj_ok_leave [OF ok n fin w(1)] _ _ w(1,2)]) (use fin in auto)
  moreover have "(calls(n := None))(n \<mapsto> w) = calls" using n by auto
  ultimately show ?thesis by simp
qed

section \<open>Preservation\<close>

lemma alloc_sema_id_fresh:
  "alloc_sema_id n semas nxt = (Some sid, nxt') \<Longrightarrow> 0 < sid \<and> semas sid = None"
  by (induction n arbitrary: nxt) (auto simp: Let_def split: if_splits)

lemma alloc_sema_id_bound:
  "alloc_sema_id n semas nxt = (Some sid, nxt') \<Longrightarrow> nxt < 2 ^ 31 \<Longrightarrow> sid < 2 ^ 31"
proof (induction n arbitrary: nxt)
  case (Suc n)
  have "int_inc i < 2 ^ 31" for i unfolding int_inc_def by (rule to_int_bounds)
  with Suc show ?case by (auto simp: Let_def split: if_splits)
qed simp

lemma CreateSema_inv:
  assumes inv: "sema_inv evs st" and step: "CreateSema ctx (ks_kern st) = (ctx', k')"
  shows "sema_inv evs (st\<lparr>ks_kern := k'\<rparr>)"
proof -
  let ?k = "ks_kern st"
  obtain r nxt where al: "alloc_sema_id 0x7FFF (g_semas ?k) (g_nextSemaId ?k) = (r, nxt)"
    by (cases "alloc_sema_id 0x7FFF (g_semas ?k) (g_nextSemaId ?k)") auto
  let ?raw = "read_params ?k (getRegU32 ctx 4) 6"
  consider "k' = ?k" | "k' = ?k\<lparr>g_nextSemaId := nxt\<rparr>"
    | sid where "r = Some sid" "k' = ?k\<lparr>g_nextSemaId := nxt, g_semas := (g_semas ?k)(sid \<mapsto> s_next ?k),
        s_next := Suc (s_next ?k), s_obj := (s_obj ?k)(s_next ?k := new_sema ?raw)\<rparr>"
    using step al unfolding CreateSema_def Let_def by (auto split: if_splits option.splits)
  then show ?thesis
  proof cases
    case (3 sid)
    have sid: "0 < sid" using alloc_sema_id_fresh al 3(1) by blast
    have none: "blocked_on (ks_calls st) (s_next ?k) = {}" "blocked_as (ks_calls st) (s_next ?k) t = {}" for t
      using inv by (fastforce simp: sema_inv_def blocked_on_def blocked_as_def)+
    have "obj_ok evs (ks_calls st) (s_next ?k) (new_sema ?raw)"
      using inv none new_sema_ok [of ?raw] by (simp add: obj_ok_def sema_inv_def entries_def)
    with 3 sid inv show ?thesis
      unfolding sema_inv_def by (auto simp: less_Suc_eq dest: Suc_leD)
  qed (use inv in \<open>simp_all add: sema_inv_def\<close>)
qed

lemma DeleteSema_inv:
  assumes inv: "sema_inv evs st" and step: "DeleteSema c ctx (ks_kern st) = (ctx', k')"
  shows "sema_inv evs (st\<lparr>ks_kern := k'\<rparr>)"
proof (cases "g_semas (ks_kern st) (to_int (getRegU32 ctx 4))")
  case None
  with step have "k' = ks_kern st" by (simp add: DeleteSema_def)
  with inv show ?thesis by simp
next
  case (Some o1)
  let ?sid = "to_int (getRegU32 ctx 4)"
  let ?k1 = "(ks_kern st)\<lparr>g_semas := (g_semas (ks_kern st))(?sid := None)\<rparr>"
  let ?f = "\<lambda>s. s\<lparr>s_deleted := True, s_waitList := []\<rparr>"
  have inv1: "sema_inv evs (st\<lparr>ks_kern := ?k1\<rparr>)"
    using inv by (auto simp: sema_inv_def split: if_splits)
  have o1: "o1 < s_next (ks_kern st)" using inv Some by (auto simp: sema_inv_def)
  have "obj_ok evs (ks_calls st) o1 (?f (s_obj (ks_kern st) o1))"
  proof (rule obj_ok_cong)
    show "obj_ok evs (ks_calls st) o1 (s_obj (ks_kern st) o1)" using inv o1 by (simp add: sema_inv_def)
  qed (simp_all add: entries_simps)
  then have ok: "obj_ok (evs @ []) (ks_calls st) o1 (?f (s_obj ?k1 o1))" by simp
  have "k' = wake_and_yield c (s_waitList (s_obj (ks_kern st) o1)) (upd_sema o1 ?f ?k1)"
    using step Some by (simp add: DeleteSema_def Let_def)
  then have part: "sema_part k' = sema_part (upd_sema o1 ?f ?k1)" by (simp only: kern_simps)
  have "sema_inv (evs @ []) (st\<lparr>ks_kern := ?k1\<rparr>\<lparr>ks_kern := k'\<rparr>)"
    by (rule sema_inv_object [OF inv1, where f = ?f]) (use o1 part ok in simp_all)
  then show ?thesis by simp
qed

lemma v0_setReturn: "- (2 ^ 31) \<le> v \<Longrightarrow> v < 2 ^ 31 \<Longrightarrow> v0 (setReturnS32 ctx v) = v"
  unfolding v0_def by (rule setReturnS32_result)

lemma v0_a0: "v0 (setReturnS32 ctx (a0 ctx')) = a0 ctx'"
  using to_int_bounds by (intro v0_setReturn) (simp_all add: a0_def)

lemma v0_codes [simp]:
  "v0 (setReturnS32 ctx (- 1)) = - 1" "v0 (setReturnS32 ctx 0) = 0"
  "v0 (setReturnS32 ctx (- 408)) = - 408" "v0 (setReturnS32 ctx (- 419)) = - 419"
  "v0 (setReturnS32 ctx (- 420)) = - 420"
  by (rule v0_setReturn; simp)+

text \<open>What a signal and a poll do on every branch.\<close>

lemma SignalSema_cases:
  assumes "SignalSema c ctx k = (ctx', k')"
  obtains "g_semas k (a0 ctx) = None" "v0 ctx' = KE_UNKNOWN_SEMID" "k' = k"
  | o1 where "g_semas k (a0 ctx) = Some o1" "s_count (s_obj k o1) \<ge> s_maxCount (s_obj k o1)"
      "v0 ctx' = KE_SEMA_OVF" "k' = k"
  | o1 where "g_semas k (a0 ctx) = Some o1" "s_count (s_obj k o1) < s_maxCount (s_obj k o1)"
      "v0 ctx' = a0 ctx" "sema_part k' = sema_part (upd_sema o1 give_permit k)"
proof (cases "g_semas k (a0 ctx)")
  case None
  with assms show ?thesis by (intro that(1)) (auto simp: SignalSema_def lookupSemaInfo_def a0_def)
next
  case (Some o1)
  let ?k = "upd_sema o1 give_permit k"
  have g: "give_permit = (\<lambda>s. s\<lparr>s_count := s_count s + 1, s_waitList := drop 1 (s_waitList s)\<rparr>)"
    by (rule ext) (simp add: give_permit_def)
  show ?thesis
  proof (cases "s_count (s_obj k o1) \<ge> s_maxCount (s_obj k o1)")
    case True
    with assms Some show ?thesis
      by (intro that(2)) (auto simp: SignalSema_def lookupSemaInfo_def a0_def)
  next
    case False
    with assms Some have "ctx' = setReturnS32 ctx (a0 ctx)" "sema_part k' = sema_part ?k"
      by (auto simp: SignalSema_def lookupSemaInfo_def a0_def Let_def g sema_part_def kern_simps
          split: list.splits if_splits)
    with Some False show ?thesis by (intro that(3)) (auto simp: v0_a0)
  qed
qed

lemma PollSema_cases:
  assumes "PollSema ctx k = (ctx', k')"
  obtains "g_semas k (a0 ctx) = None" "v0 ctx' = KE_UNKNOWN_SEMID" "k' = k"
  | o1 where "g_semas k (a0 ctx) = Some o1" "s_count (s_obj k o1) \<le> 0" "v0 ctx' = KE_SEMA_ZERO" "k' = k"
  | o1 where "g_semas k (a0 ctx) = Some o1" "s_count (s_obj k o1) > 0"
      "v0 ctx' = a0 ctx" "k' = upd_sema o1 take_permit k"
proof -
  have t: "take_permit = (\<lambda>s. s\<lparr>s_count := s_count s - 1\<rparr>)"
    by (rule ext) (simp add: take_permit_def)
  show ?thesis
    using assms that
    by (auto simp: PollSema_def lookupSemaInfo_def a0_def [symmetric] v0_a0 t Let_def
        split: option.splits if_splits)
qed

lemma ReferSemaStatus_part: "ReferSemaStatus ctx k = (ctx', k') \<Longrightarrow> sema_part k' = sema_part k"
  by (auto simp: ReferSemaStatus_def Let_def store_words_def sema_part_def
      split: option.splits host_ptr.splits)

lemma sema_inv_known:
  "sema_inv evs st \<Longrightarrow> g_semas (ks_kern st) sid = Some o1 \<Longrightarrow>
     0 < sid \<and> o1 < s_next (ks_kern st) \<and> obj_ok evs (ks_calls st) o1 (s_obj (ks_kern st) o1)"
  by (auto simp: sema_inv_def)

lemma SignalSema_inv:
  assumes inv: "sema_inv evs st" and step: "SignalSema c ctx (ks_kern st) = (ctx', k')"
  shows "sema_inv (evs @ observe (ks_kern st) (a0 ctx) (v0 ctx') Give KE_SEMA_OVF Full) (st\<lparr>ks_kern := k'\<rparr>)"
  using step
proof (cases rule: SignalSema_cases)
  case 1
  with inv show ?thesis by (simp add: observe_def)
next
  case (2 o1)
  note k = sema_inv_known [OF inv 2(1)]
  have "obj_ok (evs @ [(o1, Full)]) (ks_calls st) o1 (s_obj (ks_kern st) o1)"
    using k 2(2) obj_bounds [of evs "ks_calls st" o1 "s_obj (ks_kern st) o1"]
    by (intro obj_ok_event [of evs _ _ "s_obj (ks_kern st) o1" Full]) (auto simp: asem_step_def)
  then have "sema_inv (evs @ [(o1, Full)]) (st\<lparr>ks_kern := k'\<rparr>)"
    using k 2(4) by (intro sema_inv_object [OF inv, of o1 k' id]) (auto simp: upd_sema_def)
  with 2 k show ?thesis by (simp add: observe_def)
next
  case (3 o1)
  note k = sema_inv_known [OF inv 3(1)]
  have "obj_ok (evs @ [(o1, Give)]) (ks_calls st) o1 (give_permit (s_obj (ks_kern st) o1))"
    using k 3(2) by (intro obj_ok_event [of evs _ _ "s_obj (ks_kern st) o1" Give])
      (auto simp: asem_step_def entries_simps)
  then have "sema_inv (evs @ [(o1, Give)]) (st\<lparr>ks_kern := k'\<rparr>)"
    using k 3(4) by (intro sema_inv_object [OF inv, of o1 k' give_permit]) auto
  with 3 k show ?thesis by (simp add: observe_def)
qed

lemma PollSema_inv:
  assumes inv: "sema_inv evs st" and step: "PollSema ctx (ks_kern st) = (ctx', k')"
  shows "sema_inv (evs @ observe (ks_kern st) (a0 ctx) (v0 ctx') Take KE_SEMA_ZERO Zero) (st\<lparr>ks_kern := k'\<rparr>)"
  using step
proof (cases rule: PollSema_cases)
  case 1
  with inv show ?thesis by (simp add: observe_def)
next
  case (2 o1)
  note k = sema_inv_known [OF inv 2(1)]
  have "obj_ok (evs @ [(o1, Zero)]) (ks_calls st) o1 (s_obj (ks_kern st) o1)"
    using k 2(2) obj_bounds [of evs "ks_calls st" o1 "s_obj (ks_kern st) o1"]
    by (intro obj_ok_event [of evs _ _ "s_obj (ks_kern st) o1" Zero]) (auto simp: asem_step_def)
  then have "sema_inv (evs @ [(o1, Zero)]) (st\<lparr>ks_kern := k'\<rparr>)"
    using k 2(4) by (intro sema_inv_object [OF inv, of o1 k' id]) (auto simp: upd_sema_def)
  with 2 k show ?thesis by (simp add: observe_def)
next
  case (3 o1)
  note k = sema_inv_known [OF inv 3(1)]
  have "sema_inv (evs @ [(o1, Take)]) (st\<lparr>ks_kern := k'\<rparr>)"
    using k 3(2,4) by (intro sema_inv_object [OF inv, of o1 k' take_permit]) (auto simp: obj_ok_take)
  with 3 k show ?thesis by (simp add: observe_def)
qed

lemma events_of_one: "o2 \<noteq> o1 \<Longrightarrow> events_of o2 [(o1, ev)] = []"
  by simp

lemma WaitSema_done_inv:
  assumes inv: "sema_inv evs st" and step: "WaitSema c ctx (ks_kern st) = (out, k')" and nb: "out \<noteq> Block"
  shows "sema_inv (evs @ (if out = Finish (a0 ctx)
      then observe (ks_kern st) (a0 ctx) (a0 ctx) Take KE_SEMA_ZERO Zero else [])) (st\<lparr>ks_kern := k'\<rparr>)"
  using step
proof (cases rule: WaitSema_cases)
  case 1
  have "g_semas (ks_kern st) (a0 ctx) = None" if "out = Finish (a0 ctx)"
    using that 1(2) inv by (cases "g_semas (ks_kern st) (a0 ctx)") (force simp: sema_inv_def)+
  with sema_inv_part [OF inv 1(1)] show ?thesis by (simp add: observe_def)
next
  case (2 o1)
  note k = sema_inv_known [OF inv 2(1)]
  have "sema_inv (evs @ [(o1, Take)]) (st\<lparr>ks_kern := k'\<rparr>)"
    using k 2(3,4) by (intro sema_inv_object [OF inv, of o1 k' take_permit]) (auto simp: obj_ok_take)
  with 2 show ?thesis by (simp add: observe_def a0_def)
next
  case (3 o1 w)
  with nb show ?thesis by simp
qed

lemma WaitSema_block_inv:
  assumes inv: "sema_inv evs st" and step: "WaitSema c ctx (ks_kern st) = (Block, k')"
    and n: "ks_calls st n = None" and g: "g_semas (ks_kern st) (a0 ctx) = Some o1"
  defines "w \<equiv> \<lparr>wc_caller = c, wc_info = fst (currentInfo c ctx (ks_kern st)), wc_sid = a0 ctx, wc_obj = o1\<rparr>"
  shows "sema_inv evs (st\<lparr>ks_kern := k', ks_calls := (ks_calls st)(n \<mapsto> w)\<rparr>)"
  using step
proof (cases rule: WaitSema_cases)
  case (3 o2 x)
  then have part: "sema_part k' = sema_part (upd_sema o1 (join_wait x) (ks_kern st))"
    and x: "map_option fst x = (if wc_info w = None then None else Some (c_tid (wc_caller w)))"
    using g by (simp_all add: a0_def w_def)
  note k = sema_inv_known [OF inv g]
  have fin: "finite (dom (ks_calls st))" using inv by (simp add: sema_inv_def)
  have "sema_inv (evs @ []) (st\<lparr>ks_kern := k', ks_calls := (ks_calls st)(n \<mapsto> w)\<rparr>)"
  proof (rule sema_inv_change [OF inv _ part])
    show "o1 < s_next (ks_kern st)" using k by blast
    show "finite (dom ((ks_calls st)(n \<mapsto> w)))" using fin by simp
    show "0 < wc_sid w' \<and> wc_obj w' < s_next (ks_kern st)"
      if "((ks_calls st)(n \<mapsto> w)) m = Some w'" for m w'
      using that inv k by (auto simp: sema_inv_def w_def split: if_splits)
    show "obj_ok (evs @ []) ((ks_calls st)(n \<mapsto> w)) o1 (join_wait x (s_obj (ks_kern st) o1))"
      using k x by (auto intro!: obj_ok_join n fin simp: w_def)
  qed (auto simp: blocked_insert [of "ks_calls st" n, OF n] w_def)
  then show ?thesis by simp
qed auto

lemma WaitSema_wake_inv:
  assumes inv: "sema_inv evs st" and n: "ks_calls st n = Some w"
    and step: "WaitSema_wake (wc_caller w) (wc_info w) (wc_sid w) (wc_obj w) (ks_kern st) = (out, k')"
  shows "sema_inv (evs @ (if out = Finish (wc_sid w) then [(wc_obj w, Take)] else []))
      (st\<lparr>ks_kern := k', ks_calls := (if out = Block then ks_calls st else (ks_calls st)(n := None))\<rparr>)"
proof -
  let ?k = "ks_kern st" and ?o = "wc_obj w" and ?s = "s_obj (ks_kern st) (wc_obj w)"
  let ?u = "if wc_info w = None then None else Some (c_tid (wc_caller w))"
  have w: "0 < wc_sid w" "?o < s_next ?k" and fin: "finite (dom (ks_calls st))"
    and ok: "obj_ok evs (ks_calls st) ?o ?s"
    using inv n by (auto simp: sema_inv_def)
  have upd2: "sema_part (upd_sema ?o f (upd_sema ?o g ?k)) = sema_part (upd_sema ?o (f \<circ> g) ?k)" for f g
    by (simp add: sema_part_def kern_simps)
  have gone: "sema_inv (evs @ ev) (st\<lparr>ks_kern := k', ks_calls := (ks_calls st)(n := None)\<rparr>)"
    if "sema_part k' = sema_part (upd_sema ?o f ?k)" "\<And>o2. o2 \<noteq> ?o \<Longrightarrow> events_of o2 ev = []"
      "obj_ok (evs @ ev) ((ks_calls st)(n := None)) ?o (f ?s)" for f ev
    using that(3) inv n w fin
    by (intro sema_inv_change [OF inv w(2) that(1,2)])
      (auto simp: sema_inv_def blocked_remove blocked_on_def blocked_as_def split: if_splits)
  show ?thesis
    using step
  proof (cases rule: WaitSema_wake_cases)
    case 1
    have "sema_inv (evs @ []) (st\<lparr>ks_kern := k', ks_calls := (ks_calls st)(n := None)\<rparr>)"
      by (rule gone [OF 1(1)]) (use obj_ok_leave [OF ok n fin refl] in simp_all)
    with 1(2) w(1) show ?thesis by auto
  next
    case 2
    have "sema_inv (evs @ [(?o, Take)]) (st\<lparr>ks_kern := k', ks_calls := (ks_calls st)(n := None)\<rparr>)"
    proof (rule gone)
      show "sema_part k' = sema_part (upd_sema ?o (take_permit \<circ> leave_wait ?u) ?k)"
        using 2(3) upd2 by simp
      show "obj_ok (evs @ [(?o, Take)]) ((ks_calls st)(n := None)) ?o ((take_permit \<circ> leave_wait ?u) ?s)"
        using obj_ok_take [OF obj_ok_leave [OF ok n fin refl]] 2(2) by simp
    qed simp
    with 2(1) show ?thesis by simp
  next
    case (3 x)
    have "sema_inv (evs @ []) (st\<lparr>ks_kern := k'\<rparr>)"
    proof (rule sema_inv_object [OF inv w(2), where f = "join_wait x \<circ> leave_wait ?u"])
      show "sema_part k' = sema_part (upd_sema ?o (join_wait x \<circ> leave_wait ?u) ?k)"
        using 3(2) upd2 by simp
      show "obj_ok (evs @ []) (ks_calls st) ?o ((join_wait x \<circ> leave_wait ?u) ?s)"
        using obj_ok_rejoin [OF ok n fin refl 3(3)] by simp
    qed simp
    moreover have "st\<lparr>ks_kern := k', ks_calls := ks_calls st\<rparr> = st\<lparr>ks_kern := k'\<rparr>" by simp
    ultimately show ?thesis using 3(1) by simp
  qed
qed

lemma sema_step_preserves: "sema_step st ev st' \<Longrightarrow> sema_inv evs st \<Longrightarrow> sema_inv (evs @ ev) st'"
proof (induction rule: sema_step.induct)
  case (sema_other k' st)
  then show ?case by (simp add: sema_inv_part)
next
  case (sema_refer ctx st ctx' k')
  then show ?case by (simp add: sema_inv_part ReferSemaStatus_part)
qed (simp_all add: CreateSema_inv DeleteSema_inv SignalSema_inv PollSema_inv WaitSema_done_inv
    WaitSema_block_inv WaitSema_wake_inv)

lemma no_semas_inv: "no_semas st \<Longrightarrow> sema_inv [] st"
  by (simp add: no_semas_def sema_inv_def)

lemma sema_run_inv: "sema_run st evs st' \<Longrightarrow> no_semas st \<Longrightarrow> sema_inv evs st'"
  by (induction rule: sema_run.induct) (auto intro: no_semas_inv sema_step_preserves)

end
