(* ===== verification/SchedulerProps.thy ===== *)
theory SchedulerProps
  imports SchedulerInv
begin

text \<open>
  What the scheduler promises its clients, for every state it can reach: mutual exclusion of
  guest code, the contents of the run queue, that no fiber and no wakeup is lost, strict
  priorities, the hand-off to host workers, and the effect of the single operations.
\<close>

section \<open>The list queue and the pointer queue\<close>

text \<open>The list-level operations satisfy the same interface as the intrusive list.\<close>

definition lq_rep :: "sched \<Rightarrow> ptr list \<Rightarrow> bool" where
  "lq_rep s q \<longleftrightarrow> g_run_queue s = q \<and> distinct q \<and> (\<forall>p \<in> set q. fibers s p \<noteq> None)
     \<and> (\<forall>p f. fibers s p = Some f \<longrightarrow> (in_run_queue f \<longleftrightarrow> p \<in> set q))"

definition lq_live :: "sched \<Rightarrow> ptr \<Rightarrow> bool" where
  "lq_live s p \<longleftrightarrow> fibers s p \<noteq> None"

lemma lq_live_ops [sched_simps]:
  "lq_live (enqueue_locked p s) = lq_live s" "lq_live (remove_locked p s) = lq_live s"
  "lq_live (upd_fiber p g s) = lq_live s"
  by (auto simp: lq_live_def enqueue_locked_def remove_locked_def upd_fiber_def fun_eq_iff split: option.splits)

lemma lq_enqueue_new:
  assumes "lq_rep s q" "lq_live s p" "p \<notin> set q"
  shows "lq_rep (enqueue_locked p s) (insert_after (\<lambda>x. fiber_prio s x \<le> fiber_prio s p) p q)"
proof -
  from assms obtain f where f: "fibers s p = Some f" "\<not> in_run_queue f" by (auto simp: lq_live_def lq_rep_def)
  then have "fiber_prio s p = fc_priority f" by (simp add: fiber_prio_def)
  with assms f show ?thesis by (auto simp: lq_rep_def enqueue_locked_def)
qed

lemma lq_remove_in:
  assumes "lq_rep s q" "p \<in> set q"
  shows "lq_rep (remove_locked p s) (remove1 p q)"
proof -
  from assms obtain f where f: "fibers s p = Some f" "in_run_queue f" by (auto simp: lq_rep_def)
  with assms show ?thesis by (auto simp: lq_rep_def remove_locked_def)
qed

lemma lq_pop_Cons:
  assumes "lq_rep s (p # q)"
  shows "fst (pop_head_locked s) = Some p" "lq_rep (snd (pop_head_locked s)) q"
    "fiber_prio (snd (pop_head_locked s)) = fiber_prio s" "lq_live (snd (pop_head_locked s)) = lq_live s"
  using assms
  by (auto simp: lq_rep_def lq_live_def pop_head_locked_def upd_fiber_def fiber_prio_def fun_eq_iff
      split: option.splits)

interpretation lq: ready_queue lq_rep fiber_prio lq_live
  "\<lambda>p s. Some (enqueue_locked p s)" "\<lambda>p s. Some (remove_locked p s)"
  "\<lambda>s. Some (pop_head_locked s)" "\<lambda>k s. Some (rotate_ready_queue k s)"
proof
  fix s q p
  assume rep: "lq_rep s q"
  show "distinct q" using rep by (simp add: lq_rep_def)
  show "p \<in> set q \<Longrightarrow> lq_live s p" using rep by (simp add: lq_rep_def lq_live_def)
  show "lq_live s p \<Longrightarrow> p \<notin> set q \<Longrightarrow>
      \<exists>s'. Some (enqueue_locked p s) = Some s'
        \<and> lq_rep s' (insert_after (\<lambda>x. fiber_prio s x \<le> fiber_prio s p) p q)
        \<and> fiber_prio s' = fiber_prio s \<and> lq_live s' = lq_live s"
    using lq_enqueue_new [OF rep] by (simp add: sched_simps)
  show "p \<in> set q \<Longrightarrow> Some (enqueue_locked p s) = Some s"
    using rep by (auto simp: lq_rep_def enqueue_locked_def)
  show "p \<in> set q \<Longrightarrow> \<exists>s'. Some (remove_locked p s) = Some s' \<and> lq_rep s' (remove1 p q)
        \<and> fiber_prio s' = fiber_prio s \<and> lq_live s' = lq_live s"
    using lq_remove_in [OF rep] by (simp add: sched_simps)
  show "lq_live s p \<Longrightarrow> p \<notin> set q \<Longrightarrow> Some (remove_locked p s) = Some s"
    using rep by (auto simp: lq_rep_def lq_live_def remove_locked_def)
  show "\<exists>s'. Some (rotate_ready_queue k s) = Some s'
        \<and> lq_rep s' (rotate_group (\<lambda>x. fiber_prio s x = k) q)
        \<and> fiber_prio s' = fiber_prio s \<and> lq_live s' = lq_live s" for k
    using rep by (simp add: lq_rep_def rotate_ready_queue_def lq_live_def fiber_prio_def fun_eq_iff)
next
  fix s
  assume "lq_rep s []"
  then show "Some (pop_head_locked s) = Some (None, s)" by (simp add: lq_rep_def pop_head_locked_def)
next
  fix s p q
  assume "lq_rep s (p # q)"
  from lq_pop_Cons [OF this] show "\<exists>s'. Some (pop_head_locked s) = Some (Some p, s') \<and> lq_rep s' q
      \<and> fiber_prio s' = fiber_prio s \<and> lq_live s' = lq_live s"
    by (cases "pop_head_locked s") auto
qed

text \<open>Forgetting the \<open>next\<close> pointers of the intrusive list gives the list-level state.\<close>

definition node_fibers :: "rq_mem \<Rightarrow> ptr \<rightharpoonup> fiber" where
  "node_fibers m p = map_option fiber.truncate (rq_heap m p)"

definition rq_abs :: "rq_mem \<Rightarrow> sched \<Rightarrow> bool" where
  "rq_abs m s \<longleftrightarrow> rq_rep m (g_run_queue s) \<and> node_fibers m = fibers s"

lemma truncate_sel [simp]:
  "fc_tid (fiber.truncate f) = fc_tid f" "fc_priority (fiber.truncate f) = fc_priority f"
  "in_run_queue (fiber.truncate f) = in_run_queue f" "fc_state (fiber.truncate f) = fc_state f"
  by (simp_all add: fiber.truncate_def)

lemma truncate_upd [simp]:
  "fiber.truncate (f\<lparr>fc_next := v\<rparr>) = fiber.truncate f"
  "fiber.truncate (f\<lparr>in_run_queue := b\<rparr>) = (fiber.truncate f)\<lparr>in_run_queue := b\<rparr>"
  "fiber.truncate (f\<lparr>fc_state := st\<rparr>) = (fiber.truncate f)\<lparr>fc_state := st\<rparr>"
  by (simp_all add: fiber.truncate_def)

lemma node_fibers_store_slot [simp]: "node_fibers (store_slot m sl v) = node_fibers m"
  by (cases sl) (auto simp: node_fibers_def fun_eq_iff option.map_comp o_def)

lemma node_fibers_upd_node [simp]:
  assumes "\<And>f. fiber.truncate (g f) = h (fiber.truncate f)"
  shows "node_fibers (upd_node p g m) = (node_fibers m)(p := map_option h (node_fibers m p))"
  using assms by (auto simp: node_fibers_def upd_node_def fun_eq_iff option.map_comp o_def)

lemma rq_abs_prio:
  assumes "rq_abs m s" shows "rq_prio m = fiber_prio s"
proof
  fix x
  from assms have "fibers s x = node_fibers m x" by (simp add: rq_abs_def)
  then show "rq_prio m x = fiber_prio s x"
    by (cases "rq_heap m x") (simp_all add: rq_prio_def fiber_prio_def node_fibers_def)
qed

lemma rq_abs_cell:
  assumes "rq_abs m s" "fibers s p = Some f"
  obtains n where "rq_heap m p = Some n" "f = fiber.truncate n"
  using assms by (auto simp: rq_abs_def node_fibers_def dest!: fun_cong [of _ _ p])

lemma enqueue_ptr_fibers:
  assumes "enqueue_ptr p m = Some m'" "rq_heap m p = Some n" "\<not> in_run_queue n"
  shows "node_fibers m' = (node_fibers m)(p \<mapsto> (fiber.truncate n)\<lparr>in_run_queue := True, fc_state := Ready\<rparr>)"
  using assms
  by (auto simp: enqueue_ptr_def Let_def bind_eq_Some_conv
      node_fibers_upd_node [where h = "\<lambda>f. f\<lparr>in_run_queue := True, fc_state := Ready\<rparr>"] node_fibers_def)

lemma remove_ptr_fibers:
  assumes "remove_ptr p m = Some m'" "rq_heap m p = Some n" "in_run_queue n" "rq_rep m q" "p \<in> set q"
  shows "node_fibers m' = (node_fibers m)(p \<mapsto> (fiber.truncate n)\<lparr>in_run_queue := False\<rparr>)"
proof -
  from assms(5) obtain as bs where q: "q = as @ p # bs" "p \<notin> set as" by (meson split_list_first)
  with assms(4) have path: "qpath (rq_heap m) (rq_head m) (as @ p # bs) None" by (simp add: rq_rep_def)
  from rem_walk_path [OF path q(2)] load_slot_of [OF path] assms(1-3) show ?thesis
    by (auto simp: remove_ptr_def Let_def
      node_fibers_upd_node [where h = "\<lambda>f. f\<lparr>in_run_queue := False\<rparr>"] node_fibers_def)
qed

lemma rotate_ptr_fibers: "rotate_ptr k m = Some m' \<Longrightarrow> node_fibers m' = node_fibers m"
  by (auto simp: rotate_ptr_def Let_def bind_eq_Some_conv split: option.splits)

lemma enqueue_refines:
  assumes abs: "rq_abs m s" and live: "fibers s p \<noteq> None"
  shows "\<exists>m'. enqueue_ptr p m = Some m' \<and> rq_abs m' (enqueue_locked p s)"
proof -
  obtain n where n: "rq_heap m p = Some n" "fibers s p = Some (fiber.truncate n)"
    using live abs by (metis not_None_eq rq_abs_cell)
  have rep: "rq_rep m (g_run_queue s)" using abs by (simp add: rq_abs_def)
  have flag: "in_run_queue n \<longleftrightarrow> p \<in> set (g_run_queue s)" using rq_rep_flag [OF rep n(1)] .
  show ?thesis
  proof (cases "p \<in> set (g_run_queue s)")
    case True
    with pq.enq_old [OF rep True] flag n abs show ?thesis by (simp add: enqueue_locked_def)
  next
    case False
    have "rq_live m p" using n by (simp add: rq_live_def)
    from pq.enq_new [OF rep this False] obtain m' where m': "enqueue_ptr p m = Some m'"
      "rq_rep m' (insert_after (\<lambda>x. rq_prio m x \<le> rq_prio m p) p (g_run_queue s))" by blast
    moreover have "rq_prio m p = fc_priority n" using n by (simp add: rq_prio_def)
    moreover have "node_fibers m' = (fibers s)(p \<mapsto> (fiber.truncate n)\<lparr>in_run_queue := True, fc_state := Ready\<rparr>)"
      using enqueue_ptr_fibers [OF m'(1) n(1)] False flag abs by (simp add: rq_abs_def)
    ultimately show ?thesis using n False flag rq_abs_prio [OF abs]
      by (simp add: enqueue_locked_def rq_abs_def)
  qed
qed

lemma remove_refines:
  assumes abs: "rq_abs m s" and live: "fibers s p \<noteq> None"
  shows "\<exists>m'. remove_ptr p m = Some m' \<and> rq_abs m' (remove_locked p s)"
proof -
  obtain n where n: "rq_heap m p = Some n" "fibers s p = Some (fiber.truncate n)"
    using live abs by (metis not_None_eq rq_abs_cell)
  have rep: "rq_rep m (g_run_queue s)" using abs by (simp add: rq_abs_def)
  have flag: "in_run_queue n \<longleftrightarrow> p \<in> set (g_run_queue s)" using rq_rep_flag [OF rep n(1)] .
  show ?thesis
  proof (cases "p \<in> set (g_run_queue s)")
    case True
    from pq.rem_in [OF rep True] obtain m' where m': "remove_ptr p m = Some m'"
      "rq_rep m' (remove1 p (g_run_queue s))" by blast
    with remove_ptr_fibers [OF m'(1) n(1) _ rep True] True flag n abs show ?thesis
      by (simp add: remove_locked_def rq_abs_def)
  next
    case False
    moreover have "rq_live m p" using n by (simp add: rq_live_def)
    ultimately show ?thesis using pq.rem_out [OF rep] flag n abs by (simp add: remove_locked_def)
  qed
qed

lemma pop_refines:
  assumes abs: "rq_abs m s"
  shows "\<exists>m'. pop_head_ptr m = Some (fst (pop_head_locked s), m') \<and> rq_abs m' (snd (pop_head_locked s))"
proof (cases "g_run_queue s")
  case Nil
  with abs pq.pop_Nil [of m] show ?thesis by (simp add: pop_head_locked_def rq_abs_def)
next
  case (Cons p ps)
  with abs have rep: "rq_rep m (p # ps)" by (simp add: rq_abs_def)
  from pq.pop_Cons [OF rep] obtain m' where m': "pop_head_ptr m = Some (Some p, m')" "rq_rep m' ps" by blast
  from rq_rep_live [OF rep, of p] obtain n where n: "rq_heap m p = Some n" by (auto simp: rq_live_def)
  with rq_rep_flag [OF rep n] have flag: "in_run_queue n" by simp
  from m'(1) pop_head_ptr_eq_remove [OF rep] have "remove_ptr p m = Some m'" by auto
  from remove_ptr_fibers [OF this n flag rep] have
    "node_fibers m' = (node_fibers m)(p \<mapsto> (fiber.truncate n)\<lparr>in_run_queue := False\<rparr>)" by simp
  moreover have eq: "fibers s = node_fibers m" using abs by (simp add: rq_abs_def)
  moreover have "fibers s p = Some (fiber.truncate n)" using n by (simp add: eq node_fibers_def)
  ultimately show ?thesis using Cons m' by (simp add: pop_head_locked_def rq_abs_def upd_fiber_def)
qed

lemma rotate_refines:
  assumes abs: "rq_abs m s"
  shows "\<exists>m'. rotate_ptr k m = Some m' \<and> rq_abs m' (rotate_ready_queue k s)"
proof -
  have "rq_rep m (g_run_queue s)" using abs by (simp add: rq_abs_def)
  from pq.rot_rep [OF this, of k] obtain m' where m': "rotate_ptr k m = Some m'"
    "rq_rep m' (rotate_group (\<lambda>x. rq_prio m x = k) (g_run_queue s))" by blast
  with rotate_ptr_fibers [OF m'(1)] abs rq_abs_prio [OF abs] show ?thesis
    by (simp add: rq_abs_def rotate_ready_queue_def)
qed

section \<open>A small run\<close>

text \<open>
  Two fibers are created after start-up and the more urgent one is dispatched: the states at
  which the properties below are exercised.
\<close>

definition demo_init :: sched where
  "demo_init = the (scheduler_init sched0)"

definition demo_ready :: sched where
  "demo_ready = create_fiber_publish 200 2 (create_fiber_build 200 2 5 0x100000 0x2000 0 7
     (create_fiber_publish 100 1 (create_fiber_build 100 1 10 0x200000 0x1000 0 3 demo_init)))"

definition demo_running :: sched where
  "demo_running = snd (exec_dispatch demo_ready)"

lemma create_fiber_build_fields [sched_simps]:
  "fibers (create_fiber_build p tid prio entry sp gp arg s) =
     (fibers s)(p \<mapsto> fiber_new (s_nextGeneration s) tid prio entry sp gp arg)"
  "g_fiber_map (create_fiber_build p tid prio entry sp gp arg s) = g_fiber_map s"
  by (simp_all add: create_fiber_build_def)

lemma demo_init_reachable: "sched_reachable demo_init"
proof (rule sched_reachable_step [OF sched_reachable0])
  show "sched_step sched0 demo_init"
    by (rule sched_step.init) (simp add: demo_init_def scheduler_init_def sched0_def destroy_mapped_def Let_def)
qed

lemma demo_init_state:
  "fibers demo_init = Map.empty" "g_fiber_map demo_init = Map.empty" "g_run_queue demo_init = []"
  "g_running_fiber demo_init = None" "\<not> g_guest_token_held_by_host demo_init" "\<not> g_stop demo_init"
  "g_host_token_waiters demo_init = 0" "executor_alive demo_init" "s_nextGeneration demo_init = 1"
  "g_host_token_grants demo_init = 0" "\<not> deferringToWaiters demo_init" "\<not> yielding demo_init"
  "\<not> tls_intr_disabled demo_init" "tls_backedge_counter demo_init = 0" "grantsAtDefer demo_init = 0"
  "tls_intr_disable_samples demo_init = 0"
  by (simp_all add: demo_init_def scheduler_init_def sched0_def destroy_mapped_def Let_def fun_eq_iff)

definition demo_fiber :: "ptr \<Rightarrow> fiber" where
  "demo_fiber p = (if p = 100 then fiber_new 1 1 10 0x200000 0x1000 0 3 else fiber_new 2 2 5 0x100000 0x2000 0 7)"

lemma demo_ready_state:
  "fibers demo_ready = [100 \<mapsto> (demo_fiber 100)\<lparr>in_run_queue := True, fc_state := Ready\<rparr>,
     200 \<mapsto> (demo_fiber 200)\<lparr>in_run_queue := True, fc_state := Ready\<rparr>]"
  "g_fiber_map demo_ready = [1 \<mapsto> 100, 2 \<mapsto> 200]" "g_run_queue demo_ready = [200, 100]"
  "g_running_fiber demo_ready = None" "\<not> g_guest_token_held_by_host demo_ready" "\<not> g_stop demo_ready"
  "g_host_token_waiters demo_ready = 0" "executor_alive demo_ready" "s_nextGeneration demo_ready = 3"
  "g_host_token_grants demo_ready = 0" "\<not> deferringToWaiters demo_ready" "\<not> yielding demo_ready"
  "\<not> tls_intr_disabled demo_ready" "tls_backedge_counter demo_ready = 0" "grantsAtDefer demo_ready = 0"
  "tls_intr_disable_samples demo_ready = 0"
  by (auto simp: demo_ready_def create_fiber_publish_def create_fiber_build_def enqueue_locked_def
      demo_init_state fiber_prio_def demo_fiber_def sched_simps Let_def)

lemma demo_ready_reachable: "sched_reachable demo_ready"
proof -
  let ?b1 = "create_fiber_build 100 1 10 0x200000 0x1000 0 3 demo_init"
  let ?p1 = "create_fiber_publish 100 1 ?b1"
  let ?b2 = "create_fiber_build 200 2 5 0x100000 0x2000 0 7 ?p1"
  have f1: "fibers ?b1 = [100 \<mapsto> demo_fiber 100]" "g_fiber_map ?b1 = Map.empty"
    by (simp_all add: create_fiber_build_def demo_init_state demo_fiber_def)
  have "sched_reachable ?b1"
    by (rule sched_reachable_step [OF demo_init_reachable], rule sched_step.build) (simp add: demo_init_state)
  then have r1: "sched_reachable ?p1"
    by (rule sched_reachable_step) (rule sched_step.publish [of _ _ "demo_fiber 100"];
        simp add: f1 demo_fiber_def demo_init_state sched_simps)
  have f2: "fibers ?p1 200 = None" "g_fiber_map ?p1 = [1 \<mapsto> 100]"
    by (simp_all add: create_fiber_publish_def enqueue_locked_def demo_init_state demo_fiber_def sched_simps Let_def)
  have g: "s_nextGeneration ?p1 = 2"
    by (simp add: create_fiber_publish_def enqueue_locked_def create_fiber_build_def demo_init_state Let_def
        sched_simps)
  have "sched_reachable ?b2"
    by (rule sched_reachable_step [OF r1], rule sched_step.build) (rule f2)
  then have "sched_reachable (create_fiber_publish 200 2 ?b2)"
    by (rule sched_reachable_step) (rule sched_step.publish [of _ _ "demo_fiber 200"];
        simp add: f2 g demo_fiber_def sched_simps)
  then show ?thesis by (simp add: demo_ready_def)
qed

lemma demo_running_state:
  "exec_dispatch demo_ready = (Resumed 200, demo_running)"
  "fibers demo_running = [100 \<mapsto> (demo_fiber 100)\<lparr>in_run_queue := True, fc_state := Ready\<rparr>,
     200 \<mapsto> (demo_fiber 200)\<lparr>in_run_queue := False, fc_state := Running\<rparr>]"
  "g_fiber_map demo_running = [1 \<mapsto> 100, 2 \<mapsto> 200]" "g_run_queue demo_running = [100]"
  "g_running_fiber demo_running = Some 200" "\<not> yielding demo_running" "\<not> g_stop demo_running"
  "g_host_token_waiters demo_running = 0" "\<not> tls_intr_disabled demo_running"
  "tls_backedge_counter demo_running = 0" "g_host_token_grants demo_running = 0"
  "tls_intr_disable_samples demo_running = 0"
  by (auto simp: demo_running_def exec_dispatch_def canQuit_def canRun_def pop_head_locked_def
      upd_fiber_def demo_ready_state demo_fiber_def)

lemma demo_running_reachable: "sched_reachable demo_running"
  unfolding demo_running_def
  by (rule sched_reachable_step [OF demo_ready_reachable], rule sched_step.dispatch)
     (simp_all add: demo_ready_state)

lemma demo_executing: "executing demo_running 200"
  by (simp add: executing_def demo_running_state)

section \<open>Safety of every reachable state\<close>



text \<open>
  C4 (run queue): in every reachable state the run queue has no duplicates, is sorted by
  priority number, and contains a fiber exactly when the fiber's state is \<open>Ready\<close> and exactly
  when its \<open>in_run_queue\<close> flag is set.
\<close>

theorem run_queue_is_ready_set:
  assumes "sched_reachable s"
  shows "distinct (g_run_queue s) \<and> sorted (map (fiber_prio s) (g_run_queue s))
    \<and> (\<forall>p f. fibers s p = Some f \<longrightarrow> in_run_queue f = (p \<in> set (g_run_queue s))
          \<and> (fc_state f = Ready) = (p \<in> set (g_run_queue s)))"
  using sched_reachable_inv [OF assms]
  by (auto simp: sched_inv_def queue_ok_def fibers_ok_def fiber_ok_def)

theorem run_queue_is_ready_set_witness:
  "distinct (g_run_queue demo_ready) \<and> sorted (map (fiber_prio demo_ready) (g_run_queue demo_ready))
   \<and> fc_state (the (fibers demo_ready 200)) = Ready"
  using run_queue_is_ready_set [OF demo_ready_reachable] by (simp add: demo_ready_state)

text \<open>
  C3 (no dangling pointer, no lost fiber): in every reachable state the fiber map, the run queue
  and \<open>g_running_fiber\<close> refer to live objects only, the map is keyed by the fiber's own thread
  id, and every fiber of the map is queued, running or parked in state \<open>Blocked\<close>.
\<close>

theorem no_fiber_lost:
  assumes "sched_reachable s" "g_fiber_map s tid = Some p"
  shows "\<exists>f. fibers s p = Some f \<and> fc_tid f = tid
    \<and> (p \<in> set (g_run_queue s) \<or> g_running_fiber s = Some p \<or> fc_state f = Blocked)
    \<and> (\<forall>q. q \<in> set (g_run_queue s) \<or> g_running_fiber s = Some q \<longrightarrow> fibers s q \<noteq> None)"
proof -
  have inv: "sched_inv s" using sched_reachable_inv [OF assms(1)] .
  with assms(2) obtain f where f: "fibers s p = Some f" "fc_tid f = tid"
    by (auto simp: sched_inv_def map_ok_def)
  with inv assms(2) have "fiber_ok s p f" "in_run_queue f = (p \<in> set (g_run_queue s))"
    by (auto simp: sched_inv_def fibers_ok_def queue_ok_def)
  with f assms(2) sched_inv_live [OF inv] show ?thesis
    by (auto simp: fiber_ok_def fiber_owned_def parked_ok_def split: if_splits)
qed

theorem no_fiber_lost_witness:
  "\<exists>f. fibers demo_running 100 = Some f \<and> fc_tid f = 1
     \<and> (100 \<in> set (g_run_queue demo_running) \<or> g_running_fiber demo_running = Some 100 \<or> fc_state f = Blocked)"
  using no_fiber_lost [OF demo_running_reachable, of 1 100] by (auto simp: demo_running_state)

section \<open>Wakeups\<close>

text \<open>A fiber that will run again without a further wakeup.\<close>

definition wake_effective :: "sched \<Rightarrow> ptr \<Rightarrow> bool" where
  "wake_effective s p \<longleftrightarrow> p \<in> set (g_run_queue s)
     \<or> (g_running_fiber s = Some p \<and> (\<exists>f. fibers s p = Some f \<and> wake_pending f))"

lemma wake_locked_effective:
  assumes "queue_ok s" "fibers s p = Some f"
  shows "wake_effective (wake_locked p s) p"
  using assms
  by (auto simp: wake_effective_def wake_locked_def enqueue_locked_def sched_simps queue_ok_def)

lemma wake_locked_fiber:
  assumes "fibers s p = Some f"
  shows "\<exists>g. fibers (wake_locked p s) p = Some g \<and> terminateRequested g = terminateRequested f
    \<and> fc_suspendCount g = fc_suspendCount f"
  using assms by (simp add: wake_locked_def enqueue_locked_def sched_simps)

lemma queue_ok_reachable: "sched_reachable s \<Longrightarrow> queue_ok s"
  using sched_reachable_inv by (auto simp: sched_inv_def)



text \<open>
  Terminate reaches the target: \<open>request_terminate\<close> sets the terminate flag, opens the
  suspend gate and makes the target run again, whatever state it was in.
\<close>

lemma request_terminate_effective:
  assumes "sched_reachable s" "g_fiber_map s tid = Some p"
  shows "wake_effective (request_terminate tid s) p
    \<and> (\<exists>f. fibers (request_terminate tid s) p = Some f \<and> terminateRequested f \<and> fc_suspendCount f = 0)"
proof -
  have inv: "sched_inv s" using sched_reachable_inv [OF assms(1)] .
  obtain f where f: "fibers s p = Some f" using sched_inv_live(1) [OF inv assms(2)] by auto
  let ?g = "\<lambda>f. f\<lparr>terminateRequested := True, fc_suspendCount := 0\<rparr>"
  let ?s1 = "upd_fiber p ?g s"
  have r: "request_terminate tid s = wake_locked p ?s1"
    using assms(2) f by (simp add: request_terminate_def with_fiber_def fiber_for_def)
  have f1: "fibers ?s1 p = Some (?g f)" using f by (simp add: sched_simps)
  have "queue_ok ?s1" using inv by (intro queue_ok_upd_fiber) (auto simp: sched_inv_def)
  with wake_locked_effective [OF _ f1] wake_locked_fiber [OF f1] show ?thesis unfolding r by auto
qed

section \<open>Dispatch order and the hand-off to host workers\<close>

text \<open>
  Strict priority: when the executor resumes a fiber from a reachable state, that fiber was
  queued, no queued fiber has a smaller priority number, and among those of the same priority
  it is the first; afterwards it is the running fiber, in state \<open>Running\<close> and off the queue.
\<close>

lemma dispatch_highest_priority:
  assumes "sched_reachable s" "executor_alive s" "exec_dispatch s = (Resumed p, s')"
  shows "p \<in> set (g_run_queue s) \<and> (\<forall>x \<in> set (g_run_queue s). fiber_prio s p \<le> fiber_prio s x)
    \<and> hd (filter (\<lambda>x. fiber_prio s x = fiber_prio s p) (g_run_queue s)) = p
    \<and> g_running_fiber s' = Some p \<and> g_run_queue s' = tl (g_run_queue s)
    \<and> map_option fc_state (fibers s' p) = Some Running \<and> g_guest_token_held_by_host s' = False"
proof -
  have inv: "sched_inv s" using sched_reachable_inv [OF assms(1)] .
  from exec_dispatch_cases [OF inv assms(2)] assms(3) obtain f ps where
    q: "g_run_queue s = p # ps" "fst (canRun s)" "s' = resume_head p f ps (snd (canRun s))" by auto
  have "\<not> g_guest_token_held_by_host (snd (canRun s))"
    using q(2) canRun_True [of s] by (cases "canRun s") auto
  moreover have "sorted (map (fiber_prio s) (p # ps))"
    using inv q(1) by (auto simp: sched_inv_def queue_ok_def)
  ultimately show ?thesis using q by (simp add: resume_head_def)
qed

text \<open>Only the executor's predicate touches the deferral variables.\<close>

definition defer_ok :: "sched \<Rightarrow> bool" where
  "defer_ok s \<longleftrightarrow> (deferringToWaiters s \<longrightarrow> grantsAtDefer s = g_host_token_grants s)"

abbreviation defer_same :: "sched \<Rightarrow> sched \<Rightarrow> bool" where
  "defer_same s' s \<equiv> deferringToWaiters s' = deferringToWaiters s \<and> grantsAtDefer s' = grantsAtDefer s"

lemma defer_same_wake: "defer_same (wake_locked p s) s"
  by (simp add: wake_locked_def sched_simps split: option.split)

lemma defer_same_remove: "defer_same (remove_locked p s) s"
  by (simp add: remove_locked_def split: option.split)

lemma defer_same_block: "defer_same (snd (block_current self s)) s"
  by (simp add: block_current_def ps2fiber_yield_def sched_simps split: option.split)

lemma defer_same_yield_to: "defer_same (snd (yield_to better self s)) s"
  by (simp add: yield_to_def ps2fiber_yield_def sched_simps split: option.split list.split)

lemma defer_same_with_fiber:
  "(\<And>p f. defer_same (F p f s) s) \<Longrightarrow> defer_same (with_fiber tid F s) s"
  by (simp add: with_fiber_def split: option.split)

lemma defer_same_gate: "defer_same (snd (yield_point_gate p s)) s"
  using defer_same_yield_to [of "(<)" "Some p" s]
  by (auto simp: yield_point_gate_def yield_point_waiters_def maybe_yield_def ps2fiber_yield_def split: prod.split)

lemma defer_same_yield_point: "defer_same (snd (yield_point self s)) s"
proof -
  have "defer_same (snd (case block_current self s' of (r, s1) \<Rightarrow> (YBlock r, s1))) s'" for self s'
    using defer_same_block [of self s'] by (auto split: prod.split)
  then show ?thesis
    unfolding yield_point_def Let_def by (simp add: defer_same_gate split: option.split)
qed

lemma defer_same_shutdown: "defer_same (shutdown_mark order s) s"
proof -
  have one: "defer_same (shutdown_fiber tid s) s" for tid s
    unfolding shutdown_fiber_def
    by (rule defer_same_with_fiber) (simp add: defer_same_wake sched_simps)
  have "defer_same (fold shutdown_fiber order s) s" for s
    by (induction order arbitrary: s) (simp_all add: one)
  then show ?thesis by (simp add: shutdown_mark_def)
qed

lemma defer_same_post: "defer_same (exec_post s) s"
  by (simp add: exec_post_def exec_post_fiber_def Let_def sched_simps split: option.split)

lemma defer_same_suspend_other: "defer_same (suspend_other tid s) s"
  unfolding suspend_other_def
  by (rule defer_same_with_fiber) (simp add: Let_def defer_same_remove sched_simps)

lemma defer_same_update_priority: "defer_same (update_priority tid k s) s"
  unfolding update_priority_def
  by (rule defer_same_with_fiber) (simp add: Let_def defer_same_remove sched_simps)

lemma defer_same_join:
  "defer_same (snd (join_iter self tid gen s)) s"
  "join_restore self s = Some s' \<Longrightarrow> defer_same s' s"
  by (auto simp: join_iter_def join_restore_def ps2fiber_yield_def Let_def sched_simps
      split: option.splits if_splits)

lemma defer_same_wakers:
  "defer_same (make_ready tid s) s" "defer_same (enqueue_external_wakeup_validated tid token s) s"
  "defer_same (request_terminate tid s) s" "defer_same (clear_suspend tid s) s"
  unfolding make_ready_def enqueue_external_wakeup_validated_def request_terminate_def clear_suspend_def
  by (rule defer_same_with_fiber, simp add: defer_same_wake sched_simps)+

lemma defer_same_small:
  "defer_same (fiber_mark_exiting p s) s" "defer_same (ps2fiber_yield (fiber_mark_finished p s)) s"
  "defer_same (arm_park self s) s" "defer_same (suspend_self_count self s) s"
  "defer_same (snd (yield_point_waiters s)) s" "defer_same (ps2x_guest_intr_disable_enter s) s"
  "defer_same (ps2x_guest_intr_disable_leave s) s" "defer_same (rotate_ready_queue k s) s"
  "defer_same (async_guest_wait s) s" "defer_same (create_fiber_build p tid k entry sp gp arg s) s"
  "defer_same (create_fiber_publish p tid s) s" "defer_same (create_fiber_drop p s) s"
  "defer_same (shutdown_final s) s"
  by (simp_all add: fiber_mark_exiting_def fiber_mark_finished_def arm_park_def suspend_self_count_def
      yield_point_waiters_def ps2x_guest_intr_disable_enter_def ps2x_guest_intr_disable_leave_def
      rotate_ready_queue_def async_guest_wait_def create_fiber_build_def create_fiber_publish_def
      create_fiber_drop_def shutdown_final_def destroy_mapped_def ps2fiber_yield_def Let_def sched_simps
      split: option.split)

lemma defer_same_end: "async_guest_end h s = Some s' \<Longrightarrow> defer_same s' s"
  by (auto simp: async_guest_end_def split: if_splits)

lemmas defer_same_rules = defer_same_wakers defer_same_small defer_same_end
  defer_same_yield_to [where better = "(<)", folded maybe_yield_def]
  defer_same_yield_to [where better = "(\<le>)", folded force_reschedule_def]
 defer_same_wake defer_same_block defer_same_yield_to
  defer_same_yield_point defer_same_shutdown defer_same_post defer_same_suspend_other
  defer_same_update_priority defer_same_join

lemma defer_ok_dispatch:
  "defer_ok s \<Longrightarrow> g_host_token_grants (snd (exec_dispatch s)) = g_host_token_grants s \<and> defer_ok (snd (exec_dispatch s))"
  by (auto simp: exec_dispatch_def canRun_def pop_head_locked_def defer_ok_def sched_simps Let_def
      split: list.split)

lemma step_defer_same:
  assumes "sched_step s s'"
  shows "scheduler_init s = Some s' \<or> s' = snd (exec_dispatch s) \<or> defer_same s' s
    \<or> s' = async_guest_grant s"
  using assms by (cases rule: sched_step.cases) (auto simp only: defer_same_rules)

lemma defer_ok_step:
  assumes "sched_step s s'" "g_host_token_grants s' = g_host_token_grants s" "defer_ok s"
  shows "defer_ok s'"
proof -
  have "defer_ok s'" if "scheduler_init s = Some s'"
    using that by (auto simp: scheduler_init_def Let_def defer_ok_def split: if_splits)
  moreover have "g_host_token_grants (async_guest_grant s) \<noteq> g_host_token_grants s"
    by (simp add: async_guest_grant_def)
  moreover have "defer_ok s'" if "defer_same s' s"
    using that assms(2,3) by (simp only: defer_ok_def)
  ultimately show ?thesis
    using step_defer_same [OF assms(1)] assms(2,3) defer_ok_dispatch by metis
qed

text \<open>
  C6 (workers are not starved): after the executor has resumed a fiber, it does not resume
  another one while a host worker is parked in \<open>async_guest_begin\<close>, unless some worker has been
  granted the token in between, whatever steps the fibers and host threads take.
\<close>

theorem executor_yields_to_workers:
  assumes "exec_dispatch s0 = (Resumed p, s1)"
    and "(\<lambda>a b. sched_step a b \<and> g_host_token_grants b = g_host_token_grants a)\<^sup>*\<^sup>* s1 s2"
    and "g_host_token_waiters s2 \<noteq> 0"
  shows "fst (exec_dispatch s2) \<noteq> Resumed q"
proof -
  have "defer_ok s1" using assms(1)
    by (auto simp: exec_dispatch_def canRun_def defer_ok_def pop_head_locked_def sched_simps Let_def
        split: if_splits list.splits)
  with assms(2) have "defer_ok s2" by (induction rule: rtranclp_induct) (auto intro: defer_ok_step)
  with assms(3) show ?thesis
    by (auto simp: exec_dispatch_def canRun_def defer_ok_def pop_head_locked_def Let_def split: list.split)
qed

theorem executor_yields_to_workers_witness:
  "fst (exec_dispatch (async_guest_wait demo_running)) \<noteq> Resumed 100"
proof (rule executor_yields_to_workers [OF demo_running_state(1)])
  have "sched_step demo_running (async_guest_wait demo_running)" by (rule sched_step.token_wait)
  then show "(\<lambda>a b. sched_step a b \<and> g_host_token_grants b = g_host_token_grants a)\<^sup>*\<^sup>*
      demo_running (async_guest_wait demo_running)"
    by (intro r_into_rtranclp) (simp add: async_guest_wait_def)
qed (simp add: async_guest_wait_def demo_running_state)

text \<open>
  Fibers are not starved: with runnable fibers and parked workers, one evaluation of the
  wait predicate puts the executor to sleep in favour of the workers, and as soon as one worker
  has been granted the token and returned it, the next evaluation resumes a fiber, even if
  more workers are parked.
\<close>

lemma executor_runs_after_grant:
  assumes "sched_reachable s" "executor_alive s" "g_run_queue s \<noteq> []" "async_guest_ready s"
    and "g_host_token_waiters s > 0" "deferringToWaiters s = False"
  shows "\<exists>s1 s2 p. exec_dispatch s = (Slept, s1) \<and> async_guest_ready s1
    \<and> async_guest_end True (async_guest_grant s1) = Some s2 \<and> fst (exec_dispatch s2) = Resumed p"
proof -
  let ?s1 = "s\<lparr>deferringToWaiters := True, grantsAtDefer := g_host_token_grants s\<rparr>"
  let ?s2 = "(async_guest_grant ?s1)\<lparr>g_guest_token_held_by_host := False\<rparr>"
  have "exec_dispatch s = (Slept, ?s1)" "async_guest_ready ?s1"
    using assms by (simp_all add: exec_dispatch_def canQuit_def canRun_def async_guest_ready_def)
  moreover have "async_guest_end True (async_guest_grant ?s1) = Some ?s2"
    by (simp add: async_guest_end_def async_guest_grant_def)
  moreover obtain p ps where "g_run_queue s = p # ps" using assms(3) by (cases "g_run_queue s") auto
  then have "fst (exec_dispatch ?s2) = Resumed p"
    using assms by (simp add: exec_dispatch_def canQuit_def canRun_def async_guest_ready_def
        async_guest_grant_def pop_head_locked_def)
  ultimately show ?thesis by blast
qed

section \<open>Single operations\<close>

lemma token_eq_iff:
  "push_bit 32 (ucast (a :: u32) :: u64) OR ucast (b :: u32) = push_bit 32 (ucast c) OR ucast d
     \<longleftrightarrow> a = c \<and> b = d"
proof
  assume eq: "push_bit 32 (ucast a :: u64) OR ucast b = push_bit 32 (ucast c) OR ucast d"
  have "\<not> bit (w :: u32) (n + 32)" for w n using bit_imp_le_length [of w "n + 32"] by auto
  then have "bit a n = bit c n" if "n < 32" for n
    using arg_cong [OF eq, of "\<lambda>w. bit w (n + 32)"] that by (simp add: bit_simps)
  moreover have "bit b n = bit d n" if "n < 32" for n
    using arg_cong [OF eq, of "\<lambda>w. bit w n"] that by (simp add: bit_simps)
  ultimately show "a = c \<and> b = d" by (auto intro!: bit_word_eqI)
qed simp

lemma make_fiber_token_eq:
  "make_fiber_token f = make_fiber_token g \<longleftrightarrow>
     fc_generation f = fc_generation g \<and> of_int32 (fc_tid f) = of_int32 (fc_tid g)"
  by (simp add: make_fiber_token_def token_eq_iff)

text \<open>
  Recycled thread ids: a wakeup that carries the token of an earlier fiber leaves the
  scheduler unchanged when the thread id now belongs to a fiber of another generation, and
  tokens of two fibers agree only if generation and thread id agree.
\<close>

lemma stale_wakeup_dropped:
  assumes "g_fiber_map s tid = Some p" "fibers s p = Some f" "fc_generation old \<noteq> fc_generation f"
  shows "enqueue_external_wakeup_validated tid (make_fiber_token old) s = s"
  using assms make_fiber_token_eq [of f old]
  by (auto simp: enqueue_external_wakeup_validated_def with_fiber_def fiber_for_def)

text \<open>The priority the guest asked for, as opposed to the join floor.\<close>

definition real_priority :: "sched \<Rightarrow> ptr \<Rightarrow> int option" where
  "real_priority s p = map_option
     (\<lambda>f. if joinFloorActive f then joinSavedPriority f else fc_priority f) (fibers s p)"

lemma real_priority_queue_ops [sched_simps]:
  "real_priority (enqueue_locked q s) p = real_priority s p"
  "real_priority (remove_locked q s) p = real_priority s p"
  "real_priority (ps2fiber_yield s) p = real_priority s p"
  by (auto simp: real_priority_def enqueue_locked_def remove_locked_def ps2fiber_yield_def split: option.split)

lemma real_priority_join_iter: "real_priority (snd (join_iter (Some p) tid gen s)) p = real_priority s p"
  by (cases "fibers s p")
     (auto simp: join_iter_def sched_simps real_priority_def join_floor_def split: option.split)

lemma real_priority_update:
  assumes "g_fiber_map s tid = Some p" "fibers s p \<noteq> None"
  shows "real_priority (update_priority tid k s) p = Some k"
proof -
  from assms(2) obtain f where f: "fibers s p = Some f" by auto
  have "\<exists>g. fibers (remove_locked p s) p = Some g \<and> joinFloorActive g = joinFloorActive f"
    using f by (simp add: remove_locked_def)
  with f assms(1) show ?thesis
    by (auto simp: update_priority_def with_fiber_def fiber_for_def Let_def sched_simps)
       (auto simp: real_priority_def sched_simps)
qed

lemma real_priority_update_other:
  assumes "g_fiber_map s tid \<noteq> Some p"
  shows "real_priority (update_priority tid k s) p = real_priority s p"
proof -
  have "real_priority (upd_fiber q g s') p = real_priority s' p" if "q \<noteq> p" for q g s'
    using that by (simp add: real_priority_def sched_simps)
  with assms show ?thesis
    by (auto simp: update_priority_def with_fiber_def fiber_for_def Let_def sched_simps split: option.split)
qed

text \<open>
  Join priority floor: one iteration of \<open>join_fiber\<close> whose target is not done gives the
  joiner a priority number no smaller than the target's, without changing the priority the
  guest asked for; a concurrent \<open>update_priority\<close> changes exactly that requested priority; and
  leaving the join makes it the fiber's priority again, with no \<open>SCHED_REQUIRE\<close> failing.
\<close>

lemma join_priority_roundtrip:
  assumes "sched_reachable s" "executing s p" "g_fiber_map s me = Some p"
    and "g_fiber_map s tid = Some t" "targetDone tid gen s = False"
  shows "(\<exists>s1. join_iter (Some p) tid gen s = (False, s1) \<and> real_priority s1 p = real_priority s p
        \<and> fiber_prio s1 p \<ge> fiber_prio s t)
    \<and> real_priority (update_priority me k s) p = Some k
    \<and> (\<exists>s2. join_restore (Some p) s = Some s2 \<and> Some (fiber_prio s2 p) = real_priority s p
        \<and> map_option joinFloorActive (fibers s2 p) = Some False)"
proof (intro conjI)
  have inv: "sched_inv s" using sched_reachable_inv [OF assms(1)] .
  obtain f where f: "fibers s p = Some f" "\<not> in_run_queue f"
    using inv assms(2) by (rule executing_fiber)
  obtain g where g: "fibers s t = Some g" using sched_inv_live(1) [OF inv assms(4)] by auto
  let ?s1 = "ps2fiber_yield (upd_fiber p (join_floor (fc_priority g)) s)"
  have it: "join_iter (Some p) tid gen s = (False, ?s1)"
    using assms(4,5) g by (simp add: join_iter_def fiber_for_def)
  moreover have "fiber_prio ?s1 p \<ge> fiber_prio s t"
    using f g by (simp add: fiber_prio_def sched_simps join_floor_def)
  ultimately show "\<exists>s1. join_iter (Some p) tid gen s = (False, s1)
      \<and> real_priority s1 p = real_priority s p \<and> fiber_prio s1 p \<ge> fiber_prio s t"
    using real_priority_join_iter [of p tid gen s] by auto
  show "real_priority (update_priority me k s) p = Some k"
    using assms(3) f by (simp add: real_priority_update)
  show "\<exists>s2. join_restore (Some p) s = Some s2 \<and> Some (fiber_prio s2 p) = real_priority s p
        \<and> map_option joinFloorActive (fibers s2 p) = Some False"
    using f by (auto simp: join_restore_def Let_def real_priority_def fiber_prio_def sched_simps)
qed

text \<open>
  Interrupt-disable gate: while the guest has interrupts disabled, a back-edge of a fiber that
  is neither terminated nor suspended keeps the execution slot: it returns false and changes
  neither the fibers nor the queue nor the running fiber, until the sample counter of the
  section reaches \<open>kIntrDisableYieldEscape\<close>; at that sample the gate opens, the escape is counted
  and the counter starts over.
\<close>

lemma intr_disabled_keeps_slot:
  assumes "fibers s p = Some f" "terminateRequested f = False" "fc_suspendCount f \<le> 0" "tls_intr_disabled s"
    and "(tls_backedge_counter s + 1) AND 127 = 0"
  shows "(tls_intr_disable_samples s + 1 < kIntrDisableYieldEscape \<longrightarrow>
      (\<exists>s'. yield_point (Some p) s = (YReturn False, s') \<and> sched_core s' = sched_core s
         \<and> tls_intr_disable_samples s' = tls_intr_disable_samples s + 1))
    \<and> (kIntrDisableYieldEscape \<le> tls_intr_disable_samples s + 1 \<longrightarrow>
      (\<exists>s0. yield_point (Some p) s = yield_point_gate p s0 \<and> sched_core s0 = sched_core s
         \<and> tls_intr_disable_samples s0 = 0 \<and> g_intr_disable_escapes s0 = g_intr_disable_escapes s + 1))"
proof (intro conjI impI)
  assume lt: "tls_intr_disable_samples s + 1 < kIntrDisableYieldEscape"
  show "\<exists>s'. yield_point (Some p) s = (YReturn False, s') \<and> sched_core s' = sched_core s
      \<and> tls_intr_disable_samples s' = tls_intr_disable_samples s + 1"
    using assms lt by (simp add: yield_point_def Let_def sched_core_def)
next
  assume "kIntrDisableYieldEscape \<le> tls_intr_disable_samples s + 1"
  then have ge: "\<not> tls_intr_disable_samples s + 1 < kIntrDisableYieldEscape" by simp
  let ?s0 = "s\<lparr>tls_backedge_counter := tls_backedge_counter s + 1, g_guest_progress := g_guest_progress s + 1,
      tls_intr_disable_samples := 0, g_intr_disable_escapes := g_intr_disable_escapes s + 1\<rparr>"
  have "yield_point (Some p) s = yield_point_gate p ?s0"
    using assms ge by (simp add: yield_point_def Let_def)
  then show "\<exists>s0. yield_point (Some p) s = yield_point_gate p s0 \<and> sched_core s0 = sched_core s
      \<and> tls_intr_disable_samples s0 = 0 \<and> g_intr_disable_escapes s0 = g_intr_disable_escapes s + 1"
    by (intro exI [of _ ?s0]) (simp add: sched_core_def)
qed

text \<open>
  Forced reschedule: when \<open>force_reschedule\<close> gives up the slot, the caller is queued behind
  every ready fiber of its own priority; it does so exactly when some ready fiber has a
  priority number no larger than the caller's.
\<close>

lemma force_reschedule_behind_peers:
  assumes "sched_reachable s" "executing s p"
  shows "fst (force_reschedule (Some p) s) = (\<exists>x \<in> set (g_run_queue s). fiber_prio s x \<le> fiber_prio s p)
    \<and> (fst (force_reschedule (Some p) s) \<longrightarrow>
        filter (\<lambda>x. fiber_prio s x = fiber_prio s p) (g_run_queue (snd (force_reschedule (Some p) s)))
        = filter (\<lambda>x. fiber_prio s x = fiber_prio s p) (g_run_queue s) @ [p])"
proof -
  have inv: "sched_inv s" using sched_reachable_inv [OF assms(1)] .
  obtain f where f: "fibers s p = Some f" "\<not> in_run_queue f" using inv assms(2) by (rule executing_fiber)
  have srt: "sorted (map (fiber_prio s) (g_run_queue s))" using inv by (simp add: sched_inv_def queue_ok_def)
  have fp: "fiber_prio s p = fc_priority f" using f by (simp add: fiber_prio_def)
  have q: "g_run_queue (ps2fiber_yield (enqueue_locked p s)) =
      insert_after (\<lambda>x. fiber_prio s x \<le> fiber_prio s p) p (g_run_queue s)"
    using f by (simp add: enqueue_locked_def sched_simps fp)
  show ?thesis
  proof (cases "g_run_queue s")
    case (Cons h r)
    have "(\<exists>x \<in> set (g_run_queue s). fiber_prio s x \<le> fiber_prio s p) \<longleftrightarrow> fiber_prio s h \<le> fiber_prio s p"
      using srt Cons by auto
    moreover have "fst (force_reschedule (Some p) s) \<longleftrightarrow> fiber_prio s h \<le> fiber_prio s p"
      using Cons by (simp add: force_reschedule_def yield_to_def)
    moreover have "fiber_prio s h \<le> fiber_prio s p \<Longrightarrow>
        snd (force_reschedule (Some p) s) = ps2fiber_yield (enqueue_locked p s)"
      using Cons by (simp add: force_reschedule_def yield_to_def)
    ultimately show ?thesis using filter_insert_after_eq [OF srt, of p] q by simp
  qed (simp add: force_reschedule_def yield_to_def)
qed

text \<open>Shutdown wakes every fiber of the map, in whatever order the hash map is walked.\<close>

lemma wake_locked_mono:
  "set (g_run_queue s) \<subseteq> set (g_run_queue (wake_locked p s))"
  "g_running_fiber (wake_locked p s) = g_running_fiber s" "g_fiber_map (wake_locked p s) = g_fiber_map s"
  by (auto simp: wake_locked_def enqueue_locked_def sched_simps split: option.splits)

lemma shutdown_fiber_mono:
  "set (g_run_queue s) \<subseteq> set (g_run_queue (shutdown_fiber tid s))"
  "g_running_fiber (shutdown_fiber tid s) = g_running_fiber s"
  "g_fiber_map (shutdown_fiber tid s) = g_fiber_map s"
  unfolding shutdown_fiber_def with_fiber_def
  using wake_locked_mono(1) [of "upd_fiber p g s" p for p g]
  by (auto simp: wake_locked_mono sched_simps split: option.splits)

definition runnable :: "sched \<Rightarrow> ptr \<Rightarrow> bool" where
  "runnable s p \<longleftrightarrow> p \<in> set (g_run_queue s) \<or> g_running_fiber s = Some p"

lemma shutdown_fiber_runnable:
  assumes inv: "sched_inv s" and tid: "g_fiber_map s tid = Some p"
  shows "runnable (shutdown_fiber tid s) p"
proof -
  from inv tid obtain f where f: "fibers s p = Some f" "fc_tid f = tid" by (auto simp: sched_inv_def map_ok_def)
  have q: "queue_ok s" and ok: "fiber_ok s p f" using inv f by (auto simp: sched_inv_def fibers_ok_def)
  have wake: "runnable (wake_locked p (upd_fiber p g s)) p"
    if "\<And>f. fc_tid (g f) = fc_tid f \<and> in_run_queue (g f) = in_run_queue f \<and> fc_priority (g f) = fc_priority f" for g
  proof -
    have "queue_ok (upd_fiber p g s)" using q that by (intro queue_ok_upd_fiber) auto
    moreover have "fibers (upd_fiber p g s) p = Some (g f)" using f by (simp add: sched_simps)
    ultimately show ?thesis using wake_locked_effective by (auto simp: runnable_def wake_effective_def)
  qed
  have "runnable s p" if "fc_state f \<noteq> Blocked"
    using that ok q f tid
    by (auto simp: fiber_ok_def fiber_owned_def parked_ok_def queue_ok_def runnable_def split: if_splits)
  then have "runnable (upd_fiber p g s) p" if "fc_state f \<noteq> Blocked" for g
    using that by (simp add: runnable_def sched_simps)
  with wake f tid show ?thesis by (simp add: shutdown_fiber_def with_fiber_def fiber_for_def)
qed

lemma fold_shutdown_runnable:
  "sched_inv s \<Longrightarrow> g_fiber_map s tid = Some p \<Longrightarrow> tid \<in> set order \<or> runnable s p \<Longrightarrow>
     runnable (fold shutdown_fiber order s) p"
proof (induction order arbitrary: s)
  case (Cons t order)
  have "tid \<in> set order \<or> runnable (shutdown_fiber t s) p"
    using Cons.prems shutdown_fiber_runnable [of s tid p] shutdown_fiber_mono [where s = s and tid = t]
    by (auto simp: runnable_def)
  then show ?case using Cons shutdown_fiber_inv [OF Cons.prems(1)] by (simp add: shutdown_fiber_mono)
qed simp

text \<open>
  Shutdown leaves no fiber parked: after the first critical section of
  \<open>scheduler_shutdown\<close> the stop flag is set and every fiber of the map is on the run queue or
  running; and with the stop flag set a fiber whose terminate flag is set leaves
  \<open>block_current\<close> by the exit exception instead of parking.
\<close>

lemma shutdown_leaves_no_fiber_parked:
  assumes "sched_reachable s" "g_fiber_map s tid = Some p" "tid \<in> set order"
  shows "g_fiber_map (shutdown_mark order s) tid = Some p \<and> runnable (shutdown_mark order s) p
    \<and> (\<forall>s' f. g_stop s' \<and> fibers s' p = Some f \<and> terminateRequested f \<longrightarrow>
          fst (block_current (Some p) s') = ThrowExit)"
proof -
  let ?s = "s\<lparr>g_stop := True\<rparr>"
  have "sched_inv ?s" using sched_reachable_inv [OF assms(1)] sched_inv_cong [of ?s s]
    by (simp add: sched_core_def)
  moreover have "g_fiber_map (fold shutdown_fiber order s) = g_fiber_map s" for s
    by (induction order arbitrary: s) (simp_all add: shutdown_fiber_mono)
  ultimately show ?thesis
    using fold_shutdown_runnable [of ?s tid p order] assms(2,3)
    by (simp add: shutdown_mark_def block_current_def)
qed

text \<open>
  C5 (intrusive list refinement): on memory that represents the scheduler's queue, the pointer
  code of \<open>enqueue_locked\<close>, \<open>remove_locked\<close>, \<open>pop_head_locked\<close> and \<open>rotate_ready_queue\<close>
  terminates without following a dangling pointer and again represents the result of the
  list-level operation.
\<close>

theorem intrusive_queue_refines:
  assumes "rq_abs m s" "fibers s p \<noteq> None"
  shows "(\<exists>m'. enqueue_ptr p m = Some m' \<and> rq_abs m' (enqueue_locked p s))
    \<and> (\<exists>m'. remove_ptr p m = Some m' \<and> rq_abs m' (remove_locked p s))
    \<and> (\<exists>m'. pop_head_ptr m = Some (fst (pop_head_locked s), m') \<and> rq_abs m' (snd (pop_head_locked s)))
    \<and> (\<exists>m'. rotate_ptr k m = Some m' \<and> rq_abs m' (rotate_ready_queue k s))"
  using assms by (intro conjI enqueue_refines remove_refines pop_refines rotate_refines)

definition demo_node :: "ptr \<Rightarrow> ptr option \<Rightarrow> node" where
  "demo_node p nx = fiber.extend ((demo_fiber p)\<lparr>in_run_queue := True, fc_state := Ready\<rparr>) \<lparr>fc_next = nx\<rparr>"

definition demo_mem :: rq_mem where
  "demo_mem = \<lparr>rq_heap = [100 \<mapsto> demo_node 100 None, 200 \<mapsto> demo_node 200 (Some 100)], rq_head = Some 200\<rparr>"

lemma demo_node_sel:
  "fc_next (demo_node p nx) = nx" "in_run_queue (demo_node p nx)"
  "fiber.truncate (demo_node p nx) = (demo_fiber p)\<lparr>in_run_queue := True, fc_state := Ready\<rparr>"
  by (simp_all add: demo_node_def fiber.extend_def fiber.truncate_def)

theorem intrusive_queue_refines_witness:
  "\<exists>m'. remove_ptr 100 demo_mem = Some m' \<and> rq_abs m' (remove_locked 100 demo_ready)"
proof -
  have "rq_abs demo_mem demo_ready"
    by (auto simp: rq_abs_def rq_rep_def demo_mem_def demo_ready_state node_fibers_def demo_node_sel fun_eq_iff)
  from intrusive_queue_refines [OF this, of 100] show ?thesis by (simp add: demo_ready_state)
qed

end
