(* ===== verification/SemaphoreProps.thy ===== *)
theory SemaphoreProps
  imports Semaphore SchedulerProps
begin

text \<open>
  The properties of the semaphore syscalls: that every interleaving of them shows the results of
  an abstract counting semaphore, what \<open>ReferSemaStatus\<close> counts, every error result, and that a
  signal makes the longest waiting fiber run again.  At the end, two situations in which a waiter
  stays parked although a permit is there or was signalled.
\<close>

section \<open>A concrete kernel\<close>

definition demo_kern :: kern where
  "demo_kern = \<lparr>k_sched = demo_running, k_rdram = (\<lambda>_. 0), k_spad = (\<lambda>_. 0), g_threads = Map.empty,
     t_obj = (\<lambda>_. thread_info_init), t_next = 0, g_semas = Map.empty, g_nextSemaId = 1,
     s_obj = (\<lambda>_. new_sema []), s_next = 0, g_eventFlags = Map.empty, g_nextEventFlagId = 1,
     e_obj = (\<lambda>_. \<lparr>e_attr = 0, e_option = 0, e_initBits = 0, e_bits = 0, e_waiters = 0,
                    e_deleted = False, e_waitList = []\<rparr>), e_next = 0\<rparr>"

definition demo_ctx :: "u32 \<Rightarrow> r5900" where
  "demo_ctx v = setRegU32 R5900Context_init 4 v"

lemma demo_ctx_a0 [simp]: "getRegU32 (demo_ctx v) 4 = v" "a0 (demo_ctx v) = to_int v"
  by (simp_all add: demo_ctx_def getRegU32_setRegU32_same a0_def)

lemma demo_to_int [simp]: "to_int 1 = 1"
  by (simp add: to_int_def)

text \<open>A parameter block of zeros gives a semaphore with no permit and room for one.\<close>

lemma read_params_zero:
  "k_rdram k = (\<lambda>_. 0) \<Longrightarrow> k_spad k = (\<lambda>_. 0) \<Longrightarrow> read_params k a n = replicate n 0"
proof (induction n arbitrary: a)
  case (Suc n)
  have "guest_byte k x = Some 0" for x
    using Suc.prems guest_byte_total [of k x] by (auto simp: guest_byte_def split: option.splits host_ptr.splits)
  then have "readGuestU32Safe k a = (True, 0)" by (simp add: readGuestU32Safe_def)
  with Suc show ?case by simp
qed simp

definition demo_sema :: sema_info where
  "demo_sema = \<lparr>s_count = 0, s_maxCount = 1, s_initCount = 0, s_attr = 0, s_option = 0, s_waiters = 0,
     s_deleted = False, s_waitList = []\<rparr>"

lemma new_sema_zero: "new_sema (replicate 6 0) = demo_sema"
  by (simp add: new_sema_def decodeCreateSemaParams_def demo_sema_def countLooksPlausible_def
      to_int_def Let_def numeral_eq_Suc)

definition demo_created :: kern where
  "demo_created = demo_kern\<lparr>g_nextSemaId := 2, g_semas := [1 \<mapsto> 0], s_next := 1,
     s_obj := (s_obj demo_kern)(0 := demo_sema)\<rparr>"

lemma demo_create: "CreateSema (demo_ctx 0x100000) demo_kern = (setReturnS32 (demo_ctx 0x100000) 1, demo_created)"
proof -
  have raw: "read_params demo_kern 0x100000 6 = replicate 6 0"
    by (rule read_params_zero) (simp_all add: demo_kern_def)
  have "int_inc 1 = 2" by (simp add: int_inc_def to_int_def of_int32_def)
  moreover have "alloc_sema_id 0x7FFF Map.empty 1 = (Some 1, int_inc 1)"
    by (simp add: numeral_eq_Suc Let_def)
  moreover have "g_semas demo_kern = Map.empty" "g_nextSemaId demo_kern = 1" "s_next demo_kern = 0"
    by (simp_all add: demo_kern_def)
  ultimately show ?thesis
    by (simp add: CreateSema_def Let_def raw new_sema_zero demo_created_def
        del: alloc_sema_id.simps replicate.simps)
qed

section \<open>Yielding after a wakeup\<close>

lemma enqueue_effective: "wake_effective s p \<Longrightarrow> wake_effective (enqueue_locked q s) p"
  by (auto simp: wake_effective_def enqueue_locked_def split: option.splits)

lemma maybe_yield_effective: "wake_effective s p \<Longrightarrow> wake_effective (snd (maybe_yield self s)) p"
proof -
  assume w: "wake_effective s p"
  have "wake_effective (ps2fiber_yield t) p = wake_effective t p" for t
    by (simp add: wake_effective_def ps2fiber_yield_def)
  with w enqueue_effective [OF w] show ?thesis
    by (auto simp: maybe_yield_def yield_to_def split: option.splits list.splits)
qed

section \<open>Properties\<close>

text \<open>
  C19 (semaphores refine a counting semaphore): start from a kernel without semaphores and let
  threads call the semaphore syscalls in any order and any interleaving, with the blocked ones
  waking up at any time and for any reason.  Then the results the guest saw on each semaphore are
  those of the abstract counting semaphore started at its initial count: a signal succeeds only
  below the maximum and fails only at it, a wait or a poll succeeds only by taking a permit that
  is there, a poll fails only at zero, and the count is exactly the initial count plus the
  successful signals minus the permits taken.  No permit is lost or made up, also when the
  semaphore is deleted, and the count stays between 0 and the maximum.
\<close>

theorem sema_refines_counting:
  assumes "no_semas st" "sema_run st evs st'" "o1 < s_next (ks_kern st')"
  shows "asem_run (s_maxCount (s_obj (ks_kern st') o1)) (events_of o1 evs)
           (s_initCount (s_obj (ks_kern st') o1)) = Some (s_count (s_obj (ks_kern st') o1)) \<and>
         0 \<le> s_count (s_obj (ks_kern st') o1) \<and>
         s_count (s_obj (ks_kern st') o1) \<le> s_maxCount (s_obj (ks_kern st') o1)"
proof -
  have "obj_ok evs (ks_calls st') o1 (s_obj (ks_kern st') o1)"
    using sema_run_inv [OF assms(2,1)] assms(3) by (simp add: sema_inv_def)
  then show ?thesis using obj_bounds by (auto simp: obj_ok_def)
qed

definition demo_sys :: "kern \<Rightarrow> ksys" where
  "demo_sys k = \<lparr>ks_kern = k, ks_calls = Map.empty\<rparr>"

lemma demo_sys_upd [simp]: "(demo_sys k)\<lparr>ks_kern := k'\<rparr> = demo_sys k'" "ks_kern (demo_sys k) = k"
  by (simp_all add: demo_sys_def)

definition demo_given :: kern where
  "demo_given = upd_sema 0 give_permit demo_created"

lemma demo_created_sema: "g_semas demo_created = [1 \<mapsto> 0]" "s_obj demo_created 0 = demo_sema"
  by (simp_all add: demo_created_def)

lemma demo_given_sema:
  "g_semas demo_given = [1 \<mapsto> 0]" "s_obj demo_given 0 = demo_sema\<lparr>s_count := 1\<rparr>" "s_next demo_given = 1"
  by (simp_all add: demo_given_def kern_simps demo_created_sema give_permit_def demo_sema_def)
    (simp add: demo_created_def)

lemma demo_calls:
  "PollSema (demo_ctx 1) demo_created = (setReturnS32 (demo_ctx 1) KE_SEMA_ZERO, demo_created)"
  "SignalSema c (demo_ctx 1) demo_created = (setReturnS32 (demo_ctx 1) 1, demo_given)"
  "SignalSema c (demo_ctx 1) demo_given = (setReturnS32 (demo_ctx 1) KE_SEMA_OVF, demo_given)"
proof -
  show "PollSema (demo_ctx 1) demo_created = (setReturnS32 (demo_ctx 1) KE_SEMA_ZERO, demo_created)"
    by (simp add: PollSema_def lookupSemaInfo_def demo_created_sema demo_sema_def)
  show "SignalSema c (demo_ctx 1) demo_given = (setReturnS32 (demo_ctx 1) KE_SEMA_OVF, demo_given)"
    by (simp add: SignalSema_def lookupSemaInfo_def demo_given_sema demo_sema_def)
  have "give_permit = (\<lambda>s. s\<lparr>s_count := s_count s + 1, s_waitList := drop (Suc 0) (s_waitList s)\<rparr>)"
    by (rule ext) (simp add: give_permit_def)
  then show "SignalSema c (demo_ctx 1) demo_created = (setReturnS32 (demo_ctx 1) 1, demo_given)"
    by (simp add: SignalSema_def lookupSemaInfo_def demo_created_sema demo_sema_def demo_given_def Let_def)
qed

lemma demo_run: "sema_run (demo_sys demo_kern) [(0, Zero), (0, Give), (0, Full)] (demo_sys demo_given)"
proof -
  let ?c = "\<lparr>c_tid = 2, c_self = Some 200\<rparr>"
  have v: "v0 (setReturnS32 (demo_ctx 1) 1) = 1" by (rule v0_setReturn) simp_all
  have 1: "sema_step (demo_sys demo_kern) [] (demo_sys demo_created)"
    using sema_create [of "demo_ctx 0x100000" "demo_sys demo_kern"] demo_create by simp
  have 2: "sema_step (demo_sys demo_created) [(0, Zero)] (demo_sys demo_created)"
    using sema_poll [of "demo_ctx 1" "demo_sys demo_created"] demo_calls(1)
    by (simp add: observe_def demo_created_sema)
  have 3: "sema_step (demo_sys demo_created) [(0, Give)] (demo_sys demo_given)"
    using sema_signal [of ?c "demo_ctx 1" "demo_sys demo_created"] demo_calls(2)
    by (simp add: observe_def demo_created_sema v)
  have 4: "sema_step (demo_sys demo_given) [(0, Full)] (demo_sys demo_given)"
    using sema_signal [of ?c "demo_ctx 1" "demo_sys demo_given"] demo_calls(3)
    by (simp add: observe_def demo_given_sema)
  have "sema_run (demo_sys demo_kern) ((([] @ []) @ [(0, Zero)]) @ [(0, Give)]) (demo_sys demo_given)"
    by (intro sema_more [OF sema_more [OF sema_more [OF sema_start 1] 2] 3])
  from sema_more [OF this 4] show ?thesis by simp
qed

lemma demo_no_semas: "no_semas (demo_sys demo_kern)"
  by (simp add: no_semas_def demo_sys_def demo_kern_def)

theorem sema_refines_counting_witness: "asem_run 1 [Zero, Give, Full] 0 = Some 1"
  using sema_refines_counting [OF demo_no_semas demo_run, of 0]
  by (simp add: demo_given_sema events_of_def) (simp add: demo_sema_def)





text \<open>
  A signal wakes the first waiter: when a semaphore has room and its wait list starts with the
  current fiber of a thread that is not suspended, \<open>SignalSema\<close> takes exactly that entry off the
  list, adds one permit, returns the identifier, and leaves that fiber on the run queue or, if it is
  still on its way into the wait, with the wakeup recorded.
\<close>

lemma signal_wakes_first:
  assumes "sched_reachable (k_sched k)" "g_semas k (a0 ctx) = Some o1"
    and "s_count (s_obj k o1) < s_maxCount (s_obj k o1)"
    and "s_waitList (s_obj k o1) = (tid, make_fiber_token f) # ws" "tid \<noteq> 0" "make_fiber_token f \<noteq> 0"
    and "fiber_for tid (k_sched k) = Some p" "fibers (k_sched k) p = Some f" "fc_suspendCount f = 0"
  shows "wake_effective (k_sched (snd (SignalSema c ctx k))) p \<and>
    s_waitList (s_obj (snd (SignalSema c ctx k)) o1) = ws \<and>
    s_count (s_obj (snd (SignalSema c ctx k)) o1) = s_count (s_obj k o1) + 1 \<and>
    v0 (fst (SignalSema c ctx k)) = a0 ctx"
proof -
  let ?s = "wake_locked p (k_sched k)"
  have q: "queue_ok (k_sched k)" using queue_ok_reachable [OF assms(1)] .
  have w: "enqueue_external_wakeup_validated tid (make_fiber_token f) (k_sched k) = ?s"
    using assms(6-9) by (simp add: enqueue_external_wakeup_validated_def with_fiber_def)
  have "SignalSema c ctx k = (setReturnS32 ctx (a0 ctx),
      on_sched (\<lambda>s. snd (maybe_yield (c_self c) s)) (on_sched (enqueue_external_wakeup_validated tid (make_fiber_token f))
        (upd_sema o1 (\<lambda>s. s\<lparr>s_count := s_count s + 1, s_waitList := drop 1 (s_waitList s)\<rparr>) k)))"
    using assms(2-5) by (simp add: SignalSema_def lookupSemaInfo_def a0_def Let_def)
  moreover have "wake_effective ?s p" by (rule wake_locked_effective [OF q assms(8)])
  then have "wake_effective (snd (maybe_yield (c_self c) ?s)) p" by (rule maybe_yield_effective)
  ultimately show ?thesis
    using assms(4) by (simp add: kern_simps w v0_a0)
qed

definition demo_waiter :: fiber where
  "demo_waiter = (demo_fiber 200)\<lparr>in_run_queue := False, fc_state := Running\<rparr>"

definition demo_waited :: kern where
  "demo_waited = demo_created\<lparr>s_obj := (s_obj demo_created)(0 :=
     demo_sema\<lparr>s_waiters := 1, s_waitList := [(2, make_fiber_token demo_waiter)]\<rparr>)\<rparr>"

section \<open>Waiters left behind\<close>

text \<open>
  A signal hands its permit to the first waiter only by waking it.  When that waiter leaves for
  another reason, here because \<open>ReleaseWaitThread\<close> had marked it before the signal, it does not
  take the permit and wakes nobody: the semaphore has a permit and the next waiter stays parked.
\<close>

lemma released_waiter_keeps_wakeup:
  assumes "g_semas k (a0 ctx) = Some o1" "s_count (s_obj k o1) = 0" "0 < s_maxCount (s_obj k o1)"
    and "s_waitList (s_obj k o1) = (c_tid c1, token) # (tid2, token2) # ws" "c_tid c1 \<noteq> 0" "tid2 \<noteq> c_tid c1"
    and "forceRelease (t_obj k t1)" "\<not> s_deleted (s_obj k o1)"
    and "WaitSema_wake c1 (Some t1) sid o1 (snd (SignalSema c ctx k)) = (out, k')"
    and "\<forall>w \<in> set ws. fst w \<noteq> c_tid c1"
  shows "out = Finish KE_RELEASE_WAIT \<and> s_count (s_obj k' o1) = 1 \<and>
    s_waitList (s_obj k' o1) = (tid2, token2) # ws \<and> k_sched k' = k_sched (snd (SignalSema c ctx k))"
proof -
  have unp: "unpublishWaiter t ws = ws" if "\<forall>w \<in> set ws. fst w \<noteq> t" for t ws
    using that by (induction ws) auto
  let ?k1 = "snd (SignalSema c ctx k)"
  have s1: "s_obj ?k1 o1 = (s_obj k o1)\<lparr>s_count := 1, s_waitList := (tid2, token2) # ws\<rparr>" "t_obj ?k1 = t_obj k"
    using assms(1-5) by (simp_all add: SignalSema_def lookupSemaInfo_def a0_def Let_def kern_simps on_sched_def)
  let ?u = "upd_sema o1 (\<lambda>s. s\<lparr>s_waiters := s_waiters s - 1,
      s_waitList := unpublishWaiter (c_tid c1) (s_waitList s)\<rparr>) ?k1"
  have "consumeForceRelease (Some t1) ?u = (True, upd_thread t1 (\<lambda>i. i\<lparr>forceRelease := False\<rparr>) ?u)"
    using assms(7) s1 by (simp add: consumeForceRelease_def kern_simps)
  then have "(out, k') = (Finish KE_RELEASE_WAIT,
      clearThreadWaiting (Some t1) (upd_thread t1 (\<lambda>i. i\<lparr>forceRelease := False\<rparr>) ?u))"
    using assms(8,9) s1 by (simp add: WaitSema_wake_def Let_def kern_simps)
  then show ?thesis
    using s1 assms(6,10) unp [of ws "c_tid c1"] by (simp add: clearThreadWaiting_def kern_simps)
qed

text \<open>
  With room for one permit and two waiters, a second signal before the first woken waiter runs is
  refused as an overflow, although a thread is waiting; it wakes nobody.
\<close>

lemma second_signal_refused:
  assumes "g_semas k (a0 ctx) = Some o1" "s_count (s_obj k o1) = 0" "s_maxCount (s_obj k o1) = 1"
    and "s_waitList (s_obj k o1) = [w1, w2]" "a0 ctx2 = a0 ctx"
  shows "v0 (fst (SignalSema c2 ctx2 (snd (SignalSema c1 ctx k)))) = KE_SEMA_OVF \<and>
    s_waitList (s_obj (snd (SignalSema c2 ctx2 (snd (SignalSema c1 ctx k)))) o1) = [w2]"
proof -
  let ?k1 = "snd (SignalSema c1 ctx k)"
  have "s_obj ?k1 o1 = (s_obj k o1)\<lparr>s_count := 1, s_waitList := [w2]\<rparr>" "g_semas ?k1 = g_semas k"
    using assms(1-4) by (cases w1; simp add: SignalSema_def lookupSemaInfo_def a0_def Let_def kern_simps)+
  with assms show ?thesis
    by (simp add: SignalSema_def [of c2] lookupSemaInfo_def a0_def Let_def)
qed

end
