(* ===== verification/EventFlag.thy ===== *)
theory EventFlag
  imports Semaphore
begin

text \<open>
  The event flag syscalls of \<open>Kernel/Syscalls/Sync.cpp\<close>, cut at their waits like \<open>WaitSema\<close>:
  \<open>WaitEventFlag\<close> runs to the first wait and \<open>WaitEventFlag_wake\<close> from the return of a wait to the
  next one or to the end of the call.
\<close>

section \<open>Creation, deletion and the flag bits\<close>

abbreviation (input) WEF_OR :: u32 where "WEF_OR \<equiv> 1"
abbreviation (input) WEF_CLEAR :: u32 where "WEF_CLEAR \<equiv> 0x10"
abbreviation (input) WEF_CLEAR_ALL :: u32 where "WEF_CLEAR_ALL \<equiv> 0x20"
abbreviation (input) EA_MULTI :: u32 where "EA_MULTI \<equiv> 0x2"

definition WEF_MODE_MASK :: u32 where
  "WEF_MODE_MASK = WEF_OR OR WEF_CLEAR OR WEF_CLEAR_ALL"

definition CreateEventFlag :: "r5900 \<Rightarrow> kern \<Rightarrow> r5900 \<times> kern" where
  "CreateEventFlag ctx k =
     (let paramAddr = getRegU32 ctx 4;
          attr = (if paramAddr \<noteq> 0 then snd (readGuestU32Safe k paramAddr) else 0);
          option = (if paramAddr \<noteq> 0 then snd (readGuestU32Safe k (paramAddr + 4)) else 0);
          initBits = (if paramAddr \<noteq> 0 then snd (readGuestU32Safe k (paramAddr + 8)) else 0);
          eid = g_nextEventFlagId k
      in (setReturnS32 ctx eid,
          k\<lparr>g_nextEventFlagId := int_inc eid, g_eventFlags := (g_eventFlags k)(eid \<mapsto> e_next k),
            e_next := Suc (e_next k),
            e_obj := (e_obj k)(e_next k :=
              \<lparr>e_attr = attr, e_option = option, e_initBits = initBits, e_bits = initBits,
               e_waiters = 0, e_deleted = False, e_waitList = []\<rparr>)\<rparr>))"

definition DeleteEventFlag :: "caller \<Rightarrow> r5900 \<Rightarrow> kern \<Rightarrow> r5900 \<times> kern" where
  "DeleteEventFlag c ctx k =
     (let eid = to_int (getRegU32 ctx 4)
      in case g_eventFlags k eid of
           None \<Rightarrow> (setReturnS32 ctx KE_UNKNOWN_EVFID, k)
         | Some o1 \<Rightarrow>
             let ws = e_waitList (e_obj k o1);
                 k = k\<lparr>g_eventFlags := (g_eventFlags k)(eid := None)\<rparr>;
                 k = upd_event o1 (\<lambda>e. e\<lparr>e_deleted := True, e_waitList := []\<rparr>) k
             in (setReturnS32 ctx 0, wake_and_yield c ws k))"

definition SetEventFlag :: "caller \<Rightarrow> r5900 \<Rightarrow> kern \<Rightarrow> r5900 \<times> kern" where
  "SetEventFlag c ctx k =
     (let eid = to_int (getRegU32 ctx 4); bits = getRegU32 ctx 5
      in case lookupEventFlagInfo eid k of
           None \<Rightarrow> (setReturnS32 ctx KE_UNKNOWN_EVFID, k)
         | Some o1 \<Rightarrow>
             if bits = 0 then (setReturnS32 ctx KE_OK, k)
             else let ws = e_waitList (e_obj k o1);
                      k = upd_event o1 (\<lambda>e. e\<lparr>e_bits := e_bits e OR bits\<rparr>) k
               in (setReturnS32 ctx 0, wake_and_yield c ws k))"

definition ClearEventFlag :: "r5900 \<Rightarrow> kern \<Rightarrow> r5900 \<times> kern" where
  "ClearEventFlag ctx k =
     (let eid = to_int (getRegU32 ctx 4); bits = getRegU32 ctx 5
      in case lookupEventFlagInfo eid k of
           None \<Rightarrow> (setReturnS32 ctx KE_UNKNOWN_EVFID, k)
         | Some o1 \<Rightarrow>
             (setReturnS32 ctx KE_OK, upd_event o1 (\<lambda>e. e\<lparr>e_bits := e_bits e AND bits\<rparr>) k))"

definition ReferEventFlagStatus :: "r5900 \<Rightarrow> kern \<Rightarrow> r5900 \<times> kern" where
  "ReferEventFlagStatus ctx k =
     (let eid = to_int (getRegU32 ctx 4); infoAddr = getRegU32 ctx 5
      in case lookupEventFlagInfo eid k of
           None \<Rightarrow> (setReturnS32 ctx KE_UNKNOWN_EVFID, k)
         | Some o1 \<Rightarrow>
             (case (if infoAddr \<noteq> 0 then getMemPtr False False infoAddr else None) of
                None \<Rightarrow> (setReturnS32 ctx (- 1), k)
              | Some p \<Rightarrow>
                  let e = e_obj k o1
                  in (setReturnS32 ctx 0,
                      store_words p [e_attr e, e_option e, e_initBits e, e_bits e,
                        of_int32 (e_waiters e), 0, 0] k)))"

section \<open>Waiting\<close>

text \<open>The arguments of a wait or a poll.\<close>

record evf_args =
  ea_id :: int
  ea_bits :: u32
  ea_mode :: u32
  ea_res :: u32

definition evf_args_of :: "r5900 \<Rightarrow> evf_args" where
  "evf_args_of ctx = \<lparr>ea_id = to_int (getRegU32 ctx 4), ea_bits = getRegU32 ctx 5,
     ea_mode = getRegU32 ctx 6, ea_res = getRegU32 ctx 7\<rparr>"

definition evf_match :: "evf_args \<Rightarrow> u32 \<Rightarrow> bool" where
  "evf_match a bits =
     (if ea_mode a AND WEF_OR \<noteq> 0 then bits AND ea_bits a \<noteq> 0 else bits AND ea_bits a = ea_bits a)"

text \<open>The checks that a wait and a poll share, in order; the result is the error or the object.\<close>

definition evf_check :: "evf_args \<Rightarrow> kern \<Rightarrow> int + nat" where
  "evf_check a k =
     (if ea_mode a AND NOT WEF_MODE_MASK \<noteq> 0 then Inl KE_ILLEGAL_MODE
      else if ea_bits a = 0 then Inl KE_EVF_ILPAT
      else case lookupEventFlagInfo (ea_id a) k of
             None \<Rightarrow> Inl KE_UNKNOWN_EVFID
           | Some o1 \<Rightarrow> if e_attr (e_obj k o1) AND EA_MULTI = 0 \<and> e_waiters (e_obj k o1) > 0
                        then Inl KE_EVF_MULTI else Inr o1)"

text \<open>
  The result of a successful call: the bits are stored through the result pointer, when there is
  one, and cleared as the mode says.
\<close>

definition evf_clear :: "evf_args \<Rightarrow> u32 \<Rightarrow> u32" where
  "evf_clear a bits =
     (if ea_mode a AND WEF_CLEAR_ALL \<noteq> 0 then 0
      else if ea_mode a AND WEF_CLEAR \<noteq> 0 then bits AND NOT (ea_bits a) else bits)"

definition evf_deliver :: "evf_args \<Rightarrow> nat \<Rightarrow> kern \<Rightarrow> kern" where
  "evf_deliver a o1 k =
     (let k = (case (if ea_res a \<noteq> 0 then getMemPtr False False (ea_res a) else None) of
                 None \<Rightarrow> k | Some p \<Rightarrow> store_words p [e_bits (e_obj k o1)] k)
      in upd_event o1 (\<lambda>e. e\<lparr>e_bits := evf_clear a (e_bits e)\<rparr>) k)"

definition PollEventFlag :: "r5900 \<Rightarrow> kern \<Rightarrow> r5900 \<times> kern" where
  "PollEventFlag ctx k =
     (let a = evf_args_of ctx
      in case evf_check a k of
           Inl err \<Rightarrow> (setReturnS32 ctx err, k)
         | Inr o1 \<Rightarrow>
             if \<not> evf_match a (e_bits (e_obj k o1)) then (setReturnS32 ctx KE_EVF_COND, k)
             else (setReturnS32 ctx KE_OK, evf_deliver a o1 k))"

text \<open>The forms for interrupt handlers call the ordinary ones.\<close>

definition iSetEventFlag :: "caller \<Rightarrow> r5900 \<Rightarrow> kern \<Rightarrow> r5900 \<times> kern" where
  "iSetEventFlag c ctx k = SetEventFlag c ctx k"

definition iClearEventFlag :: "r5900 \<Rightarrow> kern \<Rightarrow> r5900 \<times> kern" where
  "iClearEventFlag ctx k = ClearEventFlag ctx k"

definition iPollEventFlag :: "r5900 \<Rightarrow> kern \<Rightarrow> r5900 \<times> kern" where
  "iPollEventFlag ctx k = PollEventFlag ctx k"

definition iReferEventFlagStatus :: "r5900 \<Rightarrow> kern \<Rightarrow> r5900 \<times> kern" where
  "iReferEventFlagStatus ctx k = ReferEventFlagStatus ctx k"

definition satisfied :: "evf_args \<Rightarrow> nat option \<Rightarrow> nat \<Rightarrow> kern \<Rightarrow> bool" where
  "satisfied a info o1 k =
     ((case info of None \<Rightarrow> False | Some t \<Rightarrow> forceRelease (t_obj k t)) \<or>
      isTerminated info k \<or> e_deleted (e_obj k o1) \<or> evf_match a (e_bits (e_obj k o1)))"

text \<open>The end of the call, after the loop or instead of it.\<close>

definition evf_finish :: "evf_args \<Rightarrow> nat \<Rightarrow> int \<Rightarrow> kern \<Rightarrow> wait_out \<times> kern" where
  "evf_finish a o1 ret k =
     (let ret = (if ret = KE_OK \<and> e_deleted (e_obj k o1) then KE_WAIT_DELETE else ret)
      in (Finish ret, if ret = KE_OK then evf_deliver a o1 k else k))"

definition evf_retry :: "caller \<Rightarrow> evf_args \<Rightarrow> nat option \<Rightarrow> nat \<Rightarrow> kern \<Rightarrow> wait_out \<times> kern" where
  "evf_retry c a info o1 k =
     (case consumeForceRelease info k of
        (True, k) \<Rightarrow> evf_finish a o1 KE_RELEASE_WAIT (clearThreadWaiting info k)
      | (False, k) \<Rightarrow>
          (Block, upd_event o1 (\<lambda>e. e\<lparr>e_waiters := e_waiters e + 1,
             e_waitList := (if info \<noteq> None then publishWaiter c k (e_waitList e) else e_waitList e)\<rparr>) k))"

definition WaitEventFlag :: "caller \<Rightarrow> r5900 \<Rightarrow> kern \<Rightarrow> wait_out \<times> kern" where
  "WaitEventFlag c ctx k =
     (let a = evf_args_of ctx
      in case evf_check a k of
           Inl err \<Rightarrow> (Return err, k)
         | Inr o1 \<Rightarrow>
             (case currentInfo c ctx k of (info, k) \<Rightarrow>
                if isTerminated info k then (Throw, k)
                else if satisfied a info o1 k then evf_finish a o1 KE_OK k
                else evf_retry c a info o1 (setThreadWaiting info TSW_EVENT (ea_id a) k)))"

definition WaitEventFlag_wake :: "caller \<Rightarrow> evf_args \<Rightarrow> nat option \<Rightarrow> nat \<Rightarrow> kern \<Rightarrow> wait_out \<times> kern" where
  "WaitEventFlag_wake c a info o1 k0 =
     (let k = upd_event o1 (\<lambda>e. e\<lparr>e_waiters := e_waiters e - 1,
                e_waitList := (if info \<noteq> None then unpublishWaiter (c_tid c) (e_waitList e)
                               else e_waitList e)\<rparr>) k0
      in if e_deleted (e_obj k o1) then evf_finish a o1 KE_WAIT_DELETE (clearThreadWaiting info k)
         else case consumeForceRelease info k of
           (True, k) \<Rightarrow> evf_finish a o1 KE_RELEASE_WAIT (clearThreadWaiting info k)
         | (False, k) \<Rightarrow>
             if isTerminated info k then (Throw, k)
             else if satisfied a info o1 k then evf_finish a o1 KE_OK (clearThreadWaiting info k)
             else evf_retry c a info o1 k)"

section \<open>What the helpers leave alone\<close>

definition evf_part :: "kern \<Rightarrow> (int \<rightharpoonup> nat) \<times> (nat \<Rightarrow> event_flag_info) \<times> nat" where
  "evf_part k = (g_eventFlags k, e_obj k, e_next k)"

lemma evf_part_helpers [kern_simps]:
  "evf_part (snd (consumeForceRelease info k)) = evf_part k"
  "evf_part (setThreadWaiting info ty ident k) = evf_part k"
  "evf_part (clearThreadWaiting info k) = evf_part k"
  "evf_part (snd (currentInfo c ctx k)) = evf_part k"
  "evf_part (wake_and_yield c ws k) = evf_part k"
  "evf_part (store_words p vs k) = evf_part k"
  by (auto simp: evf_part_def consumeForceRelease_def setThreadWaiting_def clearThreadWaiting_def
      currentInfo_def ensureCurrentThreadInfo_def wake_and_yield_def upd_thread_def on_sched_def
      store_words_def Let_def split: option.splits prod.splits host_ptr.splits)

lemma evf_part_eqD:
  "evf_part k = evf_part k' \<Longrightarrow> g_eventFlags k = g_eventFlags k'"
  "evf_part k = evf_part k' \<Longrightarrow> e_obj k = e_obj k'" "evf_part k = evf_part k' \<Longrightarrow> e_next k = e_next k'"
  by (simp_all add: evf_part_def)

lemma upd_event_fields [kern_simps]:
  "g_eventFlags (upd_event o1 f k) = g_eventFlags k" "e_next (upd_event o1 f k) = e_next k"
  "e_obj (upd_event o1 f k) = (e_obj k)(o1 := f (e_obj k o1))" "t_obj (upd_event o1 f k) = t_obj k"
  "k_sched (upd_event o1 f k) = k_sched k"
  by (simp_all add: upd_event_def)

lemma evf_deliver_fields [kern_simps]:
  "g_eventFlags (evf_deliver a o1 k) = g_eventFlags k" "e_next (evf_deliver a o1 k) = e_next k"
  "e_obj (evf_deliver a o1 k) =
     (e_obj k)(o1 := (e_obj k o1)\<lparr>e_bits := evf_clear a (e_bits (e_obj k o1))\<rparr>)"
proof -
  have e: "g_eventFlags (store_words p vs k) = g_eventFlags k" "e_obj (store_words p vs k) = e_obj k"
    "e_next (store_words p vs k) = e_next k" for p vs
    using evf_part_helpers(6) [of p vs k] by (simp_all add: evf_part_def)
  show "g_eventFlags (evf_deliver a o1 k) = g_eventFlags k" "e_next (evf_deliver a o1 k) = e_next k"
    "e_obj (evf_deliver a o1 k) =
       (e_obj k)(o1 := (e_obj k o1)\<lparr>e_bits := evf_clear a (e_bits (e_obj k o1))\<rparr>)"
    by (simp_all add: evf_deliver_def kern_simps e split: option.split)
qed

section \<open>The branches of a wait\<close>

text \<open>
  How a call can leave the lock: with its condition met and the bits delivered, with an error or
  the exit exception and the flag as it was, or blocked with its condition not met.  \<open>e\<close> is the
  flag when the conditions are looked at.
\<close>

definition evf_outcome :: "evf_args \<Rightarrow> event_flag_info \<Rightarrow> wait_out \<Rightarrow> event_flag_info \<Rightarrow> bool" where
  "evf_outcome a e out e' \<longleftrightarrow>
     (if out = Finish KE_OK then evf_match a (e_bits e) \<and> \<not> e_deleted e \<and>
        e' = e\<lparr>e_bits := evf_clear a (e_bits e)\<rparr>
      else if out = Block then \<not> evf_match a (e_bits e) \<and> \<not> e_deleted e \<and>
        e_attr e' = e_attr e \<and> e_bits e' = e_bits e \<and> e_deleted e' = e_deleted e \<and>
        e_waiters e' = e_waiters e + 1
      else e' = e)"

definition keeps_flags :: "nat \<Rightarrow> kern \<Rightarrow> kern \<Rightarrow> bool" where
  "keeps_flags o1 k k' \<longleftrightarrow> g_eventFlags k' = g_eventFlags k \<and> e_next k' = e_next k \<and>
     (\<forall>o2. o2 \<noteq> o1 \<longrightarrow> e_obj k' o2 = e_obj k o2)"

lemma keeps_part: "evf_part k' = evf_part k \<Longrightarrow> keeps_flags o1 k k'"
  by (simp add: keeps_flags_def evf_part_def)

lemma evf_finish_outcome:
  assumes "evf_finish a o1 ret k = (out, k')" "ret = KE_OK \<Longrightarrow> \<not> e_deleted (e_obj k o1) \<Longrightarrow> evf_match a (e_bits (e_obj k o1))"
  shows "evf_outcome a (e_obj k o1) out (e_obj k' o1) \<and> keeps_flags o1 k k'"
  using assms by (auto simp: evf_finish_def evf_outcome_def keeps_flags_def kern_simps Let_def split: if_splits)

lemma evf_retry_outcome:
  assumes "evf_retry c a info o1 k = (out, k')" "\<not> evf_match a (e_bits (e_obj k o1))" "\<not> e_deleted (e_obj k o1)"
  shows "evf_outcome a (e_obj k o1) out (e_obj k' o1) \<and> keeps_flags o1 k k'"
proof -
  obtain rel k1 where cf: "consumeForceRelease info k = (rel, k1)" by (cases "consumeForceRelease info k") auto
  have p: "evf_part k1 = evf_part k" using evf_part_helpers(1) [of info k] by (simp add: cf)
  note e = evf_part_eqD [OF p]
  show ?thesis
  proof (cases rel)
    case True
    with assms cf have f: "evf_finish a o1 KE_RELEASE_WAIT (clearThreadWaiting info k1) = (out, k')"
      by (simp add: evf_retry_def)
    have "evf_part (clearThreadWaiting info k1) = evf_part k" using p by (simp add: kern_simps)
    note e2 = evf_part_eqD [OF this]
    from evf_finish_outcome [OF f] show ?thesis by (simp add: e2 keeps_flags_def)
  next
    case False
    with assms cf show ?thesis by (auto simp: evf_retry_def evf_outcome_def keeps_flags_def kern_simps e)
  qed
qed

lemma WaitEventFlag_outcome:
  assumes w: "WaitEventFlag c ctx k = (out, k')" and chk: "evf_check (evf_args_of ctx) k = Inr o1"
    and fresh: "\<And>t. fst (currentInfo c ctx k) = Some t \<Longrightarrow> \<not> forceRelease (t_obj (snd (currentInfo c ctx k)) t)"
  shows "evf_outcome (evf_args_of ctx) (e_obj k o1) out (e_obj k' o1) \<and> keeps_flags o1 k k'"
proof -
  let ?a = "evf_args_of ctx"
  obtain info k1 where ci: "currentInfo c ctx k = (info, k1)" by (cases "currentInfo c ctx k") auto
  have p: "evf_part k1 = evf_part k" using evf_part_helpers(4) [of c ctx k] by (simp add: ci)
  note e = evf_part_eqD [OF p]
  have body: "(out, k') = (if isTerminated info k1 then (Throw, k1)
      else if satisfied ?a info o1 k1 then evf_finish ?a o1 KE_OK k1
      else evf_retry c ?a info o1 (setThreadWaiting info TSW_EVENT (ea_id ?a) k1))"
    using w chk ci by (simp add: WaitEventFlag_def Let_def)
  have sat: "satisfied ?a info o1 k1 \<longleftrightarrow> e_deleted (e_obj k o1) \<or> evf_match ?a (e_bits (e_obj k o1))"
    if "\<not> isTerminated info k1"
    using that fresh ci e by (cases info) (auto simp: satisfied_def)
  show ?thesis
  proof (cases "isTerminated info k1")
    case True
    with body e show ?thesis by (auto simp: evf_outcome_def keeps_flags_def)
  next
    case False
    show ?thesis
    proof (cases "satisfied ?a info o1 k1")
      case True
      with body False have "evf_finish ?a o1 KE_OK k1 = (out, k')" by simp
      from evf_finish_outcome [OF this] sat [OF False] True show ?thesis by (auto simp: e keeps_flags_def)
    next
      case sf: False
      let ?k2 = "setThreadWaiting info TSW_EVENT (ea_id ?a) k1"
      have "evf_part ?k2 = evf_part k" using p by (simp add: kern_simps)
      note e2 = evf_part_eqD [OF this]
      from body False sf have "evf_retry c ?a info o1 ?k2 = (out, k')" by simp
      from evf_retry_outcome [OF this] sat [OF False] sf show ?thesis by (auto simp: e2 keeps_flags_def)
    qed
  qed
qed

definition left_wait :: "caller \<Rightarrow> nat option \<Rightarrow> event_flag_info \<Rightarrow> event_flag_info" where
  "left_wait c info e = e\<lparr>e_waiters := e_waiters e - 1,
     e_waitList := (if info \<noteq> None then unpublishWaiter (c_tid c) (e_waitList e) else e_waitList e)\<rparr>"

lemma WaitEventFlag_wake_outcome:
  assumes w: "WaitEventFlag_wake c a info o1 k = (out, k')"
  shows "evf_outcome a (left_wait c info (e_obj k o1)) out (e_obj k' o1) \<and> keeps_flags o1 k k'"
proof -
  let ?k0 = "upd_event o1 (left_wait c info) k"
  have lw: "left_wait c info = (\<lambda>e. e\<lparr>e_waiters := e_waiters e - 1,
     e_waitList := (if info \<noteq> None then unpublishWaiter (c_tid c) (e_waitList e) else e_waitList e)\<rparr>)"
    by (rule ext) (simp add: left_wait_def)
  have k0: "e_obj ?k0 o1 = left_wait c info (e_obj k o1)" "keeps_flags o1 k ?k0"
    by (simp_all add: kern_simps keeps_flags_def)
  obtain rel k1 where cf: "consumeForceRelease info ?k0 = (rel, k1)" by (cases "consumeForceRelease info ?k0") auto
  have p1: "evf_part k1 = evf_part ?k0" using evf_part_helpers(1) [of info ?k0] by (simp add: cf)
  have p: "evf_part (clearThreadWaiting info k1) = evf_part ?k0"
    "evf_part (clearThreadWaiting info ?k0) = evf_part ?k0" using p1 by (simp_all add: kern_simps)
  have body: "(out, k') =
      (if e_deleted (e_obj ?k0 o1) then evf_finish a o1 KE_WAIT_DELETE (clearThreadWaiting info ?k0)
       else if rel then evf_finish a o1 KE_RELEASE_WAIT (clearThreadWaiting info k1)
       else if isTerminated info k1 then (Throw, k1)
       else if satisfied a info o1 k1 then evf_finish a o1 KE_OK (clearThreadWaiting info k1)
       else evf_retry c a info o1 k1)"
    using w cf unfolding WaitEventFlag_wake_def lw [symmetric] by (auto simp: Let_def)
  have sat: "satisfied a info o1 k1 \<longleftrightarrow> evf_match a (e_bits (e_obj ?k0 o1))"
    if "\<not> rel" "\<not> isTerminated info k1" "\<not> e_deleted (e_obj ?k0 o1)"
    using that cf evf_part_eqD(2) [OF p1]
    by (cases info) (auto simp: satisfied_def consumeForceRelease_def split: if_splits)
  have keep: "keeps_flags o1 k k2" if "evf_part k1' = evf_part ?k0" "keeps_flags o1 k1' k2" for k1' k2
    using that evf_part_eqD [OF that(1)] k0(2) by (simp add: keeps_flags_def)
  note e1 = evf_part_eqD [OF p1] and e2 = evf_part_eqD [OF p(1)] and e3 = evf_part_eqD [OF p(2)]
  note fin = evf_finish_outcome [of a o1 _ "clearThreadWaiting info k1" out k', unfolded e2]
  note fin0 = evf_finish_outcome [of a o1 _ "clearThreadWaiting info ?k0" out k', unfolded e3]
  note ret = evf_retry_outcome [of c a info o1 k1 out k', unfolded e1]
  show ?thesis
  proof (cases "e_deleted (e_obj ?k0 o1)")
    case True
    with body have "evf_finish a o1 KE_WAIT_DELETE (clearThreadWaiting info ?k0) = (out, k')" by simp
    from fin0 [OF this] keep [OF p(2)] show ?thesis by (simp add: k0(1))
  next
    case nd: False
    show ?thesis
    proof (cases "rel \<or> isTerminated info k1")
      case True
      then show ?thesis
        using body nd fin [of KE_RELEASE_WAIT] keep [OF p(1)] keep [OF p1 keeps_part [of k1 k1]]
        by (cases rel) (auto simp: k0(1) evf_outcome_def e1)
    next
      case False
      then show ?thesis
        using body nd fin [of KE_OK] ret sat keep [OF p(1)] keep [OF p1]
        by (cases "satisfied a info o1 k1") (auto simp: k0(1))
    qed
  qed
qed

section \<open>Interleavings\<close>

record evf_call =
  ec_caller :: caller
  ec_info :: "nat option"
  ec_args :: evf_args
  ec_obj :: nat

record esys =
  es_kern :: kern
  es_calls :: "nat \<rightharpoonup> evf_call"

inductive evf_step :: "esys \<Rightarrow> esys \<Rightarrow> bool" where
  evf_other: "evf_part k' = evf_part (es_kern st) \<Longrightarrow> evf_step st (st\<lparr>es_kern := k'\<rparr>)"
| evf_create: "CreateEventFlag ctx (es_kern st) = (ctx', k') \<Longrightarrow> evf_step st (st\<lparr>es_kern := k'\<rparr>)"
| evf_delete: "DeleteEventFlag c ctx (es_kern st) = (ctx', k') \<Longrightarrow> evf_step st (st\<lparr>es_kern := k'\<rparr>)"
| evf_set: "SetEventFlag c ctx (es_kern st) = (ctx', k') \<Longrightarrow> evf_step st (st\<lparr>es_kern := k'\<rparr>)"
| evf_clr: "ClearEventFlag ctx (es_kern st) = (ctx', k') \<Longrightarrow> evf_step st (st\<lparr>es_kern := k'\<rparr>)"
| evf_poll: "PollEventFlag ctx (es_kern st) = (ctx', k') \<Longrightarrow> evf_step st (st\<lparr>es_kern := k'\<rparr>)"
| evf_refer: "ReferEventFlagStatus ctx (es_kern st) = (ctx', k') \<Longrightarrow> evf_step st (st\<lparr>es_kern := k'\<rparr>)"
| evf_wait: "WaitEventFlag c ctx (es_kern st) = (out, k') \<Longrightarrow> out \<noteq> Block \<Longrightarrow>
    evf_step st (st\<lparr>es_kern := k'\<rparr>)"
| evf_block: "WaitEventFlag c ctx (es_kern st) = (Block, k') \<Longrightarrow> es_calls st n = None \<Longrightarrow>
    evf_check (evf_args_of ctx) (es_kern st) = Inr o1 \<Longrightarrow>
    evf_step st (st\<lparr>es_kern := k', es_calls := (es_calls st)(n \<mapsto>
      \<lparr>ec_caller = c, ec_info = fst (currentInfo c ctx (es_kern st)), ec_args = evf_args_of ctx,
       ec_obj = o1\<rparr>)\<rparr>)"
| evf_wake: "es_calls st n = Some w \<Longrightarrow>
    WaitEventFlag_wake (ec_caller w) (ec_args w) (ec_info w) (ec_obj w) (es_kern st) = (out, k') \<Longrightarrow>
    evf_step st (st\<lparr>es_kern := k',
      es_calls := (if out = Block then es_calls st else (es_calls st)(n := None))\<rparr>)"

definition evf_blocked :: "(nat \<rightharpoonup> evf_call) \<Rightarrow> nat \<Rightarrow> nat set" where
  "evf_blocked calls o1 = {n. \<exists>w. calls n = Some w \<and> ec_obj w = o1}"

definition evf_inv :: "esys \<Rightarrow> bool" where
  "evf_inv st \<longleftrightarrow>
     (\<forall>eid o1. g_eventFlags (es_kern st) eid = Some o1 \<longrightarrow> o1 < e_next (es_kern st)) \<and>
     finite (dom (es_calls st)) \<and>
     (\<forall>n w. es_calls st n = Some w \<longrightarrow> ec_obj w < e_next (es_kern st)) \<and>
     (\<forall>o1 < e_next (es_kern st).
        e_waiters (e_obj (es_kern st) o1) = int (card (evf_blocked (es_calls st) o1)) \<and>
        (e_attr (e_obj (es_kern st) o1) AND EA_MULTI = 0 \<longrightarrow> e_waiters (e_obj (es_kern st) o1) \<le> 1))"

text \<open>Steps that keep the attributes and the waiter counts of all flags.\<close>

definition same_counts :: "kern \<Rightarrow> kern \<Rightarrow> bool" where
  "same_counts k k' \<longleftrightarrow> e_next k' = e_next k \<and>
     (\<forall>eid o1. g_eventFlags k' eid = Some o1 \<longrightarrow> g_eventFlags k eid = Some o1) \<and>
     (\<forall>o1. e_attr (e_obj k' o1) = e_attr (e_obj k o1) \<and> e_waiters (e_obj k' o1) = e_waiters (e_obj k o1))"

lemma same_counts_part: "evf_part k' = evf_part k \<Longrightarrow> same_counts k k'"
  by (simp add: same_counts_def evf_part_def)

lemma same_counts_inv: "evf_inv st \<Longrightarrow> same_counts (es_kern st) k' \<Longrightarrow> evf_inv (st\<lparr>es_kern := k'\<rparr>)"
  unfolding evf_inv_def same_counts_def by auto

lemma same_counts_upd:
  assumes "evf_part k' = evf_part (upd_event o1 f k)"
    "e_attr (f (e_obj k o1)) = e_attr (e_obj k o1)" "e_waiters (f (e_obj k o1)) = e_waiters (e_obj k o1)"
  shows "same_counts k k'"
  using evf_part_eqD [OF assms(1)] assms(2,3) by (auto simp: same_counts_def kern_simps)

lemma evf_finish_counts: "evf_finish a o1 ret k = (out, k') \<Longrightarrow> same_counts k k' \<and> out \<noteq> Block"
  by (auto simp: evf_finish_def same_counts_def kern_simps Let_def split: if_splits)

lemma same_counts_trans: "same_counts k k1 \<Longrightarrow> same_counts k1 k2 \<Longrightarrow> same_counts k k2"
  by (simp add: same_counts_def)

lemma simple_calls_counts:
  "DeleteEventFlag c ctx k = (ctx', k') \<Longrightarrow> same_counts k k'"
  "SetEventFlag c ctx k = (ctx', k') \<Longrightarrow> same_counts k k'"
  "ClearEventFlag ctx k = (ctx', k') \<Longrightarrow> same_counts k k'"
  "PollEventFlag ctx k = (ctx', k') \<Longrightarrow> same_counts k k'"
  "ReferEventFlagStatus ctx k = (ctx', k') \<Longrightarrow> same_counts k k'"
proof -
  have refl: "same_counts k k" by (simp add: same_counts_def)
  have wy: "e_obj (wake_and_yield c ws k0) = e_obj k0" "e_next (wake_and_yield c ws k0) = e_next k0"
    "g_eventFlags (wake_and_yield c ws k0) = g_eventFlags k0" for ws k0
    using evf_part_helpers(5) [of c ws k0] by (simp_all add: evf_part_def)
  show "DeleteEventFlag c ctx k = (ctx', k') \<Longrightarrow> same_counts k k'"
    by (auto simp: DeleteEventFlag_def Let_def same_counts_def wy kern_simps split: option.splits if_splits)
  show "SetEventFlag c ctx k = (ctx', k') \<Longrightarrow> same_counts k k'"
    by (auto simp: SetEventFlag_def Let_def same_counts_def wy kern_simps split: option.splits if_splits)
  show "ClearEventFlag ctx k = (ctx', k') \<Longrightarrow> same_counts k k'"
    by (auto simp: ClearEventFlag_def Let_def same_counts_def kern_simps split: option.splits)
  show "PollEventFlag ctx k = (ctx', k') \<Longrightarrow> same_counts k k'"
    by (auto simp: PollEventFlag_def Let_def same_counts_def kern_simps split: sum.splits if_splits)
  show "ReferEventFlagStatus ctx k = (ctx', k') \<Longrightarrow> same_counts k k'"
    using refl same_counts_part [OF evf_part_helpers(6)]
    by (auto simp: ReferEventFlagStatus_def Let_def split: option.splits if_splits)
qed

text \<open>A wait that does not block changes no count; one that blocks adds one to its flag.\<close>

lemma evf_retry_counts:
  assumes "evf_retry c a info o1 k = (out, k')"
  shows "out \<noteq> Block \<Longrightarrow> same_counts k k'"
    "out = Block \<Longrightarrow> \<exists>f. evf_part k' = evf_part (upd_event o1 f k) \<and> e_attr (f (e_obj k o1)) = e_attr (e_obj k o1) \<and>
      e_waiters (f (e_obj k o1)) = e_waiters (e_obj k o1) + 1"
proof -
  obtain rel k1 where cf: "consumeForceRelease info k = (rel, k1)" by (cases "consumeForceRelease info k") auto
  have p: "evf_part k1 = evf_part k" "evf_part (clearThreadWaiting info k1) = evf_part k"
    using evf_part_helpers(1) [of info k] by (simp_all add: cf kern_simps)
  show "same_counts k k'" if "out \<noteq> Block"
    using assms that cf same_counts_trans [OF same_counts_part [OF p(2)]] evf_finish_counts
    by (cases rel) (auto simp: evf_retry_def)
  show "\<exists>f. evf_part k' = evf_part (upd_event o1 f k) \<and> e_attr (f (e_obj k o1)) = e_attr (e_obj k o1) \<and>
      e_waiters (f (e_obj k o1)) = e_waiters (e_obj k o1) + 1" if "out = Block"
  proof -
    let ?f = "\<lambda>e. e\<lparr>e_waiters := e_waiters e + 1,
       e_waitList := (if info \<noteq> None then publishWaiter c k1 (e_waitList e) else e_waitList e)\<rparr>"
    have "\<not> rel"
      using assms that cf by (auto simp: evf_retry_def dest: evf_finish_counts)
    then have "k' = upd_event o1 ?f k1" using assms that cf by (auto simp: evf_retry_def)
    then have "evf_part k' = evf_part (upd_event o1 ?f k)"
      using p(1) by (simp add: evf_part_def kern_simps)
    then show ?thesis by (intro exI [of _ ?f]) simp
  qed
qed

lemma WaitEventFlag_counts:
  assumes "WaitEventFlag c ctx k = (out, k')"
  shows "out \<noteq> Block \<Longrightarrow> same_counts k k'"
    "out = Block \<Longrightarrow> \<exists>o1 f. evf_check (evf_args_of ctx) k = Inr o1 \<and>
      evf_part k' = evf_part (upd_event o1 f k) \<and> e_attr (f (e_obj k o1)) = e_attr (e_obj k o1) \<and>
      e_waiters (f (e_obj k o1)) = e_waiters (e_obj k o1) + 1"
proof -
  obtain info k1 where ci: "currentInfo c ctx k = (info, k1)" by (cases "currentInfo c ctx k") auto
  let ?k2 = "setThreadWaiting info TSW_EVENT (ea_id (evf_args_of ctx)) k1"
  have p: "evf_part k1 = evf_part k" "evf_part ?k2 = evf_part k"
    using evf_part_helpers(4) [of c ctx k] by (simp_all add: ci kern_simps)
  have u: "evf_part (upd_event o1 f ?k2) = evf_part (upd_event o1 f k)" "e_obj ?k2 = e_obj k" for o1 f
    using p(2) by (simp_all add: evf_part_def kern_simps)
  note t1 = same_counts_trans [OF same_counts_part [OF p(1)]] and t2 = same_counts_trans [OF same_counts_part [OF p(2)]]
  show "same_counts k k'" if "out \<noteq> Block"
    using assms that ci evf_finish_counts t1 t2 [OF evf_retry_counts(1)] same_counts_part [OF p(1)]
      same_counts_part [of k k]
    by (auto simp: WaitEventFlag_def Let_def split: sum.splits if_splits)
  show "\<exists>o1 f. evf_check (evf_args_of ctx) k = Inr o1 \<and>
      evf_part k' = evf_part (upd_event o1 f k) \<and> e_attr (f (e_obj k o1)) = e_attr (e_obj k o1) \<and>
      e_waiters (f (e_obj k o1)) = e_waiters (e_obj k o1) + 1" if "out = Block"
    using assms that ci evf_finish_counts evf_retry_counts(2) [where k = ?k2 and k' = k' and out = out, unfolded u]
    by (fastforce simp: WaitEventFlag_def Let_def split: sum.splits if_splits)
qed

lemma WaitEventFlag_wake_counts:
  assumes "WaitEventFlag_wake c a info o1 k = (out, k')"
  shows "keeps_flags o1 k k' \<and> e_attr (e_obj k' o1) = e_attr (e_obj k o1) \<and>
    e_waiters (e_obj k' o1) = e_waiters (e_obj k o1) - (if out = Block then 0 else 1)"
  using WaitEventFlag_wake_outcome [OF assms]
  by (auto simp: evf_outcome_def left_wait_def split: if_splits)

section \<open>The waiter counts along every run\<close>

lemma evf_blocked_finite: "finite (dom calls) \<Longrightarrow> finite (evf_blocked calls o1)"
  by (rule finite_subset [of _ "dom calls"]) (auto simp: evf_blocked_def)

text \<open>A step that changes one flag and the calls blocked on it.\<close>

lemma evf_inv_change:
  assumes inv: "evf_inv st" and o1: "o1 < e_next (es_kern st)"
    and keep: "keeps_flags o1 (es_kern st) k'" and attr: "e_attr (e_obj k' o1) = e_attr (e_obj (es_kern st) o1)"
    and fin: "finite (dom calls)" and known: "\<And>n w. calls n = Some w \<Longrightarrow> ec_obj w < e_next (es_kern st)"
    and others: "\<And>o2. o2 \<noteq> o1 \<Longrightarrow> evf_blocked calls o2 = evf_blocked (es_calls st) o2"
    and count: "e_waiters (e_obj k' o1) = int (card (evf_blocked calls o1))"
    and multi: "e_attr (e_obj (es_kern st) o1) AND EA_MULTI = 0 \<Longrightarrow> e_waiters (e_obj k' o1) \<le> 1"
  shows "evf_inv \<lparr>es_kern = k', es_calls = calls\<rparr>"
proof -
  have k: "g_eventFlags k' = g_eventFlags (es_kern st)" "e_next k' = e_next (es_kern st)"
    "\<And>o2. o2 \<noteq> o1 \<Longrightarrow> e_obj k' o2 = e_obj (es_kern st) o2" using keep by (simp_all add: keeps_flags_def)
  have "e_waiters (e_obj k' o2) = int (card (evf_blocked calls o2)) \<and>
      (e_attr (e_obj k' o2) AND EA_MULTI = 0 \<longrightarrow> e_waiters (e_obj k' o2) \<le> 1)"
    if "o2 < e_next (es_kern st)" for o2
    using that inv k(3) others count multi attr by (cases "o2 = o1") (auto simp: evf_inv_def)
  then show ?thesis
    unfolding evf_inv_def esys.simps k using inv [unfolded evf_inv_def] fin known by blast
qed

lemma evf_check_Inr:
  "evf_check a k = Inr o1 \<Longrightarrow> g_eventFlags k (ea_id a) = Some o1 \<and>
     \<not> (e_attr (e_obj k o1) AND EA_MULTI = 0 \<and> e_waiters (e_obj k o1) > 0)"
  by (auto simp: evf_check_def lookupEventFlagInfo_def split: if_splits option.splits)

lemma CreateEventFlag_inv:
  assumes inv: "evf_inv st" and c: "CreateEventFlag ctx (es_kern st) = (ctx', k')"
  shows "evf_inv (st\<lparr>es_kern := k'\<rparr>)"
proof -
  let ?n = "e_next (es_kern st)"
  have new: "evf_blocked (es_calls st) ?n = {}"
    using inv by (fastforce simp: evf_inv_def evf_blocked_def)
  obtain e eid where k': "e_next k' = Suc ?n" "g_eventFlags k' = (g_eventFlags (es_kern st))(eid \<mapsto> ?n)"
    "e_obj k' = (e_obj (es_kern st))(?n := e)" "e_waiters e = 0"
    using c by (auto simp: CreateEventFlag_def Let_def)
  show ?thesis using inv new unfolding evf_inv_def k' by (auto simp: k' less_Suc_eq)
qed

lemma WaitEventFlag_block_inv:
  assumes inv: "evf_inv st" and w: "WaitEventFlag c ctx (es_kern st) = (Block, k')"
    and n: "es_calls st n = None" and chk: "evf_check (evf_args_of ctx) (es_kern st) = Inr o1"
    and call: "ec_obj call = o1"
  shows "evf_inv \<lparr>es_kern = k', es_calls = (es_calls st)(n \<mapsto> call)\<rparr>"
proof -
  let ?calls = "(es_calls st)(n \<mapsto> call)"
  obtain f where p: "evf_part k' = evf_part (upd_event o1 f (es_kern st))"
      "e_attr (f (e_obj (es_kern st) o1)) = e_attr (e_obj (es_kern st) o1)"
      "e_waiters (f (e_obj (es_kern st) o1)) = e_waiters (e_obj (es_kern st) o1) + 1"
    using WaitEventFlag_counts(2) [OF w] chk by auto
  note e = evf_part_eqD [OF p(1)]
  have o1: "o1 < e_next (es_kern st)" using evf_check_Inr [OF chk] inv by (auto simp: evf_inv_def)
  have cnt: "e_waiters (e_obj (es_kern st) o1) = int (card (evf_blocked (es_calls st) o1))"
    using inv o1 by (simp add: evf_inv_def)
  have blk: "evf_blocked ?calls o2 = (if o2 = o1 then insert n (evf_blocked (es_calls st) o2)
      else evf_blocked (es_calls st) o2)" "n \<notin> evf_blocked (es_calls st) o2" for o2
    using n call by (auto simp: evf_blocked_def)
  have fin: "finite (dom (es_calls st))" using inv by (simp add: evf_inv_def)
  show ?thesis
  proof (rule evf_inv_change [OF inv o1])
    show "keeps_flags o1 (es_kern st) k'" using e by (simp add: keeps_flags_def kern_simps)
    show "e_waiters (e_obj k' o1) = int (card (evf_blocked ?calls o1))"
      using e p(3) cnt blk evf_blocked_finite [OF fin] by (simp add: kern_simps)
    show "e_waiters (e_obj k' o1) \<le> 1" if "e_attr (e_obj (es_kern st) o1) AND EA_MULTI = 0"
      using that evf_check_Inr [OF chk] e p(3) by (simp add: kern_simps)
    show "ec_obj v < e_next (es_kern st)" if "?calls m = Some v" for m v
      using that inv o1 call by (auto simp: evf_inv_def split: if_splits)
  qed (use e p fin blk in \<open>auto simp: kern_simps\<close>)
qed

lemma WaitEventFlag_wake_inv:
  assumes inv: "evf_inv st" and n: "es_calls st n = Some v"
    and w: "WaitEventFlag_wake (ec_caller v) (ec_args v) (ec_info v) (ec_obj v) (es_kern st) = (out, k')"
  shows "evf_inv \<lparr>es_kern = k', es_calls = (if out = Block then es_calls st else (es_calls st)(n := None))\<rparr>"
    (is "evf_inv \<lparr>es_kern = _, es_calls = ?calls\<rparr>")
proof -
  let ?o = "ec_obj v"
  note ct = WaitEventFlag_wake_counts [OF w]
  have o1: "?o < e_next (es_kern st)" and fin: "finite (dom (es_calls st))" using inv n by (auto simp: evf_inv_def)
  have cnt: "e_waiters (e_obj (es_kern st) ?o) = int (card (evf_blocked (es_calls st) ?o))"
    "e_attr (e_obj (es_kern st) ?o) AND EA_MULTI = 0 \<Longrightarrow> e_waiters (e_obj (es_kern st) ?o) \<le> 1"
    using inv o1 unfolding evf_inv_def by blast+
  have "n \<in> evf_blocked (es_calls st) ?o" using n by (simp add: evf_blocked_def)
  from card.remove [OF evf_blocked_finite [OF fin] this]
  have rem: "int (card (evf_blocked (es_calls st) ?o)) = int (card (evf_blocked (es_calls st) ?o - {n})) + 1" by simp
  have blk: "evf_blocked ((es_calls st)(n := None)) o2 = evf_blocked (es_calls st) o2 - {n}"
    "o2 \<noteq> ?o \<Longrightarrow> n \<notin> evf_blocked (es_calls st) o2" for o2
    using n by (auto simp: evf_blocked_def)
  show ?thesis
  proof (rule evf_inv_change [OF inv o1])
    show "e_waiters (e_obj k' ?o) = int (card (evf_blocked ?calls ?o))"
      using ct cnt(1) rem blk(1) by simp
    show "e_waiters (e_obj k' ?o) \<le> 1" if "e_attr (e_obj (es_kern st) ?o) AND EA_MULTI = 0"
      using ct cnt(2) [OF that] by (simp split: if_splits)
    show "ec_obj u < e_next (es_kern st)" if "?calls m = Some u" for m u
      using that inv by (auto simp: evf_inv_def split: if_splits)
  qed (use ct fin blk in auto)
qed

lemma evf_step_preserves: "evf_step st st' \<Longrightarrow> evf_inv st \<Longrightarrow> evf_inv st'"
proof (induction rule: evf_step.induct)
  case (evf_block c ctx st k' n o1)
  show ?case by (cases st) (use WaitEventFlag_block_inv [OF evf_block(4,1-3)] in simp)
next
  case (evf_wake st n w out k')
  show ?case by (cases st) (use WaitEventFlag_wake_inv [OF evf_wake(3,1,2)] in simp)
qed (auto intro: same_counts_inv same_counts_part CreateEventFlag_inv
    dest: simple_calls_counts WaitEventFlag_counts(1))

inductive evf_run :: "esys \<Rightarrow> esys \<Rightarrow> bool" where
  evf_start: "evf_run st st"
| evf_more: "evf_run st st' \<Longrightarrow> evf_step st' st'' \<Longrightarrow> evf_run st st''"

definition no_flags :: "esys \<Rightarrow> bool" where
  "no_flags st \<longleftrightarrow> g_eventFlags (es_kern st) = Map.empty \<and> e_next (es_kern st) = 0 \<and> es_calls st = Map.empty"

lemma evf_run_inv: "evf_run st st' \<Longrightarrow> no_flags st \<Longrightarrow> evf_inv st'"
proof (induction rule: evf_run.induct)
  case (evf_start st)
  then show ?case by (simp add: no_flags_def evf_inv_def)
qed (blast intro: evf_step_preserves)

end
