(* ===== verification/EventFlagProps.thy ===== *)
theory EventFlagProps
  imports EventFlag SemaphoreProps
begin

text \<open>
  The properties of the event flag syscalls: when a wait succeeds, blocks or fails and what it does
  to the bits, that \<open>SetEventFlag\<close> makes every waiter run again, and that a flag without
  \<open>EA_MULTI\<close> never has two waiters.  At the end, the case in which a wait reports success although
  its condition does not hold.
\<close>

section \<open>Waking a whole list\<close>

text \<open>What a wakeup keeps of every fiber: its identity and its suspend count.\<close>

definition same_fibers :: "sched \<Rightarrow> sched \<Rightarrow> bool" where
  "same_fibers s s' \<longleftrightarrow> (\<forall>tid. fiber_for tid s' = fiber_for tid s) \<and>
     (\<forall>p f. fibers s p = Some f \<longrightarrow> (\<exists>g. fibers s' p = Some g \<and>
        make_fiber_token g = make_fiber_token f \<and> fc_suspendCount g = fc_suspendCount f))"

lemma same_fibers_refl: "same_fibers s s"
  by (simp add: same_fibers_def)

lemma wake_locked_same: "same_fibers s (wake_locked p s)"
  by (auto simp: same_fibers_def wake_locked_def enqueue_locked_def upd_fiber_def fiber_for_def
      make_fiber_token_def split: option.splits)

lemma external_same: "same_fibers s (enqueue_external_wakeup_validated tid token s)"
  by (simp add: enqueue_external_wakeup_validated_def with_fiber_def wake_locked_same same_fibers_refl
      split: option.split)

lemma wake_locked_keeps_effective: "wake_effective s p \<Longrightarrow> wake_effective (wake_locked q s) p"
  by (auto simp: wake_effective_def wake_locked_def enqueue_locked_def upd_fiber_def split: option.splits)

lemma external_keeps_effective:
  "wake_effective s p \<Longrightarrow> wake_effective (enqueue_external_wakeup_validated tid token s) p"
  by (simp add: enqueue_external_wakeup_validated_def with_fiber_def wake_locked_keeps_effective
      split: option.split)

lemma wake_all_keeps_effective: "wake_effective s p \<Longrightarrow> wake_effective (wake_all ws s) p"
  by (induction ws arbitrary: s) (auto simp: wake_all_def external_keeps_effective)

lemma wake_all_effective:
  assumes "sched_inv s" "(tid, make_fiber_token f) \<in> set ws" "make_fiber_token f \<noteq> 0"
    "fiber_for tid s = Some p" "fibers s p = Some f" "fc_suspendCount f = 0"
  shows "wake_effective (wake_all ws s) p"
  using assms
proof (induction ws arbitrary: s f)
  case (Cons w ws)
  obtain t tok where w: "w = (t, tok)" by (cases w)
  let ?s1 = "enqueue_external_wakeup_validated t tok s"
  have step: "wake_all (w # ws) s = wake_all ws ?s1" by (simp add: wake_all_def w)
  show ?case
  proof (cases "w = (tid, make_fiber_token f)")
    case True
    then have "?s1 = wake_locked p s"
      using Cons.prems w by (simp add: enqueue_external_wakeup_validated_def with_fiber_def)
    moreover have "queue_ok s" using Cons.prems(1) by (simp add: sched_inv_def)
    ultimately have "wake_effective ?s1 p" using wake_locked_effective Cons.prems(5) by simp
    then show ?thesis by (simp add: step wake_all_keeps_effective)
  next
    case False
    obtain g where g: "fiber_for tid ?s1 = Some p" "fibers ?s1 p = Some g"
      "make_fiber_token g = make_fiber_token f" "fc_suspendCount g = 0"
      using external_same [of s t tok] Cons.prems(4-6) by (fastforce simp: same_fibers_def)
    have "sched_inv ?s1" by (rule enqueue_external_wakeup_validated_inv [OF Cons.prems(1)])
    then show ?thesis
      using Cons.IH [of ?s1 g] Cons.prems(2,3) g False by (auto simp: step)
  qed
qed simp

section \<open>Waiting\<close>

lemma WaitEventFlag_result:
  assumes chk: "evf_check (evf_args_of ctx) k = Inr o1" and nd: "\<not> e_deleted (e_obj k o1)"
    and ci: "currentInfo c ctx k = (info, k1)" and nt: "\<not> isTerminated info k1"
    and nr: "\<And>t. info = Some t \<Longrightarrow> \<not> forceRelease (t_obj k1 t)"
  shows "fst (WaitEventFlag c ctx k) =
    (if evf_match (evf_args_of ctx) (e_bits (e_obj k o1)) then Finish KE_OK else Block)"
proof -
  let ?a = "evf_args_of ctx"
  have e: "e_obj k1 = e_obj k" using evf_part_helpers(4) [of c ctx k] ci by (simp add: evf_part_def)
  have sat: "satisfied ?a info o1 k1 \<longleftrightarrow> evf_match ?a (e_bits (e_obj k o1))"
    using nd nt nr by (cases info) (auto simp: satisfied_def e)
  have "fst (consumeForceRelease info (setThreadWaiting info TSW_EVENT (ea_id ?a) k1)) = False"
    by (cases info) (simp_all add: consumeForceRelease_def setThreadWaiting_def upd_thread_def)
  then have "fst (evf_retry c ?a info o1 (setThreadWaiting info TSW_EVENT (ea_id ?a) k1)) = Block"
    by (auto simp: evf_retry_def split: prod.split bool.split)
  then show ?thesis
    using chk ci nt nd sat by (simp add: WaitEventFlag_def evf_finish_def Let_def e)
qed

section \<open>A concrete flag\<close>

definition evf_ctx :: "u32 \<Rightarrow> u32 \<Rightarrow> u32 \<Rightarrow> r5900" where
  "evf_ctx eid bits mode = setRegU32 (setRegU32 (setRegU32 (setRegU32 R5900Context_init 4 eid) 5 bits) 6 mode) 7 0"

lemma evf_ctx_args [simp]:
  "getRegU32 (evf_ctx eid bits mode) 4 = eid" "getRegU32 (evf_ctx eid bits mode) 5 = bits"
  "evf_args_of (evf_ctx eid bits mode) = \<lparr>ea_id = to_int eid, ea_bits = bits, ea_mode = mode, ea_res = 0\<rparr>"
  by (simp_all add: evf_ctx_def evf_args_of_def getRegU32_setRegU32_same getRegU32_setRegU32_other)

definition demo_flag :: event_flag_info where
  "demo_flag = \<lparr>e_attr = 0, e_option = 0, e_initBits = 0, e_bits = 0, e_waiters = 0, e_deleted = False,
     e_waitList = []\<rparr>"

definition demo_flagged :: "event_flag_info \<Rightarrow> kern" where
  "demo_flagged e = demo_kern\<lparr>g_nextEventFlagId := 2, g_eventFlags := [1 \<mapsto> 0], e_next := 1,
     e_obj := (e_obj demo_kern)(0 := e)\<rparr>"

lemma demo_flagged_fields:
  "g_eventFlags (demo_flagged e) = [1 \<mapsto> 0]" "e_obj (demo_flagged e) 0 = e" "e_next (demo_flagged e) = 1"
  "k_sched (demo_flagged e) = demo_running"
  by (simp_all add: demo_flagged_def) (simp add: demo_kern_def)

lemma demo_flag_create: "CreateEventFlag (evf_ctx 0 0 0) demo_kern = (setReturnS32 (evf_ctx 0 0 0) 1, demo_flagged demo_flag)"
  by (simp add: CreateEventFlag_def demo_flagged_def demo_flag_def Let_def int_inc_def of_int32_def to_int_def)
    (simp add: demo_kern_def)

abbreviation (input) worker :: caller where "worker \<equiv> \<lparr>c_tid = - 1, c_self = None\<rparr>"

lemma demo_worker: "currentInfo worker ctx k = (None, k)"
  by (simp add: currentInfo_def)

lemma demo_check:
  "evf_check (evf_args_of (evf_ctx 1 bits 0x10)) (demo_flagged e) =
     (if bits = 0 then Inl KE_EVF_ILPAT
      else if e_attr e AND EA_MULTI = 0 \<and> e_waiters e > 0 then Inl KE_EVF_MULTI else Inr 0)"
  by (simp add: evf_check_def WEF_MODE_MASK_def lookupEventFlagInfo_def demo_flagged_fields)

section \<open>Properties\<close>



text \<open>
  Event wakeups: whenever a blocked \<open>WaitEventFlag\<close> comes back from its wait, in whatever
  state the kernel is by then, it returns \<open>KE_OK\<close> only if the awaited bits are set at that moment
  and the flag still exists, and clears exactly what its mode says; it goes back to waiting only if
  they are not set, and is counted as a waiter again; with any other result it leaves the flag as
  it is, itself taken off the wait list.  No other flag changes.
\<close>

lemma event_wake_correct:
  "evf_outcome a (left_wait c info (e_obj k o1)) (fst (WaitEventFlag_wake c a info o1 k))
     (e_obj (snd (WaitEventFlag_wake c a info o1 k)) o1) \<and>
   keeps_flags o1 k (snd (WaitEventFlag_wake c a info o1 k))"
  by (rule WaitEventFlag_wake_outcome [OF prod.collapse [symmetric]])

text \<open>
  Setting bits wakes every waiter: \<open>SetEventFlag\<close> with a nonzero mask adds exactly the bits of
  the mask, and every thread of the wait list whose recorded fiber is its current one and not
  suspended is afterwards on the run queue or has the wakeup recorded, however long the list is.
  The list itself stays, since each waiter takes itself off when it runs.
\<close>

lemma set_wakes_all:
  assumes "sched_reachable (k_sched k)" "g_eventFlags k (a0 ctx) = Some o1" "getRegU32 ctx 5 \<noteq> 0"
    and "(tid, make_fiber_token f) \<in> set (e_waitList (e_obj k o1))" "make_fiber_token f \<noteq> 0"
    and "fiber_for tid (k_sched k) = Some p" "fibers (k_sched k) p = Some f" "fc_suspendCount f = 0"
  shows "wake_effective (k_sched (snd (SetEventFlag c ctx k))) p \<and>
    e_obj (snd (SetEventFlag c ctx k)) o1 = (e_obj k o1)\<lparr>e_bits := e_bits (e_obj k o1) OR getRegU32 ctx 5\<rparr>"
proof -
  let ?ws = "e_waitList (e_obj k o1)"
  let ?k1 = "upd_event o1 (\<lambda>e. e\<lparr>e_bits := e_bits e OR getRegU32 ctx 5\<rparr>) k"
  have set: "snd (SetEventFlag c ctx k) = wake_and_yield c ?ws ?k1"
    using assms(2,3) by (simp add: SetEventFlag_def lookupEventFlagInfo_def a0_def Let_def)
  have ne: "?ws \<noteq> []" using assms(4) by auto
  have "wake_effective (wake_all ?ws (k_sched k)) p"
    using wake_all_effective [OF sched_reachable_inv [OF assms(1)] assms(4-8)] .
  then have "wake_effective (snd (maybe_yield (c_self c) (wake_all ?ws (k_sched k)))) p"
    by (rule maybe_yield_effective)
  moreover have "e_obj (wake_and_yield c ?ws ?k1) = e_obj ?k1"
    using evf_part_helpers(5) by (simp add: evf_part_def)
  ultimately show ?thesis using ne by (simp add: set wake_and_yield_def kern_simps)
qed

text \<open>
  One waiter without \<open>EA_MULTI\<close>: start from a kernel without event flags and let threads call
  the event flag syscalls in any order and any interleaving, with the blocked ones waking up at any
  time.  Then the waiter count of a flag is exactly the number of calls blocked on it, which is
  what \<open>ReferEventFlagStatus\<close> reports, and a flag created without \<open>EA_MULTI\<close> never has more than
  one.
\<close>

lemma event_flag_exclusive:
  assumes "no_flags st" "evf_run st st'" "o1 < e_next (es_kern st')"
  shows "e_waiters (e_obj (es_kern st') o1) = int (card (evf_blocked (es_calls st') o1)) \<and>
    (e_attr (e_obj (es_kern st') o1) AND EA_MULTI = 0 \<longrightarrow> card (evf_blocked (es_calls st') o1) \<le> 1)"
proof -
  have "e_waiters (e_obj (es_kern st') o1) = int (card (evf_blocked (es_calls st') o1)) \<and>
      (e_attr (e_obj (es_kern st') o1) AND EA_MULTI = 0 \<longrightarrow> e_waiters (e_obj (es_kern st') o1) \<le> 1)"
    using evf_run_inv [OF assms(2,1)] assms(3) unfolding evf_inv_def by blast
  then show ?thesis by auto
qed

definition demo_blocked :: kern where
  "demo_blocked = snd (WaitEventFlag worker (evf_ctx 1 6 0x10) (demo_flagged demo_flag))"

lemma demo_blocks:
  "WaitEventFlag worker (evf_ctx 1 6 0x10) (demo_flagged demo_flag) = (Block, demo_blocked)"
  "e_next demo_blocked = 1" "e_attr (e_obj demo_blocked 0) = 0"
proof -
  have "evf_check (evf_args_of (evf_ctx 1 6 0x10)) (demo_flagged demo_flag) = Inr 0"
    unfolding demo_check by (simp add: demo_flag_def)
  then have *: "WaitEventFlag worker (evf_ctx 1 6 0x10) (demo_flagged demo_flag) =
      (Block, upd_event 0 (\<lambda>e. e\<lparr>e_waiters := e_waiters e + 1\<rparr>) (demo_flagged demo_flag))"
    by (simp add: WaitEventFlag_def demo_worker isTerminated_def satisfied_def demo_flagged_fields
        evf_match_def evf_retry_def consumeForceRelease_def setThreadWaiting_def demo_flag_def Let_def)
  show "WaitEventFlag worker (evf_ctx 1 6 0x10) (demo_flagged demo_flag) = (Block, demo_blocked)"
    by (simp add: demo_blocked_def *)
  show "e_next demo_blocked = 1" "e_attr (e_obj demo_blocked 0) = 0"
    by (simp_all add: demo_blocked_def * kern_simps demo_flagged_fields) (simp add: demo_flag_def)
qed

definition demo_call :: evf_call where
  "demo_call = \<lparr>ec_caller = worker, ec_info = None, ec_args = evf_args_of (evf_ctx 1 6 0x10), ec_obj = 0\<rparr>"

lemma demo_evf_run:
  "evf_run \<lparr>es_kern = demo_kern, es_calls = Map.empty\<rparr> \<lparr>es_kern = demo_blocked, es_calls = [0 \<mapsto> demo_call]\<rparr>"
proof -
  let ?st = "\<lparr>es_kern = demo_flagged demo_flag, es_calls = Map.empty\<rparr>"
  have "evf_step \<lparr>es_kern = demo_kern, es_calls = Map.empty\<rparr> ?st"
    using evf_create [of "evf_ctx 0 0 0" "\<lparr>es_kern = demo_kern, es_calls = Map.empty\<rparr>"] demo_flag_create by simp
  moreover have "evf_step ?st \<lparr>es_kern = demo_blocked, es_calls = [0 \<mapsto> demo_call]\<rparr>"
    using evf_block [of worker "evf_ctx 1 6 0x10" ?st demo_blocked 0 0] demo_blocks(1) demo_check [of 6 demo_flag]
    by (simp add: demo_worker demo_call_def) (simp add: demo_flag_def)
  ultimately show ?thesis using evf_start evf_more by metis
qed

section \<open>A release that came too early\<close>

text \<open>
  \<open>forceRelease\<close> can outlive the wait it was meant for: a wait that ends because its object was
  deleted does not consume it.  The next \<open>WaitEventFlag\<close> of that thread takes its fast path on the
  flag, does not consume it either, and reports success whatever the bits are; with
  \<open>WEF_CLEAR_ALL\<close> it also clears bits that nobody received.
\<close>

lemma deleted_wait_keeps_release:
  assumes "e_deleted (e_obj k o1)" "forceRelease (t_obj k t)"
  shows "fst (WaitEventFlag_wake c a (Some t) o1 k) = Finish KE_WAIT_DELETE \<and>
    forceRelease (t_obj (snd (WaitEventFlag_wake c a (Some t) o1 k)) t)"
  using assms
  by (simp add: WaitEventFlag_wake_def evf_finish_def clearThreadWaiting_def upd_thread_def kern_simps Let_def)

lemma early_release_reports_success:
  assumes "evf_check (evf_args_of ctx) k = Inr o1" "\<not> e_deleted (e_obj k o1)"
    and "g_threads k (c_tid c) = Some t" "c_tid c \<noteq> - 1" "forceRelease (t_obj k t)" "\<not> terminated (t_obj k t)"
  shows "fst (WaitEventFlag c ctx k) = Finish KE_OK \<and>
    forceRelease (t_obj (snd (WaitEventFlag c ctx k)) t)"
proof -
  have ci: "currentInfo c ctx k = (Some t, k)"
    using assms(3,4) by (simp add: currentInfo_def ensureCurrentThreadInfo_def)
  then have "WaitEventFlag c ctx k = (Finish KE_OK, evf_deliver (evf_args_of ctx) o1 k)"
    using assms by (simp add: WaitEventFlag_def isTerminated_def satisfied_def evf_finish_def Let_def)
  then show ?thesis
    using assms(5)
    by (simp add: evf_deliver_def upd_event_def store_words_def Let_def split: option.split host_ptr.split)
qed

end
