(* ===== verification/GuestHeap.thy ===== *)
theory GuestHeap
  imports GuestMemory
begin

text \<open>
  The guest heap of \<open>PS2Runtime\<close> (\<open>ps2_runtime.cpp\<close>): a vector of adjacent blocks over
  \<open>[base, limit)\<close>, allocated first fit from the top of a free block. Addresses and sizes are
  32-bit words and the intermediate sums 64-bit words, as in the source; the invariant is stated
  on natural numbers. Each public method runs under \<open>m_guestHeapMutex\<close> and is one function.
\<close>

section \<open>State\<close>

record heap_block =
  hb_addr :: u32
  hb_size :: u32
  hb_free :: bool

record guest_heap =
  m_guestHeapBlocks :: "heap_block list"
  m_guestHeapBase :: u32
  m_guestHeapEnd :: u32
  m_guestHeapLimit :: u32
  m_guestHeapSuggestedBase :: u32
  m_guestHeapConfigured :: bool
  m_rdram :: "bytes option"

definition kGuestHeapDefaultBase :: u32 where "kGuestHeapDefaultBase = 0x00100000"
definition kGuestHeapDefaultAlignment :: u32 where "kGuestHeapDefaultAlignment = 16"
definition kGuestHeapHardLimit :: u32 where "kGuestHeapHardLimit = 0x01F00000"

definition u32_max :: u32 where "u32_max = 0xFFFFFFFF"

definition guest_heap_init :: "bytes option \<Rightarrow> guest_heap" where
  "guest_heap_init rdram = \<lparr>m_guestHeapBlocks = [], m_guestHeapBase = kGuestHeapDefaultBase,
     m_guestHeapEnd = kGuestHeapDefaultBase, m_guestHeapLimit = min kGuestHeapHardLimit PS2_RAM_SIZE,
     m_guestHeapSuggestedBase = kGuestHeapDefaultBase, m_guestHeapConfigured = False, m_rdram = rdram\<rparr>"

section \<open>Alignment and clamping\<close>

definition alignGuestHeapValue :: "u32 \<Rightarrow> u32 \<Rightarrow> u32" where
  "alignGuestHeapValue v alignment =
     (if alignment = 0 then v
      else let msk = alignment - 1 in
        if v > u32_max - msk then u32_max else (v + msk) AND NOT msk)"

definition isGuestHeapAlignmentValid :: "u32 \<Rightarrow> bool" where
  "isGuestHeapAlignmentValid alignment \<longleftrightarrow> alignment \<noteq> 0 \<and> alignment AND (alignment - 1) = 0"

definition normalizeGuestHeapAlignment :: "u32 \<Rightarrow> u32" where
  "normalizeGuestHeapAlignment alignment =
     (if \<not> isGuestHeapAlignmentValid alignment then kGuestHeapDefaultAlignment
      else max alignment kGuestHeapDefaultAlignment)"

definition clampGuestHeapBase :: "u32 \<Rightarrow> u32" where
  "clampGuestHeapBase guestBase =
     (let normalized = (if guestBase \<ge> PS2_RAM_SIZE then guestBase AND PS2_RAM_MASK else guestBase);
          hardLimit = min kGuestHeapHardLimit PS2_RAM_SIZE
      in min normalized hardLimit)"

definition clampGuestHeapLimit :: "u32 \<Rightarrow> u32" where
  "clampGuestHeapLimit guestLimit =
     (let hardLimit = min kGuestHeapHardLimit PS2_RAM_SIZE in
      if guestLimit = 0 \<or> guestLimit > hardLimit then hardLimit else guestLimit)"

section \<open>Reset and initialisation\<close>

definition resetGuestHeapLocked :: "u32 \<Rightarrow> u32 \<Rightarrow> guest_heap \<Rightarrow> guest_heap" where
  "resetGuestHeapLocked guestBase guestLimit h =
     (let base = alignGuestHeapValue (clampGuestHeapBase guestBase) kGuestHeapDefaultAlignment;
          limit = clampGuestHeapLimit guestLimit;
          base = (if base = 0 then
                    let fallbackBase = (if m_guestHeapSuggestedBase h \<noteq> 0 then m_guestHeapSuggestedBase h
                                        else kGuestHeapDefaultBase)
                    in alignGuestHeapValue (clampGuestHeapBase fallbackBase) kGuestHeapDefaultAlignment
                  else base);
          (base, limit) = (if limit \<le> base
             then (alignGuestHeapValue (clampGuestHeapBase (m_guestHeapSuggestedBase h)) kGuestHeapDefaultAlignment,
                   clampGuestHeapLimit 0)
             else (base, limit));
          (base, limit) = (if limit \<le> base then (0, 0) else (base, limit))
      in h\<lparr>m_guestHeapBlocks :=
             (if limit > base then [\<lparr>hb_addr = base, hb_size = limit - base, hb_free = True\<rparr>] else []),
           m_guestHeapBase := base, m_guestHeapEnd := base, m_guestHeapLimit := limit,
           m_guestHeapConfigured := True\<rparr>)"

definition ensureGuestHeapInitializedLocked :: "guest_heap \<Rightarrow> guest_heap" where
  "ensureGuestHeapInitializedLocked h =
     (if m_guestHeapConfigured h then h
      else let suggested = (if m_guestHeapSuggestedBase h = 0 then kGuestHeapDefaultBase
                            else m_guestHeapSuggestedBase h)
           in resetGuestHeapLocked suggested (clampGuestHeapLimit 0) h)"

section \<open>Allocation\<close>

text \<open>The loop of \<open>findGuestHeapBlockIndexLocked\<close> from index \<open>i\<close>; \<open>None\<close> is the result -1.\<close>

fun find_from :: "nat \<Rightarrow> u32 \<Rightarrow> heap_block list \<Rightarrow> nat option" where
  "find_from i a [] = None"
| "find_from i a (b # bs) = (if \<not> hb_free b \<and> hb_addr b = a then Some i else find_from (Suc i) a bs)"

definition findGuestHeapBlockIndexLocked :: "u32 \<Rightarrow> guest_heap \<Rightarrow> nat option" where
  "findGuestHeapBlockIndexLocked guestAddr h =
     find_from 0 (guestAddr AND PS2_RAM_MASK) (m_guestHeapBlocks h)"

text \<open>
  The loop body for one free block: the address, the end and the blocks that replace it, or
  \<open>None\<close> for the \<open>continue\<close>s.
\<close>

definition alloc_in :: "u32 \<Rightarrow> u32 \<Rightarrow> heap_block \<Rightarrow> (u32 \<times> u32 \<times> heap_block list) option" where
  "alloc_in allocSize alignment block =
     (let blockStart = ucast (hb_addr block) :: u64;
          blockEnd = blockStart + ucast (hb_size block)
      in if (ucast allocSize :: u64) > ucast (hb_size block) then None
         else let rawTop = blockEnd - ucast allocSize;
                  alignedStart = rawTop AND NOT (ucast alignment - 1)
              in if alignedStart < blockStart then None
                 else let alignedAddr = ucast alignedStart :: u32;
                          allocEnd = alignedStart + ucast allocSize;
                          prefixSize = ucast (alignedStart - blockStart) :: u32;
                          suffixSize = ucast (blockEnd - allocEnd) :: u32
                      in Some (alignedAddr, ucast allocEnd,
                           (if prefixSize > 0 then [\<lparr>hb_addr = hb_addr block, hb_size = prefixSize, hb_free = True\<rparr>] else [])
                         @ [\<lparr>hb_addr = alignedAddr, hb_size = allocSize, hb_free = False\<rparr>]
                         @ (if suffixSize > 0 then [\<lparr>hb_addr = ucast allocEnd, hb_size = suffixSize, hb_free = True\<rparr>] else [])))"

fun alloc_walk :: "u32 \<Rightarrow> u32 \<Rightarrow> heap_block list \<Rightarrow> (u32 \<times> u32 \<times> heap_block list) option" where
  "alloc_walk sz al [] = None"
| "alloc_walk sz al (b # bs) =
     (case (if hb_free b then alloc_in sz al b else None) of
        Some (a, e, repl) \<Rightarrow> Some (a, e, repl @ bs)
      | None \<Rightarrow> map_option (\<lambda>(a, e, bs'). (a, e, b # bs')) (alloc_walk sz al bs))"

definition allocateGuestBlockLocked :: "u32 \<Rightarrow> u32 \<Rightarrow> guest_heap \<Rightarrow> u32 \<times> guest_heap" where
  "allocateGuestBlockLocked sz alignment h =
     (if sz = 0 then (0, h)
      else let normalizedAlignment = normalizeGuestHeapAlignment alignment in
        if sz > u32_max - (kGuestHeapDefaultAlignment - 1) then (0, h)
        else let allocSize = alignGuestHeapValue sz kGuestHeapDefaultAlignment in
          if allocSize = 0 then (0, h)
          else case alloc_walk allocSize normalizedAlignment (m_guestHeapBlocks h) of
              None \<Rightarrow> (0, h)
            | Some (a, e, bs) \<Rightarrow> (a, h\<lparr>m_guestHeapBlocks := bs, m_guestHeapEnd := max (m_guestHeapEnd h) e\<rparr>))"

section \<open>Release\<close>

fun coalesce :: "heap_block list \<Rightarrow> heap_block list" where
  "coalesce (prev # nxt # rest) =
     (if hb_free prev \<and> hb_free nxt
         \<and> (ucast (hb_addr prev) + ucast (hb_size prev) :: u64) = ucast (hb_addr nxt)
      then coalesce (prev\<lparr>hb_size := hb_size prev + hb_size nxt\<rparr> # rest)
      else prev # coalesce (nxt # rest))"
| "coalesce bs = bs"

definition coalesceGuestHeapLocked :: "guest_heap \<Rightarrow> guest_heap" where
  "coalesceGuestHeapLocked h = h\<lparr>m_guestHeapBlocks := coalesce (m_guestHeapBlocks h)\<rparr>"

definition freeGuestBlockLocked :: "u32 \<Rightarrow> guest_heap \<Rightarrow> guest_heap" where
  "freeGuestBlockLocked guestAddr h = (case findGuestHeapBlockIndexLocked guestAddr h of
      None \<Rightarrow> h
    | Some i \<Rightarrow> coalesceGuestHeapLocked
        (h\<lparr>m_guestHeapBlocks := (m_guestHeapBlocks h)[i := (m_guestHeapBlocks h ! i)\<lparr>hb_free := True\<rparr>]\<rparr>))"

section \<open>Public operations\<close>

definition configureGuestHeap :: "u32 \<Rightarrow> u32 \<Rightarrow> guest_heap \<Rightarrow> guest_heap" where
  "configureGuestHeap guestBase guestLimit h =
     (let nb = alignGuestHeapValue (clampGuestHeapBase guestBase) kGuestHeapDefaultAlignment;
          nb = (if nb = 0 then (if m_guestHeapSuggestedBase h \<noteq> 0 then m_guestHeapSuggestedBase h
                                else kGuestHeapDefaultBase) else nb)
      in resetGuestHeapLocked nb guestLimit (h\<lparr>m_guestHeapSuggestedBase := nb\<rparr>))"

definition guestMalloc :: "u32 \<Rightarrow> u32 \<Rightarrow> guest_heap \<Rightarrow> u32 \<times> guest_heap" where
  "guestMalloc sz alignment h =
     allocateGuestBlockLocked sz alignment (ensureGuestHeapInitializedLocked h)"

definition heap_memset0 :: "u32 \<Rightarrow> u32 \<Rightarrow> bytes \<Rightarrow> bytes" where
  "heap_memset0 phys n m = (\<lambda>i. if unat phys \<le> i \<and> i < unat phys + unat n then 0 else m i)"

definition guestCalloc :: "u32 \<Rightarrow> u32 \<Rightarrow> u32 \<Rightarrow> guest_heap \<Rightarrow> u32 \<times> guest_heap" where
  "guestCalloc count sz alignment h =
     (if count = 0 \<or> sz = 0 then (0, h)
      else if count > u32_max div sz then (0, h)
      else let totalSize = count * sz;
               (guestAddr, h1) = guestMalloc totalSize alignment h
           in if guestAddr = 0 then (0, h1)
              else case m_rdram h1 of
                  None \<Rightarrow> (guestAddr, h1)
                | Some m \<Rightarrow>
                    let physAddr = guestAddr AND PS2_RAM_MASK in
                    if physAddr + totalSize \<le> PS2_RAM_SIZE
                    then (guestAddr, h1\<lparr>m_rdram := Some (heap_memset0 physAddr totalSize m)\<rparr>)
                    else (guestAddr, h1))"

definition guestFree :: "u32 \<Rightarrow> guest_heap \<Rightarrow> guest_heap" where
  "guestFree guestAddr h =
     (if guestAddr = 0 then h else freeGuestBlockLocked guestAddr (ensureGuestHeapInitializedLocked h))"

text \<open>\<open>memmove\<close> reads all source bytes before it writes.\<close>

definition heap_memmove :: "u32 \<Rightarrow> u32 \<Rightarrow> u32 \<Rightarrow> bytes \<Rightarrow> bytes" where
  "heap_memmove dst src n m = copy_in (unat dst) (copy_out m (unat src) (unat n)) m"

text \<open>Growing into the following free block: the new block list, or \<open>None\<close> if that is impossible.\<close>

definition grow_in_place :: "nat \<Rightarrow> u32 \<Rightarrow> heap_block list \<Rightarrow> heap_block list option" where
  "grow_in_place i requestedSize bs =
     (if Suc i < length bs then
        let b = bs ! i; nx = bs ! Suc i;
            blockEnd = ucast (hb_addr b) + ucast (hb_size b) :: u64
        in if hb_free nx \<and> blockEnd = ucast (hb_addr nx) then
             let combined = ucast (hb_size b) + ucast (hb_size nx) :: u64 in
             if combined \<ge> ucast requestedSize then
               let extraNeeded = requestedSize - hb_size b;
                   bs1 = bs[i := b\<lparr>hb_size := requestedSize\<rparr>]
               in if hb_size nx = extraNeeded then Some (take (Suc i) bs1 @ drop (Suc (Suc i)) bs1)
                  else Some (bs1[Suc i := nx\<lparr>hb_addr := hb_addr nx + extraNeeded,
                                              hb_size := hb_size nx - extraNeeded\<rparr>])
             else None
           else None
      else None)"

text \<open>The move to a new block, the last resort of \<open>guestRealloc\<close>.\<close>

definition move_block :: "u32 \<Rightarrow> u32 \<Rightarrow> u32 \<Rightarrow> u32 \<Rightarrow> guest_heap \<Rightarrow> u32 \<times> guest_heap" where
  "move_block oldAddr oldSize newSize al h =
     (let (newAddr, h1) = allocateGuestBlockLocked newSize al h in
      if newAddr = 0 then (0, h1)
      else let h2 = (case m_rdram h1 of
                None \<Rightarrow> h1
              | Some m \<Rightarrow>
                  let copyBytes = min oldSize newSize;
                      dstPhys = newAddr AND PS2_RAM_MASK;
                      srcPhys = oldAddr AND PS2_RAM_MASK
                  in if dstPhys + copyBytes \<le> PS2_RAM_SIZE \<and> srcPhys + copyBytes \<le> PS2_RAM_SIZE
                     then h1\<lparr>m_rdram := Some (heap_memmove dstPhys srcPhys copyBytes m)\<rparr>
                     else h1)
           in (newAddr, freeGuestBlockLocked oldAddr h2))"

definition guestRealloc :: "u32 \<Rightarrow> u32 \<Rightarrow> u32 \<Rightarrow> guest_heap \<Rightarrow> u32 \<times> guest_heap" where
  "guestRealloc guestAddr newSize alignment h =
     (if guestAddr = 0 then guestMalloc newSize alignment h
      else if newSize = 0 then (0, guestFree guestAddr h)
      else if newSize > u32_max - (kGuestHeapDefaultAlignment - 1) then (0, h)
      else let normalizedAlignment = normalizeGuestHeapAlignment alignment;
               requestedSize = alignGuestHeapValue newSize kGuestHeapDefaultAlignment;
               h = ensureGuestHeapInitializedLocked h
           in case findGuestHeapBlockIndexLocked guestAddr h of
               None \<Rightarrow> (0, h)
             | Some i \<Rightarrow>
                 let bs = m_guestHeapBlocks h; b = bs ! i; oldAddr = hb_addr b; oldSize = hb_size b in
                 if requestedSize \<le> oldSize then
                   if requestedSize < oldSize then
                     (oldAddr, coalesceGuestHeapLocked (h\<lparr>m_guestHeapBlocks :=
                        take i bs @ [b\<lparr>hb_size := requestedSize\<rparr>,
                          \<lparr>hb_addr = oldAddr + requestedSize, hb_size = oldSize - requestedSize, hb_free = True\<rparr>]
                        @ drop (Suc i) bs\<rparr>))
                   else (oldAddr, h)
                 else case grow_in_place i requestedSize bs of
                     Some bs' \<Rightarrow> (oldAddr, h\<lparr>m_guestHeapBlocks := bs',
                        m_guestHeapEnd := max (m_guestHeapEnd h) (oldAddr + requestedSize)\<rparr>)
                   | None \<Rightarrow> move_block oldAddr oldSize newSize normalizedAlignment h)"

definition guestHeapBase :: "guest_heap \<Rightarrow> u32" where
  "guestHeapBase h = (if m_guestHeapConfigured h then m_guestHeapBase h else m_guestHeapSuggestedBase h)"

definition guestHeapEnd :: "guest_heap \<Rightarrow> u32" where
  "guestHeapEnd h = (if m_guestHeapConfigured h then m_guestHeapEnd h else m_guestHeapSuggestedBase h)"

definition guestHeapLimit :: "guest_heap \<Rightarrow> u32" where
  "guestHeapLimit h = (if m_guestHeapConfigured h then m_guestHeapLimit h else m_guestHeapSuggestedBase h)"

section \<open>Power-of-two arithmetic\<close>

lemma nat_and_pred_power2:
  fixes n :: nat
  assumes "n > 0" "n AND (n - 1) = 0"
  shows "\<exists>k. n = 2 ^ k"
  using assms
proof (induction n rule: less_induct)
  case (less n)
  show ?case
  proof (cases "even n")
    case True
    then obtain m where m: "n = 2 * m" by blast
    with less.prems(1) have "m > 0" by simp
    then have pred: "2 * m - 1 = Suc (2 * (m - 1))" by simp
    have "2 * (m AND (m - 1)) = 2 * m AND (2 * m - 1)"
      unfolding pred by (subst (2) and_rec) simp
    with less.prems(2) m have "m AND (m - 1) = 0" by simp
    with less.IH [of m] \<open>m > 0\<close> m obtain k where "m = 2 ^ k" by auto
    with m have "n = 2 ^ Suc k" by simp
    then show ?thesis by blast
  next
    case False
    then obtain m where m: "n = Suc (2 * m)" by (auto elim: oddE)
    have "Suc (2 * m) AND 2 * m = 2 * m" by (subst and_rec) simp
    with less.prems(2) m have "n = 2 ^ 0" by simp
    then show ?thesis by blast
  qed
qed

lemma valid_alignment_power2:
  assumes "isGuestHeapAlignmentValid a"
  shows "\<exists>k. unat a = 2 ^ k \<and> k < 32"
proof -
  from assms have a: "a \<noteq> 0" "a AND (a - 1) = 0" by (simp_all add: isGuestHeapAlignmentValid_def)
  have "unat (a - 1) = unat a - 1" using a(1) by (simp add: unat_minus_one)
  moreover have "unat (a AND (a - 1)) = unat a AND unat (a - 1)" by (simp add: unsigned_and_eq)
  ultimately have "unat a AND (unat a - 1) = 0" using a(2) by simp
  with nat_and_pred_power2 [of "unat a"] a(1) obtain k where k: "unat a = 2 ^ k"
    by (auto simp: unat_gt_0)
  have "(2::nat) ^ k < 2 ^ 32" using unat_less_2p [of a] k by simp
  then have "k < 32" using nat_power_less_imp_less [of 2 k 32] by simp
  with k show ?thesis by blast
qed

lemma normalize_power2:
  "\<exists>k. unat (normalizeGuestHeapAlignment a) = 2 ^ k \<and> 4 \<le> k \<and> k < 32"
proof (cases "isGuestHeapAlignmentValid a")
  case True
  from valid_alignment_power2 [OF True] obtain k where k: "unat a = 2 ^ k" "k < 32" by blast
  show ?thesis
  proof (cases "a \<ge> 16")
    case True
    with k have "(2::nat) ^ 4 \<le> 2 ^ k" by (simp add: word_le_nat_alt)
    then have "4 \<le> k" by (rule power_le_imp_le_exp [rotated]) simp
    with k True \<open>isGuestHeapAlignmentValid a\<close> show ?thesis
      by (auto simp: normalizeGuestHeapAlignment_def kGuestHeapDefaultAlignment_def max_def intro!: exI [of _ k])
  next
    case False
    then have "a \<le> 16" by simp
    with \<open>isGuestHeapAlignmentValid a\<close> show ?thesis
      by (intro exI [of _ 4]) (simp add: normalizeGuestHeapAlignment_def kGuestHeapDefaultAlignment_def max_def)
  qed
next
  case False
  then show ?thesis
    by (intro exI [of _ 4]) (simp add: normalizeGuestHeapAlignment_def kGuestHeapDefaultAlignment_def)
qed

lemma unat_and_not_mask:
  fixes w :: "'a::len word"
  assumes "k < LENGTH('a)"
  shows "unat (w AND NOT (2 ^ k - 1)) = unat w div 2 ^ k * 2 ^ k"
proof -
  have "w AND NOT (2 ^ k - 1) = push_bit k (drop_bit k w)"
    by (rule bit_word_eqI) (auto simp: bit_simps simp flip: mask_eq_exp_minus_1)
  moreover have "unat (push_bit k (drop_bit k w)) = take_bit LENGTH('a) (push_bit k (drop_bit k (unat w)))"
    by (simp add: unsigned_push_bit_eq unsigned_drop_bit_eq take_bit_nat_eq_self)
  moreover have "push_bit k (drop_bit k (unat w)) = unat w div 2 ^ k * 2 ^ k"
    by (simp add: push_bit_eq_mult drop_bit_eq_div)
  moreover have "unat w div 2 ^ k * 2 ^ k < 2 ^ LENGTH('a)"
    using div_times_less_eq_dividend [of "unat w" "2 ^ k"] unat_less_2p [of w]
    by (meson le_less_trans)
  ultimately show ?thesis by (simp add: take_bit_nat_eq_self)
qed

text \<open>Rounding a size up to the default alignment, where it does not saturate.\<close>

lemma align16:
  assumes "unat v \<le> 2 ^ 32 - 16"
  shows "unat (alignGuestHeapValue v kGuestHeapDefaultAlignment) = (unat v + 15) div 16 * 16"
proof -
  have "\<not> v > u32_max - 15" using assms by (simp add: u32_max_def word_less_nat_alt)
  then have "alignGuestHeapValue v kGuestHeapDefaultAlignment = (v + 15) AND NOT (2 ^ 4 - 1)"
    by (simp add: alignGuestHeapValue_def kGuestHeapDefaultAlignment_def)
  moreover have "unat (v + 15) = unat v + 15" using assms by (simp add: unat_word_ariths)
  ultimately show ?thesis using unat_and_not_mask [of 4 "v + 15"] by simp
qed

section \<open>Placing a block\<close>

abbreviation b_start :: "heap_block \<Rightarrow> nat" where "b_start b \<equiv> unat (hb_addr b)"
abbreviation b_len :: "heap_block \<Rightarrow> nat" where "b_len b \<equiv> unat (hb_size b)"

definition top_start :: "nat \<Rightarrow> nat \<Rightarrow> heap_block \<Rightarrow> nat" where
  "top_start n k b = (b_start b + b_len b - n) div 2 ^ k * 2 ^ k"

lemma unat_ucast64 [simp]: "unat (ucast (w :: u32) :: u64) = unat w"
  using unat_less_2p [of w] by (simp add: unsigned_ucast_eq take_bit_nat_eq_self)

lemma unat_ucast32: "unat (w :: u64) < 2 ^ 32 \<Longrightarrow> unat (ucast w :: u32) = unat w"
  by (simp add: unsigned_ucast_eq take_bit_nat_eq_self)

lemma unat_plus_simple: "unat (a :: 'a::len word) + unat b < 2 ^ LENGTH('a) \<Longrightarrow> unat (a + b) = unat a + unat b"
  by (simp add: unat_word_ariths)

lemma unat_minus_simple: "unat b \<le> unat a \<Longrightarrow> unat (a - b :: 'a::len word) = unat a - unat b"
  by (simp add: unat_sub word_le_nat_alt)

text \<open>The 64-bit quantities of the loop body as natural numbers.\<close>

lemma alloc_in_words:
  fixes b :: heap_block and sz :: u32
  assumes fit: "unat sz \<le> b_len b" and al: "unat al = 2 ^ k" "k < 32"
  defines "bend \<equiv> ucast (hb_addr b) + ucast (hb_size b) :: u64"
  defines "st \<equiv> (bend - ucast sz) AND NOT (ucast al - 1)"
  shows "unat bend = b_start b + b_len b" "unat st = top_start (unat sz) k b"
    "unat (st + ucast sz) = top_start (unat sz) k b + unat sz"
    "top_start (unat sz) k b + unat sz \<le> b_start b + b_len b"
proof -
  have lt: "b_start b < 2 ^ 32" "b_len b < 2 ^ 32" using unat_less_2p [of "hb_addr b"] unat_less_2p [of "hb_size b"] by simp_all
  then show e: "unat bend = b_start b + b_len b" unfolding bend_def by (subst unat_plus_simple) simp_all
  have "ucast al = (2 ^ k :: u64)"
    using al(1) by (metis of_nat_numeral of_nat_power of_nat_unat)
  moreover have "unat (bend - ucast sz) = b_start b + b_len b - unat sz"
    using fit by (subst unat_minus_simple) (simp_all add: e)
  ultimately show t: "unat st = top_start (unat sz) k b"
    unfolding st_def top_start_def using al(2) unat_and_not_mask [of k "bend - ucast sz"] by simp
  show le: "top_start (unat sz) k b + unat sz \<le> b_start b + b_len b"
    unfolding top_start_def
    using fit div_times_less_eq_dividend [of "b_start b + b_len b - unat sz" "2 ^ k"] by linarith
  with lt show "unat (st + ucast sz) = top_start (unat sz) k b + unat sz"
    by (subst unat_plus_simple) (simp_all add: t)
qed

definition free_piece :: "nat \<Rightarrow> nat \<Rightarrow> heap_block list \<Rightarrow> bool" where
  "free_piece a n bs \<longleftrightarrow> (if n = 0 then bs = []
     else \<exists>b. bs = [b] \<and> hb_free b \<and> b_start b = a \<and> b_len b = n)"

lemma alloc_in_None:
  assumes "unat al = 2 ^ k" "k < 32"
  shows "alloc_in sz al b = None \<longleftrightarrow> \<not> (unat sz \<le> b_len b \<and> b_start b \<le> top_start (unat sz) k b)"
proof (cases "unat sz \<le> b_len b")
  case True
  with alloc_in_words [OF True assms] show ?thesis
    by (simp add: alloc_in_def Let_def word_less_nat_alt not_less)
next
  case False
  then show ?thesis by (simp add: alloc_in_def Let_def word_less_nat_alt)
qed

lemma alloc_in_Some:
  assumes al: "unat al = 2 ^ k" "k < 32" and fits: "b_start b + b_len b \<le> 2 ^ 31"
    and res: "alloc_in sz al b = Some (a, e, repl)"
  shows "unat a = top_start (unat sz) k b" "unat e = unat a + unat sz" "b_start b \<le> unat a"
    "unat a + unat sz \<le> b_start b + b_len b"
    "\<exists>pre suf. repl = pre @ \<lparr>hb_addr = a, hb_size = sz, hb_free = False\<rparr> # suf
       \<and> free_piece (b_start b) (unat a - b_start b) pre
       \<and> free_piece (unat a + unat sz) (b_start b + b_len b - (unat a + unat sz)) suf"
proof -
  from res alloc_in_None [OF al, of sz b] have ok: "unat sz \<le> b_len b" "b_start b \<le> top_start (unat sz) k b" by auto
  note w = alloc_in_words [OF ok(1) al]
  let ?bend = "ucast (hb_addr b) + ucast (hb_size b) :: u64"
  let ?st = "(?bend - ucast sz) AND NOT (ucast al - 1)"
  let ?pre = "ucast (?st - ucast (hb_addr b)) :: u32"
  let ?suf = "ucast (?bend - (?st + ucast sz)) :: u32"
  have pre: "unat ?pre = unat ?st - b_start b" and suf: "unat ?suf = b_start b + b_len b - unat (?st + ucast sz)"
    and ua: "unat (ucast ?st :: u32) = top_start (unat sz) k b"
    and ue: "unat (ucast (?st + ucast sz) :: u32) = top_start (unat sz) k b + unat sz"
    using ok w fits by (simp_all add: unat_ucast32 unat_minus_simple)
  have r: "a = ucast ?st" "e = ucast (?st + ucast sz)"
    "repl = (if ?pre > 0 then [\<lparr>hb_addr = hb_addr b, hb_size = ?pre, hb_free = True\<rparr>] else [])
       @ [\<lparr>hb_addr = a, hb_size = sz, hb_free = False\<rparr>]
       @ (if ?suf > 0 then [\<lparr>hb_addr = e, hb_size = ?suf, hb_free = True\<rparr>] else [])"
    using res by (auto simp: alloc_in_def Let_def split: if_splits)
  show a: "unat a = top_start (unat sz) k b" and "unat e = unat a + unat sz" "b_start b \<le> unat a"
    "unat a + unat sz \<le> b_start b + b_len b"
    using r(1,2) ua ue ok(2) w(4) by simp_all
  have "free_piece (b_start b) (unat a - b_start b) (if ?pre > 0 then [\<lparr>hb_addr = hb_addr b, hb_size = ?pre, hb_free = True\<rparr>] else [])"
    using pre a w(2) by (auto simp: free_piece_def word_less_nat_alt)
  moreover have "free_piece (unat a + unat sz) (b_start b + b_len b - (unat a + unat sz))
      (if ?suf > 0 then [\<lparr>hb_addr = e, hb_size = ?suf, hb_free = True\<rparr>] else [])"
    using suf a w(3) ue r(2) by (auto simp: free_piece_def word_less_nat_alt)
  ultimately show "\<exists>pre suf. repl = pre @ \<lparr>hb_addr = a, hb_size = sz, hb_free = False\<rparr> # suf
       \<and> free_piece (b_start b) (unat a - b_start b) pre
       \<and> free_piece (unat a + unat sz) (b_start b + b_len b - (unat a + unat sz)) suf"
    unfolding r(3) by (metis append_Cons append_Nil)
qed

section \<open>The tiling invariant\<close>

fun tiles :: "nat \<Rightarrow> nat \<Rightarrow> heap_block list \<Rightarrow> bool" where
  "tiles a z [] \<longleftrightarrow> a = z"
| "tiles a z (b # bs) \<longleftrightarrow> b_start b = a \<and> b_len b > 0 \<and> tiles (a + b_len b) z bs"

fun no_adjacent_free :: "heap_block list \<Rightarrow> bool" where
  "no_adjacent_free (a # b # bs) \<longleftrightarrow> \<not> (hb_free a \<and> hb_free b) \<and> no_adjacent_free (b # bs)"
| "no_adjacent_free bs \<longleftrightarrow> True"

definition aligned_blocks :: "heap_block list \<Rightarrow> bool" where
  "aligned_blocks bs \<longleftrightarrow> (\<forall>b \<in> set bs. 16 dvd b_start b \<and> (\<not> hb_free b \<longrightarrow> 16 dvd b_len b))"

definition heap_inv :: "guest_heap \<Rightarrow> bool" where
  "heap_inv h \<longleftrightarrow> m_guestHeapSuggestedBase h \<noteq> 0 \<and> m_guestHeapSuggestedBase h \<le> kGuestHeapHardLimit
     \<and> (m_guestHeapConfigured h \<longrightarrow>
          tiles (unat (m_guestHeapBase h)) (unat (m_guestHeapLimit h)) (m_guestHeapBlocks h)
        \<and> unat (m_guestHeapLimit h) \<le> unat kGuestHeapHardLimit
        \<and> (m_guestHeapBlocks h \<noteq> [] \<longrightarrow> m_guestHeapBase h \<noteq> 0)
        \<and> aligned_blocks (m_guestHeapBlocks h) \<and> no_adjacent_free (m_guestHeapBlocks h)
        \<and> m_guestHeapBase h \<le> m_guestHeapEnd h \<and> m_guestHeapEnd h \<le> m_guestHeapLimit h)"

text \<open>The allocated regions, as pairs of address and size.\<close>

definition regions :: "heap_block list \<Rightarrow> (nat \<times> nat) set" where
  "regions bs = (\<lambda>b. (b_start b, b_len b)) ` {b \<in> set bs. \<not> hb_free b}"

lemma regions_simps [simp]:
  "regions [] = {}" "regions (b # bs) = (if hb_free b then {} else {(b_start b, b_len b)}) \<union> regions bs"
  "regions (as @ bs) = regions as \<union> regions bs"
  by (auto simp: regions_def)

lemma tiles_append: "tiles a z (as @ bs) \<longleftrightarrow> (\<exists>m. tiles a m as \<and> tiles m z bs)"
  by (induction as arbitrary: a) auto

lemma tiles_le: "tiles a z bs \<Longrightarrow> a \<le> z"
  by (induction bs arbitrary: a) fastforce+

lemma tiles_bounds: "tiles a z bs \<Longrightarrow> b \<in> set bs \<Longrightarrow> a \<le> b_start b \<and> b_start b + b_len b \<le> z \<and> b_len b > 0"
  by (induction bs arbitrary: a) (auto dest: tiles_le, fastforce+)

lemma tiles_regions: "tiles a z bs \<Longrightarrow> (x, n) \<in> regions bs \<Longrightarrow> a \<le> x \<and> x + n \<le> z \<and> n > 0"
  by (auto simp: regions_def dest: tiles_bounds)

lemma tiles_disjoint:
  assumes "tiles a z bs" "(x, n) \<in> regions bs" "(y, m) \<in> regions bs" "(x, n) \<noteq> (y, m)"
  shows "x + n \<le> y \<or> y + m \<le> x"
  using assms
proof (induction bs arbitrary: a)
  case (Cons b bs)
  then show ?case
    using tiles_regions [of "a + b_len b" z bs x n] tiles_regions [of "a + b_len b" z bs y m]
    by (auto split: if_splits)
qed simp

lemma free_piece_tiles: "free_piece a n bs \<Longrightarrow> tiles a (a + n) bs"
  by (auto simp: free_piece_def split: if_splits)

lemma free_piece_regions: "free_piece a n bs \<Longrightarrow> regions bs = {}"
  by (auto simp: free_piece_def split: if_splits)

lemma free_piece_free: "free_piece a n bs \<Longrightarrow> b \<in> set bs \<Longrightarrow> hb_free b \<and> b_start b = a"
  by (auto simp: free_piece_def split: if_splits)

lemma no_adjacent_free_append:
  "no_adjacent_free (as @ bs) \<longleftrightarrow> no_adjacent_free as \<and> no_adjacent_free bs
     \<and> (as \<noteq> [] \<longrightarrow> bs \<noteq> [] \<longrightarrow> \<not> (hb_free (last as) \<and> hb_free (hd bs)))"
  by (induction as rule: no_adjacent_free.induct) (cases bs; auto)+

lemma aligned_blocks_simps [simp]:
  "aligned_blocks []"
  "aligned_blocks (b # bs) \<longleftrightarrow> 16 dvd b_start b \<and> (\<not> hb_free b \<longrightarrow> 16 dvd b_len b) \<and> aligned_blocks bs"
  "aligned_blocks (as @ bs) \<longleftrightarrow> aligned_blocks as \<and> aligned_blocks bs"
  by (auto simp: aligned_blocks_def)

section \<open>Allocation keeps the invariant\<close>

lemma alloc_walk_Some:
  "alloc_walk sz al bs = Some (a, e, bs') \<Longrightarrow>
     \<exists>p b q repl. bs = p @ b # q \<and> hb_free b \<and> alloc_in sz al b = Some (a, e, repl) \<and> bs' = p @ repl @ q"
proof (induction bs arbitrary: bs')
  case (Cons c bs)
  show ?case
  proof (cases "if hb_free c then alloc_in sz al c else None")
    case None
    with Cons.prems obtain bs1 where "alloc_walk sz al bs = Some (a, e, bs1)" "bs' = c # bs1"
      by (auto simp del: if_split_asm)
    with Cons.IH [of bs1] show ?thesis by (metis append_Cons)
  next
    case (Some r)
    with Cons.prems show ?thesis by (cases r) (auto split: if_splits intro!: exI [of _ "[]"])
  qed
qed simp

lemma alloc_walk_None:
  "alloc_walk sz al bs = None \<longleftrightarrow> (\<forall>b \<in> set bs. hb_free b \<longrightarrow> alloc_in sz al b = None)"
  by (induction bs) (auto split: option.split)

text \<open>The blocks that replace a free block still tile it; only the new region is added.\<close>

lemma alloc_pieces:
  assumes al: "unat al = 2 ^ k" "4 \<le> k" "k < 32" and sz: "unat sz > 0" "16 dvd unat sz"
    and b: "b_start b + b_len b \<le> 2 ^ 31" "16 dvd b_start b"
    and res: "alloc_in sz al b = Some (a, e, repl)"
  shows "tiles (b_start b) (b_start b + b_len b) repl" "regions repl = {(unat a, unat sz)}"
    "aligned_blocks repl" "no_adjacent_free repl" "repl \<noteq> []" "16 dvd unat a" "2 ^ k dvd unat a"
proof -
  note r = alloc_in_Some [OF al(1,3) b(1) res]
  from r(5) obtain pre suf where repl: "repl = pre @ \<lparr>hb_addr = a, hb_size = sz, hb_free = False\<rparr> # suf"
    and pre: "free_piece (b_start b) (unat a - b_start b) pre"
    and suf: "free_piece (unat a + unat sz) (b_start b + b_len b - (unat a + unat sz)) suf" by blast
  show dvd: "2 ^ k dvd unat a" by (simp add: r(1) top_start_def)
  have "(2::nat) ^ 4 dvd 2 ^ k" using al(2) by (rule le_imp_power_dvd)
  with dvd show d16: "16 dvd unat a" by (simp add: dvd_trans [of 16 "2 ^ k"])
  show "tiles (b_start b) (b_start b + b_len b) repl"
    using free_piece_tiles [OF pre] free_piece_tiles [OF suf] r(3,4) sz(1)
    by (auto simp: repl tiles_append)
  show "regions repl = {(unat a, unat sz)}"
    by (simp add: repl free_piece_regions [OF pre] free_piece_regions [OF suf])
  have "aligned_blocks pre" "aligned_blocks suf"
    using b(2) d16 sz(2) free_piece_free [OF pre] free_piece_free [OF suf] by (auto simp: aligned_blocks_def)
  with d16 sz(2) show "aligned_blocks repl" by (simp add: repl)
  have "no_adjacent_free pre" "no_adjacent_free suf"
    using pre suf by (auto simp: free_piece_def split: if_splits)
  then show "no_adjacent_free repl" unfolding repl
    by (cases suf) (auto simp: no_adjacent_free_append)
  show "repl \<noteq> []" by (simp add: repl)
qed

lemma alloc_walk_inv:
  assumes al: "unat al = 2 ^ k" "4 \<le> k" "k < 32" and sz: "unat sz > 0" "16 dvd unat sz"
    and inv: "tiles lo hi bs" "hi \<le> 2 ^ 31" "aligned_blocks bs" "no_adjacent_free bs"
    and res: "alloc_walk sz al bs = Some (a, e, bs')"
  shows "tiles lo hi bs'" "regions bs' = insert (unat a, unat sz) (regions bs)"
    "aligned_blocks bs'" "no_adjacent_free bs'" "(unat a, unat sz) \<notin> regions bs" "2 ^ k dvd unat a"
    "lo \<le> unat a" "unat e = unat a + unat sz" "unat e \<le> hi"
proof -
  from alloc_walk_Some [OF res] obtain p b q repl where
    bs: "bs = p @ b # q" "hb_free b" and r: "alloc_in sz al b = Some (a, e, repl)" "bs' = p @ repl @ q" by blast
  have bin: "b \<in> set bs" using bs by simp
  have bb: "b_start b + b_len b \<le> 2 ^ 31" "16 dvd b_start b"
    using tiles_bounds [OF inv(1) bin] inv(2,3) bin by (auto simp: aligned_blocks_def)
  note pc = alloc_pieces [OF al sz bb r(1)]
  note w = alloc_in_Some [OF al(1,3) bb(1) r(1)]
  from inv(1) bs have t: "tiles lo (b_start b) p" "tiles (b_start b + b_len b) hi q"
    by (auto simp: tiles_append)
  with pc(1) show t': "tiles lo hi bs'" by (auto simp: r(2) tiles_append)
  show regs: "regions bs' = insert (unat a, unat sz) (regions bs)"
    using pc(2) bs by (auto simp: r(2))
  show "aligned_blocks bs'" using pc(3) inv(3) bs by (simp add: r(2))
  have "no_adjacent_free p" "no_adjacent_free q" and pb: "p \<noteq> [] \<longrightarrow> \<not> hb_free (last p)"
    and bq: "q \<noteq> [] \<longrightarrow> \<not> hb_free (hd q)"
    using inv(4) bs by (auto simp: no_adjacent_free_append [of p] no_adjacent_free_append [of "[b]" q, simplified])
  with pc(4,5) show "no_adjacent_free bs'" by (auto simp: r(2) no_adjacent_free_append)
  have "unat a + unat sz \<le> b_start b + b_len b" "b_start b \<le> unat a" using w by simp_all
  then show "(unat a, unat sz) \<notin> regions bs"
    using t sz(1) bs tiles_regions [OF t(1)] tiles_regions [OF t(2)] by fastforce
  show "2 ^ k dvd unat a" by (rule pc(7))
  show "lo \<le> unat a" using w(3) tiles_le [OF t(1)] by simp
  show "unat e = unat a + unat sz" by (rule w(2))
  with w(4) tiles_le [OF t(2)] show "unat e \<le> hi" by simp
qed

section \<open>Coalescing\<close>

lemma coalesce_head:
  "\<exists>c bs'. coalesce (b # bs) = c # bs' \<and> hb_free c = hb_free b \<and> hb_addr c = hb_addr b"
proof (induction bs arbitrary: b)
  case (Cons n bs)
  show ?case
    using Cons.IH [of "b\<lparr>hb_size := hb_size b + hb_size n\<rparr>"] by auto
qed simp

lemma tiles_next_addr:
  assumes "tiles a z (b # n # bs)" "z \<le> 2 ^ 31"
  shows "(ucast (hb_addr b) + ucast (hb_size b) :: u64) = ucast (hb_addr n)"
    and "unat (hb_size b + hb_size n) = b_len b + b_len n"
proof -
  from assms have n: "b_start n = b_start b + b_len b" and le: "b_start n + b_len n \<le> 2 ^ 31"
    using tiles_le [of "a + b_len b + b_len n" z bs] by auto
  then have "unat (ucast (hb_addr b) + ucast (hb_size b) :: u64) = unat (ucast (hb_addr n) :: u64)"
    by (subst unat_plus_simple) simp_all
  then show "(ucast (hb_addr b) + ucast (hb_size b) :: u64) = ucast (hb_addr n)"
    by (simp add: word_unat_eq_iff)
  show "unat (hb_size b + hb_size n) = b_len b + b_len n"
    using n le by (intro unat_plus_simple) simp
qed

lemma coalesce_inv:
  "tiles a z bs \<Longrightarrow> z \<le> 2 ^ 31 \<Longrightarrow> tiles a z (coalesce bs) \<and> regions (coalesce bs) = regions bs
     \<and> no_adjacent_free (coalesce bs)"
proof (induction bs arbitrary: a rule: coalesce.induct)
  case (1 b n rest)
  let ?m = "b\<lparr>hb_size := hb_size b + hb_size n\<rparr>"
  note nx = tiles_next_addr [OF "1.prems"]
  show ?case
  proof (cases "hb_free b \<and> hb_free n")
    case True
    with nx "1.prems" have "tiles a z (?m # rest)" by (auto simp: add.assoc)
    with "1.IH"(1) True nx(1) "1.prems"(2) show ?thesis by simp
  next
    case False
    from "1.prems" have "tiles (a + b_len b) z (n # rest)" by simp
    from "1.IH"(2) [OF _ this "1.prems"(2)] False have
      ih: "tiles (a + b_len b) z (coalesce (n # rest))" "regions (coalesce (n # rest)) = regions (n # rest)"
        "no_adjacent_free (coalesce (n # rest))" by auto
    obtain c cs where c: "coalesce (n # rest) = c # cs" "hb_free c = hb_free n"
      using coalesce_head by blast
    with False ih "1.prems" show ?thesis by auto
  qed
qed auto

lemma coalesce_aligned: "aligned_blocks bs \<Longrightarrow> aligned_blocks (coalesce bs)"
  by (induction bs rule: coalesce.induct) auto

lemma coalesce_id: "no_adjacent_free bs \<Longrightarrow> coalesce bs = bs"
  by (induction bs rule: coalesce.induct) auto

lemma coalesce_prefix:
  "no_adjacent_free p \<Longrightarrow> p \<noteq> [] \<longrightarrow> \<not> hb_free (last p) \<Longrightarrow> coalesce (p @ c) = p @ coalesce c"
proof (induction p)
  case (Cons x p)
  show ?case
  proof (cases p)
    case Nil
    with Cons.prems show ?thesis by (cases c) auto
  next
    case (Cons y p')
    with Cons.IH Cons.prems show ?thesis by auto
  qed
qed simp

text \<open>A run of free pieces that tile one free block coalesces back into it.\<close>

lemma coalesce_merge:
  assumes "tiles a (a + n) fs" "\<forall>b \<in> set fs. hb_free b" "fs \<noteq> []" "a + n \<le> 2 ^ 31"
    and q: "tiles (a + n) z q" "z \<le> 2 ^ 31" "no_adjacent_free q" "q \<noteq> [] \<longrightarrow> \<not> hb_free (hd q)"
  shows "\<exists>b. coalesce (fs @ q) = b # q \<and> b_start b = a \<and> b_len b = n \<and> hb_free b"
  using assms(1-3)
proof (induction "length fs" arbitrary: fs rule: less_induct)
  case less
  from less.prems(3) obtain b fs' where fs: "fs = b # fs'" by (cases fs) auto
  show ?case
  proof (cases fs')
    case Nil
    with fs less.prems q(3,4) have "no_adjacent_free (b # q)"
      using no_adjacent_free_append [of "[b]" q] by simp
    with fs Nil less.prems show ?thesis by (auto simp: coalesce_id)
  next
    case (Cons c fs'')
    have t: "tiles a z (b # c # fs'' @ q)" using less.prems(1) q(1) fs Cons tiles_append [of a z fs q] by auto
    note nx = tiles_next_addr [OF t q(2)]
    let ?m = "b\<lparr>hb_size := hb_size b + hb_size c\<rparr>"
    have "tiles a (a + n) (?m # fs'')" using less.prems(1) fs Cons nx(2) by (auto simp: add.assoc)
    with less.hyps [of "?m # fs''"] less.prems(2) fs Cons obtain b' where
      "coalesce ((?m # fs'') @ q) = b' # q" "b_start b' = a" "b_len b' = n" "hb_free b'" by auto
    with fs Cons nx(1) less.prems(2) show ?thesis by auto
  qed
qed

section \<open>Finding and freeing\<close>

lemma find_from_Some:
  "find_from i a bs = Some j \<Longrightarrow> \<exists>p b q. bs = p @ b # q \<and> j = i + length p \<and> \<not> hb_free b \<and> hb_addr b = a"
proof (induction bs arbitrary: i)
  case (Cons c bs)
  show ?case
  proof (cases "\<not> hb_free c \<and> hb_addr c = a")
    case True
    with Cons.prems show ?thesis by (intro exI [of _ "[]"]) auto
  next
    case False
    with Cons.prems have "find_from (Suc i) a bs = Some j" by auto
    from Cons.IH [OF this] show ?thesis by (metis add_Suc_shift append_Cons length_Cons)
  qed
qed simp

lemma find_from_None: "find_from i a bs = None \<longleftrightarrow> (\<forall>b \<in> set bs. \<not> hb_free b \<longrightarrow> hb_addr b \<noteq> a)"
  by (induction bs arbitrary: i) auto

lemma find_from_unique:
  assumes "tiles lo hi (p @ b # q)" "\<not> hb_free b"
  shows "find_from i (hb_addr b) (p @ b # q) = Some (i + length p)"
  using assms(1)
proof (induction p arbitrary: i lo)
  case (Cons c p)
  from Cons.prems have "b_start c < b_start b"
    using tiles_bounds [of "lo + b_len c" hi "p @ b # q" b] by auto
  with Cons show ?case by auto
qed (use assms(2) in simp)

text \<open>The block list after freeing the block at position \<open>p\<close>.\<close>

lemma free_at_inv:
  assumes inv: "tiles lo hi (p @ b # q)" "hi \<le> 2 ^ 31" "aligned_blocks (p @ b # q)" and nf: "\<not> hb_free b"
  defines "bs' \<equiv> coalesce (p @ b\<lparr>hb_free := True\<rparr> # q)"
  shows "tiles lo hi bs'" "no_adjacent_free bs'" "aligned_blocks bs'"
    "regions bs' = regions (p @ b # q) - {(b_start b, b_len b)}"
proof -
  have t: "tiles lo hi (p @ b\<lparr>hb_free := True\<rparr> # q)" using inv(1) by (simp add: tiles_append)
  from coalesce_inv [OF t inv(2)] show "tiles lo hi bs'" "no_adjacent_free bs'" by (simp_all add: bs'_def)
  have "regions bs' = regions p \<union> regions q" using coalesce_inv [OF t inv(2)] by (simp add: bs'_def)
  moreover from inv(1) have "tiles lo (b_start b) p" "tiles (b_start b + b_len b) hi q" "b_len b > 0"
    by (auto simp: tiles_append)
  then have "(b_start b, b_len b) \<notin> regions p \<union> regions q"
    using tiles_regions [of lo "b_start b" p] tiles_regions [of "b_start b + b_len b" hi q] by fastforce
  ultimately show "regions bs' = regions (p @ b # q) - {(b_start b, b_len b)}" using nf by auto
  show "aligned_blocks bs'" unfolding bs'_def using inv(3) by (intro coalesce_aligned) simp
qed

section \<open>The invariant of the heap object\<close>

lemma hard_limit: "min kGuestHeapHardLimit PS2_RAM_SIZE = 0x01F00000"
  by (simp add: kGuestHeapHardLimit_def ram_defs min_def)

lemma clamp_base_le: "unat (clampGuestHeapBase g) \<le> 0x01F00000"
proof -
  have "clampGuestHeapBase g \<le> 0x01F00000" by (simp add: clampGuestHeapBase_def Let_def hard_limit)
  then show ?thesis by (simp add: word_le_nat_alt)
qed

lemma clamp_base_id: "g \<le> kGuestHeapHardLimit \<Longrightarrow> clampGuestHeapBase g = g"
  by (auto simp: clampGuestHeapBase_def Let_def hard_limit kGuestHeapHardLimit_def ram_defs min_def
      word_le_nat_alt)

lemma clamp_limit_le: "unat (clampGuestHeapLimit g) \<le> 0x01F00000"
  by (auto simp: clampGuestHeapLimit_def Let_def hard_limit not_less word_le_nat_alt)

lemma align_clamp:
  "unat (alignGuestHeapValue (clampGuestHeapBase g) kGuestHeapDefaultAlignment) \<le> 0x01F00000"
  "16 dvd unat (alignGuestHeapValue (clampGuestHeapBase g) kGuestHeapDefaultAlignment)"
proof -
  have "unat (clampGuestHeapBase g) \<le> 2 ^ 32 - 16" using clamp_base_le [of g] by simp
  note a = align16 [OF this]
  show "16 dvd unat (alignGuestHeapValue (clampGuestHeapBase g) kGuestHeapDefaultAlignment)" by (simp add: a)
  have "(unat (clampGuestHeapBase g) + 15) div 16 \<le> (0x01F00000 + 15) div 16"
    using clamp_base_le [of g] by (intro div_le_mono) simp
  then show "unat (alignGuestHeapValue (clampGuestHeapBase g) kGuestHeapDefaultAlignment) \<le> 0x01F00000"
    by (simp add: a)
qed

lemma align_nonzero:
  assumes "g \<noteq> 0" "g \<le> kGuestHeapHardLimit"
  shows "alignGuestHeapValue (clampGuestHeapBase g) kGuestHeapDefaultAlignment \<noteq> 0"
proof -
  have le: "unat g \<le> 2 ^ 32 - 16" using assms(2) by (simp add: word_le_nat_alt kGuestHeapHardLimit_def)
  have "unat g > 0" using assms(1) by (simp add: unat_gt_0)
  then have "(unat g + 15) div 16 * 16 \<noteq> 0" by (simp add: div_eq_0_iff)
  with align16 [OF le] show ?thesis by (auto simp: clamp_base_id [OF assms(2)])
qed

text \<open>A fresh heap is one free block, or empty when the bounds leave no room.\<close>

lemma heap_inv_single:
  assumes "m_guestHeapSuggestedBase h \<noteq> 0" "m_guestHeapSuggestedBase h \<le> kGuestHeapHardLimit"
    and "base \<noteq> 0" "16 dvd unat base" "base < limit" "unat limit \<le> 0x01F00000"
  shows "heap_inv (h\<lparr>m_guestHeapBlocks := [\<lparr>hb_addr = base, hb_size = limit - base, hb_free = True\<rparr>],
      m_guestHeapBase := base, m_guestHeapEnd := base, m_guestHeapLimit := limit, m_guestHeapConfigured := True\<rparr>)"
  using assms by (simp add: heap_inv_def unat_minus_simple word_less_nat_alt kGuestHeapHardLimit_def word_le_nat_alt)

lemma heap_inv_empty:
  assumes "m_guestHeapSuggestedBase h \<noteq> 0" "m_guestHeapSuggestedBase h \<le> kGuestHeapHardLimit"
  shows "heap_inv (h\<lparr>m_guestHeapBlocks := [], m_guestHeapBase := 0, m_guestHeapEnd := 0,
      m_guestHeapLimit := 0, m_guestHeapConfigured := True\<rparr>)"
  using assms by (simp add: heap_inv_def)

lemma resetGuestHeapLocked_inv:
  assumes s: "m_guestHeapSuggestedBase h \<noteq> 0" "m_guestHeapSuggestedBase h \<le> kGuestHeapHardLimit"
  shows "heap_inv (resetGuestHeapLocked guestBase guestLimit h)"
    "m_guestHeapConfigured (resetGuestHeapLocked guestBase guestLimit h)"
proof -
  let ?A = "\<lambda>g. alignGuestHeapValue (clampGuestHeapBase g) kGuestHeapDefaultAlignment"
  let ?s = "m_guestHeapSuggestedBase h"
  define base where "base = (if ?A guestBase = 0 then ?A ?s else ?A guestBase)"
  define bl where "bl = (if clampGuestHeapLimit guestLimit \<le> base then (?A ?s, clampGuestHeapLimit 0)
                         else (base, clampGuestHeapLimit guestLimit))"
  have nz: "?A ?s \<noteq> 0" using align_nonzero [OF s] .
  then have b: "base \<noteq> 0" "16 dvd unat base" by (auto simp: base_def align_clamp)
  have bl: "fst bl \<noteq> 0" "16 dvd unat (fst bl)" "unat (snd bl) \<le> 0x01F00000"
    using nz b by (auto simp: bl_def align_clamp clamp_limit_le)
  have r: "resetGuestHeapLocked guestBase guestLimit h =
     (if snd bl \<le> fst bl
      then h\<lparr>m_guestHeapBlocks := [], m_guestHeapBase := 0, m_guestHeapEnd := 0, m_guestHeapLimit := 0,
             m_guestHeapConfigured := True\<rparr>
      else h\<lparr>m_guestHeapBlocks := [\<lparr>hb_addr = fst bl, hb_size = snd bl - fst bl, hb_free = True\<rparr>],
             m_guestHeapBase := fst bl, m_guestHeapEnd := fst bl, m_guestHeapLimit := snd bl,
             m_guestHeapConfigured := True\<rparr>)"
    unfolding resetGuestHeapLocked_def Let_def bl_def base_def using s(1) by (simp split: if_split)
  show "heap_inv (resetGuestHeapLocked guestBase guestLimit h)"
    unfolding r using heap_inv_empty [OF s] heap_inv_single [OF s bl(1,2) _ bl(3)]
    by (simp add: not_le)
  show "m_guestHeapConfigured (resetGuestHeapLocked guestBase guestLimit h)" by (simp add: r)
qed

lemma ensure_inv:
  assumes "heap_inv h"
  shows "heap_inv (ensureGuestHeapInitializedLocked h)" "m_guestHeapConfigured (ensureGuestHeapInitializedLocked h)"
  using assms resetGuestHeapLocked_inv [of h]
  by (auto simp: ensureGuestHeapInitializedLocked_def Let_def heap_inv_def)

lemma ensure_id: "m_guestHeapConfigured h \<Longrightarrow> ensureGuestHeapInitializedLocked h = h"
  by (simp add: ensureGuestHeapInitializedLocked_def)

lemma configureGuestHeap_inv:
  assumes "heap_inv h" shows "heap_inv (configureGuestHeap guestBase guestLimit h)"
proof -
  let ?nb = "alignGuestHeapValue (clampGuestHeapBase guestBase) kGuestHeapDefaultAlignment"
  have "?nb \<le> kGuestHeapHardLimit" using align_clamp(1) [of guestBase]
    by (simp add: word_le_nat_alt kGuestHeapHardLimit_def)
  with assms show ?thesis unfolding configureGuestHeap_def Let_def
    by (intro resetGuestHeapLocked_inv) (auto simp: heap_inv_def)
qed

definition heap_regions :: "guest_heap \<Rightarrow> (nat \<times> nat) set" where
  "heap_regions h = (if m_guestHeapConfigured h then regions (m_guestHeapBlocks h) else {})"

lemma heap_invD:
  assumes "heap_inv h" "m_guestHeapConfigured h"
  shows "tiles (unat (m_guestHeapBase h)) (unat (m_guestHeapLimit h)) (m_guestHeapBlocks h)"
    "unat (m_guestHeapLimit h) \<le> 2 ^ 31" "aligned_blocks (m_guestHeapBlocks h)"
    "no_adjacent_free (m_guestHeapBlocks h)" "unat (m_guestHeapLimit h) < 2 ^ 25"
  using assms by (auto simp: heap_inv_def kGuestHeapHardLimit_def)

lemma allocate_cases:
  assumes inv: "heap_inv h" and cfg: "m_guestHeapConfigured h"
    and res: "allocateGuestBlockLocked sz al h = (p, h')"
  defines "n \<equiv> (unat sz + 15) div 16 * 16"
  shows "h' = h \<and> p = 0 \<or>
    (\<exists>bs e. h' = h\<lparr>m_guestHeapBlocks := bs, m_guestHeapEnd := max (m_guestHeapEnd h) e\<rparr>
      \<and> sz \<noteq> 0 \<and> p \<noteq> 0 \<and> heap_inv h' \<and> regions bs = insert (unat p, n) (regions (m_guestHeapBlocks h))
      \<and> (unat p, n) \<notin> regions (m_guestHeapBlocks h)
      \<and> unat (normalizeGuestHeapAlignment al) dvd unat p)"
proof (cases "h' = h \<and> p = 0")
  case False
  let ?A = "normalizeGuestHeapAlignment al" and ?N = "alignGuestHeapValue sz kGuestHeapDefaultAlignment"
  from res False have sz0: "sz \<noteq> 0" and big: "\<not> sz > u32_max - 15"
    by (auto simp: allocateGuestBlockLocked_def kGuestHeapDefaultAlignment_def Let_def split: if_splits)
  have "unat sz \<le> 2 ^ 32 - 16" using big by (simp add: u32_max_def word_less_nat_alt)
  from align16 [OF this] have N: "unat ?N = n" by (simp add: n_def)
  have "unat sz > 0" using sz0 by (simp add: unat_gt_0)
  then have npos: "n > 0" by (simp add: n_def div_greater_zero_iff)
  with N have N0: "?N \<noteq> 0" by auto
  obtain a e bs where w: "alloc_walk ?N ?A (m_guestHeapBlocks h) = Some (a, e, bs)"
    and r: "p = a" "h' = h\<lparr>m_guestHeapBlocks := bs, m_guestHeapEnd := max (m_guestHeapEnd h) e\<rparr>"
    using res False sz0 big N0
    by (auto simp: allocateGuestBlockLocked_def kGuestHeapDefaultAlignment_def Let_def split: option.splits)
  obtain k where k: "unat ?A = 2 ^ k" "4 \<le> k" "k < 32" using normalize_power2 by blast
  have "unat ?N > 0" "16 dvd unat ?N" using npos by (simp_all add: N n_def)
  note ai = alloc_walk_inv [OF k this heap_invD(1-4) [OF inv cfg] w]
  have ne: "m_guestHeapBlocks h \<noteq> []" using w by auto
  with inv cfg have "m_guestHeapBase h \<noteq> 0" by (simp add: heap_inv_def)
  then have p0: "p \<noteq> 0" using ai(7) r(1) by (metis le_zero_eq unsigned_0 unat_eq_zero)
  have el: "e \<le> m_guestHeapLimit h" using ai(9) by (simp add: word_le_nat_alt)
  have "heap_inv h'" using inv cfg ai(1,3,4) el \<open>m_guestHeapBase h \<noteq> 0\<close>
    by (auto simp: r(2) heap_inv_def max_def)
  with sz0 p0 ai(2,5,6) k(1) N r show ?thesis by auto
qed simp

text \<open>What a caller of an allocator may rely on.\<close>

locale region_allocator =
  fixes inv :: "'s \<Rightarrow> bool" and used :: "'s \<Rightarrow> (nat \<times> nat) set"
    and alloc :: "u32 \<Rightarrow> u32 \<Rightarrow> 's \<Rightarrow> u32 \<times> 's" and release :: "u32 \<Rightarrow> 's \<Rightarrow> 's"
  assumes used_disjoint: "inv s \<Longrightarrow> (a, n) \<in> used s \<Longrightarrow> (b, m) \<in> used s \<Longrightarrow> (a, n) \<noteq> (b, m) \<Longrightarrow>
        a + n \<le> b \<or> b + m \<le> a"
    and used_pos: "inv s \<Longrightarrow> (a, n) \<in> used s \<Longrightarrow> 0 < n \<and> 0 < a \<and> a + n \<le> 2 ^ 25"
    and alloc_inv: "inv s \<Longrightarrow> inv (snd (alloc sz al s))"
    and alloc_fail: "inv s \<Longrightarrow> fst (alloc sz al s) = 0 \<Longrightarrow> used (snd (alloc sz al s)) = used s"
    and alloc_ok: "inv s \<Longrightarrow> fst (alloc sz al s) \<noteq> 0 \<Longrightarrow>
        \<exists>n. unat sz \<le> n \<and> (unat (fst (alloc sz al s)), n) \<notin> used s
           \<and> used (snd (alloc sz al s)) = insert (unat (fst (alloc sz al s)), n) (used s)"
    and release_inv: "inv s \<Longrightarrow> inv (release p s)"
    and release_used: "inv s \<Longrightarrow> unat p < 2 ^ 25 \<Longrightarrow> used (release p s) = {r \<in> used s. fst r \<noteq> unat p}"
begin

lemma alloc_disjoint:
  assumes "inv s" "alloc sz al s = (p, s')" "p \<noteq> 0" "(a, n) \<in> used s"
  shows "unat p + unat sz \<le> a \<or> a + n \<le> unat p"
proof -
  from alloc_ok [OF assms(1), of sz al] assms(2,3) obtain m where
    m: "unat sz \<le> m" "(unat p, m) \<notin> used s" "used s' = insert (unat p, m) (used s)" by auto
  have "inv s'" using alloc_inv [OF assms(1), of sz al] assms(2) by simp
  moreover have "(unat p, m) \<noteq> (a, n)" using m(2) assms(4) by auto
  ultimately have "unat p + m \<le> a \<or> a + n \<le> unat p" using used_disjoint m(3) assms(4) by blast
  with m(1) show ?thesis by auto
qed

lemma alloc_release:
  assumes "inv s" "alloc sz al s = (p, s')" "p \<noteq> 0"
  shows "used (release p s') = used s"
proof -
  from alloc_ok [OF assms(1), of sz al] assms(2,3) obtain m where
    m: "(unat p, m) \<notin> used s" "used s' = insert (unat p, m) (used s)" by auto
  have inv': "inv s'" using alloc_inv [OF assms(1), of sz al] assms(2) by simp
  have "unat p < 2 ^ 25" using used_pos [OF inv', of "unat p" m] m(2) by auto
  moreover have "a \<noteq> unat p" if "(a, n) \<in> used s" for a n
  proof
    assume "a = unat p"
    with that m used_disjoint [OF inv', of "unat p" m a n] used_pos [OF inv', of "unat p" n]
      used_pos [OF inv', of "unat p" m] show False by auto
  qed
  ultimately show ?thesis using release_used [OF inv'] m(2) by auto
qed

text \<open>Any interleaving of allocations and releases.\<close>

definition run_ops :: "(u32 \<times> u32 + u32) list \<Rightarrow> 's \<Rightarrow> 's" where
  "run_ops ops s = fold (\<lambda>op s. case op of Inl (sz, al) \<Rightarrow> snd (alloc sz al s) | Inr p \<Rightarrow> release p s) ops s"

lemma run_ops_inv: "inv s \<Longrightarrow> inv (run_ops ops s)"
  unfolding run_ops_def
  by (induction ops arbitrary: s) (auto simp: alloc_inv release_inv split: sum.splits)

lemma run_ops_disjoint:
  "inv s \<Longrightarrow> (a, n) \<in> used (run_ops ops s) \<Longrightarrow> (b, m) \<in> used (run_ops ops s) \<Longrightarrow> (a, n) \<noteq> (b, m) \<Longrightarrow>
     a + n \<le> b \<or> b + m \<le> a"
  using run_ops_inv used_disjoint by blast

end

section \<open>The guest heap is a region allocator\<close>

lemma ensure_regions: "heap_regions (ensureGuestHeapInitializedLocked h) = heap_regions h"
  by (auto simp: ensureGuestHeapInitializedLocked_def resetGuestHeapLocked_def heap_regions_def Let_def
      split: prod.splits if_splits)

lemma guestMalloc_cases:
  assumes inv: "heap_inv h" and res: "guestMalloc sz al h = (p, h')"
  defines "n \<equiv> (unat sz + 15) div 16 * 16"
  shows "heap_inv h'" "m_guestHeapConfigured h'"
    "p = 0 \<Longrightarrow> heap_regions h' = heap_regions h"
    "p \<noteq> 0 \<Longrightarrow> heap_regions h' = insert (unat p, n) (heap_regions h) \<and> (unat p, n) \<notin> heap_regions h
       \<and> unat (normalizeGuestHeapAlignment al) dvd unat p \<and> sz \<noteq> 0"
proof -
  let ?h = "ensureGuestHeapInitializedLocked h"
  note e = ensure_inv [OF inv]
  note regs = ensure_regions [of h]
  have res': "allocateGuestBlockLocked sz al ?h = (p, h')" using res by (simp add: guestMalloc_def)
  note c = allocate_cases [OF e res', folded n_def]
  show "heap_inv h'" "m_guestHeapConfigured h'" using c e by auto
  show "p = 0 \<Longrightarrow> heap_regions h' = heap_regions h" using c regs by auto
  show "p \<noteq> 0 \<Longrightarrow> heap_regions h' = insert (unat p, n) (heap_regions h) \<and> (unat p, n) \<notin> heap_regions h
       \<and> unat (normalizeGuestHeapAlignment al) dvd unat p \<and> sz \<noteq> 0"
    using c e(2) regs by (auto simp: heap_regions_def)
qed

lemma heap_regions_bounds:
  assumes inv: "heap_inv h" and r: "(a, n) \<in> heap_regions h"
  shows "unat (m_guestHeapBase h) \<le> a" "a + n \<le> unat (m_guestHeapLimit h)" "0 < n" "0 < a" "a + n \<le> 2 ^ 25"
    "16 dvd a" "16 dvd n"
proof -
  from r have cfg: "m_guestHeapConfigured h" and r': "(a, n) \<in> regions (m_guestHeapBlocks h)"
    by (auto simp: heap_regions_def split: if_splits)
  note i = heap_invD [OF inv cfg]
  from tiles_regions [OF i(1) r'] show b: "unat (m_guestHeapBase h) \<le> a" "a + n \<le> unat (m_guestHeapLimit h)" "0 < n"
    by auto
  with i(5) show "a + n \<le> 2 ^ 25" by simp
  have "m_guestHeapBase h \<noteq> 0" using inv cfg r' by (auto simp: heap_inv_def)
  with b(1) show "0 < a" by (metis gr0I le_zero_eq unat_eq_zero)
  from r' i(3) show "16 dvd a" "16 dvd n" by (auto simp: regions_def aligned_blocks_def)
qed

lemma mask_small: "unat p < 2 ^ 25 \<Longrightarrow> p AND PS2_RAM_MASK = p"
  by (simp add: word_unat_eq_iff unat_mask_RAM)

lemma freeGuestBlockLocked_cases:
  assumes inv: "heap_inv h" and cfg: "m_guestHeapConfigured h"
  shows "heap_inv (freeGuestBlockLocked p h)" "m_guestHeapConfigured (freeGuestBlockLocked p h)"
    "unat p < 2 ^ 25 \<Longrightarrow> heap_regions (freeGuestBlockLocked p h) = {r \<in> heap_regions h. fst r \<noteq> unat p}"
proof -
  note i = heap_invD [OF inv cfg]
  let ?a = "p AND PS2_RAM_MASK"
  have goal: "heap_inv (freeGuestBlockLocked p h) \<and> m_guestHeapConfigured (freeGuestBlockLocked p h)
    \<and> heap_regions (freeGuestBlockLocked p h) = {r \<in> heap_regions h. fst r \<noteq> unat ?a}"
  proof (cases "find_from 0 ?a (m_guestHeapBlocks h)")
    case None
    then have "fst r \<noteq> unat ?a" if "r \<in> heap_regions h" for r
      using that cfg by (auto simp: find_from_None heap_regions_def regions_def word_unat_eq_iff)
    with None inv cfg show ?thesis by (auto simp: freeGuestBlockLocked_def findGuestHeapBlockIndexLocked_def)
  next
    case (Some j)
    from find_from_Some [OF this] obtain ps b q where bs: "m_guestHeapBlocks h = ps @ b # q" "j = length ps"
      and b: "\<not> hb_free b" "hb_addr b = ?a" by auto
    let ?bs' = "coalesce (ps @ b\<lparr>hb_free := True\<rparr> # q)"
    have f: "freeGuestBlockLocked p h = h\<lparr>m_guestHeapBlocks := ?bs'\<rparr>"
      using Some bs by (simp add: freeGuestBlockLocked_def findGuestHeapBlockIndexLocked_def
          coalesceGuestHeapLocked_def list_update_append)
    note fi = free_at_inv [OF i(1) [unfolded bs(1)] i(2) i(3) [unfolded bs(1)] b(1)]
    have hin: "heap_inv (freeGuestBlockLocked p h)"
      unfolding f using inv cfg fi(1-3) bs(1) by (simp add: heap_inv_def)
    have "r = (b_start b, b_len b)" if "r \<in> regions (ps @ b # q)" "fst r = b_start b" for r
    proof (rule ccontr)
      assume ne: "r \<noteq> (b_start b, b_len b)"
      have "(b_start b, b_len b) \<in> regions (ps @ b # q)" using b(1) by simp
      with tiles_disjoint [OF i(1) [unfolded bs(1)], of "fst r" "snd r" "b_start b" "b_len b"] that ne
        tiles_regions [OF i(1) [unfolded bs(1)]] show False by (cases r) fastforce
    qed
    then have "regions ?bs' = {r \<in> regions (m_guestHeapBlocks h). fst r \<noteq> b_start b}"
      using fi(4) bs(1) by auto
    with hin f cfg b(2) show ?thesis by (simp add: heap_regions_def)
  qed
  then show "heap_inv (freeGuestBlockLocked p h)" "m_guestHeapConfigured (freeGuestBlockLocked p h)" by simp_all
  show "unat p < 2 ^ 25 \<Longrightarrow> heap_regions (freeGuestBlockLocked p h) = {r \<in> heap_regions h. fst r \<noteq> unat p}"
    using goal by (simp add: mask_small)
qed

interpretation gh: region_allocator heap_inv heap_regions guestMalloc guestFree
proof
  fix s :: guest_heap and a n b m :: nat and sz al p :: u32
  assume inv: "heap_inv s"
  show "(a, n) \<in> heap_regions s \<Longrightarrow> (b, m) \<in> heap_regions s \<Longrightarrow> (a, n) \<noteq> (b, m) \<Longrightarrow> a + n \<le> b \<or> b + m \<le> a"
    using inv tiles_disjoint [OF heap_invD(1)] by (auto simp: heap_regions_def split: if_splits)
  show "(a, n) \<in> heap_regions s \<Longrightarrow> 0 < n \<and> 0 < a \<and> a + n \<le> 2 ^ 25"
    using heap_regions_bounds [OF inv] by blast
  obtain q s' where r: "guestMalloc sz al s = (q, s')" by fastforce
  note g = guestMalloc_cases [OF inv r]
  show "heap_inv (snd (guestMalloc sz al s))" using g(1) r by simp
  show "fst (guestMalloc sz al s) = 0 \<Longrightarrow> heap_regions (snd (guestMalloc sz al s)) = heap_regions s"
    using g(3) r by simp
  have "unat sz \<le> (unat sz + 15) div 16 * 16" by linarith
  then show "fst (guestMalloc sz al s) \<noteq> 0 \<Longrightarrow>
      \<exists>n. unat sz \<le> n \<and> (unat (fst (guestMalloc sz al s)), n) \<notin> heap_regions s
         \<and> heap_regions (snd (guestMalloc sz al s)) = insert (unat (fst (guestMalloc sz al s)), n) (heap_regions s)"
    using g(4) r by auto
  note e = ensure_inv [OF inv]
  show "heap_inv (guestFree p s)" using inv freeGuestBlockLocked_cases(1) [OF e] by (simp add: guestFree_def)
  show "unat p < 2 ^ 25 \<Longrightarrow> heap_regions (guestFree p s) = {r \<in> heap_regions s. fst r \<noteq> unat p}"
    using freeGuestBlockLocked_cases(3) [OF e, of p] heap_regions_bounds(4) [OF inv]
    by (auto simp: guestFree_def ensure_regions)
qed

text \<open>A concrete heap for the witnesses: 64 bytes are taken from a heap of 4096.\<close>

definition demo_heap :: guest_heap where
  "demo_heap = configureGuestHeap 0x100000 0x101000 (guest_heap_init (Some (\<lambda>_. 0)))"

lemma demo_heap_blocks:
  "m_guestHeapBlocks demo_heap = [\<lparr>hb_addr = 0x100000, hb_size = 0x1000, hb_free = True\<rparr>]"
  "m_guestHeapConfigured demo_heap" "m_rdram demo_heap = Some (\<lambda>_. 0)"
  by (simp_all add: demo_heap_def configureGuestHeap_def guest_heap_init_def resetGuestHeapLocked_def Let_def
      clampGuestHeapBase_def clampGuestHeapLimit_def alignGuestHeapValue_def kGuestHeapDefaultAlignment_def
      kGuestHeapHardLimit_def ram_defs u32_max_def kGuestHeapDefaultBase_def)

lemma guest_heap_init_inv: "heap_inv (guest_heap_init rdram)"
  by (simp add: heap_inv_def guest_heap_init_def kGuestHeapDefaultBase_def kGuestHeapHardLimit_def)

lemma demo_heap_inv: "heap_inv demo_heap"
  unfolding demo_heap_def by (rule configureGuestHeap_inv) (rule guest_heap_init_inv)

lemma demo_malloc:
  "guestMalloc 60 64 demo_heap = (0x100FC0, demo_heap\<lparr>m_guestHeapBlocks :=
     [\<lparr>hb_addr = 0x100000, hb_size = 0xFC0, hb_free = True\<rparr>, \<lparr>hb_addr = 0x100FC0, hb_size = 64, hb_free = False\<rparr>],
     m_guestHeapEnd := max (m_guestHeapEnd demo_heap) 0x101000\<rparr>)"
  by (simp add: guestMalloc_def ensure_id demo_heap_blocks allocateGuestBlockLocked_def Let_def
      normalizeGuestHeapAlignment_def isGuestHeapAlignmentValid_def kGuestHeapDefaultAlignment_def u32_max_def
      alignGuestHeapValue_def alloc_in_def)

text \<open>
  C7 (allocation): when \<open>guestMalloc\<close> returns a non-null address, the heap invariant still holds,
  exactly one region of the rounded-up size has been added, it is aligned as requested, lies
  between the heap's base and limit, and overlaps no region that was allocated before.
\<close>

theorem guestMalloc_fresh_region:
  assumes "heap_inv h" "guestMalloc sz al h = (p, h')" "p \<noteq> 0"
  shows "heap_inv h' \<and> heap_regions h' = insert (unat p, (unat sz + 15) div 16 * 16) (heap_regions h)
    \<and> unat (normalizeGuestHeapAlignment al) dvd unat p
    \<and> unat (m_guestHeapBase h') \<le> unat p \<and> unat p + unat sz \<le> unat (m_guestHeapLimit h')
    \<and> (\<forall>(a, n) \<in> heap_regions h. unat p + unat sz \<le> a \<or> a + n \<le> unat p)"
proof -
  note g = guestMalloc_cases [OF assms(1,2)]
  let ?n = "(unat sz + 15) div 16 * 16"
  have "(unat p, ?n) \<in> heap_regions h'" using g(4) assms(3) by simp
  from heap_regions_bounds(1,2) [OF g(1) this] have
    "unat (m_guestHeapBase h') \<le> unat p" "unat p + unat sz \<le> unat (m_guestHeapLimit h')" by linarith+
  with g(1) g(4) [OF assms(3)] gh.alloc_disjoint [OF assms] show ?thesis by auto
qed

theorem guestMalloc_fresh_region_witness:
  "heap_inv (snd (guestMalloc 60 64 demo_heap)) \<and> fst (guestMalloc 60 64 demo_heap) = 0x100FC0"
  using guestMalloc_fresh_region [OF demo_heap_inv demo_malloc] by (simp add: demo_malloc)

text \<open>
  C8 (allocation fails only for lack of space): when \<open>guestMalloc\<close> returns null for a size that is
  neither zero nor within 15 bytes of the 32-bit range, no free block has room for the rounded
  size at any address of the requested alignment.
\<close>

theorem guestMalloc_complete:
  assumes "heap_inv h" "fst (guestMalloc sz al h) = 0" "sz \<noteq> 0" "sz \<le> 0xFFFFFFF0"
    and "b \<in> set (m_guestHeapBlocks (ensureGuestHeapInitializedLocked h))" "hb_free b"
    and "unat (normalizeGuestHeapAlignment al) dvd a" "unat (hb_addr b) \<le> a"
  shows "unat (hb_addr b) + unat (hb_size b) < a + (unat sz + 15) div 16 * 16"
proof (rule ccontr)
  assume "\<not> ?thesis"
  then have fit: "a + (unat sz + 15) div 16 * 16 \<le> b_start b + b_len b" by simp
  let ?h = "ensureGuestHeapInitializedLocked h" and ?A = "normalizeGuestHeapAlignment al"
    and ?N = "alignGuestHeapValue sz kGuestHeapDefaultAlignment"
  note e = ensure_inv [OF assms(1)]
  have "unat sz \<le> 2 ^ 32 - 16" using assms(4) by (simp add: word_le_nat_alt)
  from align16 [OF this] have N: "unat ?N = (unat sz + 15) div 16 * 16" .
  obtain k where k: "unat ?A = 2 ^ k" "4 \<le> k" "k < 32" using normalize_power2 by blast
  have pos: "unat sz > 0" using assms(3) by (simp add: unat_gt_0)
  then have Npos: "unat ?N > 0" "16 dvd unat ?N" by (simp_all add: N div_greater_zero_iff)
  have "alloc_walk ?N ?A (m_guestHeapBlocks ?h) = None"
  proof (rule ccontr)
    assume "alloc_walk ?N ?A (m_guestHeapBlocks ?h) \<noteq> None"
    then obtain x y bs where w: "alloc_walk ?N ?A (m_guestHeapBlocks ?h) = Some (x, y, bs)" by auto
    have "m_guestHeapBase ?h \<noteq> 0" using e w by (auto simp: heap_inv_def)
    with alloc_walk_inv(7) [OF k Npos heap_invD(1-4) [OF e] w] have "x \<noteq> 0" by (metis le_zero_eq unat_0 unat_eq_zero)
    moreover have "\<not> sz > u32_max - 15" using assms(4) by (simp add: u32_max_def not_less)
    ultimately show False using assms(2,3) w Npos(1)
      by (auto simp: guestMalloc_def allocateGuestBlockLocked_def Let_def kGuestHeapDefaultAlignment_def
          split: if_splits)
  qed
  with assms(5,6) have "alloc_in ?N ?A b = None" by (simp add: alloc_walk_None)
  with alloc_in_None [OF k(1,3)] have no: "\<not> (unat ?N \<le> b_len b \<and> b_start b \<le> top_start (unat ?N) k b)" by simp
  from assms(7) k(1) obtain c where c: "a = c * 2 ^ k" by (auto simp: dvd_def mult.commute)
  have "c \<le> (b_start b + b_len b - unat ?N) div 2 ^ k"
    using fit by (simp add: N c less_eq_div_iff_mult_less_eq)
  then have "a \<le> top_start (unat ?N) k b" by (simp add: top_start_def c)
  with no fit assms(8) show False by (simp add: N)
qed

theorem guestMalloc_complete_witness:
  "unat (0x100000 :: u32) + unat (0x1000 :: u32) < (0x100000 :: nat) + (unat (0x2000 :: u32) + 15) div 16 * 16"
proof -
  have f: "fst (guestMalloc 0x2000 16 demo_heap) = 0"
    by (simp add: guestMalloc_def ensure_id demo_heap_blocks allocateGuestBlockLocked_def Let_def
      normalizeGuestHeapAlignment_def isGuestHeapAlignmentValid_def kGuestHeapDefaultAlignment_def u32_max_def
      alignGuestHeapValue_def alloc_in_def)
  show ?thesis
    using guestMalloc_complete [OF demo_heap_inv f, of "\<lparr>hb_addr = 0x100000, hb_size = 0x1000, hb_free = True\<rparr>" "0x100000"]
    by (simp add: ensure_id demo_heap_blocks normalizeGuestHeapAlignment_def isGuestHeapAlignmentValid_def
        kGuestHeapDefaultAlignment_def)
qed

text \<open>
  C9 (allocate, then free): freeing a block right after it was allocated restores the block list
  exactly, by merging the pieces back into the free block they were cut from.
\<close>

theorem malloc_free_roundtrip:
  assumes inv: "heap_inv h" "m_guestHeapConfigured h" and res: "guestMalloc sz al h = (p, h')" "p \<noteq> 0"
  shows "m_guestHeapBlocks (guestFree p h') = m_guestHeapBlocks h"
proof -
  let ?A = "normalizeGuestHeapAlignment al" and ?N = "alignGuestHeapValue sz kGuestHeapDefaultAlignment"
  note i = heap_invD [OF inv]
  note g = guestMalloc_cases [OF inv(1) res(1)]
  have alloc: "allocateGuestBlockLocked sz al h = (p, h')" using res(1) by (simp add: guestMalloc_def ensure_id inv(2))
  from alloc res(2) obtain e where w: "alloc_walk ?N ?A (m_guestHeapBlocks h) = Some (p, e, m_guestHeapBlocks h')"
    and big: "\<not> sz > u32_max - 15" and sz0: "sz \<noteq> 0"
    by (auto simp: allocateGuestBlockLocked_def Let_def kGuestHeapDefaultAlignment_def split: if_splits option.splits)
  have "unat sz \<le> 2 ^ 32 - 16" using big by (simp add: u32_max_def word_less_nat_alt)
  from align16 [OF this] have N: "unat ?N = (unat sz + 15) div 16 * 16" .
  have "unat sz > 0" using sz0 by (simp add: unat_gt_0)
  then have Npos: "unat ?N > 0" "16 dvd unat ?N" by (simp_all add: N div_greater_zero_iff)
  obtain k where k: "unat ?A = 2 ^ k" "4 \<le> k" "k < 32" using normalize_power2 by blast
  from alloc_walk_Some [OF w] obtain ps b q repl where bs: "m_guestHeapBlocks h = ps @ b # q" "hb_free b"
    and r: "alloc_in ?N ?A b = Some (p, e, repl)" "m_guestHeapBlocks h' = ps @ repl @ q" by blast
  have t: "tiles (unat (m_guestHeapBase h)) (b_start b) ps"
      "tiles (b_start b + b_len b) (unat (m_guestHeapLimit h)) q" using i(1) bs by (auto simp: tiles_append)
  have bb: "b_start b + b_len b \<le> 2 ^ 31" "16 dvd b_start b"
    using tiles_le [OF t(2)] i(2,3) bs by (auto simp: aligned_blocks_def)
  note pc = alloc_pieces [OF k Npos bb r(1)]
  from alloc_in_Some(5) [OF k(1,3) bb(1) r(1)] obtain pre suf where
    repl: "repl = pre @ \<lparr>hb_addr = p, hb_size = ?N, hb_free = False\<rparr> # suf" (is "_ = _ @ ?u # _")
    and fp: "free_piece (b_start b) (unat p - b_start b) pre"
      "free_piece (unat p + unat ?N) (b_start b + b_len b - (unat p + unat ?N)) suf" by blast
  have ad: "no_adjacent_free ps" "no_adjacent_free q" "ps \<noteq> [] \<longrightarrow> \<not> hb_free (last ps)" "q \<noteq> [] \<longrightarrow> \<not> hb_free (hd q)"
    using i(4) bs by (auto simp: no_adjacent_free_append [of ps] no_adjacent_free_append [of "[b]" q, simplified])
  let ?fs = "pre @ ?u\<lparr>hb_free := True\<rparr> # suf"
  have "tiles (b_start b) (b_start b + b_len b) ?fs" using pc(1) by (simp add: repl tiles_append)
  moreover have "\<forall>x \<in> set ?fs. hb_free x" using free_piece_free [OF fp(1)] free_piece_free [OF fp(2)] by auto
  ultimately obtain b' where b': "coalesce (?fs @ q) = b' # q" "b_start b' = b_start b" "b_len b' = b_len b" "hb_free b'"
    using coalesce_merge [of "b_start b" "b_len b" ?fs _ q] bb(1) t(2) i(2) ad(2,4) by auto
  then have bb': "b' = b" using bs(2) by (intro heap_block.equality) (simp_all add: word_unat_eq_iff)
  have "(unat p, (unat sz + 15) div 16 * 16) \<in> heap_regions h'" using g(4) [OF res(2)] by simp
  from heap_regions_bounds(3,5) [OF g(1) this] have p25: "unat p < 2 ^ 25" by linarith
  have t': "tiles (unat (m_guestHeapBase h)) (unat (m_guestHeapLimit h)) ((ps @ pre) @ ?u # suf @ q)"
    using t pc(1) by (auto simp: repl tiles_append)
  from find_from_unique [OF t', of 0] p25 r(2) have
    "findGuestHeapBlockIndexLocked p h' = Some (length (ps @ pre))"
    by (simp add: findGuestHeapBlockIndexLocked_def mask_small repl)
  then have "m_guestHeapBlocks (guestFree p h') = coalesce (ps @ ?fs @ q)"
    using res(2) g(2) r(2)
    by (simp add: guestFree_def ensure_id freeGuestBlockLocked_def coalesceGuestHeapLocked_def repl
        list_update_append nth_append)
  with coalesce_prefix [OF ad(1,3)] b'(1) bb' bs(1) show ?thesis by simp
qed

theorem malloc_free_roundtrip_witness:
  "m_guestHeapBlocks (guestFree 0x100FC0 (snd (guestMalloc 60 64 demo_heap))) = m_guestHeapBlocks demo_heap"
  using malloc_free_roundtrip [OF demo_heap_inv demo_heap_blocks(2) demo_malloc] by (simp add: demo_malloc)

text \<open>
  Zeroed allocation: a non-null result of \<open>guestCalloc\<close> is an allocated region of at least
  \<open>count * sz\<close> bytes, computed without wrap-around, all of which are zero; bytes outside the region
  keep their value.
\<close>

lemma guestCalloc_zeroed:
  assumes inv: "heap_inv h" and m: "m_rdram h = Some m" and res: "guestCalloc cnt sz al h = (p, h')" "p \<noteq> 0"
  shows "heap_inv h' \<and> unat (cnt * sz) = unat cnt * unat sz
    \<and> heap_regions h' = insert (unat p, (unat cnt * unat sz + 15) div 16 * 16) (heap_regions h)
    \<and> (\<exists>m'. m_rdram h' = Some m' \<and> (\<forall>i. m' i =
          (if unat p \<le> i \<and> i < unat p + unat cnt * unat sz then 0 else m i)))"
proof -
  let ?t = "cnt * sz"
  obtain h1 where a: "guestMalloc ?t al h = (p, h1)" and nz: "cnt \<noteq> 0" "sz \<noteq> 0" "\<not> cnt > u32_max div sz"
    using res by (auto simp: guestCalloc_def Let_def split: if_splits prod.splits option.splits)
  have "unat cnt \<le> unat u32_max div unat sz" using nz(3) by (simp add: word_less_nat_alt unat_div not_less)
  then have "unat cnt * unat sz \<le> unat u32_max"
    by (meson div_times_less_eq_dividend le_trans mult_le_mono1)
  then have prod: "unat ?t = unat cnt * unat sz" by (simp add: unat_word_ariths u32_max_def)
  note g = guestMalloc_cases [OF inv a]
  let ?n = "(unat ?t + 15) div 16 * 16"
  have reg: "(unat p, ?n) \<in> heap_regions h1" using g(4) res(2) by simp
  have "unat ?t \<le> ?n" by linarith
  then have le: "unat p + unat ?t \<le> 2 ^ 25" using heap_regions_bounds(5) [OF g(1) reg] by linarith
  have "unat p < 2 ^ 25" using heap_regions_bounds(3,5) [OF g(1) reg] by linarith
  then have msk: "p AND PS2_RAM_MASK = p" by (rule mask_small)
  have "unat (p + ?t) = unat p + unat ?t" using le by (intro unat_plus_simple) simp
  then have ok: "p + ?t \<le> PS2_RAM_SIZE" using le by (simp add: word_le_nat_alt ram_defs)
  have ram: "m_rdram h1 = Some m"
    using a m by (auto simp: guestMalloc_def allocateGuestBlockLocked_def ensureGuestHeapInitializedLocked_def
        resetGuestHeapLocked_def Let_def split: if_splits option.splits prod.splits)
  have h': "h' = h1\<lparr>m_rdram := Some (heap_memset0 p ?t m)\<rparr>"
    using res a nz ram msk ok by (simp add: guestCalloc_def Let_def)
  have "heap_inv h' = heap_inv h1" "heap_regions h' = heap_regions h1"
    by (simp_all add: h' heap_inv_def heap_regions_def)
  with g(1) g(4) [OF res(2)] prod h' show ?thesis by (auto simp: heap_memset0_def)
qed

section \<open>Reallocation\<close>

text \<open>Replacing the block list of a configured heap.\<close>

definition blocks_ok :: "guest_heap \<Rightarrow> heap_block list \<Rightarrow> bool" where
  "blocks_ok h bs \<longleftrightarrow> tiles (unat (m_guestHeapBase h)) (unat (m_guestHeapLimit h)) bs
     \<and> aligned_blocks bs \<and> no_adjacent_free bs"

lemma heap_inv_blocks:
  assumes "heap_inv h" "m_guestHeapConfigured h" "m_guestHeapBlocks h \<noteq> []" "blocks_ok h bs"
    "m_guestHeapBase h \<le> e" "e \<le> m_guestHeapLimit h"
  shows "heap_inv (h\<lparr>m_guestHeapBlocks := bs, m_guestHeapEnd := e\<rparr>)"
  using assms by (simp add: heap_inv_def blocks_ok_def)

lemma shrink_blocks:
  assumes t: "tiles lo hi (ps @ b # q)" "hi \<le> 2 ^ 31" "aligned_blocks (ps @ b # q)" and nf: "\<not> hb_free b"
    and r: "0 < unat r" "unat r < b_len b" "16 dvd unat r"
  defines "bs' \<equiv> coalesce (ps @ [b\<lparr>hb_size := r\<rparr>,
     \<lparr>hb_addr = hb_addr b + r, hb_size = hb_size b - r, hb_free = True\<rparr>] @ q)"
  shows "tiles lo hi bs'" "aligned_blocks bs'" "no_adjacent_free bs'"
    "regions bs' = insert (b_start b, unat r) (regions (ps @ q))"
proof -
  let ?tl = "\<lparr>hb_addr = hb_addr b + r, hb_size = hb_size b - r, hb_free = True\<rparr>"
  have "b_start b + b_len b \<le> hi" using tiles_bounds [OF t(1), of b] by simp
  with t(2) r(2) have a: "unat (hb_addr b + r) = b_start b + unat r" by (intro unat_plus_simple) simp
  have n: "unat (hb_size b - r) = b_len b - unat r" using r(2) by (intro unat_minus_simple) simp
  have t': "tiles lo hi (ps @ [b\<lparr>hb_size := r\<rparr>, ?tl] @ q)"
    using t(1) r a n by (auto simp: tiles_append)
  from coalesce_inv [OF t' t(2)] show "tiles lo hi bs'" "no_adjacent_free bs'"
    "regions bs' = insert (b_start b, unat r) (regions (ps @ q))" using nf by (auto simp: bs'_def)
  show "aligned_blocks bs'" unfolding bs'_def using t(3) r(3) a
    by (intro coalesce_aligned) (auto simp: dvd_add)
qed

lemma grow_blocks:
  assumes t: "tiles lo hi (ps @ b # q)" "hi \<le> 2 ^ 31" "aligned_blocks (ps @ b # q)"
    "no_adjacent_free (ps @ b # q)" and nf: "\<not> hb_free b"
    and r: "b_len b < unat r" "16 dvd unat r"
    and g: "grow_in_place (length ps) r (ps @ b # q) = Some bs'"
  shows "tiles lo hi bs'" "aligned_blocks bs'" "no_adjacent_free bs'"
    "regions bs' = insert (b_start b, unat r) (regions (ps @ q))" "b_start b + unat r \<le> hi"
proof -
  from g obtain nx q' where q: "q = nx # q'" and fr: "hb_free nx"
    by (cases q) (auto simp: grow_in_place_def nth_append split: if_splits)
  let ?x = "r - hb_size b"
  have tb: "tiles lo (b_start b) ps" "b_start nx = b_start b + b_len b" "b_len nx > 0" "b_len b > 0"
    "tiles (b_start nx + b_len nx) hi q'" using t(1) q by (auto simp: tiles_append)
  have le: "b_start nx + b_len nx \<le> hi" using tiles_le [OF tb(5)] .
  have comb: "unat (ucast (hb_size b) + ucast (hb_size nx) :: u64) = b_len b + b_len nx"
    using le tb(2) t(2) by (subst unat_plus_simple) simp_all
  from g q have fits: "unat r \<le> b_len b + b_len nx"
    by (auto simp: grow_in_place_def nth_append Let_def word_le_nat_alt comb split: if_splits)
  then show "b_start b + unat r \<le> hi" using le tb(2) by simp
  have x: "unat ?x = unat r - b_len b" using r(1) by (intro unat_minus_simple) simp
  let ?nx = "nx\<lparr>hb_addr := hb_addr nx + ?x, hb_size := hb_size nx - ?x\<rparr>"
  have bs': "bs' = ps @ b\<lparr>hb_size := r\<rparr> # (if hb_size nx = ?x then q' else ?nx # q')"
    using g q by (auto simp: grow_in_place_def nth_append list_update_append Let_def split: if_splits)
  have nxa: "unat (hb_addr nx + ?x) = b_start b + unat r"
    using fits x r(1) tb(2) le t(2) by (subst unat_plus_simple) simp_all
  have nxs: "unat (hb_size nx - ?x) = b_len b + b_len nx - unat r"
    using fits x r(1) by (subst unat_minus_simple) simp_all
  have eq: "hb_size nx = ?x \<longleftrightarrow> b_len b + b_len nx = unat r" using x r(1) fits by (auto simp: word_unat_eq_iff)
  show "tiles lo hi bs'"
    using tb fits r(1) nxa nxs eq by (auto simp: bs' tiles_append add.assoc)
  have "16 dvd b_start b + unat r" using t(3) r(2) by (auto simp: dvd_add)
  then show "aligned_blocks bs'" using t(3) r(2) nxa q fr by (auto simp: bs')
  show "no_adjacent_free bs'" using t(4) q fr nf
    by (cases q') (auto simp: bs' no_adjacent_free_append)
  show "regions bs' = insert (b_start b, unat r) (regions (ps @ q))" using nf q fr by (auto simp: bs')
qed

lemma heap_region_block:
  assumes inv: "heap_inv h" and reg: "(unat p, old) \<in> heap_regions h"
  obtains ps b qs where "m_guestHeapBlocks h = ps @ b # qs" "\<not> hb_free b" "hb_addr b = p" "b_len b = old"
    "findGuestHeapBlockIndexLocked p h = Some (length ps)"
proof -
  from reg have cfg: "m_guestHeapConfigured h" by (auto simp: heap_regions_def split: if_splits)
  with reg obtain b where b: "b \<in> set (m_guestHeapBlocks h)" "\<not> hb_free b" "b_start b = unat p" "b_len b = old"
    by (auto simp: heap_regions_def regions_def)
  then have addr: "hb_addr b = p" by (simp add: word_unat_eq_iff)
  from b(1) obtain ps qs where bs: "m_guestHeapBlocks h = ps @ b # qs" by (meson split_list)
  have "unat p < 2 ^ 25" using heap_regions_bounds(3,5) [OF inv reg] by linarith
  with find_from_unique [OF heap_invD(1) [OF inv cfg, unfolded bs] b(2), of 0] bs addr
  have "findGuestHeapBlockIndexLocked p h = Some (length ps)"
    by (simp add: findGuestHeapBlockIndexLocked_def mask_small)
  with that bs b addr show thesis by blast
qed

lemma blocks_split_regions:
  assumes "heap_inv h" "m_guestHeapConfigured h" "m_guestHeapBlocks h = ps @ b # qs" "\<not> hb_free b"
  shows "regions (ps @ qs) = heap_regions h - {(b_start b, b_len b)}"
proof -
  from heap_invD(1) [OF assms(1,2)] assms(3) have
    t: "tiles (unat (m_guestHeapBase h)) (b_start b) ps" "tiles (b_start b + b_len b) (unat (m_guestHeapLimit h)) qs"
      "b_len b > 0" by (auto simp: tiles_append)
  then have "(b_start b, b_len b) \<notin> regions ps \<union> regions qs"
    using tiles_regions [OF t(1)] tiles_regions [OF t(2)] by fastforce
  with assms show ?thesis by (auto simp: heap_regions_def)
qed

lemma freeGuestBlockLocked_rdram [simp]: "m_rdram (freeGuestBlockLocked p h) = m_rdram h"
  by (simp add: freeGuestBlockLocked_def coalesceGuestHeapLocked_def split: option.split)

definition realloc_post :: "nat \<Rightarrow> nat \<Rightarrow> nat \<Rightarrow> guest_heap \<Rightarrow> bytes \<Rightarrow> nat \<Rightarrow> guest_heap \<Rightarrow> bool" where
  "realloc_post p old n h m q h' \<longleftrightarrow>
     heap_inv h' \<and> heap_regions h' = insert (q, (n + 15) div 16 * 16) (heap_regions h - {(p, old)})
     \<and> (\<exists>m'. m_rdram h' = Some m' \<and> (\<forall>i < min old n. m' (q + i) = m (p + i))
          \<and> (\<forall>a k i. (a, k) \<in> heap_regions h - {(p, old)} \<and> i < k \<longrightarrow> m' (a + i) = m (a + i)))"

lemma move_block_spec:
  assumes inv: "heap_inv h" "m_guestHeapConfigured h" and m: "m_rdram h = Some m"
    and reg: "(unat p, unat old) \<in> heap_regions h"
    and res: "move_block p old sz al h = (q, h')"
  shows "q = 0 \<Longrightarrow> h' = h" "q \<noteq> 0 \<Longrightarrow> realloc_post (unat p) (unat old) (unat sz) h m (unat q) h'"
proof -
  obtain h1 where a: "allocateGuestBlockLocked sz al h = (q, h1)"
    using res by (auto simp: move_block_def split: prod.splits if_splits)
  note c = allocate_cases [OF inv a]
  show "q = 0 \<Longrightarrow> h' = h" using c res a by (auto simp: move_block_def)
  assume q0: "q \<noteq> 0"
  let ?n = "(unat sz + 15) div 16 * 16"
  from c q0 have h1: "heap_inv h1" "m_guestHeapConfigured h1" "m_rdram h1 = Some m"
    "heap_regions h1 = insert (unat q, ?n) (heap_regions h)" "(unat q, ?n) \<notin> heap_regions h"
    using inv(2) m by (auto simp: heap_regions_def)
  have "(unat q, ?n) \<in> heap_regions h1" by (simp add: h1(4))
  note bq = heap_regions_bounds(5,3) [OF h1(1) this] and bp = heap_regions_bounds(5,3) [OF inv(1) reg]
  have szn: "unat sz \<le> ?n" by linarith
  let ?c = "min old sz"
  have uc: "unat ?c = min (unat old) (unat sz)" by (simp add: min_def word_le_nat_alt)
  have msk: "q AND PS2_RAM_MASK = q" "p AND PS2_RAM_MASK = p"
    using bq bp by (auto intro!: mask_small)
  have cle: "unat ?c \<le> unat old" "unat ?c \<le> ?n" using uc szn by simp_all
  then have "unat q + unat ?c < 2 ^ LENGTH(32)" "unat p + unat ?c < 2 ^ LENGTH(32)"
    using bq(1) bp(1) by simp_all
  then have "unat (q + ?c) = unat q + unat ?c" "unat (p + ?c) = unat p + unat ?c"
    by (simp_all only: unat_plus_simple)
  with cle bq(1) bp(1) have "unat (q + ?c) \<le> 2 ^ 25" "unat (p + ?c) \<le> 2 ^ 25" by linarith+
  then have ok: "q + ?c \<le> PS2_RAM_SIZE" "p + ?c \<le> PS2_RAM_SIZE"
    by (simp_all add: word_le_nat_alt ram_defs)
  let ?h2 = "h1\<lparr>m_rdram := Some (heap_memmove q p ?c m)\<rparr>"
  have h': "h' = freeGuestBlockLocked p ?h2"
    using res a q0 h1(3) msk ok by (simp add: move_block_def Let_def)
  have inv2: "heap_inv ?h2" "m_guestHeapConfigured ?h2" and r2: "heap_regions ?h2 = heap_regions h1"
    using h1 by (simp_all add: heap_inv_def heap_regions_def)
  note fr = freeGuestBlockLocked_cases [OF inv2, of p]
  have disj: "unat q + ?n \<le> b \<or> b + k \<le> unat q" if "(b, k) \<in> heap_regions h" for b k
    using gh.used_disjoint [OF h1(1), of "unat q" ?n b k] h1(4,5) that by auto
  have pq: "unat p \<noteq> unat q" using disj [OF reg] bq(2) bp(2) by auto
  have same: "k = unat old" if "(unat p, k) \<in> heap_regions h" for k
    using gh.used_disjoint [OF inv(1) reg that] heap_regions_bounds(3) [OF inv(1) that] bp(2) by auto
  have "unat p < 2 ^ 25" using bp by simp
  from fr(3) [OF this] have "heap_regions h' = {r \<in> insert (unat q, ?n) (heap_regions h). fst r \<noteq> unat p}"
    unfolding h' r2 h1(4) .
  moreover have "(fst r \<noteq> unat p) = (r \<noteq> (unat p, unat old))" if "r \<in> heap_regions h" for r
    using that by (cases r) (auto dest: same)
  then have "{r \<in> heap_regions h. fst r \<noteq> unat p} = heap_regions h - {(unat p, unat old)}" by blast
  moreover have "{r \<in> insert (unat q, ?n) R. fst r \<noteq> unat p} = insert (unat q, ?n) {r \<in> R. fst r \<noteq> unat p}" for R
    using pq by auto
  ultimately have regs: "heap_regions h' = insert (unat q, ?n) (heap_regions h - {(unat p, unat old)})"
    by simp
  have mv: "heap_memmove q p ?c m (b + i) = m (b + i)" if "(b, k) \<in> heap_regions h" "i < k" for b k i
  proof -
    have "\<not> (unat q \<le> b + i \<and> b + i < unat q + unat ?c)" using disj [OF that(1)] that(2) cle(2) by linarith
    then show ?thesis by (auto simp: heap_memmove_def copy_in_def)
  qed
  have "heap_memmove q p ?c m (unat q + i) = m (unat p + i)" if "i < min (unat old) (unat sz)" for i
    using that uc by (simp add: heap_memmove_def copy_in_def)
  with mv regs fr(1) show "realloc_post (unat p) (unat old) (unat sz) h m (unat q) h'"
    by (auto simp: realloc_post_def h')
qed

lemma realloc_in_place:
  assumes "heap_inv h'" "m_rdram h' = Some m" "m_guestHeapConfigured h'" "unat r = (n + 15) div 16 * 16"
    and "regions (m_guestHeapBlocks h') = insert (unat p, unat r) (heap_regions h - {(unat p, old)})"
  shows "realloc_post (unat p) old n h m (unat p) h'"
  using assms by (auto simp: realloc_post_def heap_regions_def)

text \<open>
  C10 (reallocation): on an allocated region, \<open>guestRealloc\<close> either returns null and leaves all
  regions and all memory as they are, or returns a region of the rounded new size that replaces the
  old one, keeps the first \<open>min(old, new)\<close> bytes of its contents, and leaves every other
  allocated region and its contents alone, whether it shrinks, grows in place or moves.
\<close>

theorem guestRealloc_preserves:
  fixes p old :: u32
  assumes inv: "heap_inv h" and m: "m_rdram h = Some m" and reg: "(unat p, unat old) \<in> heap_regions h"
    and nz: "newSize \<noteq> 0" and res: "guestRealloc p newSize al h = (q, h')"
  shows "(q = 0 \<longrightarrow> heap_regions h' = heap_regions h \<and> m_rdram h' = Some m)
    \<and> (q \<noteq> 0 \<longrightarrow> realloc_post (unat p) (unat old) (unat newSize) h m (unat q) h')"
proof (cases "newSize > u32_max - 15")
  case True
  have "p \<noteq> 0" using heap_regions_bounds(4) [OF inv reg] by auto
  with True nz res m show ?thesis by (auto simp: guestRealloc_def kGuestHeapDefaultAlignment_def)
next
  case False
  have p0: "p \<noteq> 0" using heap_regions_bounds(4) [OF inv reg] by auto
  have cfg: "m_guestHeapConfigured h" using reg by (auto simp: heap_regions_def split: if_splits)
  let ?r = "alignGuestHeapValue newSize kGuestHeapDefaultAlignment"
  have "unat newSize \<le> 2 ^ 32 - 16" using False by (simp add: u32_max_def word_less_nat_alt)
  from align16 [OF this] have r: "unat ?r = (unat newSize + 15) div 16 * 16" .
  have "unat newSize > 0" using nz by (simp add: unat_gt_0)
  then have r16: "16 dvd unat ?r" "0 < unat ?r" by (simp_all add: r div_greater_zero_iff)
  obtain ps b qs where bs: "m_guestHeapBlocks h = ps @ b # qs" and b: "\<not> hb_free b" "hb_addr b = p" "b_len b = unat old"
    and f: "findGuestHeapBlockIndexLocked p h = Some (length ps)" using inv reg by (rule heap_region_block)
  have old: "hb_size b = old" using b(3) by (simp add: word_unat_eq_iff)
  note i = heap_invD [OF inv cfg]
  note sr = blocks_split_regions [OF inv cfg bs b(1), unfolded b(2,3)]
  let ?bs1 = "coalesce (ps @ [b\<lparr>hb_size := ?r\<rparr>, \<lparr>hb_addr = hb_addr b + ?r, hb_size = hb_size b - ?r, hb_free = True\<rparr>] @ qs)"
  have step: "guestRealloc p newSize al h =
     (if ?r \<le> old then if ?r < old then (p, h\<lparr>m_guestHeapBlocks := ?bs1\<rparr>) else (p, h)
      else case grow_in_place (length ps) ?r (ps @ b # qs) of
          Some bs' \<Rightarrow> (p, h\<lparr>m_guestHeapBlocks := bs', m_guestHeapEnd := max (m_guestHeapEnd h) (p + ?r)\<rparr>)
        | None \<Rightarrow> move_block p old newSize (normalizeGuestHeapAlignment al) h)"
  proof -
    have "\<not> newSize > u32_max - (kGuestHeapDefaultAlignment - 1)"
      using False by (simp add: kGuestHeapDefaultAlignment_def)
    with p0 nz f bs b old show ?thesis
      by (auto simp: guestRealloc_def Let_def ensure_id cfg coalesceGuestHeapLocked_def split: option.split)
  qed
  consider (shrink) "?r < old" | (same) "?r = old" | (grow) bs' where "old < ?r" "grow_in_place (length ps) ?r (ps @ b # qs) = Some bs'"
    | (move) "old < ?r" "grow_in_place (length ps) ?r (ps @ b # qs) = None"
    by (cases "grow_in_place (length ps) ?r (ps @ b # qs)"; cases ?r old rule: linorder_cases) auto
  then show ?thesis
  proof cases
    case shrink
    note sb = shrink_blocks [OF i(1) [unfolded bs] i(2) i(3) [unfolded bs] b(1) r16(2) _ r16(1)]
    have lt: "unat ?r < b_len b" using shrink b(3) by (simp add: word_less_nat_alt)
    have "heap_inv (h\<lparr>m_guestHeapBlocks := ?bs1, m_guestHeapEnd := m_guestHeapEnd h\<rparr>)"
      using inv cfg bs sb(1-3) [OF lt] by (intro heap_inv_blocks) (auto simp: blocks_ok_def heap_inv_def)
    then have "heap_inv (h\<lparr>m_guestHeapBlocks := ?bs1\<rparr>)" by simp
    from realloc_in_place [OF this _ _ r, of m p h "unat old"] m cfg sb(4) [OF lt] sr b(2)
    have "realloc_post (unat p) (unat old) (unat newSize) h m (unat p) (h\<lparr>m_guestHeapBlocks := ?bs1\<rparr>)" by simp
    moreover have "q = p" "h' = h\<lparr>m_guestHeapBlocks := ?bs1\<rparr>" using res step shrink less_imp_le [OF shrink] by simp_all
    ultimately show ?thesis using p0 by simp
  next
    case same
    have "insert (unat p, unat ?r) (heap_regions h - {(unat p, unat old)}) = heap_regions h"
      using reg same by auto
    with cfg have "regions (m_guestHeapBlocks h) = insert (unat p, unat ?r) (heap_regions h - {(unat p, unat old)})"
      by (simp add: heap_regions_def)
    from realloc_in_place [OF inv m cfg r this] have "realloc_post (unat p) (unat old) (unat newSize) h m (unat p) h" .
    moreover have "q = p" "h' = h" using res step same by simp_all
    ultimately show ?thesis using p0 by simp
  next
    case (grow bs')
    have lt: "b_len b < unat ?r" using grow b(3) by (simp add: word_less_nat_alt)
    note gb = grow_blocks [OF i(1) [unfolded bs] i(2) i(3,4) [unfolded bs] b(1) lt r16(1) grow(2)]
    have e: "unat (p + ?r) = unat p + unat ?r" using gb(5) i(2) b(2) by (intro unat_plus_simple) simp
    have "heap_inv (h\<lparr>m_guestHeapBlocks := bs', m_guestHeapEnd := max (m_guestHeapEnd h) (p + ?r)\<rparr>)"
      using inv cfg bs gb(1-3,5) e b(2)
      by (intro heap_inv_blocks) (auto simp: blocks_ok_def heap_inv_def word_le_nat_alt max_def)
    from realloc_in_place [OF this _ _ r, of m p h "unat old"] m cfg gb(4) sr b(2)
    have "realloc_post (unat p) (unat old) (unat newSize) h m (unat p)
        (h\<lparr>m_guestHeapBlocks := bs', m_guestHeapEnd := max (m_guestHeapEnd h) (p + ?r)\<rparr>)" by simp
    moreover have "q = p" "h' = h\<lparr>m_guestHeapBlocks := bs', m_guestHeapEnd := max (m_guestHeapEnd h) (p + ?r)\<rparr>"
      using res step grow(2) not_le [THEN iffD2, OF grow(1)] by auto
    ultimately show ?thesis using p0 by simp
  next
    case move
    with step res have "move_block p old newSize (normalizeGuestHeapAlignment al) h = (q, h')"
      using not_le [THEN iffD2, OF move(1)] by auto
    from move_block_spec [OF inv cfg m reg this] m show ?thesis by auto
  qed
qed

theorem guestRealloc_preserves_witness:
  "\<exists>q h'. guestRealloc 0x100FC0 20 16 (snd (guestMalloc 60 64 demo_heap)) = (q, h') \<and> q \<noteq> 0
     \<and> realloc_post 0x100FC0 64 20 (snd (guestMalloc 60 64 demo_heap)) (\<lambda>_. 0) (unat q) h'"
proof -
  let ?h = "snd (guestMalloc 60 64 demo_heap)"
  have inv: "heap_inv ?h" using guestMalloc_cases(1) [OF demo_heap_inv demo_malloc] by (simp add: demo_malloc)
  have m: "m_rdram ?h = Some (\<lambda>_. 0)" by (simp add: demo_malloc demo_heap_blocks)
  have reg: "(unat (0x100FC0 :: u32), unat (64 :: u32)) \<in> heap_regions ?h"
    by (simp add: demo_malloc heap_regions_def demo_heap_blocks)
  have "fst (guestRealloc 0x100FC0 20 16 ?h) = 0x100FC0"
    by (simp add: demo_malloc guestRealloc_def ensure_id demo_heap_blocks findGuestHeapBlockIndexLocked_def
        kGuestHeapDefaultAlignment_def u32_max_def alignGuestHeapValue_def ram_defs Let_def)
  then obtain h' where r: "guestRealloc 0x100FC0 20 16 ?h = (0x100FC0, h')" by (metis prod.collapse)
  from guestRealloc_preserves [OF inv m reg _ r] r show ?thesis by auto
qed

end
