(* ===== verification/Thread.thy ===== *)
theory Thread
  imports Semaphore GuestHeap
begin

text \<open>
  The thread syscalls of \<open>Kernel/Syscalls/Thread.cpp\<close>.  Those that give the processor up are cut
  there, like \<open>WaitSema\<close>: \<open>SleepThread\<close> and \<open>SleepThread_wake\<close>, \<open>SuspendThread\<close> and
  \<open>SuspendThread_wake\<close>, \<open>TerminateThread\<close> and the join that follows it.  The syscalls that create,
  start and end threads also use the guest heap, the exit handlers and the active-thread count;
  their state is \<open>tsys\<close>.
\<close>

abbreviation (input) KE_NO_MEMORY :: int where "KE_NO_MEMORY \<equiv> - 400"
abbreviation (input) KE_ILLEGAL_PRIORITY :: int where "KE_ILLEGAL_PRIORITY \<equiv> - 403"
abbreviation (input) KE_DORMANT :: int where "KE_DORMANT \<equiv> - 413"
abbreviation (input) KE_NOT_DORMANT :: int where "KE_NOT_DORMANT \<equiv> - 414"
abbreviation (input) KE_NOT_SUSPEND :: int where "KE_NOT_SUSPEND \<equiv> - 415"
abbreviation (input) TSW_SLEEP :: int where "TSW_SLEEP \<equiv> 1"

section \<open>Sleeping and waking\<close>

definition SleepThread :: "caller \<Rightarrow> r5900 \<Rightarrow> kern \<Rightarrow> wait_out \<times> kern" where
  "SleepThread c ctx k =
     (case currentInfo c ctx k of (info, k) \<Rightarrow>
        if c_self c \<noteq> None \<and> info = None then (Return KE_UNKNOWN_THID, k)
        else if isTerminated info k then (Throw, k)
        else case info of
          None \<Rightarrow> (Return 0, on_sched (\<lambda>s. snd (block_current None s)) k)
        | Some t \<Rightarrow>
            if ti_wakeupCount (t_obj k t) > 0
            then (Finish 0, upd_thread t (\<lambda>i. i\<lparr>ti_wakeupCount := ti_wakeupCount i - 1,
                    ti_status := THS_RUN, ti_waitType := TSW_NONE, ti_waitId := 0\<rparr>) k)
            else (Block, upd_thread t (\<lambda>i. i\<lparr>ti_status := THS_WAIT, ti_waitType := TSW_SLEEP,
                    ti_waitId := 0, forceRelease := False\<rparr>) k))"

text \<open>From the return of the wait to the next wait or to the end of the loop.\<close>

definition SleepThread_wake :: "nat \<Rightarrow> kern \<Rightarrow> wait_out \<times> kern" where
  "SleepThread_wake t k =
     (let i = t_obj k t;
          run = (\<lambda>i. i\<lparr>ti_status := THS_RUN, ti_waitType := TSW_NONE, ti_waitId := 0\<rparr>)
      in if terminated i then (Throw, k)
         else if forceRelease i
         then (Finish KE_RELEASE_WAIT, upd_thread t (\<lambda>i. run (i\<lparr>forceRelease := False\<rparr>)) k)
         else if ti_wakeupCount i > 0
         then (Finish 0, upd_thread t (\<lambda>i. run (i\<lparr>ti_wakeupCount := ti_wakeupCount i - 1\<rparr>)) k)
         else (Block, upd_thread t (\<lambda>i. i\<lparr>ti_status := THS_WAIT, ti_waitType := TSW_SLEEP, ti_waitId := 0\<rparr>) k))"

text \<open>Making a thread ready and yielding to it if it is more urgent.\<close>

definition ready_and_yield :: "caller \<Rightarrow> int \<Rightarrow> kern \<Rightarrow> kern" where
  "ready_and_yield c tid k = on_sched (\<lambda>s. snd (maybe_yield (c_self c) (make_ready tid s))) k"

text \<open>The thread record of a target that leaves its wait.\<close>

definition leave_wait_status :: "thread_info \<Rightarrow> thread_info" where
  "leave_wait_status i = i\<lparr>ti_status := (if ti_suspendCount i > 0 then THS_SUSPEND else THS_READY),
     ti_waitType := TSW_NONE, ti_waitId := 0\<rparr>"

definition WakeupThread :: "caller \<Rightarrow> r5900 \<Rightarrow> kern \<Rightarrow> r5900 \<times> kern" where
  "WakeupThread c ctx k =
     (let tid = to_int (getRegU32 ctx 4)
      in if tid = 0 then (setReturnS32 ctx KE_ILLEGAL_THID, k)
         else if tid = c_tid c then (setReturnS32 ctx KE_ILLEGAL_THID, k)
         else case lookupThreadInfo tid k of
           None \<Rightarrow> (setReturnS32 ctx KE_UNKNOWN_THID, k)
         | Some t \<Rightarrow>
             if ti_status (t_obj k t) = THS_DORMANT then (setReturnS32 ctx KE_DORMANT, k)
             else if ti_status (t_obj k t) = THS_WAIT \<and> ti_waitType (t_obj k t) = TSW_SLEEP
             then (setReturnS32 ctx KE_OK, ready_and_yield c tid
                    (upd_thread t (\<lambda>i. (leave_wait_status i)\<lparr>ti_wakeupCount := ti_wakeupCount i + 1\<rparr>) k))
             else (setReturnS32 ctx KE_OK,
                   upd_thread t (\<lambda>i. i\<lparr>ti_wakeupCount := ti_wakeupCount i + 1\<rparr>) k))"

definition iWakeupThread :: "caller \<Rightarrow> r5900 \<Rightarrow> kern \<Rightarrow> r5900 \<times> kern" where
  "iWakeupThread c ctx k = WakeupThread c ctx k"

definition CancelWakeupThread :: "caller \<Rightarrow> r5900 \<Rightarrow> kern \<Rightarrow> r5900 \<times> kern" where
  "CancelWakeupThread c ctx k =
     (case resolveSelfOrThread c ctx (to_int (getRegU32 ctx 4)) k of
        (Inl err, k) \<Rightarrow> (setReturnS32 ctx err, k)
      | (Inr (tid, t), k) \<Rightarrow>
          (setReturnS32 ctx (ti_wakeupCount (t_obj k t)), upd_thread t (\<lambda>i. i\<lparr>ti_wakeupCount := 0\<rparr>) k))"

definition iCancelWakeupThread :: "r5900 \<Rightarrow> kern \<Rightarrow> r5900 \<times> kern" where
  "iCancelWakeupThread ctx k =
     (let tid = to_int (getRegU32 ctx 4)
      in if tid = 0 then (setReturnS32 ctx KE_ILLEGAL_THID, k)
         else case lookupThreadInfo tid k of
           None \<Rightarrow> (setReturnS32 ctx KE_UNKNOWN_THID, k)
         | Some t \<Rightarrow>
             (setReturnS32 ctx (ti_wakeupCount (t_obj k t)), upd_thread t (\<lambda>i. i\<lparr>ti_wakeupCount := 0\<rparr>) k))"

definition ReleaseWaitThread :: "caller \<Rightarrow> r5900 \<Rightarrow> kern \<Rightarrow> r5900 \<times> kern" where
  "ReleaseWaitThread c ctx k =
     (let tid = to_int (getRegU32 ctx 4)
      in if tid = 0 \<or> tid = c_tid c then (setReturnS32 ctx KE_ILLEGAL_THID, k)
         else case lookupThreadInfo tid k of
           None \<Rightarrow> (setReturnS32 ctx KE_UNKNOWN_THID, k)
         | Some t \<Rightarrow>
             if ti_status (t_obj k t) = THS_WAIT \<or> ti_status (t_obj k t) = THS_WAITSUSPEND
             then (setReturnS32 ctx KE_OK, ready_and_yield c tid
                    (upd_thread t (\<lambda>i. (leave_wait_status i)\<lparr>forceRelease := True\<rparr>) k))
             else (setReturnS32 ctx KE_NOT_WAIT, k))"

definition iReleaseWaitThread :: "caller \<Rightarrow> r5900 \<Rightarrow> kern \<Rightarrow> r5900 \<times> kern" where
  "iReleaseWaitThread c ctx k = ReleaseWaitThread c ctx k"

section \<open>Suspending and resuming\<close>

definition applySuspendStatusLocked :: "thread_info \<Rightarrow> thread_info" where
  "applySuspendStatusLocked i =
     i\<lparr>ti_status := (if ti_waitType i \<noteq> TSW_NONE then THS_WAITSUSPEND else THS_SUSPEND)\<rparr>"

text \<open>\<open>Block\<close> is the call of \<open>suspend_self\<close> by a thread that suspends itself.\<close>

definition SuspendThread :: "caller \<Rightarrow> r5900 \<Rightarrow> kern \<Rightarrow> wait_out \<times> kern" where
  "SuspendThread c ctx k =
     (case resolveSelfOrThread c ctx (to_int (getRegU32 ctx 4)) k of
        (Inl err, k) \<Rightarrow> (Return err, k)
      | (Inr (tid, t), k) \<Rightarrow>
          if ti_status (t_obj k t) = THS_DORMANT then (Return KE_DORMANT, k)
          else let k = upd_thread t
                 (\<lambda>i. applySuspendStatusLocked (i\<lparr>ti_suspendCount := ti_suspendCount i + 1\<rparr>)) k
            in if tid = c_tid c
               then (if terminated (t_obj k t) then (Throw, k) else (Block, k))
               else (Return KE_OK, on_sched (suspend_other tid) k))"

definition SuspendThread_wake :: "nat \<Rightarrow> kern \<Rightarrow> wait_out \<times> kern" where
  "SuspendThread_wake t k =
     (if terminated (t_obj k t) then (Throw, k)
      else (Return KE_OK, upd_thread t (\<lambda>i. i\<lparr>ti_status := THS_RUN\<rparr>) k))"

definition resume_info :: "bool \<Rightarrow> thread_info \<Rightarrow> thread_info" where
  "resume_info is_self i =
     (let i = i\<lparr>ti_suspendCount := ti_suspendCount i - 1\<rparr>
      in if ti_suspendCount i = 0
         then i\<lparr>ti_status := (if ti_waitType i \<noteq> TSW_NONE then THS_WAIT
                              else if is_self then THS_RUN else THS_READY)\<rparr>
         else i)"

definition ResumeThread :: "caller \<Rightarrow> r5900 \<Rightarrow> kern \<Rightarrow> r5900 \<times> kern" where
  "ResumeThread c ctx k =
     (case resolveSelfOrThread c ctx (to_int (getRegU32 ctx 4)) k of
        (Inl err, k) \<Rightarrow> (setReturnS32 ctx err, k)
      | (Inr (tid, t), k) \<Rightarrow>
          if ti_status (t_obj k t) = THS_DORMANT then (setReturnS32 ctx KE_DORMANT, k)
          else if ti_suspendCount (t_obj k t) \<le> 0 then (setReturnS32 ctx KE_NOT_SUSPEND, k)
          else let k = upd_thread t (resume_info (tid = c_tid c)) k
            in (setReturnS32 ctx KE_OK,
                if ti_suspendCount (t_obj k t) = 0
                then on_sched (\<lambda>s. snd (maybe_yield (c_self c) (clear_suspend tid s))) k else k))"

section \<open>Priorities and status\<close>

definition GetThreadId :: "caller \<Rightarrow> r5900 \<Rightarrow> r5900" where
  "GetThreadId c ctx = setReturnS32 ctx (c_tid c)"

definition referThreadStatusImpl :: "caller \<Rightarrow> r5900 \<Rightarrow> kern \<Rightarrow> r5900 \<times> kern" where
  "referThreadStatusImpl c ctx k =
     (case resolveSelfOrThread c ctx (to_int (getRegU32 ctx 4)) k of
        (Inl err, k) \<Rightarrow> (setReturnS32 ctx err, k)
      | (Inr (tid, t), k) \<Rightarrow>
          (case getMemPtr False False (getRegU32 ctx 5) of
             None \<Rightarrow> (setReturnS32 ctx KE_ERROR, k)
           | Some p \<Rightarrow>
               let i = t_obj k t
               in (setReturnS32 ctx KE_OK,
                   store_words p [of_int32 (ti_status i), ti_entry i, ti_stack i, ti_stackSize i, ti_gp i,
                     ti_priority i, of_int32 (ti_currentPriority i), ti_attr i, ti_option i,
                     of_int32 (ti_waitType i), of_int32 (ti_waitId i), of_int32 (ti_wakeupCount i)] k)))"

text \<open>The environment variable \<open>PS2X_REFSTAT_YIELD\<close> is the argument \<open>refstatYield\<close>.\<close>

definition ReferThreadStatus :: "bool \<Rightarrow> caller \<Rightarrow> r5900 \<Rightarrow> kern \<Rightarrow> r5900 \<times> kern" where
  "ReferThreadStatus refstatYield c ctx k =
     (case referThreadStatusImpl c ctx k of (ctx, k) \<Rightarrow>
        (ctx, if refstatYield then on_sched (\<lambda>s. snd (force_reschedule (c_self c) s)) k else k))"

definition iReferThreadStatus :: "caller \<Rightarrow> r5900 \<Rightarrow> kern \<Rightarrow> r5900 \<times> kern" where
  "iReferThreadStatus c ctx k = referThreadStatusImpl c ctx k"

definition ChangeThreadPriority :: "caller \<Rightarrow> r5900 \<Rightarrow> kern \<Rightarrow> r5900 \<times> kern" where
  "ChangeThreadPriority c ctx k =
     (case resolveSelfOrThread c ctx (to_int (getRegU32 ctx 4)) k of
        (Inl err, k) \<Rightarrow> (setReturnS32 ctx err, k)
      | (Inr (tid, t), k) \<Rightarrow>
          if ti_status (t_obj k t) = THS_DORMANT then (setReturnS32 ctx KE_DORMANT, k)
          else let cur = ti_currentPriority (t_obj k t); req = to_int (getRegU32 ctx 5);
                   newPrio = (if req = 0 then (if cur > 0 then cur else 1) else req)
            in if newPrio \<le> 0 \<or> newPrio \<ge> 128 then (setReturnS32 ctx KE_ILLEGAL_PRIORITY, k)
               else (setReturnS32 ctx KE_OK,
                     on_sched (\<lambda>s. snd (force_reschedule (c_self c) (update_priority tid newPrio s)))
                       (upd_thread t (\<lambda>i. i\<lparr>ti_currentPriority := newPrio\<rparr>) k)))"

definition iChangeThreadPriority :: "caller \<Rightarrow> r5900 \<Rightarrow> kern \<Rightarrow> r5900 \<times> kern" where
  "iChangeThreadPriority c ctx k = ChangeThreadPriority c ctx k"

definition RotateThreadReadyQueue :: "caller \<Rightarrow> r5900 \<Rightarrow> kern \<Rightarrow> r5900 \<times> kern" where
  "RotateThreadReadyQueue c ctx k =
     (let req = to_int (getRegU32 ctx 4)
      in if req = 0 \<and> c_tid c = - 1 then (setReturnS32 ctx KE_ILLEGAL_THID, k)
         else let (prio, k) =
                (if req = 0
                 then (case ensureCurrentThreadInfo c ctx k of (t, k) \<Rightarrow>
                         (let cur = ti_currentPriority (t_obj k t) in if cur > 0 then cur else 1, k))
                 else (req, k))
           in if prio \<le> 0 \<or> prio \<ge> 128 then (setReturnS32 ctx KE_ILLEGAL_PRIORITY, k)
              else (setReturnS32 ctx KE_OK,
                    on_sched (\<lambda>s. snd (maybe_yield (c_self c) (rotate_ready_queue prio s))) k))"

definition iRotateThreadReadyQueue :: "caller \<Rightarrow> r5900 \<Rightarrow> kern \<Rightarrow> r5900 \<times> kern" where
  "iRotateThreadReadyQueue c ctx k = RotateThreadReadyQueue c ctx k"

end
