(* ===== verification/ThreadLife.thy ===== *)
theory ThreadLife
  imports Thread
begin

text \<open>
  Creating, starting, ending and deleting threads (\<open>Kernel/Syscalls/Thread.cpp\<close>).  The runtime a
  syscall gets is \<open>rt_env\<close>: which guest addresses have recompiled code, whether a stop was
  requested, what the allocation of a fiber gives, and \<open>invoke\<close>, the effect of running a guest
  function (\<open>rpcInvokeFunction\<close>), of which nothing is assumed here.
\<close>

section \<open>State\<close>

record tsys =
  ts_kern :: kern
  ts_heap :: guest_heap
  g_nextThreadId :: int
  g_activeThreads :: int
  g_exit_handlers :: "int \<rightharpoonup> (u32 \<times> u32) list"
  g_stackRanges :: "int \<rightharpoonup> u32 \<times> u32"

record rt_env =
  hasFunction :: "u32 \<Rightarrow> bool"
  stopRequested :: bool
  fiber_alloc_ok :: bool
  fiber_addr :: ptr
  invoke :: "u32 \<Rightarrow> u32 \<Rightarrow> tsys \<Rightarrow> tsys"

definition on_kern :: "(kern \<Rightarrow> kern) \<Rightarrow> tsys \<Rightarrow> tsys" where
  "on_kern f st = st\<lparr>ts_kern := f (ts_kern st)\<rparr>"

abbreviation (input) thread_of :: "tsys \<Rightarrow> nat \<Rightarrow> thread_info" where
  "thread_of st t \<equiv> t_obj (ts_kern st) t"

section \<open>CreateThread\<close>

text \<open>Words read through a pointer that \<open>getConstMemPtr\<close> returned for the first one.\<close>

definition load_words :: "host_ptr \<Rightarrow> nat \<Rightarrow> kern \<Rightarrow> u32 list" where
  "load_words p n k =
     (case p of
        RdramPtr off \<Rightarrow> map (\<lambda>i. word_of_bytes (copy_out (k_rdram k) (unat off + 4 * i) 4)) [0..<n]
      | ScratchPtr off \<Rightarrow> map (\<lambda>i. word_of_bytes (copy_out (k_spad k) (unat off + 4 * i) 4)) [0..<n])"

definition looksLikeGuestPtr :: "u32 \<Rightarrow> bool" where
  "looksLikeGuestPtr v =
     (if v = 0 then True else (v AND 0x1FFFFFFF) < PS2_RAM_SIZE \<and> (v AND 0x1FFFFFFF) \<ge> 0x10000)"

definition looksLikePriority :: "u32 \<Rightarrow> bool" where
  "looksLikePriority v = (v \<le> 0x400)"

definition new_thread :: "u32 list \<Rightarrow> thread_info" where
  "new_thread param =
     (let gpA = param ! 4; prioA = param ! 5; gpB = param ! 5; prioB = param ! 4;
          (gp, prio) =
            (if looksLikeGuestPtr gpA \<and> looksLikePriority prioA then (gpA, prioA)
             else if looksLikeGuestPtr gpB \<and> looksLikePriority prioB then (gpB, prioB)
             else (gpA, prioA));
          prio = (if prio = 0 then 1 else prio);
          prio = (if prio \<ge> 128 then 127 else prio)
      in thread_info_init\<lparr>ti_attr := param ! 0, ti_entry := param ! 1, ti_stack := param ! 2,
           ti_stackSize := param ! 3, ti_gp := gp, ti_priority := prio, ti_option := param ! 6,
           ti_currentPriority := to_int prio\<rparr>)"

fun alloc_thread_id :: "nat \<Rightarrow> (int \<rightharpoonup> nat) \<Rightarrow> int \<Rightarrow> int option \<times> int" where
  "alloc_thread_id 0 threads nxt = (None, nxt)"
| "alloc_thread_id (Suc n) threads nxt =
     (let candidate = (if nxt < 2 \<or> nxt > 0xFF then 2 else nxt);
          nxt' = (if candidate \<ge> 0xFF then 2 else candidate + 1)
      in if threads candidate = None then (Some candidate, nxt') else alloc_thread_id n threads nxt')"

definition CreateThread :: "r5900 \<Rightarrow> tsys \<Rightarrow> r5900 \<times> tsys" where
  "CreateThread ctx st =
     (let paramAddr = getRegU32 ctx 4; k = ts_kern st
      in if paramAddr = 0 then (setReturnS32 ctx KE_ERROR, st)
         else case getMemPtr False False paramAddr of
           None \<Rightarrow> (setReturnS32 ctx KE_ERROR, st)
         | Some p \<Rightarrow>
             (case alloc_thread_id 0xFE (g_threads k) (g_nextThreadId st) of
                (None, nxt) \<Rightarrow> (setReturnS32 ctx KE_ERROR, st\<lparr>g_nextThreadId := nxt\<rparr>)
              | (Some tid, nxt) \<Rightarrow>
                  (setReturnS32 ctx tid,
                   st\<lparr>g_nextThreadId := nxt,
                      ts_kern := k\<lparr>g_threads := (g_threads k)(tid \<mapsto> t_next k), t_next := Suc (t_next k),
                                   t_obj := (t_obj k)(t_next k := new_thread (load_words p 7 k))\<rparr>\<rparr>)))"

section \<open>DeleteThread\<close>

text \<open>The stack a thread got from the guest heap, taken out of its record; 0 when there is none.\<close>

definition take_stack :: "thread_info \<Rightarrow> u32 \<times> thread_info" where
  "take_stack i =
     (if ti_ownsStack i \<and> ti_stack i \<noteq> 0
      then (ti_stack i, i\<lparr>ti_stack := 0, ti_stackSize := 0, ti_ownsStack := False\<rparr>) else (0, i))"

definition free_stack :: "nat \<Rightarrow> tsys \<Rightarrow> tsys" where
  "free_stack t st =
     (let stk = fst (take_stack (thread_of st t));
          st = on_kern (upd_thread t (\<lambda>i. snd (take_stack i))) st
      in if stk \<noteq> 0 then st\<lparr>ts_heap := guestFree stk (ts_heap st)\<rparr> else st)"

definition DeleteThread :: "r5900 \<Rightarrow> tsys \<Rightarrow> r5900 \<times> tsys" where
  "DeleteThread ctx st =
     (let tid = to_int (getRegU32 ctx 4)
      in if tid = 0 then (setReturnS32 ctx KE_ILLEGAL_THID, st)
         else case lookupThreadInfo tid (ts_kern st) of
           None \<Rightarrow> (setReturnS32 ctx KE_UNKNOWN_THID, st)
         | Some t \<Rightarrow>
             if ti_started (thread_of st t) \<or> ti_status (thread_of st t) \<noteq> THS_DORMANT
             then (setReturnS32 ctx KE_NOT_DORMANT, st)
             else let st = free_stack t st;
                      st = on_kern (\<lambda>k. k\<lparr>g_threads := (g_threads k)(tid := None)\<rparr>) st
               in (setReturnS32 ctx KE_OK, st\<lparr>g_exit_handlers := (g_exit_handlers st)(tid := None)\<rparr>))"

section \<open>StartThread\<close>

definition mintActiveToken :: "nat \<Rightarrow> tsys \<Rightarrow> tsys" where
  "mintActiveToken t st =
     on_kern (upd_thread t (\<lambda>i. i\<lparr>activeCounted := True\<rparr>)) (st\<lparr>g_activeThreads := g_activeThreads st + 1\<rparr>)"

definition consumeActiveToken :: "nat option \<Rightarrow> tsys \<Rightarrow> tsys" where
  "consumeActiveToken info st =
     (case info of
        None \<Rightarrow> st
      | Some t \<Rightarrow>
          if activeCounted (thread_of st t)
          then on_kern (upd_thread t (\<lambda>i. i\<lparr>activeCounted := False\<rparr>)) (st\<lparr>g_activeThreads := g_activeThreads st - 1\<rparr>)
          else st)"

definition ps2x_stack_register :: "int \<Rightarrow> u32 \<Rightarrow> u32 \<Rightarrow> tsys \<Rightarrow> tsys" where
  "ps2x_stack_register tid lo hi st = st\<lparr>g_stackRanges := (g_stackRanges st)(tid \<mapsto> (lo, hi))\<rparr>"

text \<open>
  The stack guard; \<open>on_irq\<close> is the answer of \<open>ps2x_on_irq_handler_stack\<close>.  The counters and
  records of the violations are left out.
\<close>

definition ps2x_stack_check :: "bool \<Rightarrow> int \<Rightarrow> u32 \<Rightarrow> tsys \<Rightarrow> bool" where
  "ps2x_stack_check on_irq tid sp st =
     (if on_irq then False
      else case g_stackRanges st tid of
        None \<Rightarrow> False
      | Some (lo, hi) \<Rightarrow> \<not> (hi = 0 \<or> (sp \<ge> lo \<and> sp < hi)))"

definition start_info :: "u32 \<Rightarrow> thread_info \<Rightarrow> thread_info" where
  "start_info arg i = i\<lparr>ti_started := True, ti_status := THS_READY, ti_arg := arg, terminated := False,
     forceRelease := False, ti_waitType := TSW_NONE, ti_waitId := 0, ti_wakeupCount := 0,
     ti_suspendCount := 0\<rparr>"

text \<open>The stack fixups of the same critical section.\<close>

definition start_stack :: "nat \<Rightarrow> tsys \<Rightarrow> tsys" where
  "start_stack t st =
     (let i = thread_of st t;
          st = (if ti_stack i = 0 \<and> ti_stackSize i \<noteq> 0
                then case guestMalloc (ti_stackSize i) 16 (ts_heap st) of (a, h) \<Rightarrow>
                       let st = st\<lparr>ts_heap := h\<rparr>
                       in if a \<noteq> 0 then on_kern (upd_thread t (\<lambda>i. i\<lparr>ti_stack := a, ti_ownsStack := True\<rparr>)) st
                          else st
                else st)
      in on_kern (upd_thread t (\<lambda>i. if ti_stack i \<noteq> 0 \<and> ti_stackSize i = 0 then i\<lparr>ti_stackSize := 0x800\<rparr> else i)) st)"

definition stack_size :: "thread_info \<Rightarrow> u32" where
  "stack_size i = (if ti_stackSize i \<noteq> 0 then ti_stackSize i else 0x800)"

definition thread_sp :: "u32 \<Rightarrow> thread_info \<Rightarrow> u32" where
  "thread_sp callerSp i =
     (if ti_stack i \<noteq> 0 then (ti_stack i + stack_size i) AND NOT 0xF else callerSp)"

definition thread_gp :: "u32 \<Rightarrow> thread_info \<Rightarrow> u32" where
  "thread_gp callerGp i =
     (let gp = ti_gp i; n = gp AND 0x1FFFFFFF
      in if gp = 0 \<or> n < 0x10000 \<or> n \<ge> PS2_RAM_SIZE then callerGp else gp)"

text \<open>From the fiber creation on, with the thread record and its stack prepared.\<close>

definition start_fiber :: "rt_env \<Rightarrow> caller \<Rightarrow> r5900 \<Rightarrow> int \<Rightarrow> nat \<Rightarrow> tsys \<Rightarrow> r5900 \<times> tsys" where
  "start_fiber env c ctx tid t st =
     (let i = thread_of st t;
          prio = (if ti_currentPriority i > 0 then ti_currentPriority i else to_int (ti_priority i))
      in case create_fiber (fiber_alloc_ok env) (fiber_addr env) tid prio (ti_entry i)
                (thread_sp (getRegU32 ctx 29) i) (thread_gp (getRegU32 ctx 28) i) (getRegU32 ctx 5)
                (k_sched (ts_kern st)) of
           (Inl err, s) \<Rightarrow>
             (setReturnS32 ctx KE_NO_MEMORY,
              on_kern (upd_thread t (\<lambda>i. i\<lparr>ti_started := False, ti_status := THS_DORMANT\<rparr>))
                (consumeActiveToken (Some t) (on_kern (on_sched (\<lambda>_. s)) st)))
         | (Inr _, s) \<Rightarrow>
             (setReturnS32 ctx KE_OK,
              on_kern (on_sched (\<lambda>s. snd (maybe_yield (c_self c) s)))
                (on_kern (upd_thread t (\<lambda>i. if ti_status i \<noteq> THS_DORMANT then i\<lparr>ti_status := THS_READY\<rparr> else i))
                  (on_kern (on_sched (\<lambda>_. s)) st))))"

definition StartThread :: "rt_env \<Rightarrow> caller \<Rightarrow> r5900 \<Rightarrow> tsys \<Rightarrow> r5900 \<times> tsys" where
  "StartThread env c ctx st =
     (let tid = to_int (getRegU32 ctx 4)
      in if tid = 0 then (setReturnS32 ctx KE_ILLEGAL_THID, st)
         else case lookupThreadInfo tid (ts_kern st) of
           None \<Rightarrow> (setReturnS32 ctx KE_UNKNOWN_THID, st)
         | Some t \<Rightarrow>
             if \<not> hasFunction env (ti_entry (thread_of st t)) then (setReturnS32 ctx KE_ERROR, st)
             else if stopRequested env then (setReturnS32 ctx KE_ERROR, st)
             else if ti_started (thread_of st t) \<or> ti_status (thread_of st t) \<noteq> THS_DORMANT
             then (setReturnS32 ctx KE_NOT_DORMANT, st)
             else let st = start_stack t (on_kern (upd_thread t (start_info (getRegU32 ctx 5))) st);
                      i = thread_of st t;
                      st = (if ti_stack i \<noteq> 0
                            then ps2x_stack_register tid (ti_stack i) (ti_stack i + stack_size i) st
                            else ps2x_stack_register tid 0 0 st)
               in start_fiber env c ctx tid t (mintActiveToken t st))"

section \<open>Ending a thread\<close>

definition RegisterExitHandler :: "caller \<Rightarrow> r5900 \<Rightarrow> tsys \<Rightarrow> r5900 \<times> tsys" where
  "RegisterExitHandler c ctx st =
     (let func = getRegU32 ctx 4; arg = getRegU32 ctx 5; tid = c_tid c;
          old = (case g_exit_handlers st tid of None \<Rightarrow> [] | Some hs \<Rightarrow> hs)
      in if func = 0 then (setReturnS32 ctx (- 1), st)
         else (setReturnS32 ctx 0, st\<lparr>g_exit_handlers := (g_exit_handlers st)(tid \<mapsto> old @ [(func, arg)])\<rparr>))"

text \<open>Exceptions of a handler are swallowed, so running one is a step to some state.\<close>

definition runExitHandlersForThread :: "rt_env \<Rightarrow> int \<Rightarrow> tsys \<Rightarrow> tsys" where
  "runExitHandlersForThread env tid st =
     (case g_exit_handlers st tid of
        None \<Rightarrow> st
      | Some hs \<Rightarrow> fold (\<lambda>(f, a) st. if f = 0 then st else invoke env f a st) hs
                     (st\<lparr>g_exit_handlers := (g_exit_handlers st)(tid := None)\<rparr>))"

definition exit_info :: "thread_info \<Rightarrow> thread_info" where
  "exit_info i = i\<lparr>ti_started := False, ti_status := THS_DORMANT, ti_waitType := TSW_NONE, ti_waitId := 0,
     ti_wakeupCount := 0, ti_suspendCount := 0, forceRelease := False, terminated := False\<rparr>"

text \<open>
  The calls below run the handlers, which is guest code, and then go on; what comes after the
  handlers is a definition of its own.
\<close>

definition fiber_exit_finish :: "int \<Rightarrow> nat option \<Rightarrow> tsys \<Rightarrow> tsys" where
  "fiber_exit_finish tid info st =
     (case info of
        None \<Rightarrow> st
      | Some t \<Rightarrow>
          let st = on_kern (upd_thread t exit_info) st;
              st = (if g_threads (ts_kern st) tid = None then free_stack t st else st)
          in consumeActiveToken (Some t) st)"

definition on_fiber_exit :: "rt_env \<Rightarrow> int \<Rightarrow> tsys \<Rightarrow> tsys" where
  "on_fiber_exit env tid st =
     fiber_exit_finish tid (lookupThreadInfo tid (ts_kern st)) (runExitHandlersForThread env tid st)"

text \<open>Both calls end with the exit exception; the result is the state it is thrown in.\<close>

definition exit_finish :: "caller \<Rightarrow> r5900 \<Rightarrow> tsys \<Rightarrow> tsys" where
  "exit_finish c ctx st =
     (case ensureCurrentThreadInfo c ctx (ts_kern st) of (t, k) \<Rightarrow>
        st\<lparr>ts_kern := upd_thread t markSelfExitingLocked k\<rparr>)"

definition ExitThread :: "rt_env \<Rightarrow> caller \<Rightarrow> r5900 \<Rightarrow> tsys \<Rightarrow> tsys" where
  "ExitThread env c ctx st = exit_finish c ctx (runExitHandlersForThread env (c_tid c) st)"

definition exit_delete_finish :: "caller \<Rightarrow> r5900 \<Rightarrow> tsys \<Rightarrow> tsys" where
  "exit_delete_finish c ctx st =
     (case ensureCurrentThreadInfo c ctx (ts_kern st) of (t, k) \<Rightarrow>
        let k = upd_thread t markSelfExitingLocked k;
            k = k\<lparr>g_threads := (g_threads k)(c_tid c := None)\<rparr>
        in consumeActiveToken (Some t) (st\<lparr>ts_kern := k\<rparr>))"

definition ExitDeleteThread :: "rt_env \<Rightarrow> caller \<Rightarrow> r5900 \<Rightarrow> tsys \<Rightarrow> tsys" where
  "ExitDeleteThread env c ctx st = exit_delete_finish c ctx (runExitHandlersForThread env (c_tid c) st)"

text \<open>
  \<open>Block\<close> is the call of \<open>join_fiber\<close>, after which the syscall returns \<open>KE_OK\<close>; a thread that
  terminates itself runs its exit handlers and throws.
\<close>

definition terminate_mark :: "caller \<Rightarrow> r5900 \<Rightarrow> tsys \<Rightarrow> (wait_out + int) \<times> tsys" where
  "terminate_mark c ctx st =
     (case resolveSelfOrThread c ctx (to_int (getRegU32 ctx 4)) (ts_kern st) of
        (Inl err, k) \<Rightarrow> (Inl (Return err), st\<lparr>ts_kern := k\<rparr>)
      | (Inr (tid, t), k) \<Rightarrow>
          if ti_status (t_obj k t) = THS_DORMANT then (Inl (Return KE_DORMANT), st\<lparr>ts_kern := k\<rparr>)
          else let st = st\<lparr>ts_kern := upd_thread t (\<lambda>i. i\<lparr>terminated := True, forceRelease := True\<rparr>) k\<rparr>
            in if tid = c_tid c then (Inr tid, st)
               else (Inl Block, on_kern (on_sched (request_terminate tid)) st))"

definition TerminateThread :: "rt_env \<Rightarrow> caller \<Rightarrow> r5900 \<Rightarrow> tsys \<Rightarrow> wait_out \<times> tsys" where
  "TerminateThread env c ctx st =
     (case terminate_mark c ctx st of
        (Inl out, st) \<Rightarrow> (out, st)
      | (Inr tid, st) \<Rightarrow> (Throw, runExitHandlersForThread env tid st))"

end
