(* ===== verification/ThreadProps.thy ===== *)
theory ThreadProps
  imports Thread SemaphoreProps
begin

text \<open>
  The properties of the thread syscalls that act on running threads: a wakeup reaches a sleeping
  thread, also when it is suspended; nested suspensions and resumptions cancel out and open the
  scheduler's gate at the last one; and which calls fail and when.
\<close>

section \<open>Calls on another thread\<close>

lemma resolve_other:
  assumes "g_threads k (a0 ctx) = Some t" "a0 ctx \<noteq> 0" "a0 ctx \<noteq> c_tid c"
  shows "resolveSelfOrThread c ctx (to_int (getRegU32 ctx 4)) k = (Inr (a0 ctx, t), k)"
  using assms by (simp add: resolveSelfOrThread_def lookupThreadInfo_def a0_def)

lemma thread_fields [kern_simps]:
  "g_threads (upd_thread t f k) = g_threads k" "t_obj (upd_thread t f k) = (t_obj k)(t := f (t_obj k t))"
  "t_next (upd_thread t f k) = t_next k"
  "g_threads (on_sched h k) = g_threads k" "t_obj (on_sched h k) = t_obj k" "t_next (on_sched h k) = t_next k"
  by (simp_all add: upd_thread_def on_sched_def)

lemma make_ready_effective:
  assumes "queue_ok s" "fiber_for tid s = Some p" "fibers s p = Some f" "fc_suspendCount f = 0"
  shows "wake_effective (make_ready tid s) p"
  using assms wake_locked_effective [OF assms(1,3)] by (simp add: make_ready_def with_fiber_def)

lemma clear_suspend_effective:
  assumes "queue_ok s" "fiber_for tid s = Some p" "fibers s p = Some f"
  shows "wake_effective (clear_suspend tid s) p \<and>
    (\<exists>g. fibers (clear_suspend tid s) p = Some g \<and> fc_suspendCount g = 0)"
proof -
  let ?s = "upd_fiber p (\<lambda>f. f\<lparr>fc_suspendCount := 0\<rparr>) s"
  have s: "clear_suspend tid s = wake_locked p ?s" using assms(2,3) by (simp add: clear_suspend_def with_fiber_def)
  have f: "fibers ?s p = Some (f\<lparr>fc_suspendCount := 0\<rparr>)" using assms(3) by (simp add: sched_simps)
  have "queue_ok ?s" using assms(1) by (intro queue_ok_upd_fiber) auto
  then show ?thesis using wake_locked_effective [OF _ f] wake_locked_fiber [OF f] by (auto simp: s)
qed

lemma maybe_yield_count:
  "fibers s p = Some f \<Longrightarrow> \<exists>g. fibers (snd (maybe_yield self s)) p = Some g \<and> fc_suspendCount g = fc_suspendCount f"
  by (auto simp: maybe_yield_def yield_to_def ps2fiber_yield_def enqueue_locked_def split: option.splits list.splits)

lemma WakeupThread_cases:
  assumes "g_threads k (a0 ctx) = Some t" "a0 ctx \<noteq> 0" "a0 ctx \<noteq> c_tid c" "ti_status (t_obj k t) \<noteq> THS_DORMANT"
  shows "WakeupThread c ctx k = (setReturnS32 ctx KE_OK,
    if ti_status (t_obj k t) = THS_WAIT \<and> ti_waitType (t_obj k t) = TSW_SLEEP
    then ready_and_yield c (a0 ctx)
      (upd_thread t (\<lambda>i. (leave_wait_status i)\<lparr>ti_wakeupCount := ti_wakeupCount i + 1\<rparr>) k)
    else upd_thread t (\<lambda>i. i\<lparr>ti_wakeupCount := ti_wakeupCount i + 1\<rparr>) k)"
  using assms by (simp add: WakeupThread_def lookupThreadInfo_def a0_def Let_def)

lemma ResumeThread_other:
  assumes "g_threads k (a0 ctx) = Some t" "a0 ctx \<noteq> 0" "a0 ctx \<noteq> c_tid c"
    "ti_status (t_obj k t) \<noteq> THS_DORMANT" "0 < ti_suspendCount (t_obj k t)"
  shows "ResumeThread c ctx k = (setReturnS32 ctx KE_OK,
    (if ti_suspendCount (t_obj k t) = 1
     then on_sched (\<lambda>s. snd (maybe_yield (c_self c) (clear_suspend (a0 ctx) s))) else id)
      (upd_thread t (resume_info False) k))"
proof -
  have "ti_suspendCount (resume_info b i) = ti_suspendCount i - 1" for b i
    by (simp add: resume_info_def Let_def)
  with assms show ?thesis by (simp add: ResumeThread_def resolve_other Let_def kern_simps)
qed

lemma SuspendThread_other:
  assumes "g_threads k (a0 ctx) = Some t" "a0 ctx \<noteq> 0" "a0 ctx \<noteq> c_tid c"
    "ti_status (t_obj k t) \<noteq> THS_DORMANT"
  shows "SuspendThread c ctx k = (Return KE_OK, on_sched (suspend_other (a0 ctx))
    (upd_thread t (\<lambda>i. applySuspendStatusLocked (i\<lparr>ti_suspendCount := ti_suspendCount i + 1\<rparr>)) k))"
  using assms by (simp add: SuspendThread_def resolve_other Let_def)

lemma SleepThread_wake_ok:
  "\<not> terminated (t_obj k t) \<Longrightarrow> \<not> forceRelease (t_obj k t) \<Longrightarrow> 0 < ti_wakeupCount (t_obj k t) \<Longrightarrow>
    fst (SleepThread_wake t k) = Finish 0"
  by (simp add: SleepThread_wake_def Let_def)

section \<open>Nested suspension\<close>

lemma suspend_other_fiber:
  assumes "fiber_for tid s = Some p" "fibers s p = Some f"
  shows "fiber_for tid (suspend_other tid s) = Some p \<and>
    (\<exists>g. fibers (suspend_other tid s) p = Some g \<and> fc_suspendCount g = fc_suspendCount f + 1)"
  using assms
  by (auto simp: suspend_other_def with_fiber_def fiber_for_def Let_def upd_fiber_def remove_locked_def)

definition nested_suspends :: "caller \<Rightarrow> r5900 \<Rightarrow> nat \<Rightarrow> kern \<Rightarrow> kern" where
  "nested_suspends c ctx n k = ((\<lambda>k. snd (SuspendThread c ctx k)) ^^ n) k"

definition nested_resumes :: "caller \<Rightarrow> r5900 \<Rightarrow> nat \<Rightarrow> kern \<Rightarrow> kern" where
  "nested_resumes c ctx n k = ((\<lambda>k. snd (ResumeThread c ctx k)) ^^ n) k"

lemma nested_Suc:
  "nested_suspends c ctx 0 k = k" "nested_resumes c ctx 0 k = k"
  "nested_suspends c ctx (Suc n) k = snd (SuspendThread c ctx (nested_suspends c ctx n k))"
  "nested_resumes c ctx (Suc n) k = snd (ResumeThread c ctx (nested_resumes c ctx n k))"
  by (simp_all add: nested_suspends_def nested_resumes_def)

text \<open>What holds after \<open>n\<close> suspensions: the counts are \<open>n\<close> and only the target's record changed.\<close>

definition suspended_by :: "nat \<Rightarrow> nat \<Rightarrow> ptr \<Rightarrow> int \<Rightarrow> kern \<Rightarrow> kern \<Rightarrow> bool" where
  "suspended_by n t p tid k k' \<longleftrightarrow> sched_reachable (k_sched k') \<and> g_threads k' = g_threads k \<and>
     fiber_for tid (k_sched k') = Some p \<and>
     (\<exists>f. fibers (k_sched k') p = Some f \<and> fc_suspendCount f = int n) \<and>
     t_obj k' = (t_obj k)(t := (if n = 0 then t_obj k t
        else applySuspendStatusLocked ((t_obj k t)\<lparr>ti_suspendCount := int n\<rparr>)))"

lemma applySuspend_not_dormant: "ti_status (applySuspendStatusLocked i) \<noteq> THS_DORMANT"
  by (simp add: applySuspendStatusLocked_def)

lemma nested_suspends_state:
  assumes "suspended_by 0 t p (a0 ctx) k k" "g_threads k (a0 ctx) = Some t" "a0 ctx \<noteq> 0" "a0 ctx \<noteq> c_tid c"
    "ti_status (t_obj k t) \<noteq> THS_DORMANT" "ti_suspendCount (t_obj k t) = 0"
  shows "suspended_by n t p (a0 ctx) k (nested_suspends c ctx n k)"
proof (induction n)
  case 0
  show ?case using assms(1) by (simp add: nested_Suc)
next
  case (Suc n)
  let ?k = "nested_suspends c ctx n k"
  let ?i = "t_obj ?k t"
  have g: "g_threads ?k (a0 ctx) = Some t" using Suc assms(2) by (simp add: suspended_by_def)
  have i: "?i = (if n = 0 then t_obj k t else applySuspendStatusLocked ((t_obj k t)\<lparr>ti_suspendCount := int n\<rparr>))"
    using Suc by (simp add: suspended_by_def)
  have nd: "ti_status ?i \<noteq> THS_DORMANT" using assms(5) applySuspend_not_dormant by (simp add: i)
  have i': "applySuspendStatusLocked (?i\<lparr>ti_suspendCount := ti_suspendCount ?i + 1\<rparr>) =
      applySuspendStatusLocked ((t_obj k t)\<lparr>ti_suspendCount := int (Suc n)\<rparr>)"
    using assms(6) by (simp add: i applySuspendStatusLocked_def)
  have step: "nested_suspends c ctx (Suc n) k = on_sched (suspend_other (a0 ctx))
      (upd_thread t (\<lambda>i. applySuspendStatusLocked (i\<lparr>ti_suspendCount := ti_suspendCount i + 1\<rparr>)) ?k)"
    using SuspendThread_other [OF g assms(3,4) nd] by (simp add: nested_Suc)
  have "sched_reachable (suspend_other (a0 ctx) (k_sched ?k))"
    using Suc sched_reachable_step [OF _ suspend] by (simp add: suspended_by_def)
  moreover obtain f where f: "fiber_for (a0 ctx) (k_sched ?k) = Some p" "fibers (k_sched ?k) p = Some f"
    "fc_suspendCount f = int n" using Suc by (auto simp: suspended_by_def)
  ultimately show ?case
    using Suc suspend_other_fiber [OF f(1,2)] f(3) i'
    by (auto simp: suspended_by_def step kern_simps fun_upd_def)
qed

lemma resume_counts:
  "1 < j \<Longrightarrow> resume_info False (applySuspendStatusLocked (i\<lparr>ti_suspendCount := j\<rparr>)) =
     applySuspendStatusLocked (i\<lparr>ti_suspendCount := j - 1\<rparr>)"
  by (simp add: resume_info_def applySuspendStatusLocked_def Let_def)

text \<open>Resumptions before the last one only count down; the scheduler is left alone.\<close>

lemma nested_resumes_state:
  assumes "suspended_by n t p (a0 ctx) k k'" "g_threads k (a0 ctx) = Some t" "a0 ctx \<noteq> 0" "a0 ctx \<noteq> c_tid c"
    and "m < n"
  shows "g_threads (nested_resumes c ctx m k') = g_threads k \<and> k_sched (nested_resumes c ctx m k') = k_sched k' \<and>
    t_obj (nested_resumes c ctx m k') =
      (t_obj k)(t := applySuspendStatusLocked ((t_obj k t)\<lparr>ti_suspendCount := int (n - m)\<rparr>))"
  using assms(5)
proof (induction m)
  case 0
  then show ?case using assms(1) by (simp add: nested_Suc suspended_by_def)
next
  case (Suc m)
  let ?k = "nested_resumes c ctx m k'"
  have ih: "g_threads ?k = g_threads k" "k_sched ?k = k_sched k'"
    "t_obj ?k = (t_obj k)(t := applySuspendStatusLocked ((t_obj k t)\<lparr>ti_suspendCount := int (n - m)\<rparr>))"
    using Suc.IH Suc_lessD [OF Suc.prems] by blast+
  have cnt: "ti_suspendCount (t_obj ?k t) = int (n - m)" by (simp add: ih applySuspendStatusLocked_def)
  have g: "g_threads ?k (a0 ctx) = Some t" using ih(1) assms(2) by simp
  have nd: "ti_status (t_obj ?k t) \<noteq> THS_DORMANT" by (simp add: ih applySuspend_not_dormant)
  have "nested_resumes c ctx (Suc m) k' = upd_thread t (resume_info False) ?k"
    using ResumeThread_other [OF g assms(3,4) nd] Suc.prems by (simp add: nested_Suc cnt)
  moreover have "int (n - Suc m) = int (n - m) - 1" using Suc.prems by simp
  ultimately show ?case
    using Suc.prems by (simp only: ih kern_simps fun_upd_same fun_upd_upd) (simp add: resume_counts)
qed

section \<open>Properties\<close>

text \<open>
  C24 (wakeups reach sleepers): let a thread sleep in \<open>SleepThread\<close>.  If it is not suspended, then
  after \<open>WakeupThread\<close> its fiber will run, and when it comes back from the wait \<open>SleepThread\<close>
  returns 0.  If it was suspended once while asleep, the wakeup is kept: after \<open>WakeupThread\<close> and the
  matching \<open>ResumeThread\<close> its fiber will run and \<open>SleepThread\<close> returns 0 as well.
\<close>

theorem wakeup_reaches_sleeper:
  assumes "sched_reachable (k_sched k)"
    and thr: "g_threads k (a0 ctx) = Some t" "a0 ctx \<noteq> 0" "a0 ctx \<noteq> c_tid c"
    and "ti_waitType (t_obj k t) = TSW_SLEEP" "\<not> terminated (t_obj k t)" "\<not> forceRelease (t_obj k t)"
      "0 \<le> ti_wakeupCount (t_obj k t)"
    and fib: "fiber_for (a0 ctx) (k_sched k) = Some p" "fibers (k_sched k) p = Some f"
  defines "k1 \<equiv> snd (WakeupThread c ctx k)"
  defines "k2 \<equiv> snd (ResumeThread c ctx k1)"
  shows "(ti_status (t_obj k t) = THS_WAIT \<and> fc_suspendCount f = 0 \<longrightarrow>
      wake_effective (k_sched k1) p \<and> fst (SleepThread_wake t k1) = Finish 0) \<and>
    (ti_status (t_obj k t) = THS_WAITSUSPEND \<and> ti_suspendCount (t_obj k t) = 1 \<longrightarrow>
      wake_effective (k_sched k2) p \<and> fst (SleepThread_wake t k2) = Finish 0)"
proof (intro conjI impI)
  have q: "queue_ok (k_sched k)" using queue_ok_reachable [OF assms(1)] .
  {
    assume st: "ti_status (t_obj k t) = THS_WAIT \<and> fc_suspendCount f = 0"
    then have k1: "k1 = ready_and_yield c (a0 ctx)
        (upd_thread t (\<lambda>i. (leave_wait_status i)\<lparr>ti_wakeupCount := ti_wakeupCount i + 1\<rparr>) k)"
      using WakeupThread_cases [OF thr] assms(5) by (simp add: k1_def)
    have "wake_effective (make_ready (a0 ctx) (k_sched k)) p" using make_ready_effective [OF q fib] st by simp
    then show "wake_effective (k_sched k1) p"
      by (simp add: k1 ready_and_yield_def kern_simps maybe_yield_effective)
    show "fst (SleepThread_wake t k1) = Finish 0"
      using assms(6-8) by (intro SleepThread_wake_ok) (simp_all add: k1 ready_and_yield_def kern_simps leave_wait_status_def)
  }
  {
    assume st: "ti_status (t_obj k t) = THS_WAITSUSPEND \<and> ti_suspendCount (t_obj k t) = 1"
    then have k1: "k1 = upd_thread t (\<lambda>i. i\<lparr>ti_wakeupCount := ti_wakeupCount i + 1\<rparr>) k"
      using WakeupThread_cases [OF thr] by (simp add: k1_def)
    have k2: "k2 = on_sched (\<lambda>s. snd (maybe_yield (c_self c) (clear_suspend (a0 ctx) s)))
        (upd_thread t (resume_info False) k1)"
      using ResumeThread_other [of k1 ctx t c] thr st by (simp add: k2_def k1 kern_simps)
    have "wake_effective (clear_suspend (a0 ctx) (k_sched k)) p" using clear_suspend_effective [OF q fib] by simp
    then show "wake_effective (k_sched k2) p" by (simp add: k2 k1 kern_simps maybe_yield_effective)
    show "fst (SleepThread_wake t k2) = Finish 0"
      using assms(6-8) by (intro SleepThread_wake_ok) (simp_all add: k2 k1 kern_simps resume_info_def Let_def)
  }
qed

definition demo_threads :: "thread_info \<Rightarrow> kern" where
  "demo_threads i = demo_kern\<lparr>g_threads := [1 \<mapsto> 0], t_obj := (\<lambda>_. i), t_next := 1\<rparr>"

lemma demo_threads_fields:
  "g_threads (demo_threads i) = [1 \<mapsto> 0]" "t_obj (demo_threads i) t = i" "k_sched (demo_threads i) = demo_running"
  by (simp_all add: demo_threads_def) (simp add: demo_kern_def)

abbreviation (input) demo_caller :: caller where "demo_caller \<equiv> \<lparr>c_tid = 2, c_self = Some 200\<rparr>"

lemma demo_fiber_100:
  "fiber_for 1 demo_running = Some 100"
  "fibers demo_running 100 = Some ((demo_fiber 100)\<lparr>in_run_queue := True, fc_state := Ready\<rparr>)"
  "fc_suspendCount (demo_fiber 100) = 0"
  by (simp_all add: demo_running_state fiber_for_def) (simp add: demo_fiber_def sched_simps)

theorem wakeup_reaches_sleeper_witness:
  "fst (SleepThread_wake 0 (snd (WakeupThread demo_caller (demo_ctx 1)
     (demo_threads (thread_info_init\<lparr>ti_status := THS_WAIT, ti_waitType := TSW_SLEEP\<rparr>))))) = Finish 0"
proof -
  let ?k = "demo_threads (thread_info_init\<lparr>ti_status := THS_WAIT, ti_waitType := TSW_SLEEP\<rparr>)"
  have "sched_reachable (k_sched ?k)" "fiber_for (a0 (demo_ctx 1)) (k_sched ?k) = Some 100"
    "fibers (k_sched ?k) 100 = Some ((demo_fiber 100)\<lparr>in_run_queue := True, fc_state := Ready\<rparr>)"
    by (simp_all add: demo_threads_fields demo_running_reachable demo_fiber_100)
  from wakeup_reaches_sleeper [OF this(1) _ _ _ _ _ _ _ this(2,3), of 0 demo_caller]
  show ?thesis by (simp add: demo_threads_fields thread_info_init_def demo_fiber_100)
qed

text \<open>
  Nested suspension: suspend another thread \<open>n > 0\<close> times and resume it as often.  Then its
  record is exactly what it was before, its fiber will run, and its scheduler gate is open; and
  after every smaller number of resumptions the gate is still closed.
\<close>

lemma suspend_resume_roundtrip:
  assumes "sched_reachable (k_sched k)"
    and thr: "g_threads k (a0 ctx) = Some t" "a0 ctx \<noteq> 0" "a0 ctx \<noteq> c_tid c"
    and "ti_status (t_obj k t) = (if ti_waitType (t_obj k t) \<noteq> TSW_NONE then THS_WAIT else THS_READY)"
      "ti_suspendCount (t_obj k t) = 0"
    and fib: "fiber_for (a0 ctx) (k_sched k) = Some p" "fibers (k_sched k) p = Some f" "fc_suspendCount f = 0"
    and "0 < n"
  defines "after m \<equiv> nested_resumes c ctx m (nested_suspends c ctx n k)"
  shows "t_obj (after n) = t_obj k \<and> wake_effective (k_sched (after n)) p \<and>
    (\<exists>g. fibers (k_sched (after n)) p = Some g \<and> fc_suspendCount g = 0) \<and>
    (\<forall>m < n. \<exists>g. fibers (k_sched (after m)) p = Some g \<and> 0 < fc_suspendCount g)"
proof -
  have nd: "ti_status (t_obj k t) \<noteq> THS_DORMANT" using assms(5) by (simp split: if_splits)
  have "suspended_by 0 t p (a0 ctx) k k" using assms(1) fib by (simp add: suspended_by_def)
  from nested_suspends_state [OF this thr nd assms(6)]
  have s: "suspended_by n t p (a0 ctx) k (nested_suspends c ctx n k)" .
  note r = nested_resumes_state [OF s thr]
  obtain m where n: "n = Suc m" using \<open>0 < n\<close> gr0_implies_Suc by blast
  let ?k = "after m"
  have k: "g_threads ?k = g_threads k" "k_sched ?k = k_sched (nested_suspends c ctx n k)"
    "t_obj ?k = (t_obj k)(t := applySuspendStatusLocked ((t_obj k t)\<lparr>ti_suspendCount := 1\<rparr>))"
    using r [of m] n by (simp_all add: after_def)
  have last: "after n = on_sched (\<lambda>s. snd (maybe_yield (c_self c) (clear_suspend (a0 ctx) s)))
      (upd_thread t (resume_info False) ?k)"
    using ResumeThread_other [of ?k ctx t c] thr
    by (simp add: k n nested_Suc after_def [of "Suc m", unfolded nested_Suc, folded after_def]
        applySuspend_not_dormant) (simp add: applySuspendStatusLocked_def)
  have rec: "t_obj (after n) = t_obj k"
    using assms(5,6)
    by (auto simp: last k kern_simps resume_info_def applySuspendStatusLocked_def Let_def fun_eq_iff)
  obtain g where g: "fiber_for (a0 ctx) (k_sched ?k) = Some p" "fibers (k_sched ?k) p = Some g"
    using s by (auto simp: suspended_by_def k)
  have "queue_ok (k_sched ?k)" using s queue_ok_reachable by (simp add: suspended_by_def k)
  from clear_suspend_effective [OF this g] obtain h where
    "wake_effective (clear_suspend (a0 ctx) (k_sched ?k)) p"
    "fibers (clear_suspend (a0 ctx) (k_sched ?k)) p = Some h" "fc_suspendCount h = 0" by blast
  then have "wake_effective (k_sched (after n)) p" "\<exists>g. fibers (k_sched (after n)) p = Some g \<and> fc_suspendCount g = 0"
    using maybe_yield_count by (fastforce simp: last kern_simps maybe_yield_effective)+
  moreover have "\<exists>g. fibers (k_sched (after j)) p = Some g \<and> 0 < fc_suspendCount g" if "j < n" for j
    using r [OF that] s \<open>0 < n\<close> by (auto simp: after_def suspended_by_def)
  ultimately show ?thesis using rec by blast
qed

text \<open>A call that returned an error and left the kernel as it was, and one that returned \<open>KE_OK\<close>.\<close>

definition fails :: "r5900 \<times> kern \<Rightarrow> kern \<Rightarrow> bool" where
  "fails r k \<longleftrightarrow> v0 (fst r) < 0 \<and> snd r = k"

definition succeeds :: "r5900 \<times> kern \<Rightarrow> bool" where
  "succeeds r \<longleftrightarrow> v0 (fst r) = KE_OK"

lemma v0_thread_codes:
  "v0 (setReturnS32 ctx 0) = 0" "v0 (setReturnS32 ctx KE_ILLEGAL_THID) = KE_ILLEGAL_THID"
  "v0 (setReturnS32 ctx KE_UNKNOWN_THID) = KE_UNKNOWN_THID" "v0 (setReturnS32 ctx KE_DORMANT) = KE_DORMANT"
  "v0 (setReturnS32 ctx KE_NOT_WAIT) = KE_NOT_WAIT" "v0 (setReturnS32 ctx KE_NOT_SUSPEND) = KE_NOT_SUSPEND"
  "v0 (setReturnS32 ctx KE_ILLEGAL_PRIORITY) = KE_ILLEGAL_PRIORITY"
  "v0 (setReturnS32 ctx KE_NOT_DORMANT) = KE_NOT_DORMANT" "v0 (setReturnS32 ctx KE_NO_MEMORY) = KE_NO_MEMORY"
  by (rule v0_setReturn; simp)+

text \<open>
  Thread call errors: on a thread other than the caller, \<open>WakeupThread\<close> fails exactly when it is
  unknown or dormant, \<open>ReleaseWaitThread\<close> exactly when it is unknown or does not wait,
  \<open>ResumeThread\<close> exactly when it is unknown, dormant or not suspended, and
  \<open>ChangeThreadPriority\<close> exactly when it is unknown or dormant or the priority is outside 1 to 127,
  where 0 stands for the current one.  A failing call changes nothing.
\<close>

lemma thread_errors:
  fixes c ctx k
  defines "tid \<equiv> a0 ctx" and "info \<equiv> map_option (t_obj k) (g_threads k (a0 ctx))"
    and "prio \<equiv> to_int (getRegU32 ctx 5)"
  assumes "a0 ctx \<noteq> 0" "a0 ctx \<noteq> c_tid c"
  shows
    "(if (case info of None \<Rightarrow> True | Some i \<Rightarrow> ti_status i = THS_DORMANT)
      then fails (WakeupThread c ctx k) k else succeeds (WakeupThread c ctx k)) \<and>
     (if (case info of None \<Rightarrow> True | Some i \<Rightarrow> ti_status i \<notin> {THS_WAIT, THS_WAITSUSPEND})
      then fails (ReleaseWaitThread c ctx k) k else succeeds (ReleaseWaitThread c ctx k)) \<and>
     (if (case info of None \<Rightarrow> True | Some i \<Rightarrow> ti_status i = THS_DORMANT \<or> ti_suspendCount i \<le> 0)
      then fails (ResumeThread c ctx k) k else succeeds (ResumeThread c ctx k)) \<and>
     (if (case info of None \<Rightarrow> True | Some i \<Rightarrow> ti_status i = THS_DORMANT \<or>
          (if prio = 0 then ti_currentPriority i \<ge> 128 else prio \<notin> {1..127}))
      then fails (ChangeThreadPriority c ctx k) k else succeeds (ChangeThreadPriority c ctx k))"
    (is "?W \<and> ?R \<and> ?S \<and> ?P")
proof (cases "g_threads k (a0 ctx)")
  case None
  then have "resolveSelfOrThread c ctx (to_int (getRegU32 ctx 4)) k = (Inl KE_UNKNOWN_THID, k)"
    using assms(4,5) by (simp add: resolveSelfOrThread_def lookupThreadInfo_def a0_def)
  with None assms(4,5) show ?thesis
    by (simp add: info_def WakeupThread_def ReleaseWaitThread_def ResumeThread_def ChangeThreadPriority_def
        lookupThreadInfo_def a0_def [symmetric] fails_def v0_thread_codes)
next
  case (Some t)
  note r = resolve_other [OF Some assms(4,5)]
  have ?W using Some assms(4,5)
    by (simp add: info_def WakeupThread_def lookupThreadInfo_def a0_def [symmetric] fails_def succeeds_def
        v0_thread_codes Let_def)
  moreover have ?R using Some assms(4,5)
    by (simp add: info_def ReleaseWaitThread_def lookupThreadInfo_def a0_def [symmetric] fails_def succeeds_def
        v0_thread_codes Let_def)
  moreover have ?S using Some
    by (simp add: info_def ResumeThread_def r fails_def succeeds_def v0_thread_codes Let_def)
  moreover have ?P using Some
    by (auto simp: info_def ChangeThreadPriority_def r fails_def succeeds_def v0_thread_codes Let_def prio_def)
  ultimately show ?thesis by blast
qed

end
