(* ===== verification/ThreadLifeProps.thy ===== *)
theory ThreadLifeProps
  imports ThreadLife ThreadProps
begin

text \<open>
  The properties of the thread life cycle.  The parts of the calls are interleaved by
  \<open>thread_step\<close>, with guest code, other syscalls and the users of the guest heap in between; along
  every such run the active-thread count and the automatic stacks are accounted for.
\<close>

section \<open>Interleavings\<close>

text \<open>The part of a thread record that only the life-cycle calls change.\<close>

definition life :: "thread_info \<Rightarrow> bool \<times> bool \<times> bool \<times> u32 \<times> u32" where
  "life i = (activeCounted i, ti_started i, ti_ownsStack i, ti_stack i, ti_stackSize i)"

text \<open>What every other syscall keeps; it may add the record of a thread that runs already.\<close>

definition keeps_threads :: "kern \<Rightarrow> kern \<Rightarrow> bool" where
  "keeps_threads k k' \<longleftrightarrow> t_next k \<le> t_next k' \<and>
     (\<forall>tid t. g_threads k' tid = Some t \<longrightarrow> g_threads k tid = Some t \<or> t < t_next k') \<and>
     (\<forall>t < t_next k. life (t_obj k' t) = life (t_obj k t)) \<and>
     (\<forall>t. t_next k \<le> t \<and> t < t_next k' \<longrightarrow> \<not> activeCounted (t_obj k' t) \<and> \<not> ti_ownsStack (t_obj k' t))"

definition owned_kept :: "tsys \<Rightarrow> guest_heap \<Rightarrow> bool" where
  "owned_kept st h' \<longleftrightarrow> (\<forall>t n. t < t_next (ts_kern st) \<and> ti_ownsStack (thread_of st t) \<and>
     (unat (ti_stack (thread_of st t)), n) \<in> heap_regions (ts_heap st) \<longrightarrow>
     (unat (ti_stack (thread_of st t)), n) \<in> heap_regions h')"

inductive thread_step :: "tsys \<Rightarrow> tsys \<Rightarrow> bool" where
  ts_create: "thread_step st (snd (CreateThread ctx st))"
| ts_delete: "thread_step st (snd (DeleteThread ctx st))"
| ts_start: "thread_step st (snd (StartThread env c ctx st))"
| ts_register: "thread_step st (snd (RegisterExitHandler c ctx st))"
| ts_handlers: "thread_step st (st\<lparr>g_exit_handlers := (g_exit_handlers st)(tid := None)\<rparr>)"
| ts_exit: "thread_step st (exit_finish c ctx st)"
| ts_exit_delete: "thread_step st (exit_delete_finish c ctx st)"
| ts_terminate: "thread_step st (snd (terminate_mark c ctx st))"
| ts_fiber_exit: "t < t_next (ts_kern st) \<Longrightarrow> thread_step st (fiber_exit_finish tid (Some t) st)"
| ts_kernel: "keeps_threads (ts_kern st) k' \<Longrightarrow> thread_step st (st\<lparr>ts_kern := k'\<rparr>)"
| ts_heap: "heap_inv h' \<Longrightarrow> owned_kept st h' \<Longrightarrow> thread_step st (st\<lparr>ts_heap := h'\<rparr>)"

definition threads_init :: "tsys \<Rightarrow> bool" where
  "threads_init st \<longleftrightarrow> g_threads (ts_kern st) = Map.empty \<and> t_next (ts_kern st) = 0 \<and>
     g_activeThreads st = 0 \<and> heap_inv (ts_heap st)"

text \<open>The thread syscalls on running threads are such other calls.\<close>

lemma keeps_refl: "keeps_threads k k"
  by (auto simp: keeps_threads_def)

lemma keeps_upd:
  assumes "keeps_threads k k1" "life (f (t_obj k1 t)) = life (t_obj k1 t)"
  shows "keeps_threads k (upd_thread t f k1)"
  using assms by (auto simp: keeps_threads_def kern_simps life_def)

lemma keeps_sched: "keeps_threads k k1 \<Longrightarrow> keeps_threads k (on_sched h k1)"
  by (simp add: keeps_threads_def kern_simps)

lemma keeps_ensure: "keeps_threads k (snd (ensureCurrentThreadInfo c ctx k))"
  by (auto simp: keeps_threads_def ensureCurrentThreadInfo_def thread_info_init_def Let_def less_Suc_eq
      split: option.split)

lemma keeps_resolve: "keeps_threads k (snd (resolveSelfOrThread c ctx tid k))"
  using keeps_ensure [of k c ctx]
  by (auto simp: resolveSelfOrThread_def keeps_refl Let_def split: option.split prod.split)

lemma keeps_current: "keeps_threads k (snd (currentInfo c ctx k))"
  using keeps_ensure [of k c ctx] by (auto simp: currentInfo_def keeps_refl split: prod.split)

lemma keeps_store: "keeps_threads k k1 \<Longrightarrow> keeps_threads k (store_words p ws k1)"
  by (auto simp: keeps_threads_def store_words_def Let_def split: host_ptr.split)

lemmas keeps_rules = keeps_refl keeps_upd keeps_sched keeps_store

lemma thread_calls_keep:
  "keeps_threads k (snd (SleepThread c ctx k))" "keeps_threads k (snd (SleepThread_wake t k))"
  "keeps_threads k (snd (WakeupThread c ctx k))" "keeps_threads k (snd (CancelWakeupThread c ctx k))"
  "keeps_threads k (snd (ReleaseWaitThread c ctx k))" "keeps_threads k (snd (SuspendThread c ctx k))"
  "keeps_threads k (snd (SuspendThread_wake t k))" "keeps_threads k (snd (ResumeThread c ctx k))"
  "keeps_threads k (snd (ChangeThreadPriority c ctx k))"
  using keeps_current [of k c ctx] keeps_resolve [of k c ctx "to_int (getRegU32 ctx 4)"]
  by (auto simp: SleepThread_def SleepThread_wake_def WakeupThread_def CancelWakeupThread_def
      ReleaseWaitThread_def SuspendThread_def SuspendThread_wake_def ResumeThread_def
      ChangeThreadPriority_def ready_and_yield_def leave_wait_status_def applySuspendStatusLocked_def
      resume_info_def life_def Let_def intro!: keeps_rules split: prod.splits option.splits sum.splits)

section \<open>The accounts\<close>

definition active :: "kern \<Rightarrow> nat set" where
  "active k = {t. t < t_next k \<and> activeCounted (t_obj k t)}"

text \<open>Owned stacks are allocated heap regions of at least the thread's stack size, one per thread.\<close>

definition stack_ok :: "guest_heap \<Rightarrow> thread_info \<Rightarrow> bool" where
  "stack_ok h i \<longleftrightarrow> (ti_ownsStack i \<longrightarrow> ti_stack i \<noteq> 0 \<and> ti_stackSize i \<noteq> 0 \<and>
     (\<exists>n. unat (ti_stackSize i) \<le> n \<and> (unat (ti_stack i), n) \<in> heap_regions h))"

definition apart :: "thread_info \<Rightarrow> thread_info \<Rightarrow> bool" where
  "apart i j \<longleftrightarrow> (ti_ownsStack i \<and> ti_ownsStack j \<longrightarrow> ti_stack i \<noteq> ti_stack j)"

definition tinv :: "tsys \<Rightarrow> bool" where
  "tinv st \<longleftrightarrow> heap_inv (ts_heap st) \<and>
     (\<forall>tid t. g_threads (ts_kern st) tid = Some t \<longrightarrow> t < t_next (ts_kern st)) \<and>
     g_activeThreads st = int (card (active (ts_kern st))) \<and>
     (\<forall>t < t_next (ts_kern st). (activeCounted (thread_of st t) \<longrightarrow> ti_started (thread_of st t)) \<and>
        stack_ok (ts_heap st) (thread_of st t) \<and>
        (\<forall>u < t_next (ts_kern st). u \<noteq> t \<longrightarrow> apart (thread_of st t) (thread_of st u)))"

lemma active_finite: "finite (active k)"
  by (rule finite_subset [of _ "{..<t_next k}"]) (auto simp: active_def)

lemma on_kern_fields [simp]:
  "ts_kern (on_kern f st) = f (ts_kern st)" "ts_heap (on_kern f st) = ts_heap st"
  "g_activeThreads (on_kern f st) = g_activeThreads st"
  by (simp_all add: on_kern_def)

text \<open>Only these parts of the state matter.\<close>

lemma tinv_cong:
  assumes "tinv st" "ts_heap st' = ts_heap st" "g_activeThreads st' = g_activeThreads st"
    "g_threads (ts_kern st') = g_threads (ts_kern st)" "t_next (ts_kern st') = t_next (ts_kern st)"
    "t_obj (ts_kern st') = t_obj (ts_kern st)"
  shows "tinv st'"
  using assms by (simp add: tinv_def active_def)

text \<open>A change of the record of one existing thread, of the count and of the heap.\<close>

lemma tinv_change:
  assumes inv: "tinv st" and t: "t < t_next (ts_kern st)"
    and k: "ts_kern st' = upd_thread t f (ts_kern st)" and heap: "heap_inv (ts_heap st')"
    and others: "\<And>u. u < t_next (ts_kern st) \<Longrightarrow> u \<noteq> t \<Longrightarrow> stack_ok (ts_heap st') (thread_of st u)"
    and own: "stack_ok (ts_heap st') (f (thread_of st t))"
    and apart: "\<And>u. u < t_next (ts_kern st) \<Longrightarrow> u \<noteq> t \<Longrightarrow> apart (f (thread_of st t)) (thread_of st u)"
    and started: "activeCounted (f (thread_of st t)) \<Longrightarrow> ti_started (f (thread_of st t))"
    and count: "g_activeThreads st' = g_activeThreads st +
      (if activeCounted (f (thread_of st t)) then 1 else 0) - (if activeCounted (thread_of st t) then 1 else 0)"
  shows "tinv st'"
proof -
  let ?k = "ts_kern st"
  have act: "active (upd_thread t f ?k) =
      (if activeCounted (f (t_obj ?k t)) then insert t (active ?k) else active ?k - {t})"
    using t by (auto simp: active_def kern_simps)
  have mem: "t \<in> active ?k \<longleftrightarrow> activeCounted (t_obj ?k t)" using t by (simp add: active_def)
  have "int (card (active ?k - {t})) = int (card (active ?k)) - 1" if "t \<in> active ?k"
    using card.remove [OF active_finite that] by simp
  with mem have "g_activeThreads st' = int (card (active (ts_kern st')))"
    using inv count active_finite [of ?k]
    by (auto simp: k act tinv_def card_insert_if)
  moreover have "apart a b = apart b a" for a b by (auto simp: apart_def)
  ultimately show ?thesis
    using inv others own apart started heap unfolding tinv_def k
    by (auto simp: kern_simps)
qed

text \<open>Changes that only touch the status of the thread.\<close>

lemma tinv_life:
  assumes "tinv st" "t < t_next (ts_kern st)"
    "\<And>i. activeCounted (f i) = activeCounted i \<and> ti_ownsStack (f i) = ti_ownsStack i \<and>
       ti_stack (f i) = ti_stack i \<and> ti_stackSize (f i) = ti_stackSize i \<and>
       (activeCounted i \<and> ti_started i \<longrightarrow> ti_started (f i))"
  shows "tinv (on_kern (upd_thread t f) st)"
  by (rule tinv_change [OF assms(1,2), of _ f]) (use assms in \<open>auto simp: tinv_def stack_ok_def apart_def\<close>)

lemma tinv_sched: "tinv st \<Longrightarrow> tinv (on_kern (on_sched h) st)"
  by (rule tinv_cong) (simp_all add: kern_simps)

lemma tinv_consume:
  assumes "tinv st" "t < t_next (ts_kern st)"
  shows "tinv (consumeActiveToken (Some t) st)"
proof (cases "activeCounted (thread_of st t)")
  case True
  show ?thesis
    by (rule tinv_change [OF assms, of _ "\<lambda>i. i\<lparr>activeCounted := False\<rparr>"])
      (use assms True in \<open>auto simp: tinv_def stack_ok_def apart_def consumeActiveToken_def\<close>)
qed (simp add: consumeActiveToken_def assms)

lemma consume_fields:
  "g_threads (ts_kern (consumeActiveToken info st)) = g_threads (ts_kern st)"
  "t_next (ts_kern (consumeActiveToken info st)) = t_next (ts_kern st)"
  "\<not> activeCounted (thread_of (consumeActiveToken (Some t) st) t)"
  by (simp_all add: consumeActiveToken_def kern_simps split: option.split)

lemma tinv_mint:
  assumes "tinv st" "t < t_next (ts_kern st)" "\<not> activeCounted (thread_of st t)" "ti_started (thread_of st t)"
  shows "tinv (mintActiveToken t st)"
  by (rule tinv_change [OF assms(1,2), of _ "\<lambda>i. i\<lparr>activeCounted := True\<rparr>"])
    (use assms in \<open>auto simp: tinv_def stack_ok_def apart_def mintActiveToken_def\<close>)

text \<open>Giving an automatic stack back.\<close>

lemma free_stack_tinv:
  assumes inv: "tinv st" and t: "t < t_next (ts_kern st)"
  shows "tinv (free_stack t st)"
proof (cases "ti_ownsStack (thread_of st t) \<and> ti_stack (thread_of st t) \<noteq> 0")
  case True
  let ?i = "thread_of st t"
  let ?h = "guestFree (ti_stack ?i) (ts_heap st)"
  have heap: "heap_inv (ts_heap st)" using inv by (simp add: tinv_def)
  obtain n where "(unat (ti_stack ?i), n) \<in> heap_regions (ts_heap st)"
    using inv t True by (auto simp: tinv_def stack_ok_def)
  with gh.used_pos [OF heap] have "unat (ti_stack ?i) < 2 ^ 25" by fastforce
  note rel = gh.release_used [OF heap this]
  show ?thesis
  proof (rule tinv_change [OF inv t, of _ "\<lambda>i. snd (take_stack i)"])
    show "heap_inv (ts_heap (free_stack t st))"
      using gh.release_inv [OF heap] heap by (simp add: free_stack_def Let_def)
    show "stack_ok (ts_heap (free_stack t st)) (thread_of st u)" if "u < t_next (ts_kern st)" "u \<noteq> t" for u
    proof -
      have "stack_ok (ts_heap st) (thread_of st u)" "apart (thread_of st u) ?i"
        using inv t that by (auto simp: tinv_def)
      moreover have "unat (ti_stack (thread_of st u)) \<noteq> unat (ti_stack ?i)"
        if "ti_stack (thread_of st u) \<noteq> ti_stack ?i" using that by (metis word_unat_eq_iff)
      ultimately show ?thesis
        using True by (auto simp: stack_ok_def apart_def free_stack_def take_stack_def rel Let_def)
    qed
  qed (use inv t True in \<open>auto simp: free_stack_def take_stack_def stack_ok_def apart_def tinv_def Let_def\<close>)
next
  case False
  then have f: "free_stack t st = on_kern (upd_thread t (\<lambda>i. snd (take_stack i))) st"
    by (auto simp: free_stack_def take_stack_def Let_def)
  have same: "snd (take_stack (thread_of st t)) = thread_of st t" using False by (auto simp: take_stack_def)
  show ?thesis unfolding f
    by (rule tinv_cong [OF inv]) (simp_all add: kern_simps same)
qed

lemma free_stack_fields:
  "t_next (ts_kern (free_stack t st)) = t_next (ts_kern st)"
  "g_threads (ts_kern (free_stack t st)) = g_threads (ts_kern st)"
  "activeCounted (thread_of (free_stack t st) u) = activeCounted (thread_of st u)"
  by (auto simp: free_stack_def take_stack_def Let_def kern_simps)

text \<open>Getting one.\<close>

lemma start_stack_tinv:
  assumes inv: "tinv st" and t: "t < t_next (ts_kern st)"
  shows "tinv (start_stack t st)"
proof -
  let ?i = "thread_of st t"
  let ?fix = "\<lambda>i. if ti_stack i \<noteq> 0 \<and> ti_stackSize i = 0 then i\<lparr>ti_stackSize := 0x800\<rparr> else i"
  have heap: "heap_inv (ts_heap st)" using inv by (simp add: tinv_def)
  have fix_tinv: "tinv (on_kern (upd_thread t ?fix) s)" if "tinv s" "t < t_next (ts_kern s)" for s
    by (rule tinv_change [OF that, of _ ?fix]) (use that in \<open>auto simp: tinv_def stack_ok_def apart_def\<close>)
  show ?thesis
  proof (cases "ti_stack ?i = 0 \<and> ti_stackSize ?i \<noteq> 0")
    case False
    then have "start_stack t st = on_kern (upd_thread t ?fix) st" by (auto simp: start_stack_def Let_def)
    then show ?thesis using fix_tinv [OF inv t] by simp
  next
    case True
    obtain a h where al: "guestMalloc (ti_stackSize ?i) 16 (ts_heap st) = (a, h)" by fastforce
    let ?own = "\<lambda>i. i\<lparr>ti_stack := a, ti_ownsStack := True\<rparr>"
    let ?s = "if a \<noteq> 0 then on_kern (upd_thread t ?own) (st\<lparr>ts_heap := h\<rparr>) else st\<lparr>ts_heap := h\<rparr>"
    have eq: "start_stack t st = on_kern (upd_thread t ?fix) ?s"
      using True al by (simp add: start_stack_def Let_def)
    have h: "heap_inv h" using gh.alloc_inv [OF heap, of "ti_stackSize ?i" 16] al by simp
    have sub: "heap_regions (ts_heap st) \<subseteq> heap_regions h"
      using gh.alloc_fail [OF heap, of "ti_stackSize ?i" 16] gh.alloc_ok [OF heap, of "ti_stackSize ?i" 16] al
      by (cases "a = 0") auto
    then have mono: "stack_ok (ts_heap st) i \<Longrightarrow> stack_ok h i" for i by (auto simp: stack_ok_def)
    have "tinv ?s"
    proof (cases "a = 0")
      case True
      with inv mono h show ?thesis by (simp add: tinv_def)
    next
      case False
      have new: "ti_stack j \<noteq> a" if j: "stack_ok (ts_heap st) j" "ti_ownsStack j" for j
      proof -
        obtain n where n: "(unat (ti_stack j), n) \<in> heap_regions (ts_heap st)" using j by (auto simp: stack_ok_def)
        have "0 < unat (ti_stackSize ?i)" using True by (simp add: unat_gt_0)
        then show ?thesis using gh.alloc_disjoint [OF heap al False n] gh.used_pos [OF heap n] by auto
      qed
      show ?thesis
      proof (rule tinv_change [OF inv t, of _ ?own])
        show "stack_ok (ts_heap ?s) (?own ?i)"
          using gh.alloc_ok [OF heap, of "ti_stackSize ?i" 16] al False True by (auto simp: stack_ok_def)
        show "apart (?own ?i) (thread_of st u)" if "u < t_next (ts_kern st)" "u \<noteq> t" for u
          using new [of "thread_of st u"] inv that by (auto simp: apart_def tinv_def)
      qed (use inv t False mono h in \<open>auto simp: tinv_def on_kern_def\<close>)
    qed
    then show ?thesis using fix_tinv [of ?s] t unfolding eq by (simp add: kern_simps split: if_splits)
  qed
qed

lemma start_stack_fields:
  "t_next (ts_kern (start_stack t st)) = t_next (ts_kern st)"
  "g_threads (ts_kern (start_stack t st)) = g_threads (ts_kern st)"
  "activeCounted (thread_of (start_stack t st) u) = activeCounted (thread_of st u)"
  "ti_started (thread_of (start_stack t st) u) = ti_started (thread_of st u)"
  by (auto simp: start_stack_def Let_def kern_simps split: prod.split)

section \<open>Every step keeps the accounts\<close>

lemma tinv_keeps:
  assumes inv: "tinv st" and keep: "keeps_threads (ts_kern st) k'"
  shows "tinv (st\<lparr>ts_kern := k'\<rparr>)"
proof -
  let ?k = "ts_kern st"
  have le: "t_next ?k \<le> t_next k'" using keep by (simp add: keeps_threads_def)
  have old: "life (t_obj k' t) = life (t_obj ?k t)" if "t < t_next ?k" for t
    using keep that by (simp add: keeps_threads_def)
  have new: "\<not> activeCounted (t_obj k' t)" "\<not> ti_ownsStack (t_obj k' t)" if "t_next ?k \<le> t" "t < t_next k'" for t
    using keep that by (auto simp: keeps_threads_def)
  have "t \<in> active k' \<longleftrightarrow> t \<in> active ?k" for t
    using old [of t] new [of t] le by (cases "t < t_next ?k") (auto simp: active_def life_def)
  then have "active k' = active ?k" by blast
  moreover have "(activeCounted (t_obj k' t) \<longrightarrow> ti_started (t_obj k' t)) \<and> stack_ok (ts_heap st) (t_obj k' t)"
    if "t < t_next k'" for t
    using old [of t] new [of t] that inv
    by (cases "t < t_next ?k") (auto simp: life_def tinv_def stack_ok_def)
  moreover have "apart (t_obj k' t) (t_obj k' u)" if "t < t_next k'" "u < t_next k'" "u \<noteq> t" for t u
  proof (cases "t < t_next ?k \<and> u < t_next ?k")
    case True
    with inv that have "apart (t_obj ?k t) (t_obj ?k u)" by (simp add: tinv_def)
    with old [of t] old [of u] True show ?thesis by (simp add: apart_def life_def)
  next
    case False
    with that new show ?thesis by (meson apart_def not_le)
  qed
  moreover have "t < t_next k'" if "g_threads k' tid = Some t" for tid t
    using keep that inv le by (fastforce simp: keeps_threads_def tinv_def)
  ultimately show ?thesis using inv by (simp add: tinv_def)
qed

lemma tinv_kern_fields:
  "tinv st \<Longrightarrow> tinv (st\<lparr>g_exit_handlers := hs\<rparr>)" "tinv st \<Longrightarrow> tinv (st\<lparr>g_stackRanges := rs\<rparr>)"
  "tinv st \<Longrightarrow> tinv (st\<lparr>g_nextThreadId := n\<rparr>)"
  by (auto elim: tinv_cong)

lemma CreateThread_tinv:
  assumes inv: "tinv st"
  shows "tinv (snd (CreateThread ctx st))"
proof -
  have life: "\<not> activeCounted (new_thread ps)" "\<not> ti_ownsStack (new_thread ps)" for ps
    by (simp_all add: new_thread_def thread_info_init_def Let_def split: prod.split)
  let ?new = "\<lambda>tid p. ts_kern st\<lparr>g_threads := (g_threads (ts_kern st))(tid \<mapsto> t_next (ts_kern st)),
      t_next := Suc (t_next (ts_kern st)),
      t_obj := (t_obj (ts_kern st))(t_next (ts_kern st) := new_thread (load_words p 7 (ts_kern st)))\<rparr>"
  have "tinv ((st\<lparr>g_nextThreadId := n\<rparr>)\<lparr>ts_kern := ?new tid p\<rparr>)" for n tid p
    by (rule tinv_keeps [OF tinv_kern_fields(3) [OF inv]])
      (auto simp: keeps_threads_def life less_Suc_eq)
  with tinv_kern_fields(3) [OF inv] inv show ?thesis
    by (auto simp: CreateThread_def Let_def split: option.split prod.split)
qed

lemma known_thread: "tinv st \<Longrightarrow> g_threads (ts_kern st) tid = Some t \<Longrightarrow> t < t_next (ts_kern st)"
  by (simp add: tinv_def)

lemma forget_tinv:
  "tinv st \<Longrightarrow> tinv (on_kern (\<lambda>k. k\<lparr>g_threads := (g_threads k)(tid := None)\<rparr>) st)"
  by (auto simp: tinv_def active_def)

lemma DeleteThread_tinv:
  assumes "tinv st"
  shows "tinv (snd (DeleteThread ctx st))"
  using assms
  by (auto simp: DeleteThread_def lookupThreadInfo_def Let_def split: option.split
      intro!: tinv_kern_fields(1) forget_tinv free_stack_tinv known_thread)

lemma start_fiber_tinv:
  assumes "tinv st" "t < t_next (ts_kern st)"
  shows "tinv (snd (start_fiber env c ctx tid t st))"
proof -
  obtain r s where cf: "create_fiber (fiber_alloc_ok env) (fiber_addr env) tid
      (let i = thread_of st t in if ti_currentPriority i > 0 then ti_currentPriority i else to_int (ti_priority i))
      (ti_entry (thread_of st t)) (thread_sp (getRegU32 ctx 29) (thread_of st t))
      (thread_gp (getRegU32 ctx 28) (thread_of st t)) (getRegU32 ctx 5) (k_sched (ts_kern st)) = (r, s)"
    by fastforce
  let ?st = "on_kern (on_sched (\<lambda>_. s)) st"
  have st: "tinv ?st" "t < t_next (ts_kern ?st)" using assms by (simp_all add: tinv_sched kern_simps)
  show ?thesis
  proof (cases r)
    case (Inl e)
    let ?c = "consumeActiveToken (Some t) ?st"
    have c: "tinv ?c" "t < t_next (ts_kern ?c)" using tinv_consume [OF st] st(2) by (simp_all add: consume_fields)
    have "tinv (on_kern (upd_thread t (\<lambda>i. i\<lparr>ti_started := False, ti_status := THS_DORMANT\<rparr>)) ?c)"
      by (rule tinv_change [OF c, of _ "\<lambda>i. i\<lparr>ti_started := False, ti_status := THS_DORMANT\<rparr>"])
        (use c consume_fields(3) [of t ?st] in \<open>auto simp: tinv_def stack_ok_def apart_def\<close>)
    with cf Inl show ?thesis by (simp add: start_fiber_def Let_def)
  next
    case (Inr u)
    have "tinv (on_kern (on_sched h) (on_kern (upd_thread t (\<lambda>i. if ti_status i \<noteq> THS_DORMANT then i\<lparr>ti_status := THS_READY\<rparr> else i)) ?st))" for h
      by (intro tinv_sched tinv_life st) simp
    with cf Inr show ?thesis by (simp add: start_fiber_def Let_def)
  qed
qed

lemma StartThread_tinv:
  assumes inv: "tinv st"
  shows "tinv (snd (StartThread env c ctx st))"
proof -
  have go: "tinv (snd (start_fiber env c ctx tid t (mintActiveToken t (ps2x_stack_register tid lo hi
      (start_stack t (on_kern (upd_thread t (start_info arg)) st))))))"
    if t: "g_threads (ts_kern st) tid = Some t" and ns: "\<not> ti_started (thread_of st t)" for tid t lo hi arg
  proof -
    let ?s1 = "on_kern (upd_thread t (start_info arg)) st"
    let ?s2 = "ps2x_stack_register tid lo hi (start_stack t ?s1)"
    have lt: "t < t_next (ts_kern st)" using known_thread [OF inv t] .
    have "tinv ?s1" by (rule tinv_life [OF inv lt]) (simp add: start_info_def)
    then have s2: "tinv ?s2"
      using lt by (simp add: ps2x_stack_register_def tinv_kern_fields start_stack_tinv kern_simps)
    have f: "t < t_next (ts_kern ?s2)" "\<not> activeCounted (thread_of ?s2 t)" "ti_started (thread_of ?s2 t)"
      using lt ns inv
      by (auto simp: ps2x_stack_register_def start_stack_fields kern_simps start_info_def tinv_def)
    show ?thesis
      by (intro start_fiber_tinv tinv_mint s2 f) (simp add: mintActiveToken_def kern_simps f)
  qed
  show ?thesis
    using go inv by (auto simp: StartThread_def lookupThreadInfo_def Let_def split: option.split)
qed

lemma ensure_tinv:
  assumes inv: "tinv st" and e: "ensureCurrentThreadInfo c ctx (ts_kern st) = (t, k)"
  shows "tinv (st\<lparr>ts_kern := k\<rparr>) \<and> t < t_next k"
  using tinv_keeps [OF inv, of k] keeps_ensure [of "ts_kern st" c ctx] e inv
  by (auto simp: ensureCurrentThreadInfo_def Let_def tinv_def split: option.splits)

text \<open>
  At a fiber exit the token is given back last; taking it first gives the same state, and every
  state in between keeps the accounts.
\<close>

lemma consume_upd:
  assumes "\<And>i. (f i)\<lparr>activeCounted := False\<rparr> = f (i\<lparr>activeCounted := False\<rparr>)" "\<And>i. activeCounted (f i) = activeCounted i"
  shows "consumeActiveToken (Some t) (on_kern (upd_thread t f) st) =
    on_kern (upd_thread t f) (consumeActiveToken (Some t) st)"
  by (simp add: consumeActiveToken_def on_kern_def upd_thread_def assms)

lemma consume_heap:
  "consumeActiveToken info (st\<lparr>ts_heap := h\<rparr>) = (consumeActiveToken info st)\<lparr>ts_heap := h\<rparr>"
  "ts_heap (consumeActiveToken info st) = ts_heap st"
  by (simp_all add: consumeActiveToken_def on_kern_def split: option.split)

lemma take_stack_consumed:
  "(snd (take_stack i))\<lparr>activeCounted := False\<rparr> = snd (take_stack (i\<lparr>activeCounted := False\<rparr>))"
  "activeCounted (snd (take_stack i)) = activeCounted i"
  "fst (take_stack (thread_of (consumeActiveToken info st) t)) = fst (take_stack (thread_of st t))"
  by (auto simp: take_stack_def consumeActiveToken_def kern_simps split: option.split)

lemma consume_free: "consumeActiveToken (Some t) (free_stack t st) = free_stack t (consumeActiveToken (Some t) st)"
  unfolding free_stack_def Let_def
  by (simp add: consume_heap consume_upd [OF take_stack_consumed(1,2)] take_stack_consumed(3))

lemma fiber_exit_reorder:
  "fiber_exit_finish tid (Some t) st =
     (let st = on_kern (upd_thread t exit_info) (consumeActiveToken (Some t) st)
      in if g_threads (ts_kern st) tid = None then free_stack t st else st)"
proof -
  have "consumeActiveToken (Some t) (on_kern (upd_thread t exit_info) st) =
      on_kern (upd_thread t exit_info) (consumeActiveToken (Some t) st)"
    by (rule consume_upd) (simp_all add: exit_info_def)
  moreover have "g_threads (ts_kern (on_kern (upd_thread t exit_info) (consumeActiveToken (Some t) st))) = g_threads (ts_kern st)"
    by (simp add: kern_simps consume_fields)
  ultimately show ?thesis
    by (simp add: fiber_exit_finish_def consume_free kern_simps Let_def)
qed

lemma fiber_exit_tinv:
  assumes "tinv st" "t < t_next (ts_kern st)"
  shows "tinv (fiber_exit_finish tid (Some t) st)"
proof -
  let ?c = "consumeActiveToken (Some t) st"
  have c: "tinv ?c" "t < t_next (ts_kern ?c)" using tinv_consume [OF assms] assms(2) by (simp_all add: consume_fields)
  have e: "tinv (on_kern (upd_thread t exit_info) ?c)"
    by (rule tinv_change [OF c, of _ exit_info])
      (use c consume_fields(3) [of t st] in \<open>auto simp: tinv_def stack_ok_def apart_def exit_info_def\<close>)
  then show ?thesis
    using free_stack_tinv [OF e] c(2) by (simp add: fiber_exit_reorder Let_def kern_simps)
qed

lemma mark_exiting_tinv:
  assumes inv: "tinv st" and e: "ensureCurrentThreadInfo c ctx (ts_kern st) = (t, k)"
  shows "tinv (st\<lparr>ts_kern := upd_thread t markSelfExitingLocked k\<rparr>) \<and> t < t_next k"
proof -
  have k: "tinv (st\<lparr>ts_kern := k\<rparr>)" "t < t_next k" using ensure_tinv [OF assms] by simp_all
  have "tinv (on_kern (upd_thread t markSelfExitingLocked) (st\<lparr>ts_kern := k\<rparr>))"
    by (rule tinv_life) (use k in \<open>simp_all add: markSelfExitingLocked_def\<close>)
  with k(2) show ?thesis by (simp add: on_kern_def)
qed

lemma exit_delete_tinv:
  assumes inv: "tinv st"
  shows "tinv (exit_delete_finish c ctx st)"
proof -
  obtain t k where e: "ensureCurrentThreadInfo c ctx (ts_kern st) = (t, k)" by fastforce
  let ?st = "st\<lparr>ts_kern := upd_thread t markSelfExitingLocked k\<rparr>"
  note m = mark_exiting_tinv [OF inv e]
  have "tinv (on_kern (\<lambda>k. k\<lparr>g_threads := (g_threads k)(c_tid c := None)\<rparr>) ?st)"
    by (rule forget_tinv) (use m in simp)
  moreover have "t < t_next (ts_kern (on_kern (\<lambda>k. k\<lparr>g_threads := (g_threads k)(c_tid c := None)\<rparr>) ?st))"
    using m by (simp add: kern_simps)
  ultimately show ?thesis
    using tinv_consume e by (fastforce simp: exit_delete_finish_def on_kern_def Let_def)
qed

lemma terminate_mark_tinv:
  assumes inv: "tinv st"
  shows "tinv (snd (terminate_mark c ctx st))"
proof -
  obtain r k where r: "resolveSelfOrThread c ctx (to_int (getRegU32 ctx 4)) (ts_kern st) = (r, k)" by fastforce
  have k: "tinv (st\<lparr>ts_kern := k\<rparr>)"
    using tinv_keeps [OF inv] keeps_resolve [of "ts_kern st" c ctx "to_int (getRegU32 ctx 4)"] r by simp
  show ?thesis
  proof (cases r)
    case (Inl e)
    with r k show ?thesis by (simp add: terminate_mark_def)
  next
    case (Inr x)
    obtain tid t where x: "x = (tid, t)" by (cases x)
    have "g_threads k tid = Some t"
      using r Inr x by (auto simp: resolveSelfOrThread_def lookupThreadInfo_def ensureCurrentThreadInfo_def
          Let_def split: if_splits option.splits)
    then have t: "t < t_next k" using known_thread [OF k] by simp
    let ?s = "st\<lparr>ts_kern := upd_thread t (\<lambda>i. i\<lparr>terminated := True, forceRelease := True\<rparr>) k\<rparr>"
    have "tinv (on_kern (upd_thread t (\<lambda>i. i\<lparr>terminated := True, forceRelease := True\<rparr>)) (st\<lparr>ts_kern := k\<rparr>))"
      by (rule tinv_life) (use k t in simp_all)
    then have s: "tinv ?s" by (simp add: on_kern_def)
    show ?thesis using r Inr x k s tinv_sched [OF s] by (simp add: terminate_mark_def Let_def)
  qed
qed

lemma thread_step_tinv: "thread_step st st' \<Longrightarrow> tinv st \<Longrightarrow> tinv st'"
proof (induction rule: thread_step.induct)
  case (ts_register st c ctx)
  then show ?case by (auto simp: RegisterExitHandler_def Let_def intro: tinv_kern_fields)
next
  case (ts_exit st c ctx)
  then show ?case using mark_exiting_tinv [OF ts_exit] by (auto simp: exit_finish_def split: prod.split)
next
  case (ts_heap h' st)
  then show ?case by (fastforce simp: tinv_def owned_kept_def stack_ok_def)
qed (auto intro: CreateThread_tinv DeleteThread_tinv StartThread_tinv tinv_kern_fields exit_delete_tinv
    terminate_mark_tinv fiber_exit_tinv tinv_keeps)

lemma threads_init_tinv: "threads_init st \<Longrightarrow> tinv st"
  by (simp add: threads_init_def tinv_def active_def)

lemma thread_run_tinv: "thread_step\<^sup>*\<^sup>* st st' \<Longrightarrow> threads_init st \<Longrightarrow> tinv st'"
  by (induction rule: rtranclp_induct) (auto intro: threads_init_tinv thread_step_tinv)

section \<open>Identifiers\<close>

definition slot :: "int \<Rightarrow> int" where
  "slot nxt = (if nxt < 2 \<or> nxt > 0xFF then 2 else nxt)"

lemma slot_range: "2 \<le> slot nxt \<and> slot nxt \<le> 255"
  by (auto simp: slot_def)

lemma alloc_thread_id_found:
  "alloc_thread_id n threads nxt = (Some tid, nxt') \<Longrightarrow> 2 \<le> tid \<and> tid \<le> 255 \<and> threads tid = None"
  by (induction n arbitrary: nxt) (auto simp: Let_def split: if_splits)

text \<open>A search that fails has seen that many consecutive identifiers, round the end.\<close>

lemma alloc_thread_id_none:
  assumes "alloc_thread_id n threads nxt = (None, nxt')" "j < n"
  shows "threads (2 + (slot nxt - 2 + int j) mod 254) \<noteq> None"
  using assms
proof (induction n arbitrary: nxt j)
  case (Suc n)
  let ?c = "slot nxt"
  let ?n = "if ?c \<ge> 0xFF then 2 else ?c + 1"
  have step: "threads ?c \<noteq> None" "alloc_thread_id n threads ?n = (None, nxt')"
    using Suc.prems(1) by (auto simp: Let_def slot_def split: if_splits)
  have nxt: "slot ?n - 2 = (?c - 2 + 1) mod 254" using slot_range [of nxt] by (auto simp: slot_def)
  show ?case
  proof (cases j)
    case 0
    then show ?thesis using step(1) slot_range [of nxt] by (simp add: mod_pos_pos_trivial)
  next
    case (Suc i)
    then have "threads (2 + (slot ?n - 2 + int i) mod 254) \<noteq> None" using Suc.IH [OF step(2)] Suc.prems(2) by simp
    moreover have "(slot ?n - 2 + int i) mod 254 = (?c - 2 + int j) mod 254"
      using mod_add_left_eq [of "?c - 2 + 1" 254 "int i"] unfolding nxt Suc by (simp add: add.commute add_diff_eq)
    ultimately show ?thesis by simp
  qed
qed simp

lemma alloc_thread_id_full:
  assumes "alloc_thread_id 0xFE threads nxt = (None, nxt')" "2 \<le> tid" "tid \<le> 255"
  shows "threads tid \<noteq> None"
proof -
  let ?j = "nat ((tid - slot nxt) mod 254)"
  have "int ?j = (tid - slot nxt) mod 254" by simp
  then have "(slot nxt - 2 + int ?j) mod 254 = (tid - 2) mod 254"
    by (simp add: mod_add_right_eq)
  also have "\<dots> = tid - 2" using assms(2,3) by (simp add: mod_pos_pos_trivial)
  finally have "2 + (slot nxt - 2 + int ?j) mod 254 = tid" by simp
  moreover have "(tid - slot nxt) mod 254 < 254" by simp
  then have "?j < 0xFE" by linarith
  ultimately show ?thesis using alloc_thread_id_none [OF assms(1), of ?j] by simp
qed

lemma new_thread_priority: "1 \<le> ti_currentPriority (new_thread ps) \<and> ti_currentPriority (new_thread ps) \<le> 127 \<and>
    ti_status (new_thread ps) = THS_DORMANT \<and> \<not> ti_started (new_thread ps)"
proof -
  have "1 \<le> to_int p \<and> to_int p \<le> 127" if "p \<noteq> 0" "\<not> 128 \<le> p" for p :: u32
  proof -
    have "uint p < 128" using that(2) by (simp add: word_le_def)
    moreover have "uint p \<noteq> 0" using that(1) by (simp add: uint_0_iff)
    moreover have "to_int p = uint p"
      using to_int_of_int32 [of "uint p"] calculation(1) order_trans [OF _ uint_nonnegative [of p], of "- (2 ^ 31)"]
      by (simp add: of_int32_def)
    ultimately show ?thesis using uint_nonnegative [of p] by linarith
  qed
  then show ?thesis
    by (auto simp: new_thread_def thread_info_init_def Let_def to_int_def split: prod.split)
qed

section \<open>Properties\<close>

text \<open>
  C23 (thread accounts): start without threads and let threads be created, started, ended,
  terminated and deleted in any order, with guest code, other syscalls and other users of the guest
  heap in between.  Then the count of active threads is exactly the number of threads that hold a
  token, no token is counted twice or lost on any error or exit path, and every stack that the
  runtime allocated for a thread is a live region of the guest heap, at least as large as the
  thread's stack size, that overlaps no other thread's automatic stack.
\<close>

theorem thread_accounts:
  assumes "threads_init st0" "thread_step\<^sup>*\<^sup>* st0 st" "t < t_next (ts_kern st)" "u < t_next (ts_kern st)" "t \<noteq> u"
  shows "g_activeThreads st = int (card {t. t < t_next (ts_kern st) \<and> activeCounted (thread_of st t)}) \<and>
    (ti_ownsStack (thread_of st t) \<longrightarrow> (\<exists>n. unat (ti_stackSize (thread_of st t)) \<le> n \<and>
       (unat (ti_stack (thread_of st t)), n) \<in> heap_regions (ts_heap st))) \<and>
    (ti_ownsStack (thread_of st t) \<and> ti_ownsStack (thread_of st u) \<longrightarrow>
       unat (ti_stack (thread_of st t)) + unat (ti_stackSize (thread_of st t)) \<le> unat (ti_stack (thread_of st u)) \<or>
       unat (ti_stack (thread_of st u)) + unat (ti_stackSize (thread_of st u)) \<le> unat (ti_stack (thread_of st t)))"
proof -
  have inv: "tinv st" using thread_run_tinv [OF assms(2,1)] .
  have heap: "heap_inv (ts_heap st)" using inv by (simp add: tinv_def)
  have ok: "stack_ok (ts_heap st) (thread_of st t)" "stack_ok (ts_heap st) (thread_of st u)"
    "apart (thread_of st t) (thread_of st u)" using inv assms(3-5) by (simp_all add: tinv_def)
  have "unat (ti_stack (thread_of st t)) + unat (ti_stackSize (thread_of st t)) \<le> unat (ti_stack (thread_of st u)) \<or>
       unat (ti_stack (thread_of st u)) + unat (ti_stackSize (thread_of st u)) \<le> unat (ti_stack (thread_of st t))"
    if own: "ti_ownsStack (thread_of st t)" "ti_ownsStack (thread_of st u)"
  proof -
    obtain n m where n: "unat (ti_stackSize (thread_of st t)) \<le> n" "(unat (ti_stack (thread_of st t)), n) \<in> heap_regions (ts_heap st)"
      and m: "unat (ti_stackSize (thread_of st u)) \<le> m" "(unat (ti_stack (thread_of st u)), m) \<in> heap_regions (ts_heap st)"
      using ok own by (auto simp: stack_ok_def)
    have "ti_stack (thread_of st t) \<noteq> ti_stack (thread_of st u)" using ok(3) own by (simp add: apart_def)
    then have "(unat (ti_stack (thread_of st t)), n) \<noteq> (unat (ti_stack (thread_of st u)), m)"
      by (simp add: word_unat_eq_iff)
    from gh.used_disjoint [OF heap n(2) m(2) this] n(1) m(1) show ?thesis by linarith
  qed
  then show ?thesis using inv ok(1) by (auto simp: tinv_def active_def stack_ok_def)
qed

definition demo_tsys :: "kern \<Rightarrow> tsys" where
  "demo_tsys k = \<lparr>ts_kern = k, ts_heap = guest_heap_init None, g_nextThreadId = 2, g_activeThreads = 0,
     g_exit_handlers = Map.empty, g_stackRanges = Map.empty\<rparr>"

lemma demo_alloc: "threads (slot nxt) = None \<Longrightarrow>
    alloc_thread_id 0xFE threads nxt = (Some (slot nxt), if slot nxt \<ge> 0xFF then 2 else slot nxt + 1)"
proof -
  have "alloc_thread_id (Suc n) threads nxt = (Some (slot nxt), if slot nxt \<ge> 0xFF then 2 else slot nxt + 1)"
    if "threads (slot nxt) = None" for n
    using that by (simp add: Let_def slot_def)
  then show "threads (slot nxt) = None \<Longrightarrow> ?thesis" by (metis numeral_eq_Suc)
qed

lemma demo_create_thread:
  assumes "g_threads (ts_kern st) (slot (g_nextThreadId st)) = None"
  shows "t_next (ts_kern (snd (CreateThread (demo_ctx 0x100000) st))) = Suc (t_next (ts_kern st)) \<and>
    g_threads (ts_kern (snd (CreateThread (demo_ctx 0x100000) st))) =
      (g_threads (ts_kern st))(slot (g_nextThreadId st) \<mapsto> t_next (ts_kern st)) \<and>
    g_nextThreadId (snd (CreateThread (demo_ctx 0x100000) st)) =
      (if slot (g_nextThreadId st) \<ge> 0xFF then 2 else slot (g_nextThreadId st) + 1)"
proof -
  obtain p where "getMemPtr False False 0x100000 = Some p"
    using guest_byte_total [of "ts_kern st" "0x100000"] by (auto simp: guest_byte_def split: option.splits)
  with demo_alloc [of "g_threads (ts_kern st)" "g_nextThreadId st", OF assms] show ?thesis
    by (simp add: CreateThread_def Let_def del: alloc_thread_id.simps)
qed

definition demo_two :: tsys where
  "demo_two = snd (CreateThread (demo_ctx 0x100000) (snd (CreateThread (demo_ctx 0x100000) (demo_tsys demo_kern))))"

lemma demo_two_state: "t_next (ts_kern demo_two) = 2" "thread_step\<^sup>*\<^sup>* (demo_tsys demo_kern) demo_two"
  "threads_init (demo_tsys demo_kern)"
proof -
  have f: "g_threads (ts_kern (demo_tsys demo_kern)) = Map.empty" "t_next (ts_kern (demo_tsys demo_kern)) = 0"
    "g_nextThreadId (demo_tsys demo_kern) = 2"
    by (simp_all add: demo_tsys_def) (simp_all add: demo_kern_def)
  note 1 = demo_create_thread [of "demo_tsys demo_kern", unfolded f]
  have "slot 2 = 2" "slot 3 = 3" by (simp_all add: slot_def)
  with 1 show "t_next (ts_kern demo_two) = 2"
    using demo_create_thread [of "snd (CreateThread (demo_ctx 0x100000) (demo_tsys demo_kern))"]
    by (simp add: demo_two_def)
  show "thread_step\<^sup>*\<^sup>* (demo_tsys demo_kern) demo_two"
    unfolding demo_two_def by (rule converse_rtranclp_into_rtranclp, rule ts_create, rule r_into_rtranclp, rule ts_create)
  show "threads_init (demo_tsys demo_kern)" using f guest_heap_init_inv by (simp add: threads_init_def) (simp add: demo_tsys_def)
qed

theorem thread_accounts_witness:
  "g_activeThreads demo_two = int (card {t. t < t_next (ts_kern demo_two) \<and> activeCounted (thread_of demo_two t)})"
  using thread_accounts [OF demo_two_state(3,2), of 0 1] by (simp add: demo_two_state(1))

text \<open>
  Thread identifiers: \<open>CreateThread\<close> returns an identifier from 2 to 255 that was not in use and
  names a new dormant thread with a priority from 1 to 127, whatever the parameter block says; it
  returns an error only for a null block or when all 254 identifiers are in use.  Nothing happens to
  the other threads.
\<close>

lemma create_thread_fresh:
  defines "r \<equiv> \<lambda>ctx st. v0 (fst (CreateThread ctx st))" and "k' \<equiv> \<lambda>ctx st. ts_kern (snd (CreateThread ctx st))"
  shows "if getRegU32 ctx 4 = 0 \<or> (\<forall>tid \<in> {2..255}. g_threads (ts_kern st) tid \<noteq> None)
    then r ctx st = KE_ERROR \<and> k' ctx st = ts_kern st
    else 2 \<le> r ctx st \<and> r ctx st \<le> 255 \<and> g_threads (ts_kern st) (r ctx st) = None \<and>
      g_threads (k' ctx st) = (g_threads (ts_kern st))(r ctx st \<mapsto> t_next (ts_kern st)) \<and>
      (\<forall>t. t \<noteq> t_next (ts_kern st) \<longrightarrow> t_obj (k' ctx st) t = t_obj (ts_kern st) t) \<and>
      ti_status (t_obj (k' ctx st) (t_next (ts_kern st))) = THS_DORMANT \<and>
      ti_currentPriority (t_obj (k' ctx st) (t_next (ts_kern st))) \<in> {1..127}"
proof -
  have err: "v0 (setReturnS32 ctx KE_ERROR) = KE_ERROR" by (rule v0_setReturn) simp_all
  obtain p where p: "getMemPtr False False (getRegU32 ctx 4) = Some p"
    using guest_byte_total [of "ts_kern st" "getRegU32 ctx 4"] by (auto simp: guest_byte_def split: option.splits)
  obtain res nxt where al: "alloc_thread_id 0xFE (g_threads (ts_kern st)) (g_nextThreadId st) = (res, nxt)" by fastforce
  show ?thesis
  proof (cases "getRegU32 ctx 4 = 0")
    case True
    then show ?thesis by (simp add: r_def k'_def CreateThread_def err)
  next
    case nz: False
    show ?thesis
    proof (cases res)
      case None
      have "\<forall>tid \<in> {2..255}. g_threads (ts_kern st) tid \<noteq> None"
        using alloc_thread_id_full [OF al [unfolded None]] by simp
      then show ?thesis using None nz p al by (simp add: r_def k'_def CreateThread_def Let_def err del: alloc_thread_id.simps)
    next
      case (Some tid)
      have f: "2 \<le> tid \<and> tid \<le> 255 \<and> g_threads (ts_kern st) tid = None"
        using alloc_thread_id_found [OF al [unfolded Some]] .
      then have "v0 (setReturnS32 ctx tid) = tid" by (intro v0_setReturn) simp_all
      then show ?thesis
        using f Some nz p al new_thread_priority
        by (auto simp: r_def k'_def CreateThread_def Let_def simp del: alloc_thread_id.simps)
    qed
  qed
qed

section \<open>Starting a thread\<close>

lemma new_fiber_registers:
  fixes f defines "f \<equiv> \<lambda>gen tid prio entry sp gp arg. fc_cpu (fiber_new gen tid prio entry sp gp arg)"
  shows "ctx_pc (f gen tid prio entry sp gp arg) = entry" "getRegU32 (f gen tid prio entry sp gp arg) 29 = sp"
    "getRegU32 (f gen tid prio entry sp gp arg) 28 = gp" "getRegU32 (f gen tid prio entry sp gp arg) 4 = arg"
proof -
  let ?c0 = "R5900Context_init\<lparr>ctx_pc := entry, cop0_status := 1 OR 0x10000\<rparr>"
  have set: "SET_GPR_U32 c 29 v = setRegU32 c 29 v" "SET_GPR_U32 c 28 v = setRegU32 c 28 v"
    "SET_GPR_U32 c 4 v = setRegU32 c 4 v" "SET_GPR_U32 c 31 v = setRegU32 c 31 v" for c v
    by (simp_all add: setRegU32_def)
  have f: "f gen tid prio entry sp gp arg =
      setRegU32 (setRegU32 (setRegU32 (setRegU32 ?c0 29 sp) 28 gp) 4 arg) 31 0"
    by (simp add: f_def fiber_new_def set Let_def)
  have pc: "ctx_pc (setRegU32 c r v) = ctx_pc c" for c r v
    by (simp add: setRegU32_def SET_GPR_U32_def Ps2SetGprLow64_def)
  show "ctx_pc (f gen tid prio entry sp gp arg) = entry" by (simp add: f pc)
  show "getRegU32 (f gen tid prio entry sp gp arg) 29 = sp" "getRegU32 (f gen tid prio entry sp gp arg) 28 = gp"
    "getRegU32 (f gen tid prio entry sp gp arg) 4 = arg"
    by (simp_all add: f getRegU32_setRegU32_same getRegU32_setRegU32_other)
qed

lemma maybe_yield_other:
  assumes "self \<noteq> Some p"
  shows "fibers (snd (maybe_yield self s)) p = fibers s p"
    "p \<in> set (g_run_queue s) \<Longrightarrow> p \<in> set (g_run_queue (snd (maybe_yield self s)))"
    "fiber_for tid (snd (maybe_yield self s)) = fiber_for tid s"
  using assms
  by (auto simp: maybe_yield_def yield_to_def ps2fiber_yield_def enqueue_locked_def fiber_for_def 
      split: option.splits list.splits)

lemma create_fiber_ok:
  assumes "\<not> g_stop s" "g_fiber_map s tid = None"
  shows "\<exists>s'. create_fiber True p tid prio entry sp gp arg s = (Inr (), s') \<and> fiber_for tid s' = Some p \<and>
    p \<in> set (g_run_queue s') \<and> fibers s' p =
      Some ((fiber_new (s_nextGeneration s) tid prio entry sp gp arg)\<lparr>in_run_queue := True, fc_state := Ready\<rparr>)"
  using assms
  by (simp add: create_fiber_def create_fiber_build_def create_fiber_publish_def enqueue_locked_def fiber_for_def
      sched_simps set_insert_after Let_def)

lemma start_stack_sched: "k_sched (ts_kern (start_stack t st)) = k_sched (ts_kern st)"
  "ti_entry (thread_of (start_stack t st) t) = ti_entry (thread_of st t)"
  "ti_status (thread_of (start_stack t st) t) = ti_status (thread_of st t)"
  by (auto simp: start_stack_def Let_def kern_simps split: prod.split)

text \<open>The fiber of a started thread, described by the thread's record.\<close>

definition runs_thread :: "r5900 \<Rightarrow> int \<Rightarrow> thread_info \<Rightarrow> ptr \<Rightarrow> sched \<Rightarrow> bool" where
  "runs_thread ctx tid i p s \<longleftrightarrow> fiber_for tid s = Some p \<and> p \<in> set (g_run_queue s) \<and>
    (\<exists>f. fibers s p = Some f \<and> fc_tid f = tid \<and> fc_state f = Ready \<and>
       ctx_pc (fc_cpu f) = ti_entry i \<and> getRegU32 (fc_cpu f) 4 = getRegU32 ctx 5 \<and>
       getRegU32 (fc_cpu f) 29 = thread_sp (getRegU32 ctx 29) i \<and>
       getRegU32 (fc_cpu f) 28 = thread_gp (getRegU32 ctx 28) i)"

lemma start_fiber_ok:
  assumes "fiber_alloc_ok env" "\<not> g_stop (k_sched (ts_kern st))" "g_fiber_map (k_sched (ts_kern st)) tid = None"
    "c_self c \<noteq> Some (fiber_addr env)" "ti_status (thread_of st t) = THS_READY"
  shows "\<exists>st'. start_fiber env c ctx tid t st = (setReturnS32 ctx KE_OK, st') \<and>
    t_obj (ts_kern st') = t_obj (ts_kern st) \<and>
    runs_thread ctx tid (thread_of st t) (fiber_addr env) (k_sched (ts_kern st'))"
proof -
  let ?i = "thread_of st t" and ?p = "fiber_addr env"
  define prio where "prio = (if ti_currentPriority ?i > 0 then ti_currentPriority ?i else to_int (ti_priority ?i))"
  obtain s' where cf: "create_fiber True ?p tid prio (ti_entry ?i) (thread_sp (getRegU32 ctx 29) ?i)
      (thread_gp (getRegU32 ctx 28) ?i) (getRegU32 ctx 5) (k_sched (ts_kern st)) = (Inr (), s')"
    and s': "fiber_for tid s' = Some ?p" "?p \<in> set (g_run_queue s')"
      "fibers s' ?p = Some ((fiber_new (s_nextGeneration (k_sched (ts_kern st))) tid prio (ti_entry ?i)
        (thread_sp (getRegU32 ctx 29) ?i) (thread_gp (getRegU32 ctx 28) ?i) (getRegU32 ctx 5))
          \<lparr>in_run_queue := True, fc_state := Ready\<rparr>)"
    using create_fiber_ok [OF assms(2,3), of ?p prio] by blast
  let ?st = "on_kern (on_sched (\<lambda>s. snd (maybe_yield (c_self c) s)))
      (on_kern (upd_thread t (\<lambda>i. if ti_status i \<noteq> THS_DORMANT then i\<lparr>ti_status := THS_READY\<rparr> else i))
        (on_kern (on_sched (\<lambda>_. s')) st))"
  have "start_fiber env c ctx tid t st = (setReturnS32 ctx KE_OK, ?st)"
    unfolding start_fiber_def Let_def prio_def [symmetric] assms(1)
    by (simp add: assms(1) cf)
  moreover have "t_obj (ts_kern ?st) = t_obj (ts_kern st)" using assms(5) by (auto simp: kern_simps)
  moreover have "runs_thread ctx tid ?i ?p (snd (maybe_yield (c_self c) s'))"
    using s' maybe_yield_other [OF assms(4)]
    by (simp add: runs_thread_def new_fiber_registers sched_simps)
  ultimately show ?thesis by (intro exI [of _ ?st]) (simp add: kern_simps)
qed

text \<open>
  A started thread runs: when a dormant thread is started, the runtime has code for its entry
  point and neither it nor the scheduler is stopping, \<open>StartThread\<close> returns \<open>KE_OK\<close>, the thread is
  started, ready and counted as active, and a fiber of that thread is on the run queue whose program
  counter is the entry point, whose stack pointer is the aligned top of the thread's stack (or the
  caller's, if it has none), and which gets the thread's global pointer and the start argument.
\<close>

lemma start_thread_runs:
  assumes "g_threads (ts_kern st) (a0 ctx) = Some t" "a0 ctx \<noteq> 0"
    and "\<not> ti_started (thread_of st t)" "ti_status (thread_of st t) = THS_DORMANT"
    and "hasFunction env (ti_entry (thread_of st t))" "\<not> stopRequested env" "fiber_alloc_ok env"
    and "\<not> g_stop (k_sched (ts_kern st))" "g_fiber_map (k_sched (ts_kern st)) (a0 ctx) = None"
    and "c_self c \<noteq> Some (fiber_addr env)"
  defines "st' \<equiv> snd (StartThread env c ctx st)"
  defines "i \<equiv> thread_of st' t" and "s \<equiv> k_sched (ts_kern st')"
  shows "v0 (fst (StartThread env c ctx st)) = KE_OK \<and>
    ti_started i \<and> ti_status i = THS_READY \<and> activeCounted i \<and>
    fiber_for (a0 ctx) s = Some (fiber_addr env) \<and> fiber_addr env \<in> set (g_run_queue s) \<and>
    (\<exists>f. fibers s (fiber_addr env) = Some f \<and> fc_tid f = a0 ctx \<and> fc_state f = Ready \<and>
       ctx_pc (fc_cpu f) = ti_entry (thread_of st t) \<and> getRegU32 (fc_cpu f) 4 = getRegU32 ctx 5 \<and>
       getRegU32 (fc_cpu f) 29 = thread_sp (getRegU32 ctx 29) i \<and>
       getRegU32 (fc_cpu f) 28 = thread_gp (getRegU32 ctx 28) i)"
proof -
  let ?s1 = "start_stack t (on_kern (upd_thread t (start_info (getRegU32 ctx 5))) st)"
  obtain lo hi where start: "StartThread env c ctx st =
      start_fiber env c ctx (a0 ctx) t (mintActiveToken t (ps2x_stack_register (a0 ctx) lo hi ?s1))"
    using assms(1-6) by (fastforce simp: StartThread_def lookupThreadInfo_def a0_def Let_def)
  let ?m = "mintActiveToken t (ps2x_stack_register (a0 ctx) lo hi ?s1)"
  have m: "thread_of ?m t = (thread_of ?s1 t)\<lparr>activeCounted := True\<rparr>" "k_sched (ts_kern ?m) = k_sched (ts_kern st)"
    by (simp_all add: mintActiveToken_def ps2x_stack_register_def kern_simps start_stack_sched)
  have i1: "ti_entry (thread_of ?s1 t) = ti_entry (thread_of st t)" "ti_status (thread_of ?s1 t) = THS_READY"
    "ti_started (thread_of ?s1 t)"
    by (simp_all add: start_stack_sched start_stack_fields kern_simps start_info_def)
  obtain st2 where r: "start_fiber env c ctx (a0 ctx) t ?m = (setReturnS32 ctx KE_OK, st2)"
    "t_obj (ts_kern st2) = t_obj (ts_kern ?m)"
    "runs_thread ctx (a0 ctx) (thread_of ?m t) (fiber_addr env) (k_sched (ts_kern st2))"
    using start_fiber_ok [of env ?m "a0 ctx" c t ctx] assms(7-10) i1(2) by (auto simp: m)
  then have "st' = st2" "i = thread_of ?m t" by (simp_all add: st'_def i_def start)
  with r i1 show ?thesis
    by (simp add: start s_def runs_thread_def v0_thread_codes m)
qed

definition demo_rt :: rt_env where
  "demo_rt = \<lparr>hasFunction = (\<lambda>_. True), stopRequested = False, fiber_alloc_ok = True, fiber_addr = 300,
     invoke = (\<lambda>_ _ st. st)\<rparr>"

definition demo_dormant :: tsys where
  "demo_dormant = demo_tsys (demo_kern\<lparr>g_threads := [3 \<mapsto> 0], t_next := 1,
     t_obj := (\<lambda>_. thread_info_init\<lparr>ti_entry := 0x100000, ti_stack := 0x200000, ti_stackSize := 0x1000\<rparr>)\<rparr>)"

section \<open>A stack that is not given back and a guard that fires on its own\<close>

text \<open>
  \<open>ExitDeleteThread\<close> takes the thread out of the table before the fiber ends, so the exit hook finds
  no record and frees nothing: an automatic stack stays allocated with no thread to own it.
\<close>

lemma exit_delete_keeps_stack:
  fixes env ctx
  assumes "g_threads (ts_kern st) (c_tid c) = Some t" "g_exit_handlers st (c_tid c) = None"
  defines "st' \<equiv> on_fiber_exit env (c_tid c) (ExitDeleteThread env c ctx st)"
  shows "ts_heap st' = ts_heap st \<and> g_threads (ts_kern st') (c_tid c) = None"
  using assms(1,2)
  by (simp add: st'_def on_fiber_exit_def fiber_exit_finish_def ExitDeleteThread_def exit_delete_finish_def
      runExitHandlersForThread_def ensureCurrentThreadInfo_def lookupThreadInfo_def consumeActiveToken_def
      on_kern_def upd_thread_def Let_def)

text \<open>
  The stack guard treats the end of the range as outside, but a thread starts with its stack pointer
  exactly there when the end is aligned: a check before the first push reports a violation.
\<close>

lemma initial_sp_reported:
  assumes "ti_stack i \<noteq> 0" "(ti_stack i + stack_size i) AND NOT 0xF = ti_stack i + stack_size i"
    "ti_stack i + stack_size i \<noteq> 0"
  shows "ps2x_stack_check False tid (thread_sp sp i)
    (ps2x_stack_register tid (ti_stack i) (ti_stack i + stack_size i) st)"
  using assms by (simp add: ps2x_stack_check_def ps2x_stack_register_def thread_sp_def)

end
