(* ===== verification/IopMemory.thy ===== *)
theory IopMemory
  imports EEMemory
begin

text \<open>
  The 2 MB RAM of the I/O processor and the SIF transfers between it and EE RDRAM
  (\<open>PS2Memory::iopRead*\<close>, \<open>iopWrite*\<close>, \<open>sifDmaEEtoIOP\<close>, \<open>sifDmaIOPtoEE\<close> of \<open>ps2_memory.cpp\<close>).
  A null array pointer is \<open>None\<close>.
\<close>

section \<open>State and accessors\<close>

record ps2_memory =
  ee_rdram :: "bytes option"
  iop_ram :: "bytes option"
  m_tlbEntries :: "tlb_entry list"

definition IOP_RAM_SIZE :: u32 where "IOP_RAM_SIZE = 2 * 1024 * 1024"

definition iopRamOffset :: "u32 \<Rightarrow> u32" where
  "iopRamOffset addr = (let phys = addr AND 0x1FFFFFFF in if phys < IOP_RAM_SIZE then phys else IOP_RAM_SIZE)"

text \<open>The common bodies of the accessors of \<open>n\<close> bytes; \<open>sizeof\<close> makes the bound a 64-bit sum.\<close>

definition iop_load :: "nat \<Rightarrow> ps2_memory \<Rightarrow> u32 \<Rightarrow> u8 list option" where
  "iop_load n mem addr = (case iop_ram mem of
      None \<Rightarrow> None
    | Some ram \<Rightarrow> let off = iopRamOffset addr in
        if unat off + n > unat IOP_RAM_SIZE then None else Some (copy_out ram (unat off) n))"

definition iop_store :: "u8 list \<Rightarrow> u32 \<Rightarrow> ps2_memory \<Rightarrow> ps2_memory" where
  "iop_store bs addr mem = (case iop_ram mem of
      None \<Rightarrow> mem
    | Some ram \<Rightarrow> let off = iopRamOffset addr in
        if unat off + length bs \<le> unat IOP_RAM_SIZE then mem\<lparr>iop_ram := Some (copy_in (unat off) bs ram)\<rparr> else mem)"

definition iopRead8 :: "ps2_memory \<Rightarrow> u32 \<Rightarrow> u8" where
  "iopRead8 mem addr = (case iop_ram mem of
      None \<Rightarrow> 0
    | Some ram \<Rightarrow> let off = iopRamOffset addr in if off < IOP_RAM_SIZE then ram (unat off) else 0)"

definition iopRead16 :: "ps2_memory \<Rightarrow> u32 \<Rightarrow> u16" where
  "iopRead16 mem addr = (case iop_load 2 mem addr of None \<Rightarrow> 0 | Some bs \<Rightarrow> word_of_bytes bs)"

definition iopRead32 :: "ps2_memory \<Rightarrow> u32 \<Rightarrow> u32" where
  "iopRead32 mem addr = (case iop_load 4 mem addr of None \<Rightarrow> 0 | Some bs \<Rightarrow> word_of_bytes bs)"

definition iopWrite8 :: "u32 \<Rightarrow> u8 \<Rightarrow> ps2_memory \<Rightarrow> ps2_memory" where
  "iopWrite8 addr v mem = (case iop_ram mem of
      None \<Rightarrow> mem
    | Some ram \<Rightarrow> let off = iopRamOffset addr in
        if off < IOP_RAM_SIZE then mem\<lparr>iop_ram := Some (ram(unat off := v))\<rparr> else mem)"

definition iopWrite16 :: "u32 \<Rightarrow> u16 \<Rightarrow> ps2_memory \<Rightarrow> ps2_memory" where
  "iopWrite16 addr v mem = iop_store (bytes_of_word 2 v) addr mem"

definition iopWrite32 :: "u32 \<Rightarrow> u32 \<Rightarrow> ps2_memory \<Rightarrow> ps2_memory" where
  "iopWrite32 addr v mem = iop_store (bytes_of_word 4 v) addr mem"

section \<open>SIF transfers\<close>

text \<open>
  A transfer returns the number of bytes moved, passes on the exception of \<open>translateAddress\<close>, or
  runs \<open>memcpy\<close> over the end of one of the two arrays, which is undefined behaviour.
\<close>

datatype sif_result = SifDone u32 ps2_memory | SifThrow | SifOverrun

text \<open>The two clamps: sums and comparisons of 32-bit values.\<close>

definition sif_clamp :: "u32 \<Rightarrow> u32 \<Rightarrow> u32 \<Rightarrow> u32" where
  "sif_clamp off lim n = (if off + n > lim then lim - off else n)"

definition sifDmaEEtoIOP :: "u32 \<Rightarrow> u32 \<Rightarrow> u32 \<Rightarrow> ps2_memory \<Rightarrow> sif_result" where
  "sifDmaEEtoIOP eeAddr iopAddr nbytes mem = (case (ee_rdram mem, iop_ram mem) of
      (Some ee, Some iop) \<Rightarrow>
        if nbytes = 0 then SifDone 0 mem
        else (case translateAddress (m_tlbEntries mem) eeAddr of
            None \<Rightarrow> SifThrow
          | Some eeOff \<Rightarrow>
              let iopOff = iopRamOffset iopAddr in
              if eeOff \<ge> PS2_RAM_SIZE \<or> iopOff \<ge> IOP_RAM_SIZE then SifDone 0 mem
              else let n = sif_clamp eeOff PS2_RAM_SIZE nbytes; n = sif_clamp iopOff IOP_RAM_SIZE n in
                if unat eeOff + unat n \<le> unat PS2_RAM_SIZE \<and> unat iopOff + unat n \<le> unat IOP_RAM_SIZE
                then SifDone n (mem\<lparr>iop_ram := Some (copy_in (unat iopOff) (copy_out ee (unat eeOff) (unat n)) iop)\<rparr>)
                else SifOverrun)
    | _ \<Rightarrow> SifDone 0 mem)"

definition sifDmaIOPtoEE :: "u32 \<Rightarrow> u32 \<Rightarrow> u32 \<Rightarrow> ps2_memory \<Rightarrow> sif_result" where
  "sifDmaIOPtoEE iopAddr eeAddr nbytes mem = (case (ee_rdram mem, iop_ram mem) of
      (Some ee, Some iop) \<Rightarrow>
        if nbytes = 0 then SifDone 0 mem
        else let iopOff = iopRamOffset iopAddr in
          (case translateAddress (m_tlbEntries mem) eeAddr of
            None \<Rightarrow> SifThrow
          | Some eeOff \<Rightarrow>
              if eeOff \<ge> PS2_RAM_SIZE \<or> iopOff \<ge> IOP_RAM_SIZE then SifDone 0 mem
              else let n = sif_clamp iopOff IOP_RAM_SIZE nbytes; n = sif_clamp eeOff PS2_RAM_SIZE n in
                if unat eeOff + unat n \<le> unat PS2_RAM_SIZE \<and> unat iopOff + unat n \<le> unat IOP_RAM_SIZE
                then SifDone n (mem\<lparr>ee_rdram := Some (copy_in (unat eeOff) (copy_out iop (unat iopOff) (unat n)) ee)\<rparr>)
                else SifOverrun)
    | _ \<Rightarrow> SifDone 0 mem)"

section \<open>Loads and stores\<close>

lemma unat_IOP_RAM_SIZE [simp]: "unat IOP_RAM_SIZE = 2 ^ 21"
  by (simp add: IOP_RAM_SIZE_def)

lemma unat_iopRamOffset: "unat (iopRamOffset a) = min (unat a mod 2 ^ 29) (2 ^ 21)"
  by (simp add: iopRamOffset_def Let_def word_less_nat_alt unat_direct min_def)

lemma copy_in_other: "x < off \<or> off + length bs \<le> x \<Longrightarrow> copy_in off bs m x = m x"
  by (auto simp: copy_in_def)

lemma copy_out_cong: "(\<And>i. off \<le> i \<Longrightarrow> i < off + n \<Longrightarrow> m i = m' i) \<Longrightarrow> copy_out m off n = copy_out m' off n"
  by (simp add: copy_out_def)

lemma iop_load_store_same:
  assumes "iop_ram mem = Some ram" "unat (iopRamOffset a) + length bs \<le> 2 ^ 21" "iopRamOffset a = iopRamOffset b"
  shows "iop_load (length bs) (iop_store bs a mem) b = Some bs"
  using assms by (simp add: iop_load_def iop_store_def Let_def copy_out_in)

lemma iop_load_store_other:
  assumes "unat (iopRamOffset b) + n \<le> unat (iopRamOffset a) \<or> unat (iopRamOffset a) + length bs \<le> unat (iopRamOffset b)"
  shows "iop_load n (iop_store bs a mem) b = iop_load n mem b"
proof (cases "iop_ram mem")
  case (Some ram)
  have "copy_out (copy_in (unat (iopRamOffset a)) bs ram) (unat (iopRamOffset b)) n = copy_out ram (unat (iopRamOffset b)) n"
    using assms by (intro copy_out_cong copy_in_other) linarith
  with Some show ?thesis by (simp add: iop_load_def iop_store_def Let_def)
qed (simp add: iop_store_def)

lemma iopRead32_alias:
  assumes "iop_ram mem = Some ram" "unat a mod 2 ^ 29 + 4 \<le> 2 ^ 21" "unat b mod 2 ^ 29 = unat a mod 2 ^ 29"
  shows "iopRead32 (iopWrite32 a v mem) b = v" "iopRead8 (iopWrite32 a v mem) b = ucast v"
proof -
  note off = unat_iopRamOffset
  have ab: "iopRamOffset a = iopRamOffset b" using assms(3) by (simp add: word_unat_eq_iff off)
  have a: "unat (iopRamOffset a) + length (bytes_of_word 4 v) \<le> 2 ^ 21" using assms(2) by (simp add: off)
  from iop_load_store_same [OF assms(1) a ab]
  show "iopRead32 (iopWrite32 a v mem) b = v" by (simp add: iopRead32_def iopWrite32_def word_of_bytes_of_word)
  have "iopRamOffset b < IOP_RAM_SIZE" using a ab by (simp add: word_less_nat_alt)
  then show "iopRead8 (iopWrite32 a v mem) b = ucast v"
    using assms(1) a ab by (simp add: iopRead8_def iopWrite32_def iop_store_def Let_def copy_in_def nth_bytes_of_word)
qed

lemmas iopRead32_same = iopRead32_alias(1) [OF _ _ refl]

lemma iopRead32_other:
  assumes "unat a mod 2 ^ 29 + 4 \<le> 2 ^ 21"
    and "unat c mod 2 ^ 29 + 4 \<le> unat a mod 2 ^ 29 \<or> unat a mod 2 ^ 29 + 4 \<le> unat c mod 2 ^ 29"
  shows "iopRead32 (iopWrite32 a v mem) c = iopRead32 mem c"
proof -
  have "unat (iopRamOffset c) + 4 \<le> unat (iopRamOffset a) \<or> unat (iopRamOffset a) + length (bytes_of_word 4 v) \<le> unat (iopRamOffset c)"
    using assms by (auto simp: unat_iopRamOffset)
  from iop_load_store_other [OF this] show ?thesis by (simp add: iopRead32_def iopWrite32_def)
qed

lemma iop_ram_write32: "iop_ram mem = Some ram \<Longrightarrow> \<exists>ram'. iop_ram (iopWrite32 a v mem) = Some ram'"
  by (simp add: iopWrite32_def iop_store_def Let_def)

text \<open>
  IOP RAM: a 32-bit word stored in IOP RAM is read back through every segment alias of its
  address (KUSEG, KSEG0, KSEG1), its first byte is the least significant one, and words at
  disjoint offsets keep their value; outside the 2 MB a store has no effect and a load gives 0.
\<close>

lemma iop_word_roundtrip:
  assumes "iop_ram mem = Some ram" "unat a mod 2 ^ 29 + 4 \<le> 2 ^ 21" "unat b mod 2 ^ 29 = unat a mod 2 ^ 29"
    and "unat c mod 2 ^ 29 + 4 \<le> unat a mod 2 ^ 29 \<or> unat a mod 2 ^ 29 + 4 \<le> unat c mod 2 ^ 29"
    and "unat d mod 2 ^ 29 + 4 > 2 ^ 21"
  shows "iopRead32 (iopWrite32 a v mem) b = v \<and> iopRead8 (iopWrite32 a v mem) b = ucast v
    \<and> iopRead32 (iopWrite32 a v mem) c = iopRead32 mem c
    \<and> iopWrite32 d v mem = mem \<and> iopRead32 mem d = 0"
proof -
  have "iopWrite32 d v mem = mem" "iopRead32 mem d = 0"
    using assms(1,5) by (simp_all add: iopWrite32_def iop_store_def iopRead32_def iop_load_def Let_def unat_iopRamOffset)
  with iopRead32_alias [OF assms(1-3)] iopRead32_other [OF assms(2,4)] show ?thesis by simp
qed

definition demo_mem :: ps2_memory where
  "demo_mem = \<lparr>ee_rdram = Some (\<lambda>i. of_nat i), iop_ram = Some (\<lambda>_. 0), m_tlbEntries = tlb_initial\<rparr>"

section \<open>Transfers\<close>

lemma sif_clamp_spec:
  assumes "unat off < unat lim" "unat lim \<le> 2 ^ 25" "unat n < 2 ^ 32 - 2 ^ 25"
  shows "unat (sif_clamp off lim n) = min (unat n) (unat lim - unat off)"
proof -
  have "unat (off + n) = unat off + unat n" using assms by (simp add: unat_word_ariths)
  with assms show ?thesis by (auto simp: sif_clamp_def word_less_nat_alt unat_sub word_le_nat_alt)
qed

text \<open>The number of bytes a transfer between offsets \<open>eo\<close> and \<open>io\<close> may move.\<close>

definition sif_len :: "nat \<Rightarrow> nat \<Rightarrow> nat \<Rightarrow> nat" where
  "sif_len eo io n = min n (min (2 ^ 25 - eo) (2 ^ 21 - io))"

lemma unat_PS2_RAM_SIZE [simp]: "unat PS2_RAM_SIZE = 2 ^ 25"
  by (simp add: ram_defs)

lemma sif_clamp_both:
  assumes "unat eo < 2 ^ 25" "unat io < 2 ^ 21" "unat n < 2 ^ 32 - 2 ^ 25"
  shows "unat (sif_clamp io IOP_RAM_SIZE (sif_clamp eo PS2_RAM_SIZE n)) = sif_len (unat eo) (unat io) (unat n)"
    and "unat (sif_clamp eo PS2_RAM_SIZE (sif_clamp io IOP_RAM_SIZE n)) = sif_len (unat eo) (unat io) (unat n)"
proof -
  have e: "unat (sif_clamp eo PS2_RAM_SIZE n) = min (unat n) (2 ^ 25 - unat eo)"
    and i: "unat (sif_clamp io IOP_RAM_SIZE n) = min (unat n) (2 ^ 21 - unat io)"
    using sif_clamp_spec [of eo PS2_RAM_SIZE n] sif_clamp_spec [of io IOP_RAM_SIZE n] assms by simp_all
  show "unat (sif_clamp io IOP_RAM_SIZE (sif_clamp eo PS2_RAM_SIZE n)) = sif_len (unat eo) (unat io) (unat n)"
    using sif_clamp_spec [of io IOP_RAM_SIZE "sif_clamp eo PS2_RAM_SIZE n"] assms by (simp add: e sif_len_def min.assoc min_less_iff_disj)
  show "unat (sif_clamp eo PS2_RAM_SIZE (sif_clamp io IOP_RAM_SIZE n)) = sif_len (unat eo) (unat io) (unat n)"
    using sif_clamp_spec [of eo PS2_RAM_SIZE "sif_clamp io IOP_RAM_SIZE n"] assms by (simp add: i sif_len_def min.assoc min.commute min.left_commute min_less_iff_disj)
qed

lemma sif_len_le: "sif_len eo io n \<le> n" "eo < 2 ^ 25 \<Longrightarrow> eo + sif_len eo io n \<le> 2 ^ 25"
  "io < 2 ^ 21 \<Longrightarrow> io + sif_len eo io n \<le> 2 ^ 21"
  by (auto simp: sif_len_def min_def)

lemma sif_offsets:
  assumes "ram_alias a x" "unat m mod 2 ^ 29 < 2 ^ 21"
  shows "unat a < 2 ^ 25" "unat (iopRamOffset m) = unat m mod 2 ^ 29" "iopRamOffset m < IOP_RAM_SIZE" "a < PS2_RAM_SIZE"
  using assms ram_alias_unat(1) [OF assms(1)] by (simp_all add: unat_iopRamOffset word_less_nat_alt)

lemma sif1_run:
  assumes "ee_rdram mem = Some ee" "iop_ram mem = Some iop" "ram_alias a x" "unat m mod 2 ^ 29 < 2 ^ 21"
    and "n \<noteq> 0" "unat n < 2 ^ 32 - 2 ^ 25"
  shows "\<exists>k. sifDmaEEtoIOP x m n mem = SifDone k
      (mem\<lparr>iop_ram := Some (copy_in (unat m mod 2 ^ 29) (copy_out ee (unat a) (unat k)) iop)\<rparr>)
    \<and> unat k = sif_len (unat a) (unat m mod 2 ^ 29) (unat n)"
proof -
  note o = sif_offsets [OF assms(3,4)] and t = ram_alias_translate [OF assms(3), of "m_tlbEntries mem"]
  have io: "unat (iopRamOffset m) < 2 ^ 21" using o(2) assms(4) by simp
  note c = sif_clamp_both(1) [OF o(1) io assms(6)]
  have no: "\<not> PS2_RAM_SIZE \<le> a" "\<not> IOP_RAM_SIZE \<le> iopRamOffset m" using o(3,4) by (simp_all add: not_le)
  show ?thesis using assms(1,2,5) sif_len_le(2) [OF o(1)] sif_len_le(3) [OF assms(4)] o(2) c
    by (simp add: no sifDmaEEtoIOP_def t Let_def not_le)
qed

lemma sif0_run:
  assumes "ee_rdram mem = Some ee" "iop_ram mem = Some iop" "ram_alias a x" "unat m mod 2 ^ 29 < 2 ^ 21"
    and "n \<noteq> 0" "unat n < 2 ^ 32 - 2 ^ 25"
  shows "\<exists>k. sifDmaIOPtoEE m x n mem = SifDone k
      (mem\<lparr>ee_rdram := Some (copy_in (unat a) (copy_out iop (unat m mod 2 ^ 29) (unat k)) ee)\<rparr>)
    \<and> unat k = sif_len (unat a) (unat m mod 2 ^ 29) (unat n)"
proof -
  note o = sif_offsets [OF assms(3,4)] and t = ram_alias_translate [OF assms(3), of "m_tlbEntries mem"]
  have io: "unat (iopRamOffset m) < 2 ^ 21" using o(2) assms(4) by simp
  note c = sif_clamp_both(2) [OF o(1) io assms(6)]
  have no: "\<not> PS2_RAM_SIZE \<le> a" "\<not> IOP_RAM_SIZE \<le> iopRamOffset m" using o(3,4) by (simp_all add: not_le)
  show ?thesis using assms(1,2,5) sif_len_le(2) [OF o(1)] sif_len_le(3) [OF assms(4)] o(2) c
    by (simp add: no sifDmaIOPtoEE_def t Let_def not_le)
qed

text \<open>
  SIF transfer stays in bounds: for transfers short of 4 GB minus 32 MB, SIF1 and SIF0 between
  an RDRAM window and IOP RAM end without touching a byte outside the two arrays and move exactly the
  requested bytes, cut at the end of either array.
\<close>

lemma sif_dma_bounded:
  assumes "ee_rdram mem = Some ee" "iop_ram mem = Some iop" "ram_alias a x" "unat m mod 2 ^ 29 < 2 ^ 21"
    and "n \<noteq> 0" "unat n < 2 ^ 32 - 2 ^ 25"
  shows "(\<exists>k. sifDmaEEtoIOP x m n mem = SifDone k
      (mem\<lparr>iop_ram := Some (copy_in (unat m mod 2 ^ 29) (copy_out ee (unat a) (unat k)) iop)\<rparr>)
      \<and> unat k = min (unat n) (min (2 ^ 25 - unat a) (2 ^ 21 - unat m mod 2 ^ 29)))
    \<and> (\<exists>k. sifDmaIOPtoEE m x n mem = SifDone k
      (mem\<lparr>ee_rdram := Some (copy_in (unat a) (copy_out iop (unat m mod 2 ^ 29) (unat k)) ee)\<rparr>)
      \<and> unat k = min (unat n) (min (2 ^ 25 - unat a) (2 ^ 21 - unat m mod 2 ^ 29)))"
  using sif1_run [OF assms] sif0_run [OF assms] unfolding sif_len_def by blast

text \<open>
  SIF round trip: a block sent from RDRAM to IOP RAM and back to a second RDRAM address arrives
  there unchanged, and no other RDRAM byte changes.
\<close>

lemma sif_roundtrip:
  assumes mem: "ee_rdram mem = Some ee" "iop_ram mem = Some iop" and src: "ram_alias a x" and dst: "ram_alias b y"
    and n: "n \<noteq> 0" "unat m mod 2 ^ 29 + unat n \<le> 2 ^ 21" "unat a + unat n \<le> 2 ^ 25" "unat b + unat n \<le> 2 ^ 25"
  shows "\<exists>mem1 mem2 ee'. sifDmaEEtoIOP x m n mem = SifDone n mem1 \<and> sifDmaIOPtoEE m y n mem1 = SifDone n mem2
    \<and> ee_rdram mem2 = Some ee'
    \<and> (\<forall>i. ee' i = (if unat b \<le> i \<and> i < unat b + unat n then ee (unat a + (i - unat b)) else ee i))"
proof -
  have n0: "unat n > 0" using n(1) by (simp add: unat_gt_0)
  have m: "unat m mod 2 ^ 29 < 2 ^ 21" and big: "unat n < 2 ^ 32 - 2 ^ 25" using n n0 by simp_all
  have len: "sif_len (unat a) (unat m mod 2 ^ 29) (unat n) = unat n" "sif_len (unat b) (unat m mod 2 ^ 29) (unat n) = unat n"
    using n(2-4) by (auto simp: sif_len_def)
  let ?M = "unat m mod 2 ^ 29" and ?blk = "copy_out ee (unat a) (unat n)"
  let ?mem1 = "mem\<lparr>iop_ram := Some (copy_in ?M ?blk iop)\<rparr>"
  from sif1_run [OF mem src m n(1) big] have s1: "sifDmaEEtoIOP x m n mem = SifDone n ?mem1"
    unfolding len by (auto simp flip: word_unat_eq_iff)
  have mem1: "ee_rdram ?mem1 = Some ee" "iop_ram ?mem1 = Some (copy_in ?M ?blk iop)" using mem by simp_all
  from sif0_run [OF mem1 dst m n(1) big] have
    "sifDmaIOPtoEE m y n ?mem1 = SifDone n (?mem1\<lparr>ee_rdram := Some (copy_in (unat b) (copy_out (copy_in ?M ?blk iop) ?M (unat n)) ee)\<rparr>)"
    unfolding len by (auto simp flip: word_unat_eq_iff)
  moreover have "copy_out (copy_in ?M ?blk iop) ?M (unat n) = ?blk" using copy_out_in [of ?M ?blk iop] by simp
  ultimately have s0: "sifDmaIOPtoEE m y n ?mem1 = SifDone n (?mem1\<lparr>ee_rdram := Some (copy_in (unat b) ?blk ee)\<rparr>)"
    by (simp only:)
  have "copy_in (unat b) ?blk ee i = (if unat b \<le> i \<and> i < unat b + unat n then ee (unat a + (i - unat b)) else ee i)" for i
    by (auto simp: copy_in_def)
  then show ?thesis using s1 s0
    by (intro exI [of _ ?mem1] exI [of _ "?mem1\<lparr>ee_rdram := Some (copy_in (unat b) ?blk ee)\<rparr>"]
          exI [of _ "copy_in (unat b) ?blk ee"]) simp
qed

text \<open>
  Without the size hypothesis the clamps fail: the 32-bit sums wrap around to 0 and neither cuts the length.
\<close>

lemma sif_dma_overrun: "sifDmaEEtoIOP 0x100000 0x100000 0xFFF00000 demo_mem = SifOverrun"
proof -
  have "ram_alias 0x100000 0x100000" by (simp add: ram_alias_def ram_defs)
  from ram_alias_translate [OF this] show ?thesis
    by (simp add: sifDmaEEtoIOP_def demo_mem_def Let_def sif_clamp_def iopRamOffset_def ram_defs IOP_RAM_SIZE_def)
qed

end
