(* ===== verification/IopCpu.thy ===== *)
theory IopCpu
  imports IopMemory "HOL-Library.Signed_Division"
begin

text \<open>
  The R3000A interpreter of the I/O processor (\<open>ps2_iop_cpu.cpp\<close>). The callbacks a client installs
  (trap handler, device register hooks, import hook) are arguments: functions on the processor state,
  whose last field stands for whatever else they capture. \<open>execOne\<close> calls itself for the delay slot,
  so it carries fuel; \<open>None\<close> means that the fuel did not suffice.
\<close>

section \<open>State\<close>

record 'e iop_cpu =
  m_mem :: ps2_memory
  m_gpr :: "nat \<Rightarrow> u32"
  m_hi :: u32
  m_lo :: u32
  m_pc :: u32
  m_cop0 :: "nat \<Rightarrow> u32"
  m_halted :: bool
  m_haltPcSet :: bool
  m_haltPc :: u32
  m_instrCount :: u32
  m_ioWarnCount :: u32
  hook_env :: 'e

record 'e iop_hooks =
  m_trap :: "('e iop_cpu \<Rightarrow> u32 \<Rightarrow> 'e iop_cpu) option"
  m_ioRead :: "(u32 \<Rightarrow> 'e iop_cpu \<Rightarrow> u32 option \<times> 'e iop_cpu) option"
  m_ioWrite :: "(u32 \<Rightarrow> u32 \<Rightarrow> 'e iop_cpu \<Rightarrow> bool \<times> 'e iop_cpu) option"
  m_importHook :: "('e iop_cpu \<Rightarrow> u32 \<Rightarrow> bool \<times> 'e iop_cpu) option"

record iop_state =
  st_gpr :: "nat \<Rightarrow> u32"
  st_hi :: u32
  st_lo :: u32
  st_pc :: u32

definition iop_reset :: "'e iop_cpu \<Rightarrow> 'e iop_cpu" where
  "iop_reset c = c\<lparr>m_gpr := \<lambda>_. 0, m_cop0 := \<lambda>_. 0, m_hi := 0, m_lo := 0, m_pc := 0, m_halted := False,
     m_haltPcSet := False, m_haltPc := 0, m_instrCount := 0, m_ioWarnCount := 0\<rparr>"

definition setGpr :: "int \<Rightarrow> u32 \<Rightarrow> 'e iop_cpu \<Rightarrow> 'e iop_cpu" where
  "setGpr i v c = (let k = nat (i mod 32) in if k \<noteq> 0 then c\<lparr>m_gpr := (m_gpr c)(k := v)\<rparr> else c)"

definition setHaltPc :: "u32 \<Rightarrow> 'e iop_cpu \<Rightarrow> 'e iop_cpu" where
  "setHaltPc addr c = c\<lparr>m_haltPc := addr, m_haltPcSet := True\<rparr>"

definition saveState :: "'e iop_cpu \<Rightarrow> iop_state" where
  "saveState c = \<lparr>st_gpr = m_gpr c, st_hi = m_hi c, st_lo = m_lo c, st_pc = m_pc c\<rparr>"

definition restoreState :: "iop_state \<Rightarrow> 'e iop_cpu \<Rightarrow> 'e iop_cpu" where
  "restoreState s c = c\<lparr>m_gpr := (st_gpr s)(0 := 0), m_hi := st_hi s, m_lo := st_lo s, m_pc := st_pc s\<rparr>"

section \<open>Bus\<close>

definition bus_phys :: "u32 \<Rightarrow> u32" where
  "bus_phys addr = addr AND 0x1FFFFFFF"

definition io_read :: "'e iop_hooks \<Rightarrow> u32 \<Rightarrow> 'e iop_cpu \<Rightarrow> u32 option \<times> 'e iop_cpu" where
  "io_read hk phys c = (case m_ioRead hk of None \<Rightarrow> (None, c) | Some h \<Rightarrow> h phys c)"

definition io_write :: "'e iop_hooks \<Rightarrow> u32 \<Rightarrow> u32 \<Rightarrow> 'e iop_cpu \<Rightarrow> bool \<times> 'e iop_cpu" where
  "io_write hk phys v c = (case m_ioWrite hk of None \<Rightarrow> (False, c) | Some h \<Rightarrow> h phys v c)"

definition io_warn :: "'e iop_cpu \<Rightarrow> 'e iop_cpu" where
  "io_warn c = (if m_ioWarnCount c < 32 then c\<lparr>m_ioWarnCount := m_ioWarnCount c + 1\<rparr> else c)"

definition busRead8 :: "'e iop_hooks \<Rightarrow> u32 \<Rightarrow> 'e iop_cpu \<Rightarrow> u8 \<times> 'e iop_cpu" where
  "busRead8 hk addr c =
     (if bus_phys addr < IOP_RAM_SIZE then (iopRead8 (m_mem c) addr, c)
      else case io_read hk (bus_phys addr) c of (Some out, c) \<Rightarrow> (ucast out, c) | (None, c) \<Rightarrow> (0, c))"

definition busRead16 :: "'e iop_hooks \<Rightarrow> u32 \<Rightarrow> 'e iop_cpu \<Rightarrow> u16 \<times> 'e iop_cpu" where
  "busRead16 hk addr c =
     (if bus_phys addr < IOP_RAM_SIZE then (iopRead16 (m_mem c) addr, c)
      else case io_read hk (bus_phys addr) c of (Some out, c) \<Rightarrow> (ucast out, c) | (None, c) \<Rightarrow> (0, c))"

definition busRead32 :: "'e iop_hooks \<Rightarrow> u32 \<Rightarrow> 'e iop_cpu \<Rightarrow> u32 \<times> 'e iop_cpu" where
  "busRead32 hk addr c =
     (if bus_phys addr < IOP_RAM_SIZE then (iopRead32 (m_mem c) addr, c)
      else case io_read hk (bus_phys addr) c of (Some out, c) \<Rightarrow> (out, c) | (None, c) \<Rightarrow> (0, io_warn c))"

definition busWrite8 :: "'e iop_hooks \<Rightarrow> u32 \<Rightarrow> u8 \<Rightarrow> 'e iop_cpu \<Rightarrow> 'e iop_cpu" where
  "busWrite8 hk addr v c =
     (if bus_phys addr < IOP_RAM_SIZE then c\<lparr>m_mem := iopWrite8 addr v (m_mem c)\<rparr>
      else snd (io_write hk (bus_phys addr) (ucast v) c))"

definition busWrite16 :: "'e iop_hooks \<Rightarrow> u32 \<Rightarrow> u16 \<Rightarrow> 'e iop_cpu \<Rightarrow> 'e iop_cpu" where
  "busWrite16 hk addr v c =
     (if bus_phys addr < IOP_RAM_SIZE then c\<lparr>m_mem := iopWrite16 addr v (m_mem c)\<rparr>
      else snd (io_write hk (bus_phys addr) (ucast v) c))"

definition busWrite32 :: "'e iop_hooks \<Rightarrow> u32 \<Rightarrow> u32 \<Rightarrow> 'e iop_cpu \<Rightarrow> 'e iop_cpu" where
  "busWrite32 hk addr v c =
     (if bus_phys addr < IOP_RAM_SIZE then c\<lparr>m_mem := iopWrite32 addr v (m_mem c)\<rparr>
      else case io_write hk (bus_phys addr) v c of (True, c) \<Rightarrow> c | (False, c) \<Rightarrow> io_warn c)"

section \<open>Instruction fields and register access\<close>

definition f_op :: "u32 \<Rightarrow> u32" where "f_op code = drop_bit 26 code"
definition f_rs :: "u32 \<Rightarrow> u32" where "f_rs code = drop_bit 21 code AND 31"
definition f_rt :: "u32 \<Rightarrow> u32" where "f_rt code = drop_bit 16 code AND 31"
definition f_rd :: "u32 \<Rightarrow> u32" where "f_rd code = drop_bit 11 code AND 31"
definition f_sa :: "u32 \<Rightarrow> u32" where "f_sa code = drop_bit 6 code AND 31"
definition f_funct :: "u32 \<Rightarrow> u32" where "f_funct code = code AND 0x3F"
definition f_imm :: "u32 \<Rightarrow> u32" where "f_imm code = ucast (ucast code :: u16)"
definition f_simm :: "u32 \<Rightarrow> u32" where "f_simm code = scast (ucast code :: u16)"

definition Rg :: "'e iop_cpu \<Rightarrow> u32 \<Rightarrow> u32" where
  "Rg c i = m_gpr c (unat i)"

definition Wg :: "u32 \<Rightarrow> u32 \<Rightarrow> 'e iop_cpu \<Rightarrow> 'e iop_cpu" where
  "Wg i v c = (if i \<noteq> 0 then c\<lparr>m_gpr := (m_gpr c)(unat i := v)\<rparr> else c)"

definition bool32 :: "bool \<Rightarrow> u32" where
  "bool32 b = (if b then 1 else 0)"

definition doBranch :: "('e iop_cpu \<Rightarrow> 'e iop_cpu option) \<Rightarrow> u32 \<Rightarrow> 'e iop_cpu \<Rightarrow> 'e iop_cpu option" where
  "doBranch exec target c = map_option (\<lambda>c. c\<lparr>m_pc := target\<rparr>) (exec c)"

definition iop_trap :: "'e iop_hooks \<Rightarrow> u32 \<Rightarrow> 'e iop_cpu \<Rightarrow> 'e iop_cpu" where
  "iop_trap hk excode c = (case m_trap hk of Some h \<Rightarrow> h c excode | None \<Rightarrow> c\<lparr>m_halted := True\<rparr>)"

section \<open>Instructions\<close>

definition mult_signed :: "u32 \<Rightarrow> u32 \<Rightarrow> u32 \<times> u32" where
  "mult_signed a b = (let r = scast a * scast b :: u64 in (ucast (signed_drop_bit 32 r), ucast r))"

definition mult_unsigned :: "u32 \<Rightarrow> u32 \<Rightarrow> u32 \<times> u32" where
  "mult_unsigned a b = (let r = ucast a * ucast b :: u64 in (ucast (drop_bit 32 r), ucast r))"

definition div_signed :: "u32 \<Rightarrow> u32 \<Rightarrow> u32 \<times> u32" where
  "div_signed a b =
     (if sint b = 0 then (a, if sint a < 0 then 1 else 0xFFFFFFFF)
      else if a = 0x80000000 \<and> sint b = -1 then (0, 0x80000000)
      else (word_of_int (sint a smod sint b), word_of_int (sint a sdiv sint b)))"

definition div_unsigned :: "u32 \<Rightarrow> u32 \<Rightarrow> u32 \<times> u32" where
  "div_unsigned a b = (if b = 0 then (a, 0xFFFFFFFF) else (a mod b, a div b))"

definition set_hilo :: "u32 \<times> u32 \<Rightarrow> 'e iop_cpu \<Rightarrow> 'e iop_cpu" where
  "set_hilo r c = c\<lparr>m_hi := fst r, m_lo := snd r\<rparr>"

definition exec_special :: "'e iop_hooks \<Rightarrow> (u32 \<Rightarrow> 'e iop_cpu \<Rightarrow> 'e iop_cpu option) \<Rightarrow> u32 \<Rightarrow> 'e iop_cpu \<Rightarrow> 'e iop_cpu option" where
  "exec_special hk br code c =
     (let fn = f_funct code; rs = Rg c (f_rs code); rt = Rg c (f_rt code); rd = f_rd code; sa = f_sa code;
          sh = rs AND 31 in
      if fn = 0x00 then Some (Wg rd (push_bit (unat sa) rt) c)
      else if fn = 0x02 then Some (Wg rd (drop_bit (unat sa) rt) c)
      else if fn = 0x03 then Some (Wg rd (signed_drop_bit (unat sa) rt) c)
      else if fn = 0x04 then Some (Wg rd (push_bit (unat sh) rt) c)
      else if fn = 0x06 then Some (Wg rd (drop_bit (unat sh) rt) c)
      else if fn = 0x07 then Some (Wg rd (signed_drop_bit (unat sh) rt) c)
      else if fn = 0x08 then br rs c
      else if fn = 0x09 then br rs (if rd \<noteq> 0 then Wg rd (m_pc c + 4) c else c)
      else if fn = 0x0C then Some (iop_trap hk 0x20 c)
      else if fn = 0x0D then Some (iop_trap hk 0x24 c)
      else if fn = 0x10 then Some (Wg rd (m_hi c) c)
      else if fn = 0x11 then Some (c\<lparr>m_hi := rs\<rparr>)
      else if fn = 0x12 then Some (Wg rd (m_lo c) c)
      else if fn = 0x13 then Some (c\<lparr>m_lo := rs\<rparr>)
      else if fn = 0x18 then Some (set_hilo (mult_signed rs rt) c)
      else if fn = 0x19 then Some (set_hilo (mult_unsigned rs rt) c)
      else if fn = 0x1A then Some (set_hilo (div_signed rs rt) c)
      else if fn = 0x1B then Some (set_hilo (div_unsigned rs rt) c)
      else if fn = 0x20 \<or> fn = 0x21 then Some (Wg rd (rs + rt) c)
      else if fn = 0x22 \<or> fn = 0x23 then Some (Wg rd (rs - rt) c)
      else if fn = 0x24 then Some (Wg rd (rs AND rt) c)
      else if fn = 0x25 then Some (Wg rd (rs OR rt) c)
      else if fn = 0x26 then Some (Wg rd (rs XOR rt) c)
      else if fn = 0x27 then Some (Wg rd (NOT (rs OR rt)) c)
      else if fn = 0x2A then Some (Wg rd (bool32 (sint rs < sint rt)) c)
      else if fn = 0x2B then Some (Wg rd (bool32 (rs < rt)) c)
      else Some c)"

definition exec_regimm :: "(u32 \<Rightarrow> 'e iop_cpu \<Rightarrow> 'e iop_cpu option) \<Rightarrow> u32 \<Rightarrow> u32 \<Rightarrow> 'e iop_cpu \<Rightarrow> 'e iop_cpu option" where
  "exec_regimm br target code c =
     (let lt = sint (Rg c (f_rs code)) < 0; ge = sint (Rg c (f_rs code)) \<ge> 0; sel = f_rt code in
      if sel = 0x00 then (if lt then br target c else Some c)
      else if sel = 0x01 then (if ge then br target c else Some c)
      else if sel = 0x10 then (let c = Wg 31 (m_pc c + 4) c in if lt then br target c else Some c)
      else if sel = 0x11 then (let c = Wg 31 (m_pc c + 4) c in if ge then br target c else Some c)
      else Some c)"

definition exec_cop0 :: "u32 \<Rightarrow> 'e iop_cpu \<Rightarrow> 'e iop_cpu" where
  "exec_cop0 code c =
     (let sel = f_rs code; rd = unat (f_rd code) in
      if sel = 0x00 \<or> sel = 0x02 then Wg (f_rt code) (m_cop0 c rd) c
      else if sel = 0x04 \<or> sel = 0x06 then c\<lparr>m_cop0 := (m_cop0 c)(rd := Rg c (f_rt code))\<rparr>
      else if sel = 0x10 then c\<lparr>m_cop0 := (m_cop0 c)(12 :=
          (m_cop0 c 12 AND 0xFFFFFFF0) OR drop_bit 2 (m_cop0 c 12 AND 0x3C))\<rparr>
      else c)"

text \<open>The effective address and the shift amount of the unaligned accesses.\<close>

definition ea :: "'e iop_cpu \<Rightarrow> u32 \<Rightarrow> u32" where
  "ea c code = Rg c (f_rs code) + f_simm code"

definition lane :: "u32 \<Rightarrow> nat" where
  "lane a = unat (push_bit 3 (a AND 3))"

definition exec_load :: "'e iop_hooks \<Rightarrow> u32 \<Rightarrow> 'e iop_cpu \<Rightarrow> 'e iop_cpu" where
  "exec_load hk code c =
     (let opc = f_op code; rt = f_rt code; a = ea c code in
      if opc = 0x20 then (let (v, c) = busRead8 hk a c in Wg rt (scast v) c)
      else if opc = 0x21 then (let (v, c) = busRead16 hk a c in Wg rt (scast v) c)
      else if opc = 0x22 then (let (v, c) = busRead32 hk (a AND NOT 3) c in
             Wg rt ((Rg c rt AND drop_bit (lane a) 0x00FFFFFF) OR push_bit (24 - lane a) v) c)
      else if opc = 0x23 then (let (v, c) = busRead32 hk a c in Wg rt v c)
      else if opc = 0x24 then (let (v, c) = busRead8 hk a c in Wg rt (ucast v) c)
      else if opc = 0x25 then (let (v, c) = busRead16 hk a c in Wg rt (ucast v) c)
      else if opc = 0x26 then (let (v, c) = busRead32 hk (a AND NOT 3) c in
             Wg rt ((Rg c rt AND push_bit (24 - lane a) 0xFFFFFF00) OR drop_bit (lane a) v) c)
      else c)"

definition exec_store :: "'e iop_hooks \<Rightarrow> u32 \<Rightarrow> 'e iop_cpu \<Rightarrow> 'e iop_cpu" where
  "exec_store hk code c =
     (let opc = f_op code; rt = f_rt code; a = ea c code in
      if opc = 0x28 then busWrite8 hk a (ucast (Rg c rt)) c
      else if opc = 0x29 then busWrite16 hk a (ucast (Rg c rt)) c
      else if opc = 0x2A then (let (v, c) = busRead32 hk (a AND NOT 3) c in
             busWrite32 hk (a AND NOT 3) (drop_bit (24 - lane a) (Rg c rt) OR (v AND push_bit (lane a) 0xFFFFFF00)) c)
      else if opc = 0x2B then busWrite32 hk a (Rg c rt) c
      else if opc = 0x2E then (let (v, c) = busRead32 hk (a AND NOT 3) c in
             busWrite32 hk (a AND NOT 3) (push_bit (lane a) (Rg c rt) OR (v AND drop_bit (24 - lane a) 0x00FFFFFF)) c)
      else c)"

definition exec_op :: "'e iop_hooks \<Rightarrow> (u32 \<Rightarrow> 'e iop_cpu \<Rightarrow> 'e iop_cpu option) \<Rightarrow> u32 \<Rightarrow> u32 \<Rightarrow> 'e iop_cpu \<Rightarrow> 'e iop_cpu option" where
  "exec_op hk br curpc code c =
     (let opc = f_op code; rs = Rg c (f_rs code); rt = f_rt code; simm = f_simm code; imm = f_imm code;
          branchTarget = curpc + 4 + push_bit 2 simm;
          jumpTarget = (m_pc c AND 0xF0000000) OR push_bit 2 (code AND 0x03FFFFFF) in
      if opc = 0x00 then exec_special hk br code c
      else if opc = 0x01 then exec_regimm br branchTarget code c
      else if opc = 0x02 then br jumpTarget c
      else if opc = 0x03 then br jumpTarget (Wg 31 (m_pc c + 4) c)
      else if opc = 0x04 then (if rs = Rg c rt then br branchTarget c else Some c)
      else if opc = 0x05 then (if rs \<noteq> Rg c rt then br branchTarget c else Some c)
      else if opc = 0x06 then (if sint rs \<le> 0 then br branchTarget c else Some c)
      else if opc = 0x07 then (if sint rs > 0 then br branchTarget c else Some c)
      else if opc = 0x08 \<or> opc = 0x09 then Some (Wg rt (rs + simm) c)
      else if opc = 0x0A then Some (Wg rt (bool32 (sint rs < sint simm)) c)
      else if opc = 0x0B then Some (Wg rt (bool32 (rs < simm)) c)
      else if opc = 0x0C then Some (Wg rt (rs AND imm) c)
      else if opc = 0x0D then Some (Wg rt (rs OR imm) c)
      else if opc = 0x0E then Some (Wg rt (rs XOR imm) c)
      else if opc = 0x0F then Some (Wg rt (push_bit 16 imm) c)
      else if opc = 0x10 then Some (exec_cop0 code c)
      else if 0x20 \<le> opc \<and> opc \<le> 0x26 then Some (exec_load hk code c)
      else if 0x28 \<le> opc \<and> opc \<le> 0x2E then Some (exec_store hk code c)
      else Some c)"

definition fetch :: "'e iop_hooks \<Rightarrow> 'e iop_cpu \<Rightarrow> u32 \<times> u32 \<times> 'e iop_cpu" where
  "fetch hk c = (let (code, c) = busRead32 hk (m_pc c) c; curpc = m_pc c
     in (code, curpc, c\<lparr>m_pc := m_pc c + 4, m_instrCount := m_instrCount c + 1\<rparr>))"

definition exec_body :: "'e iop_hooks \<Rightarrow> (u32 \<Rightarrow> 'e iop_cpu \<Rightarrow> 'e iop_cpu option) \<Rightarrow> 'e iop_cpu \<Rightarrow> 'e iop_cpu option" where
  "exec_body hk br c = (let (code, curpc, c) = fetch hk c
     in map_option (\<lambda>c. c\<lparr>m_gpr := (m_gpr c)(0 := 0)\<rparr>) (exec_op hk br curpc code c))"

primrec execOne :: "'e iop_hooks \<Rightarrow> nat \<Rightarrow> 'e iop_cpu \<Rightarrow> 'e iop_cpu option" where
  "execOne hk 0 = (\<lambda>c. None)"
| "execOne hk (Suc n) = exec_body hk (doBranch (execOne hk n))"

section \<open>Running\<close>

text \<open>\<open>depth\<close> bounds the delay-slot recursion and \<open>iters\<close> the iterations of the loop.\<close>

primrec run_loop :: "'e iop_hooks \<Rightarrow> nat \<Rightarrow> nat \<Rightarrow> u32 \<Rightarrow> u32 \<Rightarrow> 'e iop_cpu \<Rightarrow> 'e iop_cpu option" where
  "run_loop hk depth 0 start maxInstr c = None"
| "run_loop hk depth (Suc iters) start maxInstr c =
     (if \<not> (m_instrCount c - start < maxInstr) then Some c
      else if m_haltPcSet c \<and> m_pc c = m_haltPc c then Some (c\<lparr>m_halted := True\<rparr>)
      else case (case m_importHook hk of None \<Rightarrow> (False, c) | Some h \<Rightarrow> h c (m_pc c)) of
          (True, c) \<Rightarrow>
            (let c = c\<lparr>m_instrCount := m_instrCount c + 1\<rparr>
             in if m_halted c then Some c else run_loop hk depth iters start maxInstr c)
        | (False, c) \<Rightarrow>
            (case execOne hk depth c of
               None \<Rightarrow> None
             | Some c \<Rightarrow> if m_halted c then Some c else run_loop hk depth iters start maxInstr c))"

definition iop_run :: "'e iop_hooks \<Rightarrow> nat \<Rightarrow> nat \<Rightarrow> u32 \<Rightarrow> 'e iop_cpu \<Rightarrow> (u32 \<times> 'e iop_cpu) option" where
  "iop_run hk depth iters maxInstr c =
     (let c = c\<lparr>m_halted := False\<rparr>; start = m_instrCount c
      in map_option (\<lambda>c. (m_instrCount c - start, c)) (run_loop hk depth iters start maxInstr c))"

definition selfTest_prog :: "u32 list" where
  "selfTest_prog = [0x24020000, 0x24030001, 0x00431021, 0x24630001, 0x2861000B, 0x1420FFFC, 0x00000000,
     0xAC020100, 0x03E00008, 0x00000000]"

definition write_words :: "u32 \<Rightarrow> u32 list \<Rightarrow> ps2_memory \<Rightarrow> ps2_memory" where
  "write_words base ws mem = fold (\<lambda>i. iopWrite32 (base + of_nat i * 4) (ws ! i)) [0..<length ws] mem"

definition selfTest :: "'e iop_hooks \<Rightarrow> nat \<Rightarrow> nat \<Rightarrow> 'e iop_cpu \<Rightarrow> (bool \<times> 'e iop_cpu) option" where
  "selfTest hk depth iters c =
     (if iop_ram (m_mem c) = None then Some (False, c)
      else let c = iop_reset c;
               c = c\<lparr>m_mem := iopWrite32 0x100 0 (write_words 0x1000 selfTest_prog (m_mem c))\<rparr>;
               c = (setHaltPc 0x00FFF000 (setGpr 31 0x00FFF000 c))\<lparr>m_pc := 0x1000\<rparr>
           in case iop_run hk depth iters 10000 c of
                None \<Rightarrow> None
              | Some (retired, c) \<Rightarrow>
                  let result = iopRead32 (m_mem c) 0x100;
                      ok = m_halted c \<and> result = 55;
                      mem = write_words 0x1000 (replicate (length selfTest_prog) 0) (iopWrite32 0x100 0 (m_mem c))
                  in Some (ok, iop_reset (c\<lparr>m_mem := mem\<rparr>)))"

section \<open>Frame facts\<close>

lemma Wg_simps [simp, cpu_simps]:
  "m_pc (Wg i v c) = m_pc c" "m_mem (Wg i v c) = m_mem c" "m_instrCount (Wg i v c) = m_instrCount c"
  "m_halted (Wg i v c) = m_halted c" "m_haltPc (Wg i v c) = m_haltPc c" "m_haltPcSet (Wg i v c) = m_haltPcSet c"
  "Wg 0 v c = c" "m_hi (Wg i v c) = m_hi c" "m_lo (Wg i v c) = m_lo c"
  by (simp_all add: Wg_def)

lemma io_warn_simps [simp, cpu_simps]:
  "m_pc (io_warn c) = m_pc c" "m_mem (io_warn c) = m_mem c" "m_instrCount (io_warn c) = m_instrCount c"
  "m_halted (io_warn c) = m_halted c" "m_gpr (io_warn c) = m_gpr c"
  by (simp_all add: io_warn_def)

text \<open>No trap handler and no device hooks: the configuration in which the runtime uses the interpreter.\<close>

definition bare :: "'e iop_hooks \<Rightarrow> bool" where
  "bare hk \<longleftrightarrow> m_trap hk = None \<and> m_ioRead hk = None \<and> m_ioWrite hk = None"

lemma bus_read_frame:
  assumes "bare hk"
  shows "m_instrCount (snd (busRead8 hk a c)) = m_instrCount c" "m_instrCount (snd (busRead16 hk a c)) = m_instrCount c"
    "m_instrCount (snd (busRead32 hk a c)) = m_instrCount c" "m_pc (snd (busRead32 hk a c)) = m_pc c"
  using assms by (simp_all add: busRead8_def busRead16_def busRead32_def io_read_def bare_def)

lemma bus_write_frame:
  assumes "bare hk"
  shows "m_instrCount (busWrite8 hk a v8 c) = m_instrCount c" "m_instrCount (busWrite16 hk a v16 c) = m_instrCount c"
    "m_instrCount (busWrite32 hk a v32 c) = m_instrCount c"
  using assms by (simp_all add: busWrite8_def busWrite16_def busWrite32_def io_write_def bare_def)

lemma exec_load_count: "bare hk \<Longrightarrow> m_instrCount (exec_load hk code c) = m_instrCount c"
  by (simp add: exec_load_def Let_def bus_read_frame split_beta)

lemma exec_store_count: "bare hk \<Longrightarrow> m_instrCount (exec_store hk code c) = m_instrCount c"
  by (simp add: exec_store_def Let_def bus_read_frame bus_write_frame split_beta)

text \<open>
  An instruction either ends without a delay slot, and then does not count further instructions,
  or branches from a state that differs from the fetched one in at most one register.
\<close>

definition op_shape :: "(u32 \<Rightarrow> 'e iop_cpu \<Rightarrow> 'e iop_cpu option) \<Rightarrow> 'e iop_cpu \<Rightarrow> 'e iop_cpu option \<Rightarrow> bool" where
  "op_shape br c r \<longleftrightarrow> (\<exists>c'. r = Some c' \<and> m_instrCount c' = m_instrCount c) \<or> (\<exists>t i v. r = br t (Wg i v c))"

lemma op_shape_Some: "m_instrCount c' = m_instrCount c \<Longrightarrow> op_shape br c (Some c')"
  by (simp add: op_shape_def)

lemma op_shape_Wg: "op_shape br c (br t (Wg i v c))"
  by (auto simp: op_shape_def)

lemma op_shape_br: "op_shape br c (br t c)"
  using op_shape_Wg [of br c t 0] by simp

lemma op_shape_if:
  "(b \<Longrightarrow> op_shape br c x) \<Longrightarrow> (\<not> b \<Longrightarrow> op_shape br c y) \<Longrightarrow> op_shape br c (if b then x else y)"
  by simp

lemmas op_shape_rules = op_shape_Some op_shape_Wg op_shape_br op_shape_if

lemma exec_special_shape: "bare hk \<Longrightarrow> op_shape br c (exec_special hk br code c)"
  unfolding exec_special_def Let_def
  by (intro op_shape_if op_shape_br op_shape_Some) (simp_all add: set_hilo_def iop_trap_def bare_def op_shape_rules)

lemma exec_regimm_shape: "op_shape br c (exec_regimm br tg code c)"
  unfolding exec_regimm_def Let_def by (simp add: op_shape_rules)

lemma exec_op_shape: "bare hk \<Longrightarrow> op_shape br c (exec_op hk br pc code c)"
  unfolding exec_op_def Let_def
  by (intro op_shape_if exec_special_shape exec_regimm_shape op_shape_br op_shape_Wg op_shape_Some)
    (simp_all add: exec_cop0_def exec_load_count exec_store_count Let_def)

section \<open>Termination of one instruction\<close>

text \<open>The number of IOP RAM words from the program counter to the end of RAM.\<close>

definition words_left :: "u32 \<Rightarrow> nat" where
  "words_left pc = (2 ^ 21 + 3 - unat pc mod 2 ^ 29) div 4"

lemma bus_phys_less: "bus_phys a < IOP_RAM_SIZE \<longleftrightarrow> unat a mod 2 ^ 29 < 2 ^ 21"
  by (simp add: bus_phys_def word_less_nat_alt unat_direct)

lemma words_left_step:
  assumes "unat pc mod 2 ^ 29 < 2 ^ 21"
  shows "words_left (pc + 4) < words_left pc"
proof -
  have "unat (pc + 4) mod 2 ^ 29 = (unat pc + 4) mod 2 ^ 29"
    by (simp add: unat_word_ariths mod_mod_cancel)
  also have "\<dots> = unat pc mod 2 ^ 29 + 4"
    using assms by (subst mod_add_left_eq [symmetric]) (simp add: mod_less)
  finally have "unat (pc + 4) mod 2 ^ 29 = unat pc mod 2 ^ 29 + 4" .
  with assms show ?thesis by (simp add: words_left_def)
qed

lemma words_left_bound: "words_left pc \<le> 2 ^ 19"
  by (simp add: words_left_def)

lemma fetch_bare:
  assumes "bare hk"
  shows "fetch hk c = (if unat (m_pc c) mod 2 ^ 29 < 2 ^ 21
     then (iopRead32 (m_mem c) (m_pc c), m_pc c, c\<lparr>m_pc := m_pc c + 4, m_instrCount := m_instrCount c + 1\<rparr>)
     else (0, m_pc c, (io_warn c)\<lparr>m_pc := m_pc c + 4, m_instrCount := m_instrCount c + 1\<rparr>))"
  using assms by (simp add: fetch_def busRead32_def io_read_def bare_def bus_phys_less)

lemma exec_op_nop: "exec_op hk br pc 0 c = Some c"
  by (simp add: exec_op_def exec_special_def f_op_def f_funct_def f_rd_def)

lemma execOne_total:
  assumes "bare hk"
  shows "words_left (m_pc c) \<le> n \<Longrightarrow>
    \<exists>c' k. execOne hk (Suc n) c = Some c' \<and> 1 \<le> k \<and> k \<le> Suc n \<and> m_instrCount c' = m_instrCount c + of_nat k
      \<and> m_gpr c' 0 = 0"
proof (induction n arbitrary: c rule: less_induct)
  case (less n)
  show ?case
  proof (cases "unat (m_pc c) mod 2 ^ 29 < 2 ^ 21")
    case False
    then show ?thesis by (simp add: exec_body_def fetch_bare [OF assms] exec_op_nop) (intro exI [of _ 1], simp)
  next
    case True
    let ?c = "c\<lparr>m_pc := m_pc c + 4, m_instrCount := m_instrCount c + 1\<rparr>"
    let ?code = "iopRead32 (m_mem c) (m_pc c)" and ?br = "doBranch (execOne hk n)"
    have ex: "execOne hk (Suc n) c = map_option (\<lambda>c. c\<lparr>m_gpr := (m_gpr c)(0 := 0)\<rparr>) (exec_op hk ?br (m_pc c) ?code ?c)"
      using True by (simp add: exec_body_def fetch_bare [OF assms])
    note wl = words_left_step [OF True]
    with less.prems have n: "words_left (m_pc c + 4) < n" by simp
    then obtain n' where n': "n = Suc n'" by (cases n) auto
    have rec: "\<exists>c' k. execOne hk n d = Some c' \<and> 1 \<le> k \<and> k \<le> n \<and> m_instrCount c' = m_instrCount d + of_nat k"
      if "m_pc d = m_pc c + 4" for d
      using less.IH [of n' d] n n' that by auto
    from exec_op_shape [OF assms, of ?br ?c "m_pc c" ?code] consider
      c' where "exec_op hk ?br (m_pc c) ?code ?c = Some c'" "m_instrCount c' = m_instrCount ?c"
      | t i v where "exec_op hk ?br (m_pc c) ?code ?c = ?br t (Wg i v ?c)"
      unfolding op_shape_def by blast
    then show ?thesis
    proof cases
      case 1
      then have "execOne hk (Suc n) c = Some (c'\<lparr>m_gpr := (m_gpr c')(0 := 0)\<rparr>)" unfolding ex by simp
      with 1 show ?thesis by (intro exI [of _ "c'\<lparr>m_gpr := (m_gpr c')(0 := 0)\<rparr>"] exI [of _ 1]) simp
    next
      case 2
      obtain c' k where k: "execOne hk n (Wg i v ?c) = Some c'" "1 \<le> k" "k \<le> n"
        "m_instrCount c' = m_instrCount c + 1 + of_nat k" using rec [of "Wg i v ?c"] by auto
      then have "execOne hk (Suc n) c = Some (c'\<lparr>m_pc := t, m_gpr := (m_gpr c')(0 := 0)\<rparr>)"
        unfolding ex 2 by (simp add: doBranch_def)
      with k show ?thesis by (intro exI [of _ "c'\<lparr>m_pc := t, m_gpr := (m_gpr c')(0 := 0)\<rparr>"] exI [of _ "Suc k"]) simp
    qed
  qed
qed

section \<open>Termination of the run loop\<close>

definition import_keeps_count :: "'e iop_hooks \<Rightarrow> bool" where
  "import_keeps_count hk \<longleftrightarrow> (\<forall>h c pc. m_importHook hk = Some h \<longrightarrow> m_instrCount (snd (h c pc)) = m_instrCount c)"

lemma execOne_enough:
  assumes "bare hk"
  shows "\<exists>c' k. execOne hk (Suc (2 ^ 19)) c = Some c' \<and> 1 \<le> k \<and> k \<le> Suc (2 ^ 19)
    \<and> m_instrCount c' = m_instrCount c + of_nat k"
  using execOne_total [OF assms words_left_bound] by blast

lemma count_advance:
  fixes cnt start :: u32
  assumes "cnt - start < maxI" "unat maxI \<le> 2 ^ 32 - 2 ^ 20" "k \<le> Suc (2 ^ 19)"
  shows "unat (cnt + of_nat k - start) = unat (cnt - start) + k"
proof -
  have k: "unat (of_nat k :: u32) = k" using assms(3) by (simp add: unat_of_nat)
  have "cnt + of_nat k - start = (cnt - start) + of_nat k" by simp
  moreover have "unat ((cnt - start) + of_nat k) = unat (cnt - start) + k"
    using assms k by (simp add: unat_word_ariths word_less_nat_alt)
  ultimately show ?thesis by (simp only:)
qed

lemma run_loop_returns:
  assumes "bare hk" "import_keeps_count hk" "unat maxI \<le> 2 ^ 32 - 2 ^ 20"
  shows "0 < n \<Longrightarrow> unat maxI < n + unat (m_instrCount c - start) \<Longrightarrow> unat (m_instrCount c - start) \<le> unat maxI + 2 ^ 19 \<Longrightarrow>
    \<exists>c'. run_loop hk (Suc (2 ^ 19)) n start maxI c = Some c'
      \<and> unat (m_instrCount c' - start) \<le> unat maxI + 2 ^ 19
      \<and> (m_halted c' \<or> maxI \<le> m_instrCount c' - start)"
proof (induction n arbitrary: c)
  case 0
  then show ?case by simp
next
  case (Suc n)
  let ?d = "unat (m_instrCount c - start)"
  consider (stop) "\<not> (m_instrCount c - start < maxI)" | (haltpc) "m_instrCount c - start < maxI" "m_haltPcSet c \<and> m_pc c = m_haltPc c"
    | (go) "m_instrCount c - start < maxI" "\<not> (m_haltPcSet c \<and> m_pc c = m_haltPc c)" by blast
  then show ?case
  proof cases
    case stop
    with Suc.prems show ?thesis by (simp add: not_less)
  next
    case haltpc
    with Suc.prems show ?thesis by simp
  next
    case go
    obtain b d where hook: "(case m_importHook hk of None \<Rightarrow> (False, c) | Some h \<Rightarrow> h c (m_pc c)) = (b, d)" by force
    then have d: "m_instrCount d = m_instrCount c"
      using assms(2) by (auto simp: import_keeps_count_def split: option.splits) (metis snd_conv)
    have again: "\<exists>c'. run_loop hk (Suc (2 ^ 19)) n start maxI e = Some c'
        \<and> unat (m_instrCount c' - start) \<le> unat maxI + 2 ^ 19 \<and> (m_halted c' \<or> maxI \<le> m_instrCount c' - start)"
      and stay: "unat (m_instrCount e - start) \<le> unat maxI + 2 ^ 19"
      if "m_instrCount e = m_instrCount c + of_nat k" "1 \<le> k" "k \<le> Suc (2 ^ 19)" for e k
    proof -
      have "unat (m_instrCount e - start) = ?d + k" unfolding that(1) using count_advance [OF go(1) assms(3) that(3)] .
      moreover have "?d < unat maxI" using go(1) by (simp add: word_less_nat_alt)
      ultimately have n: "0 < n" "unat maxI < n + unat (m_instrCount e - start)" and
        le: "unat (m_instrCount e - start) \<le> unat maxI + 2 ^ 19" using Suc.prems that(2,3) by linarith+
      show "unat (m_instrCount e - start) \<le> unat maxI + 2 ^ 19" by (fact le)
      show "\<exists>c'. run_loop hk (Suc (2 ^ 19)) n start maxI e = Some c'
        \<and> unat (m_instrCount c' - start) \<le> unat maxI + 2 ^ 19 \<and> (m_halted c' \<or> maxI \<le> m_instrCount c' - start)"
        by (rule Suc.IH [OF n le])
    qed
    show ?thesis
    proof (cases b)
      case True
      let ?e = "d\<lparr>m_instrCount := m_instrCount d + 1\<rparr>"
      have "run_loop hk (Suc (2 ^ 19)) (Suc n) start maxI c =
          (if m_halted ?e then Some ?e else run_loop hk (Suc (2 ^ 19)) n start maxI ?e)"
        using go hook True by (simp only: run_loop.simps if_False if_True not_True_eq_False not_not prod.case bool.case Let_def)
      with again [of ?e 1] stay [of ?e 1] d show ?thesis by auto
    next
      case False
      obtain e k where e: "execOne hk (Suc (2 ^ 19)) d = Some e" "1 \<le> k" "k \<le> Suc (2 ^ 19)"
        "m_instrCount e = m_instrCount d + of_nat k" using execOne_enough [OF assms(1), of d] by blast
      have "run_loop hk (Suc (2 ^ 19)) (Suc n) start maxI c =
          (if m_halted e then Some e else run_loop hk (Suc (2 ^ 19)) n start maxI e)"
        using go hook False e(1) by (simp only: run_loop.simps if_False if_True not_True_eq_False not_not prod.case bool.case option.case)
      with again [of e k] stay [of e k] d e show ?thesis by auto
    qed
  qed
qed

text \<open>
  C12 (the interpreter always returns): with no trap handler and no device hooks installed, and an
  import hook that leaves the instruction counter alone, \<open>execOne\<close> returns after a delay-slot
  recursion of at most one call per word of IOP RAM, it leaves \<open>$zero\<close> at 0, and \<open>run\<close> returns: halted,
  or with at least \<open>maxInstr\<close> and at most \<open>maxInstr + 2\<^sup>1\<^sup>9\<close> instructions retired.
\<close>

theorem iop_run_returns:
  assumes "bare hk" "import_keeps_count hk" "unat maxI \<le> 2 ^ 32 - 2 ^ 20"
  shows "(\<exists>c'. execOne hk (Suc (2 ^ 19)) c = Some c' \<and> m_gpr c' 0 = 0)
    \<and> (\<exists>r c'. iop_run hk (Suc (2 ^ 19)) (unat maxI + 1) maxI c = Some (r, c')
        \<and> unat r \<le> unat maxI + 2 ^ 19 \<and> (m_halted c' \<or> maxI \<le> r))"
proof -
  let ?c = "c\<lparr>m_halted := False\<rparr>"
  from run_loop_returns [OF assms, of "unat maxI + 1" ?c "m_instrCount ?c"]
  have "\<exists>r c'. iop_run hk (Suc (2 ^ 19)) (unat maxI + 1) maxI c = Some (r, c')
        \<and> unat r \<le> unat maxI + 2 ^ 19 \<and> (m_halted c' \<or> maxI \<le> r)"
    by (auto simp: iop_run_def Let_def simp del: run_loop.simps)
  with execOne_total [OF assms(1) words_left_bound, of c] show ?thesis by blast
qed

definition no_hooks :: "unit iop_hooks" where
  "no_hooks = \<lparr>m_trap = None, m_ioRead = None, m_ioWrite = None, m_importHook = None\<rparr>"

definition demo_cpu :: "unit iop_cpu" where
  "demo_cpu = iop_reset \<lparr>m_mem = demo_mem, m_gpr = \<lambda>_. 0, m_hi = 0, m_lo = 0, m_pc = 0, m_cop0 = \<lambda>_. 0, m_halted = False,
     m_haltPcSet = False, m_haltPc = 0, m_instrCount = 0, m_ioWarnCount = 0, hook_env = ()\<rparr>"

lemma no_hooks_bare: "bare no_hooks" "import_keeps_count no_hooks"
  by (simp_all add: no_hooks_def bare_def import_keeps_count_def)

theorem iop_run_returns_witness:
  "\<exists>r c'. iop_run no_hooks (Suc (2 ^ 19)) (unat (100 :: u32) + 1) 100 demo_cpu = Some (r, c')"
  using iop_run_returns [OF no_hooks_bare, of 100 demo_cpu] by auto

section \<open>Multiplication and division\<close>

lemma sint_of_int32: "- (2 ^ 31) \<le> i \<Longrightarrow> i < 2 ^ 31 \<Longrightarrow> sint (word_of_int i :: u32) = i"
  by (simp add: sint_sbintrunc' signed_take_bit_int_eq_self)

lemma sint_mult_64: "sint (scast a * scast b :: u64) = sint (a :: u32) * sint (b :: u32)"
proof -
  have s: "sint (scast x :: u64) = sint x" for x :: "u32" by (rule sint_up_scast) (simp add: is_up)
  have r: "\<bar>sint x\<bar> \<le> 2 ^ 31" for x :: "u32" using sint_ge [of x] sint_lt [of x] by simp
  have "\<bar>sint a * sint b\<bar> \<le> 2 ^ 31 * 2 ^ 31" unfolding abs_mult by (intro mult_mono r) simp_all
  then have "signed_take_bit 63 (sint a * sint b) = sint a * sint b"
    by (intro signed_take_bit_int_eq_self) auto
  then show ?thesis by (simp add: sint_word_mult s)
qed

lemma ucast_of_sint: "(ucast (r :: u64) :: u32) = word_of_int (sint r)"
  by (rule bit_word_eqI) (simp add: bit_simps min_def)

lemma mult_signed_spec: "sint (fst (mult_signed a b)) * 2 ^ 32 + uint (snd (mult_signed a b)) = sint a * sint b"
proof -
  let ?p = "sint a * sint b"
  have r: "\<bar>sint x\<bar> \<le> 2 ^ 31" for x :: "u32" using sint_ge [of x] sint_lt [of x] by simp
  have "\<bar>?p\<bar> \<le> 2 ^ 31 * 2 ^ 31" unfolding abs_mult by (intro mult_mono r) simp_all
  then have b: "?p \<le> 2 ^ 62" "- (2 ^ 62) \<le> ?p" by simp_all
  then have "?p div 2 ^ 32 \<le> 2 ^ 62 div 2 ^ 32" "- (2 ^ 62) div 2 ^ 32 \<le> ?p div 2 ^ 32" by (intro zdiv_mono1; simp)+
  then have d: "- (2 ^ 31) \<le> ?p div 2 ^ 32" "?p div 2 ^ 32 < 2 ^ 31" by simp_all
  have "sint (ucast (signed_drop_bit 32 (scast a * scast b :: u64)) :: u32) = ?p div 2 ^ 32"
    unfolding ucast_of_sint sint_signed_drop_bit_eq sint_mult_64 drop_bit_eq_div by (rule sint_of_int32 [OF d])
  moreover have "uint (ucast (scast a * scast b :: u64) :: u32) = ?p mod 2 ^ 32"
    unfolding ucast_of_sint sint_mult_64 by (simp del: of_int_mult add: uint_word_of_int)
  ultimately show ?thesis by (simp only: mult_signed_def Let_def fst_conv snd_conv div_mult_mod_eq)
qed

lemma mult_unsigned_spec: "uint (fst (mult_unsigned a b)) * 2 ^ 32 + uint (snd (mult_unsigned a b)) = uint a * uint b"
proof -
  have u: "uint (ucast x :: u64) = uint x" for x :: "u32" by (rule uint_up_ucast) (simp add: is_up)
  have lt: "uint x < 2 ^ 32" for x :: "u32" using uint_bounded [of x] by simp
  have "uint a * uint b < 2 ^ 32 * 2 ^ 32" by (rule mult_strict_mono') (use lt in simp_all)
  then have p: "uint (ucast a * ucast b :: u64) = uint a * uint b" by (simp add: uint_word_ariths u)
  have "uint (ucast (r :: u64) :: u32) = uint r mod 2 ^ 32" for r
    by (simp add: unsigned_ucast_eq take_bit_eq_mod)
  moreover have "uint (drop_bit 32 r :: u64) = uint r div 2 ^ 32" for r 
    by (simp add: drop_bit_eq_div uint_div)
  moreover have "uint a * uint b div 2 ^ 32 mod 2 ^ 32 = uint a * uint b div 2 ^ 32"
  proof -
    have "uint a * uint b div 2 ^ 32 < 2 ^ 32" using \<open>uint a * uint b < 2 ^ 32 * 2 ^ 32\<close> by simp
    then show ?thesis by (simp add: pos_imp_zdiv_nonneg_iff)
  qed
  ultimately show ?thesis by (simp add: p mult_unsigned_def Let_def)
qed

lemma div_signed_exact:
  assumes "sint b \<noteq> 0" "\<not> (a = 0x80000000 \<and> sint b = -1)"
  shows "sint (word_of_int (sint a sdiv sint b) :: u32) = sint (a::u32) sdiv sint (b::u32)" 
        "sint (word_of_int (sint a smod sint b) :: u32) = sint (a::u32) smod sint (b::u32)" 
proof -
  have r: "- (2 ^ 31) \<le> sint x" "sint x < 2 ^ 31" for x :: "u32" using sint_ge [of x] sint_lt [of x] by simp_all
  have "sint a sdiv sint b \<in> {- \<bar>sint a\<bar>..\<bar>sint a\<bar>}" by (rule sdiv_int_range)
  moreover have "sint a sdiv sint b \<noteq> 2 ^ 31"
  proof
    assume e: "sint a sdiv sint b = 2 ^ 31"
    with sdiv_int_range [of "sint a" "sint b"] r [of a] have a: "sint a = - (2 ^ 31)" by auto
    then have "sint a = sint (0x80000000 :: u32)" by simp
    then have "a = 0x80000000" by (rule signed_word_eqI)
    moreover have "sint b = -1" using int_sdiv_negated_is_minus1 [of "sint a" "sint b"] a e by simp
    ultimately show False using assms(2) by simp
  qed
  ultimately show "sint (word_of_int (sint a sdiv sint b) :: u32) = sint (a::u32) sdiv sint (b::u32)"
    using r [of a] by (intro sint_of_int32) auto
  show  "sint (word_of_int (sint a smod sint b) :: u32) = sint (a::u32) smod sint (b::u32)"
     using smod_int_range [OF assms(1), of "sint a"] r [of b] by (intro sint_of_int32) auto
qed

lemma div_signed_spec:
  assumes "b \<noteq> 0" "\<not> (a = 0x80000000 \<and> b = 0xFFFFFFFF)"
  shows "sint a = sint (snd (div_signed a b)) * sint b + sint (fst (div_signed a b))
    \<and> \<bar>sint (fst (div_signed a b))\<bar> < \<bar>sint b\<bar>
    \<and> (sint (fst (div_signed a b)) \<noteq> 0 \<longrightarrow> sgn (sint (fst (div_signed a b))) = sgn (sint a))"
proof -
  have b: "sint b \<noteq> 0" using assms(1) by (metis signed_0 signed_word_eqI)
  have "sint b = -1 \<Longrightarrow> b = 0xFFFFFFFF" by (rule signed_word_eqI) simp
  with assms(2) have o: "\<not> (a = 0x80000000 \<and> sint b = -1)" by blast
  note e = div_signed_exact [OF b o]
  have s: "snd (div_signed a b) = word_of_int (sint a sdiv sint b)" "fst (div_signed a b) = word_of_int (sint a smod sint b)"
    using b o by (auto simp: div_signed_def)
  have "\<bar>sint a smod sint b\<bar> < \<bar>sint b\<bar>" using smod_int_range [OF b, of "sint a"] by auto
  moreover have "sint a smod sint b \<noteq> 0 \<longrightarrow> sgn (sint a smod sint b) = sgn (sint a)"
  proof
    assume nz: "sint a smod sint b \<noteq> 0"
    have "\<bar>sint a\<bar> mod \<bar>sint b\<bar> \<ge> 0" using b by simp
    with nz have "\<bar>sint a\<bar> mod \<bar>sint b\<bar> > 0" by (auto simp: smod_int_alt_def)
    then show "sgn (sint a smod sint b) = sgn (sint a)" by (simp add: smod_int_alt_def sgn_mult)
  qed
  ultimately show ?thesis unfolding s e by (simp add: sdiv_mult_smod_eq)
qed

lemma div_unsigned_spec:
  assumes "b \<noteq> 0"
  shows "unat a = unat (snd (div_unsigned a b)) * unat b + unat (fst (div_unsigned a b))
    \<and> fst (div_unsigned a b) < b"
  using assms by (simp add: div_unsigned_def unat_div unat_mod word_less_nat_alt unat_gt_0)

text \<open>The instruction word at the program counter, when it lies in IOP RAM.\<close>

definition at_pc :: "'e iop_cpu \<Rightarrow> u32 \<Rightarrow> bool" where
  "at_pc c code \<longleftrightarrow> unat (m_pc c) mod 2 ^ 29 < 2 ^ 21 \<and> iopRead32 (m_mem c) (m_pc c) = code"

lemma execOne_at_pc:
  assumes "bare hk" "at_pc c code"
  shows "execOne hk (Suc n) c = map_option (\<lambda>c. c\<lparr>m_gpr := (m_gpr c)(0 := 0)\<rparr>)
    (exec_op hk (doBranch (execOne hk n)) (m_pc c) code (c\<lparr>m_pc := m_pc c + 4, m_instrCount := m_instrCount c + 1\<rparr>))"
  using assms by (simp add: exec_body_def fetch_bare at_pc_def)

text \<open>
  C13 (multiply and divide): executing MULT and MULTU leaves the exact 64-bit product in HI:LO; DIV and
  DIVU leave quotient and remainder with the remainder smaller than the divisor and, for DIV, of the
  sign of the dividend; the cases division by zero and overflow give the values the hardware gives.
\<close>

theorem iop_mul_div:
  assumes "bare hk" "at_pc c code" "f_op code = 0"
    and a: "a = m_gpr c (unat (f_rs code))" and b: "b = m_gpr c (unat (f_rt code))"
  shows "(f_funct code = 0x18 \<longrightarrow> (\<exists>c'. execOne hk (Suc n) c = Some c'
           \<and> sint (m_hi c') * 2 ^ 32 + uint (m_lo c') = sint a * sint b))
    \<and> (f_funct code = 0x19 \<longrightarrow> (\<exists>c'. execOne hk (Suc n) c = Some c'
           \<and> uint (m_hi c') * 2 ^ 32 + uint (m_lo c') = uint a * uint b))
    \<and> (f_funct code = 0x1A \<longrightarrow> (\<exists>c'. execOne hk (Suc n) c = Some c'
           \<and> (b = 0 \<longrightarrow> m_hi c' = a \<and> m_lo c' = (if sint a < 0 then 1 else 0xFFFFFFFF))
           \<and> (a = 0x80000000 \<and> b = 0xFFFFFFFF \<longrightarrow> m_hi c' = 0 \<and> m_lo c' = 0x80000000)
           \<and> (b \<noteq> 0 \<and> \<not> (a = 0x80000000 \<and> b = 0xFFFFFFFF) \<longrightarrow>
                sint a = sint (m_lo c') * sint b + sint (m_hi c') \<and> \<bar>sint (m_hi c')\<bar> < \<bar>sint b\<bar>
              \<and> (sint (m_hi c') \<noteq> 0 \<longrightarrow> sgn (sint (m_hi c')) = sgn (sint a)))))
    \<and> (f_funct code = 0x1B \<longrightarrow> (\<exists>c'. execOne hk (Suc n) c = Some c'
           \<and> (b = 0 \<longrightarrow> m_hi c' = a \<and> m_lo c' = 0xFFFFFFFF)
           \<and> (b \<noteq> 0 \<longrightarrow> unat a = unat (m_lo c') * unat b + unat (m_hi c') \<and> m_hi c' < b)))"
proof -
  have ex: "\<exists>c'. execOne hk (Suc n) c = Some c' \<and> m_hi c' = fst (f a b) \<and> m_lo c' = snd (f a b)"
    if "(f_funct code, f) \<in> {(0x18, mult_signed), (0x19, mult_unsigned), (0x1A, div_signed), (0x1B, div_unsigned)}" for f
    using that assms(3) unfolding execOne_at_pc [OF assms(1,2)] a b
    by (auto simp: exec_op_def exec_special_def Let_def Rg_def set_hilo_def)
  have ov: "a = 0x80000000 \<and> b = 0xFFFFFFFF \<longrightarrow> div_signed a b = (0, 0x80000000)" by (simp add: div_signed_def)
  have z: "b = 0 \<longrightarrow> div_signed a b = (a, if sint a < 0 then 1 else 0xFFFFFFFF)" "b = 0 \<longrightarrow> div_unsigned a b = (a, 0xFFFFFFFF)"
    by (simp_all add: div_signed_def div_unsigned_def)
  show ?thesis
  proof (intro conjI impI, goal_cases)
    case 1 with ex [of mult_signed] mult_signed_spec [of a b] show ?case by auto
  next
    case 2 with ex [of mult_unsigned] mult_unsigned_spec [of a b] show ?case by auto
  next
    case 3 with ex [of div_signed] obtain c' where c': "execOne hk (Suc n) c = Some c'"
      "m_hi c' = fst (div_signed a b)" "m_lo c' = snd (div_signed a b)" by auto
    show ?case by (rule exI [of _ c']) (use c' ov z div_signed_spec [of b a] in simp)
  next
    case 4 with ex [of div_unsigned] obtain c' where c': "execOne hk (Suc n) c = Some c'"
      "m_hi c' = fst (div_unsigned a b)" "m_lo c' = snd (div_unsigned a b)" by auto
    show ?case by (rule exI [of _ c']) (use c' z div_unsigned_spec [of b a] in simp)
  qed
qed

definition demo_div :: "unit iop_cpu" where
  "demo_div = demo_cpu\<lparr>m_mem := iopWrite32 0 0x0043001A demo_mem, m_gpr := (\<lambda>_. 0)(2 := 0xFFFFFFF9, 3 := 2)\<rparr>"

lemma demo_div_at_pc: "at_pc demo_div 0x0043001A"
  by (simp add: at_pc_def demo_div_def demo_cpu_def iop_reset_def iopRead32_same demo_mem_def)

theorem iop_mul_div_witness:
  "\<exists>c'. execOne no_hooks 1 demo_div = Some c' \<and> sint (0xFFFFFFF9 :: u32) = sint (m_lo c') * 2 + sint (m_hi c')"
  using iop_mul_div [OF no_hooks_bare(1) demo_div_at_pc _ refl refl, of 0]
  by (auto simp: f_op_def f_funct_def f_rs_def f_rt_def demo_div_def)

section \<open>Unaligned accesses\<close>

lemma bit_iopRead32:
  assumes "iop_ram mem = Some ram" "unat x mod 2 ^ 29 + 4 \<le> 2 ^ 21"
  shows "bit (iopRead32 mem x) i \<longleftrightarrow> i < 32 \<and> bit (ram (unat x mod 2 ^ 29 + i div 8)) (i mod 8)"
proof -
  have "iopRead32 mem x = word_of_bytes (copy_out ram (unat x mod 2 ^ 29) 4)"
    using assms by (simp add: iopRead32_def iop_load_def Let_def unat_iopRamOffset)
  then show ?thesis by (auto simp: bit_word_of_bytes)
qed

lemma unat_take_bit2: "unat (take_bit 2 (x :: u32)) = unat x mod 4"
  using unsigned_take_bit_eq [of 2 x, where ?'a = nat] by (simp only: take_bit_eq_mod) simp

lemma unat_align4: "unat ((x :: u32) AND NOT 3) = unat x - unat x mod 4"
proof -
  have ss: "2 \<le> n \<Longrightarrow> Suc (Suc (n - 2)) = n" for n by simp
  have "x AND NOT (mask 2) = push_bit 2 (drop_bit 2 x)"
    by (rule bit_word_eqI) (auto simp: bit_simps not_less ss)
  moreover have "push_bit 2 (drop_bit 2 x) + take_bit 2 x = x" by (rule bits_ident)
  ultimately have eq: "x AND NOT 3 = x - take_bit 2 x" by (simp add: mask_eq_exp_minus_1 eq_diff_eq)
  have "take_bit 2 x \<le> x" by (simp add: word_le_nat_alt unat_take_bit2)
  then show ?thesis unfolding eq by (simp only: unat_sub unat_take_bit2)
qed

lemma lane_eq: "lane a = 8 * (unat a mod 4)"
proof -
  have m: "a AND 3 = take_bit 2 a" by (simp add: take_bit_eq_mask mask_eq_exp_minus_1)
  have "unat (push_bit 3 (take_bit 2 a)) = unat (take_bit 2 a * 8)" by (simp only: push_bit_eq_mult) simp
  also have "\<dots> = 8 * (unat a mod 4)" using unat_take_bit2 [of a] by (subst unat_word_ariths) (simp add: unat_word_ariths mod_less)
  finally show ?thesis by (simp only: lane_def m)
qed

text \<open>The offsets of the two aligned words around an unaligned address.\<close>

lemma aligned_parts:
  assumes "unat (a :: u32) mod 2 ^ 29 + 4 \<le> 2 ^ 21" "k = unat a mod 4"
  shows "unat (a AND NOT 3) mod 2 ^ 29 = unat a mod 2 ^ 29 - k"
    and "unat ((a + 3) AND NOT 3) mod 2 ^ 29 = (if k = 0 then unat a mod 2 ^ 29 else unat a mod 2 ^ 29 - k + 4)"
    and "k < 4" "k \<le> unat a mod 2 ^ 29" "4 dvd unat a mod 2 ^ 29 - k" "unat (a + 3) mod 4 = (k + 3) mod 4"
proof -
  let ?o = "unat a mod 2 ^ 29" and ?h = "unat a div 2 ^ 29"
  have a: "unat a = ?h * 2 ^ 29 + ?o" by simp
  have k: "k = ?o mod 4" using assms(2) by (simp add: mod_mod_cancel)
  then show k4: "k < 4" and ko: "k \<le> ?o" and "4 dvd ?o - k" by (simp_all add: minus_mod_eq_mult_div)
  have h: "?h < 8" using unat_less_2p [of a] by (simp add: less_mult_imp_div_less)
  have "?h * 2 ^ 29 \<le> 7 * 2 ^ 29" using h by (intro mult_le_mono1) simp
  moreover have "x \<le> 7 * 2 ^ 29 \<Longrightarrow> y + 4 \<le> 2 ^ 21 \<Longrightarrow> x + y + 3 < 2 ^ 32" for x y :: nat by simp
  ultimately have "unat a + 3 < 2 ^ 32" using a assms(1) by metis
  then have a3: "unat (a + 3) = unat a + 3" by (simp add: unat_word_ariths)
  then show m3: "unat (a + 3) mod 4 = (k + 3) mod 4" by (simp add: assms(2) mod_add_left_eq)
  have "unat a - k = ?h * 2 ^ 29 + (?o - k)" using a ko by linarith
  moreover have "?o - k < 2 ^ 29" using assms(1) by simp
  ultimately have "(unat a - k) mod 2 ^ 29 = ?o - k" by (simp only: mod_mult_self3 mod_less)
  then show "unat (a AND NOT 3) mod 2 ^ 29 = ?o - k" unfolding unat_align4 assms(2) .
  have "unat ((a + 3) AND NOT 3) = unat a + 3 - (k + 3) mod 4" unfolding unat_align4 m3 unfolding a3 ..
  also have "\<dots> = ?h * 2 ^ 29 + (if k = 0 then ?o else ?o - k + 4)"
  proof -
    from k4 consider "k = 0" | "k = 1" | "k = 2" | "k = 3" by linarith
    then show ?thesis by cases (use a ko in \<open>simp_all\<close>)
  qed
  finally show "unat ((a + 3) AND NOT 3) mod 2 ^ 29 = (if k = 0 then ?o else ?o - k + 4)"
    using assms(1) by simp
qed

text \<open>Register-level meaning of the pairs: the two words are joined at byte \<open>k\<close>.\<close>

lemma lwr_lwl_join:
  fixes r w0 w1 :: u32
  assumes "k < 4" "k = 0 \<Longrightarrow> w1 = w0"
  shows "(((r AND push_bit (24 - 8 * k) 0xFFFFFF00) OR drop_bit (8 * k) w0) AND drop_bit (8 * ((k + 3) mod 4)) 0x00FFFFFF)
      OR push_bit (24 - 8 * ((k + 3) mod 4)) w1
    = (if k = 0 then w0 else drop_bit (8 * k) w0 OR push_bit (32 - 8 * k) w1)"
proof -
  have m: "(0xFFFFFF :: u32) = mask 24" "(0xFFFF :: u32) = mask 16" "(0xFF :: u32) = mask 8" by (simp_all add: mask_eq_exp_minus_1)
  have j: "(((r AND M) OR drop_bit s w0) AND N) OR push_bit (32 - s) w1 = drop_bit s w0 OR push_bit (32 - s) w1"
    if "s < 32" "M = NOT (mask (32 - s))" "N = mask (32 - s)" for s M N
    unfolding that(2,3) by (rule bit_word_eqI) (use that(1) in \<open>auto simp: bit_simps dest: bit_imp_le_length\<close>)
  have "push_bit 16 (0xFFFFFF00 :: u32) = NOT (mask (32 - 8))" "push_bit 8 (0xFFFFFF00 :: u32) = NOT (mask (32 - 16))"
    "(0xFFFFFF00 :: u32) = NOT (mask (32 - 24))" by (simp_all flip: m)
  from j [of 8, OF _ this(1)] j [of 16, OF _ this(2)] j [of 24, OF _ this(3)] have jj:
    "(((r AND push_bit 16 0xFFFFFF00) OR drop_bit 8 w0) AND 0xFFFFFF) OR push_bit 24 w1 = drop_bit 8 w0 OR push_bit 24 w1"
    "(((r AND push_bit 8 0xFFFFFF00) OR drop_bit 16 w0) AND 0xFFFF) OR push_bit 16 w1 = drop_bit 16 w0 OR push_bit 16 w1"
    "(((r AND 0xFFFFFF00) OR drop_bit 24 w0) AND 0xFF) OR push_bit 8 w1 = drop_bit 24 w0 OR push_bit 8 w1"
    by (simp_all add: m)
  from assms(1) consider "k = 0" | "k = 1" | "k = 2" | "k = 3" by linarith
  then show ?thesis by cases (use assms(2) jj in simp_all)
qed

lemma join_bits:
  assumes "iop_ram mem = Some ram" "unat a mod 2 ^ 29 + 4 \<le> 2 ^ 21" "k = unat a mod 4"
    and "w0 = iopRead32 mem (a AND NOT 3)" "w1 = iopRead32 mem ((a + 3) AND NOT 3)"
  shows "(if k = 0 then w0 else drop_bit (8 * k) w0 OR push_bit (32 - 8 * k) w1) = iopRead32 mem a"
proof -
  note p = aligned_parts [OF assms(2,3)]
  let ?o = "unat a mod 2 ^ 29"
  have in0: "?o - k + 4 \<le> 2 ^ 21" using assms(2) p(4) by linarith
  have in1: "?o - k + 4 + 4 \<le> 2 ^ 21" if "k \<noteq> 0"
  proof -
    obtain q where q: "?o - k = 4 * q" using p(5) by (elim dvdE)
    have "4 * q + k + 4 \<le> 2 ^ 21" using q assms(2) p(4) by linarith
    with that p(3) have "4 * q + 8 \<le> 2 ^ 21" by simp
    with q show ?thesis by simp
  qed
  have b0: "bit w0 i \<longleftrightarrow> i < 32 \<and> bit (ram (?o - k + i div 8)) (i mod 8)" for i
    using bit_iopRead32 [OF assms(1), of "a AND NOT 3" i] in0 by (simp only: p(1) assms(4))
  have b1: "bit w1 i \<longleftrightarrow> i < 32 \<and> bit (ram (?o - k + 4 + i div 8)) (i mod 8)" if "k \<noteq> 0" for i
    using bit_iopRead32 [OF assms(1), of "(a + 3) AND NOT 3" i] in1 [OF that] that by (simp only: p(2) assms(5) if_False)
  have ba: "bit (iopRead32 mem a) i \<longleftrightarrow> i < 32 \<and> bit (ram (?o + i div 8)) (i mod 8)" for i
    by (rule bit_iopRead32 [OF assms(1,2)])
  show ?thesis
  proof (cases "k = 0")
    case True
    then show ?thesis by (intro bit_word_eqI) (simp add: b0 ba)
  next
    case False
    have "bit (drop_bit (8 * k) w0 OR push_bit (32 - 8 * k) w1) i = bit (iopRead32 mem a) i" if i: "i < 32" for i
    proof (cases "i < 32 - 8 * k")
      case True
      have "(8 * k + i) div 8 = k + i div 8" "(8 * k + i) mod 8 = i mod 8" by simp_all
      moreover have "?o - k + (k + i div 8) = ?o + i div 8" using p(4) by linarith
      moreover have "8 * k + i < 32" using True by linarith
      ultimately show ?thesis using True i by (simp add: bit_simps b0 ba)
    next
      case ge: False
      let ?j = "i - (32 - 8 * k)"
      have j: "?j + 8 * (4 - k) = i" using ge p(3) by linarith
      have "i div 8 = ?j div 8 + (4 - k)" "i mod 8 = ?j mod 8"
        using j by (metis div_mult_self2 zero_neq_numeral add.commute, metis mod_mult_self2)
      moreover have "?o - k + 4 + ?j div 8 = ?o + (?j div 8 + (4 - k))" using p(3,4) by linarith
      moreover have "\<not> 8 * k + i < 32" using ge by linarith
      then have "\<not> bit w0 (8 * k + i)" by (simp only: b0 simp_thms)
      moreover have "?j < 32" using i by linarith
      ultimately show ?thesis using ge i False by (simp add: bit_simps b1 ba add.commute add.left_commute add.assoc)
    qed
    with False show ?thesis by (intro bit_word_eqI) simp
  qed
qed

lemma busRead32_ram: "unat x mod 2 ^ 29 < 2 ^ 21 \<Longrightarrow> busRead32 hk x c = (iopRead32 (m_mem c) x, c)"
  by (simp add: busRead32_def bus_phys_less)

lemma busWrite32_ram: "unat x mod 2 ^ 29 < 2 ^ 21 \<Longrightarrow> busWrite32 hk x v c = c\<lparr>m_mem := iopWrite32 x v (m_mem c)\<rparr>"
  by (simp add: busWrite32_def bus_phys_less)

lemma swr_swl_masks:
  assumes "k < 4"
  shows "drop_bit (24 - 8 * k) (0x00FFFFFF :: u32) = mask (8 * k)"
    and "k \<noteq> 0 \<Longrightarrow> push_bit (8 * ((k + 3) mod 4)) (0xFFFFFF00 :: u32) = NOT (mask (8 * k))"
    and "k \<noteq> 0 \<Longrightarrow> 24 - 8 * ((k + 3) mod 4) = 32 - 8 * k"
proof -
  from assms consider "k = 0" | "k = 1" | "k = 2" | "k = 3" by linarith
  note cs = this
  show "drop_bit (24 - 8 * k) (0x00FFFFFF :: u32) = mask (8 * k)"
    using cs by cases (simp_all add: mask_eq_exp_minus_1)
  show "push_bit (8 * ((k + 3) mod 4)) (0xFFFFFF00 :: u32) = NOT (mask (8 * k))" if "k \<noteq> 0"
    using cs that by cases (simp_all add: mask_eq_exp_minus_1)
  show "24 - 8 * ((k + 3) mod 4) = 32 - 8 * k" if "k \<noteq> 0"
    using cs that by cases simp_all
qed

text \<open>The memory after the store pair, as two word writes.\<close>

definition store_pair :: "u32 \<Rightarrow> u32 \<Rightarrow> ps2_memory \<Rightarrow> ps2_memory" where
  "store_pair a r mem = (let k = unat a mod 4;
      mem1 = iopWrite32 (a AND NOT 3) (push_bit (8 * k) r OR (iopRead32 mem (a AND NOT 3) AND mask (8 * k))) mem;
      w1 = iopRead32 mem1 ((a + 3) AND NOT 3)
    in iopWrite32 ((a + 3) AND NOT 3) (if k = 0 then r else drop_bit (32 - 8 * k) r OR (w1 AND NOT (mask (8 * k)))) mem1)"

lemma store_pair_words:
  assumes "iop_ram mem = Some ram" "unat a mod 2 ^ 29 + 4 \<le> 2 ^ 21" "k = unat a mod 4" "k \<noteq> 0"
  shows "iopRead32 (store_pair a r mem) (a AND NOT 3) = push_bit (8 * k) r OR (iopRead32 mem (a AND NOT 3) AND mask (8 * k))"
    and "iopRead32 (store_pair a r mem) ((a + 3) AND NOT 3) =
      drop_bit (32 - 8 * k) r OR (iopRead32 mem ((a + 3) AND NOT 3) AND NOT (mask (8 * k)))"
    and "unat (a AND NOT 3) mod 2 ^ 29 < 2 ^ 21" "unat ((a + 3) AND NOT 3) mod 2 ^ 29 < 2 ^ 21"
proof -
  note p = aligned_parts [OF assms(2,3)]
  let ?o = "unat a mod 2 ^ 29"
  obtain q where q: "?o - k = 4 * q" using p(5) by (elim dvdE)
  have "4 * q + k + 4 \<le> 2 ^ 21" using q assms(2) p(4) by linarith
  with assms(4) p(3) have in1: "4 * q + 8 \<le> 2 ^ 21" by simp
  have o0: "unat (a AND NOT 3) mod 2 ^ 29 = 4 * q" and o1: "unat ((a + 3) AND NOT 3) mod 2 ^ 29 = 4 * q + 4"
    using p(1,2) q assms(4) by simp_all
  show "unat (a AND NOT 3) mod 2 ^ 29 < 2 ^ 21" "unat ((a + 3) AND NOT 3) mod 2 ^ 29 < 2 ^ 21" using in1 o0 o1 by linarith+
  have f0: "unat (a AND NOT 3) mod 2 ^ 29 + 4 \<le> 2 ^ 21" and f1: "unat ((a + 3) AND NOT 3) mod 2 ^ 29 + 4 \<le> 2 ^ 21"
    and dis: "unat (a AND NOT 3) mod 2 ^ 29 + 4 \<le> unat ((a + 3) AND NOT 3) mod 2 ^ 29" using in1 o0 o1 by linarith+
  let ?v0 = "push_bit (8 * k) r OR (iopRead32 mem (a AND NOT 3) AND mask (8 * k))"
  let ?m1 = "iopWrite32 (a AND NOT 3) ?v0 mem"
  obtain ram1 where ram1: "iop_ram ?m1 = Some ram1" using iop_ram_write32 [OF assms(1)] by blast
  have w1: "iopRead32 ?m1 ((a + 3) AND NOT 3) = iopRead32 mem ((a + 3) AND NOT 3)"
    using dis by (intro iopRead32_other [OF f0]) simp
  have sp: "store_pair a r mem = iopWrite32 ((a + 3) AND NOT 3)
      (drop_bit (32 - 8 * k) r OR (iopRead32 mem ((a + 3) AND NOT 3) AND NOT (mask (8 * k)))) ?m1"
    by (simp only: store_pair_def Let_def assms(3) [symmetric] assms(4) if_False w1)
  show "iopRead32 (store_pair a r mem) ((a + 3) AND NOT 3) =
      drop_bit (32 - 8 * k) r OR (iopRead32 mem ((a + 3) AND NOT 3) AND NOT (mask (8 * k)))"
    unfolding sp by (rule iopRead32_same [OF ram1 f1])
  have "iopRead32 (store_pair a r mem) (a AND NOT 3) = iopRead32 ?m1 (a AND NOT 3)"
    unfolding sp using dis by (intro iopRead32_other [OF f1]) simp
  then show "iopRead32 (store_pair a r mem) (a AND NOT 3) = ?v0"
    by (simp only: iopRead32_same [OF assms(1) f0])
qed

lemma iopRead32_cong:
  assumes "unat x mod 2 ^ 29 = unat y mod 2 ^ 29"
  shows "iopRead32 mem x = iopRead32 mem y"
proof -
  have "iopRamOffset x = iopRamOffset y" by (simp only: word_unat_eq_iff unat_iopRamOffset assms)
  then show ?thesis by (simp only: iopRead32_def iop_load_def)
qed

lemma iop_ram_write32_None: "iop_ram (iopWrite32 x v mem) = None \<longleftrightarrow> iop_ram mem = None"
  by (simp add: iopWrite32_def iop_store_def Let_def split: option.split)

lemma store_pair_ram: "iop_ram (store_pair a r mem) = None \<longleftrightarrow> iop_ram mem = None"
  by (simp only: store_pair_def Let_def iop_ram_write32_None)

lemma store_pair_read:
  assumes "iop_ram mem = Some ram" "unat a mod 2 ^ 29 + 4 \<le> 2 ^ 21"
  shows "iopRead32 (store_pair a r mem) a = r"
proof (cases "unat a mod 4 = 0")
  case True
  note p = aligned_parts [OF assms(2) refl, unfolded True]
  have al: "a AND NOT 3 = a" by (simp only: word_unat_eq_iff unat_align4 True diff_zero)
  let ?x = "(a + 3) AND NOT 3" and ?m1 = "iopWrite32 a (push_bit (8 * 0) r OR (iopRead32 mem a AND mask (8 * 0))) mem"
  obtain ram1 where ram1: "iop_ram ?m1 = Some ram1" using iop_ram_write32 [OF assms(1)] by blast
  have x: "unat ?x mod 2 ^ 29 = unat a mod 2 ^ 29" using p(2) by simp
  have "store_pair a r mem = iopWrite32 ?x r ?m1"
    by (simp only: store_pair_def Let_def True al refl if_True)
  moreover have "iopRead32 (iopWrite32 ?x r ?m1) a = r"
    using assms(2) x by (intro iopRead32_alias(1) [OF ram1]) simp_all
  ultimately show ?thesis by (simp only:)
next
  case False
  define k where "k = unat a mod 4"
  have k0: "k \<noteq> 0" and k4: "k < 4" using False by (simp_all add: k_def)
  note w = store_pair_words(1,2) [OF assms k_def k0, of r]
  have "\<exists>ram'. iop_ram (store_pair a r mem) = Some ram'"
    using assms(1) store_pair_ram [of a r mem] by auto
  then obtain ram' where "iop_ram (store_pair a r mem) = Some ram'" by blast
  from join_bits [OF this assms(2) k_def refl refl] k0 w
  have "iopRead32 (store_pair a r mem) a =
      drop_bit (8 * k) (push_bit (8 * k) r OR (iopRead32 mem (a AND NOT 3) AND mask (8 * k)))
      OR push_bit (32 - 8 * k) (drop_bit (32 - 8 * k) r OR (iopRead32 mem ((a + 3) AND NOT 3) AND NOT (mask (8 * k))))"
    by (simp only: if_False)
  also have "\<dots> = r"
  proof (rule bit_word_eqI)
    fix i assume "i < LENGTH(32)"
    with k0 k4 show "bit (drop_bit (8 * k) (push_bit (8 * k) r OR (iopRead32 mem (a AND NOT 3) AND mask (8 * k)))
      OR push_bit (32 - 8 * k) (drop_bit (32 - 8 * k) r OR (iopRead32 mem ((a + 3) AND NOT 3) AND NOT (mask (8 * k))))) i = bit r i"
      by (auto simp: bit_simps)
  qed
  finally show ?thesis .
qed

text \<open>
  Unaligned accesses: the pair LWR/LWL loads the four bytes at an arbitrary address of IOP RAM,
  also across a word boundary, and the pair SWR/SWL stores a register there; the bytes of the two
  touched words outside the four addressed ones keep their value.
\<close>

lemma iop_unaligned_pair:
  assumes "iop_ram (m_mem c) = Some ram" "t \<noteq> 0" "f_rs i1 = f_rs i2" "f_rs i2 \<noteq> t" "f_rt i1 = t" "f_rt i2 = t"
    and "f_simm i2 = f_simm i1 + 3" "a = ea c i1" "unat a mod 2 ^ 29 + 4 \<le> 2 ^ 21" "k = unat a mod 4"
  shows "(f_op i1 = 0x26 \<and> f_op i2 = 0x22 \<longrightarrow>
        m_gpr (exec_load hk i2 (exec_load hk i1 c)) (unat t) = iopRead32 (m_mem c) a)
    \<and> (f_op i1 = 0x2E \<and> f_op i2 = 0x2A \<longrightarrow>
        iopRead32 (m_mem (exec_store hk i2 (exec_store hk i1 c))) a = m_gpr c (unat t)
      \<and> (k \<noteq> 0 \<longrightarrow> take_bit (8 * k) (iopRead32 (m_mem (exec_store hk i2 (exec_store hk i1 c))) (a AND NOT 3))
                     = take_bit (8 * k) (iopRead32 (m_mem c) (a AND NOT 3))
                 \<and> drop_bit (8 * k) (iopRead32 (m_mem (exec_store hk i2 (exec_store hk i1 c))) ((a + 3) AND NOT 3))
                     = drop_bit (8 * k) (iopRead32 (m_mem c) ((a + 3) AND NOT 3))))"
proof -
  note p = aligned_parts [OF assms(9,10)]
  have in0: "unat (a AND NOT 3) mod 2 ^ 29 < 2 ^ 21" using p(1) assms(9) by linarith
  have in1: "unat ((a + 3) AND NOT 3) mod 2 ^ 29 < 2 ^ 21"
    using p(1,2) assms(9) store_pair_words(4) [OF assms(1,9,10)] by (cases "k = 0") simp_all
  have l: "lane a = 8 * k" "lane (a + 3) = 8 * ((k + 3) mod 4)" by (simp_all only: lane_eq p(6) assms(10))
  have e2: "ea c i2 = a + 3" using assms(3,7,8) by (simp add: ea_def)
  have ld: "m_gpr (exec_load hk i2 (exec_load hk i1 c)) (unat t) = iopRead32 (m_mem c) a" if o: "f_op i1 = 0x26" "f_op i2 = 0x22"
  proof -
    let ?v = "(Rg c t AND push_bit (24 - lane a) 0xFFFFFF00) OR drop_bit (lane a) (iopRead32 (m_mem c) (a AND NOT 3))"
    have 1: "exec_load hk i1 c = Wg t ?v c"
      unfolding exec_load_def Let_def o assms(5) assms(8) [symmetric] busRead32_ram [OF in0] by simp
    have ea: "ea (Wg t ?v c) i2 = a + 3" using e2 assms(3,4) by (simp add: ea_def Rg_def Wg_def flip: word_unat_eq_iff)
    have 2: "exec_load hk i2 (Wg t ?v c) = Wg t ((?v AND drop_bit (lane (a + 3)) 0x00FFFFFF)
        OR push_bit (24 - lane (a + 3)) (iopRead32 (m_mem c) ((a + 3) AND NOT 3))) (Wg t ?v c)"
      unfolding exec_load_def Let_def o assms(6) ea busRead32_ram [OF in1] using assms(2) by (simp add: Rg_def Wg_def)
    have same: "k = 0 \<Longrightarrow> iopRead32 (m_mem c) ((a + 3) AND NOT 3) = iopRead32 (m_mem c) (a AND NOT 3)"
      by (rule iopRead32_cong) (simp only: p(1,2) refl if_True diff_zero)
    show ?thesis unfolding 1 2 using assms(2) lwr_lwl_join [OF p(3) same] join_bits [OF assms(1,9,10) refl refl]
      by (simp only: l Wg_def if_True not_False_eq_True simp_thms) (simp add: Rg_def)
  qed
  have st: "m_mem (exec_store hk i2 (exec_store hk i1 c)) = store_pair a (m_gpr c (unat t)) (m_mem c)"
    if o: "f_op i1 = 0x2E" "f_op i2 = 0x2A"
  proof -
    let ?r = "m_gpr c (unat t)"
    let ?m1 = "iopWrite32 (a AND NOT 3) (push_bit (8 * k) ?r OR (iopRead32 (m_mem c) (a AND NOT 3) AND mask (8 * k))) (m_mem c)"
    have 1: "exec_store hk i1 c = c\<lparr>m_mem := ?m1\<rparr>"
      unfolding exec_store_def Let_def o assms(5) assms(8) [symmetric] busRead32_ram [OF in0] prod.case busWrite32_ram [OF in0]
        l swr_swl_masks(1) [OF p(3)] Rg_def by simp
    have ea: "ea (c\<lparr>m_mem := ?m1\<rparr>) i2 = a + 3" using e2 by (simp add: ea_def Rg_def)
    let ?w1 = "iopRead32 ?m1 ((a + 3) AND NOT 3)"
    have 2: "m_mem (exec_store hk i2 (c\<lparr>m_mem := ?m1\<rparr>)) = iopWrite32 ((a + 3) AND NOT 3)
        (drop_bit (24 - lane (a + 3)) ?r OR (?w1 AND push_bit (lane (a + 3)) 0xFFFFFF00)) ?m1"
      unfolding exec_store_def Let_def o assms(6) ea busRead32_ram [OF in1] prod.case busWrite32_ram [OF in1] Rg_def by simp
    have v: "drop_bit (24 - lane (a + 3)) ?r OR (?w1 AND push_bit (lane (a + 3)) 0xFFFFFF00)
        = (if k = 0 then ?r else drop_bit (32 - 8 * k) ?r OR (?w1 AND NOT (mask (8 * k))))"
    proof (cases "k = 0")
      case True
      have "lane (a + 3) = 24" "push_bit 24 (0xFFFFFF00 :: u32) = 0" by (simp_all add: l True)
      with True show ?thesis by (simp only: diff_self_eq_0 drop_bit_0 and_zero_eq or.right_neutral refl if_True id_apply)
    next
      case False
      show ?thesis unfolding l swr_swl_masks(2,3) [OF p(3) False] by (simp only: False if_False)
    qed
    show ?thesis unfolding 1 2 v by (simp only: store_pair_def Let_def assms(10) [symmetric])
  qed
  have tk: "take_bit n (push_bit n x OR (y AND mask n)) = take_bit n y" for n and x y :: u32
    by (rule bit_word_eqI) (auto simp: bit_simps)
  have dk: "drop_bit (8 * k) (drop_bit (32 - 8 * k) x OR (y AND NOT (mask (8 * k)))) = drop_bit (8 * k) y" for x y :: u32
    by (rule bit_word_eqI) (use p(3) in \<open>auto simp: bit_simps dest: bit_imp_le_length\<close>)
  note w = store_pair_words(1,2) [OF assms(1,9,10)]
  show ?thesis
  proof (intro conjI impI, goal_cases)
    case 1 then show ?case by (auto intro: ld)
  next
    case 2 then show ?case by (simp only: st store_pair_read [OF assms(1,9)])
  next
    case 3 then show ?case by (simp only: st w(1) [OF 3(2)] tk)
  next
    case 4 then show ?case by (simp only: st w(2) [OF 4(2)] dk)
  qed
qed

text \<open>
  Nested runs: after a nested run on the same processor, restoring the state saved before it
  gives back the general registers, HI, LO and the program counter, and changes nothing else.
\<close>

lemma restore_saved_state:
  assumes "m_gpr c 0 = 0"
  shows "saveState (restoreState (saveState c) c') = saveState c
    \<and> restoreState (saveState c) c' = c'\<lparr>m_gpr := m_gpr c, m_hi := m_hi c, m_lo := m_lo c, m_pc := m_pc c\<rparr>"
  using assms by (simp add: saveState_def restoreState_def fun_upd_idem)

end
