(* ===== verification/Decoder.thy ===== *)
theory Decoder
  imports Prelude
begin

text \<open>
  The instruction decoder of the recompiler: \<open>r5900_decoder.cpp\<close> with the \<open>Instruction\<close>
  structure of \<open>types.h\<close>, the field macros and opcode enumerations of \<open>instructions.h\<close> and the
  helpers of \<open>control_flow_utils.h\<close>.  The answers of the Rabbitizer disassembler library, which
  is not part of the sources, are a parameter of the decoder.
\<close>

section \<open>Opcode enumerations\<close>

text \<open>
  The enumerators of \<open>instructions.h\<close> that the decoder and the analyzers compare with.
\<close>

abbreviation (input) OPCODE_SPECIAL :: u32 where "OPCODE_SPECIAL \<equiv> 0x00"
abbreviation (input) OPCODE_J :: u32 where "OPCODE_J \<equiv> 0x02"
abbreviation (input) OPCODE_JAL :: u32 where "OPCODE_JAL \<equiv> 0x03"
abbreviation (input) OPCODE_BEQ :: u32 where "OPCODE_BEQ \<equiv> 0x04"
abbreviation (input) OPCODE_BNE :: u32 where "OPCODE_BNE \<equiv> 0x05"
abbreviation (input) OPCODE_BLEZ :: u32 where "OPCODE_BLEZ \<equiv> 0x06"
abbreviation (input) OPCODE_BGTZ :: u32 where "OPCODE_BGTZ \<equiv> 0x07"
abbreviation (input) OPCODE_ADDIU :: u32 where "OPCODE_ADDIU \<equiv> 0x09"
abbreviation (input) OPCODE_SLTI :: u32 where "OPCODE_SLTI \<equiv> 0x0A"
abbreviation (input) OPCODE_SLTIU :: u32 where "OPCODE_SLTIU \<equiv> 0x0B"
abbreviation (input) OPCODE_ORI :: u32 where "OPCODE_ORI \<equiv> 0x0D"
abbreviation (input) OPCODE_LUI :: u32 where "OPCODE_LUI \<equiv> 0x0F"
abbreviation (input) OPCODE_COP2 :: u32 where "OPCODE_COP2 \<equiv> 0x12"
abbreviation (input) OPCODE_MMI :: u32 where "OPCODE_MMI \<equiv> 0x1C"
abbreviation (input) OPCODE_LQ :: u32 where "OPCODE_LQ \<equiv> 0x1E"
abbreviation (input) OPCODE_SQ :: u32 where "OPCODE_SQ \<equiv> 0x1F"
abbreviation (input) OPCODE_LW :: u32 where "OPCODE_LW \<equiv> 0x23"
abbreviation (input) OPCODE_LWU :: u32 where "OPCODE_LWU \<equiv> 0x27"
abbreviation (input) OPCODE_LL :: u32 where "OPCODE_LL \<equiv> 0x30"
abbreviation (input) OPCODE_LWC2 :: u32 where "OPCODE_LWC2 \<equiv> 0x32"
abbreviation (input) OPCODE_LLD :: u32 where "OPCODE_LLD \<equiv> 0x34"
abbreviation (input) OPCODE_LDC2 :: u32 where "OPCODE_LDC2 \<equiv> 0x36"
abbreviation (input) OPCODE_SC :: u32 where "OPCODE_SC \<equiv> 0x38"
abbreviation (input) OPCODE_SWC2 :: u32 where "OPCODE_SWC2 \<equiv> 0x3A"
abbreviation (input) OPCODE_SCD :: u32 where "OPCODE_SCD \<equiv> 0x3C"
abbreviation (input) OPCODE_SDC2 :: u32 where "OPCODE_SDC2 \<equiv> 0x3E"

abbreviation (input) SPECIAL_SLL :: u32 where "SPECIAL_SLL \<equiv> 0x00"
abbreviation (input) SPECIAL_SRL :: u32 where "SPECIAL_SRL \<equiv> 0x02"
abbreviation (input) SPECIAL_SRA :: u32 where "SPECIAL_SRA \<equiv> 0x03"
abbreviation (input) SPECIAL_SLLV :: u32 where "SPECIAL_SLLV \<equiv> 0x04"
abbreviation (input) SPECIAL_SRLV :: u32 where "SPECIAL_SRLV \<equiv> 0x06"
abbreviation (input) SPECIAL_SRAV :: u32 where "SPECIAL_SRAV \<equiv> 0x07"
abbreviation (input) SPECIAL_JR :: u32 where "SPECIAL_JR \<equiv> 0x08"
abbreviation (input) SPECIAL_JALR :: u32 where "SPECIAL_JALR \<equiv> 0x09"
abbreviation (input) SPECIAL_MOVZ :: u32 where "SPECIAL_MOVZ \<equiv> 0x0A"
abbreviation (input) SPECIAL_MOVN :: u32 where "SPECIAL_MOVN \<equiv> 0x0B"
abbreviation (input) SPECIAL_SYSCALL :: u32 where "SPECIAL_SYSCALL \<equiv> 0x0C"
abbreviation (input) SPECIAL_BREAK :: u32 where "SPECIAL_BREAK \<equiv> 0x0D"
abbreviation (input) SPECIAL_SYNC :: u32 where "SPECIAL_SYNC \<equiv> 0x0F"
abbreviation (input) SPECIAL_MFHI :: u32 where "SPECIAL_MFHI \<equiv> 0x10"
abbreviation (input) SPECIAL_MTHI :: u32 where "SPECIAL_MTHI \<equiv> 0x11"
abbreviation (input) SPECIAL_MFLO :: u32 where "SPECIAL_MFLO \<equiv> 0x12"
abbreviation (input) SPECIAL_MTLO :: u32 where "SPECIAL_MTLO \<equiv> 0x13"
abbreviation (input) SPECIAL_DSLLV :: u32 where "SPECIAL_DSLLV \<equiv> 0x14"
abbreviation (input) SPECIAL_DSRLV :: u32 where "SPECIAL_DSRLV \<equiv> 0x16"
abbreviation (input) SPECIAL_DSRAV :: u32 where "SPECIAL_DSRAV \<equiv> 0x17"
abbreviation (input) SPECIAL_MULT :: u32 where "SPECIAL_MULT \<equiv> 0x18"
abbreviation (input) SPECIAL_MULTU :: u32 where "SPECIAL_MULTU \<equiv> 0x19"
abbreviation (input) SPECIAL_DIV :: u32 where "SPECIAL_DIV \<equiv> 0x1A"
abbreviation (input) SPECIAL_DIVU :: u32 where "SPECIAL_DIVU \<equiv> 0x1B"
abbreviation (input) SPECIAL_ADD :: u32 where "SPECIAL_ADD \<equiv> 0x20"
abbreviation (input) SPECIAL_ADDU :: u32 where "SPECIAL_ADDU \<equiv> 0x21"
abbreviation (input) SPECIAL_SUB :: u32 where "SPECIAL_SUB \<equiv> 0x22"
abbreviation (input) SPECIAL_SUBU :: u32 where "SPECIAL_SUBU \<equiv> 0x23"
abbreviation (input) SPECIAL_AND :: u32 where "SPECIAL_AND \<equiv> 0x24"
abbreviation (input) SPECIAL_OR :: u32 where "SPECIAL_OR \<equiv> 0x25"
abbreviation (input) SPECIAL_XOR :: u32 where "SPECIAL_XOR \<equiv> 0x26"
abbreviation (input) SPECIAL_NOR :: u32 where "SPECIAL_NOR \<equiv> 0x27"
abbreviation (input) SPECIAL_MFSA :: u32 where "SPECIAL_MFSA \<equiv> 0x28"
abbreviation (input) SPECIAL_MTSA :: u32 where "SPECIAL_MTSA \<equiv> 0x29"
abbreviation (input) SPECIAL_SLT :: u32 where "SPECIAL_SLT \<equiv> 0x2A"
abbreviation (input) SPECIAL_SLTU :: u32 where "SPECIAL_SLTU \<equiv> 0x2B"
abbreviation (input) SPECIAL_DADD :: u32 where "SPECIAL_DADD \<equiv> 0x2C"
abbreviation (input) SPECIAL_DADDU :: u32 where "SPECIAL_DADDU \<equiv> 0x2D"
abbreviation (input) SPECIAL_DSUB :: u32 where "SPECIAL_DSUB \<equiv> 0x2E"
abbreviation (input) SPECIAL_DSUBU :: u32 where "SPECIAL_DSUBU \<equiv> 0x2F"
abbreviation (input) SPECIAL_TGE :: u32 where "SPECIAL_TGE \<equiv> 0x30"
abbreviation (input) SPECIAL_TGEU :: u32 where "SPECIAL_TGEU \<equiv> 0x31"
abbreviation (input) SPECIAL_TLT :: u32 where "SPECIAL_TLT \<equiv> 0x32"
abbreviation (input) SPECIAL_TLTU :: u32 where "SPECIAL_TLTU \<equiv> 0x33"
abbreviation (input) SPECIAL_TEQ :: u32 where "SPECIAL_TEQ \<equiv> 0x34"
abbreviation (input) SPECIAL_TNE :: u32 where "SPECIAL_TNE \<equiv> 0x36"
abbreviation (input) SPECIAL_DSLL :: u32 where "SPECIAL_DSLL \<equiv> 0x38"
abbreviation (input) SPECIAL_DSRL :: u32 where "SPECIAL_DSRL \<equiv> 0x3A"
abbreviation (input) SPECIAL_DSRA :: u32 where "SPECIAL_DSRA \<equiv> 0x3B"
abbreviation (input) SPECIAL_DSLL32 :: u32 where "SPECIAL_DSLL32 \<equiv> 0x3C"
abbreviation (input) SPECIAL_DSRL32 :: u32 where "SPECIAL_DSRL32 \<equiv> 0x3E"
abbreviation (input) SPECIAL_DSRA32 :: u32 where "SPECIAL_DSRA32 \<equiv> 0x3F"

abbreviation (input) REGIMM_BLTZ :: u32 where "REGIMM_BLTZ \<equiv> 0x00"
abbreviation (input) REGIMM_BGEZ :: u32 where "REGIMM_BGEZ \<equiv> 0x01"
abbreviation (input) REGIMM_BLTZL :: u32 where "REGIMM_BLTZL \<equiv> 0x02"
abbreviation (input) REGIMM_BGEZL :: u32 where "REGIMM_BGEZL \<equiv> 0x03"
abbreviation (input) REGIMM_TGEI :: u32 where "REGIMM_TGEI \<equiv> 0x08"
abbreviation (input) REGIMM_TGEIU :: u32 where "REGIMM_TGEIU \<equiv> 0x09"
abbreviation (input) REGIMM_TLTI :: u32 where "REGIMM_TLTI \<equiv> 0x0A"
abbreviation (input) REGIMM_TLTIU :: u32 where "REGIMM_TLTIU \<equiv> 0x0B"
abbreviation (input) REGIMM_TEQI :: u32 where "REGIMM_TEQI \<equiv> 0x0C"
abbreviation (input) REGIMM_TNEI :: u32 where "REGIMM_TNEI \<equiv> 0x0E"
abbreviation (input) REGIMM_BLTZAL :: u32 where "REGIMM_BLTZAL \<equiv> 0x10"
abbreviation (input) REGIMM_BGEZAL :: u32 where "REGIMM_BGEZAL \<equiv> 0x11"
abbreviation (input) REGIMM_BLTZALL :: u32 where "REGIMM_BLTZALL \<equiv> 0x12"
abbreviation (input) REGIMM_BGEZALL :: u32 where "REGIMM_BGEZALL \<equiv> 0x13"
abbreviation (input) REGIMM_MTSAB :: u32 where "REGIMM_MTSAB \<equiv> 0x18"
abbreviation (input) REGIMM_MTSAH :: u32 where "REGIMM_MTSAH \<equiv> 0x19"

abbreviation (input) MMI_MADD :: u32 where "MMI_MADD \<equiv> 0x00"
abbreviation (input) MMI_MADDU :: u32 where "MMI_MADDU \<equiv> 0x01"
abbreviation (input) MMI_MSUB :: u32 where "MMI_MSUB \<equiv> 0x02"
abbreviation (input) MMI_MSUBU :: u32 where "MMI_MSUBU \<equiv> 0x03"
abbreviation (input) MMI_PLZCW :: u32 where "MMI_PLZCW \<equiv> 0x04"
abbreviation (input) MMI_MMI0 :: u32 where "MMI_MMI0 \<equiv> 0x08"
abbreviation (input) MMI_MMI2 :: u32 where "MMI_MMI2 \<equiv> 0x09"
abbreviation (input) MMI_MFHI1 :: u32 where "MMI_MFHI1 \<equiv> 0x10"
abbreviation (input) MMI_MTHI1 :: u32 where "MMI_MTHI1 \<equiv> 0x11"
abbreviation (input) MMI_MFLO1 :: u32 where "MMI_MFLO1 \<equiv> 0x12"
abbreviation (input) MMI_MTLO1 :: u32 where "MMI_MTLO1 \<equiv> 0x13"
abbreviation (input) MMI_MULT1 :: u32 where "MMI_MULT1 \<equiv> 0x18"
abbreviation (input) MMI_MULTU1 :: u32 where "MMI_MULTU1 \<equiv> 0x19"
abbreviation (input) MMI_DIV1 :: u32 where "MMI_DIV1 \<equiv> 0x1A"
abbreviation (input) MMI_DIVU1 :: u32 where "MMI_DIVU1 \<equiv> 0x1B"
abbreviation (input) MMI_MADD1 :: u32 where "MMI_MADD1 \<equiv> 0x20"
abbreviation (input) MMI_MADDU1 :: u32 where "MMI_MADDU1 \<equiv> 0x21"
abbreviation (input) MMI_MMI1 :: u32 where "MMI_MMI1 \<equiv> 0x28"
abbreviation (input) MMI_MMI3 :: u32 where "MMI_MMI3 \<equiv> 0x29"
abbreviation (input) MMI_PMFHL :: u32 where "MMI_PMFHL \<equiv> 0x30"
abbreviation (input) MMI_PMTHL :: u32 where "MMI_PMTHL \<equiv> 0x31"
abbreviation (input) MMI_PSLLH :: u32 where "MMI_PSLLH \<equiv> 0x34"
abbreviation (input) MMI_PSRLH :: u32 where "MMI_PSRLH \<equiv> 0x36"
abbreviation (input) MMI_PSRAH :: u32 where "MMI_PSRAH \<equiv> 0x37"
abbreviation (input) MMI_PSLLW :: u32 where "MMI_PSLLW \<equiv> 0x3C"
abbreviation (input) MMI_PSRLW :: u32 where "MMI_PSRLW \<equiv> 0x3E"
abbreviation (input) MMI_PSRAW :: u32 where "MMI_PSRAW \<equiv> 0x3F"

abbreviation (input) MMI1_QFSRV :: u32 where "MMI1_QFSRV \<equiv> 0x1B"

abbreviation (input) MMI2_PMADDW :: u32 where "MMI2_PMADDW \<equiv> 0x00"
abbreviation (input) MMI2_PMSUBW :: u32 where "MMI2_PMSUBW \<equiv> 0x04"
abbreviation (input) MMI2_PMULTW :: u32 where "MMI2_PMULTW \<equiv> 0x0C"
abbreviation (input) MMI2_PDIVW :: u32 where "MMI2_PDIVW \<equiv> 0x0D"
abbreviation (input) MMI2_PMADDH :: u32 where "MMI2_PMADDH \<equiv> 0x10"
abbreviation (input) MMI2_PHMADH :: u32 where "MMI2_PHMADH \<equiv> 0x11"
abbreviation (input) MMI2_PMSUBH :: u32 where "MMI2_PMSUBH \<equiv> 0x14"
abbreviation (input) MMI2_PHMSBH :: u32 where "MMI2_PHMSBH \<equiv> 0x15"
abbreviation (input) MMI2_PMULTH :: u32 where "MMI2_PMULTH \<equiv> 0x1C"
abbreviation (input) MMI2_PDIVBW :: u32 where "MMI2_PDIVBW \<equiv> 0x1D"

abbreviation (input) MMI3_PMADDUW :: u32 where "MMI3_PMADDUW \<equiv> 0x00"
abbreviation (input) MMI3_PMTHI :: u32 where "MMI3_PMTHI \<equiv> 0x08"
abbreviation (input) MMI3_PMTLO :: u32 where "MMI3_PMTLO \<equiv> 0x09"
abbreviation (input) MMI3_PMULTUW :: u32 where "MMI3_PMULTUW \<equiv> 0x0C"
abbreviation (input) MMI3_PDIVUW :: u32 where "MMI3_PDIVUW \<equiv> 0x0D"

abbreviation (input) PMFHL_LW :: u32 where "PMFHL_LW \<equiv> 0x00"
abbreviation (input) PMFHL_UW :: u32 where "PMFHL_UW \<equiv> 0x01"
abbreviation (input) PMFHL_SLW :: u32 where "PMFHL_SLW \<equiv> 0x02"
abbreviation (input) PMFHL_LH :: u32 where "PMFHL_LH \<equiv> 0x03"
abbreviation (input) PMFHL_SH :: u32 where "PMFHL_SH \<equiv> 0x04"

abbreviation (input) COP0_MF :: u32 where "COP0_MF \<equiv> 0x00"
abbreviation (input) COP0_BC :: u32 where "COP0_BC \<equiv> 0x08"
abbreviation (input) COP0_CO :: u32 where "COP0_CO \<equiv> 0x10"

abbreviation (input) COP0_CO_ERET :: u32 where "COP0_CO_ERET \<equiv> 0x18"

abbreviation (input) COP1_MF :: u32 where "COP1_MF \<equiv> 0x00"
abbreviation (input) COP1_CF :: u32 where "COP1_CF \<equiv> 0x02"
abbreviation (input) COP1_CT :: u32 where "COP1_CT \<equiv> 0x06"
abbreviation (input) COP1_BC :: u32 where "COP1_BC \<equiv> 0x08"
abbreviation (input) COP1_L :: u32 where "COP1_L \<equiv> 0x15"
abbreviation (input) COP1_S :: u32 where "COP1_S \<equiv> 0x10"
abbreviation (input) COP1_W :: u32 where "COP1_W \<equiv> 0x14"
abbreviation (input) COP1_S_C_F :: u32 where "COP1_S_C_F \<equiv> 0x30"

abbreviation (input) COP2_QMFC2 :: u32 where "COP2_QMFC2 \<equiv> 0x01"
abbreviation (input) COP2_CFC2 :: u32 where "COP2_CFC2 \<equiv> 0x02"
abbreviation (input) COP2_QMTC2 :: u32 where "COP2_QMTC2 \<equiv> 0x05"
abbreviation (input) COP2_CTC2 :: u32 where "COP2_CTC2 \<equiv> 0x06"
abbreviation (input) COP2_BC :: u32 where "COP2_BC \<equiv> 0x08"
abbreviation (input) COP2_CO :: u32 where "COP2_CO \<equiv> 0x10"

abbreviation (input) VU0_S1_VIADD :: u8 where "VU0_S1_VIADD \<equiv> 0x30"
abbreviation (input) VU0_S1_VIADDI :: u8 where "VU0_S1_VIADDI \<equiv> 0x32"
abbreviation (input) VU0_S1_VIOR :: u8 where "VU0_S1_VIOR \<equiv> 0x35"

abbreviation (input) VU0_S2_VABS :: u8 where "VU0_S2_VABS \<equiv> 0x1D"
abbreviation (input) VU0_S2_VCLIPw :: u8 where "VU0_S2_VCLIPw \<equiv> 0x1F"
abbreviation (input) VU0_S2_VNOP :: u8 where "VU0_S2_VNOP \<equiv> 0x2F"
abbreviation (input) VU0_S2_VMOVE :: u8 where "VU0_S2_VMOVE \<equiv> 0x30"
abbreviation (input) VU0_S2_VMR32 :: u8 where "VU0_S2_VMR32 \<equiv> 0x31"
abbreviation (input) VU0_S2_VDIV :: u8 where "VU0_S2_VDIV \<equiv> 0x38"
abbreviation (input) VU0_S2_VSQRT :: u8 where "VU0_S2_VSQRT \<equiv> 0x39"
abbreviation (input) VU0_S2_VRSQRT :: u8 where "VU0_S2_VRSQRT \<equiv> 0x3A"
abbreviation (input) VU0_S2_VMTIR :: u8 where "VU0_S2_VMTIR \<equiv> 0x3C"
abbreviation (input) VU0_S2_VMFIR :: u8 where "VU0_S2_VMFIR \<equiv> 0x3D"
abbreviation (input) VU0_S2_VILWR :: u8 where "VU0_S2_VILWR \<equiv> 0x3E"
abbreviation (input) VU0_S2_VISWR :: u8 where "VU0_S2_VISWR \<equiv> 0x3F"
abbreviation (input) VU0_S2_VRNEXT :: u8 where "VU0_S2_VRNEXT \<equiv> 0x40"
abbreviation (input) VU0_S2_VRGET :: u8 where "VU0_S2_VRGET \<equiv> 0x41"
abbreviation (input) VU0_S2_VRINIT :: u8 where "VU0_S2_VRINIT \<equiv> 0x42"
abbreviation (input) VU0_S2_VRXOR :: u8 where "VU0_S2_VRXOR \<equiv> 0x43"

section \<open>Decoded instructions\<close>

record vector_info =
  isVector :: bool
  usesQReg :: bool
  usesPReg :: bool
  modifiesMAC :: bool
  vectorField :: u8
  fsf :: u8
  ftf :: u8

record mod_info =
  modifiesGPR :: bool
  modifiesFPR :: bool
  modifiesVFR :: bool
  modifiesVIR :: bool
  modifiesVIC :: bool
  modifiesMemory :: bool
  modifiesControl :: bool

text \<open>The \<open>Instruction\<close> structure; \<open>i_function\<close> is its member \<open>function\<close>.\<close>

record instruction =
  i_address :: u32
  i_opcode :: u32
  i_rs :: u32
  i_rt :: u32
  i_rd :: u32
  i_sa :: u32
  i_function :: u32
  i_immediate :: u32
  i_simmediate :: u32
  i_target :: u32
  i_raw :: u32
  isMMI :: bool
  isVU :: bool
  isBranch :: bool
  isJump :: bool
  isCall :: bool
  isReturn :: bool
  hasDelaySlot :: bool
  isMultimedia :: bool
  isStore :: bool
  isLoad :: bool
  mmiType :: u8
  mmiFunction :: u8
  pmfhlVariation :: u8
  vuFunction :: u8
  isMmio :: bool
  mmioAddress :: u32
  disassembly :: string
  vectorInfo :: vector_info
  modificationInfo :: mod_info

text \<open>
  What \<open>decodeInstruction\<close> asks the Rabbitizer library about one instruction word: the
  descriptor predicates, the identification of \<open>eret\<close> and the disassembly text.
\<close>

record rabbitizer =
  rz_isBranch :: bool
  rz_isJump :: bool
  rz_isFunctionCall :: bool
  rz_isReturn :: bool
  rz_isEret :: bool
  rz_hasDelaySlot :: bool
  rz_doesLoad :: bool
  rz_doesStore :: bool
  rz_modifiesRs :: bool
  rz_modifiesRt :: bool
  rz_modifiesRd :: bool
  rz_doesLink :: bool
  rz_modifiesFs :: bool
  rz_modifiesFt :: bool
  rz_modifiesFd :: bool
  rz_isTrap :: bool
  rz_modifiesHI :: bool
  rz_modifiesLO :: bool
  rz_disassemble :: string

section \<open>Field macros\<close>

definition OPCODE :: "u32 \<Rightarrow> u32" where "OPCODE w = drop_bit 26 w AND 0x3F"
definition RS :: "u32 \<Rightarrow> u32" where "RS w = drop_bit 21 w AND 0x1F"
definition RT :: "u32 \<Rightarrow> u32" where "RT w = drop_bit 16 w AND 0x1F"
definition RD :: "u32 \<Rightarrow> u32" where "RD w = drop_bit 11 w AND 0x1F"
definition SA :: "u32 \<Rightarrow> u32" where "SA w = drop_bit 6 w AND 0x1F"
definition FUNCTION :: "u32 \<Rightarrow> u32" where "FUNCTION w = w AND 0x3F"
definition IMMEDIATE :: "u32 \<Rightarrow> u32" where "IMMEDIATE w = w AND 0xFFFF"
definition SIMMEDIATE :: "u32 \<Rightarrow> u32" where "SIMMEDIATE w = scast (ucast (w AND 0xFFFF) :: u16)"
definition TARGET :: "u32 \<Rightarrow> u32" where "TARGET w = w AND 0x3FFFFFF"

section \<open>Updates of the modification flags\<close>

definition setGPR :: "bool \<Rightarrow> instruction \<Rightarrow> instruction" where
  "setGPR b i = i\<lparr>modificationInfo := (modificationInfo i)\<lparr>modifiesGPR := b\<rparr>\<rparr>"
definition setFPR :: "bool \<Rightarrow> instruction \<Rightarrow> instruction" where
  "setFPR b i = i\<lparr>modificationInfo := (modificationInfo i)\<lparr>modifiesFPR := b\<rparr>\<rparr>"
definition setVFR :: "bool \<Rightarrow> instruction \<Rightarrow> instruction" where
  "setVFR b i = i\<lparr>modificationInfo := (modificationInfo i)\<lparr>modifiesVFR := b\<rparr>\<rparr>"
definition setVIR :: "bool \<Rightarrow> instruction \<Rightarrow> instruction" where
  "setVIR b i = i\<lparr>modificationInfo := (modificationInfo i)\<lparr>modifiesVIR := b\<rparr>\<rparr>"
definition setVIC :: "bool \<Rightarrow> instruction \<Rightarrow> instruction" where
  "setVIC b i = i\<lparr>modificationInfo := (modificationInfo i)\<lparr>modifiesVIC := b\<rparr>\<rparr>"
definition setMemory :: "bool \<Rightarrow> instruction \<Rightarrow> instruction" where
  "setMemory b i = i\<lparr>modificationInfo := (modificationInfo i)\<lparr>modifiesMemory := b\<rparr>\<rparr>"
definition setControl :: "bool \<Rightarrow> instruction \<Rightarrow> instruction" where
  "setControl b i = i\<lparr>modificationInfo := (modificationInfo i)\<lparr>modifiesControl := b\<rparr>\<rparr>"

lemmas [dec_simps] = setGPR_def setFPR_def setVFR_def setVIR_def setVIC_def setMemory_def
  setControl_def

section \<open>Instruction groups\<close>

definition decodeRType :: "instruction \<Rightarrow> instruction" where
  "decodeRType i = (if i_rd i \<noteq> 0 then setGPR True i else i)"

definition decodeIType :: "instruction \<Rightarrow> instruction" where
  "decodeIType i = (if \<not> isStore i \<and> \<not> isBranch i \<and> i_rt i \<noteq> 0 then setGPR True i else i)"

definition decodeJType :: "instruction \<Rightarrow> instruction" where
  "decodeJType i =
     (let i = setControl True (i\<lparr>isJump := True, hasDelaySlot := True\<rparr>)
      in if i_opcode i = OPCODE_JAL then setGPR True (i\<lparr>isCall := True\<rparr>) else i)"

definition decodeSpecial :: "instruction \<Rightarrow> instruction" where
  "decodeSpecial i0 =
     (let i = (if i_rd i0 \<noteq> 0 then setGPR True i0 else i0);
          fn = i_function i;
          clear_if_zero = (\<lambda>i. if i_rd i = 0 then setGPR False i else i)
      in if fn = SPECIAL_JR then
           (let i = setControl True (setGPR False (i\<lparr>isJump := True, hasDelaySlot := True\<rparr>))
            in if i_rs i = 31 then i\<lparr>isReturn := True\<rparr> else i)
         else if fn = SPECIAL_JALR then
           (let i = i\<lparr>isJump := True, isCall := True, hasDelaySlot := True\<rparr>
            in setControl True (if i_rd i = 0 then setGPR False i else setGPR True i))
         else if fn \<in> {SPECIAL_SYSCALL, SPECIAL_BREAK} then setControl True (setGPR False i)
         else if fn \<in> {SPECIAL_MFHI, SPECIAL_MFLO} then clear_if_zero i
         else if fn \<in> {SPECIAL_MTHI, SPECIAL_MTLO} then setControl True (setGPR False i)
         else if fn \<in> {SPECIAL_DIV, SPECIAL_DIVU} then setControl True (setGPR False i)
         else if fn \<in> {SPECIAL_MULT, SPECIAL_MULTU} then
           setControl True (setGPR (i_rd i \<noteq> 0) i)
         else if fn \<in> {SPECIAL_ADD, SPECIAL_ADDU, SPECIAL_SUB, SPECIAL_SUBU, SPECIAL_AND,
                       SPECIAL_OR, SPECIAL_XOR, SPECIAL_NOR} then clear_if_zero i
         else if fn \<in> {SPECIAL_SLL, SPECIAL_SRL, SPECIAL_SRA, SPECIAL_SLLV, SPECIAL_SRLV,
                       SPECIAL_SRAV} then clear_if_zero i
         else if fn \<in> {SPECIAL_DADD, SPECIAL_DADDU, SPECIAL_DSUB, SPECIAL_DSUBU, SPECIAL_DSLL,
                       SPECIAL_DSRL, SPECIAL_DSRA, SPECIAL_DSLL32, SPECIAL_DSRL32,
                       SPECIAL_DSRA32, SPECIAL_DSLLV, SPECIAL_DSRLV, SPECIAL_DSRAV} then
           clear_if_zero i
         else if fn \<in> {SPECIAL_MOVZ, SPECIAL_MOVN} then clear_if_zero i
         else if fn \<in> {SPECIAL_SLT, SPECIAL_SLTU} then clear_if_zero i
         else if fn \<in> {SPECIAL_TGE, SPECIAL_TGEU, SPECIAL_TLT, SPECIAL_TLTU, SPECIAL_TEQ,
                       SPECIAL_TNE} then setControl True (setGPR False i)
         else if fn = SPECIAL_MFSA then clear_if_zero i
         else if fn = SPECIAL_MTSA then setControl True (setGPR False i)
         else if fn = SPECIAL_SYNC then setControl True (setGPR False i)
         else i)"

definition decodeRegimm :: "instruction \<Rightarrow> instruction" where
  "decodeRegimm i =
     (let rt = i_rt i
      in if rt \<in> {REGIMM_BLTZ, REGIMM_BGEZ, REGIMM_BLTZL, REGIMM_BGEZL} then
           setControl True (i\<lparr>isBranch := True, hasDelaySlot := True\<rparr>)
         else if rt \<in> {REGIMM_BLTZAL, REGIMM_BGEZAL, REGIMM_BLTZALL, REGIMM_BGEZALL} then
           setControl True (setGPR True
             (i\<lparr>isBranch := True, isCall := True, hasDelaySlot := True\<rparr>))
         else if rt \<in> {REGIMM_TGEI, REGIMM_TGEIU, REGIMM_TLTI, REGIMM_TLTIU, REGIMM_TEQI,
                       REGIMM_TNEI} then setControl True i
         else if rt \<in> {REGIMM_MTSAB, REGIMM_MTSAH} then
           setControl True (i\<lparr>isMultimedia := True\<rparr>)
         else i)"

text \<open>The cases of \<open>decodeMMI0\<close> all fall through to a \<open>break\<close>.\<close>

definition decodeMMI0 :: "instruction \<Rightarrow> instruction" where
  "decodeMMI0 i = i\<lparr>mmiType := 0, mmiFunction := ucast (i_sa i)\<rparr>"

definition decodeMMI1 :: "instruction \<Rightarrow> instruction" where
  "decodeMMI1 i0 =
     (let i = i0\<lparr>mmiType := 1, mmiFunction := ucast (i_sa i0)\<rparr>
      in if i_sa i = MMI1_QFSRV then i\<lparr>isMultimedia := True\<rparr> else i)"

definition decodeMMI2 :: "instruction \<Rightarrow> instruction" where
  "decodeMMI2 i0 =
     (let i = i0\<lparr>mmiType := 2, mmiFunction := ucast (i_sa i0)\<rparr>;
          i = (if i_sa i \<in> {MMI2_PMADDW, MMI2_PMSUBW, MMI2_PMULTW, MMI2_PDIVW, MMI2_PDIVBW,
                            MMI2_PMADDH, MMI2_PHMADH, MMI2_PMSUBH, MMI2_PHMSBH, MMI2_PMULTH}
               then setControl True i else i)
      in if i_sa i \<in> {MMI2_PMADDW, MMI2_PMSUBW, MMI2_PMADDH, MMI2_PHMADH, MMI2_PMSUBH,
                      MMI2_PHMSBH, MMI2_PMULTH, MMI2_PMULTW, MMI2_PDIVW, MMI2_PDIVBW}
         then i\<lparr>isMultimedia := True\<rparr> else i)"

definition decodeMMI3 :: "instruction \<Rightarrow> instruction" where
  "decodeMMI3 i0 =
     (let i = i0\<lparr>mmiType := 3, mmiFunction := ucast (i_sa i0)\<rparr>;
          sa = i_sa i
      in if sa = MMI3_PMADDUW then setControl True (i\<lparr>isMultimedia := True\<rparr>)
         else if sa = MMI3_PMTHI then
           setControl True (setGPR False (i\<lparr>mmiFunction := ucast MMI3_PMTHI\<rparr>))
         else if sa = MMI3_PMTLO then
           setControl True (setGPR False (i\<lparr>mmiFunction := ucast MMI3_PMTLO\<rparr>))
         else if sa \<in> {MMI3_PMULTUW, MMI3_PDIVUW} then
           setControl True (i\<lparr>isMultimedia := True\<rparr>)
         else i)"

definition decodePMFHL :: "instruction \<Rightarrow> instruction" where
  "decodePMFHL i =
     (let sa = i_sa i
      in if sa = PMFHL_LW then i\<lparr>pmfhlVariation := ucast PMFHL_LW\<rparr>
         else if sa = PMFHL_UW then i\<lparr>pmfhlVariation := ucast PMFHL_UW\<rparr>
         else if sa = PMFHL_SLW then i\<lparr>pmfhlVariation := ucast PMFHL_SLW\<rparr>
         else if sa = PMFHL_LH then i\<lparr>pmfhlVariation := ucast PMFHL_LH\<rparr>
         else if sa = PMFHL_SH then i\<lparr>pmfhlVariation := ucast PMFHL_SH\<rparr>
         else i\<lparr>pmfhlVariation := 0xFF\<rparr>)"

definition decodeMMI :: "instruction \<Rightarrow> instruction" where
  "decodeMMI i0 =
     (let i = setGPR True (i0\<lparr>isMMI := True, isMultimedia := True\<rparr>);
          i = (if i_rd i = 0 then setGPR False i else i);
          fn = i_function i
      in if fn = MMI_MMI0 then decodeMMI0 i
         else if fn = MMI_MMI1 then decodeMMI1 i
         else if fn = MMI_MMI2 then decodeMMI2 i
         else if fn = MMI_MMI3 then decodeMMI3 i
         else if fn = MMI_PLZCW then i
         else if fn \<in> {MMI_MFHI1, MMI_MFLO1} then
           setControl False (if i_rd i = 0 then setGPR False i else i)
         else if fn \<in> {MMI_MTHI1, MMI_MTLO1} then setControl True (setGPR False i)
         else if fn \<in> {MMI_PSLLH, MMI_PSRLH, MMI_PSRAH, MMI_PSLLW, MMI_PSRLW, MMI_PSRAW} then i
         else if fn \<in> {MMI_MADD, MMI_MADDU, MMI_MSUB, MMI_MSUBU, MMI_MADD1, MMI_MADDU1} then
           setControl True (setGPR (i_rd i \<noteq> 0) i)
         else if fn \<in> {MMI_MULT1, MMI_MULTU1} then setControl True (setGPR (i_rd i \<noteq> 0) i)
         else if fn \<in> {MMI_DIV1, MMI_DIVU1} then setControl True (setGPR False i)
         else if fn \<in> {MMI_PMTHL, MMI3_PMTHI, MMI3_PMTLO} then setControl True (setGPR False i)
         else if fn = MMI_PMFHL then decodePMFHL i
         else i)"

definition decodeCOP0 :: "instruction \<Rightarrow> instruction" where
  "decodeCOP0 i0 =
     (let format = ucast (i_rs i0) :: u8; i = setControl True i0
      in if format = ucast COP0_MF \<and> i_rt i \<noteq> 0 then setGPR True i
         else if format = ucast COP0_CO \<and> i_function i = COP0_CO_ERET then
           i\<lparr>isReturn := True, hasDelaySlot := False\<rparr>
         else if format = ucast COP0_BC then i\<lparr>isBranch := True, hasDelaySlot := True\<rparr>
         else i)"

definition decodeCOP1 :: "instruction \<Rightarrow> instruction" where
  "decodeCOP1 i0 =
     (let format = ucast (i_rs i0) :: u8;
          i = (if format = ucast COP1_MF \<or> format = ucast COP1_CF then
                 (if i_rt i0 \<noteq> 0 then setGPR True i0 else i0)
               else if format = ucast COP1_BC then
                 setControl True (i0\<lparr>isBranch := True, hasDelaySlot := True\<rparr>)
               else if format = ucast COP1_S \<or> format = ucast COP1_W \<or> format = ucast COP1_L then
                 setFPR True i0
               else i0)
      in if format = ucast COP1_CT \<or> (format = ucast COP1_S \<and> COP1_S_C_F \<le> i_function i)
         then setControl True i else i)"

text \<open>The VU0 macro instructions: the function number and the two tables of the last case.\<close>

definition isSpecial2 :: "u32 \<Rightarrow> bool" where
  "isSpecial2 fn = (0x3C \<le> (ucast (fn AND 0x3F) :: u8))"

definition vuFunc :: "u32 \<Rightarrow> u32 \<Rightarrow> u8" where
  "vuFunc raw fn =
     (if isSpecial2 fn
      then ucast (push_bit 2 (drop_bit 6 raw AND 0x1F) OR (raw AND 0x3))
      else ucast (fn AND 0x3F))"

definition vu_special2 :: "u8 \<Rightarrow> instruction \<Rightarrow> instruction" where
  "vu_special2 f i =
     (if f \<in> {VU0_S2_VDIV, VU0_S2_VSQRT, VU0_S2_VRSQRT} then
        i\<lparr>vectorInfo := (vectorInfo i)\<lparr>usesQReg := True\<rparr>\<rparr>
      else if f = VU0_S2_VMTIR then setVIC True (setVFR False i)
      else if f = VU0_S2_VMFIR then setVIR False i
      else if f = VU0_S2_VILWR then setVIR True (setVFR False i)\<lparr>isLoad := True\<rparr>
      else if f = VU0_S2_VISWR then
        setMemory True (setVIR False (setVFR False i)\<lparr>isStore := True\<rparr>)
      else if f \<in> {VU0_S2_VRINIT, VU0_S2_VRXOR} then setVFR False i
      else if f = VU0_S2_VRGET then setControl False i
      else if f = VU0_S2_VRNEXT then setVFR False (setControl True i)
      else if f \<in> {VU0_S2_VABS, VU0_S2_VMOVE, VU0_S2_VMR32} then setControl False i
      else if f = VU0_S2_VNOP then setControl False (setVFR False i)
      else if f = VU0_S2_VCLIPw then setVFR False i
      else i)"

definition vu_special1 :: "u8 \<Rightarrow> instruction \<Rightarrow> instruction" where
  "vu_special1 f i0 =
     (let i = (if VU0_S1_VIADD \<le> f \<and> f \<le> VU0_S1_VIOR then setVIR True (setVFR False i0) else i0)
      in if f = VU0_S1_VIADDI then setVIR True (setVFR False i) else i)"

definition decode_vu_macro :: "instruction \<Rightarrow> instruction" where
  "decode_vu_macro i0 =
     (let raw = i_raw i0; f = vuFunc raw (i_function i0);
          i = i0\<lparr>vectorInfo := (vectorInfo i0)\<lparr>vectorField := ucast (drop_bit 21 raw AND 0xF)\<rparr>\<rparr>;
          i = (if f \<in> {VU0_S2_VDIV, VU0_S2_VRSQRT, VU0_S2_VMTIR, VU0_S2_VRINIT, VU0_S2_VRXOR}
               then i\<lparr>vectorInfo := (vectorInfo i)\<lparr>fsf := ucast (drop_bit 21 raw AND 0x3)\<rparr>\<rparr>
               else i);
          i = (if f \<in> {VU0_S2_VDIV, VU0_S2_VSQRT, VU0_S2_VRSQRT}
               then i\<lparr>vectorInfo := (vectorInfo i)\<lparr>ftf := ucast (drop_bit 23 raw AND 0x3)\<rparr>\<rparr>
               else i);
          i = setControl True (setVFR True i)
      in if isSpecial2 (i_function i0) then vu_special2 f i else vu_special1 f i)"

definition decodeCOP2 :: "instruction \<Rightarrow> instruction" where
  "decodeCOP2 i0 =
     (let format = ucast (i_rs i0) :: u8; i = i0\<lparr>isVU := True, isMultimedia := True\<rparr>
      in if format = ucast COP2_QMFC2 \<or> format = ucast COP2_CFC2 then
           (if i_rt i \<noteq> 0 then setGPR True i else i)
         else if format = ucast COP2_QMTC2 then setVFR True i
         else if format = ucast COP2_CTC2 then setControl True i
         else if format = ucast COP2_BC then
           setControl True (i\<lparr>isBranch := True, hasDelaySlot := True\<rparr>)
         else if ucast COP2_CO \<le> format \<and> format \<le> ucast COP2_CO + 15 then decode_vu_macro i
         else i)"

section \<open>The decoder\<close>

text \<open>The fields and flags as they stand before the library is asked.\<close>

definition inst_initial :: "u32 \<Rightarrow> u32 \<Rightarrow> instruction" where
  "inst_initial a w =
     \<lparr>i_address = a, i_opcode = OPCODE w, i_rs = RS w, i_rt = RT w, i_rd = RD w, i_sa = SA w,
      i_function = FUNCTION w, i_immediate = IMMEDIATE w, i_simmediate = SIMMEDIATE w,
      i_target = TARGET w, i_raw = w,
      isMMI = False, isVU = False, isBranch = False, isJump = False, isCall = False,
      isReturn = False, hasDelaySlot = False, isMultimedia = False, isStore = False,
      isLoad = False, mmiType = 0, mmiFunction = 0, pmfhlVariation = 0, vuFunction = 0,
      isMmio = False, mmioAddress = 0, disassembly = [],
      vectorInfo = \<lparr>isVector = False, usesQReg = False, usesPReg = False, modifiesMAC = False,
                    vectorField = 0xF, fsf = 0, ftf = 0\<rparr>,
      modificationInfo = \<lparr>modifiesGPR = False, modifiesFPR = False, modifiesVFR = False,
                          modifiesVIR = False, modifiesVIC = False, modifiesMemory = False,
                          modifiesControl = False\<rparr>\<rparr>"

definition rz_GPR :: "rabbitizer \<Rightarrow> instruction \<Rightarrow> bool" where
  "rz_GPR rz i = (rz_modifiesRs rz \<and> i_rs i \<noteq> 0 \<or> rz_modifiesRt rz \<and> i_rt i \<noteq> 0 \<or>
                  rz_modifiesRd rz \<and> i_rd i \<noteq> 0 \<or> rz_doesLink rz)"

definition inst_rabbitizer :: "rabbitizer \<Rightarrow> instruction \<Rightarrow> instruction" where
  "inst_rabbitizer rz i0 =
     (let i = i0\<lparr>isBranch := rz_isBranch rz, isJump := rz_isJump rz,
                 isCall := rz_isFunctionCall rz, isReturn := rz_isReturn rz \<or> rz_isEret rz,
                 hasDelaySlot := rz_hasDelaySlot rz, isLoad := rz_doesLoad rz,
                 isStore := rz_doesStore rz, isMMI := (i_opcode i0 = OPCODE_MMI),
                 isVU := i_opcode i0 \<in> {OPCODE_COP2, OPCODE_LWC2, OPCODE_LDC2, OPCODE_SWC2,
                                         OPCODE_SDC2}\<rparr>;
          i = setGPR (rz_GPR rz i) i;
          i = setFPR (rz_modifiesFs rz \<or> rz_modifiesFt rz \<or> rz_modifiesFd rz) i;
          i = setMemory (rz_doesStore rz) i;
          i = setControl (rz_isBranch rz \<or> rz_isJump rz \<or> rz_isTrap rz \<or> rz_modifiesHI rz \<or>
                          rz_modifiesLO rz) i
      in if rz_isEret rz
         then setControl True (i\<lparr>isReturn := True, hasDelaySlot := False\<rparr>) else i)"

definition inst_linked :: "instruction \<Rightarrow> instruction" where
  "inst_linked i =
     (let i = (if i_opcode i = OPCODE_LL \<or> i_opcode i = OPCODE_LLD then
                 (let i = setControl True (i\<lparr>isLoad := True\<rparr>)
                  in if i_rt i \<noteq> 0 then setGPR True i else i)
               else i)
      in if i_opcode i = OPCODE_SC \<or> i_opcode i = OPCODE_SCD then
           (let i = setControl True (i\<lparr>isStore := True\<rparr>)
            in if i_rt i \<noteq> 0 then setGPR True i else i)
         else i)"

definition inst_groups :: "instruction \<Rightarrow> instruction" where
  "inst_groups i =
     (let i = (if i_opcode i = OPCODE_COP2 then decodeCOP2 i
               else if i_opcode i = OPCODE_LWC2 \<or> i_opcode i = OPCODE_LDC2 then
                 setVFR True (i\<lparr>isVU := True\<rparr>)
               else if i_opcode i = OPCODE_SWC2 \<or> i_opcode i = OPCODE_SDC2 then
                 setMemory True (i\<lparr>isVU := True\<rparr>)
               else i);
          i = (if i_opcode i = OPCODE_LQ \<or> i_opcode i = OPCODE_SQ
               then i\<lparr>isMultimedia := True\<rparr> else i);
          i = (if i_opcode i = OPCODE_SPECIAL then decodeSpecial i
               else if i_opcode i = OPCODE_MMI then decodeMMI i else i)
      in if isMMI i \<or> isVU i
         then i\<lparr>isMultimedia := True, vectorInfo := (vectorInfo i)\<lparr>isVector := isVU i\<rparr>\<rparr>
         else i)"

definition decodeInstruction ::
    "(u32 \<Rightarrow> u32 \<Rightarrow> rabbitizer) \<Rightarrow> u32 \<Rightarrow> u32 \<Rightarrow> bool \<Rightarrow> instruction" where
  "decodeInstruction rab a w includeDisassembly =
     (let i = inst_groups (inst_linked (inst_rabbitizer (rab a w) (inst_initial a w)))
      in if includeDisassembly then i\<lparr>disassembly := rz_disassemble (rab a w)\<rparr> else i)"

section \<open>Targets\<close>

definition getBranchTarget :: "instruction \<Rightarrow> u32" where
  "getBranchTarget i =
     (if \<not> isBranch i then 0 else i_address i + 4 + push_bit 2 (i_simmediate i))"

definition getJumpTarget :: "instruction \<Rightarrow> u32" where
  "getJumpTarget i =
     (if \<not> isJump i then 0
      else if i_opcode i = OPCODE_SPECIAL \<and>
              (i_function i = SPECIAL_JR \<or> i_function i = SPECIAL_JALR) then 0
      else if i_opcode i = OPCODE_J \<or> i_opcode i = OPCODE_JAL then
        ((i_address i + 4) AND 0xF0000000) OR push_bit 2 (i_target i)
      else 0)"

definition buildAbsoluteJumpTarget :: "u32 \<Rightarrow> u32 \<Rightarrow> u32" where
  "buildAbsoluteJumpTarget a t = ((a + 4) AND 0xF0000000) OR push_bit 2 t"

definition isGuestNop :: "instruction \<Rightarrow> bool" where
  "isGuestNop i =
     (i_opcode i = OPCODE_SPECIAL \<and> i_function i = SPECIAL_SLL \<and> i_rd i = 0 \<and> i_rt i = 0 \<and>
        i_sa i = 0 \<or>
      i_opcode i = OPCODE_ADDIU \<and> i_rs i = 0 \<and> i_rt i = 0 \<and>
        (ucast (i_simmediate i) :: u16) = 0)"

definition disassembleInstruction :: "(u32 \<Rightarrow> u32 \<Rightarrow> rabbitizer) \<Rightarrow> instruction \<Rightarrow> string" where
  "disassembleInstruction rab i =
     (if disassembly i \<noteq> [] then disassembly i else rz_disassemble (rab (i_address i) (i_raw i)))"

section \<open>Passes over an instruction\<close>

text \<open>
  Every step of the decoder after the field extraction keeps the extracted fields and the value
  ranges of the other members.  The locale states this contract once; the steps of the decoder
  are its instances, and the decoder as a whole is their composition.
\<close>

definition same_fields :: "instruction \<Rightarrow> instruction \<Rightarrow> bool" where
  "same_fields i j \<longleftrightarrow>
     i_address i = i_address j \<and> i_opcode i = i_opcode j \<and> i_rs i = i_rs j \<and> i_rt i = i_rt j \<and>
     i_rd i = i_rd j \<and> i_sa i = i_sa j \<and> i_function i = i_function j \<and>
     i_immediate i = i_immediate j \<and> i_simmediate i = i_simmediate j \<and>
     i_target i = i_target j \<and> i_raw i = i_raw j"

definition inst_ok :: "instruction \<Rightarrow> bool" where
  "inst_ok i \<longleftrightarrow>
     i_opcode i < 64 \<and> i_rs i < 32 \<and> i_rt i < 32 \<and> i_rd i < 32 \<and> i_sa i < 32 \<and>
     i_function i < 64 \<and> i_immediate i < 0x10000 \<and> i_target i < 0x4000000 \<and>
     mmiType i \<le> 3 \<and> mmiFunction i < 32 \<and> (pmfhlVariation i \<le> 4 \<or> pmfhlVariation i = 0xFF) \<and>
     vectorField (vectorInfo i) < 16 \<and> fsf (vectorInfo i) < 4 \<and> ftf (vectorInfo i) < 4"

locale inst_pass =
  fixes pass :: "instruction \<Rightarrow> instruction"
  assumes pass_fields: "same_fields (pass i) i"
    and pass_ok: "inst_ok i \<Longrightarrow> inst_ok (pass i)"
begin

lemma pass_field_simps [simp]:
  "i_address (pass i) = i_address i" "i_opcode (pass i) = i_opcode i"
  "i_rs (pass i) = i_rs i" "i_rt (pass i) = i_rt i" "i_rd (pass i) = i_rd i"
  "i_sa (pass i) = i_sa i" "i_function (pass i) = i_function i"
  "i_immediate (pass i) = i_immediate i" "i_simmediate (pass i) = i_simmediate i"
  "i_target (pass i) = i_target i" "i_raw (pass i) = i_raw i"
  using pass_fields [of i] by (simp_all add: same_fields_def)

end

text \<open>Word facts behind the value ranges.\<close>

lemma and_mask_less:
  "w AND 0x3F < (64 :: u32)" "w AND 0x1F < (32 :: u32)" "w AND 0xFFFF < (0x10000 :: u32)"
  "w AND 0x3FFFFFF < (0x4000000 :: u32)" "w AND 0xF < (16 :: u32)" "w AND 0x3 < (4 :: u32)"
proof -
  have m: "w AND mask n < 2 ^ n" if "n < 32" for n and w :: u32
    using that by (intro and_mask_less') simp
  show "w AND 0x3F < (64 :: u32)" "w AND 0x1F < (32 :: u32)" "w AND 0xFFFF < (0x10000 :: u32)"
    "w AND 0x3FFFFFF < (0x4000000 :: u32)" "w AND 0xF < (16 :: u32)" "w AND 0x3 < (4 :: u32)"
    using m [of 6 w] m [of 5 w] m [of 16 w] m [of 26 w] m [of 4 w] m [of 2 w]
    by (simp_all add: mask_eq_exp_minus_1)
qed

lemma ucast_less_u8:
  "w < (32 :: u32) \<Longrightarrow> (ucast w :: u8) < 32" "w < (16 :: u32) \<Longrightarrow> (ucast w :: u8) < 16"
  "w < (4 :: u32) \<Longrightarrow> (ucast w :: u8) < 4"
  by (simp_all add: word_less_nat_alt unsigned_ucast_eq take_bit_nat_eq_self)

lemma inst_ok_initial: "inst_ok (inst_initial a w)"
  by (simp add: inst_ok_def inst_initial_def OPCODE_def RS_def RT_def RD_def SA_def FUNCTION_def
      IMMEDIATE_def TARGET_def and_mask_less)

interpretation rzp: inst_pass "inst_rabbitizer rz" for rz
  by unfold_locales (auto simp: inst_rabbitizer_def Let_def same_fields_def inst_ok_def dec_simps)

interpretation lnk: inst_pass inst_linked
  by unfold_locales (auto simp: inst_linked_def Let_def same_fields_def inst_ok_def dec_simps)

text \<open>
  The flag updates are passes that do not change \<^const>\<open>inst_ok\<close> either way; pushing the
  selectors through the conditionals then evaluates a whole group decoder.
\<close>

interpretation setgpr: inst_pass "setGPR b" for b
  by unfold_locales (simp_all add: setGPR_def same_fields_def inst_ok_def)

interpretation setfpr: inst_pass "setFPR b" for b
  by unfold_locales (simp_all add: setFPR_def same_fields_def inst_ok_def)

interpretation setvfr: inst_pass "setVFR b" for b
  by unfold_locales (simp_all add: setVFR_def same_fields_def inst_ok_def)

interpretation setvir: inst_pass "setVIR b" for b
  by unfold_locales (simp_all add: setVIR_def same_fields_def inst_ok_def)

interpretation setvic: inst_pass "setVIC b" for b
  by unfold_locales (simp_all add: setVIC_def same_fields_def inst_ok_def)

interpretation setmemory: inst_pass "setMemory b" for b
  by unfold_locales (simp_all add: setMemory_def same_fields_def inst_ok_def)

interpretation setcontrol: inst_pass "setControl b" for b
  by unfold_locales (simp_all add: setControl_def same_fields_def inst_ok_def)

lemma inst_ok_flags [simp]:
  "inst_ok (setGPR b i) = inst_ok i"
  "inst_ok (setFPR b i) = inst_ok i"
  "inst_ok (setVFR b i) = inst_ok i"
  "inst_ok (setVIR b i) = inst_ok i"
  "inst_ok (setVIC b i) = inst_ok i"
  "inst_ok (setMemory b i) = inst_ok i"
  "inst_ok (setControl b i) = inst_ok i"
  "inst_ok (i\<lparr>isMMI := b\<rparr>) = inst_ok i"
  "inst_ok (i\<lparr>isVU := b\<rparr>) = inst_ok i"
  "inst_ok (i\<lparr>isBranch := b\<rparr>) = inst_ok i"
  "inst_ok (i\<lparr>isJump := b\<rparr>) = inst_ok i"
  "inst_ok (i\<lparr>isCall := b\<rparr>) = inst_ok i"
  "inst_ok (i\<lparr>isReturn := b\<rparr>) = inst_ok i"
  "inst_ok (i\<lparr>hasDelaySlot := b\<rparr>) = inst_ok i"
  "inst_ok (i\<lparr>isMultimedia := b\<rparr>) = inst_ok i"
  "inst_ok (i\<lparr>isStore := b\<rparr>) = inst_ok i"
  "inst_ok (i\<lparr>isLoad := b\<rparr>) = inst_ok i"
  by (simp_all add: inst_ok_def dec_simps)

lemmas push_if = if_distrib [where f = inst_ok]
  if_distrib [where f = i_address]
  if_distrib [where f = i_opcode]
  if_distrib [where f = i_rs]
  if_distrib [where f = i_rt]
  if_distrib [where f = i_rd]
  if_distrib [where f = i_sa]
  if_distrib [where f = i_function]
  if_distrib [where f = i_immediate]
  if_distrib [where f = i_simmediate]
  if_distrib [where f = i_target]
  if_distrib [where f = i_raw]

lemma inst_ok_mmi:
  "inst_ok i \<Longrightarrow> k \<le> 3 \<Longrightarrow> n < 32 \<Longrightarrow> inst_ok (i\<lparr>mmiType := k, mmiFunction := n\<rparr>)"
  "inst_ok i \<Longrightarrow> n < 32 \<Longrightarrow> inst_ok (i\<lparr>mmiFunction := n\<rparr>)"
  "inst_ok i \<Longrightarrow> v \<le> 4 \<or> v = 0xFF \<Longrightarrow> inst_ok (i\<lparr>pmfhlVariation := v\<rparr>)"
  by (simp_all add: inst_ok_def)

lemma inst_ok_vector:
  "inst_ok i \<Longrightarrow> vectorField v < 16 \<Longrightarrow> fsf v < 4 \<Longrightarrow> ftf v < 4 \<Longrightarrow> inst_ok (i\<lparr>vectorInfo := v\<rparr>)"
  "inst_ok i \<Longrightarrow> vectorField (vectorInfo i) < 16 \<and> fsf (vectorInfo i) < 4 \<and> ftf (vectorInfo i) < 4"
  by (simp_all add: inst_ok_def)

lemma inst_ok_sa: "inst_ok i \<Longrightarrow> (ucast (i_sa i) :: u8) < 32"
  by (simp add: inst_ok_def ucast_less_u8)

interpretation spc: inst_pass decodeSpecial
  by unfold_locales
    (simp_all add: decodeSpecial_def Let_def same_fields_def push_if cong: if_cong split del: if_split)

lemma pass_MMI_groups:
  "same_fields (decodeMMI0 i) i" "same_fields (decodeMMI1 i) i" "same_fields (decodeMMI2 i) i"
  "same_fields (decodeMMI3 i) i" "same_fields (decodePMFHL i) i"
  by (simp_all add: decodeMMI0_def decodeMMI1_def decodeMMI2_def decodeMMI3_def decodePMFHL_def
      Let_def same_fields_def push_if cong: if_cong split del: if_split)

lemma ok_MMI_groups:
  assumes "inst_ok i"
  shows "inst_ok (decodeMMI0 i)" "inst_ok (decodeMMI1 i)" "inst_ok (decodeMMI2 i)"
    "inst_ok (decodeMMI3 i)" "inst_ok (decodePMFHL i)"
  using assms inst_ok_sa [OF assms]
  by (simp_all add: decodeMMI0_def decodeMMI1_def decodeMMI2_def decodeMMI3_def decodePMFHL_def
      Let_def push_if inst_ok_mmi cong: if_cong split del: if_split)

interpretation mmi0: inst_pass decodeMMI0 by unfold_locales (simp_all add: pass_MMI_groups ok_MMI_groups)
interpretation mmi1: inst_pass decodeMMI1 by unfold_locales (simp_all add: pass_MMI_groups ok_MMI_groups)
interpretation mmi2: inst_pass decodeMMI2 by unfold_locales (simp_all add: pass_MMI_groups ok_MMI_groups)
interpretation mmi3: inst_pass decodeMMI3 by unfold_locales (simp_all add: pass_MMI_groups ok_MMI_groups)
interpretation pmfhl: inst_pass decodePMFHL by unfold_locales (simp_all add: pass_MMI_groups ok_MMI_groups)

interpretation mmi: inst_pass decodeMMI
  by unfold_locales
    (simp_all add: decodeMMI_def Let_def same_fields_def push_if ok_MMI_groups
      cong: if_cong split del: if_split)

interpretation vu1: inst_pass "vu_special1 f" for f
  by unfold_locales
    (simp_all add: vu_special1_def Let_def same_fields_def push_if cong: if_cong split del: if_split)

interpretation vu2: inst_pass "vu_special2 f" for f
  by unfold_locales
    (simp_all add: vu_special2_def Let_def same_fields_def push_if inst_ok_vector
      cong: if_cong split del: if_split)

interpretation vu: inst_pass decode_vu_macro
proof
  show "same_fields (decode_vu_macro i) i" for i
    by (simp add: decode_vu_macro_def Let_def same_fields_def push_if cong: if_cong
        split del: if_split)
  show "inst_ok (decode_vu_macro i)" if "inst_ok i" for i
    using that inst_ok_vector(2) [OF that]
    by (auto simp: decode_vu_macro_def Let_def intro!: vu1.pass_ok vu2.pass_ok inst_ok_vector(1)
        simp: ucast_less_u8 and_mask_less)
qed

interpretation cop2: inst_pass decodeCOP2
  by unfold_locales
    (simp_all add: decodeCOP2_def Let_def same_fields_def push_if vu.pass_ok
      cong: if_cong split del: if_split)

interpretation grp: inst_pass inst_groups
proof
  show "same_fields (inst_groups i) i" for i
    by (auto simp: inst_groups_def Let_def same_fields_def)
  show "inst_ok (inst_groups i)" if "inst_ok i" for i
  proof -
    have v: "inst_ok (i\<lparr>isMultimedia := b, vectorInfo := (vectorInfo i)\<lparr>isVector := c\<rparr>\<rparr>)"
      if "inst_ok i" for i b c
      using that by (simp add: inst_ok_def)
    show ?thesis
      using that unfolding inst_groups_def Let_def
      by (auto intro!: v spc.pass_ok mmi.pass_ok cop2.pass_ok)
  qed
qed

section \<open>Facts about decoded instructions\<close>

lemma decode_fields [simp]:
  "i_address (decodeInstruction rab a w d) = a" "i_opcode (decodeInstruction rab a w d) = OPCODE w"
  "i_rs (decodeInstruction rab a w d) = RS w" "i_rt (decodeInstruction rab a w d) = RT w"
  "i_rd (decodeInstruction rab a w d) = RD w" "i_sa (decodeInstruction rab a w d) = SA w"
  "i_function (decodeInstruction rab a w d) = FUNCTION w"
  "i_immediate (decodeInstruction rab a w d) = IMMEDIATE w"
  "i_simmediate (decodeInstruction rab a w d) = SIMMEDIATE w"
  "i_target (decodeInstruction rab a w d) = TARGET w" "i_raw (decodeInstruction rab a w d) = w"
  by (simp_all add: decodeInstruction_def Let_def inst_initial_def)

lemma decode_ok: "inst_ok (decodeInstruction rab a w d)"
proof -
  have "inst_ok (i\<lparr>disassembly := t\<rparr>) = inst_ok i" for i t
    by (simp add: inst_ok_def)
  then show ?thesis
    by (simp add: decodeInstruction_def Let_def inst_ok_initial rzp.pass_ok lnk.pass_ok grp.pass_ok)
qed

text \<open>The fields of a word, put back together.\<close>

definition encode_R :: "instruction \<Rightarrow> u32" where
  "encode_R i = push_bit 26 (i_opcode i) OR push_bit 21 (i_rs i) OR push_bit 16 (i_rt i) OR
                push_bit 11 (i_rd i) OR push_bit 6 (i_sa i) OR i_function i"

definition encode_I :: "instruction \<Rightarrow> u32" where
  "encode_I i = push_bit 26 (i_opcode i) OR push_bit 21 (i_rs i) OR push_bit 16 (i_rt i) OR
                i_immediate i"

definition encode_J :: "instruction \<Rightarrow> u32" where
  "encode_J i = push_bit 26 (i_opcode i) OR i_target i"

lemma field_masks:
  "(0x3F :: u32) = mask 6" "(0x1F :: u32) = mask 5" "(0xFFFF :: u32) = mask 16"
  "(0x3FFFFFF :: u32) = mask 26"
  by (simp_all add: mask_eq_exp_minus_1)

lemma field_join: "push_bit k (drop_bit k w AND mask m) OR (w AND mask k) = w AND mask (k + m)"
  for w :: u32
  by (rule bit_eqI) (auto simp: bit_simps)

lemma reassemble:
  "push_bit 26 (OPCODE w) OR TARGET w = w" (is ?J)
  "push_bit 26 (OPCODE w) OR push_bit 21 (RS w) OR push_bit 16 (RT w) OR IMMEDIATE w = w" (is ?I)
  "push_bit 26 (OPCODE w) OR push_bit 21 (RS w) OR push_bit 16 (RT w) OR push_bit 11 (RD w) OR
   push_bit 6 (SA w) OR FUNCTION w = w" (is ?R)
proof -
  note defs = OPCODE_def RS_def RT_def RD_def SA_def FUNCTION_def IMMEDIATE_def TARGET_def
    field_masks
  have top: "w AND mask 32 = w"
    by (rule bit_eqI) (auto simp: bit_simps dest: bit_imp_le_length)
  show J: ?J using field_join [of 26 w 6] top by (simp only: defs) simp
  have "push_bit 21 (RS w) OR push_bit 16 (RT w) OR IMMEDIATE w = TARGET w"
    using field_join [of 16 w 5] field_join [of 21 w 5] by (simp only: defs or.assoc) simp
  with J show I: ?I by (simp only: or.assoc)
  have "push_bit 11 (RD w) OR push_bit 6 (SA w) OR FUNCTION w = IMMEDIATE w"
    using field_join [of 6 w 5] field_join [of 11 w 5] by (simp only: defs or.assoc) simp
  with I show ?R by (simp only: or.assoc)
qed

text \<open>
  Decode round trip: the fields that \<open>decodeInstruction\<close> stores determine the instruction
  word: putting the R, I or J fields of the decoded instruction together gives the raw word back,
  for every word and whatever the library answers, and the signed immediate is the two's
  complement value of the 16-bit immediate.
\<close>

lemma decode_encode_roundtrip:
  "encode_R (decodeInstruction rab a w d) = w \<and> encode_I (decodeInstruction rab a w d) = w \<and>
   encode_J (decodeInstruction rab a w d) = w \<and>
   sint (i_simmediate (decodeInstruction rab a w d)) = sint (ucast w :: u16)"
proof -
  have "(ucast (w AND 0xFFFF) :: u16) = ucast w"
    unfolding field_masks by (rule bit_eqI) (auto simp: bit_simps)
  moreover have "sint (scast (x :: u16) :: u32) = sint x" for x
    using sint_ge [of x] sint_lt [of x] by (simp add: signed_scast_eq signed_take_bit_int_eq_self)
  ultimately show ?thesis
    by (simp add: encode_R_def encode_I_def encode_J_def reassemble SIMMEDIATE_def)
qed

section \<open>Classification\<close>

lemmas push_flags =
  if_distrib [where f = isMMI] if_distrib [where f = isVU] if_distrib [where f = isMultimedia]
  if_distrib [where f = vectorInfo] if_distrib [where f = isJump] if_distrib [where f = isBranch]
  if_distrib [where f = modificationInfo] if_distrib [where f = modifiesGPR]
  if_distrib [where f = modifiesControl]

lemma special_class:
  "isMMI (decodeSpecial i) = isMMI i" "isVU (decodeSpecial i) = isVU i"
  "isMultimedia (decodeSpecial i) = isMultimedia i" "vectorInfo (decodeSpecial i) = vectorInfo i"
  by (simp_all add: decodeSpecial_def Let_def dec_simps push_flags cong: if_cong split del: if_split)

lemma mmi_class:
  "isMMI (decodeMMI i)" "isVU (decodeMMI i) = isVU i" "vectorInfo (decodeMMI i) = vectorInfo i"
  by (simp_all add: decodeMMI_def decodeMMI0_def decodeMMI1_def decodeMMI2_def decodeMMI3_def
      decodePMFHL_def Let_def dec_simps push_flags cong: if_cong split del: if_split)

lemma vu_class:
  "isMMI (decodeCOP2 i) = isMMI i" "isVU (decodeCOP2 i)"
  by (simp_all add: decodeCOP2_def decode_vu_macro_def vu_special1_def vu_special2_def Let_def
      dec_simps push_flags cong: if_cong split del: if_split)

lemma set_class [simp]:
  "isMMI (setGPR b i) = isMMI i"
  "isMMI (setFPR b i) = isMMI i"
  "isMMI (setVFR b i) = isMMI i"
  "isMMI (setVIR b i) = isMMI i"
  "isMMI (setVIC b i) = isMMI i"
  "isMMI (setMemory b i) = isMMI i"
  "isMMI (setControl b i) = isMMI i"
  "isVU (setGPR b i) = isVU i"
  "isVU (setFPR b i) = isVU i"
  "isVU (setVFR b i) = isVU i"
  "isVU (setVIR b i) = isVU i"
  "isVU (setVIC b i) = isVU i"
  "isVU (setMemory b i) = isVU i"
  "isVU (setControl b i) = isVU i"
  "isMultimedia (setGPR b i) = isMultimedia i"
  "isMultimedia (setFPR b i) = isMultimedia i"
  "isMultimedia (setVFR b i) = isMultimedia i"
  "isMultimedia (setVIR b i) = isMultimedia i"
  "isMultimedia (setVIC b i) = isMultimedia i"
  "isMultimedia (setMemory b i) = isMultimedia i"
  "isMultimedia (setControl b i) = isMultimedia i"
  "vectorInfo (setGPR b i) = vectorInfo i"
  "vectorInfo (setFPR b i) = vectorInfo i"
  "vectorInfo (setVFR b i) = vectorInfo i"
  "vectorInfo (setVIR b i) = vectorInfo i"
  "vectorInfo (setVIC b i) = vectorInfo i"
  "vectorInfo (setMemory b i) = vectorInfo i"
  "vectorInfo (setControl b i) = vectorInfo i"
  "isJump (setGPR b i) = isJump i"
  "isJump (setFPR b i) = isJump i"
  "isJump (setVFR b i) = isJump i"
  "isJump (setVIR b i) = isJump i"
  "isJump (setVIC b i) = isJump i"
  "isJump (setMemory b i) = isJump i"
  "isJump (setControl b i) = isJump i"
  "isBranch (setGPR b i) = isBranch i"
  "isBranch (setFPR b i) = isBranch i"
  "isBranch (setVFR b i) = isBranch i"
  "isBranch (setVIR b i) = isBranch i"
  "isBranch (setVIC b i) = isBranch i"
  "isBranch (setMemory b i) = isBranch i"
  "isBranch (setControl b i) = isBranch i"
  "disassembly (setGPR b i) = disassembly i"
  "disassembly (setFPR b i) = disassembly i"
  "disassembly (setVFR b i) = disassembly i"
  "disassembly (setVIR b i) = disassembly i"
  "disassembly (setVIC b i) = disassembly i"
  "disassembly (setMemory b i) = disassembly i"
  "disassembly (setControl b i) = disassembly i"
  by (simp_all add: dec_simps)

lemma linked_class [simp]:
  "isMMI (inst_linked i) = isMMI i" "isVU (inst_linked i) = isVU i"
  "isMultimedia (inst_linked i) = isMultimedia i" "vectorInfo (inst_linked i) = vectorInfo i"
  "isJump (inst_linked i) = isJump i" "isBranch (inst_linked i) = isBranch i"
  by (simp_all add: inst_linked_def Let_def push_flags cong: if_cong split del: if_split)

lemma rabbitizer_class [simp]:
  "isMMI (inst_rabbitizer rz i) = (i_opcode i = OPCODE_MMI)"
  "isVU (inst_rabbitizer rz i) =
     (i_opcode i \<in> {OPCODE_COP2, OPCODE_LWC2, OPCODE_LDC2, OPCODE_SWC2, OPCODE_SDC2})"
  "isMultimedia (inst_rabbitizer rz i) = isMultimedia i"
  "vectorInfo (inst_rabbitizer rz i) = vectorInfo i"
  "isJump (inst_rabbitizer rz i) = rz_isJump rz" "isBranch (inst_rabbitizer rz i) = rz_isBranch rz"
  by (simp_all add: inst_rabbitizer_def Let_def push_flags cong: if_cong split del: if_split)

lemma front_class:
  "isMMI (inst_linked (inst_rabbitizer rz (inst_initial a w))) = (OPCODE w = OPCODE_MMI)"
  "isVU (inst_linked (inst_rabbitizer rz (inst_initial a w))) =
     (OPCODE w \<in> {OPCODE_COP2, OPCODE_LWC2, OPCODE_LDC2, OPCODE_SWC2, OPCODE_SDC2})"
  "isMultimedia (inst_linked (inst_rabbitizer rz (inst_initial a w))) = False"
  "vectorInfo (inst_linked (inst_rabbitizer rz (inst_initial a w))) = vectorInfo (inst_initial a w)"
  by (simp_all add: inst_initial_def)

lemma groups_class:
  fixes i :: instruction
  assumes mmi: "isMMI i = (i_opcode i = OPCODE_MMI)"
    and vu: "isVU i = (i_opcode i \<in> {OPCODE_COP2, OPCODE_LWC2, OPCODE_LDC2, OPCODE_SWC2, OPCODE_SDC2})"
    and "\<not> isMultimedia i" "\<not> isVector (vectorInfo i)"
  shows "isMMI (inst_groups i) = isMMI i" "isVU (inst_groups i) = isVU i"
    "isMultimedia (inst_groups i) =
       (isMMI i \<or> isVU i \<or> i_opcode i = OPCODE_LQ \<or> i_opcode i = OPCODE_SQ)"
    "isVector (vectorInfo (inst_groups i)) = isVU i"
  using assms
  by (simp_all add: inst_groups_def Let_def special_class mmi_class vu_class setVFR_def setMemory_def)


section \<open>Branch and jump targets\<close>

lemma special_jumps:
  "i_function i = SPECIAL_JR \<or> i_function i = SPECIAL_JALR \<Longrightarrow> isJump (decodeSpecial i)"
  by (auto simp: decodeSpecial_def Let_def dec_simps)

lemma groups_jump:
  "i_opcode i \<notin> {OPCODE_SPECIAL, OPCODE_MMI, OPCODE_COP2} \<Longrightarrow> isJump (inst_groups i) = isJump i"
  "i_opcode i \<notin> {OPCODE_SPECIAL, OPCODE_MMI, OPCODE_COP2} \<Longrightarrow> isBranch (inst_groups i) = isBranch i"
  "i_opcode i = OPCODE_SPECIAL \<Longrightarrow> isJump (inst_groups i) = isJump (decodeSpecial i)"
  by (simp_all add: inst_groups_def Let_def)

lemma decode_jump:
  "OPCODE w \<notin> {OPCODE_SPECIAL, OPCODE_MMI, OPCODE_COP2} \<Longrightarrow>
     isJump (decodeInstruction rab a w d) = rz_isJump (rab a w)"
  "OPCODE w \<notin> {OPCODE_SPECIAL, OPCODE_MMI, OPCODE_COP2} \<Longrightarrow>
     isBranch (decodeInstruction rab a w d) = rz_isBranch (rab a w)"
  "OPCODE w = OPCODE_SPECIAL \<Longrightarrow> FUNCTION w \<in> {SPECIAL_JR, SPECIAL_JALR} \<Longrightarrow>
     isJump (decodeInstruction rab a w d)"
  by (auto simp: decodeInstruction_def Let_def groups_jump inst_initial_def special_jumps)

text \<open>The MIPS definition of the two kinds of target, as arithmetic on addresses.\<close>

definition branch_dest :: "u32 \<Rightarrow> u32 \<Rightarrow> int" where
  "branch_dest a w = (uint a + 4 + 4 * sint (ucast w :: u16)) mod 2 ^ 32"

definition jump_dest :: "u32 \<Rightarrow> u32 \<Rightarrow> int" where
  "jump_dest a w = (uint a + 4) mod 2 ^ 32 div 2 ^ 28 * 2 ^ 28 + 4 * (uint w mod 2 ^ 26)"

lemma simmediate_word: "SIMMEDIATE w = word_of_int (sint (ucast w :: u16))"
proof -
  have "(ucast (w AND 0xFFFF) :: u16) = ucast w"
    unfolding field_masks by (rule bit_eqI) (auto simp: bit_simps)
  then show ?thesis by (simp add: SIMMEDIATE_def)
qed

lemma uint_branch: "uint (a + 4 + push_bit 2 (SIMMEDIATE w)) = branch_dest a w"
proof -
  have "a + 4 + push_bit 2 (SIMMEDIATE w)
        = word_of_int (uint a) + word_of_int 4 + word_of_int 4 * word_of_int (sint (ucast w :: u16))"
    unfolding simmediate_word by (simp add: push_bit_eq_mult)
  also have "\<dots> = word_of_int (uint a + 4 + 4 * sint (ucast w :: u16))"
    by (simp only: wi_hom_add wi_hom_mult)
  finally show ?thesis by (simp only: branch_dest_def uint_word_of_int) simp
qed

lemma uint_jump: "uint (buildAbsoluteJumpTarget a (TARGET w)) = jump_dest a w"
proof -
  have m: "(0xF0000000 :: u32) = push_bit 28 (mask 4)"
    by (simp add: mask_eq_exp_minus_1 push_bit_eq_mult)
  have hi: "(a + 4) AND 0xF0000000 = push_bit 28 (drop_bit 28 (a + 4))"
    unfolding m by (rule bit_eqI) (auto simp: bit_simps dest: bit_imp_le_length)
  have 1: "uint (push_bit 28 (drop_bit 28 (a + 4))) = push_bit 28 (drop_bit 28 (uint (a + 4)))"
    by (rule bit_eqI) (auto simp: bit_simps bit_uint_iff dest: bit_imp_le_length)
  have 2: "uint (push_bit 2 (TARGET w)) = push_bit 2 (take_bit 26 (uint w))"
    unfolding TARGET_def field_masks
    by (rule bit_eqI) (auto simp: bit_simps bit_uint_iff dest: bit_imp_le_length)
  have "push_bit 28 (drop_bit 28 x) OR push_bit 2 (take_bit 26 y)
        = push_bit 28 (drop_bit 28 x) + push_bit 2 (take_bit 26 y)" for x y :: int
    by (rule disjunctive_add_eq_or [symmetric], rule bit_eqI) (auto simp: bit_simps)
  then show ?thesis
    by (simp add: buildAbsoluteJumpTarget_def hi unsigned_or_eq 1 2 jump_dest_def)
       (simp add: push_bit_eq_mult drop_bit_eq_div take_bit_eq_mod uint_word_ariths)
qed

text \<open>
  Branch and jump targets: for a branch, \<open>getBranchTarget\<close> is the address of the delay slot
  plus four times the signed 16-bit offset, modulo 2^32; for J and JAL, \<open>getJumpTarget\<close> is the
  26-bit word index within the 256 MB region of the delay slot and agrees with
  \<open>buildAbsoluteJumpTarget\<close>, which the analyzers and emitters use; both are word aligned when the
  instruction is.  JR and JALR are always marked as jumps and have no static target.  The
  hypotheses are that the library marks J and JAL as jumps and the conditional branch opcodes as
  branches.
\<close>

lemma decode_targets:
  fixes rab a w d
  assumes rz_jump: "OPCODE w \<in> {OPCODE_J, OPCODE_JAL} \<Longrightarrow> rz_isJump (rab a w)"
    and rz_branch: "OPCODE w \<in> {OPCODE_BEQ, OPCODE_BNE, OPCODE_BLEZ, OPCODE_BGTZ} \<Longrightarrow>
      rz_isBranch (rab a w)"
  shows
    "(OPCODE w \<in> {OPCODE_J, OPCODE_JAL} \<longrightarrow>
       getJumpTarget (decodeInstruction rab a w d) = buildAbsoluteJumpTarget a (TARGET w) \<and>
       uint (getJumpTarget (decodeInstruction rab a w d)) = jump_dest a w) \<and>
     (OPCODE w \<in> {OPCODE_BEQ, OPCODE_BNE, OPCODE_BLEZ, OPCODE_BGTZ} \<longrightarrow>
       isBranch (decodeInstruction rab a w d)) \<and>
     (isBranch (decodeInstruction rab a w d) \<longrightarrow>
       uint (getBranchTarget (decodeInstruction rab a w d)) = branch_dest a w) \<and>
     (4 dvd uint a \<longrightarrow> 4 dvd branch_dest a w \<and> 4 dvd jump_dest a w) \<and>
     (OPCODE w = OPCODE_SPECIAL \<and> FUNCTION w \<in> {SPECIAL_JR, SPECIAL_JALR} \<longrightarrow>
       isJump (decodeInstruction rab a w d) \<and> getJumpTarget (decodeInstruction rab a w d) = 0)"
    (is "?J \<and> ?B \<and> ?T \<and> ?A \<and> ?R")
proof (intro conjI)
  show ?J
  proof
    assume op: "OPCODE w \<in> {OPCODE_J, OPCODE_JAL}"
    then have "isJump (decodeInstruction rab a w d)" using rz_jump by (auto simp: decode_jump)
    with op have "getJumpTarget (decodeInstruction rab a w d) = buildAbsoluteJumpTarget a (TARGET w)"
      by (auto simp: getJumpTarget_def buildAbsoluteJumpTarget_def)
    then show "getJumpTarget (decodeInstruction rab a w d) = buildAbsoluteJumpTarget a (TARGET w) \<and>
       uint (getJumpTarget (decodeInstruction rab a w d)) = jump_dest a w"
      by (simp add: uint_jump)
  qed
  show ?B using rz_branch by (auto simp: decode_jump)
  show ?T by (simp add: getBranchTarget_def uint_branch)
  show ?A by (auto simp: branch_dest_def jump_dest_def dvd_mod_iff dvd_mod)
  show ?R by (auto simp: decode_jump getJumpTarget_def)
qed

text \<open>The library answering for the words of the witnesses.\<close>

definition demo_rz :: "u32 \<Rightarrow> u32 \<Rightarrow> rabbitizer" where
  "demo_rz a w =
     \<lparr>rz_isBranch = OPCODE w \<in> {OPCODE_BEQ, OPCODE_BNE, OPCODE_BLEZ, OPCODE_BGTZ},
      rz_isJump = OPCODE w \<in> {OPCODE_J, OPCODE_JAL}, rz_isFunctionCall = OPCODE w = OPCODE_JAL,
      rz_isReturn = False, rz_isEret = False,
      rz_hasDelaySlot = OPCODE w \<in> {OPCODE_J, OPCODE_JAL, OPCODE_BEQ, OPCODE_BNE},
      rz_doesLoad = False, rz_doesStore = False, rz_modifiesRs = False, rz_modifiesRt = False,
      rz_modifiesRd = False, rz_doesLink = OPCODE w = OPCODE_JAL, rz_modifiesFs = False,
      rz_modifiesFt = False, rz_modifiesFd = False, rz_isTrap = False, rz_modifiesHI = False,
      rz_modifiesLO = False, rz_disassemble = []\<rparr>"

section \<open>Register effects\<close>

text \<open>
  The instruction set as the manuals list it: which SPECIAL functions write \<open>rd\<close> and which do
  not, which MMI functions do not, and which words write HI/LO, HI1/LO1 or SA.
\<close>

definition special_writes_rd :: "u32 \<Rightarrow> bool" where
  "special_writes_rd fn = (fn \<in> {SPECIAL_SLL, SPECIAL_SRL, SPECIAL_SRA, SPECIAL_SLLV, SPECIAL_SRLV,
     SPECIAL_SRAV, SPECIAL_JALR, SPECIAL_MOVZ, SPECIAL_MOVN, SPECIAL_MFHI, SPECIAL_MFLO,
     SPECIAL_DSLLV, SPECIAL_DSRLV, SPECIAL_DSRAV, SPECIAL_MULT, SPECIAL_MULTU, SPECIAL_ADD,
     SPECIAL_ADDU, SPECIAL_SUB, SPECIAL_SUBU, SPECIAL_AND, SPECIAL_OR, SPECIAL_XOR, SPECIAL_NOR,
     SPECIAL_MFSA, SPECIAL_SLT, SPECIAL_SLTU, SPECIAL_DADD, SPECIAL_DADDU, SPECIAL_DSUB,
     SPECIAL_DSUBU, SPECIAL_DSLL, SPECIAL_DSRL, SPECIAL_DSRA, SPECIAL_DSLL32, SPECIAL_DSRL32,
     SPECIAL_DSRA32})"

definition special_no_rd :: "u32 \<Rightarrow> bool" where
  "special_no_rd fn = (fn \<in> {SPECIAL_JR, SPECIAL_SYSCALL, SPECIAL_BREAK, SPECIAL_SYNC, SPECIAL_MTHI,
     SPECIAL_MTLO, SPECIAL_DIV, SPECIAL_DIVU, SPECIAL_MTSA, SPECIAL_TGE, SPECIAL_TGEU, SPECIAL_TLT,
     SPECIAL_TLTU, SPECIAL_TEQ, SPECIAL_TNE})"

definition mmi_no_rd :: "u32 \<Rightarrow> u32 \<Rightarrow> bool" where
  "mmi_no_rd fn sa = (fn \<in> {MMI_MTHI1, MMI_MTLO1, MMI_DIV1, MMI_DIVU1, MMI_PMTHL} \<or>
     fn = MMI_MMI3 \<and> sa \<in> {MMI3_PMTHI, MMI3_PMTLO})"

definition special_writes_hilo :: "u32 \<Rightarrow> bool" where
  "special_writes_hilo fn = (fn \<in> {SPECIAL_MTHI, SPECIAL_MTLO, SPECIAL_MULT, SPECIAL_MULTU,
     SPECIAL_DIV, SPECIAL_DIVU, SPECIAL_MTSA})"

definition mmi_writes_hilo :: "u32 \<Rightarrow> u32 \<Rightarrow> bool" where
  "mmi_writes_hilo fn sa =
     (fn \<in> {MMI_MADD, MMI_MADDU, MMI_MSUB, MMI_MSUBU, MMI_MADD1, MMI_MADDU1, MMI_MULT1, MMI_MULTU1,
            MMI_DIV1, MMI_DIVU1, MMI_MTHI1, MMI_MTLO1, MMI_PMTHL} \<or>
      fn = MMI_MMI2 \<and> sa \<in> {MMI2_PMADDW, MMI2_PMSUBW, MMI2_PMULTW, MMI2_PDIVW, MMI2_PDIVBW,
                            MMI2_PMADDH, MMI2_PHMADH, MMI2_PMSUBH, MMI2_PHMSBH, MMI2_PMULTH} \<or>
      fn = MMI_MMI3 \<and> sa \<in> {MMI3_PMADDUW, MMI3_PMULTUW, MMI3_PDIVUW, MMI3_PMTHI, MMI3_PMTLO})"

lemma special_effects:
  "special_writes_rd (i_function i) \<Longrightarrow>
     modifiesGPR (modificationInfo (decodeSpecial i)) = (i_rd i \<noteq> 0)"
  "special_no_rd (i_function i) \<Longrightarrow> \<not> modifiesGPR (modificationInfo (decodeSpecial i))"
  "special_writes_hilo (i_function i) \<Longrightarrow> modifiesControl (modificationInfo (decodeSpecial i))"
  unfolding special_writes_rd_def special_no_rd_def special_writes_hilo_def insert_iff empty_iff
  by (elim disjE; simp add: decodeSpecial_def Let_def dec_simps)+

lemma mmi_group_effects:
  "modifiesGPR (modificationInfo (decodeMMI0 i)) = modifiesGPR (modificationInfo i)"
  "modifiesGPR (modificationInfo (decodeMMI1 i)) = modifiesGPR (modificationInfo i)"
  "modifiesGPR (modificationInfo (decodeMMI2 i)) = modifiesGPR (modificationInfo i)"
  "modifiesGPR (modificationInfo (decodeMMI3 i)) =
     (modifiesGPR (modificationInfo i) \<and> i_sa i \<notin> {MMI3_PMTHI, MMI3_PMTLO})"
  "modifiesGPR (modificationInfo (decodePMFHL i)) = modifiesGPR (modificationInfo i)"
  by (auto simp: decodeMMI0_def decodeMMI1_def decodeMMI2_def decodeMMI3_def decodePMFHL_def Let_def
      dec_simps)

lemma mmi_hilo_effects:
  "i_sa i \<in> {MMI2_PMADDW, MMI2_PMSUBW, MMI2_PMULTW, MMI2_PDIVW, MMI2_PDIVBW, MMI2_PMADDH,
             MMI2_PHMADH, MMI2_PMSUBH, MMI2_PHMSBH, MMI2_PMULTH} \<Longrightarrow>
     modifiesControl (modificationInfo (decodeMMI2 i))"
  "i_sa i \<in> {MMI3_PMADDUW, MMI3_PMULTUW, MMI3_PDIVUW, MMI3_PMTHI, MMI3_PMTLO} \<Longrightarrow>
     modifiesControl (modificationInfo (decodeMMI3 i))"
  unfolding insert_iff empty_iff
  by (elim disjE; simp add: decodeMMI2_def decodeMMI3_def Let_def dec_simps)+

lemma set_gpr [simp]:
  "modifiesGPR (modificationInfo (setGPR b i)) = b"
  "modifiesGPR (modificationInfo (setControl b i)) = modifiesGPR (modificationInfo i)"
  "modifiesControl (modificationInfo (setControl b i)) = b"
  "modifiesControl (modificationInfo (setGPR b i)) = modifiesControl (modificationInfo i)"
  by (simp_all add: dec_simps)

lemma mmi_effects:
  "modifiesGPR (modificationInfo (decodeMMI i)) = (i_rd i \<noteq> 0 \<and> \<not> mmi_no_rd (i_function i) (i_sa i))"
  "mmi_writes_hilo (i_function i) (i_sa i) \<Longrightarrow> modifiesControl (modificationInfo (decodeMMI i))"
proof -
  show "modifiesGPR (modificationInfo (decodeMMI i)) =
      (i_rd i \<noteq> 0 \<and> \<not> mmi_no_rd (i_function i) (i_sa i))"
    unfolding decodeMMI_def Let_def mmi_no_rd_def
    by (cases "i_rd i = 0") (simp_all add: mmi_group_effects)
  show "modifiesControl (modificationInfo (decodeMMI i))"
    if "mmi_writes_hilo (i_function i) (i_sa i)"
    using that unfolding mmi_writes_hilo_def
    by (elim disjE conjE) (auto simp: decodeMMI_def Let_def mmi_hilo_effects)
qed

lemma groups_effects:
  "i_opcode i = OPCODE_SPECIAL \<Longrightarrow>
     modificationInfo (inst_groups i) = modificationInfo (decodeSpecial i)"
  "i_opcode i = OPCODE_MMI \<Longrightarrow> modificationInfo (inst_groups i) = modificationInfo (decodeMMI i)"
  by (simp_all add: inst_groups_def Let_def)

lemma decode_effects:
  assumes "OPCODE w = OPCODE_SPECIAL"
  shows "special_writes_rd (FUNCTION w) \<Longrightarrow>
      modifiesGPR (modificationInfo (decodeInstruction rab a w d)) = (RD w \<noteq> 0)"
    "special_no_rd (FUNCTION w) \<Longrightarrow> \<not> modifiesGPR (modificationInfo (decodeInstruction rab a w d))"
    "special_writes_hilo (FUNCTION w) \<Longrightarrow>
      modifiesControl (modificationInfo (decodeInstruction rab a w d))"
proof -
  let ?j = "inst_linked (inst_rabbitizer (rab a w) (inst_initial a w))"
  have j: "i_opcode ?j = OPCODE w" "i_function ?j = FUNCTION w" "i_rd ?j = RD w"
    by (simp_all add: inst_initial_def)
  have m: "modificationInfo (decodeInstruction rab a w d) = modificationInfo (decodeSpecial ?j)"
    using j(1) assms by (simp add: decodeInstruction_def Let_def groups_effects)
  show "special_writes_rd (FUNCTION w) \<Longrightarrow>
      modifiesGPR (modificationInfo (decodeInstruction rab a w d)) = (RD w \<noteq> 0)"
    "special_no_rd (FUNCTION w) \<Longrightarrow> \<not> modifiesGPR (modificationInfo (decodeInstruction rab a w d))"
    "special_writes_hilo (FUNCTION w) \<Longrightarrow>
      modifiesControl (modificationInfo (decodeInstruction rab a w d))"
    unfolding m using special_effects [of ?j, unfolded j] by blast+
qed

lemma decode_effects_mmi:
  assumes "OPCODE w = OPCODE_MMI"
  shows "modifiesGPR (modificationInfo (decodeInstruction rab a w d)) =
      (RD w \<noteq> 0 \<and> \<not> mmi_no_rd (FUNCTION w) (SA w))"
    "mmi_writes_hilo (FUNCTION w) (SA w) \<Longrightarrow>
      modifiesControl (modificationInfo (decodeInstruction rab a w d))"
proof -
  let ?j = "inst_linked (inst_rabbitizer (rab a w) (inst_initial a w))"
  have j: "i_opcode ?j = OPCODE w" "i_function ?j = FUNCTION w" "i_rd ?j = RD w" "i_sa ?j = SA w"
    by (simp_all add: inst_initial_def)
  have m: "modificationInfo (decodeInstruction rab a w d) = modificationInfo (decodeMMI ?j)"
    using j(1) assms by (simp add: decodeInstruction_def Let_def groups_effects)
  show "modifiesGPR (modificationInfo (decodeInstruction rab a w d)) =
      (RD w \<noteq> 0 \<and> \<not> mmi_no_rd (FUNCTION w) (SA w))"
    "mmi_writes_hilo (FUNCTION w) (SA w) \<Longrightarrow>
      modifiesControl (modificationInfo (decodeInstruction rab a w d))"
    unfolding m using mmi_effects [of ?j, unfolded j] by blast+
qed



end
