(* ===== verification/ControlFlow.thy ===== *)
theory ControlFlow
  imports Decoder
begin

text \<open>
  The control-flow analyzer of the recompiler: \<open>ControlFlowAnalyzer::analyze\<close> of
  \<open>control_flow_analyzer.cpp\<close>.  Given the decoded instructions of one function it computes the
  addresses at which the generated function needs a label, the entry points it asks other
  functions for, the resume points after calls and at loop heads, and the targets of recovered
  jump tables.  The report to \<open>RecompilerReporter\<close> is output only and is left out.
\<close>

section \<open>Inputs and result\<close>

text \<open>
  \<open>Section\<close> and \<open>Function\<close> of \<open>types.h\<close>, with the members the analyzer reads.  The data pointer
  of a section is \<open>None\<close> when null and otherwise gives the bytes at the offsets behind it.
\<close>

record section_rec =
  s_address :: u32
  s_size :: u32
  s_isCode :: bool
  s_data :: "(nat \<Rightarrow> u8) option"

record func =
  f_name :: string
  f_start :: u32
  f_end :: u32
  f_isRecompiled :: bool
  f_isStub :: bool
  f_isSkipped :: bool

record cf_result =
  entryPoints :: "u32 set"
  externalEntryPoints :: "u32 set"
  resumeEntryPoints :: "u32 set"
  indirectFallbackEntryPoints :: "u32 set"
  jumpTableTargets :: "u32 \<rightharpoonup> u32 list"

definition empty_result :: cf_result where
  "empty_result = \<lparr>entryPoints = {}, externalEntryPoints = {}, resumeEntryPoints = {},
     indirectFallbackEntryPoints = {}, jumpTableTargets = (\<lambda>_. None)\<rparr>"

text \<open>
  What \<open>analyze\<close> has at hand throughout: the members of the analyzer (sections and configured
  jump tables), the function, its instructions and the other functions (\<open>None\<close> for the null
  pointer).
\<close>

record cf_env =
  e_sections :: "section_rec list"
  e_config :: "u32 \<rightharpoonup> u32 list"
  e_function :: func
  e_insts :: "instruction list"
  e_all :: "func list option"

section \<open>The lambdas of analyze\<close>

definition in_section :: "u32 \<Rightarrow> section_rec \<Rightarrow> bool" where
  "in_section a s = (s_address s \<le> a \<and> a < s_address s + s_size s)"

definition isExecutableAddress :: "cf_env \<Rightarrow> u32 \<Rightarrow> bool" where
  "isExecutableAddress e a = list_ex (\<lambda>s. s_isCode s \<and> in_section a s) (e_sections e)"

definition isPrefix :: "string \<Rightarrow> string \<Rightarrow> bool" where
  "isPrefix p s = (take (length p) s = p)"

definition candidate :: "u32 \<Rightarrow> func \<Rightarrow> bool" where
  "candidate a f = (f_isRecompiled f \<and> \<not> f_isStub f \<and> \<not> f_isSkipped f \<and>
     \<not> isPrefix ''entry_'' (f_name f) \<and> f_start f \<le> a \<and> a < f_end f)"

fun best_candidate :: "u32 \<Rightarrow> func option \<Rightarrow> func list \<Rightarrow> func option" where
  "best_candidate a best [] = best"
| "best_candidate a best (f # fs) =
     best_candidate a
       (if candidate a f \<and> (case best of None \<Rightarrow> True | Some b \<Rightarrow> f_start b < f_start f)
        then Some f else best) fs"

definition findContainingExternalFunction :: "cf_env \<Rightarrow> u32 \<Rightarrow> func option" where
  "findContainingExternalFunction e a =
     (case e_all e of
        None \<Rightarrow> None
      | Some fs \<Rightarrow> if isExecutableAddress e a then best_candidate a None fs else None)"

definition queueExternalEntryTarget :: "cf_env \<Rightarrow> u32 \<Rightarrow> cf_result \<Rightarrow> cf_result" where
  "queueExternalEntryTarget e t r =
     (case findContainingExternalFunction e t of
        None \<Rightarrow> r
      | Some f \<Rightarrow> if f_start f = f_start (e_function e) then r
                  else if t = f_start f then r
                  else r\<lparr>externalEntryPoints := insert t (externalEntryPoints r)\<rparr>)"

definition instructionAddresses :: "cf_env \<Rightarrow> u32 set" where
  "instructionAddresses e = set (map i_address (e_insts e))"

definition in_function :: "cf_env \<Rightarrow> u32 \<Rightarrow> bool" where
  "in_function e a =
     (f_start (e_function e) \<le> a \<and> a < f_end (e_function e) \<and> a \<in> instructionAddresses e)"

definition add_entry :: "u32 \<Rightarrow> cf_result \<Rightarrow> cf_result" where
  "add_entry a r = r\<lparr>entryPoints := insert a (entryPoints r)\<rparr>"

definition queueResumeEntryTarget :: "cf_env \<Rightarrow> u32 \<Rightarrow> cf_result \<Rightarrow> cf_result" where
  "queueResumeEntryTarget e a r =
     (if in_function e a
      then (add_entry a r)\<lparr>resumeEntryPoints := insert a (resumeEntryPoints r)\<rparr> else r)"

definition queueLoopResumeEntryTarget :: "cf_env \<Rightarrow> u32 \<Rightarrow> u32 \<Rightarrow> cf_result \<Rightarrow> cf_result" where
  "queueLoopResumeEntryTarget e t pc r =
     (if pc < t \<or> t = f_start (e_function e) then r else queueResumeEntryTarget e t r)"

section \<open>Direct branches and jumps\<close>

definition isIndirect :: "instruction \<Rightarrow> bool" where
  "isIndirect i = (i_opcode i = OPCODE_SPECIAL \<and>
     (i_function i = SPECIAL_JR \<and> i_rs i \<noteq> 31 \<or> i_function i = SPECIAL_JALR))"

definition branch_target :: "instruction \<Rightarrow> u32" where
  "branch_target i =
     ucast ((ucast (i_address i + 4) :: u64) +
            scast (push_bit 2 (scast (ucast (i_simmediate i) :: u16) :: u32)))"

definition direct_step :: "cf_env \<Rightarrow> instruction \<Rightarrow> cf_result \<Rightarrow> cf_result" where
  "direct_step e i r =
     (if isBranch i \<and> i_opcode i \<noteq> OPCODE_J \<and> i_opcode i \<noteq> OPCODE_JAL then
        (let t = branch_target i
         in if in_function e t
            then queueLoopResumeEntryTarget e t (i_address i) (add_entry t r)
            else queueExternalEntryTarget e t r)
      else if i_opcode i = OPCODE_J \<or> i_opcode i = OPCODE_JAL then
        (let t = buildAbsoluteJumpTarget (i_address i) (i_target i)
         in if in_function e t
            then (let r = queueLoopResumeEntryTarget e t (i_address i) (add_entry t r)
                  in if i_opcode i = OPCODE_JAL
                     then queueResumeEntryTarget e (i_address i + 8) r else r)
            else (let r = queueExternalEntryTarget e t r
                  in if i_opcode i = OPCODE_JAL
                     then queueResumeEntryTarget e (i_address i + 8) r else r))
      else r)"

definition direct_pass :: "cf_env \<Rightarrow> cf_result \<Rightarrow> cf_result" where
  "direct_pass e r = fold (direct_step e) (e_insts e) r"

section \<open>Jump tables\<close>

text \<open>
  \<open>for (int i = hi - 1; i >= 0 && i >= hi - k; --i) if (P(instructions[i])) break;\<close>
\<close>

fun search_back :: "(instruction \<Rightarrow> bool) \<Rightarrow> instruction list \<Rightarrow> nat \<Rightarrow> nat \<Rightarrow> nat option" where
  "search_back P xs hi 0 = None"
| "search_back P xs 0 (Suc k) = None"
| "search_back P xs (Suc i) (Suc k) = (if P (xs ! i) then Some i else search_back P xs i k)"

fun find_index :: "(instruction \<Rightarrow> bool) \<Rightarrow> instruction list \<Rightarrow> nat option" where
  "find_index P [] = None"
| "find_index P (x # xs) = (if P x then Some 0 else map_option Suc (find_index P xs))"

text \<open>The low half that follows a LUI of register \<open>reg\<close>: the last ADDIU or ORI on it wins.\<close>

fun low_half :: "u32 \<Rightarrow> instruction list \<Rightarrow> u32 \<Rightarrow> u32" where
  "low_half reg [] low = low"
| "low_half reg (i # is) low =
     low_half reg is
       (if i_rs i = reg \<and> i_rt i = reg then
          (if i_opcode i = OPCODE_ADDIU then i_simmediate i
           else if i_opcode i = OPCODE_ORI then i_immediate i else low)
        else low)"

record table_site =
  ts_addu :: nat
  ts_base :: u32
  ts_index :: u32
  ts_address :: u32

definition find_table_site :: "instruction list \<Rightarrow> instruction \<Rightarrow> table_site option" where
  "find_table_site xs jr =
     do {
       jrIndex \<leftarrow> find_index (\<lambda>i. i_address i = i_address jr) xs;
       lwIndex \<leftarrow> search_back (\<lambda>i. (i_opcode i = OPCODE_LW \<or> i_opcode i = OPCODE_LWU) \<and>
                                   i_rt i = i_rs jr) xs jrIndex 20;
       let baseReg = i_rs (xs ! lwIndex); let lwOffset = i_simmediate (xs ! lwIndex);
       adduIndex \<leftarrow> search_back (\<lambda>i. i_opcode i = OPCODE_SPECIAL \<and> i_function i = SPECIAL_ADDU \<and>
                                     i_rd i = baseReg) xs lwIndex 10;
       let tableBaseReg = i_rs (xs ! adduIndex); let indexReg = i_rt (xs ! adduIndex);
       luiIndex \<leftarrow> search_back (\<lambda>i. i_opcode i = OPCODE_LUI \<and>
                                    (i_rt i = tableBaseReg \<or> i_rt i = indexReg)) xs adduIndex 20;
       let lui = xs ! luiIndex;
       let high = push_bit 16 (i_immediate lui);
       let low = low_half (i_rt lui) (take (adduIndex - Suc luiIndex) (drop (Suc luiIndex) xs)) 0;
       Some \<lparr>ts_addu = adduIndex, ts_base = tableBaseReg, ts_index = indexReg,
             ts_address = high + low + lwOffset\<rparr>
     }"

text \<open>The targets a table lists: those inside the function, the others being queued.\<close>

fun split_targets :: "cf_env \<Rightarrow> u32 list \<Rightarrow> cf_result \<Rightarrow> u32 list \<times> cf_result" where
  "split_targets e [] r = ([], r)"
| "split_targets e (t # ts) r =
     (if in_function e t then (case split_targets e ts r of (js, r') \<Rightarrow> (t # js, r'))
      else split_targets e ts (queueExternalEntryTarget e t r))"

definition record_table :: "u32 \<Rightarrow> u32 list \<Rightarrow> cf_result \<Rightarrow> cf_result" where
  "record_table a js r = fold add_entry js (r\<lparr>jumpTableTargets := (jumpTableTargets r)(a \<mapsto> js)\<rparr>)"

definition configured_table :: "cf_env \<Rightarrow> u32 \<Rightarrow> u32 \<Rightarrow> cf_result \<Rightarrow> bool \<times> cf_result" where
  "configured_table e jrAddr tableAddress r =
     (case e_config e tableAddress of
        None \<Rightarrow> (False, r)
      | Some ts \<Rightarrow>
          (case split_targets e ts r of (js, r) \<Rightarrow>
             if js = [] then (False, r)
             else (True, record_table jrAddr (remdups_adj (sort js)) r)))"

definition num_cases :: "instruction list \<Rightarrow> table_site \<Rightarrow> u32" where
  "num_cases xs s =
     (let unshifted =
            (case search_back (\<lambda>i. i_opcode i = OPCODE_SPECIAL \<and> i_function i = SPECIAL_SLL \<and>
                                   (i_rd i = ts_base s \<or> i_rd i = ts_index s)) xs (ts_addu s) 10 of
               None \<Rightarrow> 0 | Some k \<Rightarrow> i_rt (xs ! k))
      in if unshifted = 0 then 0
         else (case search_back (\<lambda>i. (i_opcode i = OPCODE_SLTIU \<or> i_opcode i = OPCODE_SLTI) \<and>
                                     i_rs i = unshifted) xs (ts_addu s) 30 of
                 None \<Rightarrow> 0 | Some k \<Rightarrow> i_immediate (xs ! k)))"

definition data_word :: "(nat \<Rightarrow> u8) \<Rightarrow> nat \<Rightarrow> u32" where
  "data_word d k = ucast (d k) OR push_bit 8 (ucast (d (k + 1))) OR
                   push_bit 16 (ucast (d (k + 2))) OR push_bit 24 (ucast (d (k + 3)))"

definition entry_in_bounds :: "section_rec \<Rightarrow> u32 \<Rightarrow> bool" where
  "entry_in_bounds s a = (s_address s \<le> a \<and> a + 4 \<le> s_address s + s_size s)"

text \<open>
  The loop over the cases of a table in memory: \<open>n\<close> cases left, the targets so far in order (the
  set \<open>uniqueTargets\<close> has the same elements), and whether every entry was inside the section.
\<close>

fun read_table :: "cf_env \<Rightarrow> section_rec \<Rightarrow> (nat \<Rightarrow> u8) \<Rightarrow> u32 \<Rightarrow> nat \<Rightarrow> u32 list \<Rightarrow> cf_result \<Rightarrow>
    bool \<times> u32 list \<times> cf_result" where
  "read_table e s d a 0 js r = (True, js, r)"
| "read_table e s d a (Suc n) js r =
     (if entry_in_bounds s a then
        (let t = data_word d (unat (a - s_address s))
         in if in_function e t
            then read_table e s d (a + 4) n (if t \<in> set js then js else js @ [t]) r
            else read_table e s d (a + 4) n js (queueExternalEntryTarget e t r))
      else (False, js, r))"

definition memory_table :: "cf_env \<Rightarrow> u32 \<Rightarrow> table_site \<Rightarrow> cf_result \<Rightarrow> bool \<times> cf_result" where
  "memory_table e jrAddr site r =
     (let n = num_cases (e_insts e) site
      in if 0 < n \<and> n \<le> 1000 then
           (case find (in_section (ts_address site)) (e_sections e) of
              None \<Rightarrow> (False, r)
            | Some s \<Rightarrow>
                (case s_data s of
                   None \<Rightarrow> (False, r)
                 | Some d \<Rightarrow>
                     (case read_table e s d (ts_address site) (unat n) [] r of (valid, js, r) \<Rightarrow>
                        if valid \<and> js \<noteq> [] then (True, record_table jrAddr js r) else (False, r))))
         else (False, r))"

section \<open>Indirect jumps\<close>

definition indirect_step :: "cf_env \<Rightarrow> instruction \<Rightarrow> bool \<times> cf_result \<Rightarrow> bool \<times> cf_result" where
  "indirect_step e jr st =
     (case st of (needsFallback, r) \<Rightarrow>
        (let r = (if i_function jr = SPECIAL_JALR
                  then queueResumeEntryTarget e (i_address jr + 8) r else r)
         in case find_table_site (e_insts e) jr of
              None \<Rightarrow> (True, r)
            | Some site \<Rightarrow>
                (case configured_table e (i_address jr) (ts_address site) r of
                   (True, r) \<Rightarrow> (needsFallback, r)
                 | (False, r) \<Rightarrow>
                     (case memory_table e (i_address jr) site r of
                        (found, r) \<Rightarrow> (needsFallback \<or> \<not> found, r)))))"

definition fallback :: "cf_env \<Rightarrow> cf_result \<Rightarrow> cf_result" where
  "fallback e r =
     (let as = set (filter (\<lambda>a. f_start (e_function e) \<le> a \<and> a < f_end (e_function e))
                      (map i_address (e_insts e)))
      in r\<lparr>entryPoints := entryPoints r \<union> as,
           indirectFallbackEntryPoints := indirectFallbackEntryPoints r \<union> as\<rparr>)"

definition analyze :: "cf_env \<Rightarrow> cf_result" where
  "analyze e =
     (let indirectJumps = filter isIndirect (e_insts e);
          r = direct_pass e empty_result
      in if indirectJumps = [] then r
         else (case fold (indirect_step e) indirectJumps (False, r) of
                 (needsFallback, r) \<Rightarrow> if needsFallback then fallback e r else r))"

section \<open>Steps of the analysis\<close>

text \<open>
  Every step of the analyzer only adds to the result and keeps its invariant.  The invariant:
  entry points are addresses of decoded instructions inside the function; resume and fallback
  points are entry points; a recorded jump table belongs to an indirect jump, is not empty, has no
  duplicates and its targets are entry points; an external entry point lies strictly inside
  another recompiled function, in a code section.
\<close>

definition external_ok :: "cf_env \<Rightarrow> u32 \<Rightarrow> bool" where
  "external_ok e t \<longleftrightarrow> isExecutableAddress e t \<and>
     (\<exists>fs f. e_all e = Some fs \<and> f \<in> set fs \<and> candidate t f \<and>
             f_start f \<noteq> f_start (e_function e) \<and> t \<noteq> f_start f)"

definition table_ok :: "cf_env \<Rightarrow> cf_result \<Rightarrow> u32 \<Rightarrow> u32 list \<Rightarrow> bool" where
  "table_ok e r a js \<longleftrightarrow> js \<noteq> [] \<and> distinct js \<and> set js \<subseteq> entryPoints r \<and>
     (\<exists>i\<in>set (e_insts e). isIndirect i \<and> i_address i = a)"

definition cf_inv :: "cf_env \<Rightarrow> cf_result \<Rightarrow> bool" where
  "cf_inv e r \<longleftrightarrow>
     (\<forall>a\<in>entryPoints r. in_function e a) \<and> resumeEntryPoints r \<subseteq> entryPoints r \<and>
     indirectFallbackEntryPoints r \<subseteq> entryPoints r \<and>
     (\<forall>a js. jumpTableTargets r a = Some js \<longrightarrow> table_ok e r a js) \<and>
     (\<forall>t\<in>externalEntryPoints r. external_ok e t)"

definition grows :: "cf_result \<Rightarrow> cf_result \<Rightarrow> bool" where
  "grows r r' \<longleftrightarrow>
     entryPoints r \<subseteq> entryPoints r' \<and> externalEntryPoints r \<subseteq> externalEntryPoints r' \<and>
     resumeEntryPoints r \<subseteq> resumeEntryPoints r' \<and>
     indirectFallbackEntryPoints r \<subseteq> indirectFallbackEntryPoints r' \<and>
     dom (jumpTableTargets r) \<subseteq> dom (jumpTableTargets r')"

lemma grows_refl [simp]: "grows r r"
  by (simp add: grows_def)

lemma grows_trans [trans]: "grows r s \<Longrightarrow> grows s t \<Longrightarrow> grows r t"
  unfolding grows_def by (meson subset_trans)

locale cf_step =
  fixes e :: cf_env and step :: "'a \<Rightarrow> cf_result \<Rightarrow> cf_result" and dom :: "'a \<Rightarrow> bool"
  assumes step_grows: "grows r (step x r)"
    and step_inv: "dom x \<Longrightarrow> cf_inv e r \<Longrightarrow> cf_inv e (step x r)"
begin

lemma fold_grows: "grows r (fold step xs r)"
  by (induction xs arbitrary: r) (auto intro: grows_trans step_grows)

lemma fold_inv: "(\<And>x. x \<in> set xs \<Longrightarrow> dom x) \<Longrightarrow> cf_inv e r \<Longrightarrow> cf_inv e (fold step xs r)"
  by (induction xs arbitrary: r) (auto intro: step_inv)

text \<open>What one step establishes for good holds after the loop.\<close>

lemma fold_establishes:
  assumes "x \<in> set xs" "\<And>r r'. grows r r' \<Longrightarrow> P r \<Longrightarrow> P r'" "\<And>r. P (step x r)"
  shows "P (fold step xs r)"
  using assms(1)
proof (induction xs arbitrary: r)
  case (Cons y ys)
  then show ?case
    using assms(2) [OF fold_grows assms(3)] by (cases "x = y") auto
qed simp

end

lemma best_candidate_in:
  "best_candidate a b fs = Some f \<Longrightarrow> b = Some f \<or> f \<in> set fs \<and> candidate a f"
  by (induction fs arbitrary: b) (fastforce split: if_splits)+

interpretation ext: cf_step e "queueExternalEntryTarget e" "\<lambda>_. True" for e
proof
  show "grows r (queueExternalEntryTarget e t r)" for t r
    by (auto simp: queueExternalEntryTarget_def grows_def split: option.splits)
  show "cf_inv e (queueExternalEntryTarget e t r)" if "cf_inv e r" for t r
  proof -
    have "external_ok e t"
      if "findContainingExternalFunction e t = Some f" "f_start f \<noteq> f_start (e_function e)"
        "t \<noteq> f_start f" for f
      using that unfolding findContainingExternalFunction_def external_ok_def
      by (auto split: option.splits if_splits dest: best_candidate_in)
    with that show ?thesis
      by (auto simp: queueExternalEntryTarget_def cf_inv_def table_ok_def split: option.splits)
  qed
qed

interpretation ent: cf_step e add_entry "in_function e" for e
  by unfold_locales (auto simp: add_entry_def grows_def cf_inv_def table_ok_def subset_insertI2)

lemma resume_inv:
  "in_function e a \<Longrightarrow> cf_inv e r \<Longrightarrow>
     cf_inv e ((add_entry a r)\<lparr>resumeEntryPoints := insert a (resumeEntryPoints r)\<rparr>)"
  by (auto simp: add_entry_def cf_inv_def table_ok_def subset_insertI2)

interpretation res: cf_step e "queueResumeEntryTarget e" "\<lambda>_. True" for e
  by unfold_locales (auto simp: queueResumeEntryTarget_def resume_inv [unfolded add_entry_def]
        add_entry_def grows_def)

interpretation loop: cf_step e "\<lambda>t. queueLoopResumeEntryTarget e t pc" "\<lambda>_. True" for e pc
  by unfold_locales
    (auto simp: queueLoopResumeEntryTarget_def res.step_grows res.step_inv)

lemmas step_growths = ext.step_grows ent.step_grows res.step_grows loop.step_grows
lemmas step_invs = ext.step_inv [OF TrueI] ent.step_inv res.step_inv [OF TrueI]
  loop.step_inv [OF TrueI]

interpretation dir: cf_step e "direct_step e" "\<lambda>_. True" for e
proof
  show "grows r (direct_step e i r)" for i r
    unfolding direct_step_def Let_def
    by (auto intro: step_growths grows_trans [OF step_growths(2) step_growths(4)]
        grows_trans [OF grows_trans [OF step_growths(2) step_growths(4)] step_growths(3)]
        grows_trans [OF step_growths(1) step_growths(3)])
  show "cf_inv e (direct_step e i r)" if "cf_inv e r" for i r
    using that unfolding direct_step_def Let_def by (auto intro!: step_invs)
qed

section \<open>Recovered jump tables\<close>

lemma split_targets_eq:
  "split_targets e ts r =
     (filter (in_function e) ts, fold (queueExternalEntryTarget e) (filter (\<lambda>t. \<not> in_function e t) ts) r)"
  by (induction ts arbitrary: r) auto

lemma fold_add_entry: "fold add_entry js r = r\<lparr>entryPoints := set js \<union> entryPoints r\<rparr>"
  by (induction js arbitrary: r) (auto simp: add_entry_def)

lemma record_table_eq:
  "record_table a js r = r\<lparr>entryPoints := set js \<union> entryPoints r,
     jumpTableTargets := (jumpTableTargets r)(a \<mapsto> js)\<rparr>"
  by (simp add: record_table_def fold_add_entry)

definition indirect_at :: "cf_env \<Rightarrow> u32 \<Rightarrow> bool" where
  "indirect_at e a \<longleftrightarrow> (\<exists>i\<in>set (e_insts e). isIndirect i \<and> i_address i = a)"

lemma record_table_grows: "grows r (record_table a js r)"
  by (auto simp: record_table_eq grows_def)

lemma record_table_inv:
  assumes "cf_inv e r" "js \<noteq> []" "distinct js" "\<And>t. t \<in> set js \<Longrightarrow> in_function e t" "indirect_at e a"
  shows "cf_inv e (record_table a js r)"
  using assms
  by (auto simp: record_table_eq cf_inv_def table_ok_def indirect_at_def le_supI2 split: if_splits)

text \<open>
  The contract of a table recovery step: it adds to the result, keeps the invariant, and when it
  reports a table, that jump has one.
\<close>

definition table_step :: "cf_env \<Rightarrow> u32 \<Rightarrow> cf_result \<Rightarrow> bool \<times> cf_result \<Rightarrow> bool" where
  "table_step e a r res \<longleftrightarrow> grows r (snd res) \<and>
     (indirect_at e a \<longrightarrow> cf_inv e r \<longrightarrow> cf_inv e (snd res)) \<and>
     (fst res \<longrightarrow> a \<in> dom (jumpTableTargets (snd res)))"

lemma table_stepI:
  "grows r r' \<Longrightarrow> (cf_inv e r \<Longrightarrow> cf_inv e r') \<Longrightarrow> table_step e a r (False, r')"
  by (simp add: table_step_def)

lemma table_step_record:
  assumes "grows r r'" "cf_inv e r \<Longrightarrow> cf_inv e r'" "js \<noteq> []" "distinct js"
    "\<And>t. t \<in> set js \<Longrightarrow> in_function e t"
  shows "table_step e a r (True, record_table a js r')"
  using assms grows_trans [OF assms(1) record_table_grows]
  by (auto simp: table_step_def record_table_inv) (simp add: record_table_eq)

lemma distinct_sorted_remdups_adj:
  fixes xs :: "'a::linorder list"
  shows "sorted xs \<Longrightarrow> distinct (remdups_adj xs)"
  by (induction xs rule: remdups_adj.induct) auto

lemma configured_table_step: "table_step e a r (configured_table e a ta r)"
proof (cases "e_config e ta")
  case (Some ts)
  let ?js = "filter (in_function e) ts"
  let ?r = "fold (queueExternalEntryTarget e) (filter (\<lambda>t. \<not> in_function e t) ts) r"
  have "grows r ?r" by (rule ext.fold_grows)
  moreover have "cf_inv e r \<Longrightarrow> cf_inv e ?r" by (simp add: ext.fold_inv)
  moreover have "distinct (remdups_adj (sort ?js))"
    by (rule distinct_sorted_remdups_adj) simp
  moreover have "remdups_adj (sort ?js) = [] \<longleftrightarrow> ?js = []"
    by (metis remdups_adj_Nil_iff set_empty set_sort)
  ultimately have "table_step e a r (True, record_table a (remdups_adj (sort ?js)) ?r)" if "?js \<noteq> []"
    using that by (intro table_step_record) auto
  moreover have "table_step e a r (False, ?r)"
    using \<open>grows r ?r\<close> by (intro table_stepI) (auto simp: ext.fold_inv)
  ultimately show ?thesis using Some by (simp add: configured_table_def split_targets_eq)
qed (simp add: configured_table_def table_step_def)

lemma read_table_ok:
  assumes "read_table e s d a n js r = (v, js', r')"
  shows "grows r r'" "cf_inv e r \<Longrightarrow> cf_inv e r'" "distinct js \<Longrightarrow> distinct js'"
    "(\<And>t. t \<in> set js \<Longrightarrow> in_function e t) \<Longrightarrow> t \<in> set js' \<Longrightarrow> in_function e t"
proof -
  have "grows r r' \<and> (cf_inv e r \<longrightarrow> cf_inv e r') \<and> (distinct js \<longrightarrow> distinct js') \<and>
    ((\<forall>t\<in>set js. in_function e t) \<longrightarrow> (\<forall>t\<in>set js'. in_function e t))"
    using assms
  proof (induction n arbitrary: a js r)
    case (Suc n)
    let ?t = "data_word d (unat (a - s_address s))"
    show ?case
    proof (cases "entry_in_bounds s a \<and> \<not> in_function e ?t")
      case True
      with Suc.prems have "read_table e s d (a + 4) n js (queueExternalEntryTarget e ?t r) = (v, js', r')"
        by (simp add: Let_def)
      from Suc.IH [OF this] show ?thesis
        using ext.step_grows grows_trans ext.step_inv by blast
    next
      case False
      with Suc.prems show ?thesis
        by (auto simp: Let_def split: if_splits dest!: Suc.IH)
    qed
  qed simp
  then show "grows r r'" "cf_inv e r \<Longrightarrow> cf_inv e r'" "distinct js \<Longrightarrow> distinct js'"
    "(\<And>t. t \<in> set js \<Longrightarrow> in_function e t) \<Longrightarrow> t \<in> set js' \<Longrightarrow> in_function e t" by blast+
qed

lemma memory_table_step: "table_step e a r (memory_table e a site r)"
proof -
  have *: "table_step e a r
      (case read_table e s d ta n [] r of (valid, js, r) \<Rightarrow>
         if valid \<and> js \<noteq> [] then (True, record_table a js r) else (False, r))" for s d ta n
  proof (cases "read_table e s d ta n [] r")
    case (fields v js r')
    note ok = read_table_ok [OF this]
    have "table_step e a r (True, record_table a js r')" if "js \<noteq> []"
      using ok that by (intro table_step_record) auto
    moreover have "table_step e a r (False, r')"
      using ok by (intro table_stepI)
    ultimately show ?thesis using fields by simp
  qed
  show ?thesis
    by (auto simp: memory_table_def Let_def * table_step_def [of e a r "(False, r)"]
        split: option.splits)
qed

section \<open>Indirect jumps\<close>

lemma indirect_step_ok:
  assumes "indirect_step e jr (nf, r) = (nf', r')"
  shows "grows r r'" "indirect_at e (i_address jr) \<Longrightarrow> cf_inv e r \<Longrightarrow> cf_inv e r'"
    "nf \<Longrightarrow> nf'" "\<not> nf' \<Longrightarrow> i_address jr \<in> dom (jumpTableTargets r')"
    "i_function jr = SPECIAL_JALR \<Longrightarrow> in_function e (i_address jr + 8) \<Longrightarrow>
       i_address jr + 8 \<in> resumeEntryPoints r'"
proof -
  let ?r0 = "if i_function jr = SPECIAL_JALR then queueResumeEntryTarget e (i_address jr + 8) r else r"
  let ?a = "i_address jr"
  have r0: "grows r ?r0" "cf_inv e r \<Longrightarrow> cf_inv e ?r0"
    using res.step_grows [where e = e] res.step_inv [OF TrueI] by auto
  have "grows ?r0 r' \<and> (indirect_at e ?a \<longrightarrow> cf_inv e ?r0 \<longrightarrow> cf_inv e r') \<and> (nf \<longrightarrow> nf') \<and>
      (\<not> nf' \<longrightarrow> ?a \<in> dom (jumpTableTargets r'))"
  proof (cases "find_table_site (e_insts e) jr")
    case None
    with assms show ?thesis by (auto simp: indirect_step_def Let_def)
  next
    case (Some site)
    obtain found1 r1 where c: "configured_table e ?a (ts_address site) ?r0 = (found1, r1)"
      by (cases "configured_table e ?a (ts_address site) ?r0") auto
    obtain found2 r2 where m: "memory_table e ?a site r1 = (found2, r2)"
      by (cases "memory_table e ?a site r1") auto
    have 1: "table_step e ?a ?r0 (found1, r1)" "table_step e ?a r1 (found2, r2)"
      using configured_table_step [of e ?a ?r0 "ts_address site"] memory_table_step [of e ?a r1 site] c m
      by simp_all
    have "(nf', r') = (if found1 then (nf, r1) else (nf \<or> \<not> found2, r2))"
      using assms Some c m by (auto simp: indirect_step_def Let_def split: bool.splits if_splits)
    with 1 show ?thesis
      by (auto simp: table_step_def split: if_splits intro: grows_trans)
  qed
  note body = this
  show "grows r r'" using r0 body grows_trans by blast
  show "indirect_at e ?a \<Longrightarrow> cf_inv e r \<Longrightarrow> cf_inv e r'" "nf \<Longrightarrow> nf'"
    "\<not> nf' \<Longrightarrow> ?a \<in> dom (jumpTableTargets r')" using r0 body by blast+
  show "i_function jr = SPECIAL_JALR \<Longrightarrow> in_function e (?a + 8) \<Longrightarrow> ?a + 8 \<in> resumeEntryPoints r'"
    using body by (auto simp: queueResumeEntryTarget_def grows_def)
qed

lemma indirect_fold_ok:
  assumes "fold (indirect_step e) js (nf, r) = (nf', r')"
  shows "grows r r'" "(\<And>j. j \<in> set js \<Longrightarrow> indirect_at e (i_address j)) \<Longrightarrow> cf_inv e r \<Longrightarrow> cf_inv e r'"
    "nf \<Longrightarrow> nf'" "\<not> nf' \<Longrightarrow> j \<in> set js \<Longrightarrow> i_address j \<in> dom (jumpTableTargets r')"
    "j \<in> set js \<Longrightarrow> i_function j = SPECIAL_JALR \<Longrightarrow> in_function e (i_address j + 8) \<Longrightarrow>
       i_address j + 8 \<in> resumeEntryPoints r'"
proof -
  have "grows r r' \<and> ((\<forall>j\<in>set js. indirect_at e (i_address j)) \<longrightarrow> cf_inv e r \<longrightarrow> cf_inv e r') \<and>
    (nf \<longrightarrow> nf') \<and> (\<not> nf' \<longrightarrow> (\<forall>j\<in>set js. i_address j \<in> dom (jumpTableTargets r'))) \<and>
    (\<forall>j\<in>set js. i_function j = SPECIAL_JALR \<longrightarrow> in_function e (i_address j + 8) \<longrightarrow>
       i_address j + 8 \<in> resumeEntryPoints r')"
    using assms
  proof (induction js arbitrary: nf r)
    case (Cons j js)
    obtain nf1 r1 where s: "indirect_step e j (nf, r) = (nf1, r1)"
      by (cases "indirect_step e j (nf, r)") auto
    with Cons.prems have f: "fold (indirect_step e) js (nf1, r1) = (nf', r')" by simp
    note IH = Cons.IH [OF f] and st = indirect_step_ok [OF s]
    have "grows r1 r'" using IH by blast
    then have sub: "resumeEntryPoints r1 \<subseteq> resumeEntryPoints r'"
      "dom (jumpTableTargets r1) \<subseteq> dom (jumpTableTargets r')" by (simp_all add: grows_def)
    have "grows r r'" using IH st(1) grows_trans by blast
    with IH st sub show ?case by simp blast
  qed simp
  then show "grows r r'" "(\<And>j. j \<in> set js \<Longrightarrow> indirect_at e (i_address j)) \<Longrightarrow> cf_inv e r \<Longrightarrow> cf_inv e r'"
    "nf \<Longrightarrow> nf'" "\<not> nf' \<Longrightarrow> j \<in> set js \<Longrightarrow> i_address j \<in> dom (jumpTableTargets r')"
    "j \<in> set js \<Longrightarrow> i_function j = SPECIAL_JALR \<Longrightarrow> in_function e (i_address j + 8) \<Longrightarrow>
       i_address j + 8 \<in> resumeEntryPoints r'"
    by blast+
qed

section \<open>The analysis as a whole\<close>

lemma empty_inv: "cf_inv e empty_result"
  by (simp add: cf_inv_def empty_result_def)

lemma direct_pass_inv: "cf_inv e (direct_pass e empty_result)"
  unfolding direct_pass_def by (rule dir.fold_inv) (simp_all add: empty_inv)

lemma fallback_inv: "cf_inv e r \<Longrightarrow> cf_inv e (fallback e r)"
  by (auto simp: fallback_def Let_def cf_inv_def table_ok_def in_function_def
      instructionAddresses_def le_supI1)

lemma fallback_grows: "grows r (fallback e r)"
  by (auto simp: fallback_def Let_def grows_def)

lemma analyze_inv: "cf_inv e (analyze e)"
proof -
  obtain nf r where f: "fold (indirect_step e) (filter isIndirect (e_insts e))
      (False, direct_pass e empty_result) = (nf, r)"
    by (cases "fold (indirect_step e) (filter isIndirect (e_insts e))
      (False, direct_pass e empty_result)") auto
  have "cf_inv e r"
    by (rule indirect_fold_ok(2) [OF f _ direct_pass_inv]) (auto simp: indirect_at_def)
  with f show ?thesis
    by (simp add: analyze_def Let_def direct_pass_inv fallback_inv)
qed

text \<open>The result extends the direct pass, whatever the indirect jumps add.\<close>

lemma analyze_grows: "grows (direct_pass e empty_result) (analyze e)"
proof -
  obtain nf r where f: "fold (indirect_step e) (filter isIndirect (e_insts e))
      (False, direct_pass e empty_result) = (nf, r)"
    by (cases "fold (indirect_step e) (filter isIndirect (e_insts e))
      (False, direct_pass e empty_result)") auto
  note g = indirect_fold_ok(1) [OF f]
  from f g grows_trans [OF g fallback_grows] show ?thesis
    by (simp add: analyze_def Let_def)
qed

lemma analyze_indirect:
  assumes "i \<in> set (e_insts e)" "isIndirect i"
  shows "i_address i \<in> dom (jumpTableTargets (analyze e)) \<or>
      (\<forall>b. in_function e b \<longrightarrow> b \<in> entryPoints (analyze e) \<and> b \<in> indirectFallbackEntryPoints (analyze e))"
    "i_function i = SPECIAL_JALR \<Longrightarrow> in_function e (i_address i + 8) \<Longrightarrow>
      i_address i + 8 \<in> resumeEntryPoints (analyze e)"
proof -
  let ?js = "filter isIndirect (e_insts e)"
  obtain nf r where f: "fold (indirect_step e) ?js (False, direct_pass e empty_result) = (nf, r)"
    by (cases "fold (indirect_step e) ?js (False, direct_pass e empty_result)") auto
  have i: "i \<in> set ?js" using assms by simp
  then have "?js \<noteq> []" by (metis list.set(1) empty_iff)
  then have an: "analyze e = (if nf then fallback e r else r)" by (simp add: analyze_def Let_def f)
  show "i_address i \<in> dom (jumpTableTargets (analyze e)) \<or>
      (\<forall>b. in_function e b \<longrightarrow> b \<in> entryPoints (analyze e) \<and> b \<in> indirectFallbackEntryPoints (analyze e))"
  proof (cases nf)
    case True
    then show ?thesis
      by (auto simp: an fallback_def Let_def in_function_def instructionAddresses_def)
  next
    case False
    with indirect_fold_ok(4) [OF f False i] show ?thesis by (simp add: an)
  qed
  show "i_address i + 8 \<in> resumeEntryPoints (analyze e)"
    if "i_function i = SPECIAL_JALR" "in_function e (i_address i + 8)"
    using indirect_fold_ok(5) [OF f i that] fallback_grows [of r e] by (auto simp: an grows_def)
qed

text \<open>What one instruction establishes in the direct pass.\<close>

lemma direct_establishes:
  assumes "i \<in> set (e_insts e)"
  shows "(\<And>r. a \<in> entryPoints (direct_step e i r)) \<Longrightarrow> a \<in> entryPoints (analyze e)"
    "(\<And>r. a \<in> resumeEntryPoints (direct_step e i r)) \<Longrightarrow> a \<in> resumeEntryPoints (analyze e)"
proof -
  note d = dir.fold_establishes [OF assms, where e = e and r = empty_result]
  have 1: "entryPoints (direct_pass e empty_result) \<subseteq> entryPoints (analyze e)"
    "resumeEntryPoints (direct_pass e empty_result) \<subseteq> resumeEntryPoints (analyze e)"
    using analyze_grows [of e] by (simp_all add: grows_def)
  show "a \<in> entryPoints (analyze e)" if "\<And>r. a \<in> entryPoints (direct_step e i r)"
    using d [of "\<lambda>r. a \<in> entryPoints r"] that 1 unfolding direct_pass_def grows_def by blast
  show "a \<in> resumeEntryPoints (analyze e)" if "\<And>r. a \<in> resumeEntryPoints (direct_step e i r)"
    using d [of "\<lambda>r. a \<in> resumeEntryPoints r"] that 1 unfolding direct_pass_def grows_def by blast
qed

lemma step_members:
  "a \<in> entryPoints (add_entry a r)"
  "a \<in> entryPoints r \<Longrightarrow> a \<in> entryPoints (queueResumeEntryTarget e b r)"
  "a \<in> entryPoints r \<Longrightarrow> a \<in> entryPoints (queueLoopResumeEntryTarget e t pc r)"
  "in_function e a \<Longrightarrow> a \<in> resumeEntryPoints (queueResumeEntryTarget e a r)"
  "a \<in> resumeEntryPoints r \<Longrightarrow> a \<in> resumeEntryPoints (queueResumeEntryTarget e b r)"
  "in_function e t \<Longrightarrow> t \<le> pc \<Longrightarrow> t \<noteq> f_start (e_function e) \<Longrightarrow>
     t \<in> resumeEntryPoints (queueLoopResumeEntryTarget e t pc r)"
  by (auto simp: queueResumeEntryTarget_def queueLoopResumeEntryTarget_def add_entry_def)

lemma analyze_branch:
  assumes i: "i \<in> set (e_insts e)"
    and b: "isBranch i" "i_opcode i \<noteq> OPCODE_J" "i_opcode i \<noteq> OPCODE_JAL"
    "in_function e (branch_target i)"
  shows "branch_target i \<in> entryPoints (analyze e)"
    "branch_target i \<le> i_address i \<Longrightarrow> branch_target i \<noteq> f_start (e_function e) \<Longrightarrow>
      branch_target i \<in> resumeEntryPoints (analyze e)"
proof -
  have d: "direct_step e i r = queueLoopResumeEntryTarget e (branch_target i) (i_address i)
      (add_entry (branch_target i) r)" for r
    using b by (simp add: direct_step_def Let_def)
  show "branch_target i \<in> entryPoints (analyze e)"
    by (rule direct_establishes(1) [OF i]) (simp add: d step_members)
  show "branch_target i \<in> resumeEntryPoints (analyze e)"
    if "branch_target i \<le> i_address i" "branch_target i \<noteq> f_start (e_function e)"
    by (rule direct_establishes(2) [OF i]) (simp add: d step_members that b(4))
qed

lemma analyze_jump:
  assumes i: "i \<in> set (e_insts e)" and op: "i_opcode i = OPCODE_J \<or> i_opcode i = OPCODE_JAL"
  defines "t \<equiv> buildAbsoluteJumpTarget (i_address i) (i_target i)"
  shows "in_function e t \<Longrightarrow> t \<in> entryPoints (analyze e)"
    "in_function e t \<Longrightarrow> t \<le> i_address i \<Longrightarrow> t \<noteq> f_start (e_function e) \<Longrightarrow>
      t \<in> resumeEntryPoints (analyze e)"
    "i_opcode i = OPCODE_JAL \<Longrightarrow> in_function e (i_address i + 8) \<Longrightarrow>
      i_address i + 8 \<in> resumeEntryPoints (analyze e)"
proof -
  have d: "direct_step e i r =
      (let r = (if in_function e t then queueLoopResumeEntryTarget e t (i_address i) (add_entry t r)
                else queueExternalEntryTarget e t r)
       in if i_opcode i = OPCODE_JAL then queueResumeEntryTarget e (i_address i + 8) r else r)" for r
    using op by (auto simp: direct_step_def Let_def t_def)
  show "in_function e t \<Longrightarrow> t \<in> entryPoints (analyze e)"
    by (rule direct_establishes(1) [OF i]) (simp add: d Let_def step_members)
  show "in_function e t \<Longrightarrow> t \<le> i_address i \<Longrightarrow> t \<noteq> f_start (e_function e) \<Longrightarrow>
      t \<in> resumeEntryPoints (analyze e)"
    by (rule direct_establishes(2) [OF i]) (simp add: d Let_def step_members)
  show "i_opcode i = OPCODE_JAL \<Longrightarrow> in_function e (i_address i + 8) \<Longrightarrow>
      i_address i + 8 \<in> resumeEntryPoints (analyze e)"
    by (rule direct_establishes(2) [OF i]) (simp add: d Let_def step_members)
qed

text \<open>The analyzer computes branch targets in 64-bit arithmetic; it agrees with the decoder.\<close>

lemma branch_target_eq:
  "isBranch i \<Longrightarrow> i_simmediate i = SIMMEDIATE w \<Longrightarrow> branch_target i = getBranchTarget i"
proof -
  assume "isBranch i" and s: "i_simmediate i = SIMMEDIATE w"
  have trunc: "scast (ucast (SIMMEDIATE w) :: u16) = SIMMEDIATE w"
    unfolding SIMMEDIATE_def by (rule bit_eqI) (auto simp: bit_simps)
  have "(ucast ((ucast x :: u64) + scast y) :: u32) = x + y" for x y :: u32
  proof -
    have "(ucast (u + v) :: u32) = ucast u + ucast v" for u v :: u64
      by (rule word_uint_eqI)
        (simp add: uint_word_ariths unsigned_ucast_eq take_bit_eq_mod mod_simps mod_mod_cancel)
    moreover have "(ucast (scast y :: u64) :: u32) = y" "(ucast (ucast x :: u64) :: u32) = x"
      by (rule bit_eqI, force simp: bit_simps)+
    ultimately show ?thesis by simp
  qed
  then show ?thesis
    using \<open>isBranch i\<close> by (simp add: branch_target_def getBranchTarget_def s trunc)
qed

text \<open>The loop over a table in memory, entry by entry.\<close>

lemma entry_offset:
  assumes "unat (s_address s) + unat (s_size s) + 4 < 2 ^ 32" "entry_in_bounds s a"
    "unat a \<le> unat (s_address s) + unat (s_size s)"
  shows "unat (a - s_address s) + 4 \<le> unat (s_size s)"
    "unat (a + 4 - s_address s) = unat (a - s_address s) + 4" "s_address s \<le> a + 4"
    "unat (a + 4) \<le> unat (s_address s) + unat (s_size s)"
proof -
  have 1: "unat (s_address s + s_size s) = unat (s_address s) + unat (s_size s)"
    "unat (a + 4) = unat a + 4"
    using assms(1,3) by (simp_all add: unat_word_ariths)
  have 2: "s_address s \<le> a" "a + 4 \<le> s_address s + s_size s"
    using assms(2) by (simp_all add: entry_in_bounds_def)
  then have 3: "unat (s_address s) \<le> unat a" "unat a + 4 \<le> unat (s_address s) + unat (s_size s)"
    by (simp_all add: word_le_nat_alt 1)
  have 4: "unat (a - s_address s) = unat a - unat (s_address s)" using 2(1) by (simp add: unat_sub)
  show "s_address s \<le> a + 4" using 3 by (simp add: word_le_nat_alt 1)
  then show "unat (a + 4 - s_address s) = unat (a - s_address s) + 4"
    using 3 by (simp add: unat_sub 1 4)
  show "unat (a - s_address s) + 4 \<le> unat (s_size s)"
    "unat (a + 4) \<le> unat (s_address s) + unat (s_size s)" using 3 4 1 by simp_all
qed

lemma read_table_exact:
  assumes "unat (s_address s) + unat (s_size s) + 4 < 2 ^ 32"
    "read_table e s d a n js r = (True, js', r')" "s_address s \<le> a"
    "unat a \<le> unat (s_address s) + unat (s_size s)"
  shows "unat (a - s_address s) + 4 * n \<le> unat (s_size s) \<and>
    set js' = set js \<union>
      {t. \<exists>k<n. t = data_word d (unat (a - s_address s) + 4 * k) \<and> in_function e t}"
  using assms(2-)
proof (induction n arbitrary: a js r)
  case 0
  then have "unat (a - s_address s) \<le> unat (s_size s)" by (simp add: unat_sub word_le_nat_alt)
  with 0 show ?case by simp
next
  case (Suc n)
  let ?o = "unat (a - s_address s)"
  have b: "entry_in_bounds s a" using Suc.prems(1) by (simp split: if_splits)
  note off = entry_offset [OF assms(1) b Suc.prems(3)]
  let ?t = "data_word d ?o"
  define js1 where "js1 = (if in_function e ?t \<and> ?t \<notin> set js then js @ [?t] else js)"
  obtain r1 where s: "read_table e s d (a + 4) n js1 r1 = (True, js', r')"
    using Suc.prems(1) b by (auto simp: Let_def js1_def split: if_splits)
  have j: "set js1 = set js \<union> {t. t = ?t \<and> in_function e t}"
    by (auto simp: js1_def)
  have split: "(\<exists>k<Suc n. P k) \<longleftrightarrow> P 0 \<or> (\<exists>k<n. P (Suc k))" for P
    by (metis less_Suc_eq_0_disj)
  have IH: "?o + 4 + 4 * n \<le> unat (s_size s)"
    "set js' = set js1 \<union> {t. \<exists>k<n. t = data_word d (?o + 4 + 4 * k) \<and> in_function e t}"
    using Suc.IH [OF s off(3,4)] by (simp_all only: off(2))
  show ?case
    using IH by (auto simp: j split add.assoc)
qed

section \<open>Properties\<close>

text \<open>
  C16 (soundness of the analysis): for any function and any instructions, every entry point is the
  address of a decoded instruction inside the function, resume points and fallback points are
  entry points, every recorded jump table belongs to a register jump and lists distinct entry
  points, and every external entry point lies strictly inside another recompiled function in a
  code section, so the recompiler never registers a label that does not exist.
\<close>

theorem analyze_sound: "cf_inv e (analyze e)"
  by (rule analyze_inv)


text \<open>A function with a loop, a call through a register and a jump table.\<close>

definition demo_func :: func where
  "demo_func = \<lparr>f_name = ''demo'', f_start = 0x100000, f_end = 0x100018, f_isRecompiled = True,
     f_isStub = False, f_isSkipped = False\<rparr>"

definition demo_code :: section_rec where
  "demo_code = \<lparr>s_address = 0x100000, s_size = 0x18, s_isCode = True, s_data = None\<rparr>"

definition demo_env :: cf_env where
  "demo_env = \<lparr>e_sections = [demo_code], e_config = (\<lambda>_. None), e_function = demo_func,
     e_insts = [decodeInstruction demo_rz 0x100000 0 False,
                decodeInstruction demo_rz 0x100004 0 False,
                decodeInstruction demo_rz 0x100008 0x1000FFFE False,
                decodeInstruction demo_rz 0x10000C 0x0040F809 False,
                decodeInstruction demo_rz 0x100010 0 False,
                decodeInstruction demo_rz 0x100014 0 False],
     e_all = Some [demo_func]\<rparr>"



definition demo_data :: "nat \<Rightarrow> u8" where
  "demo_data k = (if k < 8 then [0x04, 0x00, 0x10, 0x00, 0x14, 0x00, 0x10, 0x00] ! k else 0)"

definition demo_table :: section_rec where
  "demo_table = \<lparr>s_address = 0x200000, s_size = 8, s_isCode = False, s_data = Some demo_data\<rparr>"

definition demo_switch :: cf_env where
  "demo_switch = demo_env\<lparr>e_sections := [demo_code, demo_table],
     e_insts := [decodeInstruction demo_rz 0x100000 0x2C820002 False,
                 decodeInstruction demo_rz 0x100004 0x00041880 False,
                 decodeInstruction demo_rz 0x100008 0x3C010020 False,
                 decodeInstruction demo_rz 0x10000C 0x00230821 False,
                 decodeInstruction demo_rz 0x100010 0x8C210000 False,
                 decodeInstruction demo_rz 0x100014 0x00200008 False]\<rparr>"

definition demo_site :: table_site where
  "demo_site = \<lparr>ts_addu = 3, ts_base = 1, ts_index = 3, ts_address = 0x200000\<rparr>"

lemma demo_switch_fields:
  "OPCODE 0x2C820002 = 11" "FUNCTION 0x2C820002 = 2" "RS 0x2C820002 = 4"
  "RT 0x2C820002 = 2" "RD 0x2C820002 = 0" "IMMEDIATE 0x2C820002 = 2"
  "OPCODE 0x00041880 = 0" "FUNCTION 0x00041880 = 0" "RS 0x00041880 = 0"
  "RT 0x00041880 = 4" "RD 0x00041880 = 3" "IMMEDIATE 0x00041880 = 6272"
  "OPCODE 0x3C010020 = 15" "FUNCTION 0x3C010020 = 32" "RS 0x3C010020 = 0"
  "RT 0x3C010020 = 1" "RD 0x3C010020 = 0" "IMMEDIATE 0x3C010020 = 32"
  "OPCODE 0x00230821 = 0" "FUNCTION 0x00230821 = 33" "RS 0x00230821 = 1"
  "RT 0x00230821 = 3" "RD 0x00230821 = 1" "IMMEDIATE 0x00230821 = 2081"
  "OPCODE 0x8C210000 = 35" "FUNCTION 0x8C210000 = 0" "RS 0x8C210000 = 1"
  "RT 0x8C210000 = 1" "RD 0x8C210000 = 0" "IMMEDIATE 0x8C210000 = 0"
  "OPCODE 0x00200008 = 0" "FUNCTION 0x00200008 = 8" "RS 0x00200008 = 1"
  "RT 0x00200008 = 0" "RD 0x00200008 = 0" "IMMEDIATE 0x00200008 = 8"
  "SIMMEDIATE 0x8C210000 = 0"
  by (simp_all add: OPCODE_def FUNCTION_def RS_def RT_def RD_def IMMEDIATE_def SIMMEDIATE_def
      drop_bit_eq_div)

lemma search_back_unfold:
  "search_back P xs i k =
     (if k = 0 \<or> i = 0 then None
      else if P (xs ! (i - 1)) then Some (i - 1) else search_back P xs (i - 1) (k - 1))"
  by (cases i; cases k) simp_all

lemma demo_switch_site:
  "find_table_site (e_insts demo_switch) (decodeInstruction demo_rz 0x100014 0x00200008 False)
   = Some demo_site"
  by (simp add: find_table_site_def demo_switch_def demo_env_def demo_site_def demo_switch_fields
      search_back_unfold push_bit_eq_mult Let_def)

lemma demo_switch_cases: "num_cases (e_insts demo_switch) demo_site = 2"
  by (simp add: num_cases_def demo_switch_def demo_env_def demo_site_def demo_switch_fields
      search_back_unfold Let_def)

lemma demo_switch_entries:
  "data_word demo_data 0 = 0x100004" "data_word demo_data 4 = 0x100014"
  "in_function demo_switch 0x100004" "in_function demo_switch 0x100014"
  by (simp_all add: data_word_def demo_data_def push_bit_eq_mult in_function_def
      instructionAddresses_def demo_switch_def demo_env_def demo_func_def)

lemma demo_switch_table:
  "memory_table demo_switch 0x100014 demo_site empty_result
   = (True, record_table 0x100014 [0x100004, 0x100014] empty_result)"
proof -
  have sec: "find (in_section (ts_address demo_site)) (e_sections demo_switch) = Some demo_table"
    by (simp add: demo_switch_def demo_env_def demo_site_def demo_table_def demo_code_def in_section_def)
  have "read_table demo_switch demo_table demo_data 0x200000 (Suc (Suc 0)) [] empty_result
      = (True, [0x100004, 0x100014], empty_result)"
    by (simp add: entry_in_bounds_def demo_table_def demo_switch_entries Let_def)
  then have "read_table demo_switch demo_table demo_data 0x200000 2 [] empty_result
      = (True, [0x100004, 0x100014], empty_result)"
    by (simp only: numeral_2_eq_2)
  with sec show ?thesis
    by (simp add: memory_table_def Let_def demo_switch_cases) (simp add: demo_table_def demo_site_def)
qed


end
