(* ===== verification/Spec2Isabelle.thy ===== *)
theory Spec2Isabelle
  imports DmacProps SemaphoreProps EventFlagProps ThreadLifeProps GuestHeap EEMemory IopMemory IopCpu ControlFlow
begin

text \<open>
  Verification library of SDBZ-Recomp, a static recompiler for PlayStation 2 programs and the runtime
  its output is linked with. The recompiler (\<open>src/ps2xRecomp\<close>) decodes the MIPS code of an ELF file,
  finds its control flow and prints C++; the runtime (\<open>src/ps2xRuntime\<close>) gives the printed code the
  machine it expects: main memory, the kernel with its threads and synchronisation objects, the I/O
  processor, and the graphics hardware behind its DMA channels.

  \<^bold>\<open>Parts and theories.\<close>

  \<^item> \<open>Prelude\<close> fixes the machine integers (\<open>u8\<close> to \<open>u128\<close> as words, which wrap) and the facts shared by
    the components.

  \<^item> Recompiler: \<open>Decoder\<close> is \<open>r5900_decoder.cpp\<close>, one function per instruction group over a record of
    the \<open>Instruction\<close> members; the answers of the third-party disassembler are a parameter.
    \<open>ControlFlow\<close> is \<open>control_flow_analyzer.cpp\<close>: the entry points, resume points and jump tables of a
    function.

  \<^item> Main memory: \<open>GuestMemory\<close> (pointer resolution and the masked fast accesses of
    \<open>ps2_runtime_macros.h\<close>), \<open>EEMemory\<close> (segments, the software TLB, VU memory and code tracking of
    \<open>ps2_memory.cpp\<close>), \<open>GuestHeap\<close> (the guest allocator of \<open>ps2_runtime.cpp\<close>).

  \<^item> Scheduler: \<open>EEContext\<close> (the registers a system call sees), \<open>RunQueue\<close> (the intrusive list of
    \<open>ps2_scheduler_internal.h\<close> at pointer level), \<open>Scheduler\<close> (every critical section of
    \<open>ps2_scheduler.cpp\<close> as a function on its globals), \<open>SchedulerInv\<close> (the sections as a step relation,
    with the invariant) and \<open>SchedulerProps\<close>.

  \<^item> Kernel (\<open>Kernel/Syscalls\<close>): \<open>Kernel\<close> (objects and wait lists), \<open>Semaphore\<close>, \<open>EventFlag\<close>, \<open>Thread\<close>
    and \<open>ThreadLife\<close>, each cut at the points where a thread gives the processor up, on top of the
    scheduler; their properties are in the theories named \<open>...Props\<close>.

  \<^item> I/O processor: \<open>IopMemory\<close> (its RAM and the SIF transfers of \<open>ps2_memory.cpp\<close>) and \<open>IopCpu\<close> (the
    interpreter of \<open>ps2_iop_cpu.cpp\<close>).

  \<^item> Graphics: \<open>Dmac\<close> (DMA channels and source chains of \<open>ps2_memory.cpp\<close>) feeds \<open>Vif\<close>
    (\<open>ps2_vif1_interpreter.cpp\<close>) and the GIF; \<open>GifPacket\<close> is the packet loop of \<open>ps2_gs_gpu.cpp\<close> and the
    arbiter of \<open>ps2_gif_arbiter.cpp\<close>; \<open>GSRegisters\<close> its register file and vertex queue; \<open>GSTransfer\<close>
    the image transfers; \<open>GSTexture\<close> the page and palette caches; \<open>GSMemory\<close> and \<open>GSReadout\<close> the
    swizzled local memory of \<open>ps2_gs_memory.cpp\<close> with its SSE readouts.

  \<^bold>\<open>State and errors.\<close> A class or a group of globals is a record, a handler is a function from the
  state to the new state. Exceptions, undefined behaviour (an index outside an array, signed overflow)
  and failing callbacks are \<open>None\<close>; error codes are the values the code returns. Blocking calls are
  several functions, one per critical section, and the step relations interleave them freely.
  Diagnostics, counters that nothing reads and log output are left out.

  \<^bold>\<open>Interfaces.\<close> The locale \<open>ready_queue\<close> is what the scheduler needs of a queue, interpreted by the
  pointer code and by lists; \<open>region_allocator\<close> is the contract of the guest heap; \<open>inst_pass\<close> that of a
  decoder step and \<open>cf_step\<close> that of an analyzer step, each interpreted on the code's functions.

  \<^bold>\<open>What is shown.\<close>

  \<^item> Scheduler: at most one party runs guest code; the run queue is the sorted set of ready fibers; no
    fiber and no wakeup is lost; host workers get their turn; the pointer queue refines the list.

  \<^item> Kernel: semaphores refine an abstract counting semaphore under every interleaving, wait lists are
    exact, event flag waits succeed exactly when their condition holds, a wakeup reaches its sleeper,
    and stacks and the count of active threads balance over thread lives; errors of each call.

  \<^item> Memory: allocations are fresh and aligned, found whenever a block fits, undone by \<open>free\<close>, and kept by
    \<open>realloc\<close>; the fast accesses equal byte-wise accesses with wrap-around; translation agrees with the
    TLB probe.

  \<^item> Processors: the IOP run loop returns, and multiplication and division are those of the hardware;
    decoded instructions are well formed and their register effects right; the analyzer finds the
    targets of direct branches and exactly the entries of a jump table.

  \<^item> Graphics: pixels round-trip and the storage modes that share words do not disturb each other; block
    readouts equal pixel-wise reads; uploads, copies and read-back are exact, however the data is cut;
    the caches are coherent; the shortcuts for GIF packets agree with the general loop; the arbiter
    keeps its order; the rasterizer gets the primitives of the vertex sequence; \<open>UNPACK\<close> writes exactly
    its vectors; VIF streams may be cut at commands; and a DMA start runs the transfer it names, from
    the register write to the GS, and completes the channel.

  \<^bold>\<open>Bounds and loops.\<close> Loops are structural recursions or functions with a termination proof. A walk over
  a linked list that may be cyclic is the option monad's fixed point, with \<open>None\<close> for an endless walk, and
  is proved to return on well-formed queues. A DMA chain runs over at most 4096 tags, the limit in the
  code. Offsets into packets are natural numbers, as for packets of less than 4 GB less 16 bytes, and
  less 8 KB for VIF buffers; the runtime's buffers come from 32 MB of RAM.

  \<^bold>\<open>Not modelled.\<close> The rasterizer (float arithmetic per pixel; a parameter of the register file), the VU
  interpreters (a callback of the VIF), the timers and the IPU of \<open>writeIORegister\<close>, the native shortcuts
  for GIF chains, presentation and debug output of the GS, the dispatcher of recompiled functions, fibers
  as host contexts (a resume is one step), interrupts and alarms on host threads, the service stubs
  (RPC, files, pads, audio, MPEG), IOP modules, the back end that prints C++ and the parsers of ELF and
  configuration files, the analyzer's heuristics, graphical tools, tables of single games, and tests.
\<close>

end
